(* ===== verification/CDC_Prelude.thy ===== *)
theory CDC_Prelude
  imports Main "HOL-Library.AList" "HOL-Library.Char_ord" "HOL-Library.List_Lexorder"
    "HOL-Library.Product_Lexorder"
begin

text \<open>
  The prelude of the development: what the component theories share.

  \<^item> results: a Python function that may raise is a HOL function into \<open>'e + 'a\<close>, with
    \<open>Inl\<close> for the exception and \<open>Inr\<close> for the returned value; \<open>rbind\<close> is "call, and
    let an exception propagate", \<open>rfold\<close> is a \<open>for\<close> loop whose body may raise;
  \<^item> Python truthiness: \<open>x or y\<close> on optional integers and strings (0 and the empty string are
    falsy, so they are replaced as well as \<open>None\<close>);
  \<^item> dictionaries: an insertion-ordered \<open>dict\<close> is an association list updated by
    \<open>AList.update\<close>, which keeps the position of a key that is present and appends a
    new one, as Python does.
  The collections \<open>result_simps\<close> and \<open>dict_simps\<close> hold the facts the component proofs
  pass to \<open>simp\<close> and \<open>auto\<close>.
\<close>

named_theorems result_simps "rewriting of results that may be exceptions"
named_theorems dict_simps "rewriting of insertion-ordered dictionaries"

section \<open>Results: returned value or raised exception\<close>

definition rbind :: "'e + 'a \<Rightarrow> ('a \<Rightarrow> 'e + 'b) \<Rightarrow> 'e + 'b" where
  "rbind m f = (case m of Inl e \<Rightarrow> Inl e | Inr a \<Rightarrow> f a)"

lemma rbind_simps [simp]:
  "rbind (Inl e) f = Inl e"
  "rbind (Inr a) f = f a"
  by (simp_all add: rbind_def)

lemma rbind_eq_Inr [result_simps]:
  "rbind m f = Inr b \<longleftrightarrow> (\<exists>a. m = Inr a \<and> f a = Inr b)"
  by (cases m) simp_all

lemma rbind_eq_Inl [result_simps]:
  "rbind m f = Inl e \<longleftrightarrow> m = Inl e \<or> (\<exists>a. m = Inr a \<and> f a = Inl e)"
  by (cases m) simp_all

lemma rbind_Inr_right [simp]: "rbind m Inr = m"
  by (cases m) simp_all

lemma rbind_assoc: "rbind (rbind m f) g = rbind m (\<lambda>a. rbind (f a) g)"
  by (cases m) simp_all

text \<open>\<open>if bad: raise e\<close>, as a guard in front of the rest of a body.\<close>

definition raise_if :: "bool \<Rightarrow> 'e \<Rightarrow> 'e + unit" where
  "raise_if b e = (if b then Inl e else Inr ())"

lemma raise_if_simps [simp]:
  "raise_if True e = Inl e"
  "raise_if False e = Inr ()"
  by (simp_all add: raise_if_def)

lemma raise_if_Inr [result_simps]: "raise_if b e = Inr u \<longleftrightarrow> \<not> b"
  by (simp add: raise_if_def)

lemma raise_if_Inl [result_simps]: "raise_if b e = Inl e' \<longleftrightarrow> b \<and> e' = e"
  by (auto simp: raise_if_def)

text \<open>A loop over a list whose body may raise; an exception ends the loop.\<close>

fun rfold :: "('s \<Rightarrow> 'x \<Rightarrow> 'e + 's) \<Rightarrow> 's \<Rightarrow> 'x list \<Rightarrow> 'e + 's" where
  "rfold f s [] = Inr s"
| "rfold f s (x # xs) = rbind (f s x) (\<lambda>s'. rfold f s' xs)"

lemma rfold_append: "rfold f s (xs @ ys) = rbind (rfold f s xs) (\<lambda>s'. rfold f s' ys)"
  by (induction xs arbitrary: s) (simp_all add: rbind_assoc)

text \<open>Loop invariants: an invariant that one pass keeps holds after the loop.\<close>

lemma rfold_invariant:
  assumes "rfold f s xs = Inr s'" and "P s"
    and "\<And>s x s'. P s \<Longrightarrow> x \<in> set xs \<Longrightarrow> f s x = Inr s' \<Longrightarrow> P s'"
  shows "P s'"
  using assms
proof (induction xs arbitrary: s)
  case Nil
  then show ?case by simp
next
  case (Cons x xs)
  from Cons.prems(1) obtain t where "f s x = Inr t" and "rfold f t xs = Inr s'"
    by (auto simp: rbind_eq_Inr)
  moreover from this(1) have "P t" using Cons.prems(2,3) by (metis list.set_intros(1))
  moreover have "\<And>s x s'. P s \<Longrightarrow> x \<in> set xs \<Longrightarrow> f s x = Inr s' \<Longrightarrow> P s'"
    using Cons.prems(3) by (metis list.set_intros(2))
  ultimately show ?case using Cons.IH by metis
qed

definition is_ok :: "'e + 'a \<Rightarrow> bool" where
  "is_ok m = (case m of Inl _ \<Rightarrow> False | Inr _ \<Rightarrow> True)"

lemma is_ok_simps [simp]: "\<not> is_ok (Inl e)" "is_ok (Inr a)"
  by (simp_all add: is_ok_def)

lemma is_ok_iff: "is_ok m \<longleftrightarrow> (\<exists>a. m = Inr a)"
  by (cases m) simp_all

text \<open>Reading an evaluated run: it returned, and what it returned satisfies \<open>P\<close>.\<close>

lemma run_okE:
  assumes "case m of Inl _ \<Rightarrow> False | Inr (a, b) \<Rightarrow> P a b"
  obtains a b where "m = Inr (a, b)" and "P a b"
  using assms by (cases m) auto

lemma some_okE:
  assumes "case m of None \<Rightarrow> False | Some a \<Rightarrow> P a"
  obtains a where "m = Some a" and "P a"
  using assms by (cases m) auto

section \<open>Python truthiness\<close>

definition int_or :: "int option \<Rightarrow> int \<Rightarrow> int" where
  \<comment> \<open>\<open>x or d\<close> for \<open>x: int | None\<close>\<close>
  "int_or x d = (case x of None \<Rightarrow> d | Some n \<Rightarrow> if n = 0 then d else n)"

lemma int_or_simps [simp]:
  "int_or None d = d"
  "int_or (Some n) d = (if n = 0 then d else n)"
  by (simp_all add: int_or_def)

definition truthy_int :: "int option \<Rightarrow> bool" where
  "truthy_int x = (case x of None \<Rightarrow> False | Some n \<Rightarrow> n \<noteq> 0)"

definition truthy_str :: "string option \<Rightarrow> bool" where
  "truthy_str x = (case x of None \<Rightarrow> False | Some s \<Rightarrow> s \<noteq> [])"

lemma truthy_simps [simp]:
  "\<not> truthy_int None" "truthy_int (Some n) \<longleftrightarrow> n \<noteq> 0"
  "\<not> truthy_str None" "truthy_str (Some s) \<longleftrightarrow> s \<noteq> []"
  by (simp_all add: truthy_int_def truthy_str_def)

lemma truthy_strE:
  assumes "truthy_str x"
  obtains s where "x = Some s" and "s \<noteq> []"
  using assms by (cases x) auto

section \<open>Insertion-ordered dictionaries\<close>

type_synonym ('k, 'v) dict = "('k \<times> 'v) list"

definition dict_get :: "('k, 'v) dict \<Rightarrow> 'k \<Rightarrow> 'v \<Rightarrow> 'v" where
  \<comment> \<open>\<open>d.get(k, default)\<close>\<close>
  "dict_get d k dflt = (case map_of d k of None \<Rightarrow> dflt | Some v \<Rightarrow> v)"

abbreviation dict_has :: "('k, 'v) dict \<Rightarrow> 'k \<Rightarrow> bool" where
  "dict_has d k \<equiv> k \<in> fst ` set d"

lemma dict_get_update [simp, dict_simps]:
  "dict_get (AList.update k v d) k' dflt = (if k' = k then v else dict_get d k' dflt)"
  by (simp add: dict_get_def update_conv')

lemma dict_get_Nil [simp, dict_simps]: "dict_get [] k dflt = dflt"
  by (simp add: dict_get_def)

lemma dict_has_update [dict_simps]:
  "fst ` set (AList.update k v d) = insert k (fst ` set d)"
  by (simp add: dom_update)

lemma dict_get_absent [dict_simps]: "\<not> dict_has d k \<Longrightarrow> dict_get d k dflt = dflt"
  by (simp add: dict_get_def map_of_eq_None_iff [THEN iffD2])

lemma distinct_dict_update:
  "distinct (map fst d) \<Longrightarrow> distinct (map fst (AList.update k v d))"
  by (rule distinct_update)

lemma alist_update_new: "k \<notin> fst ` set d \<Longrightarrow> AList.update k v d = d @ [(k, v)]"
  by (induction d) auto

section \<open>Lists\<close>

lemma filter_fst_Cons: "map snd (filter (\<lambda>p. fst p = a) ((x, y) # ps)) =
    (if x = a then y # map snd (filter (\<lambda>p. fst p = a) ps)
     else map snd (filter (\<lambda>p. fst p = a) ps))"
  by simp

text \<open>The set \<open>set(range(1, n + 1))\<close>.\<close>

lemma inj_on_card_upto:
  assumes "finite S" and "card S = n" and "S \<subseteq> {1..n}"
  shows "S = {1..n::nat}"
  by (rule card_subset_eq) (use assms in auto)

end
