(* ===== verification/States.thy ===== *)
theory States
  imports CDC_Prelude
begin

text \<open>
  Named states and declared transitions: a model of \<open>src/cdc_flight/states.py\<close>.

  A \<open>machine\<close> is a frozen state domain with its legal edges; \<open>machine_init\<close> is the
  validating constructor, \<open>machine_check\<close> the guard every durable state write goes through,
  \<open>reachable_states\<close> the worklist the coverage matrix runs on and \<open>ranked\<close> the
  constructor of a precedence. Sets that Python keeps as \<open>frozenset\<close> are lists here
  and are only read through \<open>set\<close>; the \<open>purpose\<close> text of a machine is documentation and
  is left out.

  The locale \<open>guarded_state\<close> is the contract of an object whose state is only written
  after \<open>machine_check\<close>: it is what the owners of a machine promise, and what its
  lemmas give them is that no run leaves the declared edges.
\<close>

section \<open>The data\<close>

datatype state_error =
    UnknownState
  | IllegalTransition
  | DuplicateState
  | UndeclaredStates
  | DuplicateInitial
  | UndeclaredInitial
  | InitialNotListed
  | DuplicateMachine
  | DuplicateValue
  | DuplicateDomain

type_synonym edge = "string \<times> string"

record machine =
  m_name :: string
  m_states :: "string list"
  m_edges :: "edge list"
  m_terminal :: "string list"
  m_initial_states :: "string list"
  m_initial :: "string option"
  m_durable :: "string option"

type_synonym registry = "(string, machine) dict"

section \<open>Machine.__init__\<close>

definition declared_initials :: "string option \<Rightarrow> string list option \<Rightarrow> string list" where
  "declared_initials initial initial_states =
     (case initial_states of
        Some xs \<Rightarrow> xs
      | None \<Rightarrow> (case initial of None \<Rightarrow> [] | Some s \<Rightarrow> [s]))"

definition make_machine ::
  "string \<Rightarrow> string list \<Rightarrow> edge list \<Rightarrow> string list \<Rightarrow> string option \<Rightarrow>
   string list option \<Rightarrow> string option \<Rightarrow> machine" where
  "make_machine name states edges terminal initial initial_states durable =
     (let inits = declared_initials initial initial_states in
      \<lparr>m_name = name, m_states = states, m_edges = edges, m_terminal = terminal,
       m_initial_states = inits,
       m_initial = (case initial of
                      Some s \<Rightarrow> Some s
                    | None \<Rightarrow> (case inits of [] \<Rightarrow> None | s # _ \<Rightarrow> Some s)),
       m_durable = durable\<rparr>)"

definition machine_init ::
  "string \<Rightarrow> string list \<Rightarrow> edge list \<Rightarrow> string list \<Rightarrow> string option \<Rightarrow>
   string list option \<Rightarrow> string option \<Rightarrow> registry \<Rightarrow> state_error + machine \<times> registry" where
  "machine_init name states edges terminal initial initial_states durable reg =
     (let inits = declared_initials initial initial_states in
      if \<not> distinct states then Inl DuplicateState
      else if \<not> (set (map fst edges) \<union> set (map snd edges) \<union> set terminal \<subseteq> set states)
        then Inl UndeclaredStates
      else if \<not> distinct inits then Inl DuplicateInitial
      else if \<not> set inits \<subseteq> set states then Inl UndeclaredInitial
      else if initial \<noteq> None \<and> the initial \<notin> set inits then Inl InitialNotListed
      else if dict_has reg name then Inl DuplicateMachine
      else let m = make_machine name states edges terminal initial initial_states durable
           in Inr (m, AList.update name m reg))"

text \<open>What a constructed machine satisfies.\<close>

definition wf_machine :: "machine \<Rightarrow> bool" where
  "wf_machine m \<longleftrightarrow>
     distinct (m_states m) \<and>
     (\<forall>e \<in> set (m_edges m). fst e \<in> set (m_states m) \<and> snd e \<in> set (m_states m)) \<and>
     set (m_terminal m) \<subseteq> set (m_states m) \<and>
     distinct (m_initial_states m) \<and> set (m_initial_states m) \<subseteq> set (m_states m) \<and>
     (case m_initial m of None \<Rightarrow> m_initial_states m = [] | Some s \<Rightarrow> s \<in> set (m_initial_states m))"

section \<open>Reading a state, and moving between states\<close>

definition machine_parse :: "machine \<Rightarrow> string \<Rightarrow> state_error + string" where
  "machine_parse m v = (if v \<notin> set (m_states m) then Inl UnknownState else Inr v)"

definition is_terminal :: "machine \<Rightarrow> string \<Rightarrow> state_error + bool" where
  "is_terminal m s = rbind (machine_parse m s) (\<lambda>t. Inr (t \<in> set (m_terminal m)))"

definition allows :: "machine \<Rightarrow> string \<Rightarrow> string \<Rightarrow> bool" where
  "allows m frm to \<longleftrightarrow> (frm, to) \<in> set (m_edges m)"

definition machine_check :: "machine \<Rightarrow> string \<Rightarrow> string \<Rightarrow> state_error + unit" where
  "machine_check m frm to =
     rbind (machine_parse m frm) (\<lambda>frm.
     rbind (machine_parse m to) (\<lambda>to.
     raise_if ((frm, to) \<notin> set (m_edges m)) IllegalTransition))"

definition edge_successors :: "edge list \<Rightarrow> string \<Rightarrow> string list" where
  "edge_successors es frm = remdups (map snd (filter (\<lambda>e. fst e = frm) es))"

abbreviation successors :: "machine \<Rightarrow> string \<Rightarrow> string list" where
  "successors m \<equiv> edge_successors (m_edges m)"

lemma set_edge_successors [simp]: "set (edge_successors es s) = {t. (s, t) \<in> set es}"
  by (force simp: edge_successors_def)

section \<open>reachable_states: the worklist\<close>

lemma reach_loop_decreases:
  fixes es :: "edge list"
  assumes "new = filter (\<lambda>t. t \<notin> set R) (edge_successors es s)" and "new \<noteq> []"
  shows "card (snd ` set es - set (new @ R)) < card (snd ` set es - set R)"
proof (rule psubset_card_mono)
  from \<open>new \<noteq> []\<close> obtain t where "t \<in> set new" by (meson list.set_sel(1))
  then have "t \<in> snd ` set es - set R" and "t \<notin> snd ` set es - set (new @ R)"
    using assms(1) by force+
  moreover have "snd ` set es - set (new @ R) \<subseteq> snd ` set es - set R" by auto
  ultimately show "snd ` set es - set (new @ R) \<subset> snd ` set es - set R" by blast
qed simp

text \<open>
  \<open>reach_loop es R fr\<close> is the \<open>while frontier\<close> loop: \<open>R\<close> is the set \<open>reachable\<close>, and
  the head of \<open>fr\<close> is the end of the Python list \<open>frontier\<close>, the element \<open>pop()\<close> takes.
  A state is put on the frontier only when it is new, so the pair of "targets not yet
  reached" and "frontier length" decreases.
\<close>

function reach_loop :: "edge list \<Rightarrow> string list \<Rightarrow> string list \<Rightarrow> string list" where
  "reach_loop es R [] = R"
| "reach_loop es R (s # fr) =
     (let new = filter (\<lambda>t. t \<notin> set R) (edge_successors es s)
      in reach_loop es (new @ R) (rev new @ fr))"
  by pat_completeness auto

termination
proof (relation "measures [\<lambda>(es, R, fr). card (snd ` set es - set R), \<lambda>(es, R, fr). length fr]")
  fix es R s fr new
  assume new: "new = filter (\<lambda>t. t \<notin> set R) (edge_successors es s)"
  show "((es, new @ R, rev new @ fr), es, R, s # fr)
      \<in> measures [\<lambda>(es, R, fr). card (snd ` set es - set R), \<lambda>(es, R, fr). length fr]"
  proof (cases "new = []")
    case True
    then show ?thesis by simp
  next
    case False
    then show ?thesis using reach_loop_decreases [OF new] by simp
  qed
qed simp

definition reachable_states :: "machine \<Rightarrow> string list" where
  "reachable_states m = reach_loop (m_edges m) (m_initial_states m) (rev (m_initial_states m))"

section \<open>The transition table as data, and the precedence constructor\<close>

record table_row =
  row_machine :: string
  row_from :: string
  row_to :: string
  row_terminal :: bool
  row_durable :: "string option"

definition machine_table :: "machine \<Rightarrow> table_row list" where
  "machine_table m =
     map (\<lambda>(frm, to). \<lparr>row_machine = m_name m, row_from = frm, row_to = to,
                       row_terminal = (to \<in> set (m_terminal m)), row_durable = m_durable m\<rparr>)
       (sort (remdups (m_edges m)))"

definition unreachable_cells :: "machine \<Rightarrow> edge list" where
  "unreachable_cells m =
     concat (map (\<lambda>a. map (\<lambda>b. (a, b))
       (filter (\<lambda>b. a \<noteq> b \<and> (a, b) \<notin> set (m_edges m)) (m_states m))) (m_states m))"

fun escalations :: "string list \<Rightarrow> edge list" where
  "escalations [] = []"
| "escalations (x # xs) = map (\<lambda>y. (x, y)) xs @ escalations xs"

text \<open>
  \<open>escalations order\<close> lists \<open>(order[i], order[j])\<close> for all \<open>i < j\<close> in the order of the
  two nested \<open>range\<close> loops. \<open>order[0]\<close> of an empty order raises IndexError in Python; the
  one caller passes a non-empty literal, so the empty order has no initial state here.
\<close>

definition ranked_machine :: "string \<Rightarrow> string list \<Rightarrow> string option \<Rightarrow> machine" where
  "ranked_machine name order durable =
     make_machine name order (escalations order) []
       (case order of [] \<Rightarrow> None | s # _ \<Rightarrow> Some s) None durable"

definition ranked ::
  "string \<Rightarrow> string list \<Rightarrow> string option \<Rightarrow> registry \<Rightarrow> state_error + machine \<times> registry" where
  "ranked name order durable reg =
     machine_init name order (escalations order) []
       (case order of [] \<Rightarrow> None | s # _ \<Rightarrow> Some s) None durable reg"

definition transition_rows :: "registry \<Rightarrow> table_row list" where
  "transition_rows reg = concat (map (machine_table \<circ> snd) reg)"

section \<open>Domains: frozen classifications\<close>

record domain =
  d_name :: string
  d_values :: "string list"

definition domain_init ::
  "string \<Rightarrow> string list \<Rightarrow> (string, domain) dict \<Rightarrow> state_error + domain \<times> (string, domain) dict" where
  "domain_init name values reg =
     (if \<not> distinct values then Inl DuplicateValue
      else if dict_has reg name then Inl DuplicateDomain
      else let d = \<lparr>d_name = name, d_values = values\<rparr> in Inr (d, AList.update name d reg))"

definition domain_parse :: "domain \<Rightarrow> string \<Rightarrow> state_error + string" where
  "domain_parse d v = (if v \<notin> set (d_values d) then Inl UnknownState else Inr v)"

section \<open>Construction establishes well-formedness\<close>

lemma machine_init_Inr:
  assumes "machine_init name sts es trm ini inis dur reg = Inr (m, reg')"
  shows "m = make_machine name sts es trm ini inis dur" and "reg' = AList.update name m reg"
    and "\<not> dict_has reg name" and "wf_machine m"
proof -
  show m: "m = make_machine name sts es trm ini inis dur" and "reg' = AList.update name m reg"
    and "\<not> dict_has reg name"
    using assms by (auto simp: machine_init_def Let_def split: if_splits)
  have guards: "distinct sts"
      "set (map fst es) \<union> set (map snd es) \<union> set trm \<subseteq> set sts"
      "distinct (declared_initials ini inis)" "set (declared_initials ini inis) \<subseteq> set sts"
      "ini = None \<or> the ini \<in> set (declared_initials ini inis)"
    using assms unfolding machine_init_def Let_def by (auto simp del: set_map split: if_splits)
  show "wf_machine m"
    using guards unfolding m wf_machine_def make_machine_def Let_def
    by (auto split: option.split list.split)
qed

section \<open>The transition guard\<close>

lemma machine_check_ok:
  "machine_check m a b = Inr () \<longleftrightarrow>
     a \<in> set (m_states m) \<and> b \<in> set (m_states m) \<and> allows m a b"
  by (auto simp: machine_check_def machine_parse_def allows_def result_simps)

lemma machine_check_wf:
  "wf_machine m \<Longrightarrow> machine_check m a b = Inr () \<longleftrightarrow> allows m a b"
  by (auto simp: machine_check_ok wf_machine_def allows_def)

lemma machine_check_unknown:
  "a \<notin> set (m_states m) \<Longrightarrow> machine_check m a b = Inl UnknownState"
  by (simp add: machine_check_def machine_parse_def)

lemma machine_check_illegal:
  "a \<in> set (m_states m) \<Longrightarrow> b \<in> set (m_states m) \<Longrightarrow> \<not> allows m a b \<Longrightarrow>
   machine_check m a b = Inl IllegalTransition"
  by (simp add: machine_check_def machine_parse_def allows_def)

section \<open>Correctness of the worklist\<close>

lemma reach_loop_sound:
  assumes "set R \<subseteq> {t. \<exists>s \<in> I. (s, t) \<in> (set es)\<^sup>*}" and "set fr \<subseteq> set R"
  shows "set (reach_loop es R fr) \<subseteq> {t. \<exists>s \<in> I. (s, t) \<in> (set es)\<^sup>*}"
  using assms
proof (induction es R fr rule: reach_loop.induct)
  case (1 es R)
  then show ?case by simp
next
  case (2 es R s fr)
  let ?new = "filter (\<lambda>t. t \<notin> set R) (edge_successors es s)"
  from "2.prems" obtain i where i: "i \<in> I" "(i, s) \<in> (set es)\<^sup>*" by auto
  then have "set ?new \<subseteq> {t. \<exists>s \<in> I. (s, t) \<in> (set es)\<^sup>*}"
    by (auto intro: rtrancl.rtrancl_into_rtrancl)
  with "2.prems" "2.IH" [OF refl] show ?case by (simp add: Let_def) blast
qed

text \<open>The loop invariant of the other direction: a reached state whose successors are not all
  reached yet is still on the frontier.\<close>

lemma reach_loop_closed:
  assumes "\<forall>s \<in> set R. s \<in> set fr \<or> {t. (s, t) \<in> set es} \<subseteq> set R"
  shows "set R \<subseteq> set (reach_loop es R fr) \<and>
    (\<forall>s \<in> set (reach_loop es R fr). {t. (s, t) \<in> set es} \<subseteq> set (reach_loop es R fr))"
  using assms
proof (induction es R fr rule: reach_loop.induct)
  case (1 es R)
  then show ?case by simp
next
  case (2 es R s fr)
  let ?new = "filter (\<lambda>t. t \<notin> set R) (edge_successors es s)"
  have "\<forall>u \<in> set (?new @ R). u \<in> set (rev ?new @ fr) \<or> {t. (u, t) \<in> set es} \<subseteq> set (?new @ R)"
    using "2.prems" by (auto 0 3)
  with "2.IH" [OF refl] show ?case by (simp add: Let_def)
qed

lemma closed_rtrancl:
  assumes "(s, t) \<in> E\<^sup>*" and "s \<in> S" and "\<forall>s \<in> S. {t. (s, t) \<in> E} \<subseteq> S"
  shows "t \<in> S"
  using assms by (induction rule: rtrancl_induct) auto

lemma reach_loop_eq:
  "set (reach_loop es I (rev I)) = {t. \<exists>s \<in> set I. (s, t) \<in> (set es)\<^sup>*}"
proof
  show "set (reach_loop es I (rev I)) \<subseteq> {t. \<exists>s \<in> set I. (s, t) \<in> (set es)\<^sup>*}"
    by (rule reach_loop_sound) auto
next
  have "set I \<subseteq> set (reach_loop es I (rev I)) \<and>
    (\<forall>s \<in> set (reach_loop es I (rev I)).
       {t. (s, t) \<in> set es} \<subseteq> set (reach_loop es I (rev I)))"
    by (rule reach_loop_closed) simp
  then show "{t. \<exists>s \<in> set I. (s, t) \<in> (set es)\<^sup>*} \<subseteq> set (reach_loop es I (rev I))"
    by (auto intro: closed_rtrancl)
qed

section \<open>Precedence machines\<close>

text \<open>The position of a state in a precedence.\<close>

fun rank :: "string list \<Rightarrow> string \<Rightarrow> nat" where
  "rank [] s = 0"
| "rank (x # xs) s = (if x = s then 0 else Suc (rank xs s))"

lemma escalations_iff:
  "distinct order \<Longrightarrow>
   (a, b) \<in> set (escalations order) \<longleftrightarrow>
   a \<in> set order \<and> b \<in> set order \<and> rank order a < rank order b"
  by (induction order) auto

lemma m_states_ranked [simp]: "m_states (ranked_machine n ord d) = ord"
  by (simp add: ranked_machine_def make_machine_def Let_def)

lemma allows_ranked:
  "distinct ord \<Longrightarrow> allows (ranked_machine n ord d) a b \<longleftrightarrow>
   a \<in> set ord \<and> b \<in> set ord \<and> rank ord a < rank ord b"
  by (simp add: allows_def ranked_machine_def make_machine_def Let_def escalations_iff)

section \<open>The contract of a guarded state\<close>

text \<open>
  \<open>guarded_state m st step\<close>: objects of type \<open>'s\<close> hold a state \<open>st s\<close> of machine \<open>m\<close>, and an
  operation that succeeds either leaves it alone or moves along a declared edge. The
  lemmas lift that to any sequence of operations.
\<close>

locale guarded_state =
  fixes m :: machine
    and st :: "'s \<Rightarrow> string"
    and step :: "'s \<Rightarrow> 'op \<Rightarrow> 'e + 's"
  assumes wf: "wf_machine m"
    and step_declared: "step s x = Inr s' \<Longrightarrow> st s' = st s \<or> allows m (st s) (st s')"
begin

lemma run_declared: "rfold step s xs = Inr s' \<Longrightarrow> (st s, st s') \<in> (set (m_edges m))\<^sup>*"
proof (induction xs arbitrary: s)
  case Nil
  then show ?case by simp
next
  case (Cons x xs)
  then obtain t where "step s x = Inr t" and "rfold step t xs = Inr s'"
    by (auto simp: rbind_eq_Inr)
  with Cons.IH step_declared show ?case
    by (metis allows_def converse_rtrancl_into_rtrancl)
qed

lemma run_in_domain:
  assumes "rfold step s xs = Inr s'" and "st s \<in> set (m_states m)"
  shows "st s' \<in> set (m_states m)"
  using run_declared [OF assms(1)] assms(2) wf
  by (induction rule: rtrancl_induct) (auto simp: wf_machine_def)

lemma run_reachable:
  assumes "rfold step s xs = Inr s'" and "st s \<in> set (m_initial_states m)"
  shows "st s' \<in> set (reachable_states m)"
  using run_declared [OF assms(1)] assms(2)
  unfolding reachable_states_def reach_loop_eq by blast

text \<open>A state with no outgoing edge, once entered, is never left.\<close>

lemma run_sticky:
  assumes "rfold step s xs = Inr s'" and "successors m (st s) = []"
  shows "st s' = st s"
proof -
  have "{t. (st s, t) \<in> set (m_edges m)} = {}"
    using assms(2) set_edge_successors [of "m_edges m" "st s"] by simp
  with run_declared [OF assms(1)] show ?thesis
    by (auto elim: converse_rtranclE)
qed

end

end
