(* ===== verification/Machines.thy ===== *)
theory Machines
  imports States
begin

text \<open>
  The production state machines and decision domains: a model of
  \<open>src/cdc_flight/machines.py\<close>, declaration by declaration, with the source's names.
  State names are string literals, as in the source, because they live in VARCHAR
  columns. The theorems at the end are about the declarations themselves: that importing the module
  succeeds, that no declared state is dead, and which states a path cannot avoid (the
  design rules that the comments beside the edges argue for).
\<close>

section \<open>TableLifecycle: does the destination table hold a trustworthy image?\<close>

abbreviation LIFECYCLE_ABSENT :: string where "LIFECYCLE_ABSENT \<equiv> ''absent''"
abbreviation LIFECYCLE_NONE :: string where "LIFECYCLE_NONE \<equiv> ''none''"
abbreviation LIFECYCLE_IN_PROGRESS :: string where "LIFECYCLE_IN_PROGRESS \<equiv> ''in_progress''"
abbreviation LIFECYCLE_COMPLETE :: string where "LIFECYCLE_COMPLETE \<equiv> ''complete''"
abbreviation LIFECYCLE_AWAITING :: string where "LIFECYCLE_AWAITING \<equiv> ''awaiting_snapshot''"
abbreviation LIFECYCLE_GONE :: string where "LIFECYCLE_GONE \<equiv> ''gone''"

definition TABLE_LIFECYCLE :: machine where
  "TABLE_LIFECYCLE = make_machine ''table_lifecycle''
     [LIFECYCLE_ABSENT, LIFECYCLE_NONE, LIFECYCLE_IN_PROGRESS, LIFECYCLE_COMPLETE,
      LIFECYCLE_AWAITING, LIFECYCLE_GONE]
     ([(LIFECYCLE_ABSENT, LIFECYCLE_NONE), (LIFECYCLE_ABSENT, LIFECYCLE_IN_PROGRESS),
       (LIFECYCLE_ABSENT, LIFECYCLE_AWAITING), (LIFECYCLE_NONE, LIFECYCLE_IN_PROGRESS),
       (LIFECYCLE_COMPLETE, LIFECYCLE_IN_PROGRESS),
       (LIFECYCLE_AWAITING, LIFECYCLE_IN_PROGRESS),
       (LIFECYCLE_IN_PROGRESS, LIFECYCLE_COMPLETE),
       (LIFECYCLE_AWAITING, LIFECYCLE_COMPLETE), (LIFECYCLE_NONE, LIFECYCLE_AWAITING),
       (LIFECYCLE_COMPLETE, LIFECYCLE_AWAITING),
       (LIFECYCLE_IN_PROGRESS, LIFECYCLE_AWAITING),
       (LIFECYCLE_AWAITING, LIFECYCLE_GONE), (LIFECYCLE_GONE, LIFECYCLE_AWAITING),
       (LIFECYCLE_AWAITING, LIFECYCLE_AWAITING),
       (LIFECYCLE_COMPLETE, LIFECYCLE_COMPLETE), (LIFECYCLE_NONE, LIFECYCLE_NONE),
       (LIFECYCLE_IN_PROGRESS, LIFECYCLE_NONE), (LIFECYCLE_COMPLETE, LIFECYCLE_NONE),
       (LIFECYCLE_AWAITING, LIFECYCLE_NONE), (LIFECYCLE_NONE, LIFECYCLE_ABSENT),
       (LIFECYCLE_IN_PROGRESS, LIFECYCLE_ABSENT),
       (LIFECYCLE_COMPLETE, LIFECYCLE_ABSENT), (LIFECYCLE_AWAITING, LIFECYCLE_ABSENT),
       (LIFECYCLE_GONE, LIFECYCLE_ABSENT)])
     [LIFECYCLE_COMPLETE, LIFECYCLE_GONE, LIFECYCLE_ABSENT]
     (Some LIFECYCLE_ABSENT) None
     (Some ''_cdc_flight.table_state.snapshot_state'')"

definition LIFECYCLE_OWING_WORK :: "string list" where
  "LIFECYCLE_OWING_WORK =
     filter (\<lambda>s. s \<notin> set (m_terminal TABLE_LIFECYCLE) \<and> s \<noteq> LIFECYCLE_NONE)
       (m_states TABLE_LIFECYCLE)"

definition LIFECYCLE_DURABLE_VALUES :: "string list" where
  "LIFECYCLE_DURABLE_VALUES = filter (\<lambda>s. s \<noteq> LIFECYCLE_ABSENT) (m_states TABLE_LIFECYCLE)"
section \<open>RunPhase: where a run is\<close>

abbreviation PHASE_STARTING :: string where "PHASE_STARTING \<equiv> ''starting''"
abbreviation PHASE_RECONCILING :: string where "PHASE_RECONCILING \<equiv> ''reconciling''"
abbreviation PHASE_RECOVERING :: string where "PHASE_RECOVERING \<equiv> ''recovering''"
abbreviation PHASE_SNAPSHOTTING :: string where "PHASE_SNAPSHOTTING \<equiv> ''snapshotting''"
abbreviation PHASE_STREAMING :: string where "PHASE_STREAMING \<equiv> ''streaming''"
abbreviation PHASE_DRAINING :: string where "PHASE_DRAINING \<equiv> ''draining''"
abbreviation PHASE_STOPPING :: string where "PHASE_STOPPING \<equiv> ''stopping''"
abbreviation PHASE_STOPPED :: string where "PHASE_STOPPED \<equiv> ''stopped''"
abbreviation PHASE_FAILED :: string where "PHASE_FAILED \<equiv> ''failed''"

definition ANY_PHASE_CAN_FAIL :: "string list" where
  "ANY_PHASE_CAN_FAIL =
     [PHASE_STARTING, PHASE_RECONCILING, PHASE_RECOVERING, PHASE_SNAPSHOTTING,
      PHASE_STREAMING, PHASE_DRAINING, PHASE_STOPPING]"

definition RUN_PHASE :: machine where
  "RUN_PHASE = make_machine ''run_phase''
     [PHASE_STARTING, PHASE_RECONCILING, PHASE_RECOVERING, PHASE_SNAPSHOTTING,
      PHASE_STREAMING, PHASE_DRAINING, PHASE_STOPPING, PHASE_STOPPED, PHASE_FAILED]
     ([(PHASE_STARTING, PHASE_RECOVERING), (PHASE_STARTING, PHASE_RECONCILING),
       (PHASE_RECONCILING, PHASE_RECOVERING), (PHASE_RECOVERING, PHASE_RECONCILING),
       (PHASE_RECONCILING, PHASE_SNAPSHOTTING), (PHASE_RECONCILING, PHASE_STREAMING),
       (PHASE_STREAMING, PHASE_SNAPSHOTTING), (PHASE_SNAPSHOTTING, PHASE_STREAMING),
       (PHASE_STREAMING, PHASE_DRAINING), (PHASE_DRAINING, PHASE_STOPPING)] @
      map (\<lambda>phase. (phase, PHASE_STOPPING)) ANY_PHASE_CAN_FAIL @
      map (\<lambda>phase. (phase, PHASE_FAILED)) ANY_PHASE_CAN_FAIL @
      [(PHASE_STOPPING, PHASE_STOPPED)])
     [PHASE_STOPPED, PHASE_FAILED]
     (Some PHASE_STARTING) None
     (Some ''_cdc_flight.heartbeat.phase'')"

section \<open>RunOutcome: why a run stopped, cause before symptom\<close>

definition OUTCOME_ORDER :: "string list" where
  "OUTCOME_ORDER =
     [''max_seconds'', ''idle'', ''work_done'', ''engine_finished'', ''hung'',
      ''catalog_unresolved'', ''recovery_uncleared'', ''source_dark'', ''engine_error'',
      ''error'']"

definition RUN_OUTCOME :: machine where
  "RUN_OUTCOME = ranked_machine ''run_outcome'' OUTCOME_ORDER
     (Some ''_cdc_flight.heartbeat.terminal_reason (also last_run.json stop_reason)'')"

definition OUTCOME_FAILURES :: "string list" where
  "OUTCOME_FAILURES = drop (rank OUTCOME_ORDER ''hung'') OUTCOME_ORDER"
section \<open>SnapshotCompletion: has the callback queue delivered everything?\<close>

abbreviation SNAPSHOT_AWAITING_CALLBACKS :: string where "SNAPSHOT_AWAITING_CALLBACKS \<equiv> ''awaiting_callbacks''"
abbreviation SNAPSHOT_CALLBACKS_STARTED :: string where "SNAPSHOT_CALLBACKS_STARTED \<equiv> ''callbacks_started''"
abbreviation SNAPSHOT_COMPLETION_NOTIFIED :: string where "SNAPSHOT_COMPLETION_NOTIFIED \<equiv> ''completion_notified''"
abbreviation SNAPSHOT_CALLBACKS_COMPLETE :: string where "SNAPSHOT_CALLBACKS_COMPLETE \<equiv> ''callbacks_complete''"
abbreviation SNAPSHOT_NOT_REQUIRED :: string where "SNAPSHOT_NOT_REQUIRED \<equiv> ''not_required''"
abbreviation SNAPSHOT_STREAMING :: string where "SNAPSHOT_STREAMING \<equiv> ''streaming''"

definition SNAPSHOT_COMPLETION :: machine where
  "SNAPSHOT_COMPLETION = make_machine ''snapshot_completion''
     [SNAPSHOT_AWAITING_CALLBACKS, SNAPSHOT_CALLBACKS_STARTED,
      SNAPSHOT_COMPLETION_NOTIFIED, SNAPSHOT_CALLBACKS_COMPLETE, SNAPSHOT_NOT_REQUIRED,
      SNAPSHOT_STREAMING]
     ([(SNAPSHOT_AWAITING_CALLBACKS, SNAPSHOT_CALLBACKS_STARTED),
       (SNAPSHOT_CALLBACKS_STARTED, SNAPSHOT_CALLBACKS_STARTED),
       (SNAPSHOT_CALLBACKS_STARTED, SNAPSHOT_COMPLETION_NOTIFIED),
       (SNAPSHOT_CALLBACKS_STARTED, SNAPSHOT_CALLBACKS_COMPLETE),
       (SNAPSHOT_COMPLETION_NOTIFIED, SNAPSHOT_COMPLETION_NOTIFIED),
       (SNAPSHOT_COMPLETION_NOTIFIED, SNAPSHOT_CALLBACKS_COMPLETE),
       (SNAPSHOT_NOT_REQUIRED, SNAPSHOT_NOT_REQUIRED),
       (SNAPSHOT_CALLBACKS_COMPLETE, SNAPSHOT_STREAMING),
       (SNAPSHOT_NOT_REQUIRED, SNAPSHOT_STREAMING)])
     [SNAPSHOT_CALLBACKS_COMPLETE, SNAPSHOT_NOT_REQUIRED, SNAPSHOT_STREAMING]
     (Some SNAPSHOT_AWAITING_CALLBACKS) (Some [SNAPSHOT_AWAITING_CALLBACKS, SNAPSHOT_NOT_REQUIRED])
     None"
section \<open>CompletionWatermark\<close>

abbreviation WATERMARK_UNARMED :: string where "WATERMARK_UNARMED \<equiv> ''unarmed''"
abbreviation WATERMARK_ARMED :: string where "WATERMARK_ARMED \<equiv> ''armed''"
abbreviation WATERMARK_REACHED :: string where "WATERMARK_REACHED \<equiv> ''reached''"
abbreviation WATERMARK_UNAVAILABLE :: string where "WATERMARK_UNAVAILABLE \<equiv> ''unavailable''"

definition COMPLETION_WATERMARK :: machine where
  "COMPLETION_WATERMARK = make_machine ''completion_watermark''
     [WATERMARK_UNARMED, WATERMARK_ARMED, WATERMARK_REACHED, WATERMARK_UNAVAILABLE]
     ([(WATERMARK_UNARMED, WATERMARK_ARMED), (WATERMARK_ARMED, WATERMARK_REACHED),
       (WATERMARK_UNARMED, WATERMARK_UNAVAILABLE)])
     [WATERMARK_REACHED, WATERMARK_UNAVAILABLE]
     (Some WATERMARK_UNARMED) None
     None"
section \<open>ShutdownSequence\<close>

abbreviation SHUTDOWN_OPEN :: string where "SHUTDOWN_OPEN \<equiv> ''open''"
abbreviation SHUTDOWN_ACK_PENDING :: string where "SHUTDOWN_ACK_PENDING \<equiv> ''ack_pending''"
abbreviation SHUTDOWN_ACK_COMPLETE :: string where "SHUTDOWN_ACK_COMPLETE \<equiv> ''ack_complete''"
abbreviation SHUTDOWN_ACK_NOT_REQUIRED :: string where "SHUTDOWN_ACK_NOT_REQUIRED \<equiv> ''ack_not_required''"
abbreviation SHUTDOWN_ACK_FAILED :: string where "SHUTDOWN_ACK_FAILED \<equiv> ''ack_failed''"
abbreviation SHUTDOWN_ADMISSION_SEALED :: string where "SHUTDOWN_ADMISSION_SEALED \<equiv> ''admission_sealed''"
abbreviation SHUTDOWN_CALLBACKS_QUIESCENT :: string where "SHUTDOWN_CALLBACKS_QUIESCENT \<equiv> ''callbacks_quiescent''"
abbreviation SHUTDOWN_CALLBACK_OWNED :: string where "SHUTDOWN_CALLBACK_OWNED \<equiv> ''callback_owned''"
abbreviation SHUTDOWN_OWN_EXECUTORS_STOPPED :: string where "SHUTDOWN_OWN_EXECUTORS_STOPPED \<equiv> ''own_executors_stopped''"
abbreviation SHUTDOWN_ENGINE_CLOSING :: string where "SHUTDOWN_ENGINE_CLOSING \<equiv> ''engine_closing''"
abbreviation SHUTDOWN_ENGINE_CLOSED :: string where "SHUTDOWN_ENGINE_CLOSED \<equiv> ''engine_closed''"
abbreviation SHUTDOWN_ENGINE_THREAD_STOPPED :: string where "SHUTDOWN_ENGINE_THREAD_STOPPED \<equiv> ''engine_thread_stopped''"
abbreviation SHUTDOWN_HUNG :: string where "SHUTDOWN_HUNG \<equiv> ''hung''"

definition SHUTDOWN_SEQUENCE :: machine where
  "SHUTDOWN_SEQUENCE = make_machine ''shutdown_sequence''
     [SHUTDOWN_OPEN, SHUTDOWN_ACK_PENDING, SHUTDOWN_ACK_COMPLETE,
      SHUTDOWN_ACK_NOT_REQUIRED, SHUTDOWN_ACK_FAILED, SHUTDOWN_ADMISSION_SEALED,
      SHUTDOWN_CALLBACKS_QUIESCENT, SHUTDOWN_CALLBACK_OWNED,
      SHUTDOWN_OWN_EXECUTORS_STOPPED, SHUTDOWN_ENGINE_CLOSING, SHUTDOWN_ENGINE_CLOSED,
      SHUTDOWN_ENGINE_THREAD_STOPPED, SHUTDOWN_HUNG]
     ([(SHUTDOWN_OPEN, SHUTDOWN_ACK_PENDING), (SHUTDOWN_OPEN, SHUTDOWN_ACK_COMPLETE),
       (SHUTDOWN_OPEN, SHUTDOWN_ACK_NOT_REQUIRED),
       (SHUTDOWN_ACK_PENDING, SHUTDOWN_ACK_COMPLETE),
       (SHUTDOWN_ACK_PENDING, SHUTDOWN_ACK_FAILED),
       (SHUTDOWN_ACK_COMPLETE, SHUTDOWN_ADMISSION_SEALED),
       (SHUTDOWN_ACK_NOT_REQUIRED, SHUTDOWN_ADMISSION_SEALED),
       (SHUTDOWN_ACK_FAILED, SHUTDOWN_ADMISSION_SEALED),
       (SHUTDOWN_ADMISSION_SEALED, SHUTDOWN_CALLBACKS_QUIESCENT),
       (SHUTDOWN_ADMISSION_SEALED, SHUTDOWN_CALLBACK_OWNED),
       (SHUTDOWN_CALLBACKS_QUIESCENT, SHUTDOWN_OWN_EXECUTORS_STOPPED),
       (SHUTDOWN_CALLBACKS_QUIESCENT, SHUTDOWN_HUNG),
       (SHUTDOWN_OWN_EXECUTORS_STOPPED, SHUTDOWN_ENGINE_CLOSING),
       (SHUTDOWN_ENGINE_CLOSING, SHUTDOWN_ENGINE_CLOSED),
       (SHUTDOWN_ENGINE_CLOSING, SHUTDOWN_HUNG),
       (SHUTDOWN_ENGINE_CLOSED, SHUTDOWN_ENGINE_THREAD_STOPPED),
       (SHUTDOWN_ENGINE_CLOSED, SHUTDOWN_HUNG)])
     [SHUTDOWN_CALLBACK_OWNED, SHUTDOWN_ENGINE_THREAD_STOPPED, SHUTDOWN_HUNG]
     (Some SHUTDOWN_OPEN) None
     None"
section \<open>ServiceControl\<close>

abbreviation SERVICE_ACTIVE :: string where "SERVICE_ACTIVE \<equiv> ''active''"
abbreviation SERVICE_CLOSED :: string where "SERVICE_CLOSED \<equiv> ''closed''"
abbreviation SERVICE_DRAINING :: string where "SERVICE_DRAINING \<equiv> ''draining''"
abbreviation SERVICE_RENEWING :: string where "SERVICE_RENEWING \<equiv> ''renewing''"
abbreviation SERVICE_DRAINING_WITH_RENEWAL :: string where "SERVICE_DRAINING_WITH_RENEWAL \<equiv> ''draining_with_renewal''"

definition SERVICE_CONTROL :: machine where
  "SERVICE_CONTROL = make_machine ''service_control''
     [SERVICE_ACTIVE, SERVICE_CLOSED, SERVICE_DRAINING, SERVICE_RENEWING,
      SERVICE_DRAINING_WITH_RENEWAL]
     ([(SERVICE_ACTIVE, SERVICE_CLOSED), (SERVICE_ACTIVE, SERVICE_DRAINING),
       (SERVICE_ACTIVE, SERVICE_RENEWING), (SERVICE_CLOSED, SERVICE_CLOSED),
       (SERVICE_DRAINING, SERVICE_CLOSED), (SERVICE_DRAINING, SERVICE_DRAINING),
       (SERVICE_DRAINING_WITH_RENEWAL, SERVICE_DRAINING),
       (SERVICE_DRAINING_WITH_RENEWAL, SERVICE_DRAINING_WITH_RENEWAL),
       (SERVICE_RENEWING, SERVICE_ACTIVE),
       (SERVICE_RENEWING, SERVICE_DRAINING_WITH_RENEWAL)])
     [SERVICE_CLOSED]
     (Some SERVICE_ACTIVE) None
     None"

section \<open>The snapshot notification vocabulary\<close>

definition SNAPSHOT_CALLBACK_OBSERVATIONS :: domain where
  "SNAPSHOT_CALLBACK_OBSERVATIONS = \<lparr>d_name = ''snapshot_callback_observations'', d_values =
     [''STARTED'', ''IN_PROGRESS'', ''TABLE_SCAN_COMPLETED'',
      ''TABLE_CHUNK_IN_PROGRESS'', ''TABLE_CHUNK_COMPLETED'', ''COMPLETED'',
      ''SKIPPED'', ''ABORTED'']\<rparr>"
section \<open>RuntimeRootLifecycle\<close>

abbreviation ROOT_ABSENT :: string where "ROOT_ABSENT \<equiv> ''absent''"
abbreviation ROOT_PROVISIONING :: string where "ROOT_PROVISIONING \<equiv> ''provisioning''"
abbreviation ROOT_ACTIVE :: string where "ROOT_ACTIVE \<equiv> ''active''"
abbreviation ROOT_QUARANTINING :: string where "ROOT_QUARANTINING \<equiv> ''quarantining''"
abbreviation ROOT_COMPLETION_RECORDED :: string where "ROOT_COMPLETION_RECORDED \<equiv> ''completion_recorded''"
abbreviation ROOT_DELETED_RECORDED :: string where "ROOT_DELETED_RECORDED \<equiv> ''deleted_recorded''"

definition RUNTIME_ROOT_LIFECYCLE :: machine where
  "RUNTIME_ROOT_LIFECYCLE = make_machine ''runtime_root_lifecycle''
     [ROOT_ABSENT, ROOT_PROVISIONING, ROOT_ACTIVE, ROOT_QUARANTINING,
      ROOT_COMPLETION_RECORDED, ROOT_DELETED_RECORDED]
     ([(ROOT_ABSENT, ROOT_PROVISIONING), (ROOT_PROVISIONING, ROOT_ACTIVE),
       (ROOT_PROVISIONING, ROOT_ABSENT), (ROOT_ACTIVE, ROOT_ACTIVE),
       (ROOT_ACTIVE, ROOT_QUARANTINING), (ROOT_QUARANTINING, ROOT_QUARANTINING),
       (ROOT_QUARANTINING, ROOT_COMPLETION_RECORDED),
       (ROOT_COMPLETION_RECORDED, ROOT_COMPLETION_RECORDED),
       (ROOT_COMPLETION_RECORDED, ROOT_DELETED_RECORDED),
       (ROOT_DELETED_RECORDED, ROOT_ABSENT)])
     []
     (Some ROOT_ABSENT) None
     (Some ''.cdc_instances/{instance}: sentinel/quarantine/private root plus parent completion record'')"
section \<open>AcquisitionRecovery: the journal of a destructive recovery\<close>

abbreviation RECOVERY_ABSENT :: string where "RECOVERY_ABSENT \<equiv> ''absent''"
abbreviation RECOVERY_REQUESTED :: string where "RECOVERY_REQUESTED \<equiv> ''requested''"
abbreviation RECOVERY_FILE_DELETED :: string where "RECOVERY_FILE_DELETED \<equiv> ''offsets_file_deleted''"
abbreviation RECOVERY_ROW_DELETED :: string where "RECOVERY_ROW_DELETED \<equiv> ''resume_point_deleted''"
abbreviation RECOVERY_ARMED :: string where "RECOVERY_ARMED \<equiv> ''armed''"

definition ACQUISITION_RECOVERY :: machine where
  "ACQUISITION_RECOVERY = make_machine ''acquisition_recovery''
     [RECOVERY_ABSENT, RECOVERY_REQUESTED, RECOVERY_FILE_DELETED, RECOVERY_ROW_DELETED,
      RECOVERY_ARMED]
     ([(RECOVERY_ABSENT, RECOVERY_REQUESTED),
       (RECOVERY_REQUESTED, RECOVERY_FILE_DELETED),
       (RECOVERY_FILE_DELETED, RECOVERY_ROW_DELETED),
       (RECOVERY_ROW_DELETED, RECOVERY_ARMED), (RECOVERY_REQUESTED, RECOVERY_REQUESTED),
       (RECOVERY_FILE_DELETED, RECOVERY_REQUESTED),
       (RECOVERY_ROW_DELETED, RECOVERY_REQUESTED), (RECOVERY_ARMED, RECOVERY_REQUESTED),
       (RECOVERY_ARMED, RECOVERY_ABSENT)])
     [RECOVERY_ABSENT]
     (Some RECOVERY_ABSENT) None
     (Some ''_cdc_flight.recovery_state.phase'')"
section \<open>InterruptionMarker\<close>

abbreviation MARKER_ABSENT :: string where "MARKER_ABSENT \<equiv> ''absent''"
abbreviation MARKER_ARMED :: string where "MARKER_ARMED \<equiv> ''armed''"
abbreviation MARKER_CONSUMED :: string where "MARKER_CONSUMED \<equiv> ''consumed''"

definition INTERRUPTION_MARKER :: machine where
  "INTERRUPTION_MARKER = make_machine ''interruption_marker''
     [MARKER_ABSENT, MARKER_ARMED, MARKER_CONSUMED]
     ([(MARKER_ABSENT, MARKER_ARMED), (MARKER_ARMED, MARKER_CONSUMED),
       (MARKER_CONSUMED, MARKER_ABSENT)])
     [MARKER_CONSUMED]
     (Some MARKER_ABSENT) None
     (Some ''<state_dir>/resnapshot/interrupted.json.state'')"
section \<open>DestinationOwnership\<close>

abbreviation OWNERSHIP_AVAILABLE :: string where "OWNERSHIP_AVAILABLE \<equiv> ''available''"
abbreviation OWNERSHIP_ATTACHED :: string where "OWNERSHIP_ATTACHED \<equiv> ''attached''"
abbreviation OWNERSHIP_ACTIVE :: string where "OWNERSHIP_ACTIVE \<equiv> ''active''"
abbreviation OWNERSHIP_CALLBACK_OWNED :: string where "OWNERSHIP_CALLBACK_OWNED \<equiv> ''callback_owned''"

definition DESTINATION_OWNERSHIP :: machine where
  "DESTINATION_OWNERSHIP = make_machine ''destination_ownership''
     [OWNERSHIP_AVAILABLE, OWNERSHIP_ATTACHED, OWNERSHIP_ACTIVE, OWNERSHIP_CALLBACK_OWNED]
     ([(OWNERSHIP_AVAILABLE, OWNERSHIP_ATTACHED),
       (OWNERSHIP_ATTACHED, OWNERSHIP_ACTIVE),
       (OWNERSHIP_ATTACHED, OWNERSHIP_AVAILABLE),
       (OWNERSHIP_ACTIVE, OWNERSHIP_AVAILABLE),
       (OWNERSHIP_ACTIVE, OWNERSHIP_CALLBACK_OWNED)])
     [OWNERSHIP_CALLBACK_OWNED]
     (Some OWNERSHIP_AVAILABLE) None
     None"
section \<open>CatalogChangeState\<close>

abbreviation CHANGE_OBSERVED :: string where "CHANGE_OBSERVED \<equiv> ''observed''"
abbreviation CHANGE_UNCONFIRMED :: string where "CHANGE_UNCONFIRMED \<equiv> ''unconfirmed''"
abbreviation CHANGE_PENDING :: string where "CHANGE_PENDING \<equiv> ''pending''"
abbreviation CHANGE_MARKED :: string where "CHANGE_MARKED \<equiv> ''marked''"
abbreviation CHANGE_DUE :: string where "CHANGE_DUE \<equiv> ''due''"
abbreviation CHANGE_APPLIED :: string where "CHANGE_APPLIED \<equiv> ''applied''"
abbreviation CHANGE_SUPERSEDED :: string where "CHANGE_SUPERSEDED \<equiv> ''superseded''"
abbreviation CHANGE_DEFERRED :: string where "CHANGE_DEFERRED \<equiv> ''deferred''"
abbreviation CHANGE_REFUSED :: string where "CHANGE_REFUSED \<equiv> ''refused''"

definition QUEUED_CHANGE_STATES :: "string list" where
  "QUEUED_CHANGE_STATES =
     [CHANGE_PENDING, CHANGE_MARKED, CHANGE_DEFERRED, CHANGE_REFUSED]"

definition LIVE_CHANGE_STATES :: "string list" where
  "LIVE_CHANGE_STATES = QUEUED_CHANGE_STATES @ [CHANGE_DUE]"

definition CATALOG_CHANGE :: machine where
  "CATALOG_CHANGE = make_machine ''catalog_change''
     [CHANGE_OBSERVED, CHANGE_UNCONFIRMED, CHANGE_PENDING, CHANGE_MARKED, CHANGE_DUE,
      CHANGE_APPLIED, CHANGE_SUPERSEDED, CHANGE_DEFERRED, CHANGE_REFUSED]
     ([(CHANGE_OBSERVED, CHANGE_UNCONFIRMED), (CHANGE_OBSERVED, CHANGE_PENDING),
       (CHANGE_UNCONFIRMED, CHANGE_UNCONFIRMED), (CHANGE_UNCONFIRMED, CHANGE_PENDING),
       (CHANGE_UNCONFIRMED, CHANGE_SUPERSEDED), (CHANGE_OBSERVED, CHANGE_SUPERSEDED)] @
      map (\<lambda>s. (s, CHANGE_MARKED)) QUEUED_CHANGE_STATES @
      map (\<lambda>s. (s, CHANGE_DUE)) QUEUED_CHANGE_STATES @
      map (\<lambda>s. (s, CHANGE_DEFERRED)) (QUEUED_CHANGE_STATES @ [CHANGE_DUE]) @
      map (\<lambda>s. (s, CHANGE_REFUSED)) (QUEUED_CHANGE_STATES @ [CHANGE_DUE]) @
      map (\<lambda>s. (s, CHANGE_SUPERSEDED)) (QUEUED_CHANGE_STATES @ [CHANGE_DUE]) @
      [(CHANGE_SUPERSEDED, CHANGE_APPLIED), (CHANGE_DUE, CHANGE_APPLIED)])
     [CHANGE_APPLIED, CHANGE_SUPERSEDED]
     (Some CHANGE_OBSERVED) None
     None"
section \<open>PublicationAdmission\<close>

abbreviation ADMISSION_ABSENT :: string where "ADMISSION_ABSENT \<equiv> ''absent''"
abbreviation ADMISSION_PENDING :: string where "ADMISSION_PENDING \<equiv> ''pending''"
abbreviation ADMISSION_ERROR :: string where "ADMISSION_ERROR \<equiv> ''error''"
abbreviation ADMISSION_ADMITTED :: string where "ADMISSION_ADMITTED \<equiv> ''admitted''"
abbreviation ADMISSION_EXTERNAL :: string where "ADMISSION_EXTERNAL \<equiv> ''external''"
abbreviation ADMISSION_REFUSED :: string where "ADMISSION_REFUSED \<equiv> ''refused''"

definition PUBLICATION_ADMISSION :: machine where
  "PUBLICATION_ADMISSION = make_machine ''publication_admission''
     [ADMISSION_ABSENT, ADMISSION_PENDING, ADMISSION_ERROR, ADMISSION_ADMITTED,
      ADMISSION_EXTERNAL, ADMISSION_REFUSED]
     ([(ADMISSION_ABSENT, ADMISSION_PENDING), (ADMISSION_PENDING, ADMISSION_PENDING),
       (ADMISSION_PENDING, ADMISSION_ERROR), (ADMISSION_PENDING, ADMISSION_ADMITTED),
       (ADMISSION_PENDING, ADMISSION_EXTERNAL), (ADMISSION_PENDING, ADMISSION_REFUSED),
       (ADMISSION_ADMITTED, ADMISSION_ERROR), (ADMISSION_ADMITTED, ADMISSION_REFUSED),
       (ADMISSION_ADMITTED, ADMISSION_EXTERNAL), (ADMISSION_ERROR, ADMISSION_ERROR),
       (ADMISSION_ERROR, ADMISSION_PENDING), (ADMISSION_ERROR, ADMISSION_ADMITTED),
       (ADMISSION_ERROR, ADMISSION_EXTERNAL), (ADMISSION_ERROR, ADMISSION_REFUSED),
       (ADMISSION_ADMITTED, ADMISSION_ADMITTED),
       (ADMISSION_ADMITTED, ADMISSION_PENDING),
       (ADMISSION_EXTERNAL, ADMISSION_EXTERNAL),
       (ADMISSION_EXTERNAL, ADMISSION_PENDING), (ADMISSION_EXTERNAL, ADMISSION_ERROR),
       (ADMISSION_EXTERNAL, ADMISSION_REFUSED), (ADMISSION_REFUSED, ADMISSION_REFUSED),
       (ADMISSION_REFUSED, ADMISSION_PENDING), (ADMISSION_REFUSED, ADMISSION_EXTERNAL)])
     []
     (Some ADMISSION_ABSENT) None
     (Some ''_cdc_flight.source_relations.admission_state'')"
definition require_admission_state :: "string option \<Rightarrow> state_error + string" where
  "require_admission_state v =
     (case v of None \<Rightarrow> Inl UnknownState | Some s \<Rightarrow> machine_parse PUBLICATION_ADMISSION s)"

section \<open>CatalogSchemaLiveness\<close>

abbreviation SCHEMA_VISIBLE :: string where "SCHEMA_VISIBLE \<equiv> ''visible''"
abbreviation SCHEMA_EMPTY :: string where "SCHEMA_EMPTY \<equiv> ''empty''"
abbreviation SCHEMA_UNAVAILABLE :: string where "SCHEMA_UNAVAILABLE \<equiv> ''unavailable''"
abbreviation SCHEMA_ERROR :: string where "SCHEMA_ERROR \<equiv> ''error''"

definition CATALOG_SCHEMA_LIVENESS :: machine where
  "CATALOG_SCHEMA_LIVENESS = make_machine ''catalog_schema_liveness''
     [SCHEMA_VISIBLE, SCHEMA_EMPTY, SCHEMA_UNAVAILABLE, SCHEMA_ERROR]
     (concat (map (\<lambda>before. map (\<lambda>after. (before, after))
      [SCHEMA_VISIBLE, SCHEMA_EMPTY, SCHEMA_UNAVAILABLE, SCHEMA_ERROR])
      [SCHEMA_VISIBLE, SCHEMA_EMPTY, SCHEMA_UNAVAILABLE, SCHEMA_ERROR]))
     []
     (Some SCHEMA_UNAVAILABLE) None
     None"
section \<open>SchemaRefusal\<close>

abbreviation REFUSAL_ABSENT :: string where "REFUSAL_ABSENT \<equiv> ''absent''"
abbreviation REFUSAL_PENDING :: string where "REFUSAL_PENDING \<equiv> ''pending''"
abbreviation REFUSAL_RESOLVED :: string where "REFUSAL_RESOLVED \<equiv> ''resolved''"
abbreviation REFUSAL_QUARANTINED :: string where "REFUSAL_QUARANTINED \<equiv> ''quarantined''"

definition SCHEMA_REFUSAL :: machine where
  "SCHEMA_REFUSAL = make_machine ''schema_refusal''
     [REFUSAL_ABSENT, REFUSAL_PENDING, REFUSAL_RESOLVED, REFUSAL_QUARANTINED]
     ([(REFUSAL_ABSENT, REFUSAL_PENDING), (REFUSAL_PENDING, REFUSAL_PENDING),
       (REFUSAL_PENDING, REFUSAL_RESOLVED), (REFUSAL_PENDING, REFUSAL_QUARANTINED),
       (REFUSAL_RESOLVED, REFUSAL_RESOLVED), (REFUSAL_RESOLVED, REFUSAL_PENDING),
       (REFUSAL_QUARANTINED, REFUSAL_QUARANTINED),
       (REFUSAL_QUARANTINED, REFUSAL_PENDING), (REFUSAL_QUARANTINED, REFUSAL_RESOLVED)])
     [REFUSAL_RESOLVED]
     (Some REFUSAL_ABSENT) None
     (Some ''_cdc_flight.schema_refusals.state'')"
section \<open>CatalogBaseline\<close>

abbreviation BASELINE_ABSENT :: string where "BASELINE_ABSENT \<equiv> ''absent''"
abbreviation BASELINE_STALE :: string where "BASELINE_STALE \<equiv> ''stale''"
abbreviation BASELINE_INVALIDATED :: string where "BASELINE_INVALIDATED \<equiv> ''invalidated''"
abbreviation BASELINE_VALID :: string where "BASELINE_VALID \<equiv> ''valid''"

definition CATALOG_BASELINE :: machine where
  "CATALOG_BASELINE = make_machine ''catalog_baseline''
     [BASELINE_ABSENT, BASELINE_STALE, BASELINE_INVALIDATED, BASELINE_VALID]
     ([(BASELINE_ABSENT, BASELINE_STALE), (BASELINE_ABSENT, BASELINE_INVALIDATED),
       (BASELINE_VALID, BASELINE_STALE), (BASELINE_STALE, BASELINE_STALE),
       (BASELINE_INVALIDATED, BASELINE_STALE), (BASELINE_STALE, BASELINE_INVALIDATED),
       (BASELINE_INVALIDATED, BASELINE_INVALIDATED), (BASELINE_STALE, BASELINE_VALID),
       (BASELINE_INVALIDATED, BASELINE_VALID), (BASELINE_VALID, BASELINE_ABSENT),
       (BASELINE_STALE, BASELINE_ABSENT), (BASELINE_INVALIDATED, BASELINE_ABSENT)])
     []
     (Some BASELINE_ABSENT) None
     (Some ''_cdc_flight.catalog_baseline.state'')"

definition BASELINE_UNTRUSTED :: "string list" where
  "BASELINE_UNTRUSTED = filter (\<lambda>s. s \<noteq> BASELINE_VALID) (m_states CATALOG_BASELINE)"

section \<open>Interacting pairs and the physical-row decision domains\<close>

definition INTERACTING_MACHINE_PAIRS :: "(string \<times> string) list" where
  "INTERACTING_MACHINE_PAIRS =
     [(''catalog_change'', ''publication_admission''),
      (''catalog_change'', ''catalog_schema_liveness''),
      (''catalog_change'', ''schema_refusal''),
      (''catalog_change'', ''table_lifecycle''),
      (''publication_admission'', ''catalog_schema_liveness''),
      (''publication_admission'', ''schema_refusal''),
      (''publication_admission'', ''table_lifecycle''),
      (''catalog_schema_liveness'', ''schema_refusal''),
      (''catalog_schema_liveness'', ''table_lifecycle''),
      (''schema_refusal'', ''table_lifecycle''),
      (''snapshot_completion'', ''table_lifecycle''),
      (''destination_ownership'', ''snapshot_completion''),
      (''backfill_run'', ''table_lifecycle''),
      (''backfill_run'', ''shadow_claim''),
      (''backfill_run'', ''run_phase''),
      (''backfill_run'', ''snapshot_completion''),
      (''backfill_run'', ''catalog_change''),
      (''backfill_run'', ''destination_ownership''),
      (''shadow_claim'', ''catalog_change''),
      (''shadow_claim'', ''destination_ownership'')]"

definition PHYSICAL_ROW_OPERATIONS :: domain where
  "PHYSICAL_ROW_OPERATIONS = \<lparr>d_name = ''physical_row_operations'', d_values =
     [''insert'', ''update'', ''delete'', ''key_move'']\<rparr>"

definition PHYSICAL_ROW_FIELD_STATES :: domain where
  "PHYSICAL_ROW_FIELD_STATES = \<lparr>d_name = ''physical_row_field_states'', d_values =
     [''value'', ''explicit_null'', ''unchanged_toast'', ''absent'']\<rparr>"

definition PHYSICAL_ROW_BASE_STATES :: domain where
  "PHYSICAL_ROW_BASE_STATES = \<lparr>d_name = ''physical_row_base_states'', d_values =
     [''start'', ''in_group'', ''missing'']\<rparr>"

definition PHYSICAL_ROW_STORAGE :: domain where
  "PHYSICAL_ROW_STORAGE = \<lparr>d_name = ''physical_row_storage'', d_values =
     [''memory'', ''spill'']\<rparr>"

definition PHYSICAL_ROW_OUTCOMES :: domain where
  "PHYSICAL_ROW_OUTCOMES = \<lparr>d_name = ''physical_row_outcomes'', d_values =
     [''commit'', ''ambiguous_delete'', ''toast_base_missing'', ''schema_refusal'',
      ''swap_fault'']\<rparr>"

definition PHYSICAL_ROW_IDENTITIES :: domain where
  "PHYSICAL_ROW_IDENTITIES = \<lparr>d_name = ''physical_row_identities'', d_values =
     [''keyed'', ''keyless'']\<rparr>"

definition PHYSICAL_ROW_SCHEMA_EPOCHS :: domain where
  "PHYSICAL_ROW_SCHEMA_EPOCHS = \<lparr>d_name = ''physical_row_schema_epochs'', d_values =
     [''pre'', ''post'', ''mixed'']\<rparr>"
section \<open>KeylessEvent\<close>

abbreviation KEYLESS_EVENT_UNSEEN :: string where "KEYLESS_EVENT_UNSEEN \<equiv> ''unseen''"
abbreviation KEYLESS_EVENT_APPLIED :: string where "KEYLESS_EVENT_APPLIED \<equiv> ''applied''"

definition KEYLESS_EVENT :: machine where
  "KEYLESS_EVENT = make_machine ''keyless_event''
     [KEYLESS_EVENT_UNSEEN, KEYLESS_EVENT_APPLIED]
     ([(KEYLESS_EVENT_UNSEEN, KEYLESS_EVENT_APPLIED),
       (KEYLESS_EVENT_APPLIED, KEYLESS_EVENT_APPLIED)])
     [KEYLESS_EVENT_APPLIED]
     (Some KEYLESS_EVENT_UNSEEN) None
     (Some ''_cdc_flight.keyless_events.state'')"
section \<open>BackfillRun\<close>

abbreviation BACKFILL_RUN_REQUESTED :: string where "BACKFILL_RUN_REQUESTED \<equiv> ''requested''"
abbreviation BACKFILL_RUN_PREPARING :: string where "BACKFILL_RUN_PREPARING \<equiv> ''preparing''"
abbreviation BACKFILL_RUN_LOADING :: string where "BACKFILL_RUN_LOADING \<equiv> ''loading''"
abbreviation BACKFILL_RUN_READY_TO_SWAP :: string where "BACKFILL_RUN_READY_TO_SWAP \<equiv> ''ready_to_swap''"
abbreviation BACKFILL_RUN_SWAPPING :: string where "BACKFILL_RUN_SWAPPING \<equiv> ''swapping''"
abbreviation BACKFILL_RUN_COMPLETE :: string where "BACKFILL_RUN_COMPLETE \<equiv> ''complete''"
abbreviation BACKFILL_RUN_RETRY_WAIT :: string where "BACKFILL_RUN_RETRY_WAIT \<equiv> ''retry_wait''"
abbreviation BACKFILL_RUN_BLOCKED :: string where "BACKFILL_RUN_BLOCKED \<equiv> ''blocked''"

definition BACKFILL_RUN_STATES :: "string list" where
  "BACKFILL_RUN_STATES =
     [BACKFILL_RUN_REQUESTED, BACKFILL_RUN_PREPARING, BACKFILL_RUN_LOADING,
      BACKFILL_RUN_READY_TO_SWAP, BACKFILL_RUN_SWAPPING, BACKFILL_RUN_COMPLETE,
      BACKFILL_RUN_RETRY_WAIT, BACKFILL_RUN_BLOCKED]"

definition BACKFILL_RUN :: machine where
  "BACKFILL_RUN = make_machine ''backfill_run''
     BACKFILL_RUN_STATES
     ([(BACKFILL_RUN_REQUESTED, BACKFILL_RUN_PREPARING),
       (BACKFILL_RUN_PREPARING, BACKFILL_RUN_LOADING),
       (BACKFILL_RUN_PREPARING, BACKFILL_RUN_RETRY_WAIT),
       (BACKFILL_RUN_PREPARING, BACKFILL_RUN_BLOCKED),
       (BACKFILL_RUN_LOADING, BACKFILL_RUN_LOADING),
       (BACKFILL_RUN_LOADING, BACKFILL_RUN_READY_TO_SWAP),
       (BACKFILL_RUN_LOADING, BACKFILL_RUN_RETRY_WAIT),
       (BACKFILL_RUN_LOADING, BACKFILL_RUN_BLOCKED),
       (BACKFILL_RUN_READY_TO_SWAP, BACKFILL_RUN_SWAPPING),
       (BACKFILL_RUN_READY_TO_SWAP, BACKFILL_RUN_RETRY_WAIT),
       (BACKFILL_RUN_SWAPPING, BACKFILL_RUN_COMPLETE),
       (BACKFILL_RUN_SWAPPING, BACKFILL_RUN_RETRY_WAIT),
       (BACKFILL_RUN_RETRY_WAIT, BACKFILL_RUN_PREPARING),
       (BACKFILL_RUN_RETRY_WAIT, BACKFILL_RUN_LOADING),
       (BACKFILL_RUN_BLOCKED, BACKFILL_RUN_PREPARING),
       (BACKFILL_RUN_BLOCKED, BACKFILL_RUN_RETRY_WAIT),
       (BACKFILL_RUN_COMPLETE, BACKFILL_RUN_REQUESTED)])
     [BACKFILL_RUN_COMPLETE]
     (Some BACKFILL_RUN_REQUESTED) None
     (Some ''_cdc_flight.backfill_runs.state'')"
section \<open>ShadowClaim\<close>

abbreviation SHADOW_CLAIM_FREE :: string where "SHADOW_CLAIM_FREE \<equiv> ''free''"
abbreviation SHADOW_CLAIM_BACKFILL :: string where "SHADOW_CLAIM_BACKFILL \<equiv> ''backfill''"
abbreviation SHADOW_CLAIM_TYPED_CHANGE :: string where "SHADOW_CLAIM_TYPED_CHANGE \<equiv> ''typed_change''"
abbreviation SHADOW_CLAIM_SCHEMA_REBUILD :: string where "SHADOW_CLAIM_SCHEMA_REBUILD \<equiv> ''schema_rebuild''"

definition SHADOW_CLAIM_STATES :: "string list" where
  "SHADOW_CLAIM_STATES =
     [SHADOW_CLAIM_FREE, SHADOW_CLAIM_BACKFILL, SHADOW_CLAIM_TYPED_CHANGE,
      SHADOW_CLAIM_SCHEMA_REBUILD]"

definition SHADOW_CLAIM :: machine where
  "SHADOW_CLAIM = make_machine ''shadow_claim''
     SHADOW_CLAIM_STATES
     ([(SHADOW_CLAIM_FREE, SHADOW_CLAIM_BACKFILL),
       (SHADOW_CLAIM_FREE, SHADOW_CLAIM_TYPED_CHANGE),
       (SHADOW_CLAIM_FREE, SHADOW_CLAIM_SCHEMA_REBUILD),
       (SHADOW_CLAIM_BACKFILL, SHADOW_CLAIM_FREE),
       (SHADOW_CLAIM_TYPED_CHANGE, SHADOW_CLAIM_FREE),
       (SHADOW_CLAIM_SCHEMA_REBUILD, SHADOW_CLAIM_FREE)])
     [SHADOW_CLAIM_FREE]
     (Some SHADOW_CLAIM_FREE) None
     (Some ''_cdc_flight.shadow_claims.claim_state'')"

section \<open>Frozen decision domains\<close>

definition SLOT_VERDICTS :: domain where
  "SLOT_VERDICTS = \<lparr>d_name = ''slot_verdict'', d_values =
     [''ok'', ''fresh_start'', ''source_unobservable'', ''slot_ahead_of_destination'',
      ''slot_missing'', ''slot_invalidated'', ''slot_recreated'',
      ''source_identity_changed'', ''source_timeline_changed'',
      ''source_lsn_regressed'', ''no_durable_destination_row'',
      ''no_durable_row_full_snapshot'', ''recovery_retained'']\<rparr>"

definition RECONCILE_DECISIONS :: domain where
  "RECONCILE_DECISIONS = \<lparr>d_name = ''reconcile_decision'', d_values =
     [''fresh_start'', ''resume'', ''file_missing_rebuilt'',
      ''file_missing_no_durable_offset'', ''file_missing_repair_disabled'',
      ''file_corrupt_rebuilt'', ''file_ahead_rebuilt'', ''file_behind_rebuilt'',
      ''file_offset_mismatch_rebuilt'', ''orphan_accepted_resnapshot'']\<rparr>"

definition CONNECTION_RETIREMENT :: domain where
  "CONNECTION_RETIREMENT = \<lparr>d_name = ''connection_retirement'', d_values =
     [''never_opened'', ''closed'', ''failed'', ''abandoned'']\<rparr>"

definition SOURCE_HEALTH_STATES :: domain where
  "SOURCE_HEALTH_STATES = \<lparr>d_name = ''source_health'', d_values =
     [''unsampled'', ''streaming'', ''not_streaming'', ''unknown'',
      ''unknown_never_sampled'', ''dark'']\<rparr>"

section \<open>The module's declarations\<close>

definition declared_machines :: "machine list" where
  "declared_machines =
     [TABLE_LIFECYCLE, RUN_PHASE, RUN_OUTCOME, SNAPSHOT_COMPLETION, COMPLETION_WATERMARK,
      SHUTDOWN_SEQUENCE, SERVICE_CONTROL, RUNTIME_ROOT_LIFECYCLE, ACQUISITION_RECOVERY,
      INTERRUPTION_MARKER, DESTINATION_OWNERSHIP, CATALOG_CHANGE, PUBLICATION_ADMISSION,
      CATALOG_SCHEMA_LIVENESS, SCHEMA_REFUSAL, CATALOG_BASELINE, KEYLESS_EVENT,
      BACKFILL_RUN, SHADOW_CLAIM]"

text \<open>
  Running one declaration through \<open>Machine.__init__\<close>, with the registry threaded. The
  constructor is given the declaration's own arguments.
\<close>

definition declare_machine :: "registry \<Rightarrow> machine \<Rightarrow> state_error + registry" where
  "declare_machine reg m =
     rbind (machine_init (m_name m) (m_states m) (m_edges m) (m_terminal m) (m_initial m)
              (Some (m_initial_states m)) (m_durable m) reg)
       (\<lambda>(m', reg'). Inr reg')"

lemmas machine_defs =
  TABLE_LIFECYCLE_def RUN_PHASE_def RUN_OUTCOME_def SNAPSHOT_COMPLETION_def
  COMPLETION_WATERMARK_def SHUTDOWN_SEQUENCE_def SERVICE_CONTROL_def
  RUNTIME_ROOT_LIFECYCLE_def ACQUISITION_RECOVERY_def INTERRUPTION_MARKER_def
  DESTINATION_OWNERSHIP_def CATALOG_CHANGE_def PUBLICATION_ADMISSION_def
  CATALOG_SCHEMA_LIVENESS_def SCHEMA_REFUSAL_def CATALOG_BASELINE_def KEYLESS_EVENT_def
  BACKFILL_RUN_def SHADOW_CLAIM_def

section \<open>Paths and what they cannot avoid\<close>

fun path :: "machine \<Rightarrow> string list \<Rightarrow> bool" where
  "path m [] = True"
| "path m [s] = True"
| "path m (a # b # p) = (allows m a b \<and> path m (b # p))"

text \<open>\<open>avoiding m D a\<close>: the states reachable from \<open>a\<close> by edges that touch no state of \<open>D\<close>.\<close>

definition avoiding :: "machine \<Rightarrow> string list \<Rightarrow> string \<Rightarrow> string list" where
  "avoiding m D a =
     reach_loop (filter (\<lambda>e. fst e \<notin> set D \<and> snd e \<notin> set D) (m_edges m)) [a] [a]"

lemma path_avoiding:
  assumes "path m (a # p)" and "set (a # p) \<inter> set D = {}"
  shows "last (a # p) \<in> set (avoiding m D a)"
proof -
  let ?E = "set (filter (\<lambda>e. fst e \<notin> set D \<and> snd e \<notin> set D) (m_edges m))"
  have "(a, last (a # p)) \<in> ?E\<^sup>*"
    using assms
  proof (induction p arbitrary: a)
    case Nil
    then show ?case by simp
  next
    case (Cons b p)
    then have "(a, b) \<in> ?E" by (simp add: allows_def)
    with Cons show ?case by (auto intro: converse_rtrancl_into_rtrancl)
  qed
  then show ?thesis
    using reach_loop_eq [of "filter (\<lambda>e. fst e \<notin> set D \<and> snd e \<notin> set D) (m_edges m)" "[a]"]
    by (simp add: avoiding_def)
qed

text \<open>An evaluated \<open>avoiding\<close> set gives a fact about every path.\<close>

lemma path_passes_through:
  assumes "path m p" and "p \<noteq> []" and "hd p = a" and "last p = b"
    and "b \<notin> set (avoiding m D a)"
  shows "\<exists>d \<in> set D. d \<in> set p"
  using assms path_avoiding [of m a "tl p" D] by (cases p) auto

section \<open>Properties of the declarations\<close>


lemma declared_machines_wf: "list_all wf_machine declared_machines"
  by code_simp

text \<open>No declared state is dead: in every machine, the worklist of
  \<open>Machine.reachable_states\<close> from the declared initial states finds exactly the declared
  states.\<close>

theorem every_declared_state_is_reachable:
  "list_all (\<lambda>m. set (reachable_states m) = set (m_states m)) declared_machines"
  by code_simp

text \<open>The applier reaches \<open>streaming\<close> from an armed snapshot only after the completion
  proof: every path of the snapshot machine from \<open>awaiting_callbacks\<close> to
  \<open>streaming\<close> passes through \<open>callbacks_complete\<close>.\<close>

lemma streaming_needs_completed_callbacks:
  assumes "path SNAPSHOT_COMPLETION p" and "p \<noteq> []"
    and "hd p = SNAPSHOT_AWAITING_CALLBACKS" and "last p = SNAPSHOT_STREAMING"
  shows "SNAPSHOT_CALLBACKS_COMPLETE \<in> set p"
proof -
  have "SNAPSHOT_STREAMING \<notin>
      set (avoiding SNAPSHOT_COMPLETION [SNAPSHOT_CALLBACKS_COMPLETE] SNAPSHOT_AWAITING_CALLBACKS)"
    by code_simp
  from path_passes_through [OF assms this] show ?thesis by simp
qed

lemma streaming_needs_completed_callbacks_example:
  "SNAPSHOT_CALLBACKS_COMPLETE \<in> set [SNAPSHOT_AWAITING_CALLBACKS, SNAPSHOT_CALLBACKS_STARTED,
     SNAPSHOT_CALLBACKS_COMPLETE, SNAPSHOT_STREAMING]"
  by (rule streaming_needs_completed_callbacks) (code_simp, simp_all)

text \<open>The recovery journal cannot be cleared half-way: every path of the recovery machine
  from \<open>requested\<close> back to \<open>absent\<close> passes through the deletion of the offsets file, the
  deletion of the resume row and \<open>armed\<close>.\<close>

theorem recovery_journal_runs_the_ladder:
  assumes "path ACQUISITION_RECOVERY p" and "p \<noteq> []"
    and "hd p = RECOVERY_REQUESTED" and "last p = RECOVERY_ABSENT"
  shows "RECOVERY_FILE_DELETED \<in> set p \<and> RECOVERY_ROW_DELETED \<in> set p \<and>
    RECOVERY_ARMED \<in> set p"
proof -
  have "RECOVERY_ABSENT \<notin>
      set (avoiding ACQUISITION_RECOVERY [RECOVERY_FILE_DELETED] RECOVERY_REQUESTED)"
    and "RECOVERY_ABSENT \<notin>
      set (avoiding ACQUISITION_RECOVERY [RECOVERY_ROW_DELETED] RECOVERY_REQUESTED)"
    and "RECOVERY_ABSENT \<notin> set (avoiding ACQUISITION_RECOVERY [RECOVERY_ARMED] RECOVERY_REQUESTED)"
    by code_simp+
  from this [THEN path_passes_through [OF assms]] show ?thesis by simp
qed

theorem recovery_journal_runs_the_ladder_example:
  "RECOVERY_FILE_DELETED \<in> set [RECOVERY_REQUESTED, RECOVERY_FILE_DELETED,
       RECOVERY_ROW_DELETED, RECOVERY_ARMED, RECOVERY_ABSENT]"
  by (rule recovery_journal_runs_the_ladder [THEN conjunct1]) (code_simp, simp_all)

text \<open>A confirmed catalog baseline is always re-earned: every path of at least one step
  that ends in \<open>valid\<close> visits \<open>stale\<close> or \<open>invalidated\<close> on the way, wherever it starts, so
  no run can adopt observed relation identities without passing through the mark it has to
  discharge.\<close>

lemma baseline_valid_is_re_earned:
  assumes "path CATALOG_BASELINE p" and "1 < length p" and "last p = BASELINE_VALID"
    and "hd p \<in> set (m_states CATALOG_BASELINE)"
  shows "BASELINE_STALE \<in> set p \<or> BASELINE_INVALIDATED \<in> set p"
proof -
  let ?D = "[BASELINE_STALE, BASELINE_INVALIDATED]"
  obtain a b q where p: "p = a # b # q"
    using assms(2) by (cases p; cases "tl p") auto
  show ?thesis
  proof (cases "a \<in> set ?D")
    case True
    then show ?thesis using p by auto
  next
    case False
    have "(a, b) \<in> set (m_edges CATALOG_BASELINE)"
      using assms(1) p by (simp add: allows_def)
    then have "b \<in> set ?D \<or> (b = BASELINE_ABSENT \<and> a = BASELINE_VALID)"
      using False by (auto simp: CATALOG_BASELINE_def make_machine_def Let_def)
    then show ?thesis
    proof
      assume "b \<in> set ?D"
      then show ?thesis using p by auto
    next
      assume b: "b = BASELINE_ABSENT \<and> a = BASELINE_VALID"
      have "BASELINE_VALID \<notin> set (avoiding CATALOG_BASELINE ?D BASELINE_ABSENT)"
        by code_simp
      with path_passes_through [of CATALOG_BASELINE "b # q" BASELINE_ABSENT BASELINE_VALID ?D]
      have "\<exists>d \<in> set ?D. d \<in> set (b # q)" using assms p b by simp
      then show ?thesis using p by auto
    qed
  qed
qed

lemma baseline_valid_is_re_earned_example:
  "BASELINE_STALE \<in> set [BASELINE_VALID, BASELINE_ABSENT, BASELINE_STALE, BASELINE_VALID] \<or>
   BASELINE_INVALIDATED \<in> set [BASELINE_VALID, BASELINE_ABSENT, BASELINE_STALE, BASELINE_VALID]"
  by (rule baseline_valid_is_re_earned) (code_simp, simp, simp, code_simp)

end
