(* ===== verification/Envelope.thy ===== *)
theory Envelope
  imports CDC_Prelude
begin

text \<open>
  The decoded record and the JSON values it is made of: the data part of
  \<open>src/cdc_flight/envelope.py\<close> (the vocabulary of record kinds and snapshot markers,
  \<open>PendingRecord\<close> with its derived properties, and the small coercion helpers).

  JSON values are the datatype \<open>json\<close>; Python's \<open>None\<close> is \<open>JNull\<close>, which is also what
  \<open>dict.get\<close> gives for a missing key. A finite float is represented by its text and by the
  integer that \<open>int()\<close> truncates it to; nothing else of a float is read by the modelled code.

  \<open>pr_id\<close> is Python's object identity. The assembler keeps one record object in two lists
  (the events and the acknowledgement records of a unit) and mutates it through either, so the
  model needs to know when two list elements are the same object. \<open>pr_raw\<close> is the Java handle
  that acknowledges the record, \<open>None\<close> once it has been released.
\<close>

section \<open>JSON values\<close>

datatype json =
    JNull
  | JBool bool
  | JInt int
  | JFloat string int
  | JStr string
  | JArr "json list"
  | JObj "(string \<times> json) list"

type_synonym json_object = "(string, json) dict"

section \<open>int() on a JSON value\<close>

text \<open>Python's \<open>int(text)\<close>, on ASCII text: surrounding white space, an optional sign, and
  decimal digits in which a single underscore may separate two digits.\<close>

definition is_space :: "char \<Rightarrow> bool" where
  "is_space c \<longleftrightarrow> c \<in> set [CHR '' '', CHR 0x09, CHR 0x0A, CHR 0x0B, CHR 0x0C, CHR 0x0D,
     CHR 0x1C, CHR 0x1D, CHR 0x1E, CHR 0x1F]"

definition strip :: "string \<Rightarrow> string" where
  "strip s = rev (dropWhile is_space (rev (dropWhile is_space s)))"

definition digit_value :: "char \<Rightarrow> int option" where
  "digit_value c =
     (let n = of_char c :: int in if 48 \<le> n \<and> n \<le> 57 then Some (n - 48) else None)"

fun digits_value :: "int \<Rightarrow> string \<Rightarrow> int option" where
  \<comment> \<open>the argument is what follows a digit\<close>
  "digits_value acc [] = Some acc"
| "digits_value acc (c # cs) =
     (case digit_value c of
        Some d \<Rightarrow> digits_value (10 * acc + d) cs
      | None \<Rightarrow>
          (if c = CHR ''_'' then
             (case cs of
                [] \<Rightarrow> None
              | c' # cs' \<Rightarrow>
                  (case digit_value c' of
                     Some d \<Rightarrow> digits_value (10 * acc + d) cs'
                   | None \<Rightarrow> None))
           else None))"

definition unsigned_value :: "string \<Rightarrow> int option" where
  "unsigned_value s =
     (case s of
        [] \<Rightarrow> None
      | c # cs \<Rightarrow> (case digit_value c of Some d \<Rightarrow> digits_value d cs | None \<Rightarrow> None))"

definition int_of_text :: "string \<Rightarrow> int option" where
  "int_of_text s =
     (let t = strip s in
      case t of
        [] \<Rightarrow> None
      | c # cs \<Rightarrow>
          (if c = CHR ''-'' then map_option uminus (unsigned_value cs)
           else if c = CHR ''+'' then unsigned_value cs
           else unsigned_value t))"

fun py_int :: "json \<Rightarrow> int option" where
  \<comment> \<open>\<open>int(value)\<close>; \<open>None\<close> is TypeError or ValueError\<close>
  "py_int JNull = None"
| "py_int (JBool b) = Some (if b then 1 else 0)"
| "py_int (JInt n) = Some n"
| "py_int (JFloat s n) = Some n"
| "py_int (JStr s) = int_of_text s"
| "py_int (JArr xs) = None"
| "py_int (JObj xs) = None"

definition as_int :: "json \<Rightarrow> int option" where
  \<comment> \<open>\<open>_as_int\<close>: a bool is not a number here\<close>
  "as_int v = (case v of JNull \<Rightarrow> None | JBool _ \<Rightarrow> None | _ \<Rightarrow> py_int v)"

definition txn_id_prefix :: "string option \<Rightarrow> string option" where
  \<comment> \<open>\<open>_txn_id\<close>: the part of \<open>"<txId>:<lsn>"\<close> before the first colon\<close>
  "txn_id_prefix v = map_option (takeWhile (\<lambda>c. c \<noteq> CHR '':'')) v"

definition first_int :: "json_object \<Rightarrow> string list \<Rightarrow> int option" where
  "first_int off ks =
     (case filter (\<lambda>k. case map_of off k of Some (JInt _) \<Rightarrow> True | Some (JBool _) \<Rightarrow> True
                                        | _ \<Rightarrow> False) ks of
        [] \<Rightarrow> None
      | k # _ \<Rightarrow> (case map_of off k of Some v \<Rightarrow> py_int v | None \<Rightarrow> None))"

text \<open>
  \<open>_offset_lsn\<close>: the first of \<open>lsn\<close>, \<open>lsn_proc\<close>, \<open>lsn_commit\<close> that is an \<open>int\<close>
  (\<open>isinstance(True, int)\<close> holds in Python, so a bool counts).
\<close>

definition offset_lsn :: "json_object option \<Rightarrow> int option" where
  "offset_lsn off =
     (case off of
        None \<Rightarrow> None
      | Some o' \<Rightarrow> if o' = [] then None else first_int o' [''lsn'', ''lsn_proc'', ''lsn_commit''])"

section \<open>Record kinds and snapshot markers\<close>

datatype kind =
    KIND_DATA
  | KIND_SNAPSHOT
  | KIND_TRUNCATE
  | KIND_TXN_BEGIN
  | KIND_TXN_END
  | KIND_HEARTBEAT
  | KIND_MESSAGE
  | KIND_SCHEMA_CHANGE
  | KIND_UNKNOWN
  | KIND_SNAPSHOT_BOUNDARY

definition SNAPSHOT_VALUES :: "string list" where
  "SNAPSHOT_VALUES =
     [''true'', ''first'', ''first_in_data_collection'', ''last_in_data_collection'',
      ''last'', ''incremental'']"

definition SNAPSHOT_TABLE_LAST :: "string list" where
  "SNAPSHOT_TABLE_LAST = [''last_in_data_collection'', ''last'']"

abbreviation SNAPSHOT_LAST :: string where
  "SNAPSHOT_LAST \<equiv> ''last''"

abbreviation SNAPSHOT_INCREMENTAL :: string where
  "SNAPSHOT_INCREMENTAL \<equiv> ''incremental''"

section \<open>PendingRecord\<close>

record refusal =
  refused_schema :: "string option"
  refused_table :: "string option"

record pending_record =
  pr_id :: nat
  pr_raw :: "nat option"
  pr_kind :: kind
  pr_topic :: string
  pr_nbytes :: nat
  pr_op :: "string option"
  pr_message_prefix :: "string option"
  pr_message_content :: "string option"
  pr_message_transactional :: "bool option"
  pr_schema :: "string option"
  pr_table :: "string option"
  pr_lsn :: "int option"
  pr_txn_id :: "string option"
  pr_total_order :: json
  pr_source_cluster_id :: "string option"
  pr_source_timeline :: "int option"
  pr_relation_generation :: "string option"
  pr_commit_lsn :: "int option"
  pr_policy_epoch :: int
  pr_policy_digest :: "string option"
  pr_delete_mode :: "string option"
  pr_source_sequence :: "string option"
  pr_source_ts_ms :: "int option"
  pr_snapshot :: "string option"
  pr_key :: "json_object option"
  pr_before :: "json_object option"
  pr_after :: "json_object option"
  pr_txn_event_count :: json
  pr_txn_data_collections :: "(string, int) dict"
  pr_source_partition :: "json_object option"
  pr_source_offset :: "json_object option"
  pr_snapshot_ordinal :: "nat option"
  pr_admission_refusal :: "refusal option"
  pr_incremental :: bool
  pr_snapshot_identity :: "string option"
  pr_ignored_source_record :: bool

text \<open>A record with the dataclass defaults, from its required arguments.\<close>

definition blank_record :: "nat \<Rightarrow> nat option \<Rightarrow> kind \<Rightarrow> pending_record" where
  "blank_record i raw k =
     \<lparr>pr_id = i, pr_raw = raw, pr_kind = k, pr_topic = '''', pr_nbytes = 0, pr_op = None,
      pr_message_prefix = None, pr_message_content = None, pr_message_transactional = None,
      pr_schema = None, pr_table = None, pr_lsn = None, pr_txn_id = None,
      pr_total_order = JNull, pr_source_cluster_id = None, pr_source_timeline = None,
      pr_relation_generation = None, pr_commit_lsn = None, pr_policy_epoch = 0,
      pr_policy_digest = None, pr_delete_mode = None, pr_source_sequence = None,
      pr_source_ts_ms = None, pr_snapshot = None, pr_key = None,
      pr_before = None, pr_after = None, pr_txn_event_count = JNull,
      pr_txn_data_collections = [], pr_source_partition = None, pr_source_offset = None,
      pr_snapshot_ordinal = None, pr_admission_refusal = None, pr_incremental = False,
      pr_snapshot_identity = None, pr_ignored_source_record = False\<rparr>"

definition is_data :: "pending_record \<Rightarrow> bool" where
  "is_data r \<longleftrightarrow> pr_kind r \<in> {KIND_DATA, KIND_SNAPSHOT, KIND_TRUNCATE}"

definition is_delivery_data :: "pending_record \<Rightarrow> bool" where
  "is_delivery_data r \<longleftrightarrow> is_data r \<and> \<not> pr_ignored_source_record r"

definition qualified_table :: "pending_record \<Rightarrow> string option" where
  "qualified_table r =
     (if truthy_str (pr_schema r) \<and> truthy_str (pr_table r)
      then Some (the (pr_schema r) @ ''.'' @ the (pr_table r))
      else pr_table r)"

end
