(* ===== verification/Assembler.thy ===== *)
theory Assembler
  imports Envelope
begin

text \<open>
  \<open>TransactionAssembler\<close>: a model of \<open>src/cdc_flight/assembler.py\<close>. One definition per method,
  on an explicit state \<open>assembler\<close>; an exception is \<open>Inl\<close> of a constructor of \<open>asm_error\<close>,
  one per \<open>raise\<close>. A run that raised ends, so the state it leaves behind is not returned.

  The spill callback of the applier is the configuration field \<open>on_spill\<close>: it is asked to
  stage a list of events of a numbered unit and answers how many it took, or raises
  (\<open>None\<close>). The events it was handed are recorded in \<open>ta_spill_calls\<close>, which stands for the
  rows of \<open>_cdc_flight.spill_events\<close>.

  A record object is shared between the event list and the acknowledgement list of a
  unit; the writes through one list that the other one sees (\<open>raw = None\<close>, \<open>commit_lsn\<close>) are
  made in both, by object identity.
\<close>

section \<open>The data\<close>

datatype unit_kind = UNIT_TXN | UNIT_SNAPSHOT_CHUNK | UNIT_CONTROL | UNIT_MESSAGE

record complete_unit =
  cu_kind :: unit_kind
  cu_events :: "pending_record list"
  cu_records :: "pending_record list"
  cu_txn_id :: "string option"
  cu_last_lsn :: int
  cu_commit_lsn :: "int option"
  cu_nbytes :: nat
  cu_table :: "string option"
  cu_schema :: "string option"
  cu_touched_tables :: "string list"
  cu_snapshot_last_for_table :: bool
  cu_snapshot_last :: bool
  cu_fenced :: bool
  cu_spilled :: bool
  cu_spilled_events :: nat
  cu_spill_unit_seq :: "nat option"
  cu_discarded_events :: int
  cu_delivery_events :: "nat option"
  cu_incremental :: bool
  cu_ignored :: bool
  cu_admission_refusals :: "refusal list"

definition blank_unit :: "unit_kind \<Rightarrow> complete_unit" where
  "blank_unit k =
     \<lparr>cu_kind = k, cu_events = [], cu_records = [], cu_txn_id = None, cu_last_lsn = 0,
      cu_commit_lsn = None, cu_nbytes = 0, cu_table = None, cu_schema = None,
      cu_touched_tables = [], cu_snapshot_last_for_table = False, cu_snapshot_last = False,
      cu_fenced = False, cu_spilled = False, cu_spilled_events = 0, cu_spill_unit_seq = None,
      cu_discarded_events = 0, cu_delivery_events = None, cu_incremental = False,
      cu_ignored = False, cu_admission_refusals = []\<rparr>"

definition unit_terminal :: "complete_unit \<Rightarrow> pending_record option" where
  "unit_terminal u = (if cu_records u = [] then None else Some (last (cu_records u)))"

definition event_count :: "complete_unit \<Rightarrow> int" where
  "event_count u = int (length (cu_events u)) + int (cu_spilled_events u) + cu_discarded_events u"

definition tables_touched :: "complete_unit \<Rightarrow> string list" where
  "tables_touched u =
     remdups (cu_touched_tables u @
       map (\<lambda>e. the (pr_schema e) @ ''.'' @ the (pr_table e))
         (filter (\<lambda>e. truthy_str (pr_schema e) \<and> truthy_str (pr_table e)) (cu_events u)))"

record open_txn =
  ot_txn_id :: string
  ot_begin_seen :: bool
  ot_events :: "pending_record list"
  ot_records :: "pending_record list"
  ot_last_lsn :: int
  ot_nbytes :: nat
  ot_mem_bytes :: nat
  ot_count :: nat
  ot_delivery_events :: nat
  ot_per_table :: "(string, nat) dict"
  ot_touched_tables :: "string list"
  ot_admission_refusals :: "refusal list"
  ot_orders :: "int list"
  ot_message_count :: nat
  ot_spilled :: nat
  ot_spill_unit_seq :: "nat option"

definition new_txn :: "string \<Rightarrow> bool \<Rightarrow> open_txn" where
  "new_txn i b =
     \<lparr>ot_txn_id = i, ot_begin_seen = b, ot_events = [], ot_records = [], ot_last_lsn = 0,
      ot_nbytes = 0, ot_mem_bytes = 0, ot_count = 0, ot_delivery_events = 0, ot_per_table = [],
      ot_touched_tables = [], ot_admission_refusals = [], ot_orders = [],
      ot_message_count = 0, ot_spilled = 0, ot_spill_unit_seq = None\<rparr>"

record open_chunk =
  oc_schema :: "string option"
  oc_table :: "string option"
  oc_events :: "pending_record list"
  oc_records :: "pending_record list"
  oc_nbytes :: nat
  oc_mem_bytes :: nat
  oc_count :: nat
  oc_delivery_events :: nat
  oc_spilled :: nat
  oc_spill_unit_seq :: "nat option"
  oc_touched_tables :: "string list"
  oc_admission_refusals :: "refusal list"
  oc_saw_last :: bool
  oc_incremental :: bool

definition new_chunk :: "string option \<Rightarrow> string option \<Rightarrow> bool \<Rightarrow> open_chunk" where
  "new_chunk sch tab inc =
     \<lparr>oc_schema = sch, oc_table = tab, oc_events = [], oc_records = [], oc_nbytes = 0,
      oc_mem_bytes = 0, oc_count = 0, oc_delivery_events = 0, oc_spilled = 0,
      oc_spill_unit_seq = None, oc_touched_tables = [], oc_admission_refusals = [],
      oc_saw_last = False, oc_incremental = inc\<rparr>"

text \<open>One call of the spill callback: the unit, whether its rows are snapshot rows and of
  which table, and the events.\<close>

record spill_call =
  sc_unit_seq :: nat
  sc_snapshot :: "(string option \<times> string option) option"
  sc_events :: "pending_record list"

record asm_config =
  snapshot_chunk_events :: nat
  snapshot_chunk_bytes :: nat
  on_spill :: "(spill_call \<Rightarrow> nat option) option"
  spill_events :: nat
  spill_bytes :: nat
  keep_all_records :: bool
  discard_streaming :: bool
  incremental_enabled :: bool

record assembler =
  ta_txn :: "open_txn option"
  ta_chunk :: "open_chunk option"
  ta_deferred :: "pending_record list"
  ta_spill_unit_seq :: nat
  ta_spill_calls :: "spill_call list"
  ta_snapshot_ordinals :: "(string, nat) dict"
  ta_units_emitted :: nat
  ta_discarded_tail_events :: nat
  ta_orphan_end_markers :: nat
  ta_implicit_txn_opens :: nat

definition new_assembler :: assembler where
  "new_assembler =
     \<lparr>ta_txn = None, ta_chunk = None, ta_deferred = [], ta_spill_unit_seq = 0,
      ta_spill_calls = [], ta_snapshot_ordinals = [], ta_units_emitted = 0,
      ta_discarded_tail_events = 0, ta_orphan_end_markers = 0, ta_implicit_txn_opens = 0\<rparr>"

datatype asm_error =
    SnapshotInsideTransaction
  | IncrementalNotAdmitted
  | BoundaryNotTyped
  | BoundaryInsideTransaction
  | BeginWhileOpen
  | BeginWithoutId
  | NoTotalOrder
  | OrdinalNotInteger
  | OrdinalNotPositive
  | DataWithoutTxnId
  | TxnIdChanged
  | OrdinalTwice
  | EndForOtherTransaction
  | EndWithoutCount
  | EndCountNotInteger
  | EndCountMismatch
  | OrdinalSetMismatch
  | TableCountMismatch
  | TableNotDeclared
  | MessageWithoutTxnId
  | MessageInsideTransaction
  | SpillRaised

section \<open>Introspection\<close>

definition open_transaction_id :: "assembler \<Rightarrow> string option" where
  "open_transaction_id st = map_option ot_txn_id (ta_txn st)"

definition open_unit_has_spilled :: "assembler \<Rightarrow> bool" where
  "open_unit_has_spilled st \<longleftrightarrow>
     (case ta_txn st of None \<Rightarrow> False | Some t \<Rightarrow> ot_spilled t > 0) \<or>
     (case ta_chunk st of None \<Rightarrow> False | Some c \<Rightarrow> oc_spilled c > 0)"

definition buffered_events :: "assembler \<Rightarrow> nat" where
  "buffered_events st =
     (case ta_txn st of None \<Rightarrow> 0 | Some t \<Rightarrow> length (ot_events t)) +
     (case ta_chunk st of None \<Rightarrow> 0 | Some c \<Rightarrow> length (oc_events c)) +
     length (ta_deferred st)"

definition buffered_bytes :: "assembler \<Rightarrow> nat" where
  "buffered_bytes st =
     (case ta_txn st of None \<Rightarrow> 0 | Some t \<Rightarrow> ot_nbytes t) +
     (case ta_chunk st of None \<Rightarrow> 0 | Some c \<Rightarrow> oc_nbytes c)"

section \<open>Retention and spilling\<close>

text \<open>\<open>older.raw = None\<close> for every record in \<open>olds\<close>, as another list sees it.\<close>

definition release :: "pending_record list \<Rightarrow> pending_record list \<Rightarrow> pending_record list" where
  "release olds rs =
     map (\<lambda>r. if pr_id r \<in> set (map pr_id olds) then r\<lparr>pr_raw := None\<rparr> else r) rs"

definition retain_txn :: "asm_config \<Rightarrow> open_txn \<Rightarrow> pending_record \<Rightarrow> open_txn" where
  "retain_txn cfg t r =
     (if keep_all_records cfg then t\<lparr>ot_records := ot_records t @ [r]\<rparr>
      else t\<lparr>ot_events := release (ot_records t) (ot_events t), ot_records := [r]\<rparr>)"

definition retain_chunk :: "asm_config \<Rightarrow> open_chunk \<Rightarrow> pending_record \<Rightarrow> open_chunk" where
  "retain_chunk cfg c r =
     (if keep_all_records cfg then c\<lparr>oc_records := oc_records c @ [r]\<rparr>
      else c\<lparr>oc_events := release (oc_records c) (oc_events c), oc_records := [r]\<rparr>)"

text \<open>\<open>_spill\<close>: number the unit on its first spill, then call the callback.\<close>

definition spill ::
  "asm_config \<Rightarrow> assembler \<Rightarrow> nat option \<Rightarrow> pending_record list \<Rightarrow>
   (string option \<times> string option) option \<Rightarrow> asm_error + assembler \<times> nat \<times> nat" where
  "spill cfg st seq evs snap =
     (let (n, st1) = (case seq of
            Some n \<Rightarrow> (n, st)
          | None \<Rightarrow> (Suc (ta_spill_unit_seq st),
                     st\<lparr>ta_spill_unit_seq := Suc (ta_spill_unit_seq st)\<rparr>));
          call = \<lparr>sc_unit_seq = n, sc_snapshot = snap, sc_events = evs\<rparr>
      in case on_spill cfg of
           None \<Rightarrow> Inl SpillRaised
         | Some cb \<Rightarrow>
             (case cb call of
                None \<Rightarrow> Inl SpillRaised
              | Some staged \<Rightarrow>
                  Inr (st1\<lparr>ta_spill_calls := ta_spill_calls st1 @ [call]\<rparr>, n, staged)))"

definition maybe_spill_txn ::
  "asm_config \<Rightarrow> assembler \<Rightarrow> open_txn \<Rightarrow> asm_error + assembler \<times> open_txn" where
  "maybe_spill_txn cfg st t =
     (if on_spill cfg = None then Inr (st, t)
      else if length (ot_events t) < spill_events cfg \<and> ot_mem_bytes t < spill_bytes cfg
        then Inr (st, t)
      else rbind (spill cfg st (ot_spill_unit_seq t) (ot_events t) None) (\<lambda>(st1, n, staged).
        let t1 = t\<lparr>ot_spill_unit_seq := Some n\<rparr> in
        if staged = 0 then Inr (st1, t1)
        else Inr (st1, t1\<lparr>ot_spilled := ot_spilled t1 + staged, ot_events := [],
                          ot_mem_bytes := 0\<rparr>)))"

definition maybe_spill_chunk ::
  "asm_config \<Rightarrow> assembler \<Rightarrow> open_chunk \<Rightarrow> asm_error + assembler \<times> open_chunk" where
  "maybe_spill_chunk cfg st c =
     (if on_spill cfg = None then Inr (st, c)
      else if length (oc_events c) < spill_events cfg \<and> oc_mem_bytes c < spill_bytes cfg
        then Inr (st, c)
      else rbind (spill cfg st (oc_spill_unit_seq c) (oc_events c)
                    (Some (oc_schema c, oc_table c))) (\<lambda>(st1, n, staged).
        let c1 = c\<lparr>oc_spill_unit_seq := Some n\<rparr> in
        if staged = 0 then Inr (st1, c1)
        else Inr (st1, c1\<lparr>oc_spilled := oc_spilled c1 + staged, oc_events := [],
                          oc_mem_bytes := 0\<rparr>)))"

section \<open>Control and message units\<close>

definition refusals_of :: "pending_record \<Rightarrow> refusal list" where
  "refusals_of r = (case pr_admission_refusal r of None \<Rightarrow> [] | Some x \<Rightarrow> [x])"

definition message_unit :: "pending_record \<Rightarrow> complete_unit" where
  "message_unit r =
     (let r' = r\<lparr>pr_message_transactional := Some False\<rparr> in
      (blank_unit UNIT_MESSAGE)\<lparr>cu_events := [r'], cu_records := [r'],
        cu_last_lsn := int_or (pr_lsn r) 0, cu_commit_lsn := pr_lsn r, cu_nbytes := pr_nbytes r,
        cu_delivery_events := Some 0, cu_admission_refusals := refusals_of r\<rparr>)"

definition control_unit :: "pending_record \<Rightarrow> complete_unit" where
  "control_unit r =
     (blank_unit UNIT_CONTROL)\<lparr>cu_records := [r], cu_txn_id := pr_txn_id r,
       cu_last_lsn := int_or (pr_lsn r) 0, cu_commit_lsn := pr_lsn r, cu_nbytes := pr_nbytes r,
       cu_admission_refusals := refusals_of r\<rparr>"

section \<open>Streaming\<close>

definition feed_begin ::
  "asm_config \<Rightarrow> assembler \<Rightarrow> pending_record \<Rightarrow> asm_error + assembler \<times> complete_unit list" where
  "feed_begin cfg st r =
     (case ta_txn st of
        Some _ \<Rightarrow> Inl BeginWhileOpen
      | None \<Rightarrow>
          (case pr_txn_id r of
             None \<Rightarrow> Inl BeginWithoutId
           | Some i \<Rightarrow>
               let t = retain_txn cfg (new_txn i True) r in
               Inr (st\<lparr>ta_txn := Some (t\<lparr>ot_nbytes := ot_nbytes t + pr_nbytes r\<rparr>)\<rparr>, [])))"

definition validate_ordinal :: "pending_record \<Rightarrow> asm_error + int" where
  "validate_ordinal r =
     (if pr_total_order r = JNull then Inl NoTotalOrder
      else case py_int (pr_total_order r) of
             None \<Rightarrow> Inl OrdinalNotInteger
           | Some n \<Rightarrow> if n < 1 then Inl OrdinalNotPositive else Inr n)"

text \<open>The open transaction a counted record of transaction \<open>i\<close> belongs to: the open one, or one
  opened implicitly when Debezium restored the transaction context without repeating
  \<open>BEGIN\<close>.\<close>

definition txn_for :: "assembler \<Rightarrow> string \<Rightarrow> asm_error + assembler \<times> open_txn" where
  "txn_for st i =
     (case ta_txn st of
        None \<Rightarrow> Inr (st\<lparr>ta_implicit_txn_opens := Suc (ta_implicit_txn_opens st)\<rparr>, new_txn i False)
      | Some t \<Rightarrow> if ot_txn_id t \<noteq> i then Inl TxnIdChanged else Inr (st, t))"

text \<open>\<open>self._txn.events.append(rec)\<close> and the spill test, unless the stream is discarded.\<close>

definition buffer_event ::
  "asm_config \<Rightarrow> assembler \<Rightarrow> open_txn \<Rightarrow> pending_record \<Rightarrow> asm_error + assembler \<times> complete_unit list" where
  "buffer_event cfg st t r =
     (if discard_streaming cfg then Inr (st\<lparr>ta_txn := Some t\<rparr>, [])
      else rbind (maybe_spill_txn cfg st
                    (t\<lparr>ot_events := ot_events t @ [r], ot_mem_bytes := ot_mem_bytes t + pr_nbytes r\<rparr>))
             (\<lambda>(st', t'). Inr (st'\<lparr>ta_txn := Some t'\<rparr>, [])))"

definition count_table :: "string option \<Rightarrow> open_txn \<Rightarrow> open_txn" where
  "count_table tab t =
     (if truthy_str tab then
        t\<lparr>ot_per_table :=
            AList.update (the tab) (Suc (dict_get (ot_per_table t) (the tab) 0)) (ot_per_table t),
          ot_touched_tables := List.insert (the tab) (ot_touched_tables t)\<rparr>
      else t)"

definition feed_data ::
  "asm_config \<Rightarrow> assembler \<Rightarrow> pending_record \<Rightarrow> asm_error + assembler \<times> complete_unit list" where
  "feed_data cfg st r =
     (case pr_txn_id r of
        None \<Rightarrow> Inl DataWithoutTxnId
      | Some i \<Rightarrow>
          rbind (validate_ordinal r) (\<lambda>order.
          rbind (txn_for st i) (\<lambda>(st1, t).
          if order \<in> set (ot_orders t) then Inl OrdinalTwice
          else
            let r1 = r\<lparr>pr_total_order := JInt order\<rparr>;
                t1 = t\<lparr>ot_orders := order # ot_orders t, ot_count := Suc (ot_count t),
                       ot_admission_refusals := ot_admission_refusals t @ refusals_of r1,
                       ot_delivery_events :=
                         ot_delivery_events t + (if is_delivery_data r1 then 1 else 0)\<rparr>;
                t2 = retain_txn cfg t1 r1;
                t3 = t2\<lparr>ot_nbytes := ot_nbytes t2 + pr_nbytes r1,
                        ot_last_lsn := max (ot_last_lsn t2) (int_or (pr_lsn r1) 0)\<rparr>;
                t4 = count_table (qualified_table r1) t3
            in buffer_event cfg st1 t4 r1)))"

definition feed_transactional_message ::
  "asm_config \<Rightarrow> assembler \<Rightarrow> pending_record \<Rightarrow> asm_error + assembler \<times> complete_unit list" where
  "feed_transactional_message cfg st r =
     (case pr_txn_id r of
        None \<Rightarrow> Inl MessageWithoutTxnId
      | Some i \<Rightarrow>
          rbind (validate_ordinal r) (\<lambda>order.
          rbind (txn_for st i) (\<lambda>(st1, t).
          if order \<in> set (ot_orders t) then Inl OrdinalTwice
          else
            let r1 = r\<lparr>pr_total_order := JInt order, pr_message_transactional := Some True\<rparr>;
                t1 = t\<lparr>ot_orders := order # ot_orders t, ot_count := Suc (ot_count t),
                       ot_message_count := Suc (ot_message_count t),
                       ot_admission_refusals := ot_admission_refusals t @ refusals_of r1\<rparr>;
                t2 = retain_txn cfg t1 r1;
                t3 = t2\<lparr>ot_nbytes := ot_nbytes t2 + pr_nbytes r1,
                        ot_last_lsn := max (ot_last_lsn t2) (int_or (pr_lsn r1) 0)\<rparr>
            in buffer_event cfg st1 t3 r1)))"

text \<open>The per-table comparison of \<open>_verify_complete\<close>: the loop over the declared collections, with
  the allowance that unobserved pseudo-collections may use up, then the loop over the
  observed tables.\<close>

fun check_declared :: "(string, nat) dict \<Rightarrow> int \<Rightarrow> (string \<times> int) list \<Rightarrow> asm_error + int" where
  "check_declared per_table allowance [] = Inr allowance"
| "check_declared per_table allowance ((table, n) # ds) =
     (let actual = int (dict_get per_table table 0) in
      if actual = n then check_declared per_table allowance ds
      else if actual = 0 \<and> n \<le> allowance then check_declared per_table (allowance - n) ds
      else Inl TableCountMismatch)"

definition verify_complete :: "open_txn \<Rightarrow> pending_record \<Rightarrow> asm_error + unit" where
  "verify_complete t r =
     (if pr_txn_event_count r = JNull then Inl EndWithoutCount
      else case py_int (pr_txn_event_count r) of
             None \<Rightarrow> Inl EndCountNotInteger
           | Some declared \<Rightarrow>
               if declared \<noteq> int (ot_count t) then Inl EndCountMismatch
               else if set (ot_orders t) \<noteq> set [1..int (ot_count t)] then Inl OrdinalSetMismatch
               else rbind (check_declared (ot_per_table t) (int (ot_message_count t))
                             (pr_txn_data_collections r)) (\<lambda>_.
                    raise_if (\<not> list_all (\<lambda>p. dict_has (pr_txn_data_collections r) (fst p))
                                 (ot_per_table t)) TableNotDeclared))"

definition stamp_commit :: "int \<Rightarrow> pending_record list \<Rightarrow> pending_record list \<Rightarrow> pending_record list" where
  \<comment> \<open>\<open>event.commit_lsn = commit_lsn\<close> for every event in \<open>evs\<close>, as the list \<open>rs\<close> sees it\<close>
  "stamp_commit c evs rs =
     map (\<lambda>r. if pr_id r \<in> set (map pr_id evs) then r\<lparr>pr_commit_lsn := Some c\<rparr> else r) rs"

definition max_lsn :: "pending_record list \<Rightarrow> int" where
  \<comment> \<open>\<open>max(0, *(e.lsn or 0 for e in evs))\<close>\<close>
  "max_lsn evs = foldr (\<lambda>e. max (int_or (pr_lsn e) 0)) evs 0"

definition txn_unit :: "open_txn \<Rightarrow> int \<Rightarrow> complete_unit" where
  "txn_unit t c =
     (blank_unit UNIT_TXN)\<lparr>
        cu_events := stamp_commit c (ot_events t) (ot_events t),
        cu_records := stamp_commit c (ot_events t) (ot_records t),
        cu_txn_id := Some (ot_txn_id t), cu_commit_lsn := Some c,
        cu_last_lsn := max c (max_lsn (ot_events t)), cu_nbytes := ot_nbytes t,
        cu_touched_tables := ot_touched_tables t, cu_spilled := (ot_spilled t \<noteq> 0),
        cu_spilled_events := ot_spilled t, cu_spill_unit_seq := ot_spill_unit_seq t,
        cu_discarded_events := int (ot_count t) - int (length (ot_events t)) - int (ot_spilled t),
        cu_delivery_events := Some (ot_delivery_events t),
        cu_admission_refusals := ot_admission_refusals t\<rparr>"

definition feed_end ::
  "asm_config \<Rightarrow> assembler \<Rightarrow> pending_record \<Rightarrow> asm_error + assembler \<times> complete_unit list" where
  "feed_end cfg st r =
     (case ta_txn st of
        None \<Rightarrow> Inr (st\<lparr>ta_orphan_end_markers := Suc (ta_orphan_end_markers st)\<rparr>, [control_unit r])
      | Some t \<Rightarrow>
          if pr_txn_id r \<noteq> Some (ot_txn_id t) then Inl EndForOtherTransaction
          else
            let t1 = retain_txn cfg t r;
                t2 = t1\<lparr>ot_nbytes := ot_nbytes t1 + pr_nbytes r\<rparr>
            in rbind (verify_complete t2 r) (\<lambda>_.
                 Inr (st\<lparr>ta_txn := None\<rparr>, [txn_unit t2 (int_or (pr_lsn r) (ot_last_lsn t2))])))"

definition is_transactional :: "pending_record \<Rightarrow> bool" where
  "is_transactional r =
     (case pr_message_transactional r of
        Some b \<Rightarrow> b
      | None \<Rightarrow> pr_txn_id r \<noteq> None \<or> pr_total_order r \<noteq> JNull)"

definition feed_control ::
  "asm_config \<Rightarrow> assembler \<Rightarrow> pending_record \<Rightarrow> asm_error + assembler \<times> complete_unit list" where
  "feed_control cfg st r =
     (if pr_kind r = KIND_MESSAGE then
        (if is_transactional r then feed_transactional_message cfg st r
         else if ta_txn st \<noteq> None then Inl MessageInsideTransaction
         else Inr (st, [message_unit r]))
      else
        (case ta_txn st of
           Some t \<Rightarrow>
             let t1 = retain_txn cfg t r in
             Inr (st\<lparr>ta_txn := Some (t1\<lparr>ot_nbytes := ot_nbytes t1 + pr_nbytes r\<rparr>)\<rparr>, [])
         | None \<Rightarrow> Inr (st, [control_unit r])))"

section \<open>Snapshot chunks\<close>

fun chunk_lsn :: "pending_record list \<Rightarrow> int" where
  \<comment> \<open>\<open>max((e.lsn or 0 for e in evs), default=0)\<close>\<close>
  "chunk_lsn [] = 0"
| "chunk_lsn (e # es) = foldr (\<lambda>e. max (int_or (pr_lsn e) 0)) es (int_or (pr_lsn e) 0)"

definition chunk_unit :: "open_chunk \<Rightarrow> bool \<Rightarrow> complete_unit" where
  "chunk_unit c last_for_table =
     (blank_unit UNIT_SNAPSHOT_CHUNK)\<lparr>
        cu_events := oc_events c, cu_records := oc_records c, cu_schema := oc_schema c,
        cu_table := oc_table c, cu_touched_tables := oc_touched_tables c,
        cu_last_lsn := chunk_lsn (oc_events c), cu_nbytes := oc_nbytes c,
        cu_snapshot_last_for_table := (last_for_table \<and> \<not> oc_incremental c),
        cu_snapshot_last := oc_saw_last c, cu_spilled := (oc_spilled c \<noteq> 0),
        cu_spilled_events := oc_spilled c, cu_spill_unit_seq := oc_spill_unit_seq c,
        cu_incremental := oc_incremental c, cu_delivery_events := Some (oc_delivery_events c),
        cu_admission_refusals := oc_admission_refusals c\<rparr>"

definition close_chunk :: "bool \<Rightarrow> assembler \<Rightarrow> assembler \<times> complete_unit list" where
  "close_chunk last_for_table st =
     (case ta_chunk st of
        None \<Rightarrow> (st, [])
      | Some c \<Rightarrow> (st\<lparr>ta_chunk := None\<rparr>, [chunk_unit c last_for_table]))"

text \<open>The chunk the record goes into: the open one, unless it belongs to another table or is of the
  other kind of snapshot, in which case it is closed first.\<close>

definition chunk_for ::
  "assembler \<Rightarrow> pending_record \<Rightarrow> assembler \<times> complete_unit list \<times> open_chunk" where
  "chunk_for st r =
     (let inc = (pr_snapshot r = Some SNAPSHOT_INCREMENTAL);
          (st1, us1) = (case ta_chunk st of
             Some c \<Rightarrow> if oc_table c \<noteq> pr_table r \<or> oc_schema c \<noteq> pr_schema r
                         then close_chunk True st else (st, [])
           | None \<Rightarrow> (st, []))
      in case ta_chunk st1 of
           None \<Rightarrow> (st1, us1, new_chunk (pr_schema r) (pr_table r) inc)
         | Some c \<Rightarrow>
             if oc_incremental c \<noteq> inc then
               (let (st2, us2) = close_chunk False st1
                in (st2, us1 @ us2, new_chunk (pr_schema r) (pr_table r) inc))
             else (st1, us1, c))"

definition snapshot_key :: "pending_record \<Rightarrow> string" where
  "snapshot_key r = (if truthy_str (qualified_table r) then the (qualified_table r) else '''')"

text \<open>The part of \<open>_feed_snapshot\<close> that gives the record its arrival ordinal and counts it into
  the chunk.\<close>

definition next_ordinal :: "assembler \<Rightarrow> pending_record \<Rightarrow> nat" where
  "next_ordinal st r = Suc (dict_get (ta_snapshot_ordinals st) (snapshot_key r) 0)"

definition admit_row ::
  "asm_config \<Rightarrow> assembler \<Rightarrow> open_chunk \<Rightarrow> pending_record \<Rightarrow> assembler \<times> open_chunk" where
  "admit_row cfg st c r =
     (let c0 = (if truthy_str (qualified_table r)
                then c\<lparr>oc_touched_tables := List.insert (the (qualified_table r)) (oc_touched_tables c)\<rparr>
                else c);
          ordinal = next_ordinal st r;
          st1 = st\<lparr>ta_snapshot_ordinals :=
                     AList.update (snapshot_key r) ordinal (ta_snapshot_ordinals st)\<rparr>;
          r1 = r\<lparr>pr_snapshot_ordinal := Some ordinal\<rparr>;
          c1 = c0\<lparr>oc_events := oc_events c0 @ [r1],
                  oc_admission_refusals := oc_admission_refusals c0 @ refusals_of r1,
                  oc_count := Suc (oc_count c0),
                  oc_delivery_events :=
                    oc_delivery_events c0 + (if is_delivery_data r1 then 1 else 0),
                  oc_saw_last := (oc_saw_last c0 \<or> pr_snapshot r1 = Some SNAPSHOT_LAST)\<rparr>;
          c2 = retain_chunk cfg c1 r1
      in (st1, c2\<lparr>oc_nbytes := oc_nbytes c2 + pr_nbytes r1,
                  oc_mem_bytes := oc_mem_bytes c2 + pr_nbytes r1\<rparr>))"

definition is_table_last :: "pending_record \<Rightarrow> bool" where
  "is_table_last r =
     (case pr_snapshot r of None \<Rightarrow> False | Some s \<Rightarrow> s \<in> set SNAPSHOT_TABLE_LAST)"

text \<open>Admit the row, spill the chunk when it is over the threshold, and close it at the end of its
  table or when it is large enough.\<close>

definition place_row ::
  "asm_config \<Rightarrow> assembler \<Rightarrow> open_chunk \<Rightarrow> pending_record \<Rightarrow> asm_error + assembler \<times> complete_unit list"
  where
  "place_row cfg st c r =
     (let (st1, c1) = admit_row cfg st c r
      in rbind (maybe_spill_chunk cfg st1 c1) (\<lambda>(st2, c2).
           let overflow = (snapshot_chunk_events cfg \<le> oc_count c2 \<or>
                           snapshot_chunk_bytes cfg \<le> oc_nbytes c2);
               st3 = st2\<lparr>ta_chunk := Some c2\<rparr>
           in if is_table_last r \<or> overflow then Inr (close_chunk (is_table_last r) st3)
              else Inr (st3, [])))"

definition feed_snapshot ::
  "asm_config \<Rightarrow> assembler \<Rightarrow> pending_record \<Rightarrow> asm_error + assembler \<times> complete_unit list" where
  "feed_snapshot cfg st r =
     (if ta_txn st \<noteq> None then Inl SnapshotInsideTransaction
      else if pr_snapshot r = Some SNAPSHOT_INCREMENTAL \<and> \<not> incremental_enabled cfg
        then Inl IncrementalNotAdmitted
      else
        let (st1, us1, c) = chunk_for st r
        in rbind (place_row cfg st1 c r) (\<lambda>(st2, us2). Inr (st2, us1 @ us2)))"

text \<open>\<open>_flush_deferred_snapshots\<close>: the \<open>while\<close> loop over the queue.\<close>

fun flush_deferred ::
  "asm_config \<Rightarrow> assembler \<Rightarrow> pending_record list \<Rightarrow> asm_error + assembler \<times> complete_unit list" where
  "flush_deferred cfg st [] = Inr (st\<lparr>ta_deferred := []\<rparr>, [])"
| "flush_deferred cfg st (r # rs) =
     (if ta_txn st = None then
        rbind (feed_snapshot cfg (st\<lparr>ta_deferred := rs\<rparr>) r) (\<lambda>(st1, us1).
        rbind (flush_deferred cfg st1 rs) (\<lambda>(st2, us2). Inr (st2, us1 @ us2)))
      else Inr (st\<lparr>ta_deferred := r # rs\<rparr>, []))"

section \<open>feed\<close>

definition emit :: "assembler \<times> complete_unit list \<Rightarrow> assembler \<times> complete_unit list" where
  "emit p = (case p of (st, us) \<Rightarrow>
     (st\<lparr>ta_units_emitted := ta_units_emitted st + length us\<rparr>, us))"

definition feed_stream ::
  "asm_config \<Rightarrow> assembler \<Rightarrow> pending_record \<Rightarrow> asm_error + assembler \<times> complete_unit list" where
  "feed_stream cfg st r =
     (case pr_kind r of
        KIND_TXN_BEGIN \<Rightarrow> feed_begin cfg st r
      | KIND_TXN_END \<Rightarrow> feed_end cfg st r
      | KIND_DATA \<Rightarrow> feed_data cfg st r
      | KIND_TRUNCATE \<Rightarrow> feed_data cfg st r
      | _ \<Rightarrow> feed_control cfg st r)"

definition feed ::
  "asm_config \<Rightarrow> assembler \<Rightarrow> pending_record \<Rightarrow> asm_error + assembler \<times> complete_unit list" where
  "feed cfg st r =
     (if pr_kind r = KIND_SNAPSHOT then
        (if ta_txn st \<noteq> None then
           (if pr_snapshot r \<noteq> Some SNAPSHOT_INCREMENTAL \<or> \<not> incremental_enabled cfg
            then Inl SnapshotInsideTransaction
            else Inr (st\<lparr>ta_deferred := ta_deferred st @ [r]\<rparr>, []))
         else rbind (feed_snapshot cfg st r) (\<lambda>p. Inr (emit p)))
      else
        (let (st1, us1) = close_chunk True st in
         rbind (feed_stream cfg st1 r) (\<lambda>(st2, us2).
         rbind (if ta_txn st2 = None \<and> ta_deferred st2 \<noteq> []
                then flush_deferred cfg st2 (ta_deferred st2) else Inr (st2, [])) (\<lambda>(st3, us3).
         Inr (emit (st3, us1 @ us2 @ us3))))))"

definition feed_snapshot_boundary ::
  "assembler \<Rightarrow> pending_record \<Rightarrow> asm_error + assembler \<times> complete_unit list" where
  "feed_snapshot_boundary st r =
     (if pr_kind r \<noteq> KIND_SNAPSHOT_BOUNDARY \<or> pr_raw r \<noteq> None then Inl BoundaryNotTyped
      else if ta_txn st \<noteq> None then Inl BoundaryInsideTransaction
      else let (st1, us) = close_chunk True st in Inr (emit (st1, us @ [control_unit r])))"

definition discard_open_unit :: "assembler \<Rightarrow> assembler \<times> nat" where
  "discard_open_unit st =
     (let d1 = (case ta_txn st of None \<Rightarrow> 0 | Some t \<Rightarrow> ot_count t);
          d2 = d1 + (case ta_chunk st of None \<Rightarrow> 0 | Some c \<Rightarrow> oc_count c);
          d3 = d2 + length (ta_deferred st)
      in (st\<lparr>ta_txn := None, ta_chunk := None, ta_deferred := [],
             ta_discarded_tail_events := ta_discarded_tail_events st + d3\<rparr>, d3))"

text \<open>Feeding a batch, as the applier does: the units of all records in order.\<close>

fun assemble ::
  "asm_config \<Rightarrow> assembler \<Rightarrow> pending_record list \<Rightarrow> asm_error + assembler \<times> complete_unit list" where
  "assemble cfg st [] = Inr (st, [])"
| "assemble cfg st (r # rs) =
     rbind (feed cfg st r) (\<lambda>(st1, us1).
     rbind (assemble cfg st1 rs) (\<lambda>(st2, us2). Inr (st2, us1 @ us2)))"

end
