(* ===== verification/Assembler_Whole.thy ===== *)
theory Assembler_Whole
  imports Assembler
begin

text \<open>
  Wholeness of the units the assembler emits (Invariant B of ADR 0001: a commit group
  never contains part of a PostgreSQL transaction).

  The proofs follow a ghost segment of the input: the records fed since the open
  transaction was opened. \<open>txn_holds\<close> says what the open transaction's counters, ordinal set,
  per-table counts and payload (staged and in memory) have to do with that segment;
  \<open>feed\<close> keeps it, and an \<open>END\<close> that passes \<open>verify_complete\<close> turns it into \<open>whole\<close>.
\<close>

section \<open>Specification vocabulary\<close>

text \<open>The records a transaction's \<open>END.event_count\<close> counts.\<close>

definition is_row :: "pending_record \<Rightarrow> bool" where
  "is_row r \<longleftrightarrow> pr_kind r = KIND_DATA \<or> pr_kind r = KIND_TRUNCATE"

definition counted :: "pending_record \<Rightarrow> bool" where
  "counted r \<longleftrightarrow> is_row r \<or> (pr_kind r = KIND_MESSAGE \<and> is_transactional r)"

definition ordinal_of :: "pending_record \<Rightarrow> int" where
  "ordinal_of r = (case py_int (pr_total_order r) of None \<Rightarrow> 0 | Some n \<Rightarrow> n)"

text \<open>A record without the fields that the assembler itself writes.\<close>

definition rec_core :: "pending_record \<Rightarrow> pending_record" where
  "rec_core r = r\<lparr>pr_raw := None, pr_commit_lsn := None, pr_total_order := JNull,
                  pr_message_transactional := None, pr_snapshot_ordinal := None\<rparr>"

text \<open>What was staged for a spilled unit, and a unit's whole payload.\<close>

definition staged_of :: "assembler \<Rightarrow> nat option \<Rightarrow> pending_record list" where
  "staged_of st seq =
     (case seq of
        None \<Rightarrow> []
      | Some n \<Rightarrow> concat (map sc_events (filter (\<lambda>c. sc_unit_seq c = n) (ta_spill_calls st))))"

definition unit_payload :: "assembler \<Rightarrow> complete_unit \<Rightarrow> pending_record list" where
  "unit_payload st u = staged_of st (cu_spill_unit_seq u) @ cu_events u"

text \<open>The contract of the spill callback (\<open>stage_events\<close> returns \<open>len(events)\<close>).\<close>

definition takes_all :: "asm_config \<Rightarrow> bool" where
  "takes_all cfg \<longleftrightarrow>
     (\<forall>cb c n. on_spill cfg = Some cb \<longrightarrow> cb c = Some n \<longrightarrow> n = length (sc_events c))"

definition spill_total :: "asm_config \<Rightarrow> bool" where
  \<comment> \<open>the callback does not raise\<close>
  "spill_total cfg \<longleftrightarrow> (\<forall>cb c. on_spill cfg = Some cb \<longrightarrow> cb c \<noteq> None)"

definition rows_of :: "string \<Rightarrow> pending_record list \<Rightarrow> nat" where
  "rows_of tab rs =
     length (filter (\<lambda>r. is_row r \<and> tab \<noteq> [] \<and> qualified_table r = Some tab) rs)"

definition messages_of :: "pending_record list \<Rightarrow> nat" where
  "messages_of rs = length (filter (\<lambda>r. counted r \<and> pr_kind r = KIND_MESSAGE) rs)"

text \<open>\<open>whole cfg st seg e u\<close>: unit \<open>u\<close> is exactly the transaction whose records are the segment
  \<open>seg\<close> closed by the marker \<open>e\<close>.\<close>

definition whole ::
  "asm_config \<Rightarrow> assembler \<Rightarrow> pending_record list \<Rightarrow> pending_record \<Rightarrow> complete_unit \<Rightarrow> bool" where
  "whole cfg st seg e u \<longleftrightarrow>
     (let evs = filter counted seg in
      pr_kind e = KIND_TXN_END \<and> list_all (\<lambda>r. pr_kind r \<noteq> KIND_TXN_END) seg \<and>
      cu_txn_id u \<noteq> None \<and> pr_txn_id e = cu_txn_id u \<and>
      list_all (\<lambda>r. pr_txn_id r = cu_txn_id u) evs \<and>
      py_int (pr_txn_event_count e) = Some (int (length evs)) \<and>
      distinct (map ordinal_of evs) \<and> set (map ordinal_of evs) = {1..int (length evs)} \<and>
      event_count u = int (length evs) \<and>
      list_all (\<lambda>r. is_row r \<longrightarrow> truthy_str (qualified_table r) \<longrightarrow>
                    dict_has (pr_txn_data_collections e) (the (qualified_table r))) seg \<and>
      list_all (\<lambda>(tab, n). rows_of tab seg \<noteq> 0 \<longrightarrow> int (rows_of tab seg) = n)
        (pr_txn_data_collections e) \<and>
      sum_list (map (\<lambda>(tab, n). n - int (rows_of tab seg)) (pr_txn_data_collections e))
        \<le> int (messages_of seg) \<and>
      (if discard_streaming cfg then unit_payload st u = []
       else map rec_core (unit_payload st u) = map rec_core evs))"

section \<open>Spilling keeps the payload\<close>

text \<open>Unit numbers are handed out in increasing order, so a number the state has not reached
  has no staged rows.\<close>

definition seq_bound :: "assembler \<Rightarrow> nat option \<Rightarrow> bool" where
  "seq_bound st seq \<longleftrightarrow>
     (\<forall>c \<in> set (ta_spill_calls st). sc_unit_seq c \<le> ta_spill_unit_seq st) \<and>
     (\<forall>n. seq = Some n \<longrightarrow> n \<le> ta_spill_unit_seq st)"

lemma staged_fresh:
  "seq_bound st seq \<Longrightarrow> ta_spill_unit_seq st < n \<Longrightarrow> staged_of st (Some n) = []"
  by (force simp: seq_bound_def staged_of_def filter_empty_conv)

lemma staged_of_None [simp]: "staged_of st None = []"
  by (simp add: staged_of_def)

lemma staged_of_cong [simp]:
  "staged_of (st\<lparr>ta_txn := x\<rparr>) seq = staged_of st seq"
  "staged_of (st\<lparr>ta_chunk := y\<rparr>) seq = staged_of st seq"
  "staged_of (st\<lparr>ta_deferred := z\<rparr>) seq = staged_of st seq"
  "staged_of (st\<lparr>ta_snapshot_ordinals := d\<rparr>) seq = staged_of st seq"
  "staged_of (st\<lparr>ta_units_emitted := n\<rparr>) seq = staged_of st seq"
  "staged_of (st\<lparr>ta_orphan_end_markers := n\<rparr>) seq = staged_of st seq"
  "staged_of (st\<lparr>ta_implicit_txn_opens := n\<rparr>) seq = staged_of st seq"
  by (simp_all add: staged_of_def split: option.split)

lemma seq_bound_cong [simp]:
  "seq_bound (st\<lparr>ta_txn := x\<rparr>) seq = seq_bound st seq"
  "seq_bound (st\<lparr>ta_chunk := y\<rparr>) seq = seq_bound st seq"
  "seq_bound (st\<lparr>ta_deferred := z\<rparr>) seq = seq_bound st seq"
  "seq_bound (st\<lparr>ta_snapshot_ordinals := d\<rparr>) seq = seq_bound st seq"
  "seq_bound (st\<lparr>ta_units_emitted := n\<rparr>) seq = seq_bound st seq"
  "seq_bound (st\<lparr>ta_orphan_end_markers := n\<rparr>) seq = seq_bound st seq"
  "seq_bound (st\<lparr>ta_implicit_txn_opens := n\<rparr>) seq = seq_bound st seq"
  by (simp_all add: seq_bound_def)

lemma spill_shape:
  assumes "spill cfg st seq evs snap = Inr (st', n, k)"
  obtains cb call where "on_spill cfg = Some cb" and "cb call = Some k"
    and "call = \<lparr>sc_unit_seq = n, sc_snapshot = snap, sc_events = evs\<rparr>"
    and "n = (case seq of None \<Rightarrow> Suc (ta_spill_unit_seq st) | Some m \<Rightarrow> m)"
    and "st' = st\<lparr>ta_spill_unit_seq :=
                    (case seq of None \<Rightarrow> Suc (ta_spill_unit_seq st) | Some m \<Rightarrow> ta_spill_unit_seq st),
                  ta_spill_calls := ta_spill_calls st @ [call]\<rparr>"
proof (cases "on_spill cfg")
  case None
  then show ?thesis using assms by (simp add: spill_def Let_def split: prod.splits)
next
  case (Some cb)
  with assms show ?thesis
    by (cases seq; intro that [of cb "\<lparr>sc_unit_seq = n, sc_snapshot = snap, sc_events = evs\<rparr>"])
      (auto simp: spill_def Let_def split: option.splits)
qed

lemma spill_ok:
  assumes "spill cfg st seq evs snap = Inr (st', n, k)" and "seq_bound st seq"
  shows "seq_bound st' (Some n)" and "staged_of st' (Some n) = staged_of st seq @ evs"
    and "ta_txn st' = ta_txn st" "ta_chunk st' = ta_chunk st" "ta_deferred st' = ta_deferred st"
    and "ta_snapshot_ordinals st' = ta_snapshot_ordinals st"
    and "ta_units_emitted st' = ta_units_emitted st"
  using assms staged_fresh [OF assms(2) lessI]
  by (auto elim!: spill_shape simp: seq_bound_def staged_of_def takes_all_def
      split: option.splits)

lemma spill_takes_all:
  "spill cfg st seq evs snap = Inr (st', n, k) \<Longrightarrow> takes_all cfg \<Longrightarrow> k = length evs"
  by (force elim!: spill_shape simp: takes_all_def)

lemma spill_other:
  assumes "spill cfg st seq evs snap = Inr (st', n, k)" and "seq \<noteq> Some m"
    and "m \<le> ta_spill_unit_seq st"
  shows "n \<noteq> m" and "m \<le> ta_spill_unit_seq st'"
    and "staged_of st' (Some m) = staged_of st (Some m)"
  using assms by (auto elim!: spill_shape simp: staged_of_def split: option.splits)

text \<open>The proof counters of an open transaction, which spilling must not touch.\<close>

definition proof_state :: "open_txn \<Rightarrow> string \<times> nat \<times> int list \<times> (string, nat) dict \<times> nat" where
  "proof_state t = (ot_txn_id t, ot_count t, ot_orders t, ot_per_table t, ot_message_count t)"

definition txn_payload :: "assembler \<Rightarrow> open_txn \<Rightarrow> pending_record list" where
  "txn_payload st t = staged_of st (ot_spill_unit_seq t) @ ot_events t"

lemma maybe_spill_txn_ok:
  assumes "maybe_spill_txn cfg st t = Inr (st', t')" and "seq_bound st (ot_spill_unit_seq t)"
    and "takes_all cfg" and "ot_spilled t = length (staged_of st (ot_spill_unit_seq t))"
    and "ot_events t \<noteq> []"
  shows "proof_state t' = proof_state t" and "txn_payload st' t' = txn_payload st t"
    and "seq_bound st' (ot_spill_unit_seq t')"
    and "ot_spilled t' = length (staged_of st' (ot_spill_unit_seq t'))"
    and "ta_chunk st' = ta_chunk st" and "ta_deferred st' = ta_deferred st"
proof -
  let ?q = "ot_spill_unit_seq t"
  have "(st', t') = (st, t) \<or>
    (\<exists>n. spill cfg st ?q (ot_events t) None = Inr (st', n, length (ot_events t)) \<and>
       t' = t\<lparr>ot_spill_unit_seq := Some n, ot_spilled := ot_spilled t + length (ot_events t),
              ot_events := [], ot_mem_bytes := 0\<rparr>)"
  proof (cases "spill cfg st ?q (ot_events t) None")
    case (Inl e)
    then show ?thesis using assms(1) by (simp add: maybe_spill_txn_def split: if_splits)
  next
    case (Inr p)
    then obtain st1 n k where p: "p = (st1, n, k)" by (cases p)
    have "k = length (ot_events t)" using spill_takes_all [OF Inr [unfolded p] assms(3)] .
    then show ?thesis
      using assms(1,5) Inr p by (simp add: maybe_spill_txn_def Let_def split: if_splits)
  qed
  then have "proof_state t' = proof_state t \<and> txn_payload st' t' = txn_payload st t \<and>
      seq_bound st' (ot_spill_unit_seq t') \<and>
      ot_spilled t' = length (staged_of st' (ot_spill_unit_seq t')) \<and>
      ta_chunk st' = ta_chunk st \<and> ta_deferred st' = ta_deferred st"
    using assms(2,4) by (elim disjE exE conjE)
      (simp_all add: proof_state_def txn_payload_def spill_ok)
  then show "proof_state t' = proof_state t" "txn_payload st' t' = txn_payload st t"
    "seq_bound st' (ot_spill_unit_seq t')"
    "ot_spilled t' = length (staged_of st' (ot_spill_unit_seq t'))"
    "ta_chunk st' = ta_chunk st" "ta_deferred st' = ta_deferred st"
    by simp_all
qed

section \<open>The open transaction and the segment it was built from\<close>

fun proof_ok ::
  "pending_record list \<Rightarrow> string \<times> nat \<times> int list \<times> (string, nat) dict \<times> nat \<Rightarrow> bool" where
  "proof_ok seg (i, n, ords, per, msgs) \<longleftrightarrow>
     list_all (\<lambda>r. pr_kind r \<noteq> KIND_TXN_END) seg \<and>
     list_all (\<lambda>r. pr_txn_id r = Some i) (filter counted seg) \<and>
     n = length (filter counted seg) \<and>
     ords = rev (map ordinal_of (filter counted seg)) \<and>
     distinct (map ordinal_of (filter counted seg)) \<and>
     msgs = messages_of seg \<and>
     (\<forall>tab. dict_get per tab 0 = rows_of tab seg) \<and>
     (\<forall>tab. dict_has per tab \<longleftrightarrow> 0 < rows_of tab seg)"

definition storage_ok ::
  "asm_config \<Rightarrow> assembler \<Rightarrow> pending_record list \<Rightarrow> open_txn \<Rightarrow> bool" where
  "storage_ok cfg st seg t \<longleftrightarrow>
     seq_bound st (ot_spill_unit_seq t) \<and>
     ot_spilled t = length (staged_of st (ot_spill_unit_seq t)) \<and>
     map rec_core (txn_payload st t) =
       (if discard_streaming cfg then [] else map rec_core (filter counted seg))"

definition txn_holds ::
  "asm_config \<Rightarrow> assembler \<Rightarrow> pending_record list \<Rightarrow> open_txn \<Rightarrow> bool" where
  "txn_holds cfg st seg t \<longleftrightarrow> proof_ok seg (proof_state t) \<and> storage_ok cfg st seg t"

lemma rows_of_snoc: "rows_of tab (seg @ [r]) =
    rows_of tab seg + (if is_row r \<and> tab \<noteq> [] \<and> qualified_table r = Some tab then 1 else 0)"
  by (simp add: rows_of_def)

lemma messages_of_snoc: "messages_of (seg @ [r]) =
    messages_of seg + (if counted r \<and> pr_kind r = KIND_MESSAGE then 1 else 0)"
  by (simp add: messages_of_def)

lemmas snoc_simps = rows_of_snoc messages_of_snoc

lemma proof_ok_uncounted:
  assumes "proof_ok seg ps" and "\<not> counted r" and "pr_kind r \<noteq> KIND_TXN_END"
  shows "proof_ok (seg @ [r]) ps"
  using assms by (cases ps) (auto simp: snoc_simps counted_def)

lemma proof_ok_row:
  assumes "proof_ok seg (proof_state t)" and "is_row r" and "pr_txn_id r = Some (ot_txn_id t)"
    and "ordinal_of r \<notin> set (ot_orders t)"
    and "proof_state t' = (ot_txn_id t, Suc (ot_count t), ordinal_of r # ot_orders t,
           ot_per_table t, ot_message_count t)"
  shows "proof_ok (seg @ [r]) (proof_state (count_table (qualified_table r) t'))"
proof -
  have "ot_per_table t' = ot_per_table t" using assms(5) by (simp add: proof_state_def)
  then show ?thesis
    using assms
    by (cases "qualified_table r")
      (auto simp: proof_state_def count_table_def snoc_simps counted_def is_row_def
        dict_has_update)
qed

lemma proof_ok_message:
  assumes "proof_ok seg (i, n, ords, per, msgs)" and "counted r" and "pr_kind r = KIND_MESSAGE"
    and "pr_txn_id r = Some i" and "ordinal_of r \<notin> set ords"
  shows "proof_ok (seg @ [r]) (i, Suc n, ordinal_of r # ords, per, Suc msgs)"
  using assms by (auto simp: snoc_simps is_row_def)

lemma proof_ok_new: "proof_ok [] (proof_state (new_txn i b))"
  by (simp add: proof_state_def new_txn_def rows_of_def messages_of_def)

lemma storage_ok_new: "seq_bound st None \<Longrightarrow> storage_ok cfg st [] (new_txn i b)"
  by (simp add: storage_ok_def new_txn_def staged_of_def txn_payload_def)

lemma rec_core_release [simp]: "map rec_core (release olds rs) = map rec_core rs"
  by (simp add: release_def rec_core_def)

lemma rec_core_stamp [simp]: "map rec_core (stamp_commit c evs rs) = map rec_core rs"
  by (simp add: stamp_commit_def rec_core_def)

lemma retain_txn_same [simp]:
  "proof_state (retain_txn cfg t r) = proof_state t"
  "ot_txn_id (retain_txn cfg t r) = ot_txn_id t"
  "ot_count (retain_txn cfg t r) = ot_count t"
  "ot_orders (retain_txn cfg t r) = ot_orders t"
  "ot_per_table (retain_txn cfg t r) = ot_per_table t"
  "ot_message_count (retain_txn cfg t r) = ot_message_count t"
  "ot_spilled (retain_txn cfg t r) = ot_spilled t"
  "ot_spill_unit_seq (retain_txn cfg t r) = ot_spill_unit_seq t"
  "map rec_core (ot_events (retain_txn cfg t r)) = map rec_core (ot_events t)"
  "length (ot_events (retain_txn cfg t r)) = length (ot_events t)"
  by (simp_all add: retain_txn_def proof_state_def release_def rec_core_def)

text \<open>\<open>storage_ok\<close> sees a transaction only through its spill state and its payload.\<close>

lemma storage_ok_cong:
  assumes "storage_ok cfg st seg t" and "ot_spill_unit_seq t' = ot_spill_unit_seq t"
    and "ot_spilled t' = ot_spilled t" and "map rec_core (ot_events t') = map rec_core (ot_events t)"
  shows "storage_ok cfg st seg t'"
  using assms by (simp add: storage_ok_def txn_payload_def)

lemma buffer_event_ok:
  assumes "buffer_event cfg st t r1 = Inr (st', us)" and "takes_all cfg"
    and "storage_ok cfg st seg t" and "counted r" and "rec_core r1 = rec_core r"
  obtains t' where "us = []" and "ta_txn st' = Some t'" and "proof_state t' = proof_state t"
    and "storage_ok cfg st' (seg @ [r]) t'"
    and "ta_chunk st' = ta_chunk st" and "ta_deferred st' = ta_deferred st"
proof (cases "discard_streaming cfg")
  case True
  with assms show ?thesis
    by (intro that [of t]) (auto simp: buffer_event_def storage_ok_def txn_payload_def)
next
  case False
  let ?t = "t\<lparr>ot_events := ot_events t @ [r1], ot_mem_bytes := ot_mem_bytes t + pr_nbytes r1\<rparr>"
  from assms(1) False obtain st1 t' where sp: "maybe_spill_txn cfg st ?t = Inr (st1, t')"
    and st': "st' = st1\<lparr>ta_txn := Some t'\<rparr>" "us = []"
    by (auto simp: buffer_event_def result_simps)
  have pre: "seq_bound st (ot_spill_unit_seq ?t)"
    "ot_spilled ?t = length (staged_of st (ot_spill_unit_seq ?t))" "ot_events ?t \<noteq> []"
    using assms(3) by (simp_all add: storage_ok_def)
  note ok = maybe_spill_txn_ok [OF sp pre(1) assms(2) pre(2,3)]
  show ?thesis
    using ok st' assms(3-5) False
    by (intro that [of t']) (simp_all add: storage_ok_def txn_payload_def proof_state_def)
qed

section \<open>Every streaming operation keeps the correspondence\<close>

definition asm_ok :: "asm_config \<Rightarrow> assembler \<Rightarrow> pending_record list \<Rightarrow> bool" where
  "asm_ok cfg st seg \<longleftrightarrow>
     seq_bound st None \<and>
     (case ta_txn st of
        None \<Rightarrow> seg = []
      | Some t \<Rightarrow> txn_holds cfg st seg t \<and> ta_chunk st = None) \<and>
     (\<forall>c. ta_chunk st = Some c \<longrightarrow> seq_bound st (oc_spill_unit_seq c))"

lemma validate_ordinal_ok: "validate_ordinal r = Inr n \<Longrightarrow> ordinal_of r = n \<and> 1 \<le> n"
  by (auto simp: validate_ordinal_def ordinal_of_def split: if_splits option.splits)

lemma seq_bound_None: "seq_bound st x \<Longrightarrow> seq_bound st None"
  by (simp add: seq_bound_def)

lemma txn_holds_cong [simp]:
  "txn_holds cfg (st\<lparr>ta_txn := x\<rparr>) seg t = txn_holds cfg st seg t"
  "txn_holds cfg (st\<lparr>ta_chunk := y\<rparr>) seg t = txn_holds cfg st seg t"
  "txn_holds cfg (st\<lparr>ta_deferred := z\<rparr>) seg t = txn_holds cfg st seg t"
  "txn_holds cfg (st\<lparr>ta_units_emitted := n\<rparr>) seg t = txn_holds cfg st seg t"
  "txn_holds cfg (st\<lparr>ta_implicit_txn_opens := n\<rparr>) seg t = txn_holds cfg st seg t"
  by (simp_all add: txn_holds_def storage_ok_def txn_payload_def)

lemma txn_holds_new: "seq_bound st None \<Longrightarrow> txn_holds cfg st [] (new_txn i b)"
  unfolding txn_holds_def using proof_ok_new storage_ok_new by blast

lemma txn_for_ok:
  assumes "txn_for st i = Inr (st1, t)" and "asm_ok cfg st seg"
  shows "txn_holds cfg st1 seg t" and "ot_txn_id t = i"
    and "ta_chunk st1 = ta_chunk st" and "ta_deferred st1 = ta_deferred st"
  using assms
  by (auto simp: txn_for_def asm_ok_def txn_holds_new split: option.splits if_splits)
    (simp_all add: new_txn_def)

text \<open>Admitting one counted record into the open transaction.\<close>

lemma admitted:
  assumes "buffer_event cfg st1 t1 r1 = Inr (st', us)" and "takes_all cfg"
    and "txn_holds cfg st1 seg t" and "counted r" and "rec_core r1 = rec_core r"
    and "proof_ok (seg @ [r]) (proof_state t1)"
    and "ot_spill_unit_seq t1 = ot_spill_unit_seq t" and "ot_spilled t1 = ot_spilled t"
    and "map rec_core (ot_events t1) = map rec_core (ot_events t)"
  obtains t' where "us = []" and "ta_txn st' = Some t'" and "txn_holds cfg st' (seg @ [r]) t'"
    and "ta_chunk st' = ta_chunk st1" and "ta_deferred st' = ta_deferred st1"
proof -
  have "storage_ok cfg st1 seg t1"
    using assms(3,7-9) unfolding txn_holds_def by (blast intro: storage_ok_cong)
  from assms(1,2) this assms(4,5) obtain t' where "us = []" "ta_txn st' = Some t'"
    "proof_state t' = proof_state t1" "storage_ok cfg st' (seg @ [r]) t'"
    "ta_chunk st' = ta_chunk st1" "ta_deferred st' = ta_deferred st1"
    by (rule buffer_event_ok)
  with assms(6) show ?thesis by (intro that [of t']) (simp_all add: txn_holds_def)
qed

lemma qualified_table_order [simp]:
  "qualified_table (r\<lparr>pr_total_order := x\<rparr>) = qualified_table r"
  by (simp add: qualified_table_def cong: if_cong)

lemma feed_data_ok:
  assumes "feed_data cfg st r = Inr (st', us)" and "takes_all cfg" and "asm_ok cfg st seg"
    and "is_row r"
  obtains t' where "us = []" and "ta_txn st' = Some t'" and "txn_holds cfg st' (seg @ [r]) t'"
    and "ta_chunk st' = ta_chunk st" and "ta_deferred st' = ta_deferred st"
proof -
  from assms(1) obtain i order st1 t where i: "pr_txn_id r = Some i"
    and order: "validate_ordinal r = Inr order" and t: "txn_for st i = Inr (st1, t)"
    and fresh: "order \<notin> set (ot_orders t)"
    by (auto simp: feed_data_def result_simps split: option.splits if_splits)
  note ord = validate_ordinal_ok [OF order] and tf = txn_for_ok [OF t assms(3)]
  define r1 where "r1 = r\<lparr>pr_total_order := JInt order\<rparr>"
  define t1 where "t1 = retain_txn cfg (t\<lparr>ot_orders := order # ot_orders t, ot_count := Suc (ot_count t),
      ot_admission_refusals := ot_admission_refusals t @ refusals_of r1,
      ot_delivery_events := ot_delivery_events t + (if is_delivery_data r1 then 1 else 0)\<rparr>) r1"
  define t2 where "t2 = t1\<lparr>ot_nbytes := ot_nbytes t1 + pr_nbytes r1,
      ot_last_lsn := max (ot_last_lsn t1) (int_or (pr_lsn r1) 0)\<rparr>"
  have be: "buffer_event cfg st1 (count_table (qualified_table r) t2) r1 = Inr (st', us)"
    using assms(1) i order t fresh
    by (simp add: feed_data_def r1_def t1_def t2_def Let_def)
  have "proof_ok (seg @ [r]) (proof_state (count_table (qualified_table r) t2))"
  proof (rule proof_ok_row [where t = t])
    show "proof_ok seg (proof_state t)" using tf(1) by (simp add: txn_holds_def)
    show "proof_state t2 = (ot_txn_id t, Suc (ot_count t), ordinal_of r # ot_orders t,
        ot_per_table t, ot_message_count t)"
      using ord by (simp add: proof_state_def t1_def t2_def)
  qed (use assms(4) tf(2) i ord fresh in simp_all)
  moreover have "rec_core r1 = rec_core r" by (simp add: r1_def rec_core_def)
  moreover have "counted r" using assms(4) by (simp add: counted_def)
  ultimately obtain t' where "us = []" "ta_txn st' = Some t'" "txn_holds cfg st' (seg @ [r]) t'"
    "ta_chunk st' = ta_chunk st1" "ta_deferred st' = ta_deferred st1"
    by (rule_tac admitted [OF be assms(2) tf(1)]) (simp_all add: count_table_def t1_def t2_def)
  with tf(3,4) show ?thesis by (intro that [of t']) simp_all
qed

lemma feed_transactional_message_ok:
  assumes "feed_transactional_message cfg st r = Inr (st', us)" and "takes_all cfg"
    and "asm_ok cfg st seg" and "counted r" and "pr_kind r = KIND_MESSAGE"
  obtains t' where "us = []" and "ta_txn st' = Some t'" and "txn_holds cfg st' (seg @ [r]) t'"
    and "ta_chunk st' = ta_chunk st" and "ta_deferred st' = ta_deferred st"
proof -
  from assms(1) obtain i order st1 t where i: "pr_txn_id r = Some i"
    and order: "validate_ordinal r = Inr order" and t: "txn_for st i = Inr (st1, t)"
    and fresh: "order \<notin> set (ot_orders t)"
    by (auto simp: feed_transactional_message_def result_simps split: option.splits if_splits)
  note ord = validate_ordinal_ok [OF order] and tf = txn_for_ok [OF t assms(3)]
  define r1 where "r1 = r\<lparr>pr_total_order := JInt order, pr_message_transactional := Some True\<rparr>"
  define t1 where "t1 = retain_txn cfg (t\<lparr>ot_orders := order # ot_orders t, ot_count := Suc (ot_count t),
      ot_message_count := Suc (ot_message_count t),
      ot_admission_refusals := ot_admission_refusals t @ refusals_of r1\<rparr>) r1"
  define t2 where "t2 = t1\<lparr>ot_nbytes := ot_nbytes t1 + pr_nbytes r1,
      ot_last_lsn := max (ot_last_lsn t1) (int_or (pr_lsn r1) 0)\<rparr>"
  have be: "buffer_event cfg st1 t2 r1 = Inr (st', us)"
    using assms(1) i order t fresh
    by (simp add: feed_transactional_message_def r1_def t1_def t2_def Let_def)
  have ps: "proof_state t2 = (ot_txn_id t, Suc (ot_count t), ordinal_of r # ot_orders t,
      ot_per_table t, Suc (ot_message_count t))"
    using ord by (simp add: proof_state_def t1_def t2_def)
  have "proof_ok (seg @ [r]) (proof_state t2)"
    unfolding ps
  proof (rule proof_ok_message)
    show "proof_ok seg (ot_txn_id t, ot_count t, ot_orders t, ot_per_table t, ot_message_count t)"
      using tf(1) unfolding txn_holds_def proof_state_def by blast
  qed (use assms(4,5) tf(2) i ord fresh in simp_all)
  moreover have "rec_core r1 = rec_core r" by (simp add: r1_def rec_core_def)
  ultimately obtain t' where "us = []" "ta_txn st' = Some t'" "txn_holds cfg st' (seg @ [r]) t'"
    "ta_chunk st' = ta_chunk st1" "ta_deferred st' = ta_deferred st1"
    using assms(4) by (rule_tac admitted [OF be assms(2) tf(1)]) (simp_all add: t1_def t2_def)
  with tf(3,4) show ?thesis by (intro that [of t']) simp_all
qed

section \<open>An END marker that verifies closes a whole transaction\<close>

lemma check_declared_ok:
  assumes "check_declared per a ds = Inr a'"
  shows "list_all (\<lambda>(tab, n). dict_get per tab 0 \<noteq> 0 \<longrightarrow> int (dict_get per tab 0) = n) ds"
    and "a' = a - sum_list (map (\<lambda>(tab, n). n - int (dict_get per tab 0)) ds)"
    and "0 \<le> a \<Longrightarrow> 0 \<le> a'"
  using assms
  by (induction per a ds rule: check_declared.induct) (auto simp: Let_def split: if_splits)

lemma verify_complete_ok:
  assumes "verify_complete t e = Inr u" and "proof_ok seg (proof_state t)"
  shows "py_int (pr_txn_event_count e) = Some (int (length (filter counted seg)))"
    and "set (map ordinal_of (filter counted seg)) = {1..int (length (filter counted seg))}"
    and "list_all (\<lambda>(tab, n). rows_of tab seg \<noteq> 0 \<longrightarrow> int (rows_of tab seg) = n)
           (pr_txn_data_collections e)"
    and "sum_list (map (\<lambda>(tab, n). n - int (rows_of tab seg)) (pr_txn_data_collections e))
           \<le> int (messages_of seg)"
    and "0 < rows_of tab seg \<Longrightarrow> dict_has (pr_txn_data_collections e) tab"
proof -
  have get: "dict_get (ot_per_table t) tab 0 = rows_of tab seg" for tab
    using assms(2) by (simp add: proof_state_def)
  have has: "dict_has (ot_per_table t) tab \<longleftrightarrow> 0 < rows_of tab seg" for tab
    using assms(2) by (simp add: proof_state_def)
  from assms(1) obtain a where
    n: "py_int (pr_txn_event_count e) = Some (int (ot_count t))"
    and ords: "set (ot_orders t) = {1..int (ot_count t)}"
    and cd: "check_declared (ot_per_table t) (int (ot_message_count t)) (pr_txn_data_collections e)
        = Inr a"
    and tabs: "\<forall>tab \<in> fst ` set (ot_per_table t). dict_has (pr_txn_data_collections e) tab"
    by (auto simp: verify_complete_def result_simps list_all_iff split: if_splits option.splits)
  show "py_int (pr_txn_event_count e) = Some (int (length (filter counted seg)))"
    and "set (map ordinal_of (filter counted seg)) = {1..int (length (filter counted seg))}"
    using n ords assms(2) by (simp_all add: proof_state_def)
  show "list_all (\<lambda>(tab, n). rows_of tab seg \<noteq> 0 \<longrightarrow> int (rows_of tab seg) = n)
           (pr_txn_data_collections e)"
    using check_declared_ok(1) [OF cd] unfolding get .
  show "sum_list (map (\<lambda>(tab, n). n - int (rows_of tab seg)) (pr_txn_data_collections e))
           \<le> int (messages_of seg)"
    using check_declared_ok(2,3) [OF cd] assms(2) unfolding get by (simp add: proof_state_def)
  show "0 < rows_of tab seg \<Longrightarrow> dict_has (pr_txn_data_collections e) tab"
    using tabs has by blast
qed

lemma rows_of_pos:
  assumes "r \<in> set seg" and "is_row r" and "truthy_str (qualified_table r)"
  shows "0 < rows_of (the (qualified_table r)) seg"
  using assms by (auto simp: rows_of_def filter_empty_conv elim!: truthy_strE)

lemma txn_unit_fields [simp]:
  "cu_kind (txn_unit t c) = UNIT_TXN" "cu_txn_id (txn_unit t c) = Some (ot_txn_id t)"
  "cu_spill_unit_seq (txn_unit t c) = ot_spill_unit_seq t"
  "event_count (txn_unit t c) = int (ot_count t)"
  "map rec_core (cu_events (txn_unit t c)) = map rec_core (ot_events t)"
  by (simp_all add: txn_unit_def blank_unit_def event_count_def)
    (simp add: stamp_commit_def)

lemma feed_end_whole:
  assumes "feed_end cfg st e = Inr (st', us)" and "asm_ok cfg st seg" and "ta_txn st = Some t"
    and "pr_kind e = KIND_TXN_END"
  obtains u where "us = [u]" and "st' = st\<lparr>ta_txn := None\<rparr>" and "whole cfg st' seg e u"
    and "cu_kind u = UNIT_TXN" and "cu_spill_unit_seq u = ot_spill_unit_seq t"
proof -
  define t1 where "t1 = retain_txn cfg t e"
  define t2 where "t2 = t1\<lparr>ot_nbytes := ot_nbytes t1 + pr_nbytes e\<rparr>"
  define u where "u = txn_unit t2 (int_or (pr_lsn e) (ot_last_lsn t2))"
  from assms(1,3) obtain x where v: "verify_complete t2 e = Inr x" and "pr_txn_id e = Some (ot_txn_id t)"
    and st': "st' = st\<lparr>ta_txn := None\<rparr>" and us: "us = [u]"
    by (auto simp: feed_end_def t1_def t2_def u_def Let_def result_simps split: if_splits)
  have po: "proof_ok seg (proof_state t2)" and so: "storage_ok cfg st seg t2"
    using assms(2,3)
    by (auto simp: asm_ok_def txn_holds_def proof_state_def t1_def t2_def
        intro: storage_ok_cong)
  have pay: "map rec_core (unit_payload st' u) = map rec_core (txn_payload st t2)"
    by (simp add: unit_payload_def txn_payload_def u_def st')
  note vc = verify_complete_ok [OF v po]
  have "whole cfg st' seg e u"
    unfolding whole_def Let_def
  proof (intro conjI)
    show "if discard_streaming cfg then unit_payload st' u = []
      else map rec_core (unit_payload st' u) = map rec_core (filter counted seg)"
      using so pay by (simp add: storage_ok_def split: if_splits)
    show "list_all (\<lambda>r. is_row r \<longrightarrow> truthy_str (qualified_table r) \<longrightarrow>
        dict_has (pr_txn_data_collections e) (the (qualified_table r))) seg"
      using vc(5) rows_of_pos by (auto simp: list_all_iff)
  qed (use vc(1-4) po assms(4) \<open>pr_txn_id e = _\<close> in
      \<open>simp_all add: u_def t1_def t2_def proof_state_def\<close>)
  with us st' show ?thesis by (intro that [of u]) (simp_all add: u_def t1_def t2_def)
qed

section \<open>Snapshot rows\<close>

text \<open>A snapshot row without the Java handle, which retention releases.\<close>

definition unraw :: "pending_record \<Rightarrow> pending_record" where
  "unraw r = r\<lparr>pr_raw := None\<rparr>"

definition chunk_payload :: "assembler \<Rightarrow> open_chunk \<Rightarrow> pending_record list" where
  "chunk_payload st c = staged_of st (oc_spill_unit_seq c) @ oc_events c"

definition open_rows :: "assembler \<Rightarrow> pending_record list" where
  "open_rows st = (case ta_chunk st of None \<Rightarrow> [] | Some c \<Rightarrow> chunk_payload st c)"

lemma unraw_release [simp]: "map unraw (release olds rs) = map unraw rs"
  by (simp add: release_def unraw_def)

lemma retain_chunk_same [simp]:
  "oc_spill_unit_seq (retain_chunk cfg c r) = oc_spill_unit_seq c"
  "oc_spilled (retain_chunk cfg c r) = oc_spilled c"
  "oc_saw_last (retain_chunk cfg c r) = oc_saw_last c"
  "oc_incremental (retain_chunk cfg c r) = oc_incremental c"
  "map unraw (oc_events (retain_chunk cfg c r)) = map unraw (oc_events c)"
  "oc_events (retain_chunk cfg c r) = [] \<longleftrightarrow> oc_events c = []"
  by (simp_all add: retain_chunk_def) (simp add: release_def)

lemma chunk_unit_fields [simp]:
  "cu_kind (chunk_unit c b) = UNIT_SNAPSHOT_CHUNK"
  "cu_spill_unit_seq (chunk_unit c b) = oc_spill_unit_seq c"
  "cu_events (chunk_unit c b) = oc_events c"
  "cu_snapshot_last (chunk_unit c b) = oc_saw_last c"
  by (simp_all add: chunk_unit_def blank_unit_def)

text \<open>Which chunk a row goes into: the open one, a first one, or a new one after the open one
  was closed.\<close>

lemma chunk_for_cases:
  assumes "chunk_for st r = (st1, us, c)"
  obtains (open_chunk) "ta_chunk st = Some c" "st1 = st" "us = []"
  | (first) "ta_chunk st = None" "st1 = st" "us = []"
      "c = new_chunk (pr_schema r) (pr_table r) (pr_snapshot r = Some SNAPSHOT_INCREMENTAL)"
  | (closed) c0 b where "ta_chunk st = Some c0" "st1 = st\<lparr>ta_chunk := None\<rparr>" "us = [chunk_unit c0 b]"
      "c = new_chunk (pr_schema r) (pr_table r) (pr_snapshot r = Some SNAPSHOT_INCREMENTAL)"
  using assms
  by (cases "ta_chunk st") (auto simp: chunk_for_def close_chunk_def Let_def split: if_splits)

lemma maybe_spill_chunk_shape:
  assumes "maybe_spill_chunk cfg st c = Inr (st', c')" and "takes_all cfg" and "oc_events c \<noteq> []"
  obtains (kept) "st' = st" "c' = c"
  | (spilled) n where "spill cfg st (oc_spill_unit_seq c) (oc_events c)
        (Some (oc_schema c, oc_table c)) = Inr (st', n, length (oc_events c))"
      "c' = c\<lparr>oc_spill_unit_seq := Some n, oc_spilled := oc_spilled c + length (oc_events c),
              oc_events := [], oc_mem_bytes := 0\<rparr>"
proof (cases "spill cfg st (oc_spill_unit_seq c) (oc_events c) (Some (oc_schema c, oc_table c))")
  case (Inl e)
  then show ?thesis using assms(1) kept by (simp add: maybe_spill_chunk_def split: if_splits)
next
  case (Inr p)
  then obtain st1 n k where p: "p = (st1, n, k)" by (cases p)
  have "k = length (oc_events c)" using spill_takes_all [OF Inr [unfolded p] assms(2)] .
  then show ?thesis
    using assms(1,3) Inr p kept spilled
    by (simp add: maybe_spill_chunk_def Let_def split: if_splits)
qed

lemma maybe_spill_chunk_ok:
  assumes "maybe_spill_chunk cfg st c = Inr (st', c')" and "takes_all cfg" and "oc_events c \<noteq> []"
    and "seq_bound st (oc_spill_unit_seq c)"
  shows "seq_bound st' (oc_spill_unit_seq c')" and "chunk_payload st' c' = chunk_payload st c"
    and "ta_txn st' = ta_txn st" and "ta_deferred st' = ta_deferred st"
    and "ta_snapshot_ordinals st' = ta_snapshot_ordinals st" and "oc_saw_last c' = oc_saw_last c"
    and "ta_chunk st' = ta_chunk st"
  using assms
  by (cases rule: maybe_spill_chunk_shape; simp add: chunk_payload_def spill_ok)+

section \<open>A closed unit's staged rows are never touched again\<close>

definition sealed :: "assembler \<Rightarrow> nat \<Rightarrow> bool" where
  "sealed st n \<longleftrightarrow>
     n \<le> ta_spill_unit_seq st \<and>
     (\<forall>t. ta_txn st = Some t \<longrightarrow> ot_spill_unit_seq t \<noteq> Some n) \<and>
     (\<forall>c. ta_chunk st = Some c \<longrightarrow> oc_spill_unit_seq c \<noteq> Some n)"

definition keeps :: "assembler \<Rightarrow> assembler \<Rightarrow> bool" where
  "keeps st st' \<longleftrightarrow>
     (\<forall>n. sealed st n \<longrightarrow> sealed st' n \<and> staged_of st' (Some n) = staged_of st (Some n))"

definition unit_sealed :: "assembler \<Rightarrow> complete_unit \<Rightarrow> bool" where
  "unit_sealed st u \<longleftrightarrow> (\<forall>n. cu_spill_unit_seq u = Some n \<longrightarrow> sealed st n)"

lemma keeps_refl [simp]: "keeps st st"
  by (simp add: keeps_def)

lemma keeps_trans: "keeps a b \<Longrightarrow> keeps b c \<Longrightarrow> keeps a c"
  by (auto simp: keeps_def)

lemma unit_sealed_keeps: "unit_sealed st u \<Longrightarrow> keeps st st' \<Longrightarrow> unit_sealed st' u"
  by (auto simp: unit_sealed_def keeps_def)

lemma unit_payload_keeps: "unit_sealed st u \<Longrightarrow> keeps st st' \<Longrightarrow> unit_payload st' u = unit_payload st u"
  by (cases "cu_spill_unit_seq u") (auto simp: unit_payload_def unit_sealed_def keeps_def staged_of_def)

definition payloads :: "assembler \<Rightarrow> complete_unit list \<Rightarrow> pending_record list" where
  "payloads st us = concat (map (unit_payload st) us)"

lemma payloads_simps [simp]:
  "payloads st [] = []" "payloads st (u # us) = unit_payload st u @ payloads st us"
  "payloads st (us @ vs) = payloads st us @ payloads st vs"
  by (simp_all add: payloads_def)

lemma payloads_cong:
  "(\<And>u. u \<in> set us \<Longrightarrow> unit_payload st' u = unit_payload st u) \<Longrightarrow> payloads st' us = payloads st us"
  unfolding payloads_def by (metis map_cong)

lemma payloads_keep:
  assumes "\<forall>u \<in> set us. unit_sealed st u" and "keeps st st'"
  shows "payloads st' us = payloads st us"
  using assms by (intro payloads_cong) (auto simp: unit_payload_keeps)

lemma keeps_fields:
  assumes "ta_spill_unit_seq st \<le> ta_spill_unit_seq st'" and "ta_spill_calls st' = ta_spill_calls st"
    and "ta_txn st' = ta_txn st \<or> ta_txn st' = None \<or>
         (\<exists>t. ta_txn st' = Some t \<and> ot_spill_unit_seq t = None) \<or>
         (\<exists>t t'. ta_txn st = Some t \<and> ta_txn st' = Some t' \<and> ot_spill_unit_seq t' = ot_spill_unit_seq t)"
    and "ta_chunk st' = ta_chunk st \<or> ta_chunk st' = None"
  shows "keeps st st'"
  using assms by (auto simp: keeps_def sealed_def staged_of_def)

text \<open>The row-placing half of \<open>_feed_snapshot\<close>.\<close>

lemma admit_row_ok:
  assumes "admit_row cfg st c r = (st1, c1)"
  shows "st1 = st\<lparr>ta_snapshot_ordinals :=
           AList.update (snapshot_key r) (next_ordinal st r) (ta_snapshot_ordinals st)\<rparr>"
    and "map unraw (oc_events c1) =
         map unraw (oc_events c @ [r\<lparr>pr_snapshot_ordinal := Some (next_ordinal st r)\<rparr>])"
    and "oc_spill_unit_seq c1 = oc_spill_unit_seq c" and "oc_events c1 \<noteq> []"
    and "oc_saw_last c1 \<longleftrightarrow> oc_saw_last c \<or> pr_snapshot r = Some SNAPSHOT_LAST"
  using assms by (auto simp: admit_row_def Let_def split: if_splits)

lemma place_row_ok:
  assumes pr: "place_row cfg st c r = Inr (st', us)" and "takes_all cfg"
    and "seq_bound st (oc_spill_unit_seq c)" and "ta_txn st = None"
  shows "asm_ok cfg st' [] \<and> ta_txn st' = None \<and> ta_deferred st' = ta_deferred st"
    and "ta_snapshot_ordinals st' =
           AList.update (snapshot_key r) (next_ordinal st r) (ta_snapshot_ordinals st)"
    and "map unraw (payloads st' us @ open_rows st') =
         map unraw (chunk_payload st c @ [r\<lparr>pr_snapshot_ordinal := Some (next_ordinal st r)\<rparr>])"
    and "\<forall>u \<in> set us. cu_kind u = UNIT_SNAPSHOT_CHUNK"
    and "\<forall>u \<in> set us. unit_sealed st' u"
    and "n \<le> ta_spill_unit_seq st \<Longrightarrow> oc_spill_unit_seq c \<noteq> Some n \<Longrightarrow>
         sealed st' n \<and> staged_of st' (Some n) = staged_of st (Some n)"
proof -
  obtain st1 c1 where ad: "admit_row cfg st c r = (st1, c1)" by (cases "admit_row cfg st c r")
  note a = admit_row_ok [OF ad]
  from pr ad obtain st2 c2 where sp: "maybe_spill_chunk cfg st1 c1 = Inr (st2, c2)"
    by (auto simp: place_row_def result_simps)
  define b where "b \<longleftrightarrow> is_table_last r \<or> snapshot_chunk_events cfg \<le> oc_count c2 \<or>
    snapshot_chunk_bytes cfg \<le> oc_nbytes c2"
  have fin: "(if b then close_chunk (is_table_last r) (st2\<lparr>ta_chunk := Some c2\<rparr>)
              else (st2\<lparr>ta_chunk := Some c2\<rparr>, [])) = (st', us)"
    using pr ad sp b_def unfolding place_row_def by (cases b) (simp_all add: Let_def split: if_splits)
  have sb: "seq_bound st1 (oc_spill_unit_seq c1)" using a assms(3) by simp
  note s = maybe_spill_chunk_ok [OF sp assms(2) a(4) sb]
  have pay: "map unraw (chunk_payload st2 c2) =
      map unraw (chunk_payload st c @ [r\<lparr>pr_snapshot_ordinal := Some (next_ordinal st r)\<rparr>])"
    unfolding s(2) by (simp add: chunk_payload_def a del: map_append) (simp add: a)
  show "asm_ok cfg st' [] \<and> ta_txn st' = None \<and> ta_deferred st' = ta_deferred st"
    using fin s a assms(4) by (auto simp: asm_ok_def close_chunk_def seq_bound_None split: if_splits)
  show "ta_snapshot_ordinals st' =
      AList.update (snapshot_key r) (next_ordinal st r) (ta_snapshot_ordinals st)"
    using fin s a by (auto simp: close_chunk_def split: if_splits)
  show "map unraw (payloads st' us @ open_rows st') =
      map unraw (chunk_payload st c @ [r\<lparr>pr_snapshot_ordinal := Some (next_ordinal st r)\<rparr>])"
    using fin pay
    by (auto simp: open_rows_def unit_payload_def chunk_payload_def close_chunk_def split: if_splits)
  show "\<forall>u \<in> set us. cu_kind u = UNIT_SNAPSHOT_CHUNK"
    using fin by (auto simp: close_chunk_def split: if_splits)
  show "\<forall>u \<in> set us. unit_sealed st' u"
    using fin s a assms(4)
    by (auto simp: close_chunk_def unit_sealed_def sealed_def seq_bound_def split: if_splits)
  show "sealed st' n \<and> staged_of st' (Some n) = staged_of st (Some n)"
    if n: "n \<le> ta_spill_unit_seq st" "oc_spill_unit_seq c \<noteq> Some n"
  proof -
    have "n \<le> ta_spill_unit_seq st2 \<and> oc_spill_unit_seq c2 \<noteq> Some n \<and>
        staged_of st2 (Some n) = staged_of st (Some n)"
      using sp assms(2) a(4)
    proof (cases rule: maybe_spill_chunk_shape)
      case kept
      with n a show ?thesis by simp
    next
      case (spilled m)
      with spill_other [OF spilled(1)] n a show ?thesis by simp
    qed
    with fin s(3) a(1) assms(4) show ?thesis
      by (auto simp: close_chunk_def sealed_def split: if_splits)
  qed
qed

text \<open>The arrival ordinals: row number \<open>k\<close> of a table gets ordinal \<open>k\<close>.\<close>

fun number_rows :: "(string, nat) dict \<Rightarrow> pending_record list \<Rightarrow> pending_record list" where
  "number_rows ords [] = []"
| "number_rows ords (r # rs) =
     (let n = Suc (dict_get ords (snapshot_key r) 0)
      in r\<lparr>pr_snapshot_ordinal := Some n\<rparr> # number_rows (AList.update (snapshot_key r) n ords) rs)"

definition ords_after :: "(string, nat) dict \<Rightarrow> pending_record list \<Rightarrow> (string, nat) dict" where
  "ords_after d rs =
     fold (\<lambda>r d. AList.update (snapshot_key r) (Suc (dict_get d (snapshot_key r) 0)) d) rs d"

lemma ords_after_simps [simp]:
  "ords_after d [] = d"
  "ords_after d (r # rs) =
     ords_after (AList.update (snapshot_key r) (Suc (dict_get d (snapshot_key r) 0)) d) rs"
  "ords_after d (xs @ ys) = ords_after (ords_after d xs) ys"
  by (simp_all add: ords_after_def)

lemma number_rows_append:
  "number_rows d (xs @ ys) = number_rows d xs @ number_rows (ords_after d xs) ys"
  by (induction xs arbitrary: d) (simp_all add: Let_def)

lemma feed_snapshot_ok:
  assumes fs: "feed_snapshot cfg st r = Inr (st', us)" and "takes_all cfg" and "asm_ok cfg st seg"
  shows "asm_ok cfg st' [] \<and> ta_txn st' = None \<and> ta_deferred st' = ta_deferred st"
    and "ta_snapshot_ordinals st' =
           AList.update (snapshot_key r) (next_ordinal st r) (ta_snapshot_ordinals st)"
    and "map unraw (payloads st' us @ open_rows st') =
         map unraw (open_rows st @ number_rows (ta_snapshot_ordinals st) [r])"
    and "\<forall>u \<in> set us. cu_kind u = UNIT_SNAPSHOT_CHUNK \<and> unit_sealed st' u"
    and "keeps st st'"
proof -
  obtain st1 us1 c where cf: "chunk_for st r = (st1, us1, c)" by (cases "chunk_for st r")
  with fs obtain us2 where idle: "ta_txn st = None" and pl: "place_row cfg st1 c r = Inr (st', us2)"
    and us: "us = us1 @ us2"
    by (auto simp: feed_snapshot_def result_simps split: if_splits)
  have st1: "ta_txn st1 = None" "ta_deferred st1 = ta_deferred st"
    "ta_snapshot_ordinals st1 = ta_snapshot_ordinals st" "ta_spill_unit_seq st1 = ta_spill_unit_seq st"
    "next_ordinal st1 r = next_ordinal st r" "staged_of st1 x = staged_of st x" for x
    using cf idle by (cases rule: chunk_for_cases; simp add: next_ordinal_def)+
  have sb: "seq_bound st1 (oc_spill_unit_seq c)"
    using cf assms(3) by (cases rule: chunk_for_cases) (auto simp: asm_ok_def new_chunk_def)
  have keep: "sealed st n \<Longrightarrow> oc_spill_unit_seq c \<noteq> Some n \<and> n \<le> ta_spill_unit_seq st1" for n
    using cf by (cases rule: chunk_for_cases) (auto simp: sealed_def new_chunk_def)
  have closed: "unit_sealed st1 u \<and> cu_kind u = UNIT_SNAPSHOT_CHUNK \<and>
      (\<forall>n. cu_spill_unit_seq u = Some n \<longrightarrow> oc_spill_unit_seq c \<noteq> Some n)" if "u \<in> set us1" for u
    using cf that idle assms(3)
    by (cases rule: chunk_for_cases)
      (auto simp: unit_sealed_def sealed_def asm_ok_def seq_bound_def new_chunk_def)
  note p = place_row_ok [OF pl assms(2) sb st1(1)]
  show "asm_ok cfg st' [] \<and> ta_txn st' = None \<and> ta_deferred st' = ta_deferred st"
    and "ta_snapshot_ordinals st' =
      AList.update (snapshot_key r) (next_ordinal st r) (ta_snapshot_ordinals st)"
    using p(1,2) st1 by simp_all
  have sealed1: "unit_sealed st' u \<and> unit_payload st' u = unit_payload st u" if "u \<in> set us1" for u
    using closed [OF that] p(6) st1(6)
    by (cases "cu_spill_unit_seq u")
      (auto simp: unit_sealed_def sealed_def unit_payload_def)
  then show "\<forall>u \<in> set us. cu_kind u = UNIT_SNAPSHOT_CHUNK \<and> unit_sealed st' u"
    using p(4,5) us closed by auto
  show "keeps st st'"
    using keep p(6) st1(6) by (auto simp: keeps_def)
  have old: "open_rows st = payloads st us1 @ chunk_payload st1 c"
    using cf by (cases rule: chunk_for_cases)
      (simp_all add: open_rows_def chunk_payload_def unit_payload_def new_chunk_def)
  have "payloads st' us1 = payloads st us1" using sealed1 by (intro payloads_cong) simp
  then have "map unraw (payloads st' us @ open_rows st') =
      map unraw (payloads st us1) @
      map unraw (payloads st' us2 @ open_rows st')"
    using us by simp
  then show "map unraw (payloads st' us @ open_rows st') =
      map unraw (open_rows st @ number_rows (ta_snapshot_ordinals st) [r])"
    unfolding p(3) old using st1(5) by (simp add: next_ordinal_def Let_def)
qed

lemma deferred_irrelevant [simp]:
  "sealed (st\<lparr>ta_deferred := q\<rparr>) n = sealed st n"
  "keeps (st\<lparr>ta_deferred := q\<rparr>) st' = keeps st st'"
  "keeps st (st'\<lparr>ta_deferred := q\<rparr>) = keeps st st'"
  "open_rows (st\<lparr>ta_deferred := q\<rparr>) = open_rows st"
  "next_ordinal (st\<lparr>ta_deferred := q\<rparr>) r = next_ordinal st r"
  by (simp_all add: sealed_def keeps_def open_rows_def chunk_payload_def next_ordinal_def
      split: option.split)

lemma flush_deferred_ok:
  assumes "flush_deferred cfg st rs = Inr (st', us)" and "takes_all cfg"
    and "asm_ok cfg st []" and "ta_txn st = None"
  shows "asm_ok cfg st' [] \<and> ta_txn st' = None \<and> ta_deferred st' = []"
    and "map unraw (payloads st' us @ open_rows st') =
         map unraw (open_rows st @ number_rows (ta_snapshot_ordinals st) rs)"
    and "\<forall>u \<in> set us. cu_kind u = UNIT_SNAPSHOT_CHUNK \<and> unit_sealed st' u"
    and "keeps st st'"
    and "ta_snapshot_ordinals st' = ords_after (ta_snapshot_ordinals st) rs"
proof -
  have "asm_ok cfg st' [] \<and> ta_txn st' = None \<and> ta_deferred st' = [] \<and>
    map unraw (payloads st' us @ open_rows st') =
      map unraw (open_rows st @ number_rows (ta_snapshot_ordinals st) rs) \<and>
    (\<forall>u \<in> set us. cu_kind u = UNIT_SNAPSHOT_CHUNK \<and> unit_sealed st' u) \<and> keeps st st' \<and>
    ta_snapshot_ordinals st' = ords_after (ta_snapshot_ordinals st) rs"
    using assms(1,3,4)
  proof (induction rs arbitrary: st us)
    case Nil
    then show ?case by (auto simp: asm_ok_def)
  next
    case (Cons r rs)
    let ?st = "st\<lparr>ta_deferred := rs\<rparr>"
    from Cons.prems obtain st1 us1 us2 where f: "feed_snapshot cfg ?st r = Inr (st1, us1)"
      and g: "flush_deferred cfg st1 rs = Inr (st', us2)" and us: "us = us1 @ us2"
      by (auto simp: result_simps)
    have ok: "asm_ok cfg ?st []" using Cons.prems by (simp add: asm_ok_def)
    note h = feed_snapshot_ok [OF f assms(2) ok]
    have ih: "asm_ok cfg st' [] \<and> ta_txn st' = None \<and> ta_deferred st' = []"
      "map unraw (payloads st' us2 @ open_rows st') =
        map unraw (open_rows st1 @ number_rows (ta_snapshot_ordinals st1) rs)"
      "\<forall>u \<in> set us2. cu_kind u = UNIT_SNAPSHOT_CHUNK \<and> unit_sealed st' u" "keeps st1 st'"
      "ta_snapshot_ordinals st' = ords_after (ta_snapshot_ordinals st1) rs"
      using Cons.IH [OF g conjunct1 [OF h(1)] conjunct1 [OF conjunct2 [OF h(1)]]]
      by (auto simp del: map_append)
    have keep: "keeps st st1" "open_rows ?st = open_rows st" using h(5) by simp_all
    have pay: "payloads st' us1 = payloads st1 us1"
      using h(4) ih(4) by (intro payloads_keep) auto
    have "map unraw (payloads st' us @ open_rows st') =
        map unraw (payloads st1 us1) @
        map unraw (payloads st' us2 @ open_rows st')"
      using us pay by (simp del: map_append) simp
    also have "\<dots> = map unraw (payloads st1 us1 @ open_rows st1) @
        map unraw (number_rows (ta_snapshot_ordinals st1) rs)"
      unfolding ih(2) by simp
    also have "\<dots> = map unraw (open_rows st @ number_rows (ta_snapshot_ordinals st) (r # rs))"
      unfolding h(3) using h(2) keep(2) by (simp add: next_ordinal_def Let_def)
    finally show ?case
      using h(2) ih(1,3,5) h(4) us keeps_trans [OF keep(1) ih(4)] unit_sealed_keeps [OF _ ih(4)]
      by (auto simp: next_ordinal_def)
  qed
  then show "asm_ok cfg st' [] \<and> ta_txn st' = None \<and> ta_deferred st' = []"
    "map unraw (payloads st' us @ open_rows st') =
         map unraw (open_rows st @ number_rows (ta_snapshot_ordinals st) rs)"
    "\<forall>u \<in> set us. cu_kind u = UNIT_SNAPSHOT_CHUNK \<and> unit_sealed st' u" "keeps st st'"
    "ta_snapshot_ordinals st' = ords_after (ta_snapshot_ordinals st) rs"
    by blast+
qed

section \<open>feed\<close>

text \<open>Streaming records touch neither the snapshot ordinals nor the rows of a closed unit.\<close>

lemma maybe_spill_txn_keeps:
  assumes "maybe_spill_txn cfg st t = Inr (st', t')"
  shows "ta_snapshot_ordinals st' = ta_snapshot_ordinals st"
    and "n \<le> ta_spill_unit_seq st \<Longrightarrow> ot_spill_unit_seq t \<noteq> Some n \<Longrightarrow>
         n \<le> ta_spill_unit_seq st' \<and> ot_spill_unit_seq t' \<noteq> Some n \<and>
         staged_of st' (Some n) = staged_of st (Some n)"
    and "ta_chunk st' = ta_chunk st"
proof -
  have "(st', t') = (st, t) \<or>
    (\<exists>m k. spill cfg st (ot_spill_unit_seq t) (ot_events t) None = Inr (st', m, k) \<and>
       ot_spill_unit_seq t' = Some m)"
    using assms
    by (cases "spill cfg st (ot_spill_unit_seq t) (ot_events t) None")
      (auto simp: maybe_spill_txn_def Let_def split: if_splits)
  then show "ta_snapshot_ordinals st' = ta_snapshot_ordinals st" "ta_chunk st' = ta_chunk st"
    "n \<le> ta_spill_unit_seq st \<Longrightarrow> ot_spill_unit_seq t \<noteq> Some n \<Longrightarrow>
         n \<le> ta_spill_unit_seq st' \<and> ot_spill_unit_seq t' \<noteq> Some n \<and>
         staged_of st' (Some n) = staged_of st (Some n)"
    by (auto elim!: spill_shape simp: staged_of_def split: option.splits)
qed

lemma buffer_event_keeps:
  assumes "buffer_event cfg st t r = Inr (st', us)"
    and "ot_spill_unit_seq t = (case ta_txn st of None \<Rightarrow> None | Some t0 \<Rightarrow> ot_spill_unit_seq t0)"
  shows "keeps st st' \<and> ta_snapshot_ordinals st' = ta_snapshot_ordinals st"
proof (cases "discard_streaming cfg")
  case True
  with assms show ?thesis
    by (auto simp: buffer_event_def keeps_def sealed_def split: option.splits)
next
  case False
  let ?t = "t\<lparr>ot_events := ot_events t @ [r], ot_mem_bytes := ot_mem_bytes t + pr_nbytes r\<rparr>"
  from assms(1) False obtain st1 t' where sp: "maybe_spill_txn cfg st ?t = Inr (st1, t')"
    and st': "st' = st1\<lparr>ta_txn := Some t'\<rparr>"
    by (auto simp: buffer_event_def result_simps)
  have "sealed st n \<Longrightarrow> n \<le> ta_spill_unit_seq st \<and> ot_spill_unit_seq ?t \<noteq> Some n" for n
    using assms(2) by (auto simp: sealed_def split: option.splits)
  with maybe_spill_txn_keeps [OF sp] st' show ?thesis
    by (auto simp: keeps_def sealed_def)
qed

lemma txn_for_seq:
  assumes "txn_for st i = Inr (st1, t)"
  shows "ot_spill_unit_seq t = (case ta_txn st1 of None \<Rightarrow> None | Some t0 \<Rightarrow> ot_spill_unit_seq t0)"
    and "keeps st st1" and "ta_snapshot_ordinals st1 = ta_snapshot_ordinals st"
  using assms
  by (auto simp: txn_for_def keeps_def sealed_def new_txn_def split: option.splits if_splits)

lemma count_table_seq [simp]: "ot_spill_unit_seq (count_table x t) = ot_spill_unit_seq t"
  by (simp add: count_table_def)

lemma feed_data_keeps:
  assumes "feed_data cfg st r = Inr (st', us)"
  shows "keeps st st' \<and> ta_snapshot_ordinals st' = ta_snapshot_ordinals st"
proof -
  from assms obtain i st1 t t1 r1 where t: "txn_for st i = Inr (st1, t)"
    and be: "buffer_event cfg st1 t1 r1 = Inr (st', us)"
    and "ot_spill_unit_seq t1 = ot_spill_unit_seq t"
    by (auto simp: feed_data_def result_simps Let_def split: option.splits if_splits)
  with txn_for_seq [OF t] buffer_event_keeps [OF be] keeps_trans show ?thesis by metis
qed

lemma feed_transactional_message_keeps:
  assumes "feed_transactional_message cfg st r = Inr (st', us)"
  shows "keeps st st' \<and> ta_snapshot_ordinals st' = ta_snapshot_ordinals st"
proof -
  from assms obtain i st1 t t1 r1 where t: "txn_for st i = Inr (st1, t)"
    and be: "buffer_event cfg st1 t1 r1 = Inr (st', us)"
    and "ot_spill_unit_seq t1 = ot_spill_unit_seq t"
    by (auto simp: feed_transactional_message_def result_simps Let_def split: option.splits if_splits)
  with txn_for_seq [OF t] buffer_event_keeps [OF be] keeps_trans show ?thesis by metis
qed

lemma retained_holds:
  assumes "txn_holds cfg st seg t" and "\<not> counted r" and "pr_kind r \<noteq> KIND_TXN_END"
  shows "txn_holds cfg st (seg @ [r]) ((retain_txn cfg t r)\<lparr>ot_nbytes := n\<rparr>)"
proof -
  have "storage_ok cfg st (seg @ [r]) ((retain_txn cfg t r)\<lparr>ot_nbytes := n\<rparr>)"
    by (rule storage_ok_cong [where t = t]) (use assms in \<open>simp_all add: txn_holds_def storage_ok_def\<close>)
  moreover have "proof_state ((retain_txn cfg t r)\<lparr>ot_nbytes := n\<rparr>) = proof_state t"
    by (simp add: proof_state_def)
  ultimately show ?thesis
    using assms proof_ok_uncounted [of seg "proof_state t" r] by (simp add: txn_holds_def)
qed

text \<open>What the feeding of one streaming record does; \<open>seg\<close> is the segment before it.\<close>

definition streamed ::
  "asm_config \<Rightarrow> assembler \<Rightarrow> pending_record list \<Rightarrow> pending_record \<Rightarrow> assembler \<Rightarrow>
   complete_unit list \<Rightarrow> bool" where
  "streamed cfg st seg r st' us \<longleftrightarrow>
     asm_ok cfg st' (if ta_txn st' = None then [] else seg @ [r]) \<and>
     ta_deferred st' = ta_deferred st \<and> ta_chunk st' = None \<and>
     ta_snapshot_ordinals st' = ta_snapshot_ordinals st \<and> keeps st st' \<and>
     (\<forall>u \<in> set us. unit_sealed st' u \<and> cu_kind u \<noteq> UNIT_SNAPSHOT_CHUNK \<and>
        (cu_kind u = UNIT_TXN \<longrightarrow> whole cfg st' seg r u))"

lemma streamed_open:
  assumes "ta_txn st' = Some t'" and "txn_holds cfg st' (seg @ [r]) t'" and "us = []"
    and "ta_deferred st' = ta_deferred st" and "ta_chunk st' = None"
    and "keeps st st' \<and> ta_snapshot_ordinals st' = ta_snapshot_ordinals st"
  shows "streamed cfg st seg r st' us"
  using assms seq_bound_None
  by (auto simp: streamed_def asm_ok_def txn_holds_def storage_ok_def)

lemma unit_fields [simp]:
  "cu_kind (control_unit r) = UNIT_CONTROL" "cu_spill_unit_seq (control_unit r) = None"
  "cu_kind (message_unit r) = UNIT_MESSAGE" "cu_spill_unit_seq (message_unit r) = None"
  by (simp_all add: control_unit_def message_unit_def blank_unit_def Let_def)

lemma feed_begin_streamed:
  assumes "feed_begin cfg st r = Inr (st', us)" and "asm_ok cfg st seg" and "ta_chunk st = None"
    and "pr_kind r = KIND_TXN_BEGIN"
  shows "streamed cfg st seg r st' us"
proof -
  from assms(1) obtain i where idle: "ta_txn st = None" and us: "us = []"
    and st': "st' = st\<lparr>ta_txn := Some ((retain_txn cfg (new_txn i True) r)
        \<lparr>ot_nbytes := ot_nbytes (retain_txn cfg (new_txn i True) r) + pr_nbytes r\<rparr>)\<rparr>"
    by (auto simp: feed_begin_def Let_def split: option.splits)
  have "seg = []" "seq_bound st None" using assms(2) idle by (auto simp: asm_ok_def)
  then have "txn_holds cfg st (seg @ [r]) ((retain_txn cfg (new_txn i True) r)\<lparr>ot_nbytes := n\<rparr>)" for n
    using assms(4) by (intro retained_holds) (simp_all add: txn_holds_new counted_def is_row_def)
  moreover have "keeps st st'"
    unfolding st' by (rule keeps_fields) (simp_all add: new_txn_def)
  ultimately show ?thesis
    using st' us assms(3) by (intro streamed_open) simp_all
qed

lemma feed_end_streamed:
  assumes "feed_end cfg st r = Inr (st', us)" and "asm_ok cfg st seg" and "ta_chunk st = None"
    and "pr_kind r = KIND_TXN_END"
  shows "streamed cfg st seg r st' us"
proof (cases "ta_txn st")
  case None
  with assms show ?thesis
    by (auto simp: feed_end_def streamed_def asm_ok_def unit_sealed_def intro: keeps_fields)
next
  case (Some t)
  from assms(1,2) Some assms(4) obtain u where u: "us = [u]" "st' = st\<lparr>ta_txn := None\<rparr>"
    "whole cfg st' seg r u" "cu_kind u = UNIT_TXN" "cu_spill_unit_seq u = ot_spill_unit_seq t"
    by (rule feed_end_whole)
  have "keeps st st'" unfolding u(2) by (rule keeps_fields) simp_all
  moreover have "unit_sealed st' u"
    using assms(2,3) Some u(2,5)
    by (auto simp: unit_sealed_def sealed_def asm_ok_def txn_holds_def storage_ok_def seq_bound_def)
  ultimately show ?thesis
    using u assms(2,3) by (auto simp: streamed_def asm_ok_def)
qed

lemma feed_control_streamed:
  assumes "feed_control cfg st r = Inr (st', us)" and "takes_all cfg" and "asm_ok cfg st seg"
    and "ta_chunk st = None" and "\<not> is_row r" and "pr_kind r \<noteq> KIND_TXN_END"
  shows "streamed cfg st seg r st' us"
proof -
  have txn: ?thesis if "counted r" "pr_kind r = KIND_MESSAGE"
    "feed_transactional_message cfg st r = Inr (st', us)"
    using that(3) assms(2,3) that(1,2)
    by (rule feed_transactional_message_ok)
      (use feed_transactional_message_keeps [OF that(3)] assms(4) in \<open>auto intro: streamed_open\<close>)
  have single: ?thesis if "ta_txn st = None" "st' = st" "us = [u]"
    "u = message_unit r \<or> u = control_unit r" for u
    using that assms(3,4) by (auto simp: streamed_def asm_ok_def unit_sealed_def)
  have carried: ?thesis if "\<not> counted r" "ta_txn st = Some t" "us = []" "st' = st\<lparr>ta_txn :=
      Some ((retain_txn cfg t r)\<lparr>ot_nbytes := ot_nbytes (retain_txn cfg t r) + pr_nbytes r\<rparr>)\<rparr>" for t
  proof -
    have "txn_holds cfg st seg t" using that assms(3) by (simp add: asm_ok_def)
    moreover have "keeps st st'"
      unfolding that(4) by (rule keeps_fields) (use that in simp_all)
    ultimately show ?thesis
      using that assms(4) retained_holds [OF _ that(1) assms(6)] by (intro streamed_open) simp_all
  qed
  show ?thesis
  proof (cases "counted r")
    case True
    with assms(1,5) show ?thesis by (intro txn) (auto simp: feed_control_def counted_def)
  next
    case False
    show ?thesis
    proof (cases "ta_txn st")
      case None
      with False assms(1) have "st' = st \<and> us = [if pr_kind r = KIND_MESSAGE then message_unit r
          else control_unit r]"
        by (auto simp: feed_control_def counted_def split: if_splits)
      with None show ?thesis by (intro single) auto
    next
      case (Some t)
      with False assms(1) have "us = []" "st' = st\<lparr>ta_txn := Some ((retain_txn cfg t r)
          \<lparr>ot_nbytes := ot_nbytes (retain_txn cfg t r) + pr_nbytes r\<rparr>)\<rparr>"
        by (auto simp: feed_control_def counted_def Let_def split: if_splits)
      with False Some show ?thesis by (intro carried)
    qed
  qed
qed

lemma feed_stream_streamed:
  assumes "feed_stream cfg st r = Inr (st', us)" and "takes_all cfg" and "asm_ok cfg st seg"
    and "ta_chunk st = None"
  shows "streamed cfg st seg r st' us"
proof -
  have row: ?thesis if "feed_data cfg st r = Inr (st', us)" "is_row r"
    using that(1) assms(2,3) that(2)
    by (rule feed_data_ok) (use feed_data_keeps [OF that(1)] assms(4) in \<open>auto intro: streamed_open\<close>)
  show ?thesis
  proof (cases "pr_kind r")
    case KIND_TXN_BEGIN
    with assms show ?thesis by (simp add: feed_stream_def feed_begin_streamed)
  next
    case KIND_TXN_END
    with assms show ?thesis by (simp add: feed_stream_def feed_end_streamed)
  qed (use assms row in \<open>simp_all add: feed_stream_def feed_control_streamed is_row_def\<close>)
qed

lemma whole_keeps:
  assumes "whole cfg st seg e u" and "unit_sealed st u" and "keeps st st'"
  shows "whole cfg st' seg e u"
  using assms(1) unfolding whole_def unit_payload_keeps [OF assms(2,3)] .

definition is_chunk :: "complete_unit \<Rightarrow> bool" where
  "is_chunk u \<longleftrightarrow> cu_kind u = UNIT_SNAPSHOT_CHUNK"

definition is_snapshot :: "pending_record \<Rightarrow> bool" where
  "is_snapshot r \<longleftrightarrow> pr_kind r = KIND_SNAPSHOT"

text \<open>Snapshot rows that were fed and are in no emitted unit yet.\<close>

definition pending_rows :: "assembler \<Rightarrow> pending_record list" where
  "pending_rows st = open_rows st @ number_rows (ta_snapshot_ordinals st) (ta_deferred st)"

definition asm_inv :: "asm_config \<Rightarrow> assembler \<Rightarrow> pending_record list \<Rightarrow> bool" where
  "asm_inv cfg st seg \<longleftrightarrow> asm_ok cfg st seg \<and> (ta_txn st = None \<longrightarrow> ta_deferred st = [])"

text \<open>What the feeding of one record does.\<close>

definition fed ::
  "asm_config \<Rightarrow> assembler \<Rightarrow> pending_record list \<Rightarrow> pending_record \<Rightarrow> assembler \<Rightarrow>
   complete_unit list \<Rightarrow> bool" where
  "fed cfg st seg r st' us \<longleftrightarrow>
     asm_inv cfg st' (if ta_txn st' = None then [] else seg @ [r]) \<and> keeps st st' \<and>
     (\<forall>u \<in> set us. unit_sealed st' u \<and> (cu_kind u = UNIT_TXN \<longrightarrow> whole cfg st' seg r u)) \<and>
     ords_after (ta_snapshot_ordinals st') (ta_deferred st') =
       ords_after (ta_snapshot_ordinals st) (ta_deferred st @ filter is_snapshot [r]) \<and>
     map unraw (payloads st' (filter is_chunk us) @ pending_rows st') =
     map unraw (open_rows st @ number_rows (ta_snapshot_ordinals st)
                                 (ta_deferred st @ filter is_snapshot [r]))"

lemma emitted_irrelevant [simp]:
  "asm_ok cfg (st\<lparr>ta_units_emitted := n\<rparr>) seg = asm_ok cfg st seg"
  "keeps st (st'\<lparr>ta_units_emitted := n\<rparr>) = keeps st st'"
  "unit_sealed (st\<lparr>ta_units_emitted := n\<rparr>) u = unit_sealed st u"
  "unit_payload (st\<lparr>ta_units_emitted := n\<rparr>) u = unit_payload st u"
  "whole cfg (st\<lparr>ta_units_emitted := n\<rparr>) seg e u = whole cfg st seg e u"
  "pending_rows (st\<lparr>ta_units_emitted := n\<rparr>) = pending_rows st"
  by (simp_all add: asm_ok_def keeps_def sealed_def unit_sealed_def unit_payload_def whole_def
      pending_rows_def open_rows_def chunk_payload_def split: option.split)

lemma payloads_emitted [simp]: "payloads (st\<lparr>ta_units_emitted := n\<rparr>) us = payloads st us"
  by (rule payloads_cong) simp

lemma fed_emit: "fed cfg st seg r st' us \<Longrightarrow> emit (st', us) = (st2, us2) \<Longrightarrow> fed cfg st seg r st2 us2"
  by (auto simp: fed_def emit_def asm_inv_def)

lemma feed_snapshot_fed:
  assumes "feed_snapshot cfg st r = Inr (st', us)" and "takes_all cfg" and "asm_inv cfg st seg"
    and "is_snapshot r"
  shows "fed cfg st seg r st' us"
proof -
  have "ta_txn st = None" using assms(1) by (simp add: feed_snapshot_def split: if_splits)
  then have ok: "asm_ok cfg st seg" and d: "ta_deferred st = []"
    using assms(3) by (auto simp: asm_inv_def)
  note h = feed_snapshot_ok [OF assms(1,2) ok]
  have "filter is_chunk us = us" using h(4) by (simp add: is_chunk_def filter_id_conv)
  with h d assms(4) show ?thesis
    by (auto simp: fed_def asm_inv_def pending_rows_def next_ordinal_def)
qed

lemma feed_fed:
  assumes "feed cfg st r = Inr (st', us)" and "takes_all cfg" and "asm_inv cfg st seg"
  shows "fed cfg st seg r st' us"
proof (cases "is_snapshot r")
  case snap: True
  show ?thesis
  proof (cases "ta_txn st")
    case None
    with snap assms(1) obtain p where "feed_snapshot cfg st r = Inr p" "emit p = (st', us)"
      by (auto simp: feed_def is_snapshot_def result_simps)
    then show ?thesis
      using fed_emit feed_snapshot_fed [OF _ assms(2,3) snap] by (cases p) blast
  next
    case (Some t)
    then have us: "us = []" and st': "st' = st\<lparr>ta_deferred := ta_deferred st @ [r]\<rparr>"
      using snap assms(1) by (auto simp: feed_def is_snapshot_def split: if_splits)
    have "txn_holds cfg st seg t" "ta_chunk st = None" "seq_bound st None"
      using assms(3) Some by (auto simp: asm_inv_def asm_ok_def)
    moreover have "txn_holds cfg st (seg @ [r]) t"
      using \<open>txn_holds cfg st seg t\<close> snap proof_ok_uncounted [of seg "proof_state t" r]
      by (simp add: txn_holds_def storage_ok_def counted_def is_row_def is_snapshot_def)
    ultimately show ?thesis
      using Some us st' snap by (simp add: fed_def asm_inv_def asm_ok_def pending_rows_def)
  qed
next
  case nosnap: False
  obtain st1 us1 where cc: "close_chunk True st = (st1, us1)" by (cases "close_chunk True st")
  with assms(1) nosnap obtain st2 us2 st3 us3 where
    fs: "feed_stream cfg st1 r = Inr (st2, us2)"
    and fl: "(if ta_txn st2 = None \<and> ta_deferred st2 \<noteq> []
              then flush_deferred cfg st2 (ta_deferred st2) else Inr (st2, [])) = Inr (st3, us3)"
    and em: "emit (st3, us1 @ us2 @ us3) = (st', us)"
    by (auto simp: feed_def is_snapshot_def result_simps)
  have c: "ta_chunk st1 = None" "asm_ok cfg st1 seg" "ta_deferred st1 = ta_deferred st"
    "ta_snapshot_ordinals st1 = ta_snapshot_ordinals st" "keeps st st1"
    "\<forall>u \<in> set us1. unit_sealed st1 u \<and> is_chunk u" "payloads st1 us1 = open_rows st"
    using cc assms(3)
    by (auto simp: close_chunk_def asm_inv_def asm_ok_def open_rows_def chunk_payload_def
        is_chunk_def unit_sealed_def sealed_def seq_bound_def unit_payload_def
        split: option.splits intro!: keeps_fields)
  have s: "streamed cfg st1 seg r st2 us2" by (rule feed_stream_streamed [OF fs assms(2) c(2,1)])
  have f: "asm_inv cfg st3 (if ta_txn st3 = None then [] else seg @ [r]) \<and> keeps st2 st3 \<and>
      (\<forall>u \<in> set us3. unit_sealed st3 u \<and> is_chunk u) \<and>
      ords_after (ta_snapshot_ordinals st3) (ta_deferred st3) =
        ords_after (ta_snapshot_ordinals st2) (ta_deferred st2) \<and>
      map unraw (payloads st3 us3 @ pending_rows st3) =
      map unraw (number_rows (ta_snapshot_ordinals st2) (ta_deferred st2))"
  proof (cases "ta_txn st2 = None \<and> ta_deferred st2 \<noteq> []")
    case True
    then have g: "flush_deferred cfg st2 (ta_deferred st2) = Inr (st3, us3)" "asm_ok cfg st2 []"
      "ta_txn st2 = None" "open_rows st2 = []"
      using fl s by (auto simp: streamed_def open_rows_def)
    show ?thesis
      using flush_deferred_ok [OF g(1) assms(2) g(2,3)] g(4)
      by (simp add: asm_inv_def pending_rows_def is_chunk_def)
  next
    case False
    then show ?thesis
      using fl s by (auto simp: streamed_def asm_inv_def pending_rows_def open_rows_def)
  qed
  have "fed cfg st seg r st3 (us1 @ us2 @ us3)"
  proof -
    have k: "keeps st1 st3" "keeps st2 st3" using s f keeps_trans by (auto simp: streamed_def)
    have "filter is_chunk us1 = us1" "filter is_chunk us2 = []" "filter is_chunk us3 = us3"
      using c(6) f s by (auto simp: streamed_def is_chunk_def filter_id_conv filter_empty_conv)
    moreover have "payloads st3 us1 = open_rows st"
      using payloads_keep [OF _ k(1), of us1] c(6,7) by simp
    moreover have "keeps st st3" using c(5) k(1) by (rule keeps_trans)
    moreover have "unit_sealed st3 u \<and> (cu_kind u = UNIT_TXN \<longrightarrow> whole cfg st3 seg r u)"
      if "u \<in> set (us1 @ us2 @ us3)" for u
      using that c(6) f s k unit_sealed_keeps whole_keeps
      by (auto simp: streamed_def is_chunk_def)
    ultimately show ?thesis
      using f s c(3,4) nosnap by (simp add: fed_def streamed_def)
  qed
  then show ?thesis using em by (rule fed_emit)
qed

section \<open>Whole runs\<close>

lemma assemble_keeps:
  assumes "assemble cfg st rs = Inr (st', us)" and "takes_all cfg" and "asm_inv cfg st seg"
  shows "keeps st st'"
  using assms(1,3)
proof (induction rs arbitrary: st us seg)
  case Nil
  then show ?case by simp
next
  case (Cons r rs)
  then obtain st1 us1 us2 where f: "feed cfg st r = Inr (st1, us1)"
    and g: "assemble cfg st1 rs = Inr (st', us2)" by (auto simp: result_simps)
  have h: "fed cfg st seg r st1 us1" by (rule feed_fed [OF f assms(2) Cons.prems(2)])
  then have "keeps st st1" and "keeps st1 st'" using Cons.IH [OF g] by (auto simp: fed_def)
  then show ?case by (rule keeps_trans)
qed

lemma assemble_whole:
  assumes "assemble cfg st rs = Inr (st', us)" and "takes_all cfg" and "asm_inv cfg st seg0"
    and "u \<in> set us" and "cu_kind u = UNIT_TXN"
  shows "\<exists>pre seg e post. seg0 @ rs = pre @ seg @ e # post \<and> whole cfg st' seg e u"
  using assms(1,3,4)
proof (induction rs arbitrary: st us seg0)
  case Nil
  then show ?case by simp
next
  case (Cons r rs)
  then obtain st1 us1 us2 where f: "feed cfg st r = Inr (st1, us1)"
    and g: "assemble cfg st1 rs = Inr (st', us2)" and us: "us = us1 @ us2"
    by (auto simp: result_simps)
  let ?seg = "if ta_txn st1 = None then [] else seg0 @ [r]"
  have h: "fed cfg st seg0 r st1 us1" by (rule feed_fed [OF f assms(2) Cons.prems(2)])
  then have inv: "asm_inv cfg st1 ?seg" by (simp add: fed_def)
  show ?case
  proof (cases "u \<in> set us1")
    case True
    with h assms(5) have "whole cfg st1 seg0 r u" "unit_sealed st1 u" by (auto simp: fed_def)
    then have "whole cfg st' seg0 r u"
      using assemble_keeps [OF g assms(2) inv] whole_keeps by blast
    then show ?thesis by (metis append.left_neutral)
  next
    case False
    with Cons.prems(3) us have "u \<in> set us2" by simp
    from Cons.IH [OF g inv this] obtain pre seg e post
      where ex: "?seg @ rs = pre @ seg @ e # post" "whole cfg st' seg e u" by blast
    show ?thesis
    proof (cases "ta_txn st1")
      case None
      with ex have "seg0 @ r # rs = (seg0 @ [r] @ pre) @ seg @ e # post" by simp
      with ex(2) show ?thesis by blast
    next
      case (Some t)
      with ex have "seg0 @ r # rs = pre @ seg @ e # post" by simp
      with ex(2) show ?thesis by blast
    qed
  qed
qed

lemma asm_inv_new: "asm_inv cfg new_assembler []"
  by (simp add: asm_inv_def asm_ok_def new_assembler_def seq_bound_def)

text \<open>A small stream on which the hypotheses hold: one transaction of two rows, the first of
  them spilled, followed by two snapshot rows.\<close>

definition sample_cfg :: asm_config where
  "sample_cfg = \<lparr>snapshot_chunk_events = 2, snapshot_chunk_bytes = 1000,
     on_spill = Some (\<lambda>c. Some (length (sc_events c))), spill_events = 1, spill_bytes = 1000,
     keep_all_records = False, discard_streaming = False, incremental_enabled = True\<rparr>"

definition sample_begin :: pending_record where
  "sample_begin = (blank_record 0 (Some 0) KIND_TXN_BEGIN)\<lparr>pr_txn_id := Some ''7''\<rparr>"

definition sample_row :: "nat \<Rightarrow> int \<Rightarrow> pending_record" where
  "sample_row k n = (blank_record k (Some k) KIND_DATA)\<lparr>pr_txn_id := Some ''7'',
     pr_total_order := JInt n, pr_schema := Some ''s'', pr_table := Some ''t'', pr_lsn := Some 100\<rparr>"

definition sample_end :: pending_record where
  "sample_end = (blank_record 9 (Some 9) KIND_TXN_END)\<lparr>pr_txn_id := Some ''7'',
     pr_txn_event_count := JInt 2, pr_txn_data_collections := [(''s.t'', 2)], pr_lsn := Some 101\<rparr>"

definition sample_snapshot :: "nat \<Rightarrow> pending_record" where
  "sample_snapshot k = (blank_record k (Some k) KIND_SNAPSHOT)\<lparr>pr_schema := Some ''s'',
     pr_table := Some ''t'', pr_snapshot := Some ''true''\<rparr>"

definition sample_stream :: "pending_record list" where
  "sample_stream = [sample_begin, sample_row 1 1, sample_row 2 2, sample_end,
                    sample_snapshot 3, sample_snapshot 4, sample_snapshot 5]"

lemma sample_takes_all: "takes_all sample_cfg" "spill_total sample_cfg"
  by (simp_all add: takes_all_def spill_total_def sample_cfg_def)

text \<open>
  C3: Invariant B. Every transaction unit the assembler emits from a record stream is exactly
  one PostgreSQL transaction of that stream: a segment of the input closed by an END marker
  of the same transaction id, whose declared event count is the number of counted records in
  the segment, whose ordinals are exactly 1..N without repetition, whose declared per-table
  counts match, and whose payload (rows staged by spilling followed by rows in memory) is the
  segment's counted records, all of them, in order.
\<close>

theorem txn_unit_is_whole:
  assumes "assemble cfg new_assembler recs = Inr (st, us)" and "takes_all cfg"
    and "u \<in> set us" and "cu_kind u = UNIT_TXN"
  shows "\<exists>pre seg e post. recs = pre @ seg @ e # post \<and> whole cfg st seg e u"
  using assemble_whole [OF assms(1,2) asm_inv_new assms(3,4)] by simp

theorem txn_unit_is_whole_witness:
  "\<exists>st us. assemble sample_cfg new_assembler sample_stream = Inr (st, us) \<and>
     cu_kind (us ! 0) = UNIT_TXN \<and> cu_spilled_events (us ! 0) = 2 \<and>
     (\<exists>pre seg e post. sample_stream = pre @ seg @ e # post \<and> whole sample_cfg st seg e (us ! 0))"
proof -
  have "case assemble sample_cfg new_assembler sample_stream of Inl _ \<Rightarrow> False
    | Inr (st, us) \<Rightarrow> length us = 2 \<and> cu_kind (us ! 0) = UNIT_TXN \<and> cu_spilled_events (us ! 0) = 2"
    by code_simp
  then obtain st us where run: "assemble sample_cfg new_assembler sample_stream = Inr (st, us)"
    and us: "length us = 2 \<and> cu_kind (us ! 0) = UNIT_TXN \<and> cu_spilled_events (us ! 0) = 2"
    by (rule run_okE)
  have mem: "us ! 0 \<in> set us" by (rule nth_mem) (simp add: us)
  have kind: "cu_kind (us ! 0) = UNIT_TXN" using us by (elim conjE)
  note ex = txn_unit_is_whole [OF run sample_takes_all(1) mem kind]
  show ?thesis
    by (rule exI [of _ st], rule exI [of _ us], intro conjI run ex; use us in simp)
qed

lemma assemble_rows:
  assumes "assemble cfg st rs = Inr (st', us)" and "takes_all cfg" and "asm_inv cfg st seg"
  shows "map unraw (payloads st' (filter is_chunk us) @ pending_rows st') =
    map unraw (open_rows st @ number_rows (ta_snapshot_ordinals st)
                                (ta_deferred st @ filter is_snapshot rs))"
  using assms(1,3)
proof (induction rs arbitrary: st us seg)
  case Nil
  then show ?case by (simp add: pending_rows_def)
next
  case (Cons r rs)
  then obtain st1 us1 us2 where f: "feed cfg st r = Inr (st1, us1)"
    and g: "assemble cfg st1 rs = Inr (st', us2)" and us: "us = us1 @ us2"
    by (auto simp: result_simps)
  have h: "fed cfg st seg r st1 us1" by (rule feed_fed [OF f assms(2) Cons.prems(2)])
  then have inv: "asm_inv cfg st1 (if ta_txn st1 = None then [] else seg @ [r])"
    by (simp add: fed_def)
  have pay: "payloads st' (filter is_chunk us1) = payloads st1 (filter is_chunk us1)"
    using h by (intro payloads_keep [OF _ assemble_keeps [OF g assms(2) inv]]) (auto simp: fed_def)
  have "map unraw (payloads st' (filter is_chunk us) @ pending_rows st') =
      map unraw (payloads st1 (filter is_chunk us1)) @
      map unraw (payloads st' (filter is_chunk us2) @ pending_rows st')"
    using us pay by simp
  also have "\<dots> = map unraw (payloads st1 (filter is_chunk us1) @ pending_rows st1) @
      map unraw (number_rows (ords_after (ta_snapshot_ordinals st1) (ta_deferred st1))
                   (filter is_snapshot rs))"
    unfolding Cons.IH [OF g inv] by (simp add: pending_rows_def number_rows_append)
  also have "\<dots> = map unraw (open_rows st @ number_rows (ta_snapshot_ordinals st)
        ((ta_deferred st @ filter is_snapshot [r]) @ filter is_snapshot rs))"
    using h unfolding number_rows_append [of _ "ta_deferred st @ filter is_snapshot [r]"]
    by (simp add: fed_def)
  finally show ?case by (cases "is_snapshot r") simp_all
qed

text \<open>
  C4: No snapshot row is lost, duplicated, reordered or misnumbered: the payloads of the snapshot
  chunks emitted so far (staged rows first, then rows in memory), followed by the rows of the
  open chunk and by the incremental reads that wait for an open transaction to end, are the
  snapshot records of the stream in order of arrival, the k-th row of each table carrying
  ordinal k.
\<close>

theorem snapshot_rows_conserved:
  assumes "assemble cfg new_assembler recs = Inr (st, us)" and "takes_all cfg"
  shows "map unraw (payloads st (filter is_chunk us) @ pending_rows st) =
    map unraw (number_rows [] (filter is_snapshot recs))"
  using assemble_rows [OF assms asm_inv_new] by (simp add: new_assembler_def open_rows_def)

theorem snapshot_rows_conserved_witness:
  "\<exists>st us. assemble sample_cfg new_assembler sample_stream = Inr (st, us) \<and>
     length (filter is_chunk us) = 1 \<and>
     map unraw (payloads st (filter is_chunk us) @ pending_rows st) =
       map unraw (number_rows [] (filter is_snapshot sample_stream))"
proof -
  have "case assemble sample_cfg new_assembler sample_stream of Inl _ \<Rightarrow> False
    | Inr (st, us) \<Rightarrow> length (filter is_chunk us) = 1"
    by code_simp
  then obtain st us where "assemble sample_cfg new_assembler sample_stream = Inr (st, us)"
    "length (filter is_chunk us) = 1"
    by (rule run_okE)
  with snapshot_rows_conserved [OF _ sample_takes_all(1)] show ?thesis by blast
qed

section \<open>A well-formed transaction is accepted\<close>

lemma spill_accepted:
  assumes "spill_total cfg" and "on_spill cfg \<noteq> None"
  shows "\<exists>st' n k. spill cfg st seq evs snap = Inr (st', n, k)"
proof -
  obtain cb where cb: "on_spill cfg = Some cb" using assms(2) by blast
  define n where "n = (case seq of None \<Rightarrow> Suc (ta_spill_unit_seq st) | Some m \<Rightarrow> m)"
  obtain k where "cb \<lparr>sc_unit_seq = n, sc_snapshot = snap, sc_events = evs\<rparr> = Some k"
    using assms(1) cb unfolding spill_total_def by blast
  with cb show ?thesis by (cases seq) (simp_all add: spill_def n_def)
qed

lemma maybe_spill_txn_total:
  assumes "spill_total cfg"
  shows "\<exists>p. maybe_spill_txn cfg st t = Inr p"
proof (cases "on_spill cfg = None")
  case True
  then show ?thesis by (simp add: maybe_spill_txn_def)
next
  case False
  from spill_accepted [OF assms False] obtain st' n k
    where "spill cfg st (ot_spill_unit_seq t) (ot_events t) None = Inr (st', n, k)" by blast
  then show ?thesis by (cases "k = 0") (simp_all add: maybe_spill_txn_def Let_def)
qed

lemma buffer_event_total: "spill_total cfg \<Longrightarrow> \<exists>p. buffer_event cfg st t r = Inr p"
  using maybe_spill_txn_total [of cfg st "t\<lparr>ot_events := ot_events t @ [r],
      ot_mem_bytes := ot_mem_bytes t + pr_nbytes r\<rparr>"]
  by (auto simp: buffer_event_def)

lemma feed_row_accepted:
  assumes "spill_total cfg" and "ta_txn st = Some t" and "ta_chunk st = None" and "is_row r"
    and "pr_txn_id r = Some (ot_txn_id t)" and "py_int (pr_total_order r) = Some n" and "1 \<le> n"
    and "n \<notin> set (ot_orders t)" and "takes_all cfg" and "asm_ok cfg st seg"
  shows "\<exists>st'. feed cfg st r = Inr (st', []) \<and> ta_txn st' \<noteq> None \<and> ta_deferred st' = ta_deferred st"
proof -
  have "validate_ordinal r = Inr n"
    using assms(6,7) by (auto simp: validate_ordinal_def)
  moreover have "txn_for st (ot_txn_id t) = Inr (st, t)" using assms(2) by (simp add: txn_for_def)
  moreover obtain p where be: "buffer_event cfg st (count_table (qualified_table (r\<lparr>pr_total_order := JInt n\<rparr>))
      (let r1 = r\<lparr>pr_total_order := JInt n\<rparr>;
           t2 = retain_txn cfg (t\<lparr>ot_orders := n # ot_orders t, ot_count := Suc (ot_count t),
             ot_admission_refusals := ot_admission_refusals t @ refusals_of r1,
             ot_delivery_events := ot_delivery_events t + (if is_delivery_data r1 then 1 else 0)\<rparr>) r1
       in t2\<lparr>ot_nbytes := ot_nbytes t2 + pr_nbytes r1,
             ot_last_lsn := max (ot_last_lsn t2) (int_or (pr_lsn r1) 0)\<rparr>))
      (r\<lparr>pr_total_order := JInt n\<rparr>) = Inr p"
    using buffer_event_total [OF assms(1)] by blast
  ultimately have fd: "feed_data cfg st r = Inr p"
    using assms(5,8) by (simp add: feed_data_def Let_def)
  obtain st1 us1 where p: "p = (st1, us1)" by (cases p)
  have "us1 = [] \<and> ta_txn st1 \<noteq> None \<and> ta_deferred st1 = ta_deferred st"
    by (rule feed_data_ok [OF fd [unfolded p] assms(9,10,4)]) simp
  with fd p assms(3,4) show ?thesis
    by (auto simp: feed_def feed_stream_def is_row_def close_chunk_def emit_def)
qed

lemma rows_accepted:
  assumes "takes_all cfg" and "spill_total cfg" and "asm_inv cfg st seg" and "ta_txn st = Some t"
    and "ot_txn_id t = i"
    and "list_all (\<lambda>r. is_row r \<and> pr_txn_id r = Some i \<and> 1 \<le> ordinal_of r) evs"
    and "distinct (map ordinal_of (filter counted seg @ evs))"
  shows "\<exists>st' t'. assemble cfg st evs = Inr (st', []) \<and> asm_inv cfg st' (seg @ evs) \<and>
    ta_txn st' = Some t' \<and> ot_txn_id t' = i \<and> ta_deferred st' = ta_deferred st"
  using assms(3-7)
proof (induction evs arbitrary: st t seg)
  case Nil
  then show ?case by simp
next
  case (Cons r evs)
  have open_t: "ta_chunk st = None" and ords: "set (ot_orders t) = ordinal_of ` set (filter counted seg)"
    and pid: "list_all (\<lambda>r. pr_txn_id r = Some (ot_txn_id t)) (filter counted seg)"
    using Cons.prems(1,2) by (auto simp: asm_inv_def asm_ok_def txn_holds_def proof_state_def)
  have r: "is_row r" "pr_txn_id r = Some (ot_txn_id t)" "1 \<le> ordinal_of r"
    "ordinal_of r \<notin> set (ot_orders t)"
    using Cons.prems(3,4,5) ords by auto
  have n: "py_int (pr_total_order r) = Some (ordinal_of r)"
    using r(3) by (auto simp: ordinal_of_def split: option.splits)
  have ok: "asm_ok cfg st seg" using Cons.prems(1) by (simp add: asm_inv_def)
  obtain st1 where f: "feed cfg st r = Inr (st1, [])" and "ta_txn st1 \<noteq> None"
    and df: "ta_deferred st1 = ta_deferred st"
    using feed_row_accepted [OF assms(2) Cons.prems(2) open_t r(1,2) n r(3,4) assms(1) ok] by blast
  then obtain t1 where t1: "ta_txn st1 = Some t1" by blast
  have inv: "asm_inv cfg st1 (seg @ [r])"
    using feed_fed [OF f assms(1) Cons.prems(1)] t1 by (simp add: fed_def)
  have c: "counted r" using r(1) by (simp add: counted_def)
  have "pr_txn_id r = Some (ot_txn_id t1)"
    using inv t1 c by (auto simp: asm_inv_def asm_ok_def txn_holds_def proof_state_def)
  then have "ot_txn_id t1 = i" using r(2) Cons.prems(3) by simp
  moreover have "distinct (map ordinal_of (filter counted (seg @ [r]) @ evs))"
    using Cons.prems(5) c by simp
  ultimately obtain st' t' where "assemble cfg st1 evs = Inr (st', [])"
    "asm_inv cfg st' ((seg @ [r]) @ evs)" "ta_txn st' = Some t'" "ot_txn_id t' = i"
    "ta_deferred st' = ta_deferred st1"
    using Cons.IH [OF inv t1] Cons.prems(4) by auto
  with f df show ?case by auto
qed

lemma check_declared_accepts:
  "list_all (\<lambda>(tab, n). int (dict_get per tab 0) = n) ds \<Longrightarrow> check_declared per a ds = Inr a"
  by (induction ds) auto

text \<open>The END marker a well-formed transaction of rows \<open>evs\<close> has.\<close>

definition declares :: "pending_record \<Rightarrow> string \<Rightarrow> pending_record list \<Rightarrow> bool" where
  "declares e i evs \<longleftrightarrow>
     pr_kind e = KIND_TXN_END \<and> pr_txn_id e = Some i \<and>
     py_int (pr_txn_event_count e) = Some (int (length evs)) \<and>
     list_all (\<lambda>(tab, n). int (rows_of tab evs) = n) (pr_txn_data_collections e) \<and>
     list_all (\<lambda>r. truthy_str (qualified_table r) \<longrightarrow>
                   dict_has (pr_txn_data_collections e) (the (qualified_table r))) evs"

lemma verify_complete_accepts:
  assumes "proof_ok seg (proof_state t)" and "declares e i evs" and "filter counted seg = evs"
    and "list_all is_row evs" and "set (map ordinal_of evs) = {1..int (length evs)}"
  shows "verify_complete t e = Inr ()"
proof -
  have rows: "rows_of tab seg = rows_of tab evs" for tab
    unfolding assms(3) [symmetric] rows_of_def filter_filter
    by (rule arg_cong [where f = length], rule filter_cong) (auto simp: counted_def)
  have get: "dict_get (ot_per_table t) tab 0 = rows_of tab evs" for tab
    using assms(1) rows by (simp add: proof_state_def)
  have has: "dict_has (ot_per_table t) tab \<longleftrightarrow> 0 < rows_of tab evs" for tab
    using assms(1) rows by (simp add: proof_state_def)
  have cnt: "ot_count t = length evs" "set (ot_orders t) = {1..int (length evs)}"
    using assms(1,3,5) by (auto simp: proof_state_def)
  have cd: "check_declared (ot_per_table t) a (pr_txn_data_collections e) = Inr a" for a
    using assms(2) by (intro check_declared_accepts) (simp add: get declares_def)
  have "dict_has (pr_txn_data_collections e) tab" if "0 < rows_of tab evs" for tab
  proof -
    from that obtain r where "r \<in> set evs" "tab \<noteq> []" "qualified_table r = Some tab"
      by (auto simp: rows_of_def length_greater_0_conv filter_empty_conv)
    with assms(2) show ?thesis unfolding declares_def list_all_iff
      by (metis option.sel truthy_simps(4))
  qed
  then have "list_all (\<lambda>p. dict_has (pr_txn_data_collections e) (fst p)) (ot_per_table t)"
    using has by (force simp: list_all_iff)
  moreover have "py_int (pr_txn_event_count e) = Some (int (length evs))"
    "pr_txn_event_count e \<noteq> JNull"
    using assms(2) by (auto simp: declares_def)
  ultimately show ?thesis using cnt cd by (simp add: verify_complete_def)
qed

lemma assemble_inv:
  assumes "assemble cfg st rs = Inr (st', us)" and "takes_all cfg" and "asm_inv cfg st seg"
  shows "\<exists>seg'. asm_inv cfg st' seg'"
  using assms(1,3)
proof (induction rs arbitrary: st us seg)
  case Nil
  then show ?case by auto
next
  case (Cons r rs)
  then obtain st1 us1 us2 where f: "feed cfg st r = Inr (st1, us1)"
    and g: "assemble cfg st1 rs = Inr (st', us2)" by (auto simp: result_simps)
  have "fed cfg st seg r st1 us1" by (rule feed_fed [OF f assms(2) Cons.prems(2)])
  then show ?case using Cons.IH [OF g] unfolding fed_def by blast
qed

lemma assemble_append:
  "assemble cfg st (xs @ ys) = rbind (assemble cfg st xs) (\<lambda>(st1, us1).
     rbind (assemble cfg st1 ys) (\<lambda>(st2, us2). Inr (st2, us1 @ us2)))"
  by (induction xs arbitrary: st)
    (auto simp: rbind_assoc rbind_def split: sum.splits prod.splits)

text \<open>
  C5: Nothing that is whole is refused: from every idle state the assembler can reach, a BEGIN,
  the rows of the transaction in any order of their ordinals 1..N, and an END that declares them
  are accepted, and yield exactly one unit, which is that transaction; the assembler is idle again.
\<close>

theorem whole_transaction_is_emitted:
  assumes "assemble cfg new_assembler recs = Inr (st, us)" and "takes_all cfg" and "spill_total cfg"
    and "ta_txn st = None" and "ta_chunk st = None"
    and "pr_kind b = KIND_TXN_BEGIN" and "pr_txn_id b = Some i"
    and "list_all (\<lambda>r. is_row r \<and> pr_txn_id r = Some i) evs"
    and "distinct (map ordinal_of evs)" and "set (map ordinal_of evs) = {1..int (length evs)}"
    and "declares e i evs"
  shows "\<exists>st' u. assemble cfg st (b # evs @ [e]) = Inr (st', [u]) \<and> cu_kind u = UNIT_TXN \<and>
    cu_txn_id u = Some i \<and> whole cfg st' (b # evs) e u \<and> ta_txn st' = None"
proof -
  obtain seg where inv0: "asm_inv cfg st seg"
    using assemble_inv [OF assms(1,2) asm_inv_new] by blast
  with assms(4) have inv: "asm_inv cfg st []" and d: "ta_deferred st = []"
    by (auto simp: asm_inv_def asm_ok_def)
  have nb: "\<not> counted b" using assms(6) by (simp add: counted_def is_row_def)
  have fc: "filter counted evs = evs"
    using assms(8) by (auto simp: counted_def filter_id_conv list_all_iff)
  obtain st1 t where f: "feed cfg st b = Inr (st1, [])" and t: "ta_txn st1 = Some t" "ot_txn_id t = i"
    and d1: "ta_deferred st1 = ta_deferred st"
    using assms(4-7)
    by (auto simp: feed_def feed_stream_def feed_begin_def close_chunk_def emit_def Let_def)
      (simp add: new_txn_def)
  have inv1: "asm_inv cfg st1 [b]" using feed_fed [OF f assms(2) inv] t by (simp add: fed_def)
  have pos: "list_all (\<lambda>r. is_row r \<and> pr_txn_id r = Some i \<and> 1 \<le> ordinal_of r) evs"
    using assms(8,10) by (force simp: list_all_iff)
  have dist: "distinct (map ordinal_of (filter counted [b] @ evs))" using nb assms(9) by simp
  obtain st2 t2 where g: "assemble cfg st1 evs = Inr (st2, [])" and inv2: "asm_inv cfg st2 ([b] @ evs)"
    and t2: "ta_txn st2 = Some t2" "ot_txn_id t2 = i" and d2: "ta_deferred st2 = ta_deferred st1"
    using rows_accepted [OF assms(2,3) inv1 t pos dist] by blast
  have e: "pr_kind e = KIND_TXN_END" "pr_txn_id e = Some i" using assms(11) by (auto simp: declares_def)
  have c2: "ta_chunk st2 = None" and po: "proof_ok ([b] @ evs) (proof_state t2)"
    using inv2 t2 by (auto simp: asm_inv_def asm_ok_def txn_holds_def)
  define t3 where "t3 = (retain_txn cfg t2 e)\<lparr>ot_nbytes := ot_nbytes (retain_txn cfg t2 e) + pr_nbytes e\<rparr>"
  have "proof_state t3 = proof_state t2" by (simp add: t3_def proof_state_def)
  then have "verify_complete t3 e = Inr ()"
    using verify_complete_accepts [of "[b] @ evs" t3 e i evs] po assms(8,10,11) nb fc
    by (simp add: list_all_iff del: proof_ok.simps)
  then have fe: "feed_end cfg st2 e = Inr (st2\<lparr>ta_txn := None\<rparr>,
      [txn_unit t3 (int_or (pr_lsn e) (ot_last_lsn t3))])"
    using t2 e by (simp add: feed_end_def Let_def t3_def)
  define u where "u = txn_unit t3 (int_or (pr_lsn e) (ot_last_lsn t3))"
  obtain st3 where h: "feed cfg st2 e = Inr (st3, [u])" and "ta_txn st3 = None"
    using fe e(1) c2 d d1 d2
    by (auto simp: feed_def feed_stream_def close_chunk_def emit_def u_def)
  moreover have "whole cfg st3 ([b] @ evs) e u" "cu_kind u = UNIT_TXN" "cu_txn_id u = Some i"
    using feed_fed [OF h assms(2) inv2] t2(2) by (simp_all add: fed_def u_def t3_def)
  ultimately show ?thesis using f g by (simp add: assemble_append)
qed

theorem whole_transaction_is_emitted_witness:
  "\<exists>st' u. assemble sample_cfg new_assembler
       (sample_begin # [sample_row 1 2, sample_row 2 1] @ [sample_end]) = Inr (st', [u]) \<and>
     cu_kind u = UNIT_TXN \<and> cu_txn_id u = Some ''7'' \<and>
     whole sample_cfg st' (sample_begin # [sample_row 1 2, sample_row 2 1]) sample_end u \<and>
     ta_txn st' = None"
proof (rule whole_transaction_is_emitted [OF _ sample_takes_all])
  show "assemble sample_cfg new_assembler [] = Inr (new_assembler, [])" by simp
  show "ta_txn new_assembler = None" "ta_chunk new_assembler = None"
    by (simp_all add: new_assembler_def)
  show "pr_kind sample_begin = KIND_TXN_BEGIN" "pr_txn_id sample_begin = Some ''7''"
    "list_all (\<lambda>r. is_row r \<and> pr_txn_id r = Some ''7'') [sample_row 1 2, sample_row 2 1]"
    "distinct (map ordinal_of [sample_row 1 2, sample_row 2 1])"
    "declares sample_end ''7'' [sample_row 1 2, sample_row 2 1]"
    by code_simp+
  show "set (map ordinal_of [sample_row 1 2, sample_row 2 1]) =
      {1..int (length [sample_row 1 2, sample_row 2 1])}"
    by (auto simp: sample_row_def ordinal_of_def blank_record_def)
qed

end
