(* ===== verification/Snapshot_Completion.thy ===== *)
theory Snapshot_Completion
  imports Machines Assembler
begin

text \<open>
  \<open>SnapshotCompletion\<close>: a model of \<open>src/cdc_flight/snapshot_completion.py\<close>, the record of the
  ordered snapshot-callback evidence. Each method is one definition on the record
  \<open>completion\<close>; every \<open>raise\<close> is a constructor of \<open>sc_error\<close>. The state field is written only by
  \<open>sc_transition\<close> and \<open>enter_streaming\<close>, behind \<open>machine_check SNAPSHOT_COMPLETION\<close>.

  The lemmas show that the model honours the declared machine (by interpreting
  \<open>guarded_state\<close>), that the phase ends only with exact evidence for every captured table,
  and that what is checked before a destination commit cannot be refused after it.
  The JSON decoding of a notification record (\<open>decode_notification\<close>) is not modelled.
\<close>

section \<open>The data\<close>

datatype sc_error =
    InvalidRelation
  | UnknownObservation
  | UnexpectedCallback
  | MissingProgressTable
  | UnexpectedTable
  | NotSucceeded
  | TableTwice
  | InvalidRowCount
  | NegativeRowCount
  | BeyondDeclared
  | NotExactTableSet
  | RowsInIllegalState
  | RowsWithoutIdentity
  | BoundaryWithoutCompleted
  | SourceStreamingIsNoCallback
  | StreamingAdmissionRefused
  | TransitionRefused

record completion =
  sc_required :: bool
  sc_state :: string
  sc_expected_tables :: "string list"
  sc_callback_tables :: "string list"
  sc_callback_rows :: "(string, int) dict"
  sc_committed_rows :: "(string, int) dict"
  sc_marker_seen :: bool
  sc_snapshot_units :: nat
  sc_tables_seen :: "string list"

section \<open>_qualified\<close>

fun split_dots :: "string \<Rightarrow> string list" where
  \<comment> \<open>\<open>value.split\<close> at the dots\<close>
  "split_dots [] = [[]]"
| "split_dots (c # cs) =
     (if c = CHR ''.'' then [] # split_dots cs
      else (case split_dots cs of [] \<Rightarrow> [[c]] | p # ps \<Rightarrow> (c # p) # ps))"

definition strip_quotes :: "string \<Rightarrow> string" where
  \<comment> \<open>\<open>part.strip\<close> of double quotes\<close>
  "strip_quotes s = (let q = (\<lambda>c. c = CHR 0x22) in rev (dropWhile q (rev (dropWhile q s))))"

definition qualified_relation :: "string \<Rightarrow> sc_error + string" where
  "qualified_relation v =
     (case map (strip_quotes \<circ> strip) (split_dots v) of
        [a, b] \<Rightarrow> if a = [] \<or> b = [] then Inl InvalidRelation else Inr (a @ ''.'' @ b)
      | _ \<Rightarrow> Inl InvalidRelation)"

section \<open>Construction\<close>

definition completion_init :: "bool \<Rightarrow> string list \<Rightarrow> sc_error + completion" where
  "completion_init required tables =
     rbind (rfold (\<lambda>acc t. rbind (qualified_relation t) (\<lambda>q. Inr (List.insert q acc))) [] tables) (\<lambda>expected.
     Inr \<lparr>sc_required = required,
          sc_state = (if required then SNAPSHOT_AWAITING_CALLBACKS else SNAPSHOT_NOT_REQUIRED),
          sc_expected_tables = expected, sc_callback_tables = [], sc_callback_rows = [],
          sc_committed_rows = [], sc_marker_seen = False, sc_snapshot_units = 0,
          sc_tables_seen = []\<rparr>)"

definition full_snapshot :: "string list \<Rightarrow> sc_error + completion" where
  "full_snapshot tables = completion_init True tables"

definition streaming_only :: "sc_error + completion" where
  "streaming_only = completion_init False []"

definition for_capture :: "bool \<Rightarrow> string \<Rightarrow> string list \<Rightarrow> sc_error + completion" where
  "for_capture required schema tables =
     (if \<not> required then streaming_only
      else full_snapshot (remdups (map (\<lambda>t. if CHR ''.'' \<in> set t then t else schema @ ''.'' @ t) tables)))"

definition phase_ended :: "completion \<Rightarrow> bool" where
  "phase_ended s \<longleftrightarrow> is_terminal SNAPSHOT_COMPLETION (sc_state s) = Inr True"

section \<open>The state write\<close>

definition sc_transition :: "string \<Rightarrow> completion \<Rightarrow> sc_error + completion" where
  "sc_transition target s =
     (case machine_check SNAPSHOT_COMPLETION (sc_state s) target of
        Inl _ \<Rightarrow> Inl TransitionRefused
      | Inr _ \<Rightarrow> Inr (s\<lparr>sc_state := target\<rparr>))"

definition check_streaming_admission :: "completion \<Rightarrow> sc_error + unit" where
  "check_streaming_admission s =
     (if sc_state s = SNAPSHOT_STREAMING then Inr ()
      else case machine_check SNAPSHOT_COMPLETION (sc_state s) SNAPSHOT_STREAMING of
             Inl _ \<Rightarrow> Inl StreamingAdmissionRefused
           | Inr _ \<Rightarrow> Inr ())"

definition enter_streaming :: "completion \<Rightarrow> sc_error + completion" where
  "enter_streaming s =
     rbind (check_streaming_admission s) (\<lambda>_. Inr (s\<lparr>sc_state := SNAPSHOT_STREAMING\<rparr>))"

definition observe_source_streaming :: "completion \<Rightarrow> sc_error + completion" where
  "observe_source_streaming s = Inl SourceStreamingIsNoCallback"

section \<open>Committed rows\<close>

definition snapshot_units_in :: "complete_unit list \<Rightarrow> complete_unit list" where
  "snapshot_units_in us =
     filter (\<lambda>u. cu_kind u = UNIT_SNAPSHOT_CHUNK \<and> \<not> cu_incremental u \<and> \<not> cu_ignored u \<and>
                 \<not> cu_fenced u) us"

definition has_boundary :: "complete_unit list \<Rightarrow> bool" where
  "has_boundary us \<longleftrightarrow>
     list_ex (\<lambda>u. list_ex (\<lambda>r. pr_kind r = KIND_SNAPSHOT_BOUNDARY) (cu_records u)) us"

definition fstring :: "string option \<Rightarrow> string" where
  \<comment> \<open>an optional string inside an f-string\<close>
  "fstring x = (case x of None \<Rightarrow> ''None'' | Some s \<Rightarrow> s)"

definition unit_table :: "complete_unit \<Rightarrow> sc_error + string" where
  "unit_table u = qualified_relation (fstring (cu_schema u) @ ''.'' @ fstring (cu_table u))"

definition add_rows :: "(string, int) dict \<Rightarrow> complete_unit \<Rightarrow> sc_error + (string, int) dict" where
  "add_rows rows u =
     rbind (unit_table u) (\<lambda>t. Inr (AList.update t (dict_get rows t 0 + event_count u) rows))"

definition projected_rows :: "completion \<Rightarrow> complete_unit list \<Rightarrow> sc_error + (string, int) dict" where
  "projected_rows s us = rfold add_rows (sc_committed_rows s) us"

definition counts_match :: "completion \<Rightarrow> (string, int) dict \<Rightarrow> bool" where
  "counts_match s committed \<longleftrightarrow>
     list_all (\<lambda>t. map_of (sc_callback_rows s) t = Some (dict_get committed t 0))
       (sc_expected_tables s)"

definition validate_unit :: "completion \<Rightarrow> complete_unit \<Rightarrow> sc_error + unit" where
  "validate_unit s u =
     (if \<not> truthy_str (cu_schema u) \<or> \<not> truthy_str (cu_table u) then Inl RowsWithoutIdentity
      else rbind (unit_table u) (\<lambda>t.
           raise_if (t \<notin> set (sc_expected_tables s)) UnexpectedTable))"

definition validate_count :: "completion \<Rightarrow> (string, int) dict \<Rightarrow> complete_unit \<Rightarrow> sc_error + unit" where
  "validate_count s projected u =
     rbind (unit_table u) (\<lambda>t.
       case map_of (sc_callback_rows s) t of
         None \<Rightarrow> Inr ()
       | Some declared \<Rightarrow> raise_if (dict_get projected t 0 > declared) BeyondDeclared)"

definition validate_snapshot_units :: "completion \<Rightarrow> complete_unit list \<Rightarrow> sc_error + unit" where
  "validate_snapshot_units s us =
     (if us = [] then Inr ()
      else if sc_state s \<notin> {SNAPSHOT_CALLBACKS_STARTED, SNAPSHOT_COMPLETION_NOTIFIED}
        then Inl RowsInIllegalState
      else rbind (sc_transition (sc_state s) s) (\<lambda>_.
           rbind (rfold (\<lambda>_ u. validate_unit s u) () us) (\<lambda>_.
           rbind (projected_rows s us) (\<lambda>projected.
           rfold (\<lambda>_ u. validate_count s projected u) () us))))"

definition validate_committed_group :: "completion \<Rightarrow> complete_unit list \<Rightarrow> sc_error + unit" where
  "validate_committed_group s us = validate_snapshot_units s (snapshot_units_in us)"

definition will_complete_after :: "completion \<Rightarrow> complete_unit list \<Rightarrow> bool \<Rightarrow> sc_error + bool" where
  "will_complete_after s us boundary =
     (if phase_ended s then Inr True
      else if sc_state s \<noteq> SNAPSHOT_COMPLETION_NOTIFIED then
        (if \<not> boundary then Inr False else Inl BoundaryWithoutCompleted)
      else rbind (projected_rows s us) (\<lambda>projected. Inr (counts_match s projected)))"

definition commit_ready :: "completion \<Rightarrow> complete_unit list \<Rightarrow> sc_error + bool" where
  "commit_ready s us =
     rbind (validate_committed_group s us) (\<lambda>_.
       if \<not> has_boundary us then Inr True
       else will_complete_after s (snapshot_units_in us) True)"

definition will_complete_after_commit :: "completion \<Rightarrow> complete_unit list \<Rightarrow> sc_error + bool" where
  "will_complete_after_commit s us =
     rbind (validate_snapshot_units s (snapshot_units_in us)) (\<lambda>_.
       will_complete_after s (snapshot_units_in us) False)"

definition record_unit :: "completion \<Rightarrow> complete_unit \<Rightarrow> sc_error + completion" where
  "record_unit s u =
     rbind (unit_table u) (\<lambda>t.
     rbind (add_rows (sc_committed_rows s) u) (\<lambda>rows.
       Inr (s\<lparr>sc_snapshot_units := Suc (sc_snapshot_units s),
              sc_tables_seen := List.insert t (sc_tables_seen s),
              sc_committed_rows := rows,
              sc_marker_seen := (sc_marker_seen s \<or> cu_snapshot_last u)\<rparr>)))"

definition observe_committed_group :: "completion \<Rightarrow> complete_unit list \<Rightarrow> sc_error + completion" where
  "observe_committed_group s us =
     (let sus = snapshot_units_in us in
      rbind (validate_snapshot_units s sus) (\<lambda>_.
      rbind (rfold record_unit s sus) (\<lambda>s1.
        if sus = [] then Inr s1
        else if sc_state s1 = SNAPSHOT_COMPLETION_NOTIFIED \<and> counts_match s1 (sc_committed_rows s1)
          then sc_transition SNAPSHOT_CALLBACKS_COMPLETE s1
        else if sc_state s1 \<in> {SNAPSHOT_AWAITING_CALLBACKS, SNAPSHOT_CALLBACKS_STARTED,
                               SNAPSHOT_COMPLETION_NOTIFIED}
          then sc_transition (sc_state s1) s1
        else Inr s1)))"

section \<open>Notifications\<close>

definition validate_progress_table ::
  "completion \<Rightarrow> string \<Rightarrow> (string, string) dict \<Rightarrow> sc_error + unit" where
  "validate_progress_table s obs data =
     (let key = (if obs = ''TABLE_CHUNK_COMPLETED'' then ''scanned_collection''
                 else ''current_collection_in_progress'')
      in case map_of data key of
           None \<Rightarrow> Inl MissingProgressTable
         | Some v \<Rightarrow> rbind (qualified_relation v) (\<lambda>t.
             raise_if (t \<notin> set (sc_expected_tables s)) UnexpectedTable))"

definition table_scan_completed :: "completion \<Rightarrow> (string, string) dict \<Rightarrow> sc_error + completion" where
  "table_scan_completed s data =
     (if map_of data ''status'' \<noteq> Some ''SUCCEEDED'' then Inl NotSucceeded
      else rbind (qualified_relation (dict_get data ''scanned_collection'' '''')) (\<lambda>t.
        if t \<notin> set (sc_expected_tables s) then Inl UnexpectedTable
        else if t \<in> set (sc_callback_tables s) then Inl TableTwice
        else case map_of data ''total_rows_scanned'' of
               None \<Rightarrow> Inl InvalidRowCount
             | Some v \<Rightarrow>
                 (case int_of_text v of
                    None \<Rightarrow> Inl InvalidRowCount
                  | Some rows \<Rightarrow>
                      if rows < 0 then Inl NegativeRowCount
                      else if dict_get (sc_committed_rows s) t 0 > rows then Inl BeyondDeclared
                      else sc_transition SNAPSHOT_CALLBACKS_STARTED
                             (s\<lparr>sc_callback_tables := List.insert t (sc_callback_tables s),
                                sc_callback_rows := AList.update t rows (sc_callback_rows s)\<rparr>))))"

definition snapshot_completed :: "completion \<Rightarrow> sc_error + completion" where
  "snapshot_completed s =
     (if set (sc_expected_tables s) \<noteq> set (sc_callback_tables s) then Inl NotExactTableSet
      else sc_transition (if counts_match s (sc_committed_rows s) then SNAPSHOT_CALLBACKS_COMPLETE
                          else SNAPSHOT_COMPLETION_NOTIFIED) s)"

definition observe_notification ::
  "completion \<Rightarrow> string \<Rightarrow> (string, string) dict \<Rightarrow> sc_error + completion" where
  "observe_notification s obs data =
     (if \<not> is_ok (domain_parse SNAPSHOT_CALLBACK_OBSERVATIONS obs) then Inl UnknownObservation
      else if sc_state s = SNAPSHOT_NOT_REQUIRED then
        (if obs \<noteq> ''SKIPPED'' then Inl UnexpectedCallback
         else sc_transition SNAPSHOT_NOT_REQUIRED s)
      else if obs = ''STARTED'' then
        (if sc_state s \<noteq> SNAPSHOT_AWAITING_CALLBACKS then Inl UnexpectedCallback
         else sc_transition SNAPSHOT_CALLBACKS_STARTED s)
      else if obs \<in> {''IN_PROGRESS'', ''TABLE_CHUNK_IN_PROGRESS'', ''TABLE_CHUNK_COMPLETED''} then
        (if sc_state s \<noteq> SNAPSHOT_CALLBACKS_STARTED then Inl UnexpectedCallback
         else rbind (validate_progress_table s obs data) (\<lambda>_.
              sc_transition SNAPSHOT_CALLBACKS_STARTED s))
      else if obs = ''TABLE_SCAN_COMPLETED'' then
        (if sc_state s \<noteq> SNAPSHOT_CALLBACKS_STARTED then Inl UnexpectedCallback
         else table_scan_completed s data)
      else if obs = ''COMPLETED'' then
        (if sc_state s \<noteq> SNAPSHOT_CALLBACKS_STARTED then Inl UnexpectedCallback
         else snapshot_completed s)
      else Inl UnexpectedCallback)"

section \<open>The completion is a guarded owner of its machine\<close>

datatype sc_op =
    Notify string "(string, string) dict"
  | Commit "complete_unit list"
  | EnterStreaming

fun sc_step :: "completion \<Rightarrow> sc_op \<Rightarrow> sc_error + completion" where
  "sc_step s (Notify obs data) = observe_notification s obs data"
| "sc_step s (Commit us) = observe_committed_group s us"
| "sc_step s EnterStreaming = enter_streaming s"

lemma wf_SNAPSHOT_COMPLETION: "wf_machine SNAPSHOT_COMPLETION"
  using declared_machines_wf by (simp add: declared_machines_def)

lemma sc_transition_Inr:
  "sc_transition t s = Inr s' \<longleftrightarrow> s' = s\<lparr>sc_state := t\<rparr> \<and> allows SNAPSHOT_COMPLETION (sc_state s) t"
  using machine_check_wf [OF wf_SNAPSHOT_COMPLETION, of "sc_state s" t]
  by (auto simp: sc_transition_def is_ok_iff split: sum.splits)

lemma record_units_frame:
  "rfold record_unit s us = Inr s' \<Longrightarrow>
   sc_state s' = sc_state s \<and> sc_callback_rows s' = sc_callback_rows s \<and>
   sc_callback_tables s' = sc_callback_tables s \<and> sc_expected_tables s' = sc_expected_tables s"
  by (erule rfold_invariant) (auto simp: record_unit_def result_simps)

lemma sc_step_declared:
  "sc_step s x = Inr s' \<Longrightarrow>
   sc_state s' = sc_state s \<or> allows SNAPSHOT_COMPLETION (sc_state s) (sc_state s')"
proof (induction s x rule: sc_step.induct)
  case (1 s obs data)
  then show ?case
    by (auto simp: observe_notification_def table_scan_completed_def snapshot_completed_def
        result_simps sc_transition_Inr split: if_splits option.splits)
next
  case (2 s us)
  then show ?case
    using record_units_frame [of s "snapshot_units_in us"]
    by (auto simp: observe_committed_group_def Let_def result_simps sc_transition_Inr
        split: if_splits)
next
  case (3 s)
  then show ?case
    using machine_check_wf [OF wf_SNAPSHOT_COMPLETION, of "sc_state s" SNAPSHOT_STREAMING]
    by (auto simp: enter_streaming_def check_streaming_admission_def result_simps is_ok_iff
        split: if_splits sum.splits)
qed

interpretation snapshot_completion: guarded_state SNAPSHOT_COMPLETION sc_state sc_step
  by unfold_locales (rule wf_SNAPSHOT_COMPLETION, rule sc_step_declared)

section \<open>The evidence behind a state\<close>

text \<open>The rows of table \<open>t\<close> that a run committed, and what Debezium declared for it.\<close>

definition unit_rows :: "string \<Rightarrow> complete_unit list \<Rightarrow> int" where
  "unit_rows t us = sum_list (map event_count (filter (\<lambda>u. unit_table u = Inr t) us))"

fun op_rows :: "string \<Rightarrow> sc_op \<Rightarrow> int" where
  "op_rows t (Commit us) = unit_rows t (snapshot_units_in us)"
| "op_rows t _ = 0"

definition committed_rows_of :: "sc_op list \<Rightarrow> string \<Rightarrow> int" where
  "committed_rows_of ops t = sum_list (map (op_rows t) ops)"

fun scan_of :: "sc_op \<Rightarrow> (string \<times> int) option" where
  "scan_of (Notify obs data) =
     (if obs = ''TABLE_SCAN_COMPLETED'' \<and> map_of data ''status'' = Some ''SUCCEEDED'' then
        (case (qualified_relation (dict_get data ''scanned_collection'' ''''),
               map_of data ''total_rows_scanned'') of
           (Inr t, Some v) \<Rightarrow> map_option (\<lambda>n. (t, n)) (int_of_text v)
         | _ \<Rightarrow> None)
      else None)"
| "scan_of _ = None"

definition declared_rows :: "sc_op list \<Rightarrow> string \<Rightarrow> int \<Rightarrow> bool" where
  "declared_rows ops t n \<longleftrightarrow> Some (t, n) \<in> set (map scan_of ops)"

definition sc_inv :: "string list \<Rightarrow> sc_op list \<Rightarrow> completion \<Rightarrow> bool" where
  "sc_inv expected ops s \<longleftrightarrow>
     sc_expected_tables s = expected \<and>
     (\<forall>t. dict_get (sc_committed_rows s) t 0 = committed_rows_of ops t) \<and>
     (\<forall>t n. map_of (sc_callback_rows s) t = Some n \<longrightarrow> declared_rows ops t n) \<and>
     sc_state s \<noteq> SNAPSHOT_NOT_REQUIRED \<and>
     (sc_state s = SNAPSHOT_COMPLETION_NOTIFIED \<longrightarrow> \<not> counts_match s (sc_committed_rows s)) \<and>
     (sc_state s \<in> {SNAPSHOT_CALLBACKS_COMPLETE, SNAPSHOT_STREAMING} \<longrightarrow>
        counts_match s (sc_committed_rows s))"

lemma declared_rows_snoc:
  "declared_rows (ops @ [x]) t n \<longleftrightarrow> declared_rows ops t n \<or> scan_of x = Some (t, n)"
  by (auto simp: declared_rows_def)

lemma committed_rows_snoc: "committed_rows_of (ops @ [x]) t = committed_rows_of ops t + op_rows t x"
  by (simp add: committed_rows_of_def)

lemma counts_match_state [simp]: "counts_match (s\<lparr>sc_state := x\<rparr>) rows = counts_match s rows"
  by (simp add: counts_match_def)

lemma record_unit_rows:
  assumes "record_unit s u = Inr s1"
  obtains t where "unit_table u = Inr t" and "sc_committed_rows s1 =
    AList.update t (dict_get (sc_committed_rows s) t 0 + event_count u) (sc_committed_rows s)"
  using assms by (auto simp: record_unit_def add_rows_def result_simps)

lemma record_units_rows:
  assumes "rfold record_unit s us = Inr s'"
  shows "projected_rows s us = Inr (sc_committed_rows s') \<and>
    (\<forall>t. dict_get (sc_committed_rows s') t 0 = dict_get (sc_committed_rows s) t 0 + unit_rows t us)"
  using assms
proof (induction us arbitrary: s)
  case Nil
  then show ?case by (simp add: projected_rows_def unit_rows_def)
next
  case (Cons u us)
  then obtain s1 where u: "record_unit s u = Inr s1" and us: "rfold record_unit s1 us = Inr s'"
    by (auto simp: rbind_eq_Inr)
  from u obtain t where t: "unit_table u = Inr t" "sc_committed_rows s1 =
      AList.update t (dict_get (sc_committed_rows s) t 0 + event_count u) (sc_committed_rows s)"
    by (rule record_unit_rows)
  from Cons.IH [OF us] t show ?case
    by (auto simp: projected_rows_def add_rows_def unit_rows_def)
qed

lemma observe_notification_inv:
  assumes "observe_notification s obs data = Inr s'" and "sc_inv expected ops s"
  shows "sc_inv expected (ops @ [Notify obs data]) s'"
  using assms
  by (auto simp: observe_notification_def table_scan_completed_def snapshot_completed_def sc_inv_def
      result_simps sc_transition_Inr declared_rows_snoc committed_rows_snoc counts_match_def
      update_conv' split: if_splits option.splits)


lemma observe_committed_group_cases:
  assumes "observe_committed_group s us = Inr s'"
  obtains s1 where "rfold record_unit s (snapshot_units_in us) = Inr s1"
    and "s' = s1\<lparr>sc_state := sc_state s'\<rparr>"
    and "snapshot_units_in us = [] \<and> s1 = s \<and> s' = s \<or>
         sc_state s \<in> {SNAPSHOT_CALLBACKS_STARTED, SNAPSHOT_COMPLETION_NOTIFIED} \<and>
         sc_state s' = (if sc_state s = SNAPSHOT_COMPLETION_NOTIFIED \<and>
                            counts_match s1 (sc_committed_rows s1)
                        then SNAPSHOT_CALLBACKS_COMPLETE else sc_state s)"
proof -
  obtain s1 where v: "validate_snapshot_units s (snapshot_units_in us) = Inr ()"
    and r: "rfold record_unit s (snapshot_units_in us) = Inr s1"
    using assms by (auto simp: observe_committed_group_def Let_def result_simps)
  note st = conjunct1 [OF record_units_frame [OF r]]
  show ?thesis
  proof (cases "snapshot_units_in us = []")
    case True
    then show ?thesis using r assms by (intro that [of s1]) (auto simp: observe_committed_group_def validate_snapshot_units_def)
  next
    case False
    have "sc_state s \<in> {SNAPSHOT_CALLBACKS_STARTED, SNAPSHOT_COMPLETION_NOTIFIED}"
      using v False by (simp add: validate_snapshot_units_def split: if_splits)
    then show ?thesis
      using r v False st assms
      by (intro that [of s1])
        (auto simp: observe_committed_group_def Let_def sc_transition_Inr split: if_splits)
  qed
qed

lemma observe_committed_group_inv:
  assumes "observe_committed_group s us = Inr s'" and "sc_inv expected ops s"
  shows "sc_inv expected (ops @ [Commit us]) s'"
proof -
  from assms(1) obtain s1 where r: "rfold record_unit s (snapshot_units_in us) = Inr s1"
    and s': "s' = s1\<lparr>sc_state := sc_state s'\<rparr>"
    and c: "snapshot_units_in us = [] \<and> s1 = s \<and> s' = s \<or>
         sc_state s \<in> {SNAPSHOT_CALLBACKS_STARTED, SNAPSHOT_COMPLETION_NOTIFIED} \<and>
         sc_state s' = (if sc_state s = SNAPSHOT_COMPLETION_NOTIFIED \<and>
                            counts_match s1 (sc_committed_rows s1)
                        then SNAPSHOT_CALLBACKS_COMPLETE else sc_state s)"
    by (rule observe_committed_group_cases)
  have same: "sc_expected_tables s' = sc_expected_tables s" "sc_callback_rows s' = sc_callback_rows s"
    "sc_committed_rows s' = sc_committed_rows s1" "counts_match s' x = counts_match s1 x" for x
    using record_units_frame [OF r] by (subst s'; simp)+
  have "\<forall>t. dict_get (sc_committed_rows s') t 0 = committed_rows_of (ops @ [Commit us]) t"
    using record_units_rows [OF r] assms(2) same
    by (simp add: sc_inv_def committed_rows_snoc)
  moreover have "\<forall>t n. map_of (sc_callback_rows s') t = Some n \<longrightarrow> declared_rows (ops @ [Commit us]) t n"
    using assms(2) same by (simp add: sc_inv_def declared_rows_snoc)
  moreover have "sc_state s' \<noteq> SNAPSHOT_NOT_REQUIRED \<and>
    (sc_state s' = SNAPSHOT_COMPLETION_NOTIFIED \<longrightarrow> \<not> counts_match s' (sc_committed_rows s')) \<and>
    (sc_state s' \<in> {SNAPSHOT_CALLBACKS_COMPLETE, SNAPSHOT_STREAMING} \<longrightarrow>
       counts_match s' (sc_committed_rows s'))"
    using c assms(2) same(3,4) by (auto simp: sc_inv_def split: if_splits)
  ultimately show ?thesis using assms(2) same(1) by (simp add: sc_inv_def)
qed

lemma enter_streaming_inv:
  assumes "enter_streaming s = Inr s'" and "sc_inv expected ops s"
  shows "sc_inv expected (ops @ [EnterStreaming]) s'"
proof -
  have "sc_state s = SNAPSHOT_STREAMING \<or> allows SNAPSHOT_COMPLETION (sc_state s) SNAPSHOT_STREAMING"
    using assms(1) machine_check_wf [OF wf_SNAPSHOT_COMPLETION, of "sc_state s" SNAPSHOT_STREAMING]
    by (auto simp: enter_streaming_def check_streaming_admission_def result_simps
        split: if_splits sum.splits)
  then have "sc_state s \<in> {SNAPSHOT_STREAMING, SNAPSHOT_CALLBACKS_COMPLETE, SNAPSHOT_NOT_REQUIRED}"
    by (auto simp: allows_def SNAPSHOT_COMPLETION_def make_machine_def)
  moreover have "s' = s\<lparr>sc_state := SNAPSHOT_STREAMING\<rparr>"
    using assms(1) by (auto simp: enter_streaming_def result_simps)
  ultimately show ?thesis
    using assms(2) by (auto simp: sc_inv_def declared_rows_snoc committed_rows_snoc)
qed

lemma sc_run_inv:
  assumes "rfold sc_step s ops = Inr s'" and "sc_inv expected ops0 s"
  shows "sc_inv expected (ops0 @ ops) s'"
  using assms
proof (induction ops arbitrary: s ops0)
  case Nil
  then show ?case by simp
next
  case (Cons x ops)
  from Cons.prems(1) obtain s1 where x: "sc_step s x = Inr s1" and r: "rfold sc_step s1 ops = Inr s'"
    by (auto simp: rbind_eq_Inr)
  have "sc_inv expected (ops0 @ [x]) s1"
    using x Cons.prems(2)
    by (cases x) (auto intro: observe_notification_inv observe_committed_group_inv enter_streaming_inv)
  from Cons.IH [OF r this] show ?case by simp
qed

lemma full_snapshot_inv:
  "full_snapshot tables = Inr s \<Longrightarrow> sc_inv (sc_expected_tables s) [] s"
  by (auto simp: full_snapshot_def completion_init_def result_simps sc_inv_def committed_rows_of_def)

text \<open>
  C38: A required snapshot ends only on exact evidence. When a run of notifications, committed
  groups and phase changes that starts with a required snapshot has completed or has entered
  streaming, then for every captured table Debezium reported a successful scan, and the number
  of rows it declared is exactly the number of that table's snapshot rows that were committed.
\<close>

theorem snapshot_ends_on_exact_evidence:
  assumes "full_snapshot tables = Inr s0" and "rfold sc_step s0 ops = Inr s"
    and "sc_state s \<in> {SNAPSHOT_CALLBACKS_COMPLETE, SNAPSHOT_STREAMING}"
    and "t \<in> set (sc_expected_tables s0)"
  shows "declared_rows ops t (committed_rows_of ops t)"
  using sc_run_inv [OF assms(2) full_snapshot_inv [OF assms(1)]] assms(3,4)
  by (auto simp: sc_inv_def counts_match_def list_all_iff)

definition sample_chunk :: complete_unit where
  "sample_chunk = (blank_unit UNIT_SNAPSHOT_CHUNK)\<lparr>cu_schema := Some ''s'', cu_table := Some ''t'',
     cu_spilled_events := 2\<rparr>"

definition sample_ops :: "sc_op list" where
  "sample_ops = [Notify ''STARTED'' [], Commit [sample_chunk],
     Notify ''TABLE_SCAN_COMPLETED'' [(''status'', ''SUCCEEDED''), (''scanned_collection'', ''s.t''),
       (''total_rows_scanned'', ''4'')],
     Notify ''COMPLETED'' [], Commit [sample_chunk], EnterStreaming]"

theorem snapshot_ends_on_exact_evidence_witness:
  "\<exists>s0 s. full_snapshot [''s.t''] = Inr s0 \<and> rfold sc_step s0 sample_ops = Inr s \<and>
     sc_state s = SNAPSHOT_STREAMING \<and> declared_rows sample_ops ''s.t'' (committed_rows_of sample_ops ''s.t'')"
proof -
  define r where "r = rbind (full_snapshot [''s.t'']) (\<lambda>s0. rbind (rfold sc_step s0 sample_ops) (\<lambda>s. Inr (s0, s)))"
  have "case r of Inl _ \<Rightarrow> False | Inr (s0, s) \<Rightarrow>
      sc_state s = SNAPSHOT_STREAMING \<and> sc_expected_tables s0 = [''s.t'']"
    unfolding r_def by code_simp
  then obtain s0 s where r: "r = Inr (s0, s)"
    and st: "sc_state s = SNAPSHOT_STREAMING \<and> sc_expected_tables s0 = [''s.t'']"
    by (rule run_okE)
  from r have run: "full_snapshot [''s.t''] = Inr s0" "rfold sc_step s0 sample_ops = Inr s"
    by (auto simp: r_def rbind_eq_Inr)
  have "declared_rows sample_ops ''s.t'' (committed_rows_of sample_ops ''s.t'')"
    by (rule snapshot_ends_on_exact_evidence [OF run]) (simp_all add: st)
  with run st show ?thesis by blast
qed

text \<open>
  What passes the check before the destination commit is never refused after it: a group that
  \<open>validate_committed_group\<close> accepts is recorded by \<open>observe_committed_group\<close> without an exception.
\<close>

theorem validated_group_is_recorded:
  assumes "validate_committed_group s us = Inr ()"
  shows "\<exists>s'. observe_committed_group s us = Inr s'"
proof (cases "snapshot_units_in us = []")
  case True
  then show ?thesis by (simp add: observe_committed_group_def validate_snapshot_units_def)
next
  case False
  let ?us = "snapshot_units_in us"
  have v: "validate_snapshot_units s ?us = Inr ()"
    using assms by (simp add: validate_committed_group_def)
  then have st: "sc_state s \<in> {SNAPSHOT_CALLBACKS_STARTED, SNAPSHOT_COMPLETION_NOTIFIED}"
    and proj: "\<exists>rows. projected_rows s ?us = Inr rows"
    using False by (auto simp: validate_snapshot_units_def result_simps split: if_splits)
  have "\<exists>rows. rfold add_rows (sc_committed_rows s) xs = Inr rows \<Longrightarrow> \<exists>s'. rfold record_unit s xs = Inr s'"
    for s xs
    by (induction xs arbitrary: s) (fastforce simp: record_unit_def add_rows_def result_simps)+
  with proj obtain s1 where r: "rfold record_unit s ?us = Inr s1"
    unfolding projected_rows_def by blast
  have "sc_state s1 = sc_state s" using record_units_frame [OF r] by simp
  moreover have "allows SNAPSHOT_COMPLETION (sc_state s) (sc_state s)"
    "sc_state s = SNAPSHOT_COMPLETION_NOTIFIED \<Longrightarrow>
       allows SNAPSHOT_COMPLETION (sc_state s) SNAPSHOT_CALLBACKS_COMPLETE"
    using st by (auto simp: allows_def SNAPSHOT_COMPLETION_def make_machine_def)
  ultimately show ?thesis
    using v r st False
    by (auto simp: observe_committed_group_def Let_def sc_transition_Inr)
qed


theorem validated_group_is_recorded_example:
  "\<exists>s0 s s'. full_snapshot [''s.t''] = Inr s0 \<and> observe_notification s0 ''STARTED'' [] = Inr s \<and>
     observe_committed_group s [sample_chunk] = Inr s' \<and> snapshot_units_in [sample_chunk] \<noteq> []"
proof -
  define r where "r = rbind (full_snapshot [''s.t'']) (\<lambda>s0.
    rbind (observe_notification s0 ''STARTED'' []) (\<lambda>s. Inr (s0, s)))"
  have "case r of Inl _ \<Rightarrow> False | Inr (s0, s) \<Rightarrow> validate_committed_group s [sample_chunk] = Inr ()"
    unfolding r_def by code_simp
  then obtain s0 s where r: "r = Inr (s0, s)" and v: "validate_committed_group s [sample_chunk] = Inr ()"
    by (rule run_okE)
  from r have run: "full_snapshot [''s.t''] = Inr s0" "observe_notification s0 ''STARTED'' [] = Inr s"
    by (auto simp: r_def rbind_eq_Inr)
  have "snapshot_units_in [sample_chunk] \<noteq> []" by code_simp
  with run validated_group_is_recorded [OF v] show ?thesis by blast
qed

lemma phase_ended_iff:
  "phase_ended s \<longleftrightarrow>
   sc_state s \<in> {SNAPSHOT_CALLBACKS_COMPLETE, SNAPSHOT_NOT_REQUIRED, SNAPSHOT_STREAMING}"
  by (auto simp: phase_ended_def is_terminal_def machine_parse_def SNAPSHOT_COMPLETION_def
      make_machine_def result_simps split: if_splits)

text \<open>
  The prediction made before a commit is right: in every state a required snapshot can reach,
  \<open>will_complete_after_commit\<close> answers whether the phase has ended once the group is recorded.
\<close>

theorem completion_prediction_is_exact:
  assumes "full_snapshot tables = Inr s0" and "rfold sc_step s0 ops = Inr s"
    and "will_complete_after_commit s us = Inr b" and "observe_committed_group s us = Inr s'"
  shows "b \<longleftrightarrow> phase_ended s'"
proof -
  have inv: "sc_inv (sc_expected_tables s0) ops s"
    using sc_run_inv [OF assms(2) full_snapshot_inv [OF assms(1)]] by simp
  let ?us = "snapshot_units_in us"
  from assms(4) obtain s1 where r: "rfold record_unit s ?us = Inr s1"
    and s': "s' = s1\<lparr>sc_state := sc_state s'\<rparr>"
    and c: "?us = [] \<and> s1 = s \<and> s' = s \<or>
         sc_state s \<in> {SNAPSHOT_CALLBACKS_STARTED, SNAPSHOT_COMPLETION_NOTIFIED} \<and>
         sc_state s' = (if sc_state s = SNAPSHOT_COMPLETION_NOTIFIED \<and>
                            counts_match s1 (sc_committed_rows s1)
                        then SNAPSHOT_CALLBACKS_COMPLETE else sc_state s)"
    by (rule observe_committed_group_cases)
  have cm: "counts_match s x = counts_match s1 x" for x
    using record_units_frame [OF r] by (simp add: counts_match_def)
  have w: "will_complete_after s ?us False = Inr b"
    using assms(3) by (auto simp: will_complete_after_commit_def result_simps)
  show ?thesis
  proof (cases "sc_state s = SNAPSHOT_COMPLETION_NOTIFIED")
    case True
    then have "b \<longleftrightarrow> counts_match s (sc_committed_rows s1)"
      using w record_units_rows [OF r] by (auto simp: will_complete_after_def phase_ended_iff)
    then show ?thesis
      using c True inv cm by (auto simp: phase_ended_iff sc_inv_def)
  next
    case False
    then show ?thesis
      using w c by (auto simp: will_complete_after_def phase_ended_iff split: if_splits)
  qed
qed


theorem completion_prediction_is_exact_example:
  "\<exists>s0 s s'. full_snapshot [''s.t''] = Inr s0 \<and> rfold sc_step s0 (take 4 sample_ops) = Inr s \<and>
     observe_committed_group s [sample_chunk] = Inr s' \<and>
     will_complete_after_commit s [sample_chunk] = Inr True \<and> phase_ended s'"
proof -
  define r where "r = rbind (full_snapshot [''s.t'']) (\<lambda>s0.
    rbind (rfold sc_step s0 (take 4 sample_ops)) (\<lambda>s. Inr (s0, s)))"
  have "case r of Inl _ \<Rightarrow> False | Inr (s0, s) \<Rightarrow>
      will_complete_after_commit s [sample_chunk] = Inr True \<and>
      is_ok (observe_committed_group s [sample_chunk])"
    unfolding r_def by code_simp
  then obtain s0 s where r: "r = Inr (s0, s)"
    and w: "will_complete_after_commit s [sample_chunk] = Inr True \<and>
      is_ok (observe_committed_group s [sample_chunk])"
    by (rule run_okE)
  from r have run: "full_snapshot [''s.t''] = Inr s0" "rfold sc_step s0 (take 4 sample_ops) = Inr s"
    by (auto simp: r_def rbind_eq_Inr)
  from w obtain s' where o: "observe_committed_group s [sample_chunk] = Inr s'"
    by (auto simp: is_ok_iff)
  with completion_prediction_is_exact [OF run conjunct1 [OF w]] have "phase_ended s'" by simp
  with run o w show ?thesis by blast
qed

text \<open>
  Streaming is final: no notification, committed group or phase change takes a completion
  model out of the streaming state again.
\<close>

lemma streaming_is_final:
  assumes "sc_state s = SNAPSHOT_STREAMING" and "rfold sc_step s ops = Inr s'"
  shows "sc_state s' = SNAPSHOT_STREAMING"
proof -
  have "successors SNAPSHOT_COMPLETION SNAPSHOT_STREAMING = []" by code_simp
  then show ?thesis using snapshot_completion.run_sticky [OF assms(2)] assms(1) by simp
qed

lemma streaming_is_final_example:
  "\<exists>s s'. rbind (full_snapshot [''s.t'']) (\<lambda>s0. rfold sc_step s0 sample_ops) = Inr s \<and>
     rfold sc_step s [EnterStreaming, Commit []] = Inr s' \<and> sc_state s' = SNAPSHOT_STREAMING"
proof -
  define r where "r = rbind (rbind (full_snapshot [''s.t'']) (\<lambda>s0. rfold sc_step s0 sample_ops))
    (\<lambda>s. rbind (rfold sc_step s [EnterStreaming, Commit []]) (\<lambda>s'. Inr (s, s')))"
  have "case r of Inl _ \<Rightarrow> False | Inr (s, s') \<Rightarrow> sc_state s = SNAPSHOT_STREAMING"
    unfolding r_def by code_simp
  then obtain s s' where r: "r = Inr (s, s')" and st: "sc_state s = SNAPSHOT_STREAMING"
    by (rule run_okE)
  from r have run: "rbind (full_snapshot [''s.t'']) (\<lambda>s0. rfold sc_step s0 sample_ops) = Inr s"
    "rfold sc_step s [EnterStreaming, Commit []] = Inr s'"
    by (auto simp: r_def rbind_eq_Inr simp del: rfold.simps)
  with streaming_is_final [OF st run(2)] show ?thesis by blast
qed


end
