(* ===== verification/Row_Patch.thy ===== *)
theory Row_Patch
  imports CDC_Prelude
begin

text \<open>
  Sparse row patches: a model of \<open>RowPatch\<close> in \<open>src/cdc_flight/row_patch.py\<close> and of the
  \<open>FieldState\<close> and \<open>FieldValue\<close> of \<open>src/cdc_flight/typed_types.py\<close> it is made of.

  Source values are a type parameter \<open>'v\<close>; \<open>None\<close> is SQL NULL. Column names are the normalised
  identifiers (the normaliser is a library's), so \<open>RowPatch.field\<close> is a plain lookup. Not
  modelled: the type descriptors a field carries and the value encoding they select, the
  digest, and the construction from a Debezium image with its TOAST marker classifier.

  A row is a finite map from column to value; \<open>apply_patch\<close> is what a patch means on a row.
\<close>

section \<open>FieldState and FieldValue\<close>

datatype field_state = VALUE | EXPLICIT_NULL | UNCHANGED_TOAST | ABSENT

record 'v field_value =
  fv_state :: field_state
  fv_value :: "'v option"

definition field_of :: "'v option \<Rightarrow> 'v field_value" where
  "field_of v = (case v of
     None \<Rightarrow> \<lparr>fv_state = EXPLICIT_NULL, fv_value = None\<rparr>
   | Some x \<Rightarrow> \<lparr>fv_state = VALUE, fv_value = Some x\<rparr>)"

definition explicit_null :: "'v field_value" where
  "explicit_null = \<lparr>fv_state = EXPLICIT_NULL, fv_value = None\<rparr>"

definition unchanged_toast :: "'v field_value" where
  "unchanged_toast = \<lparr>fv_state = UNCHANGED_TOAST, fv_value = None\<rparr>"

definition absent_field :: "'v field_value" where
  "absent_field = \<lparr>fv_state = ABSENT, fv_value = None\<rparr>"

definition bindable :: "'v field_value \<Rightarrow> bool" where
  \<comment> \<open>\<open>value.state in {FieldState.VALUE, FieldState.EXPLICIT_NULL}\<close>\<close>
  "bindable f \<longleftrightarrow> fv_state f = VALUE \<or> fv_state f = EXPLICIT_NULL"

section \<open>RowPatch\<close>

record 'v row_patch =
  rp_fields :: "(string, 'v field_value) dict"
  rp_absent :: "string list"
  rp_complete :: bool

datatype patch_error = MarkerWithValue

text \<open>\<open>__post_init__\<close>: the sorted, distinct absent names, and the refusal of a marker that carries a
  value.\<close>

definition make_patch ::
  "(string, 'v field_value) dict \<Rightarrow> string list \<Rightarrow> bool \<Rightarrow> patch_error + 'v row_patch" where
  "make_patch flds absent complete =
     (if list_ex (\<lambda>(c, f). fv_state f = UNCHANGED_TOAST \<and> fv_value f \<noteq> None) flds
      then Inl MarkerWithValue
      else Inr \<lparr>rp_fields = flds, rp_absent = sort (remdups absent), rp_complete = complete\<rparr>)"

definition marker_columns :: "'v row_patch \<Rightarrow> string list" where
  "marker_columns p = sort (map fst (filter (\<lambda>(c, f). fv_state f = UNCHANGED_TOAST) (rp_fields p)))"

definition explicit_null_columns :: "'v row_patch \<Rightarrow> string list" where
  "explicit_null_columns p =
     sort (map fst (filter (\<lambda>(c, f). fv_state f = EXPLICIT_NULL) (rp_fields p)))"

definition patch_field :: "'v row_patch \<Rightarrow> string \<Rightarrow> 'v field_value" where
  "patch_field p c = dict_get (rp_fields p) c absent_field"

definition bindable_values :: "'v row_patch \<Rightarrow> (string, 'v option) dict" where
  "bindable_values p = map (\<lambda>(c, f). (c, fv_value f)) (filter (\<lambda>(c, f). bindable f) (rp_fields p))"

definition has_marker :: "'v row_patch \<Rightarrow> bool" where
  "has_marker p \<longleftrightarrow> marker_columns p \<noteq> []"

text \<open>\<open>compose\<close>: the loop over the later patch's fields carries the fields and the absent set.\<close>

definition compose_field ::
  "(string, 'v field_value) dict \<times> string list \<Rightarrow> string \<times> 'v field_value \<Rightarrow>
   (string, 'v field_value) dict \<times> string list" where
  "compose_field acc cf =
     (case acc of (flds, absent) \<Rightarrow> case cf of (c, f) \<Rightarrow>
        if bindable f then (AList.update c f flds, removeAll c absent)
        else if \<not> dict_has flds c then (AList.update c f flds, absent)
        else (flds, absent))"

definition compose :: "'v row_patch \<Rightarrow> 'v row_patch \<Rightarrow> 'v row_patch" where
  "compose p later =
     (let (flds, absent) =
            foldl compose_field (rp_fields p, rp_absent p @ rp_absent later) (rp_fields later)
      in \<lparr>rp_fields = flds, rp_absent = sort (remdups absent),
          rp_complete = (rp_complete p \<or> rp_complete later)\<rparr>)"

section \<open>What a patch means\<close>

type_synonym 'v row = "string \<Rightarrow> 'v option option"

definition apply_fields :: "(string, 'v field_value) dict \<Rightarrow> 'v row \<Rightarrow> 'v row" where
  "apply_fields fs row =
     (\<lambda>c. case map_of fs c of
            None \<Rightarrow> row c
          | Some f \<Rightarrow> if bindable f then Some (fv_value f) else row c)"

definition apply_patch :: "'v row_patch \<Rightarrow> 'v row \<Rightarrow> 'v row" where
  "apply_patch p = apply_fields (rp_fields p)"

text \<open>A well-formed patch: distinct columns; a null field has no value.\<close>

definition wf_patch :: "'v row_patch \<Rightarrow> bool" where
  "wf_patch p \<longleftrightarrow> distinct (map fst (rp_fields p)) \<and>
     list_all (\<lambda>(c, f). fv_state f = EXPLICIT_NULL \<longrightarrow> fv_value f = None) (rp_fields p) \<and>
     list_all (\<lambda>(c, f). fv_state f = UNCHANGED_TOAST \<longrightarrow> fv_value f = None) (rp_fields p)"

lemma bindable_values_row:
  assumes "distinct (map fst (rp_fields p))"
  shows "map_of (bindable_values p) c = apply_patch p Map.empty c"
proof -
  have "map_of (map (\<lambda>(c, f). (c, fv_value f)) (filter (\<lambda>(c, f). bindable f) fs)) c =
      apply_fields fs Map.empty c" if "distinct (map fst fs)" for fs :: "(string, 'a field_value) dict"
    using that
    by (induction fs)
      (auto simp: apply_fields_def map_of_eq_None_iff [THEN iffD2] split: option.split, force)
  with assms show ?thesis by (simp add: bindable_values_def apply_patch_def)
qed

lemma compose_field_apply:
  assumes "compose_field (fs, ab) (c, f) = (fs', ab')"
  shows "apply_fields fs' row = (apply_fields fs row)(c := if bindable f then Some (fv_value f)
                                                          else apply_fields fs row c)"
  using assms
  by (auto simp: compose_field_def apply_fields_def update_conv' fun_eq_iff
      map_of_eq_None_iff [THEN iffD2] split: if_splits option.split)

lemma compose_fields_apply:
  assumes "foldl compose_field (fs, ab) gs = (fs', ab')" and "distinct (map fst gs)"
  shows "apply_fields fs' row = apply_fields gs (apply_fields fs row)"
  using assms
proof (induction gs arbitrary: fs ab)
  case Nil
  then show ?case by (simp add: apply_fields_def)
next
  case (Cons g gs)
  obtain c f where g: "g = (c, f)" by (cases g)
  obtain fs1 ab1 where s: "compose_field (fs, ab) g = (fs1, ab1)" by (cases "compose_field (fs, ab) g")
  have "apply_fields fs' row = apply_fields gs (apply_fields fs1 row)"
    using Cons s by simp
  also have "\<dots> = apply_fields ((c, f) # gs) (apply_fields fs row)"
    using Cons.prems(2) g compose_field_apply [OF s [unfolded g]]
    by (auto simp: apply_fields_def fun_eq_iff map_of_eq_None_iff [THEN iffD2] split: option.split)
  finally show ?case using g by simp
qed

lemma apply_compose:
  assumes "distinct (map fst (rp_fields q))"
  shows "apply_patch (compose p q) row = apply_patch q (apply_patch p row)"
proof -
  obtain fs ab where f: "foldl compose_field (rp_fields p, rp_absent p @ rp_absent q) (rp_fields q) = (fs, ab)"
    by (cases "foldl compose_field (rp_fields p, rp_absent p @ rp_absent q) (rp_fields q)")
  from compose_fields_apply [OF f assms] f show ?thesis
    by (simp add: apply_patch_def compose_def)
qed

lemma compose_complete [simp]: "rp_complete (compose p q) \<longleftrightarrow> rp_complete p \<or> rp_complete q"
  by (simp add: compose_def split: prod.split)

lemma compose_fields_inv:
  assumes "foldl compose_field (fs, ab) gs = (fs', ab')" and "distinct (map fst fs)"
    and "list_all (\<lambda>(c, f). P f) fs" and "list_all (\<lambda>(c, f). P f) gs"
  shows "distinct (map fst fs') \<and> list_all (\<lambda>(c, f). P f) fs'"
  using assms
proof (induction gs arbitrary: fs ab)
  case Nil
  then show ?case by simp
next
  case (Cons g gs)
  obtain c f where g: "g = (c, f)" by (cases g)
  obtain fs1 ab1 where s: "compose_field (fs, ab) g = (fs1, ab1)" by (cases "compose_field (fs, ab) g")
  have "fs1 = fs \<or> fs1 = AList.update c f fs"
    using s g by (auto simp: compose_field_def split: if_splits)
  moreover have "set (AList.update c f fs) \<subseteq> insert (c, f) (set fs)"
    by (induction fs) auto
  ultimately have "distinct (map fst fs1)" "list_all (\<lambda>(c, f). P f) fs1"
    using Cons.prems g by (auto simp: list_all_iff distinct_update)
  with Cons s show ?case by simp
qed

lemma wf_compose:
  assumes "wf_patch p" and "wf_patch q"
  shows "wf_patch (compose p q)"
proof -
  let ?P = "\<lambda>f. (fv_state f = EXPLICIT_NULL \<longrightarrow> fv_value f = None) \<and>
                (fv_state f = UNCHANGED_TOAST \<longrightarrow> fv_value f = None)"
  obtain fs ab where f: "foldl compose_field (rp_fields p, rp_absent p @ rp_absent q) (rp_fields q) = (fs, ab)"
    by (cases "foldl compose_field (rp_fields p, rp_absent p @ rp_absent q) (rp_fields q)")
  have "distinct (map fst fs) \<and> list_all (\<lambda>(c, f). ?P f) fs"
    using assms by (intro compose_fields_inv [OF f]) (auto simp: wf_patch_def list_all_iff)
  with f show ?thesis by (auto simp: wf_patch_def compose_def list_all_iff)
qed

text \<open>
  C37: Composing patches is applying them in source order: for every row, the composed patch has the
  effect of the earlier patch followed by the later one, so the last real value of each column
  wins, and a TOAST marker or an absent column never changes anything; composition also
  keeps patches well formed.
\<close>

theorem compose_is_sequential:
  assumes "wf_patch p" and "wf_patch q"
  shows "apply_patch (compose p q) row = apply_patch q (apply_patch p row) \<and> wf_patch (compose p q)"
  using apply_compose [of q p row] wf_compose [OF assms] assms(2) by (simp add: wf_patch_def)

definition sample_patch :: "(string \<times> string field_value) list \<Rightarrow> string row_patch" where
  "sample_patch fs = \<lparr>rp_fields = fs, rp_absent = [], rp_complete = False\<rparr>"

theorem compose_is_sequential_witness:
  "apply_patch (compose (sample_patch [(''a'', field_of (Some ''1'')), (''b'', field_of (Some ''2''))])
                        (sample_patch [(''a'', unchanged_toast), (''b'', explicit_null)])) Map.empty ''a''
     = Some (Some ''1'') \<and>
   apply_patch (compose (sample_patch [(''a'', field_of (Some ''1'')), (''b'', field_of (Some ''2''))])
                        (sample_patch [(''a'', unchanged_toast), (''b'', explicit_null)])) Map.empty ''b''
     = Some None"
proof -
  let ?p = "sample_patch [(''a'', field_of (Some ''1'')), (''b'', field_of (Some ''2''))]"
  let ?q = "sample_patch [(''a'', unchanged_toast), (''b'', explicit_null)]"
  have "wf_patch ?p" "wf_patch ?q" by code_simp+
  from compose_is_sequential [OF this, of Map.empty] show ?thesis
    by (simp add: apply_patch_def apply_fields_def sample_patch_def bindable_def field_of_def
        unchanged_toast_def explicit_null_def)
qed

end
