(* ===== verification/Table_Work.thy ===== *)
theory Table_Work
  imports Row_Patch
begin

text \<open>
  The fold of a commit group's events into one plan per keyed table: a model of
  \<open>src/cdc_flight/table_work.py\<close>, and of \<open>_plan\<close> and the keyed writes of
  \<open>src/cdc_flight/table_writer.py\<close>.

  The fold keeps, per identity key, the list of the physical rows that wear the key now:
  \<open>START\<close>, the row the destination held before the group, patches, and sparse key moves. A key
  is the opaque fold token \<open>'k\<close>. An event is given as the fold sees it (\<open>fold_event\<close>): its key
  tokens, its patch, the distinguishing columns of its before-image, and whether that image
  has a JSONB null the runtime cannot tell from SQL NULL. The destination is only asked
  through \<open>probe\<close>.

  Not modelled: the resolution of catalog descriptors and native types in \<open>collect\<close> and
  \<open>_key_token\<close>, and the reduction of a raw before-image to its distinguishing columns. The keyless
  fold (\<open>keyless_work.py\<close>) is not modelled here. A refused group is rolled back, so a raised exception carries no
  state.
\<close>

section \<open>The data\<close>

datatype ('k, 'v) entry =
    START
  | Row "'v row_patch"
  | Move 'k 'k "'v row_patch"

type_synonym 'v image = "(string \<times> 'v option) list"

record ('k, 'v) fold_event =
  fe_op :: string
  fe_event_id :: string
  fe_key :: 'k
  fe_before_key :: 'k
  fe_before_has_key :: bool
  fe_image :: "'v image"
  fe_variant_null :: bool
  fe_patch :: "'v row_patch"
  fe_incremental :: bool

record ('k, 'v) probe =
  pb_start_exists :: "'k \<Rightarrow> bool"
  pb_start_matches :: "'k \<Rightarrow> 'v image \<Rightarrow> bool option"

record ('k, 'v) table_work =
  tw_live :: "('k, ('k, 'v) entry list) dict"
  tw_multi :: "'k list"
  tw_start_present :: "('k, bool) dict"
  tw_incremental :: bool
  tw_incremental_keys :: "'k list"
  tw_cdc_keys :: "'k list"
  tw_events :: nat
  tw_truncated :: bool
  tw_truncates :: nat
  tw_truncate_marks :: "nat list"
  tw_deleted_keys :: "'k list"
  tw_delete_mode :: string
  tw_soft_deletes :: "('k, string) dict"
  tw_delete_effects :: "(string, 'k) dict"

definition new_work :: "bool \<Rightarrow> string \<Rightarrow> ('k, 'v) table_work" where
  "new_work incremental mode =
     \<lparr>tw_live = [], tw_multi = [], tw_start_present = [], tw_incremental = incremental,
      tw_incremental_keys = [], tw_cdc_keys = [], tw_events = 0, tw_truncated = False,
      tw_truncates = 0, tw_truncate_marks = [], tw_deleted_keys = [], tw_delete_mode = mode,
      tw_soft_deletes = [], tw_delete_effects = []\<rparr>"

datatype tw_error = AmbiguousDelete | ToastBaseMissing

section \<open>Entries\<close>

definition entries_at :: "('k, 'v) table_work \<Rightarrow> 'k \<Rightarrow> ('k, 'v) entry list" where
  "entries_at w k =
     (case map_of (tw_live w) k of
        Some es \<Rightarrow> es
      | None \<Rightarrow> if tw_truncated w then [] else [START])"

definition set_entries ::
  "('k, 'v) table_work \<Rightarrow> 'k \<Rightarrow> ('k, 'v) entry list \<Rightarrow> ('k, 'v) table_work" where
  "set_entries w k es = w\<lparr>tw_live := AList.update k es (tw_live w)\<rparr>"

fun is_start :: "('k, 'v) entry \<Rightarrow> bool" where
  "is_start START = True"
| "is_start _ = False"

definition concrete :: "('k, 'v) entry list \<Rightarrow> nat" where
  "concrete es =
     (case es of [] \<Rightarrow> 0 | e # _ \<Rightarrow> if is_start e then length es - 1 else length es)"

definition track :: "('k, 'v) table_work \<Rightarrow> 'k \<Rightarrow> ('k, 'v) entry list \<Rightarrow> ('k, 'v) table_work" where
  "track w k es =
     (if length es > 1 \<and> concrete es > 1 then w\<lparr>tw_multi := List.insert k (tw_multi w)\<rparr>
      else w\<lparr>tw_multi := removeAll k (tw_multi w)\<rparr>)"

definition start_known ::
  "('k, 'v) probe option \<Rightarrow> ('k, 'v) table_work \<Rightarrow> 'k \<Rightarrow> bool" where
  "start_known pr w k =
     (case map_of (tw_start_present w) k of
        Some b \<Rightarrow> b
      | None \<Rightarrow> (case pr of None \<Rightarrow> False | Some p \<Rightarrow> pb_start_exists p k))"

definition resolve_start ::
  "('k, 'v) probe option \<Rightarrow> ('k, 'v) table_work \<Rightarrow> 'k \<Rightarrow> ('k, 'v) entry list \<Rightarrow>
   ('k, 'v) table_work \<times> ('k, 'v) entry list" where
  "resolve_start pr w k es =
     (case es of
        [] \<Rightarrow> (w, es)
      | e # rest \<Rightarrow>
          if \<not> is_start e then (w, es)
          else if tw_truncated w then (w, rest)
          else let present = start_known pr w k
               in (w\<lparr>tw_start_present := AList.update k present (tw_start_present w)\<rparr>,
                   if present then es else rest))"

definition image_field_matches :: "'v field_value \<Rightarrow> 'v option \<Rightarrow> bool" where
  "image_field_matches f v =
     (case fv_state f of
        EXPLICIT_NULL \<Rightarrow> v = None
      | VALUE \<Rightarrow> fv_value f = v
      | _ \<Rightarrow> False)"

definition patch_matches :: "'v row_patch \<Rightarrow> 'v image \<Rightarrow> bool" where
  "patch_matches p img = list_all (\<lambda>(c, v). image_field_matches (patch_field p c) v) img"

fun entry_matches :: "('k, 'v) probe option \<Rightarrow> 'k \<Rightarrow> 'v image \<Rightarrow> ('k, 'v) entry \<Rightarrow> bool" where
  "entry_matches pr k img START =
     (case pr of
        None \<Rightarrow> False
      | Some p \<Rightarrow> (case pb_start_matches p k img of None \<Rightarrow> False | Some b \<Rightarrow> b))"
| "entry_matches pr k img (Row p) = patch_matches p img"
| "entry_matches pr k img (Move src tgt p) = patch_matches p img"

text \<open>\<open>_target_entry\<close>: the entry a before-image describes. \<open>None\<close> is "collapse the key". Of several
  byte-identical matches \<open>START\<close> is preferred.\<close>

definition pick_match :: "('k, 'v) entry list \<Rightarrow> nat list \<Rightarrow> nat option" where
  "pick_match es matched =
     (case matched of
        [] \<Rightarrow> None
      | [i] \<Rightarrow> Some i
      | i # _ \<Rightarrow>
          (case filter (\<lambda>j. is_start (es ! j)) matched of j # _ \<Rightarrow> Some j | [] \<Rightarrow> Some i))"

definition attribute ::
  "('k, 'v) probe option \<Rightarrow> 'k \<Rightarrow> ('k, 'v) entry list \<Rightarrow> 'v image \<Rightarrow> bool \<Rightarrow> tw_error + nat option" where
  "attribute pr k es img vnull =
     (if es = [] then Inr None
      else if length es = 1 then Inr (Some 0)
      else if vnull \<and> concrete es \<ge> 1 then Inl AmbiguousDelete
      else if img = [] then (if concrete es \<le> 1 then Inr None else Inl AmbiguousDelete)
      else case pick_match es (filter (\<lambda>i. entry_matches pr k img (es ! i)) [0..<length es]) of
             None \<Rightarrow> Inl AmbiguousDelete
           | Some i \<Rightarrow> Inr (Some i))"

definition target_entry ::
  "('k, 'v) probe option \<Rightarrow> ('k, 'v) table_work \<Rightarrow> 'k \<Rightarrow> ('k, 'v) entry list \<Rightarrow> 'v image \<Rightarrow> bool \<Rightarrow>
   tw_error + ('k, 'v) table_work \<times> ('k, 'v) entry list \<times> nat option" where
  "target_entry pr w k es0 img vnull =
     (let (w1, es) = (if length es0 > 1 then resolve_start pr w k es0 else (w, es0))
      in rbind (attribute pr k es img vnull) (\<lambda>index. Inr (w1, es, index)))"

section \<open>The operations\<close>

definition place ::
  "('k, 'v) table_work \<Rightarrow> 'k \<Rightarrow> ('k, 'v) entry \<Rightarrow> ('k, 'v) table_work" where
  "place w k e =
     (let w1 = w\<lparr>tw_deleted_keys := removeAll k (tw_deleted_keys w)\<rparr>;
          es = entries_at w1 k @ [e]
      in track (set_entries w1 k es) k es)"

definition resolve_lone_start ::
  "('k, 'v) probe option \<Rightarrow> ('k, 'v) table_work \<Rightarrow> 'k \<Rightarrow> ('k, 'v) table_work \<times> ('k, 'v) entry list" where
  \<comment> \<open>\<open>if entries == [START]: _resolve_start(...)\<close>\<close>
  "resolve_lone_start pr w k =
     (case entries_at w k of
        [START] \<Rightarrow> resolve_start pr w k [START]
      | es \<Rightarrow> (w, es))"

definition remove_row ::
  "('k, 'v) probe option \<Rightarrow> ('k, 'v) table_work \<Rightarrow> 'k \<Rightarrow> 'v image \<Rightarrow> bool \<Rightarrow>
   tw_error + ('k, 'v) table_work \<times> ('k, 'v) entry option" where
  "remove_row pr w k img vnull =
     (let (w1, es1) = resolve_lone_start pr w k in
      rbind (target_entry pr w1 k es1 img vnull) (\<lambda>(w2, es2, index).
        let (es3, removed) = (case index of
              None \<Rightarrow> ([], None)
            | Some i \<Rightarrow> (take i es2 @ drop (Suc i) es2, Some (es2 ! i)));
            w3 = set_entries w2 k es3;
            w4 = (if es3 = [] then w3\<lparr>tw_deleted_keys := List.insert k (tw_deleted_keys w3)\<rparr> else w3)
        in Inr (track w4 k es3, removed)))"

definition all_bindable :: "'v row_patch \<Rightarrow> bool" where
  "all_bindable p \<longleftrightarrow> rp_fields p \<noteq> [] \<and> list_all (\<lambda>(c, f). bindable f) (rp_fields p)"

fun patch_entry :: "'v row_patch \<Rightarrow> ('k, 'v) entry \<Rightarrow> ('k, 'v) entry" where
  \<comment> \<open>an UPDATE of one entry\<close>
  "patch_entry p START = Row p"
| "patch_entry p (Row q) = Row (compose q p)"
| "patch_entry p (Move src tgt q) = Move src tgt (compose q p)"

definition update_row ::
  "('k, 'v) probe option \<Rightarrow> ('k, 'v) table_work \<Rightarrow> 'k \<Rightarrow> 'v row_patch \<Rightarrow> 'v image \<Rightarrow> bool \<Rightarrow>
   tw_error + ('k, 'v) table_work" where
  "update_row pr w k p img vnull =
     (if k \<in> set (tw_deleted_keys w) then Inl ToastBaseMissing
      else
        let (w1, es1) = resolve_lone_start pr w k in
        if es1 = [] then
          (if tw_incremental w1 \<and> (rp_complete p \<or> all_bindable p)
           then Inr (place (set_entries w1 k es1) k
                       (Row (if all_bindable p \<and> \<not> rp_complete p then p\<lparr>rp_complete := True\<rparr> else p)))
           else Inl ToastBaseMissing)
        else
          rbind (target_entry pr w1 k es1 img vnull) (\<lambda>(w2, es2, index).
            let es3 = (case index of None \<Rightarrow> [Row p] | Some i \<Rightarrow> es2[i := patch_entry p (es2 ! i)])
            in Inr (track (set_entries w2 k es3) k es3)))"

definition truncate_table :: "('k, 'v) table_work \<Rightarrow> ('k, 'v) table_work" where
  "truncate_table w =
     w\<lparr>tw_truncated := True, tw_truncates := Suc (tw_truncates w), tw_events := Suc (tw_events w),
       tw_truncate_marks := tw_truncate_marks w @ [sum_list (map (concrete \<circ> snd) (tw_live w))],
       tw_live := [], tw_multi := [], tw_start_present := [], tw_deleted_keys := []\<rparr>"

definition end_transaction :: "('k, 'v) table_work \<Rightarrow> tw_error + unit" where
  "end_transaction w = raise_if (tw_multi w \<noteq> []) AmbiguousDelete"

text \<open>The branches of \<open>collect\<close> for a keyed table, after the columns and the key token are known.\<close>

definition collect_incremental ::
  "('k, 'v) probe option \<Rightarrow> ('k, 'v) table_work \<Rightarrow> ('k, 'v) fold_event \<Rightarrow> ('k, 'v) table_work" where
  "collect_incremental pr w ev =
     (let k = fe_key ev; (w1, es) = resolve_lone_start pr w k; w2 = set_entries w1 k es in
      if k \<in> set (tw_cdc_keys w2) \<or> k \<in> set (tw_deleted_keys w2) \<or> k \<in> set (tw_incremental_keys w2) then w2
      else if es \<noteq> [] then w2
      else place (w2\<lparr>tw_incremental_keys := List.insert k (tw_incremental_keys w2)\<rparr>) k (Row (fe_patch ev)))"

definition collect_delete ::
  "('k, 'v) probe option \<Rightarrow> ('k, 'v) table_work \<Rightarrow> ('k, 'v) fold_event \<Rightarrow> tw_error + ('k, 'v) table_work" where
  "collect_delete pr w ev =
     (let k = fe_before_key ev in
      rbind (remove_row pr w k (fe_image ev) (fe_variant_null ev)) (\<lambda>(w1, _).
        let w2 = (if tw_delete_mode w1 = ''soft''
                  then w1\<lparr>tw_soft_deletes := AList.update k (fe_event_id ev) (tw_soft_deletes w1)\<rparr> else w1)
        in Inr (w2\<lparr>tw_delete_effects := AList.update (fe_event_id ev) k (tw_delete_effects w2)\<rparr>)))"

definition collect_move ::
  "('k, 'v) probe option \<Rightarrow> ('k, 'v) table_work \<Rightarrow> ('k, 'v) fold_event \<Rightarrow> tw_error + ('k, 'v) table_work" where
  "collect_move pr w ev =
     (let old = fe_before_key ev; k = fe_key ev; p = fe_patch ev in
      rbind (remove_row pr w old (fe_image ev) (fe_variant_null ev)) (\<lambda>(w1, removed).
        let w2 = w1\<lparr>tw_cdc_keys := List.insert old (tw_cdc_keys w1)\<rparr>
        in Inr (place w2 k (case removed of
                  Some (Move src tgt q) \<Rightarrow> Move src k (compose q p)
                | Some (Row q) \<Rightarrow> Row (compose q p)
                | _ \<Rightarrow> Move old k p))))"

definition collect ::
  "('k, 'v) probe option \<Rightarrow> ('k, 'v) table_work \<Rightarrow> ('k, 'v) fold_event \<Rightarrow> tw_error + ('k, 'v) table_work" where
  "collect pr w0 ev =
     (if fe_op ev = ''t'' then Inr (truncate_table w0)
      else
        let w = w0\<lparr>tw_events := Suc (tw_events w0)\<rparr> in
        if has_marker (fe_patch ev) \<and> fe_op ev \<in> {''c'', ''r''} then Inl ToastBaseMissing
        else if fe_incremental ev then Inr (collect_incremental pr w ev)
        else
          let w1 = w\<lparr>tw_cdc_keys := List.insert (fe_key ev) (tw_cdc_keys w)\<rparr> in
          if fe_op ev = ''d'' then collect_delete pr w1 ev
          else if fe_op ev = ''u'' then
            (if fe_before_has_key ev \<and> fe_before_key ev \<noteq> fe_key ev then collect_move pr w1 ev
             else update_row pr w1 (fe_key ev) (fe_patch ev) (fe_image ev) (fe_variant_null ev))
          else Inr (place w1 (fe_key ev) (Row (fe_patch ev))))"

section \<open>Reading the plan\<close>

record ('k, 'v) table_plan =
  tp_delete_keys :: "'k list"
  tp_rows :: "('k \<times> 'v row_patch) list"
  tp_partial_updates :: "('k \<times> 'v row_patch) list"
  tp_moves :: "('k \<times> 'k \<times> 'v row_patch) list"
  tp_soft_replacements :: "('k, 'v row_patch) dict"

definition empty_plan :: "('k, 'v) table_plan" where
  "empty_plan = \<lparr>tp_delete_keys = [], tp_rows = [], tp_partial_updates = [], tp_moves = [],
     tp_soft_replacements = []\<rparr>"

fun plan_entry ::
  "('k, string) dict \<Rightarrow> 'k \<Rightarrow> ('k, 'v) table_plan \<Rightarrow> ('k, 'v) entry \<Rightarrow> ('k, 'v) table_plan" where
  \<comment> \<open>one concrete entry; \<open>START\<close> entries are skipped\<close>
  "plan_entry soft k pl START = pl"
| "plan_entry soft k pl (Row p) =
     (if dict_has soft k then pl\<lparr>tp_soft_replacements := AList.update k p (tp_soft_replacements pl)\<rparr>
      else if \<not> rp_complete p then pl\<lparr>tp_partial_updates := tp_partial_updates pl @ [(k, p)]\<rparr>
      else pl\<lparr>tp_delete_keys := tp_delete_keys pl @ [k], tp_rows := tp_rows pl @ [(k, p)]\<rparr>)"
| "plan_entry soft k pl (Move src tgt p) =
     (if dict_has soft k then pl\<lparr>tp_soft_replacements := AList.update k p (tp_soft_replacements pl)\<rparr>
      else pl\<lparr>tp_moves := tp_moves pl @ [(src, tgt, p)]\<rparr>)"

definition plan_key ::
  "('k, string) dict \<Rightarrow> ('k, 'v) table_plan \<Rightarrow> 'k \<times> ('k, 'v) entry list \<Rightarrow>
   tw_error + ('k, 'v) table_plan" where
  "plan_key soft pl kes =
     (case kes of (k, es) \<Rightarrow>
        if es = [] then
          Inr (if dict_has soft k then pl else pl\<lparr>tp_delete_keys := tp_delete_keys pl @ [k]\<rparr>)
        else if length (filter (\<lambda>e. \<not> is_start e) es) > 1 then Inl AmbiguousDelete
        else Inr (foldl (plan_entry soft k) pl es))"

definition plan :: "('k, 'v) table_work \<Rightarrow> tw_error + ('k, 'v) table_plan" where
  "plan w =
     rbind (rfold (plan_key (tw_soft_deletes w)) empty_plan (tw_live w)) (\<lambda>pl.
       Inr (pl\<lparr>tp_delete_keys :=
                 filter (\<lambda>k. k \<notin> fst ` set (tp_moves pl)) (tp_delete_keys pl)\<rparr>))"

section \<open>Writing the plan\<close>

type_synonym ('k, 'v) destination = "'k \<Rightarrow> 'v row option"

definition delete_keys :: "'k list \<Rightarrow> ('k, 'v) destination \<Rightarrow> ('k, 'v) destination" where
  "delete_keys ks D = (\<lambda>k. if k \<in> set ks then None else D k)"

definition update_one ::
  "('k, 'v) destination \<Rightarrow> 'k \<times> 'v row_patch \<Rightarrow> tw_error + ('k, 'v) destination" where
  \<comment> \<open>a sparse update that matches no base row, or assigns nothing, fails the count of affected rows\<close>
  "update_one D kp =
     (case kp of (k, p) \<Rightarrow>
        case D k of
          None \<Rightarrow> Inl ToastBaseMissing
        | Some row \<Rightarrow> if bindable_values p = [] then Inl ToastBaseMissing
                      else Inr (D(k := Some (apply_patch p row))))"

definition insert_rows ::
  "('k \<times> 'v row_patch) list \<Rightarrow> ('k, 'v) destination \<Rightarrow> ('k, 'v) destination" where
  "insert_rows rs D = fold (\<lambda>(k, p) D. D(k := Some (apply_patch p Map.empty))) rs D"

text \<open>\<open>_write_table\<close> of a keyed, hard-deleting table whose plan has no key moves, on the committed
  destination rows.\<close>

definition write_table ::
  "('k, 'v) table_work \<Rightarrow> ('k, 'v) destination \<Rightarrow> tw_error + ('k, 'v) destination" where
  "write_table w D =
     rbind (plan w) (\<lambda>pl.
       let D1 = (if tw_truncated w then (\<lambda>_. None) else delete_keys (tp_delete_keys pl) D) in
       rbind (rfold update_one D1 (tp_partial_updates pl)) (\<lambda>D2.
         Inr (insert_rows (tp_rows pl) D2)))"

end
