(* ===== verification/Table_Refinement.thy ===== *)
theory Table_Refinement
  imports Table_Work "HOL-Library.Multiset"
begin

text \<open>
  What the fold of \<open>Table_Work\<close> promises, and that it keeps the promise.

  The specification is the source table itself: \<open>A k\<close> is the multiset of the physical rows that
  wear key \<open>k\<close> in the source, and \<open>source_step\<close> is what one INSERT, UPDATE, DELETE or TRUNCATE of
  the source does to it. The simulation \<open>sim D A w\<close> relates a source table to the fold \<open>w\<close> over a
  destination \<open>D\<close>: the entries under each key, read over \<open>D\<close>, are the rows under that key.
\<close>

section \<open>The source table\<close>

type_synonym ('k, 'v) source = "'k \<Rightarrow> 'v row multiset"

definition row_matches :: "'v image \<Rightarrow> 'v row \<Rightarrow> bool" where
  "row_matches img r \<longleftrightarrow> (\<forall>(c, v) \<in> set img. r c = Some v)"

text \<open>The before-image describes the affected row, and where several rows wear the key it is not
  empty and no other row matches it.\<close>

definition decides :: "'v row multiset \<Rightarrow> 'v image \<Rightarrow> 'v row \<Rightarrow> bool" where
  "decides M img r \<longleftrightarrow> r \<in># M \<and>
     (size M \<le> 1 \<or> img \<noteq> [] \<and> (\<forall>r' \<in># M. row_matches img r' \<longrightarrow> r' = r))"

inductive source_step :: "('k, 'v) source \<Rightarrow> ('k, 'v) fold_event \<Rightarrow> ('k, 'v) source \<Rightarrow> bool" where
  src_insert: "\<lbrakk>fe_op ev = ''c'' \<or> fe_op ev = ''r''; \<not> fe_incremental ev;
     wf_patch (fe_patch ev); rp_complete (fe_patch ev); \<not> has_marker (fe_patch ev)\<rbrakk> \<Longrightarrow>
   source_step A ev (A(fe_key ev := add_mset (apply_patch (fe_patch ev) Map.empty) (A (fe_key ev))))"
| src_update: "\<lbrakk>fe_op ev = ''u''; \<not> fe_incremental ev;
     \<not> fe_before_has_key ev \<or> fe_before_key ev = fe_key ev;
     wf_patch (fe_patch ev); \<not> rp_complete (fe_patch ev); bindable_values (fe_patch ev) \<noteq> [];
     decides (A (fe_key ev)) (fe_image ev) r\<rbrakk> \<Longrightarrow>
   source_step A ev
     (A(fe_key ev := add_mset (apply_patch (fe_patch ev) r) (A (fe_key ev) - {#r#})))"
| src_delete: "\<lbrakk>fe_op ev = ''d''; \<not> fe_incremental ev;
     decides (A (fe_before_key ev)) (fe_image ev) r\<rbrakk> \<Longrightarrow>
   source_step A ev (A(fe_before_key ev := A (fe_before_key ev) - {#r#}))"
| src_truncate: "fe_op ev = ''t'' \<Longrightarrow> source_step A ev (\<lambda>_. {#})"

inductive source_run ::
  "(('k, 'v) source \<Rightarrow> bool) \<Rightarrow> ('k, 'v) source \<Rightarrow> ('k, 'v) fold_event list \<Rightarrow> ('k, 'v) source \<Rightarrow> bool"
  for P where
  \<comment> \<open>a run whose states, the first apart, satisfy \<open>P\<close>\<close>
  run_Nil: "source_run P A [] A"
| run_Cons: "\<lbrakk>source_step A ev B; P B; source_run P B evs C\<rbrakk> \<Longrightarrow> source_run P A (ev # evs) C"

inductive_cases source_stepE: "source_step A ev B"
inductive_cases source_run_NilE: "source_run P A [] B"
inductive_cases source_run_ConsE: "source_run P A (ev # evs) B"

definition unique_keys :: "('k, 'v) source \<Rightarrow> bool" where
  "unique_keys A \<longleftrightarrow> (\<forall>k. size (A k) \<le> 1)"

definition source_of :: "('k, 'v) destination \<Rightarrow> ('k, 'v) source" where
  "source_of D = (\<lambda>k. case D k of None \<Rightarrow> {#} | Some r \<Rightarrow> {#r#})"

text \<open>The probe tells the truth about the destination.\<close>

definition probe_agrees :: "('k, 'v) destination \<Rightarrow> ('k, 'v) probe \<Rightarrow> bool" where
  "probe_agrees D p \<longleftrightarrow> (\<forall>k. pb_start_exists p k = (D k \<noteq> None)) \<and>
     (\<forall>k img r. D k = Some r \<longrightarrow> pb_start_matches p k img = Some (row_matches img r))"

section \<open>The simulation\<close>

fun content :: "('k, 'v) destination \<Rightarrow> 'k \<Rightarrow> ('k, 'v) entry \<Rightarrow> 'v row list" where
  "content D k START = (case D k of None \<Rightarrow> [] | Some r \<Rightarrow> [r])"
| "content D k (Row p) =
     [apply_patch p (if rp_complete p then Map.empty else the (D k))]"
| "content D k (Move s t p) = []"

definition contents :: "('k, 'v) destination \<Rightarrow> 'k \<Rightarrow> ('k, 'v) entry list \<Rightarrow> 'v row multiset" where
  "contents D k es = mset (concat (map (content D k) es))"

fun entry_ok :: "('k, 'v) destination \<Rightarrow> bool \<Rightarrow> 'k \<Rightarrow> ('k, 'v) entry \<Rightarrow> bool" where
  "entry_ok D trunc k START = (\<not> trunc)"
| "entry_ok D trunc k (Row p) =
     (wf_patch p \<and> (\<not> rp_complete p \<longrightarrow> D k \<noteq> None \<and> \<not> trunc \<and> bindable_values p \<noteq> []))"
| "entry_ok D trunc k (Move s t p) = False"

definition es_ok :: "('k, 'v) destination \<Rightarrow> bool \<Rightarrow> 'k \<Rightarrow> ('k, 'v) entry list \<Rightarrow> bool" where
  "es_ok D trunc k es \<longleftrightarrow> list_all (entry_ok D trunc k) es \<and> START \<notin> set (tl es)"

definition fold_inv :: "('k, 'v) destination \<Rightarrow> ('k, 'v) table_work \<Rightarrow> bool" where
  "fold_inv D w \<longleftrightarrow>
     distinct (map fst (tw_live w)) \<and>
     (\<forall>k. es_ok D (tw_truncated w) k (entries_at w k)) \<and>
     (\<forall>k b. map_of (tw_start_present w) k = Some b \<longrightarrow> b = (D k \<noteq> None)) \<and>
     (\<forall>k \<in> set (tw_deleted_keys w). entries_at w k = []) \<and>
     (\<forall>k \<in> set (tw_multi w). concrete (entries_at w k) > 1) \<and>
     tw_delete_mode w \<noteq> ''soft'' \<and> tw_soft_deletes w = []"

definition sim :: "('k, 'v) destination \<Rightarrow> ('k, 'v) source \<Rightarrow> ('k, 'v) table_work \<Rightarrow> bool" where
  "sim D A w \<longleftrightarrow> fold_inv D w \<and> (\<forall>k. contents D k (entries_at w k) = A k)"

subsection \<open>Entries\<close>

lemma contents_simps [simp]:
  "contents D k [] = {#}"
  "contents D k (e # es) = mset (content D k e) + contents D k es"
  "contents D k (es @ fs) = contents D k es + contents D k fs"
  by (simp_all add: contents_def)

lemma is_start_iff [simp]: "is_start e \<longleftrightarrow> e = START"
  by (cases e) simp_all

lemma entries_at_set [simp]:
  "entries_at (set_entries w k es) k' = (if k' = k then es else entries_at w k')"
  by (simp add: entries_at_def set_entries_def update_conv')

lemma entries_at_track [simp]: "entries_at (track w k es) = entries_at w"
  by (simp add: entries_at_def track_def fun_eq_iff)

lemma entries_at_cong:
  assumes "tw_live w' = tw_live w" and "tw_truncated w' = tw_truncated w"
  shows "entries_at w' = entries_at w"
  using assms by (simp add: entries_at_def fun_eq_iff)

lemma concrete_le_size:
  assumes "es_ok D t k es"
  shows "concrete es \<le> size (contents D k es)"
proof -
  have *: "length es \<le> size (contents D k es)" if "list_all (entry_ok D t k) es" "START \<notin> set es"
    for es :: "('a, 'b) entry list"
    using that
  proof (induction es)
    case (Cons e es)
    then show ?case by (cases e) auto
  qed simp
  show ?thesis
  proof (cases es)
    case (Cons e es')
    have "list_all (entry_ok D t k) es'" "START \<notin> set es'"
      using assms Cons by (auto simp: es_ok_def)
    from * [OF this] Cons assms show ?thesis by (cases e) (auto simp: concrete_def es_ok_def)
  qed (simp add: concrete_def)
qed

subsection \<open>Probing and attribution\<close>

text \<open>Two folds that differ in what the destination was asked, and agree in the rest.\<close>

definition same_rows :: "('k, 'v) table_work \<Rightarrow> ('k, 'v) table_work \<Rightarrow> bool" where
  "same_rows w w' \<longleftrightarrow> (\<exists>sp. w' = w\<lparr>tw_start_present := sp\<rparr>)"

lemma same_rows_refl [simp]: "same_rows w w"
  unfolding same_rows_def by (rule exI [of _ "tw_start_present w"]) simp

lemma same_rows_trans: "same_rows w v \<Longrightarrow> same_rows v u \<Longrightarrow> same_rows w u"
  unfolding same_rows_def by auto

lemma same_rows_frame:
  assumes "same_rows w w'"
  shows "tw_live w' = tw_live w" "tw_truncated w' = tw_truncated w"
    "tw_deleted_keys w' = tw_deleted_keys w" "tw_multi w' = tw_multi w"
    "tw_delete_mode w' = tw_delete_mode w" "tw_soft_deletes w' = tw_soft_deletes w"
    "tw_incremental w' = tw_incremental w" "entries_at w' = entries_at w"
  using assms by (auto simp: same_rows_def entries_at_def fun_eq_iff)

definition known_ok :: "('k, 'v) destination \<Rightarrow> ('k, 'v) table_work \<Rightarrow> bool" where
  "known_ok D w \<longleftrightarrow> (\<forall>k b. map_of (tw_start_present w) k = Some b \<longrightarrow> b = (D k \<noteq> None))"

lemma resolve_start_spec:
  assumes "resolve_start (Some p) w k es = (w', es')" and "probe_agrees D p" and "known_ok D w"
    and "es_ok D (tw_truncated w) k es"
  shows "same_rows w w' \<and> known_ok D w' \<and> es_ok D (tw_truncated w) k es' \<and>
    contents D k es' = contents D k es \<and> (START \<in> set es' \<longrightarrow> D k \<noteq> None) \<and> length es' \<le> length es"
proof (cases "\<exists>rest. es = START # rest")
  case True
  then obtain rest where es: "es = START # rest" by blast
  have nt: "\<not> tw_truncated w" using assms(4) es by (simp add: es_ok_def)
  have "start_known (Some p) w k = (D k \<noteq> None)"
    using assms(2,3) by (auto simp: start_known_def known_ok_def probe_agrees_def split: option.split)
  with assms(1) es nt have
    w': "w' = w\<lparr>tw_start_present := AList.update k (D k \<noteq> None) (tw_start_present w)\<rparr>" and
    es': "es' = (if D k \<noteq> None then es else rest)"
    by (auto simp: resolve_start_def Let_def)
  have "same_rows w w'" using w' by (auto simp: same_rows_def)
  moreover have "known_ok D w'" using assms(3) w' by (auto simp: known_ok_def update_conv')
  moreover have "es_ok D (tw_truncated w) k es'"
    using assms(4) es es' by (cases rest) (auto simp: es_ok_def)
  moreover have "contents D k es' = contents D k es" using es es' by auto
  moreover have "START \<in> set es' \<longrightarrow> D k \<noteq> None"
    using es' es assms(4) by (auto simp: es_ok_def)
  moreover have "length es' \<le> length es" using es es' by simp
  ultimately show ?thesis by blast
next
  case False
  then have "w' = w" "es' = es"
    using assms(1) by (auto simp: resolve_start_def split: list.splits)
  moreover have "START \<notin> set es" using False assms(4) by (cases es) (auto simp: es_ok_def)
  ultimately show ?thesis using assms by simp
qed

lemma resolve_lone_start_spec:
  assumes "resolve_lone_start (Some p) w k = (w', es')" and "probe_agrees D p" and "known_ok D w"
    and "es_ok D (tw_truncated w) k (entries_at w k)"
  shows "same_rows w w' \<and> known_ok D w' \<and> es_ok D (tw_truncated w) k es' \<and>
    contents D k es' = contents D k (entries_at w k) \<and>
    (es' = [START] \<longrightarrow> D k \<noteq> None)"
proof (cases "entries_at w k = [START]")
  case True
  with assms(1) have "resolve_start (Some p) w k [START] = (w', es')"
    by (simp add: resolve_lone_start_def)
  from resolve_start_spec [OF this assms(2,3)] assms(4) True show ?thesis by auto
next
  case False
  then have "w' = w" "es' = entries_at w k"
    using assms(1) by (auto simp: resolve_lone_start_def split: list.splits entry.splits)
  with assms False show ?thesis by simp
qed

lemma patch_matches_row:
  assumes "wf_patch p" and "patch_matches p img"
  shows "row_matches img (apply_patch p r)"
  unfolding row_matches_def
proof (clarify)
  fix c v assume "(c, v) \<in> set img"
  with assms(2) have m: "image_field_matches (patch_field p c) v"
    by (auto simp: patch_matches_def list_all_iff)
  show "apply_patch p r c = Some v"
  proof (cases "map_of (rp_fields p) c")
    case None
    then show ?thesis
      using m by (simp add: patch_field_def dict_get_def image_field_matches_def absent_field_def)
  next
    case (Some f)
    then have "(c, f) \<in> set (rp_fields p)" by (rule map_of_SomeD)
    then have "fv_state f = EXPLICIT_NULL \<Longrightarrow> fv_value f = None"
      using assms(1) by (auto simp: wf_patch_def list_all_iff)
    with Some m show ?thesis
      by (auto simp: patch_field_def dict_get_def image_field_matches_def apply_patch_def
          apply_fields_def bindable_def split: field_state.splits)
  qed
qed

lemma entry_matches_row:
  assumes "entry_matches (Some p) k img e" and "probe_agrees D p" and "entry_ok D t k e"
    and "e = START \<longrightarrow> D k \<noteq> None"
  shows "\<exists>r. content D k e = [r] \<and> row_matches img r"
proof (cases e)
  case START
  then obtain r where "D k = Some r" using assms(4) by auto
  with START assms(1,2) show ?thesis by (simp add: probe_agrees_def)
next
  case (Row q)
  with assms patch_matches_row [of q img] show ?thesis by auto
next
  case (Move s t q)
  with assms(3) show ?thesis by simp
qed

lemma contents_nth:
  assumes "i < length es"
  shows "contents D k es =
    mset (content D k (es ! i)) + contents D k (take i es @ drop (Suc i) es)"
proof -
  have "contents D k (take i es @ es ! i # drop (Suc i) es) =
      mset (content D k (es ! i)) + contents D k (take i es @ drop (Suc i) es)"
    by simp
  with assms show ?thesis by (simp only: id_take_nth_drop [symmetric])
qed

lemma content_sub:
  assumes "i < length es" and "content D k (es ! i) = [r]"
  shows "r \<in># contents D k es"
  using contents_nth [OF assms(1), of D k] assms(2) by simp

lemma size_contents:
  assumes "list_all (entry_ok D t k) es" and "START \<in> set es \<longrightarrow> D k \<noteq> None"
  shows "size (contents D k es) = length es"
  using assms
proof (induction es)
  case (Cons e es)
  then show ?case by (cases e; cases "D k") auto
qed simp

lemma pick_match_in:
  assumes "pick_match es ms = Some i"
  shows "i \<in> set ms"
proof -
  have *: "hd (filter P xs) \<in> set xs" if "filter P xs \<noteq> []" for P and xs :: "nat list"
    using hd_in_set [OF that] by simp
  show ?thesis
    using assms * [of "\<lambda>j. is_start (es ! j)" ms]
    by (auto simp: pick_match_def simp del: filter.simps split: list.splits)
qed

text \<open>The attribution of a before-image: the entry it picks holds the row it describes.\<close>

lemma target_entry_spec:
  assumes "target_entry (Some p) w k es0 img vn = Inr (w', es, idx)"
    and "probe_agrees D p" and "known_ok D w" and "es_ok D (tw_truncated w) k es0"
    and "decides (contents D k es0) img r"
  shows "same_rows w w' \<and> known_ok D w' \<and> es_ok D (tw_truncated w) k es \<and>
    contents D k es = contents D k es0 \<and>
    (\<exists>i. idx = Some i \<and> i < length es \<and> content D k (es ! i) = [r])"
proof -
  obtain w1 es1 where r1: "(if length es0 > 1 then resolve_start (Some p) w k es0 else (w, es0)) = (w1, es1)"
    by fastforce
  have s1: "same_rows w w1 \<and> known_ok D w1 \<and> es_ok D (tw_truncated w) k es1 \<and>
      contents D k es1 = contents D k es0 \<and> (length es1 > 1 \<longrightarrow> START \<in> set es1 \<longrightarrow> D k \<noteq> None)"
    using resolve_start_spec [OF _ assms(2-4), of w1 es1] r1 assms(3,4) by (auto split: if_splits)
  have rin: "r \<in># contents D k es1" using s1 assms(5) by (simp add: decides_def)
  have ne: "es1 \<noteq> []" using rin by auto
  have out: "w' = w1" "es = es1" and at: "attribute (Some p) k es1 img vn = Inr idx"
    using assms(1) unfolding target_entry_def r1 by (auto simp: rbind_eq_Inr)
  have "\<exists>i. idx = Some i \<and> i < length es1 \<and> content D k (es1 ! i) = [r]"
  proof (cases "length es1 = 1")
    case True
    then obtain e where e: "es1 = [e]" by (cases es1) auto
    have "idx = Some 0" using at e by (simp add: attribute_def)
    moreover have "content D k e = [r]"
      using rin e by (cases e; cases "D k") auto
    ultimately show ?thesis using e by simp
  next
    case False
    then have len: "length es1 > 1" using ne by (cases es1) auto
    have two: "size (contents D k es1) > 1"
      using size_contents [of D "tw_truncated w" k es1] s1 len by (simp add: es_ok_def)
    have d: "img \<noteq> []" "\<And>r'. r' \<in># contents D k es1 \<Longrightarrow> row_matches img r' \<Longrightarrow> r' = r"
      using assms(5) two s1 by (auto simp: decides_def)
    obtain i where i: "idx = Some i" "i < length es1" "entry_matches (Some p) k img (es1 ! i)"
    proof -
      from at len d(1) obtain i where
        "pick_match es1 (filter (\<lambda>i. entry_matches (Some p) k img (es1 ! i)) [0..<length es1]) = Some i"
        and "idx = Some i"
        unfolding attribute_def by (simp split: if_splits option.splits)
      with pick_match_in [OF this(1)] that show ?thesis by simp
    qed
    have "entry_ok D (tw_truncated w) k (es1 ! i)"
      using s1 i(2) by (auto simp: es_ok_def list_all_length)
    moreover have "es1 ! i = START \<longrightarrow> D k \<noteq> None" using s1 len i(2) by (metis nth_mem)
    ultimately obtain r' where r': "content D k (es1 ! i) = [r']" "row_matches img r'"
      using entry_matches_row [OF i(3) assms(2)] by blast
    with d(2) content_sub [OF i(2) r'(1)] have "r' = r" by blast
    with i r' show ?thesis by blast
  qed
  with s1 out show ?thesis by blast
qed


subsection \<open>Every operation keeps the simulation\<close>

lemma concrete_track:
  assumes "\<forall>k \<in> set (tw_multi w). k = k0 \<or> concrete (entries_at w k) > 1" and "entries_at w k0 = es"
  shows "\<forall>k \<in> set (tw_multi (track w k0 es)). concrete (entries_at w k) > 1"
  using assms by (auto simp: track_def set_insert)

text \<open>Rewriting the entries of one key.\<close>

lemma sim_write:
  assumes "sim D A w0" and "tw_live w = tw_live w0" and "tw_truncated w = tw_truncated w0"
    and "tw_multi w = tw_multi w0" and "tw_delete_mode w = tw_delete_mode w0"
    and "tw_soft_deletes w = tw_soft_deletes w0" and "known_ok D w"
    and "set (tw_deleted_keys w) \<subseteq> insert k (set (tw_deleted_keys w0))"
    and "k \<in> set (tw_deleted_keys w) \<longrightarrow> es = []"
    and "es_ok D (tw_truncated w) k es" and "contents D k es = M"
  shows "sim D (A(k := M)) (track (set_entries w k es) k es)"
proof -
  let ?w = "set_entries w k es" and ?w' = "track (set_entries w k es) k es"
  have same: "entries_at w = entries_at w0" using assms(2,3) by (rule entries_at_cong)
  have tr: "tw_live ?w' = AList.update k es (tw_live w0)" "tw_truncated ?w' = tw_truncated w0"
    "tw_start_present ?w' = tw_start_present w" "tw_deleted_keys ?w' = tw_deleted_keys w"
    "tw_delete_mode ?w' = tw_delete_mode w0" "tw_soft_deletes ?w' = tw_soft_deletes w0"
    using assms(2-6) by (simp_all add: track_def set_entries_def)
  have m: "tw_multi ?w = tw_multi w0" using assms(4) by (simp add: set_entries_def)
  have inv: "fold_inv D w0" using assms(1) by (simp add: sim_def)
  have "\<forall>j \<in> set (tw_multi ?w'). concrete (entries_at ?w j) > 1"
    by (rule concrete_track) (use inv m same in \<open>auto simp: fold_inv_def\<close>)
  moreover have "\<forall>j. es_ok D (tw_truncated w0) j (entries_at ?w' j)"
    using inv assms(3,10) same by (simp add: fold_inv_def)
  moreover have "\<forall>j \<in> set (tw_deleted_keys w). entries_at ?w' j = []"
    using inv assms(8,9) same by (auto simp: fold_inv_def)
  moreover have "\<forall>j b. map_of (tw_start_present w) j = Some b \<longrightarrow> b = (D j \<noteq> None)"
    using assms(7) by (simp add: known_ok_def)
  moreover have "distinct (map fst (AList.update k es (tw_live w0)))"
    using inv by (simp add: fold_inv_def distinct_update)
  moreover have "tw_delete_mode w0 \<noteq> ''soft''" "tw_soft_deletes w0 = []"
    using inv by (simp_all add: fold_inv_def)
  ultimately have "fold_inv D ?w'" unfolding fold_inv_def tr by simp
  moreover have "\<forall>j. contents D j (entries_at ?w' j) = (A(k := M)) j"
    using assms(1,11) same by (simp add: sim_def)
  ultimately show ?thesis by (simp add: sim_def)
qed

lemma sim_known: "sim D A w \<Longrightarrow> known_ok D w"
  by (simp add: sim_def fold_inv_def known_ok_def)

lemma sim_es_ok: "sim D A w \<Longrightarrow> es_ok D (tw_truncated w) k (entries_at w k)"
  by (simp add: sim_def fold_inv_def)

lemma sim_contents: "sim D A w \<Longrightarrow> contents D k (entries_at w k) = A k"
  by (simp add: sim_def)

lemma sim_deleted: "sim D A w \<Longrightarrow> k \<in> set (tw_deleted_keys w) \<Longrightarrow> entries_at w k = []"
  by (simp add: sim_def fold_inv_def)

lemma es_ok_snoc:
  assumes "es_ok D t k es" and "entry_ok D t k e" and "e \<noteq> START"
  shows "es_ok D t k (es @ [e])"
  using assms by (cases es) (auto simp: es_ok_def)

lemma es_ok_remove:
  assumes "es_ok D t k es"
  shows "es_ok D t k (take i es @ drop (Suc i) es)"
proof -
  have "set (tl (take i es @ drop (Suc i) es)) \<subseteq> set (tl es)"
    by (cases es; cases i; cases "tl es") (auto dest: in_set_takeD in_set_dropD)
  moreover have "set (take i es @ drop (Suc i) es) \<subseteq> set es"
    by (auto dest: in_set_takeD in_set_dropD)
  ultimately show ?thesis using assms by (auto simp: es_ok_def list_all_iff)
qed

lemma es_ok_update:
  assumes "es_ok D t k es" and "entry_ok D t k e" and "e \<noteq> START"
  shows "es_ok D t k (es[i := e])"
proof -
  have "set (es[i := e]) \<subseteq> insert e (set es)" by (rule set_update_subset_insert)
  moreover have "set (tl (es[i := e])) \<subseteq> insert e (set (tl es))"
    by (cases es; cases i) (auto dest: set_update_subset_insert [THEN subsetD])
  ultimately show ?thesis using assms by (auto simp: es_ok_def list_all_iff)
qed

lemma place_sim:
  assumes "sim D A w" and "wf_patch p" and "rp_complete p"
  shows "sim D (A(k := add_mset (apply_patch p Map.empty) (A k))) (place w k (Row p))"
proof -
  let ?w1 = "w\<lparr>tw_deleted_keys := removeAll k (tw_deleted_keys w)\<rparr>"
  have e: "entries_at ?w1 = entries_at w" by (rule entries_at_cong) simp_all
  have "es_ok D (tw_truncated w) k (entries_at w k @ [Row p])"
    using sim_es_ok [OF assms(1)] assms(2,3) by (intro es_ok_snoc) auto
  then have "sim D (A(k := add_mset (apply_patch p Map.empty) (A k)))
      (track (set_entries ?w1 k (entries_at w k @ [Row p])) k (entries_at w k @ [Row p]))"
    using assms sim_known [OF assms(1)] sim_contents [OF assms(1)]
    by (intro sim_write [OF assms(1)]) (auto simp: known_ok_def)
  then show ?thesis by (simp add: place_def Let_def e)
qed


lemma set_entries_deleted:
  "set_entries (w\<lparr>tw_deleted_keys := ks\<rparr>) k es = (set_entries w k es)\<lparr>tw_deleted_keys := ks\<rparr>"
  "tw_deleted_keys (set_entries w k es) = tw_deleted_keys w"
  by (cases w, simp add: set_entries_def)+

lemma remove_row_sim:
  assumes "remove_row (Some p) w k img vn = Inr (w', removed)" and "sim D A w" and "probe_agrees D p"
    and "decides (A k) img r"
  shows "sim D (A(k := A k - {#r#})) w'"
proof -
  obtain w1 es1 where l: "resolve_lone_start (Some p) w k = (w1, es1)" by fastforce
  note s1 = resolve_lone_start_spec [OF l assms(3) sim_known [OF assms(2)] sim_es_ok [OF assms(2)]]
  have "same_rows w w1" using s1 by blast
  note f1 = same_rows_frame [OF this]
  from assms(1) obtain w2 es2 idx where t: "target_entry (Some p) w1 k es1 img vn = Inr (w2, es2, idx)"
    unfolding remove_row_def l by (auto simp: rbind_eq_Inr)
  have "es_ok D (tw_truncated w1) k es1" "decides (contents D k es1) img r"
    using s1 f1 assms(4) sim_contents [OF assms(2)] by simp_all
  from target_entry_spec [OF t assms(3) _ this] s1 obtain i where
    s2: "same_rows w1 w2" "known_ok D w2" "es_ok D (tw_truncated w1) k es2"
      "contents D k es2 = contents D k es1" and
    i: "idx = Some i" "i < length es2" "content D k (es2 ! i) = [r]" by blast
  let ?es = "take i es2 @ drop (Suc i) es2"
  let ?w4 = "if ?es = [] then w2\<lparr>tw_deleted_keys := List.insert k (tw_deleted_keys w2)\<rparr> else w2"
  have "same_rows w w2" using s1 s2(1) same_rows_trans by blast
  note fr = same_rows_frame [OF this]
  have w': "w' = track (set_entries ?w4 k ?es) k ?es"
    using assms(1) unfolding remove_row_def l by (auto simp: t i(1) Let_def set_entries_deleted)
  have c: "contents D k ?es = A k - {#r#}"
    using contents_nth [OF i(2), of D k] i(3) s1 s2(4) sim_contents [OF assms(2)] by simp
  have del: "k \<in> set (tw_deleted_keys w) \<Longrightarrow> False"
    using sim_contents [OF assms(2), of k] sim_deleted [OF assms(2), of k] assms(4)
    by (simp add: decides_def)
  show ?thesis unfolding w'
    by (rule sim_write [OF assms(2) _ _ _ _ _ _ _ _ _ c])
      (use s2(2) fr del es_ok_remove [OF s2(3), of i] f1 in \<open>auto simp: known_ok_def\<close>)
qed

lemma distinct_bindable_values:
  assumes "distinct (map fst (rp_fields p))"
  shows "distinct (map fst (bindable_values p))"
proof -
  have "map fst (bindable_values p) = map fst (filter (\<lambda>(c, f). bindable f) (rp_fields p))"
    by (simp add: bindable_values_def split_def comp_def)
  with assms show ?thesis by (simp add: distinct_map_filter)
qed

lemma patch_entry_ok:
  assumes "entry_ok D t k e" and "wf_patch p" and "\<not> rp_complete p" and "bindable_values p \<noteq> []"
    and "e = START \<longrightarrow> D k \<noteq> None" and "content D k e = [r]"
  shows "entry_ok D t k (patch_entry p e) \<and> patch_entry p e \<noteq> START \<and>
    content D k (patch_entry p e) = [apply_patch p r]"
proof (cases e)
  case START
  with assms show ?thesis by auto
next
  case (Row q)
  have d: "distinct (map fst (rp_fields p))" using assms(2) by (simp add: wf_patch_def)
  have "bindable_values (compose q p) \<noteq> []" if ne: "bindable_values p \<noteq> []"
  proof -
    have "wf_patch q" using assms(1) Row by simp
    then have wfc: "wf_patch (compose q p)" using assms(2) by (rule wf_compose)
    obtain c v where "(c, v) \<in> set (bindable_values p)" using hd_in_set [OF ne]
      by (metis surj_pair)
    moreover have "distinct (map fst (bindable_values p))"
      using d by (rule distinct_bindable_values)
    ultimately have "map_of (bindable_values p) c = Some v" by simp
    then have "apply_patch p Map.empty c = Some v" by (simp add: bindable_values_row [OF d])
    then have "apply_patch p s c = Some v" for s
      by (auto simp: apply_patch_def apply_fields_def split: option.splits if_splits)
    then have "apply_patch (compose q p) Map.empty c = Some v" by (simp add: apply_compose [OF d])
    then have "map_of (bindable_values (compose q p)) c = Some v"
      using bindable_values_row wfc by (metis wf_patch_def)
    then show ?thesis by auto
  qed
  with assms Row show ?thesis by (auto simp: wf_compose apply_compose [OF d])
next
  case (Move s t' q)
  with assms show ?thesis by simp
qed


lemma update_row_sim:
  assumes "update_row (Some p) w k q img vn = Inr w'" and "sim D A w" and "probe_agrees D p"
    and "decides (A k) img r" and "wf_patch q" and "\<not> rp_complete q" and "bindable_values q \<noteq> []"
  shows "sim D (A(k := add_mset (apply_patch q r) (A k - {#r#}))) w'"
proof -
  obtain w1 es1 where l: "resolve_lone_start (Some p) w k = (w1, es1)" by fastforce
  note s1 = resolve_lone_start_spec [OF l assms(3) sim_known [OF assms(2)] sim_es_ok [OF assms(2)]]
  have "same_rows w w1" using s1 by blast
  note f1 = same_rows_frame [OF this]
  have c1: "contents D k es1 = A k" using s1 sim_contents [OF assms(2)] by simp
  have ne: "es1 \<noteq> []" using c1 assms(4) by (auto simp: decides_def)
  have del: "k \<notin> set (tw_deleted_keys w)"
    using sim_contents [OF assms(2), of k] sim_deleted [OF assms(2), of k] assms(4)
    by (auto simp: decides_def)
  from assms(1) ne del obtain w2 es2 idx where
    t: "target_entry (Some p) w1 k es1 img vn = Inr (w2, es2, idx)"
    unfolding update_row_def l by (auto simp: rbind_eq_Inr)
  have "es_ok D (tw_truncated w1) k es1" "decides (contents D k es1) img r"
    using s1 f1 assms(4) c1 by simp_all
  from target_entry_spec [OF t assms(3) _ this] s1 obtain i where
    s2: "same_rows w1 w2" "known_ok D w2" "es_ok D (tw_truncated w1) k es2"
      "contents D k es2 = contents D k es1" and
    i: "idx = Some i" "i < length es2" "content D k (es2 ! i) = [r]" by blast
  have "same_rows w w2" using s1 s2(1) same_rows_trans by blast
  note fr = same_rows_frame [OF this]
  let ?e = "patch_entry q (es2 ! i)"
  have w': "w' = track (set_entries w2 k (es2[i := ?e])) k (es2[i := ?e])"
    using assms(1) ne del unfolding update_row_def l by (simp add: t i(1) Let_def)
  have "entry_ok D (tw_truncated w) k (es2 ! i)"
    using s2(3) i(2) f1 by (auto simp: es_ok_def list_all_length)
  moreover have "es2 ! i = START \<longrightarrow> D k \<noteq> None" using i(3) by (cases "D k") auto
  ultimately have e: "entry_ok D (tw_truncated w) k ?e" "?e \<noteq> START"
    "content D k ?e = [apply_patch q r]"
    using patch_entry_ok [OF _ assms(5-7) _ i(3)] by blast+
  have "contents D k (es2[i := ?e]) =
      add_mset (apply_patch q r) (contents D k (take i es2 @ drop (Suc i) es2))"
    using contents_nth [of i "es2[i := ?e]" D k] i(2) e(3) by simp
  also have "contents D k (take i es2 @ drop (Suc i) es2) = A k - {#r#}"
    using contents_nth [OF i(2), of D k] i(3) c1 s2(4) by simp
  finally have c: "contents D k (es2[i := ?e]) = add_mset (apply_patch q r) (A k - {#r#})" .
  have "es_ok D (tw_truncated w) k (es2[i := ?e])"
    using s2(3) f1 e(1,2) by (intro es_ok_update) simp_all
  then show ?thesis unfolding w'
    by (intro sim_write [OF assms(2) _ _ _ _ _ _ _ _ _ c]) (use s2(2) fr del in auto)
qed

lemma truncate_sim:
  assumes "sim D A w"
  shows "sim D (\<lambda>_. {#}) (truncate_table w)"
  using assms
  by (simp add: sim_def fold_inv_def truncate_table_def entries_at_def es_ok_def)

text \<open>Counters and the incremental bookkeeping do not enter the simulation.\<close>

lemma sim_ghost:
  "sim D A (w\<lparr>tw_events := n\<rparr>) = sim D A w"
  "sim D A (w\<lparr>tw_cdc_keys := ks\<rparr>) = sim D A w"
  "sim D A (w\<lparr>tw_delete_effects := es\<rparr>) = sim D A w"
  by (simp_all add: sim_def fold_inv_def entries_at_def)

lemma sim_hard: "sim D A w \<Longrightarrow> tw_delete_mode w \<noteq> ''soft''"
  by (simp add: sim_def fold_inv_def)

lemma collect_sim:
  assumes "source_step A ev B" and "collect (Some p) w ev = Inr w'" and "sim D A w"
    and "probe_agrees D p"
  shows "sim D B w'"
  using assms(1)
proof cases
  case src_insert
  let ?w = "w\<lparr>tw_events := Suc (tw_events w), tw_cdc_keys := List.insert (fe_key ev) (tw_cdc_keys w)\<rparr>"
  from src_insert assms(2) have "w' = place ?w (fe_key ev) (Row (fe_patch ev))"
    by (auto simp: collect_def Let_def)
  moreover have "sim D A ?w" using assms(3) sim_ghost by metis
  ultimately show ?thesis using src_insert place_sim by metis
next
  case (src_update r)
  let ?w = "w\<lparr>tw_events := Suc (tw_events w), tw_cdc_keys := List.insert (fe_key ev) (tw_cdc_keys w)\<rparr>"
  from src_update assms(2) have
    "update_row (Some p) ?w (fe_key ev) (fe_patch ev) (fe_image ev) (fe_variant_null ev) = Inr w'"
    by (auto simp: collect_def Let_def)
  moreover have "sim D A ?w" using assms(3) sim_ghost by metis
  ultimately show ?thesis using src_update update_row_sim [OF _ _ assms(4)] by metis
next
  case (src_delete r)
  let ?w = "w\<lparr>tw_events := Suc (tw_events w), tw_cdc_keys := List.insert (fe_key ev) (tw_cdc_keys w)\<rparr>"
  have sw: "sim D A ?w" using assms(3) sim_ghost by metis
  from src_delete assms(2) have "collect_delete (Some p) ?w ev = Inr w'"
    by (auto simp: collect_def Let_def)
  then obtain w1 x where
    x: "remove_row (Some p) ?w (fe_before_key ev) (fe_image ev) (fe_variant_null ev) = Inr (w1, x)"
    and d: "w' = (let w2 = (if tw_delete_mode w1 = ''soft''
          then w1\<lparr>tw_soft_deletes := AList.update (fe_before_key ev) (fe_event_id ev) (tw_soft_deletes w1)\<rparr>
          else w1)
        in w2\<lparr>tw_delete_effects := AList.update (fe_event_id ev) (fe_before_key ev) (tw_delete_effects w2)\<rparr>)"
    unfolding collect_delete_def Let_def rbind_eq_Inr by (elim exE conjE) (auto split: prod.splits)
  have s: "sim D (A(fe_before_key ev := A (fe_before_key ev) - {#r#})) w1"
    by (rule remove_row_sim [OF x sw assms(4) src_delete(4)])
  with d sim_hard [OF s] src_delete(1) show ?thesis by (simp add: Let_def sim_ghost)
next
  case src_truncate
  with assms(2) truncate_sim [OF assms(3)] show ?thesis by (auto simp: collect_def)
qed

definition fold_events ::
  "('k, 'v) probe option \<Rightarrow> ('k, 'v) table_work \<Rightarrow> ('k, 'v) fold_event list \<Rightarrow>
   tw_error + ('k, 'v) table_work" where
  "fold_events pr = rfold (collect pr)"

lemma fold_events_sim:
  assumes "source_run P A evs B" and "fold_events (Some p) w evs = Inr w'" and "sim D A w"
    and "probe_agrees D p"
  shows "sim D B w'"
  using assms(1,2,3)
proof (induction arbitrary: w rule: source_run.induct)
  case (run_Cons A ev B evs C)
  then obtain v where "collect (Some p) w ev = Inr v" "fold_events (Some p) v evs = Inr w'"
    by (auto simp: fold_events_def rbind_eq_Inr)
  with run_Cons collect_sim [OF _ _ _ assms(4)] show ?case by blast
qed (simp add: fold_events_def)


section \<open>The write\<close>

text \<open>What one key adds to the plan of a hard-deleting table without moves.\<close>

fun row_of :: "('k, 'v) entry \<Rightarrow> 'v row_patch list" where
  "row_of (Row p) = (if rp_complete p then [p] else [])"
| "row_of _ = []"

fun partial_of :: "('k, 'v) entry \<Rightarrow> 'v row_patch list" where
  "partial_of (Row p) = (if rp_complete p then [] else [p])"
| "partial_of _ = []"

definition rows_of :: "('k, 'v) entry list \<Rightarrow> 'v row_patch list" where
  "rows_of es = concat (map row_of es)"

definition partials_of :: "('k, 'v) entry list \<Rightarrow> 'v row_patch list" where
  "partials_of es = concat (map partial_of es)"

lemma rows_of_simps [simp]:
  "rows_of [] = []" "rows_of (e # es) = row_of e @ rows_of es"
  "partials_of [] = []" "partials_of (e # es) = partial_of e @ partials_of es"
  by (simp_all add: rows_of_def partials_of_def)

definition key_rows :: "'k \<times> ('k, 'v) entry list \<Rightarrow> ('k \<times> 'v row_patch) list" where
  "key_rows kes = map (Pair (fst kes)) (rows_of (snd kes))"

definition key_partials :: "'k \<times> ('k, 'v) entry list \<Rightarrow> ('k \<times> 'v row_patch) list" where
  "key_partials kes = map (Pair (fst kes)) (partials_of (snd kes))"

definition key_deletes :: "'k \<times> ('k, 'v) entry list \<Rightarrow> 'k list" where
  "key_deletes kes = (if snd kes = [] then [fst kes] else map fst (key_rows kes))"

definition extend :: "('k, 'v) table_plan \<Rightarrow> 'k list \<Rightarrow> ('k \<times> 'v row_patch) list \<Rightarrow>
    ('k \<times> 'v row_patch) list \<Rightarrow> ('k, 'v) table_plan" where
  "extend pl ds rs ps = pl\<lparr>tp_delete_keys := tp_delete_keys pl @ ds, tp_rows := tp_rows pl @ rs,
     tp_partial_updates := tp_partial_updates pl @ ps\<rparr>"

lemma extend_simps [simp]:
  "extend pl [] [] [] = pl"
  "extend (extend pl ds rs ps) ds' rs' ps' = extend pl (ds @ ds') (rs @ rs') (ps @ ps')"
  by (simp_all add: extend_def)

definition settled :: "('k, 'v) entry list \<Rightarrow> bool" where
  "settled es \<longleftrightarrow> length (filter (\<lambda>e. \<not> is_start e) es) \<le> 1 \<and>
     list_all (\<lambda>e. case e of Move _ _ _ \<Rightarrow> False | _ \<Rightarrow> True) es"

lemma plan_entries:
  assumes "list_all (\<lambda>e. case e of Move _ _ _ \<Rightarrow> False | _ \<Rightarrow> True) es"
  shows "foldl (plan_entry [] k) pl es =
    extend pl (map fst (key_rows (k, es))) (key_rows (k, es)) (key_partials (k, es))"
  using assms
proof (induction es arbitrary: pl)
  case (Cons e es)
  show ?case
  proof (cases e)
    case (Row p)
    have "plan_entry [] k pl e =
        extend pl (map fst (key_rows (k, [e]))) (key_rows (k, [e])) (key_partials (k, [e]))"
      using Row by (simp add: key_rows_def key_partials_def extend_def)
    with Cons show ?thesis by (simp add: key_rows_def key_partials_def)
  qed (use Cons in \<open>auto simp: key_rows_def key_partials_def\<close>)
qed (simp add: key_rows_def key_partials_def)

lemma plan_key_settled:
  assumes "settled (snd kes)"
  shows "plan_key [] pl kes = Inr (extend pl (key_deletes kes) (key_rows kes) (key_partials kes))"
proof (cases kes)
  case (Pair k es)
  then show ?thesis using assms plan_entries [of es k pl]
    by (cases "es = []")
      (auto simp: plan_key_def settled_def key_deletes_def key_rows_def key_partials_def extend_def)
qed

lemma plan_settled:
  assumes "\<forall>kes \<in> set (tw_live w). settled (snd kes)" and "tw_soft_deletes w = []"
  shows "plan w = Inr (extend empty_plan (concat (map key_deletes (tw_live w)))
    (concat (map key_rows (tw_live w))) (concat (map key_partials (tw_live w))))"
proof -
  have "rfold (plan_key []) pl live = Inr (extend pl (concat (map key_deletes live))
      (concat (map key_rows live)) (concat (map key_partials live)))"
    if "\<forall>kes \<in> set live. settled (snd kes)" for live :: "('a, ('a, 'b) entry list) dict" and pl
    using that by (induction live arbitrary: pl) (simp_all add: plan_key_settled)
  from this [OF assms(1)] assms(2) show ?thesis
    by (simp add: plan_def extend_def empty_plan_def)
qed

lemma map_of_per_key:
  assumes "distinct (map fst live)" and "\<And>kes. fst ` set (f kes) \<subseteq> {fst kes}"
  shows "map_of (concat (map f live)) k =
    (case map_of live k of None \<Rightarrow> None | Some es \<Rightarrow> map_of (f (k, es)) k)"
  using assms(1)
proof (induction live)
  case (Cons kes live)
  obtain j es where j: "kes = (j, es)" by (cases kes)
  have "map_of (f kes) k = None" if "k \<noteq> j"
    using assms(2) [of kes] that j by (auto simp: map_of_eq_None_iff)
  moreover have "map_of live k = None" if "k = j"
    using Cons.prems that j by (auto simp: map_of_eq_None_iff)
  ultimately show ?case using Cons j
    by (auto simp: map_add_def split: option.split)
qed simp

lemma sub_disjoint: "X \<subseteq> {a} \<Longrightarrow> Y \<subseteq> L \<Longrightarrow> a \<notin> L \<Longrightarrow> X \<inter> Y = {}"
  by blast

lemma distinct_per_key:
  assumes "distinct (map fst live)" and "\<And>kes. fst ` set (f kes) \<subseteq> {fst kes}"
    and "\<forall>kes \<in> set live. distinct (map fst (f kes))"
  shows "distinct (map fst (concat (map f live)))"
  using assms(1,3)
proof (induction live)
  case (Cons kes live)
  have "fst x \<in> fst ` set live" if "x \<in> set (f j)" "j \<in> set live" for x j
    using assms(2) [of j] that by auto
  then have "fst ` set (concat (map f live)) \<subseteq> fst ` set live" by auto
  moreover have "fst kes \<notin> fst ` set live" using Cons.prems(1) by simp
  ultimately have "fst ` set (f kes) \<inter> fst ` set (concat (map f live)) = {}"
    using sub_disjoint [OF assms(2) [of kes]] by metis
  moreover have "distinct (map fst (f kes))" using Cons.prems(2) by simp
  moreover have "distinct (map fst (concat (map f live)))"
    using Cons.prems by (intro Cons.IH) simp_all
  ultimately show ?case
    by (simp only: list.map concat.simps map_append distinct_append set_map)
qed simp


lemma insert_rows_at:
  assumes "distinct (map fst rs)"
  shows "insert_rows rs D k =
    (case map_of rs k of None \<Rightarrow> D k | Some p \<Rightarrow> Some (apply_patch p Map.empty))"
  using assms
proof (induction rs arbitrary: D)
  case (Cons r rs)
  obtain j p where r: "r = (j, p)" by (cases r)
  have "insert_rows (r # rs) D = insert_rows rs (D(j := Some (apply_patch p Map.empty)))"
    by (simp add: insert_rows_def r)
  moreover have "map_of rs j = None" using Cons.prems r by (simp add: map_of_eq_None_iff)
  ultimately show ?case using Cons r by (auto split: option.split)
qed (simp add: insert_rows_def)

lemma updates_at:
  assumes "distinct (map fst ps)"
    and "\<forall>(k, p) \<in> set ps. D k \<noteq> None \<and> bindable_values p \<noteq> []"
  shows "\<exists>D'. rfold update_one D ps = Inr D' \<and>
    (\<forall>k. D' k = (case map_of ps k of None \<Rightarrow> D k | Some p \<Rightarrow> Some (apply_patch p (the (D k)))))"
  using assms
proof (induction ps arbitrary: D)
  case (Cons x ps)
  obtain j p where x: "x = (j, p)" by (cases x)
  obtain r where r: "D j = Some r" "bindable_values p \<noteq> []" using Cons.prems(2) x by auto
  let ?D = "D(j := Some (apply_patch p r))"
  have u: "update_one D x = Inr ?D" using r x by (simp add: update_one_def)
  have none: "map_of ps j = None" using Cons.prems(1) x by (simp add: map_of_eq_None_iff)
  have "\<forall>(k, p) \<in> set ps. ?D k \<noteq> None \<and> bindable_values p \<noteq> []" using Cons.prems(2) by auto
  moreover have "distinct (map fst ps)" using Cons.prems(1) by simp
  ultimately obtain D' where "rfold update_one ?D ps = Inr D'"
    "\<forall>k. D' k = (case map_of ps k of None \<Rightarrow> ?D k | Some p \<Rightarrow> Some (apply_patch p (the (?D k))))"
    using Cons.IH [of ?D] by blast
  with u x r none show ?case by (auto split: option.split)
qed simp

lemma key_fst:
  "fst ` set (key_rows kes) \<subseteq> {fst kes}" "fst ` set (key_partials kes) \<subseteq> {fst kes}"
  by (auto simp: key_rows_def key_partials_def)

lemma length_concat_le:
  assumes "\<And>e. length (f e) \<le> (if P e then 1 else 0)"
  shows "length (concat (map f es)) \<le> length (filter P es)"
proof (induction es)
  case (Cons e es)
  with assms [of e] show ?case by auto
qed simp

lemma distinct_short: "length xs \<le> 1 \<Longrightarrow> distinct xs"
  by (cases xs) auto

lemma settled_distinct:
  assumes "settled (snd kes)"
  shows "distinct (map fst (key_rows kes))" "distinct (map fst (key_partials kes))"
proof -
  have "length (row_of e) \<le> (if \<not> is_start e then 1 else 0)" for e :: "('a, 'b) entry" by (cases e) auto
  moreover have "length (partial_of e) \<le> (if \<not> is_start e then 1 else 0)" for e :: "('a, 'b) entry"
    by (cases e) auto
  ultimately have "length (rows_of (snd kes)) \<le> 1" "length (partials_of (snd kes)) \<le> 1"
    using length_concat_le [of row_of "\<lambda>e. \<not> is_start e" "snd kes"]
      length_concat_le [of partial_of "\<lambda>e. \<not> is_start e" "snd kes"] assms
    by (simp_all add: settled_def rows_of_def partials_of_def)
  then show "distinct (map fst (key_rows kes))" "distinct (map fst (key_partials kes))"
    by (intro distinct_short; simp add: key_rows_def key_partials_def)+
qed

text \<open>The shapes a key can have when it wears at most one row.\<close>

lemma settled_shapes:
  assumes "es_ok D t k es" and "size (contents D k es) \<le> 1"
  obtains "es = []" | "es = [START]" | p where "es = [Row p]"
    | p where "es = [START, Row p]" and "D k = None" and "rp_complete p"
proof -
  have len: "length es' = size (contents D k es')"
    if "START \<notin> set es'" "list_all (entry_ok D t k) es'" for es'
    using size_contents [of D t k es'] that by simp
  show thesis
  proof (cases es)
    case Nil
    then show thesis using that by simp
  next
    case (Cons e rest)
    with assms have r: "START \<notin> set rest" "list_all (entry_ok D t k) rest" by (auto simp: es_ok_def)
    have "length rest \<le> 1" using len [OF r] assms(2) Cons by simp
    then consider "rest = []" | q where "rest = [q]" by (cases rest) auto
    then show thesis
    proof cases
      case 1
      then show thesis using that Cons assms(1) by (cases e) (auto simp: es_ok_def)
    next
      case 2
      then obtain p where p: "rest = [Row p]" using r by (cases q) auto
      have "e = START" "D k = None"
        using assms Cons p by (cases e; cases "D k"; auto simp: es_ok_def)+
      moreover from this have "rp_complete p" using r p by auto
      ultimately show thesis using that Cons p by blast
    qed
  qed
qed

lemma shape_settled:
  assumes "es_ok D t k es" and "size (contents D k es) \<le> 1"
  shows "settled es"
  by (rule settled_shapes [OF assms]) (auto simp: settled_def)


lemma map_of_Pair_key: "map_of (map (Pair k) xs) k = (case xs of [] \<Rightarrow> None | p # _ \<Rightarrow> Some p)"
  by (cases xs) simp_all

lemma map_of_key:
  "map_of (key_rows (k, es)) k = (case rows_of es of [] \<Rightarrow> None | p # _ \<Rightarrow> Some p)"
  "map_of (key_partials (k, es)) k = (case partials_of es of [] \<Rightarrow> None | p # _ \<Rightarrow> Some p)"
  by (simp_all add: key_rows_def key_partials_def map_of_Pair_key)

lemma key_deletes_at:
  assumes "distinct (map fst live)"
  shows "k \<in> set (concat (map key_deletes live)) \<longleftrightarrow>
    (\<exists>es. map_of live k = Some es \<and> (es = [] \<or> rows_of es \<noteq> []))"
proof -
  have "set (key_deletes (j, es)) = (if es = [] \<or> rows_of es \<noteq> [] then {j} else {})"
    for j and es :: "('a, 'b) entry list"
    by (cases "rows_of es") (auto simp: key_deletes_def key_rows_def)
  then have *: "k \<in> set (key_deletes kes) \<longleftrightarrow> fst kes = k \<and> (snd kes = [] \<or> rows_of (snd kes) \<noteq> [])"
    for kes :: "'a \<times> ('a, 'b) entry list"
    by (cases kes) auto
  have "k \<in> set (concat (map key_deletes live)) \<longleftrightarrow> (\<exists>kes \<in> set live. k \<in> set (key_deletes kes))"
    by simp
  also have "\<dots> \<longleftrightarrow> (\<exists>es. (k, es) \<in> set live \<and> (es = [] \<or> rows_of es \<noteq> []))"
    unfolding * by (metis prod.collapse fst_conv snd_conv)
  finally show ?thesis using assms by simp
qed

lemma write_table_sim:
  assumes "sim D A w" and "unique_keys A"
  shows "\<exists>D'. write_table w D = Inr D' \<and> source_of D' = A"
proof -
  have inv: "distinct (map fst (tw_live w))" "tw_soft_deletes w = []"
    using assms(1) by (simp_all add: sim_def fold_inv_def)
  have at: "entries_at w k = es" if "map_of (tw_live w) k = Some es" for k es
    using that by (simp add: entries_at_def)
  have small: "size (contents D k (entries_at w k)) \<le> 1" for k
    using assms sim_contents by (metis unique_keys_def)
  note ok = sim_es_ok [OF assms(1)]
  have st: "\<forall>kes \<in> set (tw_live w). settled (snd kes)"
    using shape_settled [OF ok small] at inv(1) by force
  let ?ds = "concat (map key_deletes (tw_live w))" and ?rs = "concat (map key_rows (tw_live w))"
    and ?ps = "concat (map key_partials (tw_live w))"
  let ?D1 = "if tw_truncated w then (\<lambda>_. None) else delete_keys ?ds D"
  have dr: "distinct (map fst ?rs)" "distinct (map fst ?ps)"
    using distinct_per_key [OF inv(1) key_fst(1)] distinct_per_key [OF inv(1) key_fst(2)]
      settled_distinct st by blast+
  have mr: "map_of ?rs k = (case map_of (tw_live w) k of None \<Rightarrow> None
      | Some es \<Rightarrow> (case rows_of es of [] \<Rightarrow> None | p # _ \<Rightarrow> Some p))"
    and mp: "map_of ?ps k = (case map_of (tw_live w) k of None \<Rightarrow> None
      | Some es \<Rightarrow> (case partials_of es of [] \<Rightarrow> None | p # _ \<Rightarrow> Some p))" for k
    using map_of_per_key [OF inv(1) key_fst(1), of k] map_of_per_key [OF inv(1) key_fst(2), of k]
    by (simp_all add: map_of_key split: option.split)
  have part: "?D1 k = D k \<and> D k \<noteq> None \<and> bindable_values p \<noteq> []" if kp: "map_of ?ps k = Some p" for k p
  proof -
    from kp obtain es where es: "map_of (tw_live w) k = Some es" and
      c: "partials_of es \<noteq> []" "p = hd (partials_of es)"
      unfolding mp by (auto split: option.splits list.splits)
    show ?thesis
      by (rule settled_shapes [OF ok small, of k, unfolded at [OF es]])
        (use c ok [of k, unfolded at [OF es]] es key_deletes_at [OF inv(1), of k] in
          \<open>auto simp: es_ok_def delete_keys_def split: if_splits\<close>)
  qed
  have "\<forall>(k, p) \<in> set ?ps. ?D1 k \<noteq> None \<and> bindable_values p \<noteq> []"
  proof (clarify)
    fix k p assume "(k, p) \<in> set ?ps"
    then have "map_of ?ps k = Some p" by (rule map_of_is_SomeI [OF dr(2)])
    from part [OF this] show "?D1 k \<noteq> None \<and> bindable_values p \<noteq> []" by metis
  qed
  from updates_at [OF dr(2) this] obtain D2 where D2: "rfold update_one ?D1 ?ps = Inr D2"
    "\<And>k. D2 k = (case map_of ?ps k of None \<Rightarrow> ?D1 k | Some p \<Rightarrow> Some (apply_patch p (the (?D1 k))))"
    by blast
  have w: "write_table w D = Inr (insert_rows ?rs D2)"
    using D2(1)
    by (cases "tw_truncated w")
      (simp_all add: write_table_def plan_settled [OF st inv(2)] extend_def empty_plan_def Let_def)
  have "source_of (insert_rows ?rs D2) k = A k" for k
  proof (cases "map_of (tw_live w) k")
    case None
    then have "entries_at w k = (if tw_truncated w then [] else [START])"
      by (simp add: entries_at_def)
    moreover have "insert_rows ?rs D2 k = ?D1 k"
      using None mr [of k] mp [of k] D2(2) [of k] by (simp add: insert_rows_at [OF dr(1)])
    moreover have "k \<notin> set ?ds" using None key_deletes_at [OF inv(1), of k] by simp
    ultimately show ?thesis
      using sim_contents [OF assms(1), of k]
      by (auto simp: source_of_def delete_keys_def split: if_splits option.splits)
  next
    case (Some es)
    have A: "contents D k es = A k" using sim_contents [OF assms(1), of k] at [OF Some] by simp
    have dk: "k \<in> set ?ds \<longleftrightarrow> es = [] \<or> rows_of es \<noteq> []"
      using key_deletes_at [OF inv(1), of k] Some by simp
    have mr': "map_of ?rs k = (case rows_of es of [] \<Rightarrow> None | p # _ \<Rightarrow> Some p)"
      and mp': "map_of ?ps k = (case partials_of es of [] \<Rightarrow> None | p # _ \<Rightarrow> Some p)"
      using mr mp Some by simp_all
    have D': "insert_rows ?rs D2 k = (case rows_of es of p # _ \<Rightarrow> Some (apply_patch p Map.empty)
      | [] \<Rightarrow> (case partials_of es of p # _ \<Rightarrow> Some (apply_patch p (the (D k)))
        | [] \<Rightarrow> ?D1 k))"
      using part [of k] D2(2) [of k]
      by (cases "tw_truncated w"; cases "rows_of es"; cases "partials_of es")
        (simp_all add: insert_rows_at [OF dr(1)] mr' mp')
    show ?thesis
      by (rule settled_shapes [OF ok small, of k, unfolded at [OF Some]])
        (use D' A dk ok [of k, unfolded at [OF Some]] in
          \<open>auto simp: source_of_def delete_keys_def es_ok_def split: if_splits option.splits\<close>)
  qed
  with w show ?thesis by blast
qed


section \<open>A group of transactions\<close>

text \<open>The planner folds a group unit by unit, and asserts the boundary invariant after each.\<close>

definition fold_unit ::
  "('k, 'v) probe option \<Rightarrow> ('k, 'v) table_work \<Rightarrow> ('k, 'v) fold_event list \<Rightarrow>
   tw_error + ('k, 'v) table_work" where
  "fold_unit pr w evs = rbind (fold_events pr w evs) (\<lambda>w'. rbind (end_transaction w') (\<lambda>_. Inr w'))"

definition fold_units ::
  "('k, 'v) probe option \<Rightarrow> ('k, 'v) table_work \<Rightarrow> ('k, 'v) fold_event list list \<Rightarrow>
   tw_error + ('k, 'v) table_work" where
  "fold_units pr = rfold (fold_unit pr)"

text \<open>A run of whole source transactions: within one, the states satisfy \<open>P\<close>; at every boundary a key
  wears at most one row.\<close>

inductive source_units ::
  "(('k, 'v) source \<Rightarrow> bool) \<Rightarrow> ('k, 'v) source \<Rightarrow> ('k, 'v) fold_event list list \<Rightarrow> ('k, 'v) source \<Rightarrow> bool"
  for P where
  units_Nil: "source_units P A [] A"
| units_Cons: "\<lbrakk>source_run P A evs B; unique_keys B; source_units P B us C\<rbrakk> \<Longrightarrow>
    source_units P A (evs # us) C"

lemma new_work_sim:
  assumes "mode \<noteq> ''soft''"
  shows "sim D (source_of D) (new_work False mode)"
  using assms
  by (simp add: sim_def fold_inv_def new_work_def entries_at_def es_ok_def source_of_def
      split: option.split)

lemma sim_multi:
  assumes "sim D A w" and "unique_keys A"
  shows "tw_multi w = []"
proof (rule ccontr)
  assume "tw_multi w \<noteq> []"
  then obtain k where k: "k \<in> set (tw_multi w)" by (cases "tw_multi w") auto
  then have "concrete (entries_at w k) > 1" using assms(1) by (auto simp: sim_def fold_inv_def)
  moreover have "concrete (entries_at w k) \<le> size (A k)"
    using concrete_le_size [OF sim_es_ok [OF assms(1)]] sim_contents [OF assms(1)] by metis
  moreover have "size (A k) \<le> 1" using assms(2) by (simp add: unique_keys_def)
  ultimately show False by simp
qed

lemma fold_units_sim:
  assumes "source_units P A us B" and "fold_units (Some p) w us = Inr w'" and "sim D A w"
    and "probe_agrees D p"
  shows "sim D B w'"
  using assms(1,2,3)
proof (induction arbitrary: w rule: source_units.induct)
  case (units_Cons A evs B us C)
  then obtain v where "fold_events (Some p) w evs = Inr v" "fold_units (Some p) v us = Inr w'"
    by (auto simp: fold_units_def fold_unit_def rbind_eq_Inr)
  with units_Cons fold_events_sim [OF _ _ _ assms(4)] show ?case by blast
qed (simp add: fold_units_def)

lemma source_units_unique:
  assumes "source_units P A us B" and "unique_keys A"
  shows "unique_keys B"
  using assms by (induction rule: source_units.induct) simp_all

lemma unique_source_of: "unique_keys (source_of D)"
  by (simp add: unique_keys_def source_of_def split: option.split)

text \<open>A source whose keys are never shared cannot make the fold refuse.\<close>

lemma attribute_unique:
  assumes "sim D A w" and "probe_agrees D p" and "size (A k) \<le> 1"
    and "resolve_lone_start (Some p) w k = (w1, es1)"
  shows "\<exists>r. target_entry (Some p) w1 k es1 img vn = Inr r"
proof -
  note s1 = resolve_lone_start_spec [OF assms(4,2) sim_known [OF assms(1)] sim_es_ok [OF assms(1)]]
  obtain w2 es2 where r: "(if length es1 > 1 then resolve_start (Some p) w1 k es1 else (w1, es1)) = (w2, es2)"
    by fastforce
  have tr: "tw_truncated w1 = tw_truncated w" using s1 same_rows_frame(2) by blast
  have "length es2 \<le> 1"
  proof (cases "length es1 > 1")
    case True
    then have "resolve_start (Some p) w1 k es1 = (w2, es2)" using r by simp
    from resolve_start_spec [OF this assms(2)] s1 tr have
      "es_ok D (tw_truncated w) k es2" "START \<in> set es2 \<longrightarrow> D k \<noteq> None"
      "contents D k es2 = A k" using sim_contents [OF assms(1)] by simp_all
    then show ?thesis using size_contents [of D _ k es2] assms(3) by (auto simp: es_ok_def)
  next
    case False
    then show ?thesis using r by auto
  qed
  then have "attribute (Some p) k es2 img vn = Inr None \<or> attribute (Some p) k es2 img vn = Inr (Some 0)"
    by (cases es2) (auto simp: attribute_def)
  then show ?thesis unfolding target_entry_def r by auto
qed


lemma remove_row_total:
  assumes "sim D A w" and "probe_agrees D p" and "size (A k) \<le> 1"
  shows "\<exists>w' x. remove_row (Some p) w k img vn = Inr (w', x)"
proof -
  obtain w1 es1 where l: "resolve_lone_start (Some p) w k = (w1, es1)" by fastforce
  from attribute_unique [OF assms l] obtain w2 es2 idx where
    "target_entry (Some p) w1 k es1 img vn = Inr (w2, es2, idx)" by (metis surj_pair)
  then show ?thesis unfolding remove_row_def l by (auto simp: Let_def split: prod.splits)
qed

lemma update_row_total:
  assumes "sim D A w" and "probe_agrees D p" and "size (A k) \<le> 1" and "r \<in># A k"
  shows "\<exists>w'. update_row (Some p) w k q img vn = Inr w'"
proof -
  obtain w1 es1 where l: "resolve_lone_start (Some p) w k = (w1, es1)" by fastforce
  note s1 = resolve_lone_start_spec [OF l assms(2) sim_known [OF assms(1)] sim_es_ok [OF assms(1)]]
  have "es1 \<noteq> []" using s1 sim_contents [OF assms(1), of k] assms(4) by auto
  moreover have "k \<notin> set (tw_deleted_keys w)"
    using sim_contents [OF assms(1), of k] sim_deleted [OF assms(1), of k] assms(4) by auto
  moreover from attribute_unique [OF assms(1-3) l] obtain w2 es2 idx where
    "target_entry (Some p) w1 k es1 img vn = Inr (w2, es2, idx)" by (metis surj_pair)
  ultimately show ?thesis unfolding update_row_def l by (simp add: Let_def)
qed

lemma collect_total:
  assumes "source_step A ev B" and "sim D A w" and "probe_agrees D p" and "unique_keys A"
  shows "\<exists>w'. collect (Some p) w ev = Inr w'"
proof -
  let ?w = "w\<lparr>tw_events := Suc (tw_events w), tw_cdc_keys := List.insert (fe_key ev) (tw_cdc_keys w)\<rparr>"
  have s: "sim D A ?w" using assms(2) sim_ghost by metis
  have u: "size (A k) \<le> 1" for k using assms(4) by (simp add: unique_keys_def)
  from assms(1) show ?thesis
  proof cases
    case src_insert
    then show ?thesis by (auto simp: collect_def Let_def)
  next
    case (src_update r)
    then have "r \<in># A (fe_key ev)" by (simp add: decides_def)
    from update_row_total [OF s assms(3) u this] src_update show ?thesis
      by (auto simp: collect_def Let_def)
  next
    case (src_delete r)
    from remove_row_total [OF s assms(3) u] obtain w' x where
      "remove_row (Some p) ?w (fe_before_key ev) (fe_image ev) (fe_variant_null ev) = Inr (w', x)"
      by blast
    with src_delete show ?thesis by (simp add: collect_def collect_delete_def Let_def)
  next
    case src_truncate
    then show ?thesis by (simp add: collect_def)
  qed
qed

lemma fold_events_total:
  assumes "source_run unique_keys A evs B" and "sim D A w" and "probe_agrees D p" and "unique_keys A"
  shows "\<exists>w'. fold_events (Some p) w evs = Inr w'"
  using assms(1,2,4)
proof (induction arbitrary: w rule: source_run.induct)
  case (run_Cons A ev B evs C)
  obtain v where v: "collect (Some p) w ev = Inr v"
    using collect_total [OF run_Cons.hyps(1) run_Cons.prems(1) assms(3) run_Cons.prems(2)] by blast
  then have "sim D B v" using collect_sim [OF run_Cons.hyps(1) v run_Cons.prems(1) assms(3)] by blast
  with run_Cons v show ?case by (auto simp: fold_events_def)
qed (simp add: fold_events_def)

lemma fold_units_total:
  assumes "source_units unique_keys A us B" and "sim D A w" and "probe_agrees D p" and "unique_keys A"
  shows "\<exists>w'. fold_units (Some p) w us = Inr w'"
  using assms(1,2,4)
proof (induction arbitrary: w rule: source_units.induct)
  case (units_Cons A evs B us C)
  obtain v where v: "fold_events (Some p) w evs = Inr v"
    using fold_events_total [OF units_Cons.hyps(1) units_Cons.prems(1) assms(3) units_Cons.prems(2)] by blast
  have s: "sim D B v" by (rule fold_events_sim [OF units_Cons.hyps(1) v units_Cons.prems(1) assms(3)])
  then have "end_transaction v = Inr ()"
    using sim_multi [OF s units_Cons.hyps(2)] by (simp add: end_transaction_def)
  with v have "fold_unit (Some p) w evs = Inr v" by (simp add: fold_unit_def)
  with units_Cons.IH [OF s] units_Cons.hyps(2) show ?case by (simp add: fold_units_def)
qed (simp add: fold_units_def)

section \<open>The properties\<close>


text \<open>
  Where the source key is not deferrable, so that no two rows ever share a key, the fold
  refuses nothing: every such group is folded, its transaction boundaries pass, it is written,
  and the destination then holds the source table.
\<close>

theorem unique_keys_never_refused:
  assumes "source_units unique_keys (source_of D) us A" and "probe_agrees D p" and "mode \<noteq> ''soft''"
  shows "\<exists>w D'. fold_units (Some p) (new_work False mode) us = Inr w \<and>
    write_table w D = Inr D' \<and> source_of D' = A"
proof -
  note s0 = new_work_sim [OF assms(3), of D]
  obtain w where w: "fold_units (Some p) (new_work False mode) us = Inr w"
    using fold_units_total [OF assms(1) s0 assms(2) unique_source_of] by blast
  have "sim D A w" by (rule fold_units_sim [OF assms(1) w s0 assms(2)])
  from write_table_sim [OF this source_units_unique [OF assms(1) unique_source_of]] w
  show ?thesis by blast
qed


section \<open>Runs\<close>

text \<open>The permutation of the \<open>_remove\<close> doc string: rows 1 and 2 of a table with a deferrable key move
  up by one in a single transaction, \<open>d(1,a) c(2,a) d(2,b) c(3,b)\<close>.\<close>

definition ex_patch :: "string \<Rightarrow> string row_patch" where
  "ex_patch v = \<lparr>rp_fields = [(''v'', field_of (Some v))], rp_absent = [], rp_complete = True\<rparr>"

definition ex_row :: "string \<Rightarrow> string row" where
  "ex_row v = apply_patch (ex_patch v) Map.empty"

definition ex_event :: "string \<Rightarrow> nat \<Rightarrow> string \<Rightarrow> (nat, string) fold_event" where
  "ex_event op k v = \<lparr>fe_op = op, fe_event_id = op, fe_key = k, fe_before_key = k,
     fe_before_has_key = True, fe_image = (if op = ''d'' then [(''v'', Some v)] else []),
     fe_variant_null = False, fe_patch = ex_patch v, fe_incremental = False\<rparr>"

definition ex_dest :: "(nat, string) destination" where
  "ex_dest k = (if k = 1 then Some (ex_row ''a'') else if k = 2 then Some (ex_row ''b'') else None)"

definition ex_probe :: "(nat, string) destination \<Rightarrow> (nat, string) probe" where
  "ex_probe D = \<lparr>pb_start_exists = (\<lambda>k. \<not> Option.is_none (D k)),
     pb_start_matches = (\<lambda>k img. map_option (row_matches img) (D k))\<rparr>"

lemma ex_probe_agrees: "probe_agrees D (ex_probe D)"
  by (auto simp: probe_agrees_def ex_probe_def Option.is_none_def)

definition ex_permutation :: "(nat, string) fold_event list" where
  "ex_permutation = [ex_event ''d'' 1 ''a'', ex_event ''c'' 2 ''a'', ex_event ''d'' 2 ''b'',
     ex_event ''c'' 3 ''b'']"

lemma ex_patch_ok: "wf_patch (ex_patch v)" "rp_complete (ex_patch v)" "\<not> has_marker (ex_patch v)"
  by (simp_all add: ex_patch_def wf_patch_def has_marker_def marker_columns_def field_of_def)

lemma ex_row_v [simp]: "ex_row v ''v'' = Some (Some v)"
  by (simp add: ex_row_def ex_patch_def apply_patch_def apply_fields_def field_of_def bindable_def)

lemma ex_row_eq: "ex_row u = ex_row v \<longleftrightarrow> u = v"
  using ex_row_v by (metis option.inject)

lemma ex_insert:
  "source_step A (ex_event ''c'' k v) (A(k := add_mset (ex_row v) (A k)))"
  using src_insert [of "ex_event ''c'' k v" A] ex_patch_ok by (simp add: ex_event_def ex_row_def)

lemma ex_delete:
  assumes "decides (A k) [(''v'', Some v)] (ex_row v)"
  shows "source_step A (ex_event ''d'' k v) (A(k := A k - {#ex_row v#}))"
  using src_delete [of "ex_event ''d'' k v" A "ex_row v"] assms by (simp add: ex_event_def)

lemma ex_permutation_run:
  "source_run (\<lambda>_. True) (source_of ex_dest) ex_permutation
     ((\<lambda>_. {#})(2 := {#ex_row ''a''#}, 3 := {#ex_row ''b''#}))"
proof -
  let ?A0 = "source_of ex_dest"
  let ?A1 = "?A0(1 := {#})"
  let ?A2 = "?A1(2 := {#ex_row ''a'', ex_row ''b''#})"
  let ?A3 = "?A2(2 := {#ex_row ''a''#})"
  let ?A4 = "?A3(3 := {#ex_row ''b''#})"
  have a: "?A0 1 = {#ex_row ''a''#}" "?A0 2 = {#ex_row ''b''#}" "?A0 3 = {#}"
    by (simp_all add: source_of_def ex_dest_def)
  have "source_step ?A0 (ex_event ''d'' 1 ''a'') ?A1"
    using ex_delete [of ?A0 1 "''a''"] a by (simp add: decides_def)
  moreover have "source_step ?A1 (ex_event ''c'' 2 ''a'') ?A2"
    using ex_insert [of ?A1 2 "''a''"] a by simp
  moreover have "source_step ?A2 (ex_event ''d'' 2 ''b'') ?A3"
    using ex_delete [of ?A2 2 "''b''"] by (simp add: decides_def row_matches_def add_mset_commute)
  moreover have "source_step ?A3 (ex_event ''c'' 3 ''b'') ?A4"
    using ex_insert [of ?A3 3 "''b''"] a by simp
  ultimately have "source_run (\<lambda>_. True) ?A0 ex_permutation ?A4"
    unfolding ex_permutation_def by (blast intro: source_run.intros)
  moreover have "?A4 = (\<lambda>_. {#})(2 := {#ex_row ''a''#}, 3 := {#ex_row ''b''#})"
    by (auto simp: source_of_def ex_dest_def)
  ultimately show ?thesis by simp
qed



theorem unique_keys_never_refused_example:
  "\<exists>w D'. fold_units (Some (ex_probe ex_dest)) (new_work False ''hard'')
       [[ex_event ''d'' 1 ''a'', ex_event ''c'' 1 ''b''], [ex_event ''d'' 2 ''b'']] = Inr w \<and>
     write_table w ex_dest = Inr D' \<and> source_of D' = (\<lambda>_. {#})(1 := {#ex_row ''b''#})"
proof -
  let ?A0 = "source_of ex_dest"
  let ?A1 = "?A0(1 := {#})"
  let ?A2 = "?A1(1 := {#ex_row ''b''#})"
  let ?A3 = "?A2(2 := {#})"
  let ?us = "[[ex_event ''d'' 1 ''a'', ex_event ''c'' 1 ''b''], [ex_event ''d'' 2 ''b'']]"
  have a: "?A0 1 = {#ex_row ''a''#}" "?A0 2 = {#ex_row ''b''#}"
    by (simp_all add: source_of_def ex_dest_def)
  have uq: "unique_keys ?A1" "unique_keys ?A2" "unique_keys ?A3"
    using unique_source_of [of ex_dest] by (simp_all add: unique_keys_def)
  have s1: "source_step ?A0 (ex_event ''d'' 1 ''a'') ?A1"
    using ex_delete [of ?A0 1 "''a''"] a by (simp add: decides_def)
  have s2: "source_step ?A1 (ex_event ''c'' 1 ''b'') ?A2"
    using ex_insert [of ?A1 1 "''b''"] by simp
  have s3: "source_step ?A2 (ex_event ''d'' 2 ''b'') ?A3"
    using ex_delete [of ?A2 2 "''b''"] a by (simp add: decides_def)
  have "source_run unique_keys ?A0 [ex_event ''d'' 1 ''a'', ex_event ''c'' 1 ''b''] ?A2"
    using s1 s2 uq by (blast intro: source_run.intros)
  moreover have "source_run unique_keys ?A2 [ex_event ''d'' 2 ''b''] ?A3"
    using s3 uq by (blast intro: source_run.intros)
  ultimately have "source_units unique_keys ?A0 ?us ?A3"
    using uq by (blast intro: source_units.intros)
  moreover have "?A3 = (\<lambda>_. {#})(1 := {#ex_row ''b''#})" by (auto simp: source_of_def ex_dest_def)
  ultimately have "source_units unique_keys ?A0 ?us ((\<lambda>_. {#})(1 := {#ex_row ''b''#}))" by metis
  from unique_keys_never_refused [OF this ex_probe_agrees, of "''hard''"] show ?thesis by simp
qed

text \<open>
  The hypothesis of \<open>decides\<close> that the image is not empty cannot be dropped. In a table all of whose
  columns are key columns the before-image has nothing that tells rows apart, also under REPLICA
  IDENTITY FULL. When such a table has a deferrable key and rows 1 and 2 move up by one in one
  transaction, \<open>d(1) c(2) d(2) c(3)\<close>, \<open>_target_entry\<close> takes the third event for the end of the key,
  and the row that now wears key 2 is lost without a refusal.
\<close>

definition key_only_event :: "string \<Rightarrow> nat \<Rightarrow> (nat, string) fold_event" where
  "key_only_event op k = (ex_event op k ''x'')\<lparr>fe_image := []\<rparr>"

definition key_only_dest :: "(nat, string) destination" where
  "key_only_dest k = (if k = 1 \<or> k = 2 then Some (ex_row ''x'') else None)"

lemma key_only_table_loses_a_row:
  "case fold_units (Some (ex_probe key_only_dest)) (new_work False ''hard'')
          [[key_only_event ''d'' 1, key_only_event ''c'' 2, key_only_event ''d'' 2, key_only_event ''c'' 3]] of
     Inl _ \<Rightarrow> False
   | Inr w \<Rightarrow> (case write_table w key_only_dest of
        Inl _ \<Rightarrow> False
      | Inr D' \<Rightarrow> Option.is_none (D' 1) \<and> Option.is_none (D' 2) \<and> \<not> Option.is_none (D' 3))"
  by code_simp

end
