(* ===== verification/Destination_Lease.thy ===== *)
theory Destination_Lease
  imports CDC_Prelude
begin

text \<open>
  The physical destination lease: a model of \<open>src/cdc_flight/destination_lease.py\<close>.

  The lease table has one row per physical destination; the model is about one destination, so
  the table is a \<open>lease_row option\<close>. Every SQL statement of the module is one function on it,
  with SQL's three-valued comparison written out (a comparison with \<open>NULL\<close> selects nothing).
  The statements are atomic; what other Flights do between two statements of one method is a
  script (\<open>db_env\<close>) of clock advances and statements that is consumed at every database access,
  so a theorem about an arbitrary database value holds for every interleaving. Timestamps are
  integers of the destination's clock.

  Not modelled: the retry of a control write after a MotherDuck transaction conflict (the write
  is idempotent), the receipts that lease errors carry for alerting, and the polling interval:
  \<open>polls\<close> is the number of polls the admission budget allows.
\<close>

section \<open>The data\<close>

record lease_row =
  lr_lease_id :: "string option"
  lr_fencing_epoch :: "int option"
  lr_service_id :: "string option"
  lr_worker_generation :: "string option"
  lr_owner_id :: string
  lr_host :: "string option"
  lr_pid :: "int option"
  lr_renewed_at :: "int option"
  lr_expires_at :: "int option"
  lr_state :: "string option"

record lease =
  le_owner_id :: string
  le_ttl_seconds :: int
  le_lease_id :: string
  le_fencing_epoch :: "int option"
  le_service_id :: string
  le_worker_generation :: string

text \<open>What a process knows of itself and of its host: \<open>gethostname\<close>, \<open>getpid\<close> and whether
  signal 0 finds no process.\<close>

record host_view =
  hv_hostname :: string
  hv_pid :: int
  hv_gone :: "int \<Rightarrow> bool"

datatype lease_reason =
    NoLeaseRow
  | Released
  | LeaseExpired
  | HeartbeatStaleUntilLeaseExpiry
  | LeaseAndHeartbeatFresh

record lease_health =
  lh_exists :: bool
  lh_healthy :: bool
  lh_reclaimable :: bool
  lh_reason :: lease_reason

datatype lease_error =
    LeaseLost
  | LeaseConflict
  | ServiceStandDown
  | HeartbeatBoundNotPositive
  | InsideCommitAck
  | InsertFailed
  | AcquireFuel

section \<open>Reading a row\<close>

definition row_epoch :: "lease_row \<Rightarrow> int" where
  \<comment> \<open>\<open>int(row[3] or 0)\<close>\<close>
  "row_epoch r = int_or (lr_fencing_epoch r) 0"

definition held_state :: "string option \<Rightarrow> bool" where
  "held_state v \<longleftrightarrow> (if truthy_str v then the v else ''held'') \<noteq> ''released''"

definition batch_owner_dead :: "host_view \<Rightarrow> string option \<Rightarrow> int option \<Rightarrow> bool" where
  "batch_owner_dead hv host pid \<longleftrightarrow>
     truthy_str host \<and> host = Some (hv_hostname hv) \<and> truthy_int pid \<and> hv_gone hv (the pid)"

definition health_from_row :: "lease_row option \<Rightarrow> int \<Rightarrow> int \<Rightarrow> lease_health" where
  "health_from_row row current bound =
     (case row of
        None \<Rightarrow> \<lparr>lh_exists = False, lh_healthy = False, lh_reclaimable = True, lh_reason = NoLeaseRow\<rparr>
      | Some r \<Rightarrow>
          if \<not> held_state (lr_state r) then
            \<lparr>lh_exists = True, lh_healthy = False, lh_reclaimable = True, lh_reason = Released\<rparr>
          else if (case lr_expires_at r of None \<Rightarrow> True | Some e \<Rightarrow> e \<le> current) then
            \<lparr>lh_exists = True, lh_healthy = False, lh_reclaimable = True, lh_reason = LeaseExpired\<rparr>
          else if (case lr_renewed_at r of None \<Rightarrow> True | Some t \<Rightarrow> t < current - bound) then
            \<lparr>lh_exists = True, lh_healthy = False, lh_reclaimable = False,
             lh_reason = HeartbeatStaleUntilLeaseExpiry\<rparr>
          else
            \<lparr>lh_exists = True, lh_healthy = True, lh_reclaimable = False,
             lh_reason = LeaseAndHeartbeatFresh\<rparr>)"

section \<open>The SQL statements\<close>

definition held_row :: "host_view \<Rightarrow> lease \<Rightarrow> int \<Rightarrow> int \<Rightarrow> lease_row" where
  \<comment> \<open>the row an acquisition at time \<open>current\<close> with epoch \<open>e\<close> writes\<close>
  "held_row hv l e current =
     \<lparr>lr_lease_id = Some (le_lease_id l), lr_fencing_epoch = Some e,
      lr_service_id = Some (le_service_id l), lr_worker_generation = Some (le_worker_generation l),
      lr_owner_id = le_owner_id l, lr_host = Some (hv_hostname hv), lr_pid = Some (hv_pid hv),
      lr_renewed_at = Some current, lr_expires_at = Some (current + le_ttl_seconds l),
      lr_state = Some ''held''\<rparr>"

definition stored_epoch :: "lease_row \<Rightarrow> int" where
  \<comment> \<open>SQL's \<open>coalesce(fencing_epoch, 0)\<close>\<close>
  "stored_epoch r = (case lr_fencing_epoch r of None \<Rightarrow> 0 | Some e \<Rightarrow> e)"

text \<open>The takeover's \<open>WHERE\<close> clause; \<open>dead\<close> is the host and process of a dead batch owner.\<close>

definition takeover_applies ::
  "int \<Rightarrow> int \<Rightarrow> (string option \<times> int option) option \<Rightarrow> lease_row \<Rightarrow> bool" where
  "takeover_applies old_epoch current dead r \<longleftrightarrow>
     stored_epoch r = old_epoch \<and>
     (lr_state r = Some ''released'' \<or>
      (case lr_expires_at r of None \<Rightarrow> False | Some e \<Rightarrow> e \<le> current) \<or>
      (case dead of
         None \<Rightarrow> False
       | Some (h, p) \<Rightarrow> h \<noteq> None \<and> p \<noteq> None \<and> lr_host r = h \<and> lr_pid r = p))"

definition refresh_applies :: "lease \<Rightarrow> int \<Rightarrow> int \<Rightarrow> bool \<Rightarrow> lease_row \<Rightarrow> bool" where
  "refresh_applies l e current require_live r \<longleftrightarrow>
     lr_owner_id r = le_owner_id l \<and> lr_lease_id r = Some (le_lease_id l) \<and>
     lr_fencing_epoch r = Some e \<and>
     (case lr_service_id r of None \<Rightarrow> True | Some s \<Rightarrow> s = le_service_id l) \<and>
     (case lr_worker_generation r of None \<Rightarrow> True | Some g \<Rightarrow> g = le_worker_generation l) \<and>
     (case lr_state r of None \<Rightarrow> False | Some s \<Rightarrow> s \<noteq> ''released'') \<and>
     (require_live \<longrightarrow> (case lr_expires_at r of None \<Rightarrow> False | Some x \<Rightarrow> x > current))"

definition owns :: "lease \<Rightarrow> int \<Rightarrow> lease_row \<Rightarrow> bool" where
  "owns l e r \<longleftrightarrow> lr_owner_id r = le_owner_id l \<and> lr_lease_id r = Some (le_lease_id l) \<and>
     lr_fencing_epoch r = Some e"

datatype lease_stmt =
    InsertLease host_view lease int
  | Takeover host_view lease int int int "(string option \<times> int option) option"
  | Refresh lease int int bool
  | MarkReleased lease int
  | DeleteLease lease int

text \<open>The effect of a statement on the table. An \<open>INSERT\<close> on an existing primary key raises and
  changes nothing.\<close>

fun exec_stmt :: "lease_stmt \<Rightarrow> lease_row option \<Rightarrow> lease_row option" where
  "exec_stmt (InsertLease hv l current) row =
     (case row of None \<Rightarrow> Some (held_row hv l 1 current) | Some r \<Rightarrow> Some r)"
| "exec_stmt (Takeover hv l old_epoch next_epoch current dead) row =
     map_option (\<lambda>r. if takeover_applies old_epoch current dead r
                     then held_row hv l next_epoch current else r) row"
| "exec_stmt (Refresh l e current require_live) row =
     map_option (\<lambda>r. if refresh_applies l e current require_live r
                     then r\<lparr>lr_renewed_at := Some current,
                            lr_expires_at := Some (current + le_ttl_seconds l)\<rparr> else r) row"
| "exec_stmt (MarkReleased l e) row =
     map_option (\<lambda>r. if owns l e r then r\<lparr>lr_state := Some ''released''\<rparr> else r) row"
| "exec_stmt (DeleteLease l e) row =
     (case row of None \<Rightarrow> None | Some r \<Rightarrow> if owns l e r then None else Some r)"

section \<open>The database, with what the other Flights do\<close>

record lease_db =
  db_now :: int
  db_row :: "lease_row option"
  db_env :: "(nat \<times> lease_stmt list) list"
  db_commit_ack :: bool

definition interfere :: "lease_db \<Rightarrow> lease_db" where
  "interfere db =
     (case db_env db of
        [] \<Rightarrow> db
      | (dt, ss) # rest \<Rightarrow>
          db\<lparr>db_now := db_now db + int dt, db_row := fold exec_stmt ss (db_row db), db_env := rest\<rparr>)"

definition server_now :: "lease_db \<Rightarrow> int \<times> lease_db" where
  "server_now db = (let db1 = interfere db in (db_now db1, db1))"

definition read_row :: "lease_db \<Rightarrow> lease_row option \<times> lease_db" where
  "read_row db = (let db1 = interfere db in (db_row db1, db1))"

definition write_stmt :: "lease_stmt \<Rightarrow> lease_db \<Rightarrow> lease_db" where
  "write_stmt s db = (let db1 = interfere db in db1\<lparr>db_row := exec_stmt s (db_row db1)\<rparr>)"

section \<open>acquire\<close>

type_synonym 'a lease_result = "(lease_error + 'a) \<times> lease_db"

definition conflict_or_stand_down :: "int option \<Rightarrow> lease_row \<Rightarrow> lease_db \<Rightarrow> 'a lease_result" where
  \<comment> \<open>the answer to a lost race: stand down before a healthy winner, else the conflict\<close>
  "conflict_or_stand_down bound observed db =
     (case bound of
        None \<Rightarrow> (Inl LeaseConflict, db)
      | Some b \<Rightarrow>
          let (now, db1) = server_now db
          in if lh_healthy (health_from_row (Some observed) now b) then (Inl ServiceStandDown, db1)
             else (Inl LeaseConflict, db1))"

definition acquire_insert ::
  "host_view \<Rightarrow> lease \<Rightarrow> int option \<Rightarrow> int \<Rightarrow> lease_db \<Rightarrow> lease lease_result" where
  "acquire_insert hv l bound current db =
     (let db1 = interfere db in
      case db_row db1 of
        None \<Rightarrow> (Inr (l\<lparr>le_fencing_epoch := Some 1\<rparr>),
                  db1\<lparr>db_row := exec_stmt (InsertLease hv l current) None\<rparr>)
      | Some _ \<Rightarrow>
          let (observed, db2) = read_row db1
          in case observed of
               Some r \<Rightarrow> conflict_or_stand_down bound r db2
             | None \<Rightarrow> (Inl InsertFailed, db2))"

definition acquire_takeover ::
  "host_view \<Rightarrow> lease \<Rightarrow> int option \<Rightarrow> lease_row \<Rightarrow> int \<Rightarrow> lease_db \<Rightarrow> lease lease_result" where
  "acquire_takeover hv l bound r current db =
     (let old_epoch = row_epoch r;
          next_epoch = max 1 (old_epoch + 1);
          dead = (if bound = None \<and> batch_owner_dead hv (lr_host r) (lr_pid r)
                  then Some (lr_host r, lr_pid r) else None);
          db1 = write_stmt (Takeover hv l old_epoch next_epoch current dead) db;
          (observed, db2) = read_row db1
      in case observed of
           None \<Rightarrow> (Inl LeaseLost, db2)
         | Some o' \<Rightarrow>
             if lr_lease_id o' \<noteq> Some (le_lease_id l) \<or> row_epoch o' \<noteq> next_epoch
             then conflict_or_stand_down bound o' db2
             else (Inr (l\<lparr>le_fencing_epoch := Some next_epoch\<rparr>), db2))"

text \<open>The bounded wait for a stale but unexpired holder.\<close>

fun wait_for_expiry :: "nat \<Rightarrow> int \<Rightarrow> lease_db \<Rightarrow> unit lease_result" where
  "wait_for_expiry 0 bound db = (Inl LeaseLost, db)"
| "wait_for_expiry (Suc n) bound db =
     (let (current, db1) = server_now db;
          (row, db2) = read_row db1
      in case row of
           None \<Rightarrow> (Inr (), db2)
         | Some r \<Rightarrow>
             let h = health_from_row row current bound in
             if lh_healthy h then (Inl ServiceStandDown, db2)
             else if lh_reclaimable h then (Inr (), db2)
             else if (case lr_expires_at r of None \<Rightarrow> True | Some e \<Rightarrow> e - current \<le> 0) then (Inr (), db2)
             else wait_for_expiry n bound db2)"

definition is_live :: "lease_row \<Rightarrow> int \<Rightarrow> bool" where
  "is_live r current \<longleftrightarrow>
     held_state (lr_state r) \<and> (case lr_expires_at r of None \<Rightarrow> False | Some e \<Rightarrow> e > current)"

fun acquire ::
  "nat \<Rightarrow> nat \<Rightarrow> host_view \<Rightarrow> lease \<Rightarrow> int option \<Rightarrow> bool \<Rightarrow> lease_db \<Rightarrow> lease lease_result" where
  "acquire 0 polls hv l bound wait db = (Inl AcquireFuel, db)"
| "acquire (Suc f) polls hv l bound wait db =
     (if db_commit_ack db then (Inl InsideCommitAck, db)
      else
        let (current, db1) = server_now db;
            (row, db2) = read_row db1
        in case row of
             None \<Rightarrow> acquire_insert hv l bound current db2
           | Some r \<Rightarrow>
               if lr_lease_id r = Some (le_lease_id l) \<and> lr_owner_id r = le_owner_id l
               then (Inr (l\<lparr>le_fencing_epoch := Some (int_or (lr_fencing_epoch r) 1)\<rparr>), db2)
               else case bound of
                 None \<Rightarrow>
                   if is_live r current \<and> \<not> batch_owner_dead hv (lr_host r) (lr_pid r)
                   then (Inl LeaseConflict, db2)
                   else acquire_takeover hv l bound r current db2
               | Some b \<Rightarrow>
                   let h = health_from_row row current b in
                   if lh_healthy h then (Inl ServiceStandDown, db2)
                   else if lh_reclaimable h then acquire_takeover hv l bound r current db2
                   else if \<not> wait then (Inl LeaseLost, db2)
                   else case wait_for_expiry polls b db2 of
                          (Inl e, db3) \<Rightarrow> (Inl e, db3)
                        | (Inr _, db3) \<Rightarrow>
                            let (current2, db4) = server_now db3;
                                (row2, db5) = read_row db4
                            in case row2 of
                                 None \<Rightarrow> acquire f polls hv l bound wait db5
                               | Some r2 \<Rightarrow> acquire_takeover hv l bound r2 current2 db5)"

section \<open>Fencing, renewal, verification and release\<close>

definition inspect_health :: "int \<Rightarrow> lease_db \<Rightarrow> lease_health lease_result" where
  "inspect_health bound db =
     (if bound \<le> 0 then (Inl HeartbeatBoundNotPositive, db)
      else let (current, db1) = server_now db; (row, db2) = read_row db1
           in (Inr (health_from_row row current bound), db2))"

definition matches :: "lease \<Rightarrow> int \<Rightarrow> lease_row option \<Rightarrow> bool" where
  "matches l e row =
     (case row of
        None \<Rightarrow> False
      | Some r \<Rightarrow>
          lr_lease_id r = Some (le_lease_id l) \<and> row_epoch r = e \<and>
          lr_owner_id r = le_owner_id l \<and>
          (lr_service_id r = None \<or> lr_service_id r = Some (le_service_id l)) \<and>
          (lr_worker_generation r = None \<or> lr_worker_generation r = Some (le_worker_generation l)) \<and>
          held_state (lr_state r))"

definition conditional_refresh :: "lease \<Rightarrow> bool \<Rightarrow> lease_db \<Rightarrow> unit lease_result" where
  "conditional_refresh l require_live db =
     (case le_fencing_epoch l of
        None \<Rightarrow> (Inl LeaseLost, db)
      | Some e \<Rightarrow>
          let (current, db1) = server_now db;
              db2 = write_stmt (Refresh l e current require_live) db1;
              (row, db3) = read_row db2;
              (live_after, db4) =
                (if require_live then
                   (let (now, db4) = server_now db3
                    in (case row of
                          None \<Rightarrow> False
                        | Some r \<Rightarrow> (case lr_expires_at r of None \<Rightarrow> False | Some x \<Rightarrow> x > now), db4))
                 else (True, db3))
          in if \<not> matches l e row \<or> \<not> live_after then (Inl LeaseLost, db4) else (Inr (), db4))"

definition fence :: "lease \<Rightarrow> lease_db \<Rightarrow> unit lease_result" where
  "fence l db = (if db_commit_ack db then (Inl InsideCommitAck, db) else conditional_refresh l True db)"

definition renew_control :: "lease \<Rightarrow> lease_db \<Rightarrow> unit lease_result" where
  "renew_control l db =
     (if db_commit_ack db then (Inl InsideCommitAck, db) else conditional_refresh l True db)"

definition assert_current :: "lease \<Rightarrow> lease_db \<Rightarrow> unit lease_result" where
  "assert_current l db =
     (if db_commit_ack db then (Inl InsideCommitAck, db)
      else
        let (row, db1) = read_row db; (current, db2) = server_now db1
        in case (le_fencing_epoch l, row) of
             (Some e, Some r) \<Rightarrow>
               if \<not> matches l e row \<or> (case lr_expires_at r of None \<Rightarrow> True | Some x \<Rightarrow> x \<le> current)
               then (Inl LeaseLost, db2) else (Inr (), db2)
           | _ \<Rightarrow> (Inl LeaseLost, db2))"

definition attach :: "lease \<Rightarrow> lease_db \<Rightarrow> unit lease_result" where
  "attach l db =
     (if db_commit_ack db then (Inl InsideCommitAck, db)
      else case assert_current l db of
             (Inl e, db1) \<Rightarrow> (Inl e, db1)
           | (Inr _, db1) \<Rightarrow>
               let (row, db2) = read_row db1
               in case row of
                    None \<Rightarrow> (Inl LeaseLost, db2)
                  | Some r \<Rightarrow>
                      if lr_service_id r \<noteq> Some (le_service_id l) \<or>
                         lr_worker_generation r \<noteq> Some (le_worker_generation l)
                      then (Inl LeaseLost, db2) else (Inr (), db2))"

definition release_lease :: "lease \<Rightarrow> bool \<Rightarrow> lease_db \<Rightarrow> unit lease_result" where
  "release_lease l retain db =
     (if db_commit_ack db then (Inl InsideCommitAck, db)
      else case le_fencing_epoch l of
             None \<Rightarrow> (Inr (), db)
           | Some e \<Rightarrow> (Inr (), write_stmt (if retain then MarkReleased l e else DeleteLease l e) db))"


section \<open>What a statement can do to a row\<close>

fun stmt_lease :: "lease_stmt \<Rightarrow> lease" where
  "stmt_lease (InsertLease hv l current) = l"
| "stmt_lease (Takeover hv l old_epoch next_epoch current dead) = l"
| "stmt_lease (Refresh l e current require_live) = l"
| "stmt_lease (MarkReleased l e) = l"
| "stmt_lease (DeleteLease l e) = l"

fun acquires :: "lease_stmt \<Rightarrow> bool" where
  "acquires (InsertLease hv l current) = True"
| "acquires (Takeover hv l old_epoch next_epoch current dead) = True"
| "acquires _ = False"

fun deletes :: "lease_stmt \<Rightarrow> bool" where
  "deletes (DeleteLease l e) = True"
| "deletes _ = False"

text \<open>A takeover as \<open>acquire\<close> issues it: the next epoch is one more than the observed one.\<close>

fun wf_stmt :: "lease_stmt \<Rightarrow> bool" where
  "wf_stmt (Takeover hv l old_epoch next_epoch current dead) \<longleftrightarrow> next_epoch = max 1 (old_epoch + 1)"
| "wf_stmt _ = True"

definition held_by :: "string \<Rightarrow> lease_row option \<Rightarrow> bool" where
  "held_by i row \<longleftrightarrow> (\<exists>r. row = Some r \<and> lr_lease_id r = Some i)"

lemma exec_stmt_not_held:
  assumes "\<not> held_by i row" and "\<not> (acquires s \<and> le_lease_id (stmt_lease s) = i)"
  shows "\<not> held_by i (exec_stmt s row)"
  using assms by (cases s) (auto simp: held_by_def held_row_def split: option.splits if_splits)

lemma exec_stmts_not_held:
  assumes "\<not> held_by i row" and "list_all (\<lambda>s. \<not> (acquires s \<and> le_lease_id (stmt_lease s) = i)) ss"
  shows "\<not> held_by i (fold exec_stmt ss row)"
  using assms by (induction ss arbitrary: row) (auto simp: exec_stmt_not_held)

lemma row_epoch_stored [simp]: "row_epoch r = stored_epoch r"
  by (simp add: row_epoch_def stored_epoch_def int_or_def split: option.split)

lemma stored_epoch_simps [simp]:
  "stored_epoch (held_row hv l e c) = e"
  "stored_epoch (r\<lparr>lr_renewed_at := a, lr_expires_at := b\<rparr>) = stored_epoch r"
  "stored_epoch (r\<lparr>lr_state := x\<rparr>) = stored_epoch r"
  by (simp_all add: stored_epoch_def held_row_def)

lemma exec_stmt_epoch:
  assumes "\<not> deletes s" and "wf_stmt s" and "exec_stmt s (Some r) = row"
  shows "\<exists>r'. row = Some r' \<and> stored_epoch r \<le> stored_epoch r'"
  using assms
  by (cases s) (auto simp: takeover_applies_def)

lemma exec_stmts_epoch:
  assumes "list_all (\<lambda>s. \<not> deletes s \<and> wf_stmt s) ss"
  shows "\<exists>r'. fold exec_stmt ss (Some r) = Some r' \<and> stored_epoch r \<le> stored_epoch r'"
  using assms
proof (induction ss arbitrary: r)
  case Nil
  then show ?case by simp
next
  case (Cons s ss)
  from exec_stmt_epoch [of s r] Cons.prems obtain r1
    where "exec_stmt s (Some r) = Some r1" "stored_epoch r \<le> stored_epoch r1" by auto
  with Cons.IH [of r1] Cons.prems show ?case by force
qed

text \<open>Two Flights and a destination on which the hypotheses of the theorems hold.\<close>

definition sample_host :: host_view where
  "sample_host = \<lparr>hv_hostname = ''h'', hv_pid = 7, hv_gone = (\<lambda>_. False)\<rparr>"

definition sample_lease :: "string \<Rightarrow> lease" where
  "sample_lease i = \<lparr>le_owner_id = i, le_ttl_seconds = 60, le_lease_id = i, le_fencing_epoch = Some 1,
     le_service_id = i, le_worker_generation = i\<rparr>"

definition sample_db :: lease_db where
  "sample_db = \<lparr>db_now = 100, db_row = Some (held_row sample_host (sample_lease ''a'') 1 0),
     db_env = [], db_commit_ack = False\<rparr>"



text \<open>
  A live lease cannot be taken. While the destination clock that other Flights read is before
  the expiry of the holder's row, no sequence of statements of other service Flights (no takeover
  on the ground of a dead local batch process) changes that row in any way.
\<close>

theorem live_lease_is_protected:
  assumes "lr_lease_id r = Some i" and "lr_state r = Some ''held''" and "lr_expires_at r = Some x"
    and "list_all (\<lambda>s. le_lease_id (stmt_lease s) \<noteq> i \<and>
           (case s of Takeover hv l old nxt cur dead \<Rightarrow> cur < x \<and> dead = None | _ \<Rightarrow> True)) ss"
  shows "fold exec_stmt ss (Some r) = Some r"
  using assms(4)
proof (induction ss)
  case Nil
  then show ?case by simp
next
  case (Cons s ss)
  have "exec_stmt s (Some r) = Some r"
    using Cons.prems assms(1-3)
    by (cases s) (auto simp: takeover_applies_def refresh_applies_def owns_def)
  with Cons show ?case by simp
qed

theorem live_lease_is_protected_example:
  "fold exec_stmt [Takeover sample_host (sample_lease ''b'') 1 2 59 None, DeleteLease (sample_lease ''b'') 1]
     (db_row sample_db) = db_row sample_db"
proof -
  have "fold exec_stmt [Takeover sample_host (sample_lease ''b'') 1 2 59 None, DeleteLease (sample_lease ''b'') 1]
     (Some (held_row sample_host (sample_lease ''a'') 1 0)) = Some (held_row sample_host (sample_lease ''a'') 1 0)"
    by (rule live_lease_is_protected [where i = "''a''" and x = 60]) code_simp+
  then show ?thesis by (simp add: sample_db_def)
qed


section \<open>A dispossessed Flight is fenced out\<close>

text \<open>Another Flight holds the row, or nobody, and the other Flights never issue an acquisition
  under this lease id.\<close>

definition dispossessed :: "lease \<Rightarrow> lease_db \<Rightarrow> bool" where
  "dispossessed l db \<longleftrightarrow>
     \<not> held_by (le_lease_id l) (db_row db) \<and>
     list_all (\<lambda>(dt, ss). list_all (\<lambda>s. \<not> (acquires s \<and> le_lease_id (stmt_lease s) = le_lease_id l)) ss)
       (db_env db)"

lemma dispossessed_interfere: "dispossessed l db \<Longrightarrow> dispossessed l (interfere db)"
  by (auto simp: dispossessed_def interfere_def exec_stmts_not_held split: list.split)

lemma dispossessed_access:
  assumes "dispossessed l db"
  shows "server_now db = (t, db1) \<Longrightarrow> dispossessed l db1"
    and "read_row db = (row, db1) \<Longrightarrow> dispossessed l db1 \<and> \<not> held_by (le_lease_id l) row"
  using dispossessed_interfere [OF assms]
  by (auto simp: server_now_def read_row_def Let_def dispossessed_def)

lemma dispossessed_write:
  assumes "dispossessed l db" and "\<not> acquires s"
  shows "dispossessed l (write_stmt s db)"
  using dispossessed_interfere [OF assms(1)] assms(2)
  by (simp add: write_stmt_def Let_def dispossessed_def exec_stmt_not_held)

lemma matches_held: "matches l e row \<Longrightarrow> held_by (le_lease_id l) row"
  by (auto simp: matches_def held_by_def split: option.splits)

lemma conditional_refresh_lost:
  assumes "dispossessed l db"
  shows "fst (conditional_refresh l require_live db) = Inl LeaseLost \<and>
    dispossessed l (snd (conditional_refresh l require_live db))"
proof (cases "le_fencing_epoch l")
  case None
  with assms show ?thesis by (simp add: conditional_refresh_def)
next
  case (Some e)
  obtain t db1 where n: "server_now db = (t, db1)" by (cases "server_now db")
  obtain row db3 where r: "read_row (write_stmt (Refresh l e t require_live) db1) = (row, db3)"
    by (cases "read_row (write_stmt (Refresh l e t require_live) db1)")
  obtain t4 db4 where n4: "server_now db3 = (t4, db4)" by (cases "server_now db3")
  have d1: "dispossessed l (write_stmt (Refresh l e t require_live) db1)"
    using dispossessed_access(1) [OF assms n] by (rule dispossessed_write) simp
  note d3 = dispossessed_access(2) [OF d1 r]
  then have "\<not> matches l e row" using matches_held by blast
  then show ?thesis
    using Some n r n4 d3 dispossessed_access(1) [of l db3 t4 db4]
    by (simp add: conditional_refresh_def)
qed

text \<open>
  A Flight that lost its lease is fenced out: whatever the other Flights do between any two of
  its database accesses, as long as none of them acquires under its lease id, its fence, its
  renewal and its verification raise \<open>LeaseLost\<close>, and it stays dispossessed after each.
\<close>

theorem dispossessed_is_fenced_out:
  assumes "dispossessed l db" and "\<not> db_commit_ack db"
  shows "fst (fence l db) = Inl LeaseLost \<and> dispossessed l (snd (fence l db)) \<and>
    fst (renew_control l db) = Inl LeaseLost \<and> dispossessed l (snd (renew_control l db)) \<and>
    fst (assert_current l db) = Inl LeaseLost \<and> dispossessed l (snd (assert_current l db))"
proof -
  obtain row db1 where r: "read_row db = (row, db1)" by (cases "read_row db")
  obtain t db2 where n: "server_now db1 = (t, db2)" by (cases "server_now db1")
  note d = dispossessed_access(2) [OF assms(1) r]
  then have "dispossessed l db2" "\<And>e. \<not> matches l e row"
    using dispossessed_access(1) [OF _ n] matches_held by blast+
  with assms(2) r n have "fst (assert_current l db) = Inl LeaseLost \<and>
      dispossessed l (snd (assert_current l db))"
    by (auto simp: assert_current_def split: option.splits)
  with conditional_refresh_lost [OF assms(1)] assms(2) show ?thesis
    by (simp add: fence_def renew_control_def)
qed

theorem dispossessed_is_fenced_out_example:
  "fst (fence (sample_lease ''b'') sample_db) = Inl LeaseLost \<and>
   fst (assert_current (sample_lease ''b'') sample_db) = Inl LeaseLost"
proof -
  have "dispossessed (sample_lease ''b'') sample_db" "\<not> db_commit_ack sample_db"
    by (simp_all add: dispossessed_def held_by_def sample_db_def sample_lease_def held_row_def)
  then show ?thesis using dispossessed_is_fenced_out by blast
qed

section \<open>The admission decision\<close>

lemma held_state_iff [simp]: "held_state v \<longleftrightarrow> v \<noteq> Some ''released''"
  by (cases v) (auto simp: held_state_def)

lemma service_admission:
  assumes "db_env db = []" and "\<not> db_commit_ack db"
    and "case db_row db of None \<Rightarrow> True | Some r \<Rightarrow> lr_expires_at r \<noteq> None"
    and "now = db_now db" and "lid = le_lease_id l"
  shows "acquire (Suc f) polls hv l (Some b) False db =
    (case db_row db of
       None \<Rightarrow> (Inr (l\<lparr>le_fencing_epoch := Some 1\<rparr>), db\<lparr>db_row := Some (held_row hv l 1 now)\<rparr>)
     | Some r \<Rightarrow>
         if lr_lease_id r = Some lid \<and> lr_owner_id r = le_owner_id l
         then (Inr (l\<lparr>le_fencing_epoch := Some (int_or (lr_fencing_epoch r) 1)\<rparr>), db)
         else case lh_reason (health_from_row (Some r) now b) of
           LeaseAndHeartbeatFresh \<Rightarrow> (Inl ServiceStandDown, db)
         | HeartbeatStaleUntilLeaseExpiry \<Rightarrow> (Inl LeaseLost, db)
         | _ \<Rightarrow>
             let e = max 1 (stored_epoch r + 1)
             in (Inr (l\<lparr>le_fencing_epoch := Some e\<rparr>), db\<lparr>db_row := Some (held_row hv l e now)\<rparr>))"
proof (cases "db_row db")
  case None
  then show ?thesis using assms by (simp add: acquire_insert_def interfere_def server_now_def read_row_def)
next
  case (Some r)
  have i: "interfere db = db" using assms(1) by (simp add: interfere_def)
  show ?thesis
  proof (cases "lr_lease_id r = Some lid \<and> lr_owner_id r = le_owner_id l")
    case True
    then show ?thesis using Some assms i by (simp add: server_now_def read_row_def)
  next
    case False
    have tk: "acquire_takeover hv l (Some b) r now db =
        (let e = max 1 (stored_epoch r + 1)
         in (Inr (l\<lparr>le_fencing_epoch := Some e\<rparr>), db\<lparr>db_row := Some (held_row hv l e now)\<rparr>))"
      if "takeover_applies (stored_epoch r) now None r"
      using that Some i assms(1)
      by (simp add: acquire_takeover_def Let_def write_stmt_def read_row_def interfere_def)
        (simp add: held_row_def)
    show ?thesis
      using False Some assms i tk
      by (auto simp: server_now_def read_row_def health_from_row_def
          takeover_applies_def split: option.splits if_splits)
  qed
qed


text \<open>
  Admission of a service Flight, when no other Flight acts meanwhile, is decided by the row
  alone: no row is inserted as epoch 1; its own row is re-admitted; a fresh row of another
  Flight makes it stand down; a stale but unexpired one refuses it; both leave the row as it is;
  a released or expired row is taken over with the next epoch. (The expiry column is declared
  \<open>NOT NULL\<close>.)
\<close>

theorem service_admission_decision:
  assumes "db_env db = []" and "\<not> db_commit_ack db"
    and "case db_row db of None \<Rightarrow> True | Some r \<Rightarrow> lr_expires_at r \<noteq> None"
    and "now = db_now db" and "lid = le_lease_id l"
  shows "acquire (Suc f) polls hv l (Some b) False db =
    (case db_row db of
       None \<Rightarrow> (Inr (l\<lparr>le_fencing_epoch := Some 1\<rparr>), db\<lparr>db_row := Some (held_row hv l 1 now)\<rparr>)
     | Some r \<Rightarrow>
         if lr_lease_id r = Some lid \<and> lr_owner_id r = le_owner_id l
         then (Inr (l\<lparr>le_fencing_epoch := Some (int_or (lr_fencing_epoch r) 1)\<rparr>), db)
         else case lh_reason (health_from_row (Some r) now b) of
           LeaseAndHeartbeatFresh \<Rightarrow> (Inl ServiceStandDown, db)
         | HeartbeatStaleUntilLeaseExpiry \<Rightarrow> (Inl LeaseLost, db)
         | _ \<Rightarrow>
             let e = max 1 (stored_epoch r + 1)
             in (Inr (l\<lparr>le_fencing_epoch := Some e\<rparr>), db\<lparr>db_row := Some (held_row hv l e now)\<rparr>))"
  by (rule service_admission [OF assms])

theorem service_admission_decision_example:
  "acquire 1 0 sample_host (sample_lease ''b'') (Some 30) False sample_db =
   (Inr ((sample_lease ''b'')\<lparr>le_fencing_epoch := Some 2\<rparr>),
    sample_db\<lparr>db_row := Some (held_row sample_host (sample_lease ''b'') 2 100)\<rparr>)"
proof -
  have h: "db_env sample_db = []" "\<not> db_commit_ack sample_db"
    "case db_row sample_db of None \<Rightarrow> True | Some r \<Rightarrow> lr_expires_at r \<noteq> None"
    by (simp_all add: sample_db_def held_row_def)
  from service_admission_decision [OF h refl refl, of 0 0 sample_host "sample_lease ''b''" 30]
  show ?thesis
    by (simp add: sample_db_def sample_lease_def health_from_row_def stored_epoch_def)
      (simp add: held_row_def)
qed

text \<open>
  An admitted Flight can work: after a successful admission its fence succeeds while the clock
  is before the expiry, keeps its epoch, and moves the expiry to a full period after the fence.
\<close>

theorem admitted_flight_can_fence:
  assumes "acquire (Suc f) polls hv l (Some b) False db = (Inr l', db')"
    and "db_env db = []" and "\<not> db_commit_ack db"
    and "case db_row db of None \<Rightarrow> True
         | Some r \<Rightarrow> lr_expires_at r \<noteq> None \<and> lr_lease_id r \<noteq> Some (le_lease_id l)"
    and "0 \<le> dt" and "dt < le_ttl_seconds l"
  shows "\<exists>e. le_fencing_epoch l' = Some e \<and>
    fence l' (db'\<lparr>db_now := db_now db + dt\<rparr>) =
      (Inr (), db'\<lparr>db_now := db_now db + dt,
                  db_row := Some ((held_row hv l e (db_now db))\<lparr>lr_renewed_at := Some (db_now db + dt),
                    lr_expires_at := Some (db_now db + dt + le_ttl_seconds l)\<rparr>)\<rparr>)"
proof -
  have nn: "case db_row db of None \<Rightarrow> True | Some r \<Rightarrow> lr_expires_at r \<noteq> None"
    using assms(4) by (auto split: option.splits)
  obtain e where l': "l' = l\<lparr>le_fencing_epoch := Some e\<rparr>"
    and db': "db' = db\<lparr>db_row := Some (held_row hv l e (db_now db))\<rparr>"
    using service_admission [OF assms(2,3) nn refl refl, of f polls hv l b] assms(1,4)
    by (auto simp: Let_def split: option.splits lease_reason.splits if_splits)
  have "fence l' (db'\<lparr>db_now := db_now db + dt\<rparr>) =
      (Inr (), db'\<lparr>db_now := db_now db + dt,
                  db_row := Some ((held_row hv l e (db_now db))\<lparr>lr_renewed_at := Some (db_now db + dt),
                    lr_expires_at := Some (db_now db + dt + le_ttl_seconds l)\<rparr>)\<rparr>)"
    using assms(2,3,5,6)
    by (simp add: l' db' fence_def conditional_refresh_def server_now_def read_row_def write_stmt_def
        interfere_def refresh_applies_def matches_def held_row_def Let_def stored_epoch_def)
  then show ?thesis by (simp add: l')
qed

theorem admitted_flight_can_fence_example:
  "\<exists>l' db' e. acquire 1 0 sample_host (sample_lease ''b'') (Some 30) False sample_db = (Inr l', db') \<and>
     le_fencing_epoch l' = Some e \<and> fst (fence l' (db'\<lparr>db_now := 110\<rparr>)) = Inr ()"
proof -
  define r where "r = acquire (Suc 0) 0 sample_host (sample_lease ''b'') (Some 30) False sample_db"
  have "is_ok (fst r)" unfolding r_def by code_simp
  then obtain l' db' where r: "r = (Inr l', db')" by (cases r) (auto simp: is_ok_iff)
  have "\<exists>e. le_fencing_epoch l' = Some e \<and> fence l' (db'\<lparr>db_now := db_now sample_db + 10\<rparr>) =
      (Inr (), db'\<lparr>db_now := db_now sample_db + 10,
        db_row := Some ((held_row sample_host (sample_lease ''b'') e (db_now sample_db))
          \<lparr>lr_renewed_at := Some (db_now sample_db + 10),
           lr_expires_at := Some (db_now sample_db + 10 + le_ttl_seconds (sample_lease ''b''))\<rparr>)\<rparr>)"
    by (rule admitted_flight_can_fence [OF r [unfolded r_def]])
      (simp_all add: sample_db_def sample_lease_def held_row_def)
  then show ?thesis using r by (auto simp: r_def sample_db_def)
qed



section \<open>The interface a writer relies on\<close>

text \<open>What a client of a write fence is promised: once the fence is lost, it refuses, and it stays
  lost. The client lemmas are about the code pattern "fence first, then write".\<close>

locale write_fence =
  fixes fence_op :: "'l \<Rightarrow> ('e + unit) \<times> 'l"
    and lost :: "'l \<Rightarrow> bool"
  assumes lost_refused: "lost l \<Longrightarrow> \<exists>e. fst (fence_op l) = Inl e"
    and lost_stays: "lost l \<Longrightarrow> lost (snd (fence_op l))"
begin

lemma refused_result:
  assumes "lost l"
  obtains e l' where "fence_op l = (Inl e, l')" and "lost l'"
proof -
  from lost_refused [OF assms] obtain e where "fst (fence_op l) = Inl e" ..
  moreover have "lost (snd (fence_op l))" using assms by (rule lost_stays)
  ultimately show thesis using that by (cases "fence_op l") auto
qed

lemma guarded_write_refused:
  assumes "lost l"
  shows "\<exists>e l'. (case fence_op l of (Inl e, l') \<Rightarrow> f e l' | (Inr u, l') \<Rightarrow> g u l') = f e l' \<and> lost l'"
  using assms by (rule refused_result) auto

lemma lost_forever: "lost l \<Longrightarrow> lost (((\<lambda>l. snd (fence_op l)) ^^ n) l)"
  by (induction n) (simp_all add: lost_stays)

lemma refused_forever: "lost l \<Longrightarrow> \<exists>e. fst (fence_op (((\<lambda>l. snd (fence_op l)) ^^ n) l)) = Inl e"
  using lost_forever lost_refused by blast

end

definition fence_lost :: "lease \<Rightarrow> lease_db \<Rightarrow> bool" where
  "fence_lost l db \<longleftrightarrow> dispossessed l db \<and> \<not> db_commit_ack db"

lemma interfere_ack [simp]: "db_commit_ack (interfere db) = db_commit_ack db"
  by (simp add: interfere_def split: list.split prod.split)

lemma access_commit_ack:
  "server_now db = (t, db1) \<Longrightarrow> db_commit_ack db1 = db_commit_ack db"
  "read_row db = (row, db1) \<Longrightarrow> db_commit_ack db1 = db_commit_ack db"
  "db_commit_ack (write_stmt s db) = db_commit_ack db"
  by (auto simp: server_now_def read_row_def write_stmt_def Let_def)

lemma refresh_commit_ack: "db_commit_ack (snd (conditional_refresh l live db)) = db_commit_ack db"
proof (cases "le_fencing_epoch l")
  case (Some e)
  obtain t db1 where n: "server_now db = (t, db1)" by (cases "server_now db")
  obtain row db3 where r: "read_row (write_stmt (Refresh l e t live) db1) = (row, db3)"
    by (cases "read_row (write_stmt (Refresh l e t live) db1)")
  obtain t4 db4 where n4: "server_now db3 = (t4, db4)" by (cases "server_now db3")
  show ?thesis
    using Some n r n4 access_commit_ack(1) [OF n] access_commit_ack(2) [OF r] access_commit_ack(1) [OF n4]
    by (simp add: conditional_refresh_def access_commit_ack(3))
qed (simp add: conditional_refresh_def)

interpretation lease_fence: write_fence "fence l" "fence_lost l" for l
proof
  fix db
  assume "fence_lost l db"
  then have d: "dispossessed l db" "\<not> db_commit_ack db" by (simp_all add: fence_lost_def)
  then show "\<exists>e. fst (fence l db) = Inl e"
    using conditional_refresh_lost [OF d(1)] by (simp add: fence_def)
  show "fence_lost l (snd (fence l db))"
    using d conditional_refresh_lost [OF d(1), of True] by (simp add: fence_def fence_lost_def refresh_commit_ack)
qed

lemma assert_current_ack: "db_commit_ack (snd (assert_current l db)) = db_commit_ack db"
proof -
  obtain row db1 where r: "read_row db = (row, db1)" by (cases "read_row db")
  obtain t db2 where n: "server_now db1 = (t, db2)" by (cases "server_now db1")
  show ?thesis using access_commit_ack(2) [OF r] access_commit_ack(1) [OF n]
    by (auto simp: assert_current_def r n Let_def split: option.split)
qed

lemma assert_current_lost:
  assumes "dispossessed l db"
  shows "\<exists>e. fst (assert_current l db) = Inl e" "dispossessed l (snd (assert_current l db))"
proof -
  obtain row db1 where r: "read_row db = (row, db1)" by (cases "read_row db")
  obtain t db2 where n: "server_now db1 = (t, db2)" by (cases "server_now db1")
  note d = dispossessed_access(2) [OF assms r]
  have "\<not> matches l e row" for e using d matches_held by blast
  then show "\<exists>e. fst (assert_current l db) = Inl e" "dispossessed l (snd (assert_current l db))"
    using d dispossessed_access(1) [OF _ n] assms
    by (auto simp: assert_current_def r n Let_def split: option.split)
qed

interpretation lease_check: write_fence "assert_current l" "fence_lost l" for l
proof
  fix db
  assume "fence_lost l db"
  then have d: "dispossessed l db" "\<not> db_commit_ack db" by (simp_all add: fence_lost_def)
  then show "\<exists>e. fst (assert_current l db) = Inl e" by (intro assert_current_lost)
  show "fence_lost l (snd (assert_current l db))"
    using d assert_current_lost(2) [OF d(1)] by (simp add: fence_lost_def assert_current_ack)
qed

end
