(* ===== verification/Commit_Protocol.thy ===== *)
theory Commit_Protocol
  imports Snapshot_Completion Destination_Lease
begin

text \<open>
  Admission of whole units into the open commit group, and the protocol that makes a group
  durable and then acknowledges it: a model of \<open>commit_group.py\<close>, \<open>unit_admission.py\<close>,
  \<open>commit_protocol.py\<close>, \<open>point_for\<close> of \<open>offsets.py\<close>, the unit loop of \<open>unit_apply.py\<close>, the staging
  transaction of \<open>spill_protocol.py\<close> and the rollback of \<open>applier.py\<close>, under \<open>src/cdc_flight\<close>.

  The destination is a \<open>store\<close>: its rows \<open>'d\<close>, the resume point, the commit log, the staged
  spill rows and the lease. A destination transaction is a working copy of the store; COMMIT
  replaces the store by it and ROLLBACK forgets it. What the protocol does not decide is its
  environment (\<open>commit_env\<close>): the row writer on a list of units with their staged prefixes, the
  Connect offsets of a raw record, the catalog's view of a unit, whether the service is
  writable at each check, how COMMIT ends (also: it took effect and the call still raised) and
  after how many acknowledgements the committer raises. A process that dies at any point is one that stops
  taking steps.

  Not modelled: schema epochs and catalog plans inside the transaction, backfill
  notifications, alerts, statistics, fault anchors and the watchdog timers.
\<close>

section \<open>The data\<close>

record resume_point =
  pt_partition :: json_object
  pt_offset :: json_object
  pt_last_lsn :: int
  pt_last_txn_id :: "string option"
  pt_last_total_order :: json
  pt_commit_id :: int
  pt_snapshot_epoch :: int

definition zero_point :: resume_point where
  "zero_point = \<lparr>pt_partition = [], pt_offset = [], pt_last_lsn = 0, pt_last_txn_id = None,
     pt_last_total_order = JNull, pt_commit_id = 0, pt_snapshot_epoch = 0\<rparr>"

datatype commit_result = EMPTY | BLOCKED | COMMITTED

record open_group =
  og_units :: "complete_unit list"
  og_events :: int
  og_nbytes :: nat
  og_is_snapshot :: bool
  og_close_requested :: bool
  og_txn_open :: bool
  og_spill_commit_id :: "int option"
  og_held_tables :: "string list"

definition new_group :: open_group where
  "new_group = \<lparr>og_units = [], og_events = 0, og_nbytes = 0, og_is_snapshot = False,
     og_close_requested = False, og_txn_open = False, og_spill_commit_id = None,
     og_held_tables = []\<rparr>"

record applier =
  ap_group :: open_group
  ap_resume_point :: resume_point
  ap_next_commit_id :: int
  ap_last_commit_id :: int
  ap_commit_groups :: nat
  ap_data_commit_groups :: nat
  ap_fenced_units :: nat
  ap_fenced_events :: int
  ap_fenced_spilled_events :: nat
  ap_resnapshot_discarded_events :: int
  ap_deferred_units :: nat
  ap_deferred_events :: int
  ap_completion :: completion
  ap_pending_notifications :: "nat list"
  ap_pending_discards :: "pending_record list"
  ap_blocked_tables :: "string list"
  ap_error :: bool

definition new_applier :: "resume_point \<Rightarrow> int \<Rightarrow> completion \<Rightarrow> string list \<Rightarrow> applier" where
  \<comment> \<open>\<open>blocked\<close>: the relations with a durable refusal, read from the control schema\<close>
  "new_applier point next_commit_id completion blocked =
     \<lparr>ap_group = new_group, ap_resume_point = point, ap_next_commit_id = next_commit_id,
      ap_last_commit_id = pt_commit_id point, ap_commit_groups = 0, ap_data_commit_groups = 0,
      ap_fenced_units = 0, ap_fenced_events = 0, ap_fenced_spilled_events = 0,
      ap_resnapshot_discarded_events = 0, ap_deferred_units = 0, ap_deferred_events = 0,
      ap_completion = completion, ap_pending_notifications = [], ap_pending_discards = [],
      ap_blocked_tables = blocked, ap_error = False\<rparr>"

record ap_config =
  ac_ack_every_record :: bool
  ac_resnapshot :: bool
  ac_ignored_tables :: "string list"
  ac_service :: bool

record 'd store =
  st_data :: 'd
  st_point :: "resume_point option"
  st_commit_log :: "int list"
  st_spill :: "((int \<times> nat) \<times> pending_record list) list"
  st_lease :: lease_db

record 'd flight =
  fl_app :: applier
  fl_store :: "'d store"
  fl_txn :: "'d store option"
  fl_marked :: "nat list"
  fl_batches :: nat

datatype write_failure =
    Unattributable
  | NotAdmitted refusal
  | TableFailed refusal
  | Raised

datatype commit_outcome = CommitDone | CommitRefused | CommitAmbiguous

datatype cp_error =
    Observation sc_error
  | PhaseBlocked
  | LeaseFailed lease_error
  | NotWritable
  | ResumePointDrift
  | WriteFailed write_failure
  | AdmissionRefused refusal
  | CommitRaised
  | AckRaised

record 'd commit_env =
  ce_config :: ap_config
  ce_lease :: lease
  ce_write :: "string list \<Rightarrow> (complete_unit \<times> pending_record list) list \<Rightarrow> int \<Rightarrow> 'd \<Rightarrow> write_failure + 'd"
  ce_offsets :: "nat \<Rightarrow> json_object option \<times> json_object option"
  ce_epoch :: int
  ce_writable :: "nat \<Rightarrow> bool"
  ce_sink :: bool
  ce_commit :: commit_outcome
  ce_ack_limit :: "nat option"
  ce_observe :: "complete_unit \<Rightarrow> refusal option"
  ce_owing :: "string list"

section \<open>The resume point of a group\<close>

definition terminal_record :: "complete_unit list \<Rightarrow> pending_record option" where
  "terminal_record us =
     (case filter (\<lambda>u. cu_records u \<noteq> []) (rev us) of
        [] \<Rightarrow> None
      | u # _ \<Rightarrow> Some (last (cu_records u)))"

definition with_offsets ::
  "(nat \<Rightarrow> json_object option \<times> json_object option) \<Rightarrow> pending_record \<Rightarrow> pending_record" where
  \<comment> \<open>the lazily decoded Connect offset of one record\<close>
  "with_offsets offsets r =
     (case (pr_source_offset r, pr_raw r) of
        (None, Some raw) \<Rightarrow>
          r\<lparr>pr_source_partition := fst (offsets raw), pr_source_offset := snd (offsets raw)\<rparr>
      | _ \<Rightarrow> r)"

definition object_or :: "json_object option \<Rightarrow> json_object" where
  "object_or x = (case x of None \<Rightarrow> [] | Some ps \<Rightarrow> ps)"

definition group_lsn :: "int \<Rightarrow> complete_unit list \<Rightarrow> int" where
  "group_lsn prev us = foldl (\<lambda>m u. max m (cu_last_lsn u)) prev us"

definition group_total_order :: "complete_unit list \<Rightarrow> json" where
  "group_total_order us =
     (case filter (\<lambda>u. cu_events u \<noteq> []) (rev us) of
        [] \<Rightarrow> JNull
      | u # _ \<Rightarrow> pr_total_order (last (cu_events u)))"

definition point_for ::
  "(nat \<Rightarrow> json_object option \<times> json_object option) \<Rightarrow> complete_unit list \<Rightarrow> resume_point \<Rightarrow>
   int \<Rightarrow> int \<Rightarrow> cp_error + resume_point" where
  "point_for offsets us prev commit_id epoch =
     (let term = map_option (with_offsets offsets) (terminal_record us);
          lsn = group_lsn (pt_last_lsn prev) us
      in if lsn > pt_last_lsn prev \<and>
            (case term of None \<Rightarrow> True | Some r \<Rightarrow> object_or (pr_source_offset r) = [])
         then Inl ResumePointDrift
         else Inr \<lparr>pt_partition =
                     (case term of None \<Rightarrow> pt_partition prev | Some r \<Rightarrow> object_or (pr_source_partition r)),
                   pt_offset =
                     (case term of None \<Rightarrow> pt_offset prev | Some r \<Rightarrow> object_or (pr_source_offset r)),
                   pt_last_lsn = lsn,
                   pt_last_txn_id =
                     (if truthy_str (cu_txn_id (last us)) then cu_txn_id (last us) else pt_last_txn_id prev),
                   pt_last_total_order = group_total_order us,
                   pt_commit_id = commit_id,
                   pt_snapshot_epoch = epoch\<rparr>)"

section \<open>Transactions and rollback\<close>

definition map_group :: "(open_group \<Rightarrow> open_group) \<Rightarrow> 'd flight \<Rightarrow> 'd flight" where
  "map_group f fl = fl\<lparr>fl_app := (fl_app fl)\<lparr>ap_group := f (ap_group (fl_app fl))\<rparr>\<rparr>"

definition reset_group :: "'d flight \<Rightarrow> 'd flight" where
  "reset_group = map_group (\<lambda>_. new_group)"

definition reset_after_rollback :: "'d flight \<Rightarrow> 'd flight" where
  \<comment> \<open>the buffered units are discarded, and counted as deferred\<close>
  "reset_after_rollback fl =
     (let failed = og_units (ap_group (fl_app fl)); fl1 = reset_group fl; ap = fl_app fl1
      in fl1\<lparr>fl_app := ap\<lparr>ap_deferred_units := ap_deferred_units ap + length failed,
              ap_deferred_events := ap_deferred_events ap + sum_list (map event_count failed)\<rparr>\<rparr>)"

definition rollback_quietly :: "'d flight \<Rightarrow> 'd flight" where
  "rollback_quietly fl =
     (if \<not> og_txn_open (ap_group (fl_app fl)) then reset_after_rollback fl
      else reset_after_rollback (map_group (\<lambda>g. g\<lparr>og_txn_open := False\<rparr>) (fl\<lparr>fl_txn := None\<rparr>)))"

definition begin_txn :: "'d flight \<Rightarrow> 'd flight" where
  "begin_txn fl =
     (if og_txn_open (ap_group (fl_app fl)) then fl
      else map_group (\<lambda>g. g\<lparr>og_txn_open := True\<rparr>) (fl\<lparr>fl_txn := Some (fl_store fl)\<rparr>))"

definition working :: "'d flight \<Rightarrow> 'd store" where
  "working fl = (case fl_txn fl of None \<Rightarrow> fl_store fl | Some s \<Rightarrow> s)"

definition staged_rows :: "'d store \<Rightarrow> int \<Rightarrow> nat option \<Rightarrow> pending_record list" where
  \<comment> \<open>\<open>spill.load\<close>\<close>
  "staged_rows s commit_id useq =
     (case useq of None \<Rightarrow> [] | Some q \<Rightarrow> dict_get (st_spill s) (commit_id, q) [])"

definition stage_events :: "ap_config \<Rightarrow> nat \<Rightarrow> bool \<Rightarrow> pending_record list \<Rightarrow> 'd flight \<Rightarrow> 'd flight" where
  \<comment> \<open>\<open>spill_protocol.stage_events\<close>, called by the assembler while a unit is open; the rows go
    into the group's own transaction\<close>
  "stage_events cfg useq snapshot evs fl =
     (if evs = [] \<or> (ac_resnapshot cfg \<and> \<not> snapshot) then fl
      else
        let fl1 = (if og_txn_open (ap_group (fl_app fl)) then fl
                   else let fl0 = begin_txn fl; ap = fl_app fl0 in
                     fl0\<lparr>fl_app := ap\<lparr>ap_group := (ap_group ap)\<lparr>og_spill_commit_id := Some (ap_next_commit_id ap)\<rparr>,
                                      ap_next_commit_id := ap_next_commit_id ap + 1\<rparr>\<rparr>);
            cid = int_or (og_spill_commit_id (ap_group (fl_app fl1))) (ap_next_commit_id (fl_app fl1));
            s = working fl1
        in fl1\<lparr>fl_txn := Some (s\<lparr>st_spill :=
              AList.update (cid, useq) (staged_rows s cid (Some useq) @ evs) (st_spill s)\<rparr>)\<rparr>)"

section \<open>Applying the units\<close>

text \<open>The unit loop: a fenced unit contributes nothing; a control or ignored unit plans nothing.\<close>

definition applicable :: "complete_unit \<Rightarrow> bool" where
  "applicable u \<longleftrightarrow> \<not> cu_fenced u \<and> cu_kind u \<noteq> UNIT_CONTROL \<and> \<not> cu_ignored u"

definition apply_units ::
  "'d commit_env \<Rightarrow> string list \<Rightarrow> complete_unit list \<Rightarrow> int \<Rightarrow> 'd store \<Rightarrow> cp_error + 'd store" where
  "apply_units env skipped us commit_id s =
     (case ce_write env skipped
             (map (\<lambda>u. (u, staged_rows s commit_id (cu_spill_unit_seq u))) (filter applicable us))
             commit_id (st_data s) of
        Inl e \<Rightarrow> Inl (WriteFailed e)
      | Inr d \<Rightarrow>
          Inr (s\<lparr>st_data := d,
                 st_spill := (if list_ex (\<lambda>u. cu_spill_unit_seq u \<noteq> None) us
                              then filter (\<lambda>((c, q), _). c \<noteq> commit_id) (st_spill s) else st_spill s)\<rparr>))"

definition unit_has_delivery_data :: "complete_unit \<Rightarrow> bool" where
  "unit_has_delivery_data u =
     (case cu_delivery_events u of
        Some n \<Rightarrow> n > 0
      | None \<Rightarrow> (cu_events u \<noteq> [] \<or> cu_spilled_events u > 0) \<and> list_ex is_delivery_data (cu_events u))"

definition has_data :: "complete_unit list \<Rightarrow> bool" where
  "has_data us = list_ex (\<lambda>u. \<not> cu_fenced u \<and> unit_has_delivery_data u) us"

section \<open>The commit\<close>

definition prepare ::
  "'d commit_env \<Rightarrow> string list \<Rightarrow> applier \<Rightarrow> int \<Rightarrow> 'd store \<Rightarrow> cp_error + resume_point \<times> 'd store" where
  \<comment> \<open>everything between BEGIN and COMMIT\<close>
  "prepare env skipped ap commit_id s =
     (case fence (ce_lease env) (st_lease s) of
        (Inl e, _) \<Rightarrow> Inl (LeaseFailed e)
      | (Inr _, ldb) \<Rightarrow>
          rbind (point_for (ce_offsets env) (og_units (ap_group ap)) (ap_resume_point ap) commit_id
                  (ce_epoch env)) (\<lambda>pt.
          rbind (apply_units env skipped (og_units (ap_group ap)) commit_id (s\<lparr>st_lease := ldb\<rparr>)) (\<lambda>s1.
            Inr (pt, s1\<lparr>st_commit_log := st_commit_log s1 @ [commit_id], st_point := Some pt\<rparr>))))"

definition ack_tokens :: "complete_unit list \<Rightarrow> nat list" where
  "ack_tokens us = List.map_filter pr_raw (concat (map cu_records us))"

definition acknowledge :: "'d commit_env \<Rightarrow> nat list \<Rightarrow> 'd flight \<Rightarrow> (cp_error + unit) \<times> 'd flight" where
  "acknowledge env tokens fl =
     (case ce_ack_limit env of
        Some n \<Rightarrow>
          if n \<le> length tokens
          then (Inl AckRaised, fl\<lparr>fl_marked := fl_marked fl @ take n tokens\<rparr>)
          else (Inr (), fl\<lparr>fl_marked := fl_marked fl @ tokens, fl_batches := Suc (fl_batches fl)\<rparr>)
      | None \<Rightarrow> (Inr (), fl\<lparr>fl_marked := fl_marked fl @ tokens, fl_batches := Suc (fl_batches fl)\<rparr>))"

definition commit_and_ack ::
  "'d commit_env \<Rightarrow> nat list \<Rightarrow> bool \<Rightarrow> 'd store \<Rightarrow> 'd flight \<Rightarrow> (cp_error + unit) \<times> 'd flight" where
  \<comment> \<open>the guarded window\<close>
  "commit_and_ack env tokens data s fl =
     (if ac_service (ce_config env) \<and> \<not> ce_writable env 1 then (Inl NotWritable, fl)
      else case ce_commit env of
             CommitRefused \<Rightarrow> (Inl CommitRaised, fl)
           | CommitAmbiguous \<Rightarrow> (Inl CommitRaised, fl\<lparr>fl_store := s\<rparr>)
           | CommitDone \<Rightarrow>
               let fl1 = map_group (\<lambda>g. g\<lparr>og_txn_open := False\<rparr>) (fl\<lparr>fl_store := s, fl_txn := None\<rparr>) in
               if ac_service (ce_config env) \<and> data \<and> \<not> ce_writable env 2 then (Inl NotWritable, fl1)
               else acknowledge env tokens fl1)"

definition settle :: "complete_unit list \<Rightarrow> bool \<Rightarrow> bool \<Rightarrow> int \<Rightarrow> resume_point \<Rightarrow> 'd flight \<Rightarrow>
    (cp_error + commit_result) \<times> 'd flight" where
  \<comment> \<open>after the acknowledgement\<close>
  "settle us notified data commit_id pt fl =
     (let ap0 = fl_app fl;
          ap = ap0\<lparr>ap_pending_notifications := (if notified then [] else ap_pending_notifications ap0),
                   ap_pending_discards := (if og_is_snapshot (ap_group ap0) then [] else ap_pending_discards ap0)\<rparr>
      in case observe_committed_group (ap_completion ap) us of
           Inl e \<Rightarrow> (Inl (Observation e), fl\<lparr>fl_app := ap\<rparr>)
         | Inr c \<Rightarrow>
             (Inr COMMITTED,
              reset_group (fl\<lparr>fl_app := ap\<lparr>ap_completion := c,
                ap_commit_groups := Suc (ap_commit_groups ap),
                ap_data_commit_groups := (if data then Suc (ap_data_commit_groups ap) else ap_data_commit_groups ap),
                ap_last_commit_id := commit_id, ap_resume_point := pt,
                ap_next_commit_id := max (ap_next_commit_id ap) (commit_id + 1)\<rparr>\<rparr>)))"

definition relation_name :: "refusal \<Rightarrow> string option" where
  "relation_name r = (if truthy_str (refused_schema r) \<and> truthy_str (refused_table r)
     then Some (the (refused_schema r) @ ''.'' @ the (refused_table r)) else None)"

definition contain ::
  "bool \<Rightarrow> refusal \<Rightarrow> 'd flight \<Rightarrow> (string \<times> 'd flight) option" where
  \<comment> \<open>\<open>contain_destination_failure\<close>; \<open>None\<close>: it raises the original error\<close>
  "contain sink r fl =
     (case relation_name r of
        None \<Rightarrow> None
      | Some q \<Rightarrow>
          if \<not> sink then None
          else Some (q, fl\<lparr>fl_app := (fl_app fl)\<lparr>ap_blocked_tables := List.insert q (ap_blocked_tables (fl_app fl)),
                                                ap_error := True\<rparr>\<rparr>))"

definition block_refused :: "refusal \<Rightarrow> 'd flight \<Rightarrow> 'd flight" where
  \<comment> \<open>\<open>_record_schema_refusal\<close>\<close>
  "block_refused r fl =
     (case relation_name r of
        None \<Rightarrow> fl
      | Some q \<Rightarrow> fl\<lparr>fl_app := (fl_app fl)\<lparr>ap_blocked_tables := List.insert q (ap_blocked_tables (fl_app fl))\<rparr>\<rparr>)"

definition set_lease :: "lease_db \<Rightarrow> 'd flight \<Rightarrow> 'd flight" where
  "set_lease ldb fl =
     (case fl_txn fl of
        None \<Rightarrow> fl\<lparr>fl_store := (fl_store fl)\<lparr>st_lease := ldb\<rparr>\<rparr>
      | Some s \<Rightarrow> fl\<lparr>fl_txn := Some (s\<lparr>st_lease := ldb\<rparr>)\<rparr>)"

definition service_admission_check :: "'d commit_env \<Rightarrow> 'd flight \<Rightarrow> (cp_error + unit) \<times> 'd flight" where
  \<comment> \<open>a Flight that lost its lease fails before it can open a destination transaction\<close>
  "service_admission_check env fl =
     (if \<not> ac_service (ce_config env) then (Inr (), fl)
      else if \<not> ce_writable env 0 then (Inl NotWritable, fl)
      else case assert_current (ce_lease env) (st_lease (working fl)) of
             (Inl e, ldb) \<Rightarrow> (Inl (LeaseFailed e), set_lease ldb fl)
           | (Inr _, ldb) \<Rightarrow> (Inr (), set_lease ldb fl))"

definition retry_group :: "open_group \<Rightarrow> 'd flight \<Rightarrow> 'd flight" where
  \<comment> \<open>the group as it was, without its transaction\<close>
  "retry_group g = map_group (\<lambda>_. g\<lparr>og_txn_open := False, og_held_tables := []\<rparr>)"

text \<open>One attempt at the group, and the retry of a group whose one table failed, with that table
  excluded. \<open>fuel\<close> bounds the attempts; \<open>None\<close> is "the attempts did not suffice".\<close>

fun commit_group ::
  "nat \<Rightarrow> 'd commit_env \<Rightarrow> string list \<Rightarrow> 'd flight \<Rightarrow> ((cp_error + commit_result) \<times> 'd flight) option" where
  "commit_group 0 env excluded fl = None"
| "commit_group (Suc fuel) env excluded fl =
     (let g = ap_group (fl_app fl); us = og_units g; c = ap_completion (fl_app fl) in
      if us = [] then Some (Inr EMPTY, fl)
      else case commit_ready c us of
             Inl e \<Rightarrow> Some (Inl (Observation e), fl)
           | Inr False \<Rightarrow> Some (Inr BLOCKED, fl)
           | Inr True \<Rightarrow>
      (case will_complete_after_commit c us of
         Inl e \<Rightarrow> Some (Inl (Observation e), fl)
       | Inr notified \<Rightarrow>
      (let cid = int_or (og_spill_commit_id g) (ap_next_commit_id (fl_app fl)) in
       case service_admission_check env fl of
         (Inl e, fl1) \<Rightarrow> Some (Inl e, fl1)
       | (Inr _, fl1) \<Rightarrow>
      (let fl2 = begin_txn fl1; ap = fl_app fl2;
           skipped = ap_blocked_tables ap @ og_held_tables (ap_group ap) @ excluded in
       case prepare env skipped ap cid (working fl2) of
         Inl (WriteFailed (TableFailed r)) \<Rightarrow>
           (let fl3 = rollback_quietly fl2 in
            case contain (ce_sink env) r fl3 of
              None \<Rightarrow> Some (Inl (WriteFailed (TableFailed r)), fl3)
            | Some (q, fl4) \<Rightarrow> commit_group fuel env [q] (retry_group g fl4))
       | Inl (WriteFailed (NotAdmitted r)) \<Rightarrow>
           Some (Inl (WriteFailed (NotAdmitted r)), block_refused r (rollback_quietly fl2))
       | Inl e \<Rightarrow> Some (Inl e, rollback_quietly fl2)
       | Inr (pt, s) \<Rightarrow>
           (let tokens = ack_tokens us @ (if notified then ap_pending_notifications ap else []) @
                         (if og_is_snapshot g then List.map_filter pr_raw (ap_pending_discards ap) else []) in
            case commit_and_ack env tokens (has_data us) s fl2 of
              (Inl e, fl3) \<Rightarrow> Some (Inl e, rollback_quietly fl3)
            | (Inr _, fl3) \<Rightarrow> Some (settle us notified (has_data us) cid pt fl3))))))"

section \<open>Admission\<close>

definition is_snapshot_unit :: "complete_unit \<Rightarrow> bool" where
  "is_snapshot_unit u \<longleftrightarrow>
     (cu_kind u = UNIT_SNAPSHOT_CHUNK \<and> \<not> cu_incremental u) \<or>
     list_ex (\<lambda>r. pr_kind r = KIND_SNAPSHOT_BOUNDARY) (cu_records u)"

definition idle_heartbeat_unit :: "complete_unit \<Rightarrow> bool" where
  "idle_heartbeat_unit u \<longleftrightarrow>
     (let rs = filter (\<lambda>r. pr_kind r \<noteq> KIND_TXN_BEGIN \<and> pr_kind r \<noteq> KIND_TXN_END) (cu_records u)
      in rs \<noteq> [] \<and>
         list_all (\<lambda>r. pr_kind r = KIND_HEARTBEAT \<or>
           (pr_kind r = KIND_MESSAGE \<and> pr_message_prefix r = Some ''cdc_flight_heartbeat'')) rs)"

definition mark_ignored_snapshot :: "ap_config \<Rightarrow> complete_unit \<Rightarrow> complete_unit" where
  "mark_ignored_snapshot cfg u =
     (if cu_kind u = UNIT_SNAPSHOT_CHUNK \<and> \<not> cu_incremental u \<and> truthy_str (cu_schema u) \<and>
         truthy_str (cu_table u) \<and> the (cu_schema u) @ ''.'' @ the (cu_table u) \<in> set (ac_ignored_tables cfg)
      then u\<lparr>cu_ignored := True\<rparr> else u)"

definition already_durable :: "applier \<Rightarrow> complete_unit \<Rightarrow> bool" where
  "already_durable ap u \<longleftrightarrow>
     cu_kind u = UNIT_TXN \<and> cu_last_lsn u \<noteq> 0 \<and> cu_last_lsn u \<le> pt_last_lsn (ap_resume_point ap)"

definition release_records :: "ap_config \<Rightarrow> complete_unit \<Rightarrow> complete_unit" where
  "release_records cfg u =
     (if \<not> ac_ack_every_record cfg \<and> length (cu_records u) > 1
      then u\<lparr>cu_records := [last (cu_records u)]\<rparr> else u)"

definition append_unit :: "ap_config \<Rightarrow> complete_unit \<Rightarrow> bool \<Rightarrow> applier \<Rightarrow> applier" where
  "append_unit cfg u snap ap =
     (let g0 = ap_group ap;
          g = (if og_units g0 = [] then g0\<lparr>og_is_snapshot := snap\<rparr> else g0);
          hit = already_durable ap u;
          u1 = release_records cfg (if hit then u\<lparr>cu_fenced := True\<rparr> else u)
      in ap\<lparr>ap_fenced_units := (if hit then Suc (ap_fenced_units ap) else ap_fenced_units ap),
            ap_fenced_events := (if hit then ap_fenced_events ap + event_count u else ap_fenced_events ap),
            ap_group := g\<lparr>og_units := og_units g @ [u1], og_events := og_events g + event_count u1,
                          og_nbytes := og_nbytes g + cu_nbytes u1\<rparr>\<rparr>)"

definition discard_resnapshot_unit :: "ap_config \<Rightarrow> complete_unit \<Rightarrow> applier \<Rightarrow> applier option" where
  \<comment> \<open>\<open>None\<close>: the unit is not discarded\<close>
  "discard_resnapshot_unit cfg u ap =
     (if \<not> ac_resnapshot cfg \<or> cu_kind u \<noteq> UNIT_TXN then None
      else Some (ap\<lparr>ap_fenced_units := Suc (ap_fenced_units ap),
                    ap_fenced_events := ap_fenced_events ap + event_count u,
                    ap_resnapshot_discarded_events := ap_resnapshot_discarded_events ap + event_count u,
                    ap_pending_discards := ap_pending_discards ap @ cu_records u,
                    ap_fenced_spilled_events := ap_fenced_spilled_events ap + cu_spilled_events u\<rparr>))"

type_synonym ('a, 'd) outcome = "((cp_error + 'a) \<times> 'd flight) option"

definition fbind :: "('a, 'd) outcome \<Rightarrow> ('a \<Rightarrow> 'd flight \<Rightarrow> ('b, 'd) outcome) \<Rightarrow> ('b, 'd) outcome" where
  "fbind m f = (case m of
     None \<Rightarrow> None
   | Some (Inl e, fl) \<Rightarrow> Some (Inl e, fl)
   | Some (Inr a, fl) \<Rightarrow> f a fl)"

fun note_refusals :: "refusal list \<Rightarrow> 'd flight \<Rightarrow> (unit, 'd) outcome" where
  "note_refusals [] fl = Some (Inr (), fl)"
| "note_refusals (r # rs) fl =
     (case relation_name r of
        None \<Rightarrow> Some (Inl (AdmissionRefused r), fl)
      | Some q \<Rightarrow> note_refusals rs (fl\<lparr>fl_app := (fl_app fl)\<lparr>
          ap_blocked_tables := List.insert q (ap_blocked_tables (fl_app fl)), ap_error := True\<rparr>\<rparr>))"

definition hold_log_owed_tail :: "'d commit_env \<Rightarrow> complete_unit \<Rightarrow> 'd flight \<Rightarrow> 'd flight" where
  \<comment> \<open>\<open>ce_owing\<close> is empty unless the drop mode is \<open>log\<close> and there is a catalog\<close>
  "hold_log_owed_tail env u fl =
     (if cu_kind u \<noteq> UNIT_TXN then fl
      else map_group (\<lambda>g. g\<lparr>og_held_tables :=
             og_held_tables g @ filter (\<lambda>t. t \<in> set (ce_owing env)) (tables_touched u)\<rparr>) fl)"

definition streaming_check :: "complete_unit \<Rightarrow> 'd flight \<Rightarrow> (unit, 'd) outcome" where
  "streaming_check u fl =
     (if idle_heartbeat_unit u then Some (Inr (), fl)
      else case check_streaming_admission (ap_completion (fl_app fl)) of
             Inl e \<Rightarrow> Some (Inl (Observation e), fl)
           | Inr _ \<Rightarrow> Some (Inr (), fl))"

definition require_committed :: "(commit_result, 'd) outcome \<Rightarrow> (bool, 'd) outcome" where
  "require_committed m = fbind m (\<lambda>r fl. Some (Inr (r = COMMITTED), fl))"

definition cross_boundary :: "nat \<Rightarrow> 'd commit_env \<Rightarrow> complete_unit \<Rightarrow> 'd flight \<Rightarrow> (unit, 'd) outcome" where
  "cross_boundary fuel env u fl =
     (let g = ap_group (fl_app fl) in
      if is_snapshot_unit u then Some (Inr (), fl)
      else if og_units g \<noteq> [] \<and> og_is_snapshot g \<and> has_boundary (og_units g) then
        fbind (require_committed (commit_group fuel env [] fl)) (\<lambda>ok fl1.
          if ok then Some (Inr (), fl1)
          else fbind (streaming_check u fl1) (\<lambda>_ fl2. Some (Inl PhaseBlocked, fl2)))
      else streaming_check u fl)"

definition change_phase :: "nat \<Rightarrow> 'd commit_env \<Rightarrow> complete_unit \<Rightarrow> 'd flight \<Rightarrow> (unit, 'd) outcome" where
  "change_phase fuel env u fl =
     (let g = ap_group (fl_app fl) in
      if og_units g \<noteq> [] \<and> is_snapshot_unit u \<noteq> og_is_snapshot g then
        fbind (require_committed (commit_group fuel env [] fl)) (\<lambda>ok fl1.
          Some (if ok then Inr () else Inl PhaseBlocked, fl1))
      else Some (Inr (), fl))"

definition begin_streaming :: "complete_unit \<Rightarrow> 'd flight \<Rightarrow> (unit, 'd) outcome" where
  "begin_streaming u fl =
     (if is_snapshot_unit u \<or> idle_heartbeat_unit u then Some (Inr (), fl)
      else case enter_streaming (ap_completion (fl_app fl)) of
             Inl e \<Rightarrow> Some (Inl (Observation e), fl)
           | Inr c \<Rightarrow> Some (Inr (), fl\<lparr>fl_app := (fl_app fl)\<lparr>ap_completion := c\<rparr>\<rparr>))"

definition admit_unit :: "nat \<Rightarrow> 'd commit_env \<Rightarrow> complete_unit \<Rightarrow> 'd flight \<Rightarrow> (unit, 'd) outcome" where
  "admit_unit fuel env u fl =
     fbind (note_refusals (cu_admission_refusals u) fl) (\<lambda>_ fl1.
     let fl2 = hold_log_owed_tail env u fl1 in
     case ce_observe env u of
       Some r \<Rightarrow> Some (Inl (AdmissionRefused r), fl2)
     | None \<Rightarrow>
         fbind (cross_boundary fuel env u fl2) (\<lambda>_ fl3.
         fbind (change_phase fuel env u fl3) (\<lambda>_ fl4.
         fbind (begin_streaming u fl4) (\<lambda>_ fl5.
           Some (Inr (), fl5\<lparr>fl_app := append_unit (ce_config env) u (is_snapshot_unit u) (fl_app fl5)\<rparr>)))))"

fun refused_by :: "cp_error \<Rightarrow> refusal option" where
  \<comment> \<open>the errors that are an \<open>AdmissionError\<close>\<close>
  "refused_by (AdmissionRefused r) = Some r"
| "refused_by (WriteFailed (NotAdmitted r)) = Some r"
| "refused_by _ = None"

definition add_unit :: "nat \<Rightarrow> 'd commit_env \<Rightarrow> complete_unit \<Rightarrow> 'd flight \<Rightarrow> (unit, 'd) outcome" where
  "add_unit fuel env u0 fl =
     (let u = mark_ignored_snapshot (ce_config env) u0 in
      case discard_resnapshot_unit (ce_config env) u (fl_app fl) of
        Some ap \<Rightarrow> Some (Inr (), fl\<lparr>fl_app := ap\<rparr>)
      | None \<Rightarrow>
          (case admit_unit fuel env u fl of
             Some (Inl e, fl1) \<Rightarrow>
               (case refused_by e of
                  None \<Rightarrow> Some (Inl e, fl1)
                | Some r \<Rightarrow>
                    Some (Inl e, block_refused r (if relation_name r = None then fl1 else rollback_quietly fl1)))
           | x \<Rightarrow> x))"

end
