(* ===== verification/Exactly_Once.thy ===== *)
theory Exactly_Once
  imports Commit_Protocol
begin

text \<open>
  What the commit protocol of \<open>Commit_Protocol\<close> guarantees.

  First one call of \<open>commit_group\<close>: whatever happens inside it, the destination either keeps its
  state or takes rows, resume point and commit-log entry together, and nothing is acknowledged in
  the first case. Then a whole system: a source that delivers units in order and starts over at
  any unacknowledged unit, a Flight that admits and commits them, and crashes at any
  moment. Every reachable destination holds exactly the transactions at or below its resume
  point, each applied once and in source order.
\<close>

section \<open>One call of \<open>commit_group\<close>\<close>

abbreviation units_of :: "'d flight \<Rightarrow> complete_unit list" where
  "units_of fl \<equiv> og_units (ap_group (fl_app fl))"

abbreviation point_of :: "'d flight \<Rightarrow> resume_point" where
  "point_of fl \<equiv> ap_resume_point (fl_app fl)"

text \<open>The destination state that matters to the source: rows, resume point and commit log.\<close>

definition durable :: "'d store \<Rightarrow> 'd \<times> resume_point option \<times> int list" where
  "durable s = (st_data s, st_point s, st_commit_log s)"

text \<open>An open transaction holds no rows, points or log entries of its own before \<open>commit_group\<close>: only
  staged rows.\<close>

definition txn_ok :: "'d flight \<Rightarrow> bool" where
  "txn_ok fl \<longleftrightarrow> og_txn_open (ap_group (fl_app fl)) = (fl_txn fl \<noteq> None) \<and>
     (case fl_txn fl of None \<Rightarrow> True | Some s \<Rightarrow> durable s = durable (fl_store fl))"

definition committed :: "'d commit_env \<Rightarrow> 'd flight \<Rightarrow> 'd store \<Rightarrow> bool" where
  "committed env fl s \<longleftrightarrow> (\<exists>skipped stg pt cid.
     point_for (ce_offsets env) (units_of fl) (point_of fl) cid (ce_epoch env) = Inr pt \<and>
     (\<forall>u. cu_spill_unit_seq u = None \<longrightarrow> stg u = []) \<and>
     ce_write env skipped (map (\<lambda>u. (u, stg u)) (filter applicable (units_of fl))) cid
       (st_data (fl_store fl)) = Inr (st_data s) \<and>
     st_point s = Some pt \<and> st_commit_log s = st_commit_log (fl_store fl) @ [cid])"

lemma map_group_simps [simp]:
  "fl_store (map_group f fl) = fl_store fl" "fl_txn (map_group f fl) = fl_txn fl"
  "fl_marked (map_group f fl) = fl_marked fl" "fl_batches (map_group f fl) = fl_batches fl"
  "ap_group (fl_app (map_group f fl)) = f (ap_group (fl_app fl))"
  "point_of (map_group f fl) = point_of fl"
  "ap_completion (fl_app (map_group f fl)) = ap_completion (fl_app fl)"
  "ap_blocked_tables (fl_app (map_group f fl)) = ap_blocked_tables (fl_app fl)"
  "ap_pending_notifications (fl_app (map_group f fl)) = ap_pending_notifications (fl_app fl)"
  "ap_pending_discards (fl_app (map_group f fl)) = ap_pending_discards (fl_app fl)"
  by (simp_all add: map_group_def)

lemma reset_after_rollback_simps [simp]:
  "fl_store (reset_after_rollback fl) = fl_store fl" "fl_txn (reset_after_rollback fl) = fl_txn fl"
  "fl_marked (reset_after_rollback fl) = fl_marked fl"
  "ap_group (fl_app (reset_after_rollback fl)) = new_group"
  "point_of (reset_after_rollback fl) = point_of fl"
  by (simp_all add: reset_after_rollback_def reset_group_def Let_def)

lemma new_group_simps [simp]:
  "og_units new_group = []" "og_is_snapshot new_group = False" "og_txn_open new_group = False"
  "og_held_tables new_group = []"
  by (simp_all add: new_group_def)

lemma rollback_simps [simp]:
  "fl_store (rollback_quietly fl) = fl_store fl" "fl_marked (rollback_quietly fl) = fl_marked fl"
  "ap_group (fl_app (rollback_quietly fl)) = new_group" "point_of (rollback_quietly fl) = point_of fl"
  by (simp_all add: rollback_quietly_def)

lemma rollback_txn: "txn_ok fl \<or> fl_txn fl = None \<Longrightarrow> fl_txn (rollback_quietly fl) = None"
  by (auto simp: rollback_quietly_def txn_ok_def)

lemma begin_txn_simps [simp]:
  "fl_store (begin_txn fl) = fl_store fl" "fl_marked (begin_txn fl) = fl_marked fl"
  "units_of (begin_txn fl) = units_of fl" "point_of (begin_txn fl) = point_of fl"
  "og_is_snapshot (ap_group (fl_app (begin_txn fl))) = og_is_snapshot (ap_group (fl_app fl))"
  "og_txn_open (ap_group (fl_app (begin_txn fl)))"
  by (simp_all add: begin_txn_def)

lemma begin_txn_ok: "txn_ok fl \<Longrightarrow> txn_ok (begin_txn fl)"
  by (auto simp: txn_ok_def begin_txn_def)

lemma begin_txn_open: "txn_ok fl \<Longrightarrow> fl_txn (begin_txn fl) \<noteq> None"
  by (auto simp: txn_ok_def begin_txn_def)

lemma working_durable: "txn_ok fl \<Longrightarrow> durable (working fl) = durable (fl_store fl)"
  by (auto simp: txn_ok_def working_def split: option.split)

lemma set_lease_simps [simp]:
  "durable (fl_store (set_lease l fl)) = durable (fl_store fl)"
  "fl_app (set_lease l fl) = fl_app fl" "fl_marked (set_lease l fl) = fl_marked fl"
  by (auto simp: set_lease_def durable_def split: option.split)

lemma set_lease_ok: "txn_ok fl \<Longrightarrow> txn_ok (set_lease l fl)"
  by (auto simp: txn_ok_def set_lease_def durable_def split: option.split)

lemma admission_check_frame:
  assumes "service_admission_check env fl = (r, fl1)"
  shows "fl_app fl1 = fl_app fl \<and> fl_marked fl1 = fl_marked fl \<and>
    durable (fl_store fl1) = durable (fl_store fl) \<and> (txn_ok fl \<longrightarrow> txn_ok fl1)"
  using assms set_lease_ok
  by (auto simp: service_admission_check_def split: if_splits prod.splits sum.splits)

lemma prepare_commits:
  assumes "prepare env skipped ap cid s0 = Inr (pt, s)" and "durable s0 = durable (fl_store fl)"
    and "og_units (ap_group ap) = units_of fl" and "ap_resume_point ap = point_of fl"
  shows "committed env fl s \<and> st_point s = Some pt"
proof -
  obtain ldb s1 where
    pt: "point_for (ce_offsets env) (units_of fl) (point_of fl) cid (ce_epoch env) = Inr pt" and
    s1: "apply_units env skipped (units_of fl) cid (s0\<lparr>st_lease := ldb\<rparr>) = Inr s1" and
    s: "s = s1\<lparr>st_commit_log := st_commit_log s1 @ [cid], st_point := Some pt\<rparr>"
    using assms(1) unfolding prepare_def assms(3,4)
    by (auto simp: rbind_eq_Inr split: prod.splits sum.splits)
  let ?stg = "\<lambda>u. staged_rows (s0\<lparr>st_lease := ldb\<rparr>) cid (cu_spill_unit_seq u)"
  have "ce_write env skipped (map (\<lambda>u. (u, ?stg u)) (filter applicable (units_of fl))) cid
      (st_data s0) = Inr (st_data s1)" and "st_commit_log s1 = st_commit_log s0"
    using s1 by (auto simp: apply_units_def split: sum.splits)
  moreover have "\<forall>u. cu_spill_unit_seq u = None \<longrightarrow> ?stg u = []" by (simp add: staged_rows_def)
  moreover have "st_data s0 = st_data (fl_store fl)" "st_commit_log s0 = st_commit_log (fl_store fl)"
    using assms(2) by (simp_all add: durable_def)
  ultimately show ?thesis unfolding committed_def using pt s
    by (intro conjI exI [of _ skipped] exI [of _ ?stg] exI [of _ pt] exI [of _ cid]) (simp_all add: staged_rows_def)
qed

lemma commit_and_ack_spec:
  assumes "commit_and_ack env tokens data s fl = (r, fl')"
  shows "(fl_store fl' = fl_store fl \<and> fl_marked fl' = fl_marked fl \<and> r \<noteq> Inr ()) \<or>
    (fl_store fl' = s \<and> (\<exists>n. fl_marked fl' = fl_marked fl @ take n tokens) \<and>
     (r = Inr () \<longrightarrow> fl_txn fl' = None \<and> fl_marked fl' = fl_marked fl @ tokens \<and> point_of fl' = point_of fl \<and>
        ap_completion (fl_app fl') = ap_completion (fl_app fl)))"
proof -
  have a: "fl_store f1 = fl_store f \<and> (\<exists>n. fl_marked f1 = fl_marked f @ take n tokens) \<and>
      fl_app f1 = fl_app f \<and> fl_txn f1 = fl_txn f \<and> (x = Inr () \<longrightarrow> fl_marked f1 = fl_marked f @ tokens)"
    if "acknowledge env tokens f = (x, f1)" for f f1 :: "'a flight" and x
  proof -
    have "\<exists>n. fl_marked f @ tokens = fl_marked f @ take n tokens" by (rule exI [of _ "length tokens"]) simp
    with that show ?thesis by (auto simp: acknowledge_def split: option.splits if_splits)
  qed
  have n: "\<exists>n. fl_marked fl = fl_marked fl @ take n tokens" by (rule exI [of _ 0]) simp
  show ?thesis
  proof (cases "ac_service (ce_config env) \<and> \<not> ce_writable env 1")
    case True
    with assms show ?thesis by (auto simp: commit_and_ack_def)
  next
    case False
    let ?f = "map_group (\<lambda>g. g\<lparr>og_txn_open := False\<rparr>) (fl\<lparr>fl_store := s, fl_txn := None\<rparr>)"
    show ?thesis
    proof (cases "ce_commit env")
      case CommitDone
      obtain x f1 where ack: "acknowledge env tokens ?f = (x, f1)" by fastforce
      from a [OF ack] have f1: "fl_store f1 = s" "\<exists>n. fl_marked f1 = fl_marked fl @ take n tokens"
        "fl_txn f1 = None" "point_of f1 = point_of fl" "ap_completion (fl_app f1) = ap_completion (fl_app fl)"
        "x = Inr () \<longrightarrow> fl_marked f1 = fl_marked fl @ tokens"
        by simp_all
      have "(r, fl') = (Inl NotWritable, ?f) \<or> (r, fl') = (x, f1)"
        using assms False CommitDone ack by (simp add: commit_and_ack_def Let_def split: if_splits)
      then show ?thesis using f1 n by auto
    qed (use assms False n in \<open>auto simp: commit_and_ack_def\<close>)
  qed
qed

lemma settle_spec:
  assumes "settle us notified data cid pt fl = (r, fl')" and "fl_txn fl = None"
  shows "fl_store fl' = fl_store fl \<and> fl_marked fl' = fl_marked fl \<and>
    (\<forall>x. r = Inr x \<longrightarrow> x = COMMITTED \<and> ap_group (fl_app fl') = new_group \<and> point_of fl' = pt \<and> txn_ok fl')"
  using assms by (auto simp: settle_def Let_def reset_group_def txn_ok_def split: sum.splits)

text \<open>The two ways a call can end.\<close>

definition kept :: "'d flight \<Rightarrow> cp_error + commit_result \<Rightarrow> 'd flight \<Rightarrow> bool" where
  "kept fl r fl' \<longleftrightarrow> durable (fl_store fl') = durable (fl_store fl) \<and> fl_marked fl' = fl_marked fl \<and>
     (\<forall>x. r = Inr x \<longrightarrow> x \<noteq> COMMITTED \<and> txn_ok fl' \<and> units_of fl' = units_of fl \<and>
        point_of fl' = point_of fl \<and>
        og_is_snapshot (ap_group (fl_app fl')) = og_is_snapshot (ap_group (fl_app fl)))"

definition made_durable :: "'d commit_env \<Rightarrow> 'd flight \<Rightarrow> cp_error + commit_result \<Rightarrow> 'd flight \<Rightarrow> bool" where
  "made_durable env fl r fl' \<longleftrightarrow> committed env fl (fl_store fl') \<and>
     (\<exists>toks. fl_marked fl' = fl_marked fl @ toks) \<and>
     (\<forall>x. r = Inr x \<longrightarrow> x = COMMITTED \<and> ap_group (fl_app fl') = new_group \<and> txn_ok fl' \<and>
        st_point (fl_store fl') = Some (point_of fl'))"

lemma committed_cong:
  assumes "committed env fl s" and "units_of fl = units_of fl0" and "point_of fl = point_of fl0"
    and "durable (fl_store fl) = durable (fl_store fl0)"
  shows "committed env fl0 s"
  using assms unfolding committed_def durable_def by simp

lemma contain_simps:
  assumes "contain sink r fl = Some (q, fl')"
  shows "fl_store fl' = fl_store fl" "fl_marked fl' = fl_marked fl" "fl_txn fl' = fl_txn fl"
    "ap_group (fl_app fl') = ap_group (fl_app fl)" "point_of fl' = point_of fl"
  using assms by (auto simp: contain_def split: option.splits if_splits)

lemma block_refused_simps [simp]:
  "fl_store (block_refused r fl) = fl_store fl" "fl_marked (block_refused r fl) = fl_marked fl"
  "fl_txn (block_refused r fl) = fl_txn fl" "point_of (block_refused r fl) = point_of fl"
  "ap_group (fl_app (block_refused r fl)) = ap_group (fl_app fl)"
  by (auto simp: block_refused_def split: option.split)

text \<open>The last phase, from the prepared transaction on.\<close>

lemma finish_spec:
  assumes "prepare env skipped (fl_app fl2) cid (working fl2) = Inr (pt, s)" and "txn_ok fl2"
    and "commit_and_ack env tokens data s fl2 = (r3, fl3)"
    and "units_of fl2 = units_of fl" and "point_of fl2 = point_of fl"
    and "durable (fl_store fl2) = durable (fl_store fl)" and "fl_marked fl2 = fl_marked fl"
    and "(r, fl') = (case r3 of Inl e \<Rightarrow> (Inl e, rollback_quietly fl3)
           | Inr _ \<Rightarrow> settle (units_of fl) notified data cid pt fl3)"
  shows "kept fl r fl' \<or> made_durable env fl r fl'"
proof -
  have "committed env fl2 s \<and> st_point s = Some pt"
    using prepare_commits [OF assms(1) working_durable [OF assms(2)]] by simp
  then have c: "committed env fl s" "st_point s = Some pt"
    using committed_cong assms(4-6) by blast+
  show ?thesis
  proof (cases r3)
    case (Inl e)
    then have "r = Inl e" "fl' = rollback_quietly fl3" using assms(8) by simp_all
    with commit_and_ack_spec [OF assms(3)] c(1) assms(6,7) Inl show ?thesis
      by (auto simp: kept_def made_durable_def)
  next
    case (Inr u)
    then have r3: "r3 = Inr ()" by simp
    have f3: "fl_store fl3 = s" "fl_txn fl3 = None" "fl_marked fl3 = fl_marked fl @ tokens"
      using commit_and_ack_spec [OF assms(3)] r3 assms(7) by auto
    have "settle (units_of fl) notified data cid pt fl3 = (r, fl')" using assms(8) r3 by simp
    from settle_spec [OF this f3(2)] f3 c show ?thesis by (auto simp: made_durable_def)
  qed
qed


lemma commit_group_spec:
  assumes "commit_group fuel env excluded fl = Some (r, fl')" and "txn_ok fl"
  shows "kept fl r fl' \<or> made_durable env fl r fl'"
  using assms
proof (induction fuel arbitrary: excluded fl)
  case 0
  then show ?case by simp
next
  case (Suc fuel)
  let ?g = "ap_group (fl_app fl)" and ?us = "units_of fl" and ?c = "ap_completion (fl_app fl)"
  let ?cid = "int_or (og_spill_commit_id ?g) (ap_next_commit_id (fl_app fl))"
  have quick: ?case if "r = Inr EMPTY \<and> fl' = fl \<or> r = Inr BLOCKED \<and> fl' = fl \<or> (\<exists>e. r = Inl e \<and> fl' = fl)"
    using that Suc.prems(2) by (auto simp: kept_def)
  show ?case
  proof (cases "?us \<noteq> [] \<and> commit_ready ?c ?us = Inr True \<and> is_ok (will_complete_after_commit ?c ?us)")
    case False
    then show ?thesis using Suc.prems(1)
      by (intro quick) (auto simp: Let_def split: if_splits sum.splits bool.splits)
  next
    case True
    then obtain notified where t: "?us \<noteq> []" "commit_ready ?c ?us = Inr True"
      "will_complete_after_commit ?c ?us = Inr notified" by (auto simp: is_ok_iff)
    obtain x fl1 where ad: "service_admission_check env fl = (x, fl1)" by fastforce
    note f1 = admission_check_frame [OF ad]
    show ?thesis
    proof (cases x)
      case (Inl e)
      then have "r = Inl e" "fl' = fl1" using Suc.prems(1) t ad by (simp_all add: Let_def)
      with f1 show ?thesis by (simp add: kept_def)
    next
      case (Inr u)
      let ?fl2 = "begin_txn fl1"
      let ?skipped = "ap_blocked_tables (fl_app ?fl2) @ og_held_tables (ap_group (fl_app ?fl2)) @ excluded"
      have ok2: "txn_ok ?fl2" using f1 Suc.prems(2) begin_txn_ok by blast
      have f2: "units_of ?fl2 = units_of fl" "point_of ?fl2 = point_of fl"
        "durable (fl_store ?fl2) = durable (fl_store fl)" "fl_marked ?fl2 = fl_marked fl"
        using f1 by simp_all
      show ?thesis
      proof (cases "prepare env ?skipped (fl_app ?fl2) ?cid (working ?fl2)")
        case (Inl e)
        note p = Inl
        show ?thesis
        proof (cases "\<exists>r0. e = WriteFailed (TableFailed r0)")
          case True
          then obtain r0 where e: "e = WriteFailed (TableFailed r0)" by blast
          show ?thesis
          proof (cases "contain (ce_sink env) r0 (rollback_quietly ?fl2)")
            case None
            then have "r = Inl e" "fl' = rollback_quietly ?fl2"
              using Suc.prems(1) t ad Inr p e by (simp_all add: Let_def)
            then show ?thesis using f2 by (simp add: kept_def)
          next
            case (Some qf)
            obtain q fl4 where qf: "qf = (q, fl4)" by (cases qf)
            note c = contain_simps [OF Some [unfolded qf]]
            let ?fl5 = "retry_group ?g fl4"
            have run: "commit_group fuel env [q] ?fl5 = Some (r, fl')"
              using Suc.prems(1) t ad Inr p e Some qf by (simp add: Let_def)
            have f5: "units_of ?fl5 = units_of fl" "point_of ?fl5 = point_of fl" "fl_marked ?fl5 = fl_marked fl"
              "durable (fl_store ?fl5) = durable (fl_store fl)" "fl_txn ?fl5 = None"
              "og_is_snapshot (ap_group (fl_app ?fl5)) = og_is_snapshot ?g"
              using c f2 rollback_txn [OF disjI1, OF ok2] by (simp_all add: retry_group_def)
            have "txn_ok ?fl5" using f5(5) by (simp add: txn_ok_def retry_group_def)
            from Suc.IH [OF run this] show ?thesis
              using f5 committed_cong [of env ?fl5 _ fl]
              by (auto simp: kept_def made_durable_def)
          qed
        next
          case False
          then have "r = Inl e \<and> (fl' = rollback_quietly ?fl2 \<or> (\<exists>r0. fl' = block_refused r0 (rollback_quietly ?fl2)))"
            using Suc.prems(1) t ad Inr p
            by (auto simp: Let_def split: cp_error.splits write_failure.splits)
          then show ?thesis using f2 by (auto simp: kept_def)
        qed
      next
        case (Inr ps)
        note p = Inr
        obtain pt s where ps: "ps = (pt, s)" by (cases ps)
        let ?tokens = "ack_tokens ?us @ (if notified then ap_pending_notifications (fl_app ?fl2) else []) @
          (if og_is_snapshot ?g then List.map_filter pr_raw (ap_pending_discards (fl_app ?fl2)) else [])"
        obtain r3 fl3 where ca: "commit_and_ack env ?tokens (has_data ?us) s ?fl2 = (r3, fl3)" by fastforce
        have "(r, fl') = (case r3 of Inl e \<Rightarrow> (Inl e, rollback_quietly fl3)
            | Inr _ \<Rightarrow> settle ?us notified (has_data ?us) ?cid pt fl3)"
          using Suc.prems(1) t ad \<open>x = Inr u\<close> p ps ca by (simp add: Let_def split: sum.splits)
        from finish_spec [OF p [unfolded ps] ok2 ca f2 this] show ?thesis .
      qed
    qed
  qed
qed


section \<open>The system\<close>

text \<open>The part of a unit the row writer is about.\<close>

definition core :: "complete_unit \<Rightarrow> complete_unit" where
  "core u = u\<lparr>cu_records := []\<rparr>"

text \<open>The data after a sequence of commit groups whose units together are \<open>us\<close>.\<close>

inductive applied ::
  "(string list \<Rightarrow> (complete_unit \<times> pending_record list) list \<Rightarrow> int \<Rightarrow> 'd \<Rightarrow> write_failure + 'd) \<Rightarrow>
   'd \<Rightarrow> complete_unit list \<Rightarrow> 'd \<Rightarrow> bool" for W d0 where
  applied_Nil: "applied W d0 [] d0"
| applied_group: "\<lbrakk>applied W d0 us d; W skipped (map (\<lambda>u. (u, [])) vs) cid d = Inr d'\<rbrakk> \<Longrightarrow>
    applied W d0 (us @ map core vs) d'"

text \<open>A source of transactions and control records, as the assembler hands them over: in order of their log
  position, each transaction above everything before it, and not spilled.\<close>

definition wf_source :: "complete_unit list \<Rightarrow> bool" where
  "wf_source src \<longleftrightarrow>
     sorted_wrt (\<lambda>u v. cu_last_lsn u \<le> cu_last_lsn v \<and>
       (cu_kind v = UNIT_TXN \<longrightarrow> cu_last_lsn u < cu_last_lsn v)) src \<and>
     list_all (\<lambda>u. (cu_kind u = UNIT_TXN \<and> cu_last_lsn u > 0 \<or> cu_kind u = UNIT_CONTROL) \<and>
       \<not> cu_fenced u \<and> \<not> cu_ignored u \<and> cu_spill_unit_seq u = None \<and> \<not> is_snapshot_unit u) src"

definition txns_upto :: "int \<Rightarrow> complete_unit list \<Rightarrow> complete_unit list" where
  "txns_upto lsn src = filter (\<lambda>u. cu_kind u = UNIT_TXN \<and> cu_last_lsn u \<le> lsn) src"

definition durable_lsn :: "'d store \<Rightarrow> int" where
  "durable_lsn s = (case st_point s of None \<Rightarrow> 0 | Some pt \<Rightarrow> pt_last_lsn pt)"

record 'd system =
  sy_flight :: "'d flight"
  sy_confirmed :: int
  sy_next :: nat
  sy_running :: bool

text \<open>The log position the source knows as processed, after the marks of a call on a group.\<close>

definition confirm :: "complete_unit list \<Rightarrow> nat list \<Rightarrow> int \<Rightarrow> int" where
  "confirm us marked lsn =
     foldl (\<lambda>m u. if (case unit_terminal u of None \<Rightarrow> False
                      | Some r \<Rightarrow> (case pr_raw r of None \<Rightarrow> False | Some t \<Rightarrow> t \<in> set marked))
                  then max m (cu_last_lsn u) else m) lsn us"

definition start_flight :: "'d store \<Rightarrow> completion \<Rightarrow> string list \<Rightarrow> 'd flight" where
  "start_flight s c blocked =
     \<lparr>fl_app = new_applier (case st_point s of None \<Rightarrow> zero_point | Some pt \<Rightarrow> pt)
                (foldl max 0 (st_commit_log s) + 1) c blocked,
      fl_store = s, fl_txn = None, fl_marked = [], fl_batches = 0\<rparr>"

inductive sys_step ::
  "(string list \<Rightarrow> (complete_unit \<times> pending_record list) list \<Rightarrow> int \<Rightarrow> 'd \<Rightarrow> write_failure + 'd) \<Rightarrow>
   complete_unit list \<Rightarrow> 'd system \<Rightarrow> 'd system \<Rightarrow> bool" for W src where
  deliver: "\<lbrakk>sy_running sy; sy_next sy < length src; ce_write env = W;
      \<not> ac_resnapshot (ce_config env);
      add_unit fuel env (src ! sy_next sy) (sy_flight sy) = Some (r, fl)\<rbrakk> \<Longrightarrow>
    sys_step W src sy
      (sy\<lparr>sy_flight := fl, sy_next := Suc (sy_next sy), sy_running := is_ok r\<rparr>)"
| commit: "\<lbrakk>sy_running sy; ce_write env = W; commit_group fuel env [] (sy_flight sy) = Some (r, fl)\<rbrakk> \<Longrightarrow>
    sys_step W src sy
      (sy\<lparr>sy_flight := fl, sy_running := is_ok r,
          sy_confirmed := confirm (units_of (sy_flight sy))
            (drop (length (fl_marked (sy_flight sy))) (fl_marked fl)) (sy_confirmed sy)\<rparr>)"
| restart: "\<lbrakk>j \<le> length src; \<forall>u \<in> set (take j src). cu_last_lsn u \<le> sy_confirmed sy\<rbrakk> \<Longrightarrow>
    sys_step W src sy
      (sy\<lparr>sy_flight := start_flight (fl_store (sy_flight sy)) c blocked, sy_next := j, sy_running := True\<rparr>)"

inductive reachable ::
  "(string list \<Rightarrow> (complete_unit \<times> pending_record list) list \<Rightarrow> int \<Rightarrow> 'd \<Rightarrow> write_failure + 'd) \<Rightarrow>
   complete_unit list \<Rightarrow> 'd \<Rightarrow> 'd system \<Rightarrow> bool" for W src d0 where
  reach_start: "\<lbrakk>st_data s = d0; st_point s = None; sy_flight sy = start_flight s c blocked;
      sy_confirmed sy = 0; sy_next sy = 0; sy_running sy = True\<rbrakk> \<Longrightarrow> reachable W src d0 sy"
| reach_step: "\<lbrakk>reachable W src d0 sy; sys_step W src sy sy'\<rbrakk> \<Longrightarrow> reachable W src d0 sy'"

section \<open>The invariant\<close>

text \<open>The group holds a contiguous part of the source; everything before it is durable.\<close>

definition admitted :: "int \<Rightarrow> complete_unit \<Rightarrow> complete_unit \<Rightarrow> bool" where
  "admitted lsn u v \<longleftrightarrow> cu_fenced v = (cu_kind u = UNIT_TXN \<and> cu_last_lsn u \<le> lsn) \<and>
     core v = (core u)\<lparr>cu_fenced := cu_fenced v\<rparr>"

definition in_step :: "complete_unit list \<Rightarrow> 'd system \<Rightarrow> bool" where
  "in_step src sy \<longleftrightarrow>
     (let fl = sy_flight sy; lsn = durable_lsn (fl_store fl) in
      pt_last_lsn (point_of fl) = lsn \<and> \<not> og_is_snapshot (ap_group (fl_app fl)) \<and> txn_ok fl \<and>
      (\<exists>a \<le> sy_next sy. sy_next sy \<le> length src \<and>
         list_all2 (admitted lsn) (drop a (take (sy_next sy) src)) (units_of fl) \<and>
         (\<forall>u \<in> set (take a src). cu_last_lsn u \<le> lsn)))"

lemma in_step_ghost [simp]:
  "in_step src (sy\<lparr>sy_running := b\<rparr>) = in_step src sy"
  "in_step src (sy\<lparr>sy_confirmed := c\<rparr>) = in_step src sy"
  by (simp_all add: in_step_def)

definition sys_inv ::
  "(string list \<Rightarrow> (complete_unit \<times> pending_record list) list \<Rightarrow> int \<Rightarrow> 'd \<Rightarrow> write_failure + 'd) \<Rightarrow>
   complete_unit list \<Rightarrow> 'd \<Rightarrow> 'd system \<Rightarrow> bool" where
  "sys_inv W src d0 sy \<longleftrightarrow>
     (let s = fl_store (sy_flight sy); lsn = durable_lsn s in
      applied W d0 (map core (txns_upto lsn src)) (st_data s) \<and>
      sy_confirmed sy \<le> lsn \<and> 0 \<le> lsn \<and> (sy_running sy \<longrightarrow> in_step src sy))"


subsection \<open>Delivery\<close>

definition same_core :: "'d flight \<Rightarrow> 'd flight \<Rightarrow> bool" where
  "same_core fl fl' \<longleftrightarrow> fl_store fl' = fl_store fl \<and> fl_txn fl' = fl_txn fl \<and> fl_marked fl' = fl_marked fl \<and>
     point_of fl' = point_of fl \<and> units_of fl' = units_of fl \<and>
     og_is_snapshot (ap_group (fl_app fl')) = og_is_snapshot (ap_group (fl_app fl)) \<and>
     og_txn_open (ap_group (fl_app fl')) = og_txn_open (ap_group (fl_app fl))"

lemma same_core_refl [simp]: "same_core fl fl"
  by (simp add: same_core_def)

lemma same_core_trans: "same_core fl fl' \<Longrightarrow> same_core fl' fl'' \<Longrightarrow> same_core fl fl''"
  by (simp add: same_core_def)

lemma note_refusals_core:
  assumes "note_refusals rs fl = Some (r, fl')"
  shows "same_core fl fl'"
  using assms
proof (induction rs arbitrary: fl)
  case (Cons x rs)
  show ?case
  proof (cases "relation_name x")
    case None
    with Cons.prems show ?thesis by simp
  next
    case (Some q)
    let ?f = "fl\<lparr>fl_app := (fl_app fl)\<lparr>ap_blocked_tables := List.insert q (ap_blocked_tables (fl_app fl)),
      ap_error := True\<rparr>\<rparr>"
    have "same_core ?f fl'" using Cons Some by simp
    moreover have "same_core fl ?f" by (simp add: same_core_def)
    ultimately show ?thesis by (rule same_core_trans [rotated])
  qed
qed simp

lemma hold_core: "same_core fl (hold_log_owed_tail env u fl)"
  by (simp add: hold_log_owed_tail_def same_core_def)

lemma streaming_check_core: "streaming_check u fl = Some (r, fl') \<Longrightarrow> same_core fl fl'"
  by (auto simp: streaming_check_def split: if_splits sum.splits)

lemma begin_streaming_core: "begin_streaming u fl = Some (r, fl') \<Longrightarrow> same_core fl fl'"
  by (auto simp: begin_streaming_def same_core_def split: if_splits sum.splits)

lemma fbind_Some:
  assumes "fbind m f = Some (r, fl')"
  obtains e fl1 where "m = Some (Inl e, fl1)" and "r = Inl e" and "fl' = fl1"
  | a fl1 where "m = Some (Inr a, fl1)" and "f a fl1 = Some (r, fl')"
  using assms by (auto simp: fbind_def split: option.splits sum.splits)

lemma admit_unit_spec:
  assumes "admit_unit fuel env u fl = Some (r, fl')" and "\<not> is_snapshot_unit u"
    and "\<not> og_is_snapshot (ap_group (fl_app fl))"
  shows "\<exists>f. same_core fl f \<and> (fl' = f \<and> r \<noteq> Inr () \<or>
    r = Inr () \<and> fl' = f\<lparr>fl_app := append_unit (ce_config env) u False (fl_app f)\<rparr>)"
proof -
  from assms(1) show ?thesis unfolding admit_unit_def
  proof (cases rule: fbind_Some)
    case (1 e fl1)
    then show ?thesis using note_refusals_core by blast
  next
    case (2 a fl1)
    let ?fl2 = "hold_log_owed_tail env u fl1"
    have c2: "same_core fl ?fl2"
      using note_refusals_core [OF 2(1)] hold_core same_core_trans by blast
    have run: "(case ce_observe env u of
       Some r \<Rightarrow> Some (Inl (AdmissionRefused r), ?fl2)
     | None \<Rightarrow>
         fbind (cross_boundary fuel env u ?fl2) (\<lambda>_ fl3.
         fbind (change_phase fuel env u fl3) (\<lambda>_ fl4.
         fbind (begin_streaming u fl4) (\<lambda>_ fl5.
           Some (Inr (), fl5\<lparr>fl_app := append_unit (ce_config env) u (is_snapshot_unit u) (fl_app fl5)\<rparr>)))))
      = Some (r, fl')" using 2(2) by (simp add: Let_def)
    show ?thesis
    proof (cases "ce_observe env u")
      case (Some x)
      then show ?thesis using run c2 by auto
    next
      case None
      have cb: "cross_boundary fuel env u ?fl2 = streaming_check u ?fl2"
        using c2 assms(2,3) by (simp add: cross_boundary_def same_core_def Let_def)
      from run None have "fbind (streaming_check u ?fl2) (\<lambda>_ fl3.
         fbind (change_phase fuel env u fl3) (\<lambda>_ fl4.
         fbind (begin_streaming u fl4) (\<lambda>_ fl5.
           Some (Inr (), fl5\<lparr>fl_app := append_unit (ce_config env) u (is_snapshot_unit u) (fl_app fl5)\<rparr>))))
         = Some (r, fl')" by (simp add: cb)
      then show ?thesis
      proof (cases rule: fbind_Some)
        case (1 e fl3)
        then show ?thesis using streaming_check_core c2 same_core_trans by blast
      next
        case (2 a fl3)
        have c3: "same_core fl fl3" using streaming_check_core [OF 2(1)] c2 same_core_trans by blast
        have "change_phase fuel env u fl3 = Some (Inr (), fl3)"
          using c3 assms(2,3) by (simp add: change_phase_def same_core_def Let_def)
        with 2(2) have "fbind (begin_streaming u fl3) (\<lambda>_ fl5.
           Some (Inr (), fl5\<lparr>fl_app := append_unit (ce_config env) u (is_snapshot_unit u) (fl_app fl5)\<rparr>))
           = Some (r, fl')" by (simp add: fbind_def)
        then show ?thesis
        proof (cases rule: fbind_Some)
          case (1 e fl5)
          then show ?thesis using begin_streaming_core c3 same_core_trans by blast
        next
          case (2 a fl5)
          then show ?thesis using begin_streaming_core [OF 2(1)] c3 same_core_trans assms(2) by auto
        qed
      qed
    qed
  qed
qed

lemma append_unit_simps:
  "ap_resume_point (append_unit cfg u snap ap) = ap_resume_point ap"
  "og_txn_open (ap_group (append_unit cfg u snap ap)) = og_txn_open (ap_group ap)"
  "og_is_snapshot (ap_group (append_unit cfg u snap ap)) =
     (if og_units (ap_group ap) = [] then snap else og_is_snapshot (ap_group ap))"
  "og_units (ap_group (append_unit cfg u snap ap)) = og_units (ap_group ap) @
     [release_records cfg (if already_durable ap u then u\<lparr>cu_fenced := True\<rparr> else u)]"
  by (simp_all add: append_unit_def Let_def)

lemma core_release: "core (release_records cfg u) = core u" "cu_fenced (release_records cfg u) = cu_fenced u"
  by (simp_all add: core_def release_records_def)

lemma append_admitted:
  assumes "\<not> cu_fenced u" and "cu_kind u = UNIT_TXN \<longrightarrow> cu_last_lsn u > 0"
    and "pt_last_lsn (ap_resume_point ap) = lsn"
  shows "admitted lsn u (release_records cfg (if already_durable ap u then u\<lparr>cu_fenced := True\<rparr> else u))"
  using assms by (auto simp: admitted_def core_release already_durable_def) (simp_all add: core_def)


lemma add_unit_core:
  assumes "add_unit fuel env u fl = Some (r, fl')" and "\<not> ac_resnapshot (ce_config env)"
    and "cu_kind u \<noteq> UNIT_SNAPSHOT_CHUNK" and "\<not> is_snapshot_unit u"
    and "\<not> og_is_snapshot (ap_group (fl_app fl))"
  shows "fl_store fl' = fl_store fl \<and> (r = Inr () \<longrightarrow> (\<exists>f. same_core fl f \<and>
    fl' = f\<lparr>fl_app := append_unit (ce_config env) u False (fl_app f)\<rparr>))"
proof -
  have m: "mark_ignored_snapshot (ce_config env) u = u" using assms(3) by (simp add: mark_ignored_snapshot_def)
  have d: "discard_resnapshot_unit (ce_config env) u (fl_app fl) = None"
    using assms(2) by (simp add: discard_resnapshot_unit_def)
  obtain r1 fl1 where a: "admit_unit fuel env u fl = Some (r1, fl1)"
    using assms(1) by (cases "admit_unit fuel env u fl") (auto simp: add_unit_def m d)
  from admit_unit_spec [OF a assms(4,5)] obtain f where
    f: "same_core fl f" "fl1 = f \<and> r1 \<noteq> Inr () \<or>
      r1 = Inr () \<and> fl1 = f\<lparr>fl_app := append_unit (ce_config env) u False (fl_app f)\<rparr>" by blast
  show ?thesis
  proof (cases r1)
    case (Inl e)
    then have "fl1 = f" using f(2) by auto
    moreover have "r = Inl e" "fl_store fl' = fl_store fl1"
      using assms(1) Inl by (auto simp: add_unit_def m d a split: option.splits if_splits)
    ultimately show ?thesis using f(1) by (simp add: same_core_def)
  next
    case (Inr x)
    then have "r = Inr ()" "fl' = fl1" using assms(1) by (simp_all add: add_unit_def m d a)
    with Inr f show ?thesis by (auto simp: same_core_def)
  qed
qed

lemma wf_source_at:
  assumes "wf_source src" and "u \<in> set src"
  shows "cu_kind u = UNIT_TXN \<and> cu_last_lsn u > 0 \<or> cu_kind u = UNIT_CONTROL"
    "\<not> cu_fenced u" "\<not> cu_ignored u" "cu_spill_unit_seq u = None" "\<not> is_snapshot_unit u"
  using assms by (auto simp: wf_source_def list_all_iff)

lemma take_Suc_drop:
  assumes "n < length xs" and "a \<le> n"
  shows "drop a (take (Suc n) xs) = drop a (take n xs) @ [xs ! n]"
  using assms by (simp add: take_Suc_conv_app_nth)

lemma deliver_inv:
  assumes "wf_source src" and "sys_inv W src d0 sy" and "sy_running sy" and "sy_next sy < length src"
    and "\<not> ac_resnapshot (ce_config env)"
    and "add_unit fuel env (src ! sy_next sy) (sy_flight sy) = Some (r, fl)"
  shows "sys_inv W src d0 (sy\<lparr>sy_flight := fl, sy_next := Suc (sy_next sy), sy_running := is_ok r\<rparr>)"
proof -
  let ?u = "src ! sy_next sy" and ?fl = "sy_flight sy"
  let ?lsn = "durable_lsn (fl_store ?fl)"
  note wf = wf_source_at [OF assms(1) nth_mem [OF assms(4)]]
  from assms(2,3) obtain a where st: "pt_last_lsn (point_of ?fl) = ?lsn"
    "\<not> og_is_snapshot (ap_group (fl_app ?fl))" "txn_ok ?fl" "a \<le> sy_next sy"
    "list_all2 (admitted ?lsn) (drop a (take (sy_next sy) src)) (units_of ?fl)"
    "\<forall>u \<in> set (take a src). cu_last_lsn u \<le> ?lsn"
    by (auto simp: sys_inv_def in_step_def Let_def)
  from wf(1) have k: "cu_kind ?u \<noteq> UNIT_SNAPSHOT_CHUNK" by auto
  note ac = add_unit_core [OF assms(6,5) k wf(5) st(2)]
  have "in_step src (sy\<lparr>sy_flight := fl, sy_next := Suc (sy_next sy), sy_running := True\<rparr>)" if "r = Inr ()"
  proof -
    from ac that obtain f where f: "same_core ?fl f"
      "fl = f\<lparr>fl_app := append_unit (ce_config env) ?u False (fl_app f)\<rparr>" by blast
    have p: "point_of f = point_of ?fl" using f(1) by (simp add: same_core_def)
    have "admitted ?lsn ?u (release_records (ce_config env)
        (if already_durable (fl_app f) ?u then ?u\<lparr>cu_fenced := True\<rparr> else ?u))"
      using wf(1,2) st(1) p by (intro append_admitted) auto
    then have "list_all2 (admitted ?lsn) (drop a (take (Suc (sy_next sy)) src)) (units_of fl)"
      using st(5) f by (simp add: take_Suc_drop [OF assms(4) st(4)] append_unit_simps same_core_def
          list_all2_appendI)
    moreover have "pt_last_lsn (point_of fl) = ?lsn" "\<not> og_is_snapshot (ap_group (fl_app fl))" "txn_ok fl"
      "fl_store fl = fl_store ?fl"
      using st(1,2,3) f by (auto simp: append_unit_simps same_core_def txn_ok_def split: option.splits)
    ultimately show ?thesis using st(4,6) assms(4)
      unfolding in_step_def Let_def by (auto intro: exI [of _ a])
  qed
  with ac assms(2) show ?thesis
    by (cases r) (auto simp: sys_inv_def Let_def in_step_def)
qed

lemma restart_inv:
  assumes "sys_inv W src d0 sy" and "j \<le> length src"
    and "\<forall>u \<in> set (take j src). cu_last_lsn u \<le> sy_confirmed sy"
  shows "sys_inv W src d0
    (sy\<lparr>sy_flight := start_flight (fl_store (sy_flight sy)) c blocked, sy_next := j, sy_running := True\<rparr>)"
proof -
  let ?s = "fl_store (sy_flight sy)" and ?fl = "start_flight (fl_store (sy_flight sy)) c blocked"
  have "fl_store ?fl = ?s" "units_of ?fl = []" "pt_last_lsn (point_of ?fl) = durable_lsn ?s"
    "\<not> og_is_snapshot (ap_group (fl_app ?fl))" "txn_ok ?fl"
    by (simp_all add: start_flight_def new_applier_def durable_lsn_def zero_point_def txn_ok_def
        split: option.split)
  moreover have "\<forall>u \<in> set (take j src). cu_last_lsn u \<le> durable_lsn ?s"
    using assms(1,3) by (auto simp: sys_inv_def Let_def)
  ultimately show ?thesis
    using assms(1,2) unfolding sys_inv_def in_step_def Let_def by (auto intro!: exI [of _ j])
qed


subsection \<open>Commit\<close>

lemma group_lsn_bounds:
  "lsn \<le> group_lsn lsn us" "u \<in> set us \<Longrightarrow> cu_last_lsn u \<le> group_lsn lsn us"
  "group_lsn lsn us = lsn \<or> (\<exists>u \<in> set us. group_lsn lsn us = cu_last_lsn u)"
proof -
  have *: "lsn \<le> group_lsn lsn us \<and> (\<forall>u \<in> set us. cu_last_lsn u \<le> group_lsn lsn us) \<and>
      (group_lsn lsn us = lsn \<or> (\<exists>u \<in> set us. group_lsn lsn us = cu_last_lsn u))"
  proof (induction us arbitrary: lsn)
    case (Cons v us)
    have g: "group_lsn lsn (v # us) = group_lsn (max lsn (cu_last_lsn v)) us" by (simp add: group_lsn_def)
    show ?case using Cons [of "max lsn (cu_last_lsn v)"] unfolding g by (auto simp: max_def split: if_splits)
  qed (simp add: group_lsn_def)
  show "lsn \<le> group_lsn lsn us" "u \<in> set us \<Longrightarrow> cu_last_lsn u \<le> group_lsn lsn us"
    "group_lsn lsn us = lsn \<or> (\<exists>u \<in> set us. group_lsn lsn us = cu_last_lsn u)" using * by blast+
qed

lemma confirm_le:
  assumes "c \<le> m" and "\<forall>u \<in> set us. cu_last_lsn u \<le> m"
  shows "confirm us toks c \<le> m"
  using assms unfolding confirm_def by (induction us arbitrary: c) auto

lemma confirm_none: "confirm us [] c = c"
  unfolding confirm_def by (induction us arbitrary: c) (auto split: option.splits)

lemma admitted_fields:
  assumes "admitted lsn u v"
  shows "cu_last_lsn v = cu_last_lsn u" "cu_kind v = cu_kind u" "cu_ignored v = cu_ignored u"
    "cu_spill_unit_seq v = cu_spill_unit_seq u" "cu_fenced v = (cu_kind u = UNIT_TXN \<and> cu_last_lsn u \<le> lsn)"
    "core v = (core u)\<lparr>cu_fenced := cu_fenced v\<rparr>"
proof -
  have c: "core v = (core u)\<lparr>cu_fenced := cu_fenced v\<rparr>" using assms by (simp add: admitted_def)
  have "cu_last_lsn (core v) = cu_last_lsn (core u)" "cu_kind (core v) = cu_kind (core u)"
    "cu_ignored (core v) = cu_ignored (core u)" "cu_spill_unit_seq (core v) = cu_spill_unit_seq (core u)"
    unfolding c by simp_all
  then show "cu_last_lsn v = cu_last_lsn u" "cu_kind v = cu_kind u" "cu_ignored v = cu_ignored u"
    "cu_spill_unit_seq v = cu_spill_unit_seq u" by (simp_all add: core_def)
qed (use assms in \<open>simp_all add: admitted_def\<close>)

lemma core_unfenced: "\<not> cu_fenced u \<Longrightarrow> (core u)\<lparr>cu_fenced := False\<rparr> = core u"
  by (cases u) (simp add: core_def)

lemma applicable_units:
  assumes "list_all2 (admitted lsn) seg us"
    and "\<forall>u \<in> set seg. (cu_kind u = UNIT_TXN \<or> cu_kind u = UNIT_CONTROL) \<and> \<not> cu_fenced u \<and> \<not> cu_ignored u"
  shows "map core (filter applicable us) =
    map core (filter (\<lambda>u. cu_kind u = UNIT_TXN \<and> lsn < cu_last_lsn u) seg)"
  using assms
proof (induction rule: list_all2_induct)
  case (Cons u seg v us)
  note f = admitted_fields [OF Cons.hyps(1)]
  have a: "applicable v \<longleftrightarrow> cu_kind u = UNIT_TXN \<and> lsn < cu_last_lsn u"
    using Cons.prems f by (auto simp: applicable_def)
  moreover have "core v = core u" if "applicable v"
    using that f(6) core_unfenced [of u] Cons.prems by (simp add: applicable_def)
  ultimately show ?case using Cons by auto
qed simp

lemma txns_upto_split:
  assumes "sorted_wrt (\<lambda>u v. cu_last_lsn u \<le> cu_last_lsn v) src" and "lsn \<le> lsn'"
  shows "txns_upto lsn' src = txns_upto lsn src @
    filter (\<lambda>u. cu_kind u = UNIT_TXN \<and> lsn < cu_last_lsn u \<and> cu_last_lsn u \<le> lsn') src"
  using assms(1)
proof (induction src)
  case (Cons u src)
  show ?case
  proof (cases "cu_last_lsn u \<le> lsn")
    case True
    with Cons assms(2) show ?thesis by (simp add: txns_upto_def)
  next
    case False
    then have "txns_upto lsn (u # src) = []" "txns_upto lsn src = []"
      using Cons.prems by (auto simp: txns_upto_def filter_empty_conv)
    with False Cons show ?thesis by (simp add: txns_upto_def)
  qed
qed (simp add: txns_upto_def)

lemma filter_nothing: "(\<And>x. x \<in> set xs \<Longrightarrow> \<not> P x) \<Longrightarrow> filter P xs = []"
  by (simp add: filter_empty_conv)

text \<open>What a commit of a contiguous part adds to the durable transactions.\<close>

lemma txns_upto_commit:
  assumes "wf_source src" and "a \<le> n" and "\<forall>u \<in> set (take a src). cu_last_lsn u \<le> lsn"
    and "lsn' = lsn \<or> (\<exists>u \<in> set (drop a (take n src)). lsn' = cu_last_lsn u)" and "lsn \<le> lsn'"
    and "\<forall>u \<in> set (drop a (take n src)). cu_last_lsn u \<le> lsn'"
  shows "txns_upto lsn' src = txns_upto lsn src @
    filter (\<lambda>u. cu_kind u = UNIT_TXN \<and> lsn < cu_last_lsn u) (drop a (take n src))"
proof -
  let ?R = "\<lambda>u v. cu_last_lsn u \<le> cu_last_lsn v \<and> (cu_kind v = UNIT_TXN \<longrightarrow> cu_last_lsn u < cu_last_lsn v)"
  let ?P = "\<lambda>u. cu_kind u = UNIT_TXN \<and> lsn < cu_last_lsn u \<and> cu_last_lsn u \<le> lsn'"
  have so: "sorted_wrt ?R src" using assms(1) by (simp add: wf_source_def)
  then have le: "sorted_wrt (\<lambda>u v. cu_last_lsn u \<le> cu_last_lsn v) src"
    by (rule sorted_wrt_mono_rel [rotated]) simp
  have parts: "src = take a src @ drop a (take n src) @ drop n src"
    using assms(2) by (metis append_take_drop_id append_assoc drop_take le_add_diff_inverse take_add)
  have before: "cu_last_lsn u < cu_last_lsn v"
    if "u \<in> set (drop a (take n src))" "v \<in> set (drop n src)" "cu_kind v = UNIT_TXN" for u v
  proof -
    have "sorted_wrt ?R (take n src @ drop n src)" using so by simp
    then have "\<forall>u \<in> set (take n src). \<forall>v \<in> set (drop n src). ?R u v" unfolding sorted_wrt_append by blast
    then show ?thesis using that in_set_dropD by fast
  qed
  have "filter ?P (take a src) = []" using assms(3) by (intro filter_nothing) auto
  moreover have "filter ?P (drop n src) = []"
    using assms(4) before by (intro filter_nothing) force
  moreover have "filter ?P (drop a (take n src)) =
      filter (\<lambda>u. cu_kind u = UNIT_TXN \<and> lsn < cu_last_lsn u) (drop a (take n src))"
    using assms(6) by (intro filter_cong) auto
  ultimately have "filter ?P src = filter (\<lambda>u. cu_kind u = UNIT_TXN \<and> lsn < cu_last_lsn u) (drop a (take n src))"
    by (subst parts) (simp only: filter_append append_Nil append_Nil2)
  then show ?thesis using txns_upto_split [OF le assms(5)] by simp
qed


lemma durable_lsn_cong: "durable s = durable s' \<Longrightarrow> durable_lsn s = durable_lsn s' \<and> st_data s = st_data s'"
  by (simp add: durable_def durable_lsn_def)

lemma point_for_lsn:
  "point_for offsets us prev cid epoch = Inr pt \<Longrightarrow> pt_last_lsn pt = group_lsn (pt_last_lsn prev) us"
  by (auto simp: point_for_def Let_def split: if_splits)

lemma kept_inv:
  assumes "sys_inv W src d0 sy" and "sy_running sy" and "kept (sy_flight sy) r fl"
  shows "sys_inv W src d0
    (sy\<lparr>sy_flight := fl, sy_running := is_ok r,
        sy_confirmed := confirm (units_of (sy_flight sy))
          (drop (length (fl_marked (sy_flight sy))) (fl_marked fl)) (sy_confirmed sy)\<rparr>)"
proof -
  have d: "durable_lsn (fl_store fl) = durable_lsn (fl_store (sy_flight sy))"
    "st_data (fl_store fl) = st_data (fl_store (sy_flight sy))" "fl_marked fl = fl_marked (sy_flight sy)"
    using assms(3) durable_lsn_cong unfolding kept_def by blast+
  have "in_step src (sy\<lparr>sy_flight := fl, sy_running := True, sy_confirmed := c\<rparr>)" if "r = Inr x" for x c
  proof -
    have "in_step src sy" using assms(1,2) by (simp add: sys_inv_def Let_def)
    moreover have "txn_ok fl" "units_of fl = units_of (sy_flight sy)" "point_of fl = point_of (sy_flight sy)"
      "og_is_snapshot (ap_group (fl_app fl)) = og_is_snapshot (ap_group (fl_app (sy_flight sy)))"
      using assms(3) that by (simp_all add: kept_def)
    ultimately show ?thesis unfolding in_step_def Let_def by (simp add: d(1))
  qed
  then have "is_ok r \<longrightarrow> in_step src (sy\<lparr>sy_flight := fl, sy_running := is_ok r, sy_confirmed := c\<rparr>)" for c
    by (cases r) simp_all
  then have "is_ok r \<longrightarrow> in_step src (sy\<lparr>sy_flight := fl\<rparr>)" by simp
  then show ?thesis using assms(1) d by (simp add: sys_inv_def Let_def confirm_none)
qed

lemma committed_applied:
  assumes "committed env fl s" and "ce_write env = W" and "list_all2 (admitted lsn) seg (units_of fl)"
    and "\<forall>u \<in> set seg. (cu_kind u = UNIT_TXN \<or> cu_kind u = UNIT_CONTROL) \<and> \<not> cu_fenced u \<and>
      \<not> cu_ignored u \<and> cu_spill_unit_seq u = None"
    and "applied W d0 us (st_data (fl_store fl))"
  shows "applied W d0 (us @ map core (filter (\<lambda>u. cu_kind u = UNIT_TXN \<and> lsn < cu_last_lsn u) seg)) (st_data s)"
proof -
  obtain skipped stg cid where w: "\<forall>u. cu_spill_unit_seq u = None \<longrightarrow> stg u = []"
    "W skipped (map (\<lambda>u. (u, stg u)) (filter applicable (units_of fl))) cid (st_data (fl_store fl)) = Inr (st_data s)"
    using assms(1,2) unfolding committed_def by blast
  have "cu_spill_unit_seq v = None" if "v \<in> set (units_of fl)" for v
  proof -
    from that obtain i where "i < length (units_of fl)" "v = units_of fl ! i" by (metis in_set_conv_nth)
    with assms(3) have "i < length seg" "admitted lsn (seg ! i) v" by (auto simp: list_all2_conv_all_nth)
    with assms(4) show ?thesis using admitted_fields(4) by (metis nth_mem)
  qed
  then have "map (\<lambda>u. (u, stg u)) (filter applicable (units_of fl)) =
      map (\<lambda>u. (u, [])) (filter applicable (units_of fl))"
    using w(1) by auto
  with w(2) have "W skipped (map (\<lambda>u. (u, [])) (filter applicable (units_of fl))) cid (st_data (fl_store fl))
      = Inr (st_data s)" by simp
  from applied_group [OF assms(5) this] show ?thesis
    using applicable_units [OF assms(3)] assms(4) by simp
qed

lemma made_durable_inv:
  assumes "wf_source src" and "sys_inv W src d0 sy" and "sy_running sy" and "ce_write env = W"
    and "made_durable env (sy_flight sy) r fl"
  shows "sys_inv W src d0
    (sy\<lparr>sy_flight := fl, sy_running := is_ok r,
        sy_confirmed := confirm (units_of (sy_flight sy))
          (drop (length (fl_marked (sy_flight sy))) (fl_marked fl)) (sy_confirmed sy)\<rparr>)"
proof -
  let ?fl = "sy_flight sy" and ?n = "sy_next sy"
  let ?lsn = "durable_lsn (fl_store ?fl)" and ?us = "units_of ?fl"
  from assms(2,3) obtain a where st: "pt_last_lsn (point_of ?fl) = ?lsn" "a \<le> ?n" "?n \<le> length src"
    "list_all2 (admitted ?lsn) (drop a (take ?n src)) ?us" "\<forall>u \<in> set (take a src). cu_last_lsn u \<le> ?lsn"
    by (auto simp: sys_inv_def in_step_def Let_def)
  have inv: "applied W d0 (map core (txns_upto ?lsn src)) (st_data (fl_store ?fl))"
    "sy_confirmed sy \<le> ?lsn" "0 \<le> ?lsn" using assms(2) by (simp_all add: sys_inv_def Let_def)
  let ?seg = "drop a (take ?n src)"
  have c: "committed env ?fl (fl_store fl)" using assms(5) by (simp add: made_durable_def)
  then obtain pt cid where pt: "point_for (ce_offsets env) ?us (point_of ?fl) cid (ce_epoch env) = Inr pt"
    "st_point (fl_store fl) = Some pt" unfolding committed_def by blast
  have lsn': "durable_lsn (fl_store fl) = group_lsn ?lsn ?us"
    using pt point_for_lsn [OF pt(1)] st(1) by (simp add: durable_lsn_def)
  have map_lsn: "cu_last_lsn ` set ?us = cu_last_lsn ` set ?seg"
    using st(4) by (induction rule: list_all2_induct) (auto dest: admitted_fields(1))
  have bounds: "?lsn \<le> group_lsn ?lsn ?us" "\<forall>u \<in> set ?us. cu_last_lsn u \<le> group_lsn ?lsn ?us"
    "\<forall>u \<in> set ?seg. cu_last_lsn u \<le> group_lsn ?lsn ?us"
    "group_lsn ?lsn ?us = ?lsn \<or> (\<exists>u \<in> set ?seg. group_lsn ?lsn ?us = cu_last_lsn u)"
  proof -
    note g = group_lsn_bounds [where lsn = ?lsn and us = ?us]
    show "?lsn \<le> group_lsn ?lsn ?us" "\<forall>u \<in> set ?us. cu_last_lsn u \<le> group_lsn ?lsn ?us"
      using g(1,2) by blast+
    then have "\<forall>x \<in> cu_last_lsn ` set ?us. x \<le> group_lsn ?lsn ?us" by blast
    then show "\<forall>u \<in> set ?seg. cu_last_lsn u \<le> group_lsn ?lsn ?us" unfolding map_lsn by blast
    have "group_lsn ?lsn ?us = ?lsn \<or> group_lsn ?lsn ?us \<in> cu_last_lsn ` set ?us" using g(3) by blast
    then show "group_lsn ?lsn ?us = ?lsn \<or> (\<exists>u \<in> set ?seg. group_lsn ?lsn ?us = cu_last_lsn u)"
      unfolding map_lsn by blast
  qed
  have "\<forall>u \<in> set ?seg. u \<in> set src" by (meson in_set_dropD in_set_takeD)
  then have wf: "\<forall>u \<in> set ?seg. (cu_kind u = UNIT_TXN \<or> cu_kind u = UNIT_CONTROL) \<and> \<not> cu_fenced u \<and>
      \<not> cu_ignored u \<and> cu_spill_unit_seq u = None"
    using wf_source_at [OF assms(1)] by blast
  have "txns_upto (group_lsn ?lsn ?us) src = txns_upto ?lsn src @
      filter (\<lambda>u. cu_kind u = UNIT_TXN \<and> ?lsn < cu_last_lsn u) ?seg"
    using txns_upto_commit [OF assms(1) st(2,5) bounds(4,1,3)] .
  then have ap: "applied W d0 (map core (txns_upto (durable_lsn (fl_store fl)) src)) (st_data (fl_store fl))"
    using committed_applied [OF c assms(4) st(4) wf inv(1)] lsn' by simp
  have conf: "confirm ?us toks (sy_confirmed sy) \<le> durable_lsn (fl_store fl)" for toks
    unfolding lsn' using inv(2) bounds(1,2) by (intro confirm_le) auto
  have "in_step src (sy\<lparr>sy_flight := fl, sy_running := True, sy_confirmed := cf\<rparr>)" if "r = Inr x" for x cf
  proof -
    have g: "ap_group (fl_app fl) = new_group" "txn_ok fl" "st_point (fl_store fl) = Some (point_of fl)"
      using assms(5) that by (simp_all add: made_durable_def)
    have "take ?n src = take a src @ ?seg"
      using st(2) by (metis append_take_drop_id min.absorb1 min_def take_take)
    then have "set (take ?n src) = set (take a src) \<union> set ?seg" by (metis set_append)
    then have "\<forall>u \<in> set (take ?n src). cu_last_lsn u \<le> durable_lsn (fl_store fl)"
      unfolding lsn' using st(5) bounds(1,3) by (metis Un_iff order_trans)
    then show ?thesis using g st(3) unfolding in_step_def Let_def
      by (auto simp: durable_lsn_def intro!: exI [of _ ?n])
  qed
  then have "is_ok r \<longrightarrow> in_step src (sy\<lparr>sy_flight := fl, sy_running := is_ok r, sy_confirmed := cf\<rparr>)" for cf
    by (cases r) simp_all
  then have "is_ok r \<longrightarrow> in_step src (sy\<lparr>sy_flight := fl\<rparr>)" by simp
  then show ?thesis using ap conf inv(3) bounds(1) lsn' by (simp add: sys_inv_def Let_def)
qed

lemma sys_step_inv:
  assumes "sys_step W src sy sy'" and "wf_source src" and "sys_inv W src d0 sy"
  shows "sys_inv W src d0 sy'"
  using assms(1)
proof cases
  case (deliver env fuel r fl)
  then show ?thesis using deliver_inv [OF assms(2,3)] by blast
next
  case (commit env fuel r fl)
  have "txn_ok (sy_flight sy)" using assms(3) commit(2) by (simp add: sys_inv_def in_step_def Let_def)
  from commit_group_spec [OF commit(4) this] show ?thesis
    using kept_inv [OF assms(3) commit(2)] made_durable_inv [OF assms(2,3) commit(2,3)] commit(1) by blast
next
  case (restart j c)
  then show ?thesis using restart_inv [OF assms(3)] by blast
qed

lemma reachable_inv:
  assumes "reachable W src d0 sy" and "wf_source src"
  shows "sys_inv W src d0 sy"
  using assms(1)
proof induction
  case (reach_start s sy c blocked)
  have "\<not> (cu_kind u = UNIT_TXN \<and> cu_last_lsn u \<le> 0)" if "u \<in> set src" for u
    using wf_source_at(1) [OF assms(2) that] by auto
  then have t: "txns_upto 0 src = []" unfolding txns_upto_def by (rule filter_nothing)
  let ?fl = "start_flight s c blocked"
  have f: "fl_store ?fl = s" "units_of ?fl = []" "pt_last_lsn (point_of ?fl) = 0"
    "\<not> og_is_snapshot (ap_group (fl_app ?fl))" "txn_ok ?fl" "durable_lsn s = 0"
    using reach_start(2)
    by (simp_all add: start_flight_def new_applier_def durable_lsn_def zero_point_def txn_ok_def)
  show ?case unfolding sys_inv_def in_step_def Let_def reach_start(3,4,5) f reach_start(1)
    using t f(4,5) by (simp add: applied_Nil)
next
  case (reach_step sy sy')
  show ?case by (rule sys_step_inv [OF reach_step.hyps(2) assms(2) reach_step.IH])
qed


section \<open>The properties\<close>



text \<open>
  C2: The commit of a group is atomic and comes before its acknowledgement. However a call of
  \<open>commit_group\<close> ends, either rows, resume point and commit log are as before and nothing was
  acknowledged, or they are all those of one successful write of the group's units that are not
  fenced, and the resume point is the group's own.
\<close>

theorem commit_is_atomic:
  assumes "commit_group fuel env excluded fl = Some (r, fl')" and "txn_ok fl"
  shows "durable (fl_store fl') = durable (fl_store fl) \<and> fl_marked fl' = fl_marked fl \<and> r \<noteq> Inr COMMITTED \<or>
    (\<exists>skipped stg pt cid d.
       point_for (ce_offsets env) (units_of fl) (point_of fl) cid (ce_epoch env) = Inr pt \<and>
       ce_write env skipped (map (\<lambda>u. (u, stg u)) (filter applicable (units_of fl))) cid
         (st_data (fl_store fl)) = Inr d \<and>
       durable (fl_store fl') = (d, Some pt, st_commit_log (fl_store fl) @ [cid]))"
  using commit_group_spec [OF assms]
proof
  assume "kept fl r fl'"
  then show ?thesis by (auto simp: kept_def)
next
  assume "made_durable env fl r fl'"
  then show ?thesis unfolding made_durable_def committed_def durable_def by blast
qed


lemma working_begin: "txn_ok fl \<Longrightarrow> st_lease (working (begin_txn fl)) = st_lease (working fl)"
  by (auto simp: txn_ok_def begin_txn_def working_def)

text \<open>
  C9: A Flight that lost its lease commits nothing. Whatever else its environment does, a call of
  \<open>commit_group\<close> on a group with units leaves rows, resume point and commit log as they
  are, acknowledges nothing and raises or reports that it did not commit.
\<close>

theorem dispossessed_commits_nothing:
  assumes "fence_lost (ce_lease env) (st_lease (working fl))" and "txn_ok fl"
    and "commit_group (Suc fuel) env excluded fl = Some (r, fl')"
  shows "durable (fl_store fl') = durable (fl_store fl) \<and> fl_marked fl' = fl_marked fl \<and> r \<noteq> Inr COMMITTED"
proof -
  let ?us = "units_of fl" and ?c = "ap_completion (fl_app fl)"
  obtain e l' where ac: "assert_current (ce_lease env) (st_lease (working fl)) = (Inl e, l')"
    using lease_check.refused_result [OF assms(1)] by blast
  obtain e2 l2 where fe: "fence (ce_lease env) (st_lease (working fl)) = (Inl e2, l2)"
    using lease_fence.refused_result [OF assms(1)] by blast
  show ?thesis
  proof (cases "?us \<noteq> [] \<and> commit_ready ?c ?us = Inr True \<and> is_ok (will_complete_after_commit ?c ?us)")
    case False
    then show ?thesis using assms(3) by (auto simp: Let_def split: if_splits sum.splits bool.splits)
  next
    case True
    then obtain notified where t: "?us \<noteq> []" "commit_ready ?c ?us = Inr True"
      "will_complete_after_commit ?c ?us = Inr notified" by (auto simp: is_ok_iff)
    show ?thesis
    proof (cases "ac_service (ce_config env)")
      case True
      then have "\<exists>e f. service_admission_check env fl = (Inl e, f) \<and> (f = fl \<or> f = set_lease l' fl)"
        by (simp add: service_admission_check_def ac)
      then obtain e f where "service_admission_check env fl = (Inl e, f)" "f = fl \<or> f = set_lease l' fl" by blast
      moreover from this(1) have "r = Inl e" "fl' = f" using assms(3) t by (simp_all add: Let_def)
      ultimately show ?thesis by auto
    next
      case False
      then have "service_admission_check env fl = (Inr (), fl)" by (simp add: service_admission_check_def)
      moreover have "prepare env skipped ap cid (working (begin_txn fl)) = Inl (LeaseFailed e2)" for skipped ap cid
        by (simp add: prepare_def working_begin [OF assms(2)] fe)
      ultimately have "r = Inl (LeaseFailed e2)" "fl' = rollback_quietly (begin_txn fl)"
        using assms(3) t by (simp_all add: Let_def)
      then show ?thesis by simp
    qed
  qed
qed

section \<open>Runs\<close>

text \<open>Two transactions; the writer keeps the list of applied transaction ids.\<close>

definition ex_writer ::
  "string list \<Rightarrow> (complete_unit \<times> pending_record list) list \<Rightarrow> int \<Rightarrow> string list \<Rightarrow> write_failure + string list" where
  "ex_writer skipped us cid d = Inr (d @ map (\<lambda>(u, _). the (cu_txn_id u)) us)"

definition ex_txn :: "string \<Rightarrow> int \<Rightarrow> complete_unit" where
  "ex_txn t lsn = (blank_unit UNIT_TXN)\<lparr>cu_txn_id := Some t, cu_last_lsn := lsn,
     cu_records := [(blank_record 0 (Some (nat lsn)) KIND_TXN_END)\<lparr>pr_source_offset := Some [(''lsn'', JInt lsn)]\<rparr>]\<rparr>"

definition ex_source :: "complete_unit list" where
  "ex_source = [ex_txn ''t1'' 10, ex_txn ''t2'' 20]"

definition ex_env :: "commit_outcome \<Rightarrow> nat option \<Rightarrow> string list commit_env" where
  "ex_env outcome acks = \<lparr>ce_config = \<lparr>ac_ack_every_record = False, ac_resnapshot = False,
     ac_ignored_tables = [], ac_service = False\<rparr>, ce_lease = sample_lease ''a'', ce_write = ex_writer,
     ce_offsets = (\<lambda>_. (None, None)), ce_epoch = 0, ce_writable = (\<lambda>_. True), ce_sink = True,
     ce_commit = outcome, ce_ack_limit = acks, ce_observe = (\<lambda>_. None), ce_owing = []\<rparr>"

definition ex_completion :: completion where
  "ex_completion = (case streaming_only of Inr c \<Rightarrow> c
     | Inl _ \<Rightarrow> \<lparr>sc_required = False, sc_state = [], sc_expected_tables = [], sc_callback_tables = [],
         sc_callback_rows = [], sc_committed_rows = [], sc_marker_seen = False, sc_snapshot_units = 0,
         sc_tables_seen = []\<rparr>)"

definition ex_store :: "string list store" where
  "ex_store = \<lparr>st_data = [], st_point = None, st_commit_log = [], st_spill = [],
     st_lease = sample_db\<lparr>db_now := 10\<rparr>\<rparr>"

definition ex_start :: "string list system" where
  "ex_start = \<lparr>sy_flight = start_flight ex_store ex_completion [], sy_confirmed = 0, sy_next = 0, sy_running = True\<rparr>"

text \<open>Executable steps of the system.\<close>

definition do_deliver :: "'d commit_env \<Rightarrow> complete_unit list \<Rightarrow> 'd system \<Rightarrow> 'd system option" where
  "do_deliver env src sy =
     (if \<not> sy_running sy \<or> length src \<le> sy_next sy \<or> ac_resnapshot (ce_config env) then None
      else case add_unit 1 env (src ! sy_next sy) (sy_flight sy) of
             None \<Rightarrow> None
           | Some (r, fl) \<Rightarrow>
               Some (sy\<lparr>sy_flight := fl, sy_next := Suc (sy_next sy), sy_running := is_ok r\<rparr>))"

definition do_commit :: "'d commit_env \<Rightarrow> 'd system \<Rightarrow> 'd system option" where
  "do_commit env sy =
     (if \<not> sy_running sy then None
      else case commit_group 2 env [] (sy_flight sy) of
             None \<Rightarrow> None
           | Some (r, fl) \<Rightarrow>
               Some (sy\<lparr>sy_flight := fl, sy_running := is_ok r,
                 sy_confirmed := confirm (units_of (sy_flight sy))
                   (drop (length (fl_marked (sy_flight sy))) (fl_marked fl)) (sy_confirmed sy)\<rparr>))"

definition do_restart :: "'d system \<Rightarrow> 'd system option" where
  "do_restart sy = Some (sy\<lparr>sy_flight := start_flight (fl_store (sy_flight sy)) ex_completion [],
     sy_next := 0, sy_running := True\<rparr>)"

lemma do_steps:
  "do_deliver env src sy = Some sy' \<Longrightarrow> sys_step (ce_write env) src sy sy'"
  "do_commit env sy = Some sy' \<Longrightarrow> sys_step (ce_write env) src sy sy'"
  "do_restart sy = Some sy' \<Longrightarrow> sys_step W src sy sy'"
  by (auto simp: do_deliver_def do_commit_def do_restart_def split: if_splits option.splits prod.splits
      intro!: deliver commit restart)

text \<open>The first transaction commits but the call raises, so nothing is acknowledged; the process
  starts over, both transactions are delivered, the first is fenced, and both are committed.\<close>

definition ex_run :: "string list system option" where
  "ex_run = Option.bind (do_deliver (ex_env CommitAmbiguous None) ex_source ex_start) (\<lambda>s1.
     Option.bind (do_commit (ex_env CommitAmbiguous None) s1) (\<lambda>s2.
     Option.bind (do_restart s2) (\<lambda>s3.
     Option.bind (do_deliver (ex_env CommitDone None) ex_source s3) (\<lambda>s4.
     Option.bind (do_deliver (ex_env CommitDone None) ex_source s4) (\<lambda>s5.
       do_commit (ex_env CommitDone None) s5)))))"

lemma ex_env_write: "ce_write (ex_env c a) = ex_writer"
  by (simp add: ex_env_def)

lemma ex_run_reachable:
  assumes "ex_run = Some sy"
  shows "reachable ex_writer ex_source [] sy"
proof -
  have r0: "reachable ex_writer ex_source [] ex_start"
    by (rule reach_start [of ex_store _ _ ex_completion]) (simp_all add: ex_start_def ex_store_def)
  have step: "reachable ex_writer ex_source [] s'"
    if "reachable ex_writer ex_source [] s"
      "do_deliver (ex_env c a) ex_source s = Some s' \<or> do_commit (ex_env c a) s = Some s' \<or> do_restart s = Some s'"
    for s s' c a
    using that do_steps(1) [where env = "ex_env c a"] do_steps(2) [where env = "ex_env c a"] do_steps(3)
      reach_step ex_env_write by metis
  from assms obtain s1 s2 s3 s4 s5 where
    "do_deliver (ex_env CommitAmbiguous None) ex_source ex_start = Some s1"
    "do_commit (ex_env CommitAmbiguous None) s1 = Some s2" "do_restart s2 = Some s3"
    "do_deliver (ex_env CommitDone None) ex_source s3 = Some s4"
    "do_deliver (ex_env CommitDone None) ex_source s4 = Some s5"
    "do_commit (ex_env CommitDone None) s5 = Some sy"
    unfolding ex_run_def by (auto simp: bind_eq_Some_conv)
  with r0 step show ?thesis by metis
qed

lemma ex_source_ok: "wf_source ex_source"
  by code_simp


lemma ex_run_result:
  obtains sy where "ex_run = Some sy" and "st_data (fl_store (sy_flight sy)) = [''t1'', ''t2'']"
    and "durable_lsn (fl_store (sy_flight sy)) = 20" and "sy_confirmed sy = 20" and "sy_running sy"
    and "sy_next sy = 2" and "units_of (sy_flight sy) = []"
proof -
  have "case ex_run of None \<Rightarrow> False | Some sy \<Rightarrow>
      st_data (fl_store (sy_flight sy)) = [''t1'', ''t2''] \<and> durable_lsn (fl_store (sy_flight sy)) = 20 \<and>
      sy_confirmed sy = 20 \<and> sy_running sy \<and> sy_next sy = 2 \<and> List.null (units_of (sy_flight sy))"
    by code_simp
  from some_okE [OF this] obtain sy where "ex_run = Some sy" and
    "st_data (fl_store (sy_flight sy)) = [''t1'', ''t2''] \<and> durable_lsn (fl_store (sy_flight sy)) = 20 \<and>
      sy_confirmed sy = 20 \<and> sy_running sy \<and> sy_next sy = 2 \<and> List.null (units_of (sy_flight sy))" by blast
  then show thesis by (intro that [of sy]) (elim conjE, simp)+
qed



definition ex_group :: "string list flight" where
  "ex_group = map_group (\<lambda>g. g\<lparr>og_units := [ex_txn ''t1'' 10]\<rparr>) (start_flight ex_store ex_completion [])"

lemma ex_group_ok: "txn_ok ex_group"
  by (simp add: txn_ok_def ex_group_def start_flight_def new_applier_def)

theorem commit_is_atomic_witness:
  "\<exists>r fl' pt cid. commit_group 1 (ex_env CommitDone (Some 0)) [] ex_group = Some (r, fl') \<and>
     r = Inl AckRaised \<and> durable (fl_store fl') = ([''t1''], Some pt, [cid])"
proof -
  have "case commit_group 1 (ex_env CommitDone (Some 0)) [] ex_group of None \<Rightarrow> False
      | Some (r, fl') \<Rightarrow> (case r of Inl AckRaised \<Rightarrow> True | _ \<Rightarrow> False) \<and> st_data (fl_store fl') = [''t1'']"
    by code_simp
  then obtain r fl' where c: "commit_group 1 (ex_env CommitDone (Some 0)) [] ex_group = Some (r, fl')"
    and r: "case r of Inl AckRaised \<Rightarrow> True | _ \<Rightarrow> False" and d: "st_data (fl_store fl') = [''t1'']"
    by (cases "commit_group 1 (ex_env CommitDone (Some 0)) [] ex_group") auto
  have ra: "r = Inl AckRaised" using r by (auto split: sum.splits cp_error.splits)
  have s: "st_data (fl_store ex_group) = []" "st_commit_log (fl_store ex_group) = []"
    by (simp_all add: ex_group_def start_flight_def ex_store_def)
  from commit_is_atomic [OF c ex_group_ok] d s obtain pt cid where
    "durable (fl_store fl') = ([''t1''], Some pt, [cid])" unfolding durable_def by auto
  with c ra show ?thesis by blast
qed

theorem dispossessed_commits_nothing_witness:
  "\<exists>r fl'. commit_group (Suc 0) ((ex_env CommitDone None)\<lparr>ce_lease := sample_lease ''b''\<rparr>) [] ex_group =
     Some (r, fl') \<and> st_data (fl_store fl') = [] \<and> r \<noteq> Inr COMMITTED"
proof -
  let ?env = "(ex_env CommitDone None)\<lparr>ce_lease := sample_lease ''b''\<rparr>"
  have l: "fence_lost (ce_lease ?env) (st_lease (working ex_group))"
    by (simp add: fence_lost_def dispossessed_def held_by_def ex_group_def working_def start_flight_def
        ex_store_def sample_db_def sample_lease_def held_row_def)
  have "commit_group (Suc 0) ?env [] ex_group \<noteq> None" by code_simp
  then obtain r fl' where c: "commit_group (Suc 0) ?env [] ex_group = Some (r, fl')" by auto
  from dispossessed_commits_nothing [OF l ex_group_ok c] c show ?thesis
    by (auto simp: durable_def ex_group_def start_flight_def ex_store_def)
qed


section \<open>The containment retry\<close>

lemma blocked_frames [simp]:
  "ap_blocked_tables (fl_app (rollback_quietly fl)) = ap_blocked_tables (fl_app fl)"
  "ap_blocked_tables (fl_app (begin_txn fl)) = ap_blocked_tables (fl_app fl)"
  by (simp_all add: rollback_quietly_def reset_after_rollback_def reset_group_def begin_txn_def Let_def)

lemma contain_blocks:
  "contain sink r fl = Some (q, fl') \<Longrightarrow>
   relation_name r = Some q \<and> ap_blocked_tables (fl_app fl') = List.insert q (ap_blocked_tables (fl_app fl))"
  by (auto simp: contain_def split: option.splits if_splits)

lemma prepare_table_failed:
  assumes "prepare env skipped ap cid s = Inl (WriteFailed (TableFailed r))"
  shows "\<exists>us d. ce_write env skipped us cid d = Inl (TableFailed r)"
  using assms
  by (auto simp: prepare_def rbind_eq_Inl point_for_def apply_units_def Let_def
      split: prod.splits sum.splits if_splits)


text \<open>A writer that blames the table \<open>s.bad\<close> until it is told to skip it, and otherwise notes how
  many staged rows each unit had, and what it was told to skip.\<close>

definition noting_writer ::
  "string list \<Rightarrow> (complete_unit \<times> pending_record list) list \<Rightarrow> int \<Rightarrow> (nat list \<times> string list) \<Rightarrow>
   write_failure + (nat list \<times> string list)" where
  "noting_writer skipped us cid d =
     (if ''s.bad'' \<in> set skipped then Inr (fst d @ map (\<lambda>(u, stg). length stg) us, skipped)
      else Inl (TableFailed \<lparr>refused_schema = Some ''s'', refused_table = Some ''bad''\<rparr>))"

definition noting_env :: "string list \<Rightarrow> (nat list \<times> string list) commit_env" where
  "noting_env owing = \<lparr>ce_config = \<lparr>ac_ack_every_record = False, ac_resnapshot = False,
     ac_ignored_tables = [], ac_service = False\<rparr>, ce_lease = sample_lease ''a'', ce_write = noting_writer,
     ce_offsets = (\<lambda>_. (None, None)), ce_epoch = 0, ce_writable = (\<lambda>_. True), ce_sink = True,
     ce_commit = CommitDone, ce_ack_limit = None, ce_observe = (\<lambda>_. None), ce_owing = owing\<rparr>"

definition noting_start :: "string list \<Rightarrow> (nat list \<times> string list) flight" where
  "noting_start blocked =
     start_flight \<lparr>st_data = ([], []), st_point = None, st_commit_log = [], st_spill = [],
       st_lease = sample_db\<lparr>db_now := 10\<rparr>\<rparr> ex_completion blocked"


text \<open>
  What the retry forgets. A unit whose first row was staged to the destination before its end: the
  staged row lives in the group's transaction, so the rollback of the first attempt
  discards it, and the retry commits the unit, resume point included, without it. Without a
  failing table the same unit is written with its staged row.
\<close>

definition spilled_group :: "string list \<Rightarrow> (nat list \<times> string list) flight" where
  "spilled_group blocked =
     map_group (\<lambda>g. g\<lparr>og_units := [(ex_txn ''t1'' 10)\<lparr>cu_spill_unit_seq := Some 1, cu_spilled_events := 1\<rparr>]\<rparr>)
       (stage_events (ce_config (noting_env [])) 1 False [blank_record 1 None KIND_DATA] (noting_start blocked))"

lemma contained_retry_loses_staged_rows:
  "case commit_group 2 (noting_env []) [] (spilled_group []) of
     Some (Inr COMMITTED, fl) \<Rightarrow> fst (st_data (fl_store fl)) = [0] \<and> durable_lsn (fl_store fl) = 10
   | _ \<Rightarrow> False"
  "case commit_group 2 (noting_env []) [] (spilled_group [''s.bad'']) of
     Some (Inr COMMITTED, fl) \<Rightarrow> fst (st_data (fl_store fl)) = [1] \<and> durable_lsn (fl_store fl) = 10
   | _ \<Rightarrow> False"
  by code_simp+

text \<open>
  The retry also forgets the relations held out of a retained image: the group it rebuilds has no
  \<open>held_tables\<close>.
\<close>

lemma contained_retry_forgets_the_hold:
  "case commit_group 2 (noting_env []) [] (map_group (\<lambda>g. g\<lparr>og_units := [ex_txn ''t1'' 10],
          og_held_tables := [''s.held'']\<rparr>) (noting_start [])) of
     Some (Inr COMMITTED, fl) \<Rightarrow> snd (st_data (fl_store fl)) = [''s.bad'', ''s.bad'']
   | _ \<Rightarrow> False"
  by code_simp

text \<open>
  The hold is put on the group that is open when a transaction arrives, before the change of phase
  closes that group: the first transaction after a group of snapshot chunks is admitted into a new
  group that holds nothing.
\<close>

definition snapshot_then_txn :: "(nat list \<times> string list) flight" where
  "snapshot_then_txn = map_group (\<lambda>g. g\<lparr>og_is_snapshot := True,
     og_units := [(blank_unit UNIT_SNAPSHOT_CHUNK)\<lparr>cu_ignored := True, cu_last_lsn := 5,
       cu_records := [(blank_record 0 (Some 5) KIND_DATA)\<lparr>pr_source_offset := Some [(''lsn'', JInt 5)]\<rparr>]\<rparr>]\<rparr>)
     (noting_start [''s.bad''])"

lemma phase_change_drops_the_hold:
  "case add_unit 2 (noting_env [''s.held'']) ((ex_txn ''t1'' 10)\<lparr>cu_touched_tables := [''s.held'']\<rparr>)
          snapshot_then_txn of
     Some (Inr _, fl) \<Rightarrow> length (units_of fl) = 1 \<and> List.null (og_held_tables (ap_group (fl_app fl)))
   | _ \<Rightarrow> False"
  "case add_unit 2 (noting_env [''s.held'']) ((ex_txn ''t1'' 10)\<lparr>cu_touched_tables := [''s.held'']\<rparr>)
          (noting_start [''s.bad'']) of
     Some (Inr _, fl) \<Rightarrow> length (units_of fl) = 1 \<and> og_held_tables (ap_group (fl_app fl)) = [''s.held'']
   | _ \<Rightarrow> False"
  by code_simp+

end
