(* ===== verification/Decimal_Digits.thy ===== *)
theory Decimal_Digits
  imports CDC_Prelude
begin

text \<open>
  Decimal digits of natural numbers, as Python's \<open>str\<close> and \<open>format\<close> print them, the number a
  string of digits stands for, and \<open>str.rstrip\<close> of one character: shared by the JSON texts, the
  identity codec and the event identities.
\<close>

definition digit_char :: "nat \<Rightarrow> char" where
  "digit_char d = char_of (48 + d)"

fun digits :: "nat \<Rightarrow> string" where
  "digits n = (if n < 10 then [digit_char n] else digits (n div 10) @ [digit_char (n mod 10)])"

declare digits.simps [simp del]

fun digits_number :: "nat \<Rightarrow> string \<Rightarrow> nat" where
  "digits_number n [] = n"
| "digits_number n (c # cs) = digits_number (10 * n + (of_char c - 48)) cs"

lemma digits_number_append: "digits_number n (xs @ ys) = digits_number (digits_number n xs) ys"
  by (induction xs arbitrary: n) simp_all

lemma digits_number_zeros: "digits_number n (replicate k (CHR ''0'')) = n * 10 ^ k"
  by (induction k arbitrary: n) (simp_all add: algebra_simps)

lemma of_digit_char: "d < 10 \<Longrightarrow> of_char (digit_char d) = 48 + d"
  by (simp add: digit_char_def)

lemma digits_number_digits: "digits_number m (digits n) = m * 10 ^ length (digits n) + n"
proof (induction n arbitrary: m rule: digits.induct)
  case (1 n)
  show ?case
  proof (cases "n < 10")
    case True
    then show ?thesis by (simp add: digits.simps [of n] of_digit_char)
  next
    case False
    then show ?thesis
      using 1 [OF False] by (simp add: digits.simps [of n] digits_number_append of_digit_char algebra_simps)
  qed
qed

lemma digit_char_0: "digit_char 0 = CHR ''0''"
  by code_simp

lemma digits_mult10: "0 < c \<Longrightarrow> digits (10 * c) = digits c @ ''0''"
  by (simp add: digits.simps [of "10 * c"] digit_char_0)

lemma digits_chars: "set (digits n) \<subseteq> digit_char ` {..<10}"
proof (induction n rule: digits.induct)
  case (1 n)
  then show ?case by (cases "n < 10") (auto simp: digits.simps [of n])
qed

lemma digits_not_Nil: "digits n \<noteq> []"
  by (simp add: digits.simps [of n])

lemma digit_char_neq:
  assumes "d < 10" shows "digit_char d \<noteq> CHR ''.''" and "digit_char d \<noteq> CHR ''-''"
proof -
  have "list_all (\<lambda>d. digit_char d \<noteq> CHR ''.'' \<and> digit_char d \<noteq> CHR ''-'') [0..<10]" by code_simp
  then show "digit_char d \<noteq> CHR ''.''" "digit_char d \<noteq> CHR ''-''"
    using assms by (simp_all add: list_all_iff)
qed

definition digit_string :: "string \<Rightarrow> bool" where
  "digit_string s \<longleftrightarrow> set s \<subseteq> digit_char ` {..<10}"

lemma digit_string_simps [simp]:
  "digit_string []" "digit_string (c # s) \<longleftrightarrow> c \<in> digit_char ` {..<10} \<and> digit_string s"
  "digit_string (s @ t) \<longleftrightarrow> digit_string s \<and> digit_string t" "digit_string (digits n)"
  "digit_string (replicate k (CHR ''0''))"
proof -
  show "digit_string (replicate k (CHR ''0''))"
    by (auto simp: digit_string_def simp flip: digit_char_0)
qed (use digits_chars in \<open>auto simp: digit_string_def\<close>)

lemma digit_string_part: "digit_string s \<Longrightarrow> digit_string (take k s) \<and> digit_string (drop k s)"
  by (auto simp: digit_string_def dest: in_set_takeD in_set_dropD)

lemma digit_string_dot: "digit_string s \<Longrightarrow> CHR ''.'' \<notin> set s"
  using digit_char_neq(1) by (fastforce simp: digit_string_def)

lemma digit_string_minus: "digit_string s \<Longrightarrow> CHR ''-'' \<notin> set s"
  using digit_char_neq(2) by (fastforce simp: digit_string_def)

section \<open>rstrip\<close>

definition rstrip :: "char \<Rightarrow> string \<Rightarrow> string" where
  "rstrip c s = rev (dropWhile (\<lambda>x. x = c) (rev s))"

lemma rstrip_split: "\<exists>k. s = rstrip c s @ replicate k c"
proof -
  let ?z = "takeWhile (\<lambda>x. x = c) (rev s)"
  have "?z = replicate (length ?z) c" by (metis (full_types) replicate_eqI set_takeWhileD)
  then have "rev ?z = replicate (length ?z) c" by (metis rev_replicate)
  moreover have "s = rstrip c s @ rev ?z"
    unfolding rstrip_def by (metis rev_append rev_rev_ident takeWhile_dropWhile_id)
  ultimately show ?thesis by metis
qed

lemma rstrip_append_same [simp]: "rstrip c (s @ [c]) = rstrip c s"
  by (simp add: rstrip_def)

lemma rstrip_stop: "s = [] \<or> last s \<noteq> c \<Longrightarrow> rstrip c s = s"
  by (cases s rule: rev_cases) (auto simp: rstrip_def)

lemma rstrip_prefix: "last p \<noteq> c \<Longrightarrow> p \<noteq> [] \<Longrightarrow> rstrip c (p @ s) = p @ rstrip c s"
proof (induction s rule: rev_induct)
  case Nil
  then show ?case by (simp add: rstrip_stop)
next
  case (snoc x s)
  show ?case
  proof (cases "x = c")
    case True
    then show ?thesis using snoc by (simp flip: append_assoc)
  next
    case False
    then show ?thesis by (simp add: rstrip_stop flip: append_assoc)
  qed
qed

end
