(* ===== verification/Json_Text.thy ===== *)
theory Json_Text
  imports Envelope Decimal_Digits
begin

text \<open>
  JSON texts: Python's \<open>json.dumps\<close> with compact separators and \<open>json.loads\<close>, on the values
  \<open>json\<close>, as the offset codec (\<open>src/cdc_flight/offsets.py\<close>) and the resume point
  (\<open>src/cdc_flight/destination.py\<close>) use them. Characters are those of code point below 256;
  an escape of a higher one and a number with a fraction or an exponent are outside the model,
  and \<open>loads\<close> gives \<open>None\<close> there as it does for text that is not JSON. The recursion of the
  reader is bounded by the length of the text, which is enough because every call reads a
  character.
\<close>

section \<open>Writing\<close>

definition hex_digit :: "nat \<Rightarrow> char" where
  "hex_digit d = (if d < 10 then char_of (48 + d) else char_of (87 + d))"

definition escape_char :: "char \<Rightarrow> string" where
  "escape_char c =
     (let n = of_char c :: nat in
      if c = CHR 0x22 then [CHR 0x5C, CHR 0x22]
      else if c = CHR 0x5C then [CHR 0x5C, CHR 0x5C]
      else if c = CHR 0x0A then [CHR 0x5C, CHR ''n'']
      else if c = CHR 0x0D then [CHR 0x5C, CHR ''r'']
      else if c = CHR 0x09 then [CHR 0x5C, CHR ''t'']
      else if c = CHR 0x0C then [CHR 0x5C, CHR ''f'']
      else if c = CHR 0x08 then [CHR 0x5C, CHR ''b'']
      else if 32 \<le> n \<and> n \<le> 126 then [c]
      else [CHR 0x5C, CHR ''u'', CHR ''0'', CHR ''0'', hex_digit (n div 16), hex_digit (n mod 16)])"

definition dumps_str :: "string \<Rightarrow> string" where
  "dumps_str s = CHR 0x22 # concat (map escape_char s) @ [CHR 0x22]"

definition dumps_int :: "int \<Rightarrow> string" where
  "dumps_int n = (if n < 0 then CHR ''-'' # digits (nat (- n)) else digits (nat n))"

fun commas :: "string list \<Rightarrow> string" where
  "commas [] = []"
| "commas [x] = x"
| "commas (x # y # r) = x @ CHR '','' # commas (y # r)"

fun dumps :: "json \<Rightarrow> string" where
  "dumps JNull = ''null''"
| "dumps (JBool b) = (if b then ''true'' else ''false'')"
| "dumps (JInt n) = dumps_int n"
| "dumps (JFloat t n) = t"
| "dumps (JStr s) = dumps_str s"
| "dumps (JArr xs) = CHR ''['' # commas (map dumps xs) @ '']''"
| "dumps (JObj ps) = CHR ''{'' # commas (map (\<lambda>(k, v). dumps_str k @ CHR '':'' # dumps v) ps) @ ''}''"

section \<open>Reading\<close>

definition is_ws :: "char \<Rightarrow> bool" where
  "is_ws c \<longleftrightarrow> c \<in> set [CHR '' '', CHR 0x09, CHR 0x0A, CHR 0x0D]"

definition skip_ws :: "string \<Rightarrow> string" where
  "skip_ws s = dropWhile is_ws s"

definition unescape :: "char \<Rightarrow> char option" where
  "unescape e = map_of [(CHR 0x22, CHR 0x22), (CHR 0x5C, CHR 0x5C), (CHR ''/'', CHR ''/''),
     (CHR ''b'', CHR 0x08), (CHR ''f'', CHR 0x0C), (CHR ''n'', CHR 0x0A), (CHR ''r'', CHR 0x0D),
     (CHR ''t'', CHR 0x09)] e"

definition hex_value :: "char \<Rightarrow> nat option" where
  "hex_value c =
     (let n = of_char c :: nat in
      if 48 \<le> n \<and> n \<le> 57 then Some (n - 48)
      else if 97 \<le> n \<and> n \<le> 102 then Some (n - 87)
      else if 65 \<le> n \<and> n \<le> 70 then Some (n - 55)
      else None)"

definition hex4 :: "char \<Rightarrow> char \<Rightarrow> char \<Rightarrow> char \<Rightarrow> char option" where
  "hex4 a b c d =
     (case (hex_value a, hex_value b, hex_value c, hex_value d) of
        (Some w, Some x, Some y, Some z) \<Rightarrow>
          if w = 0 \<and> x = 0 then Some (char_of (16 * y + z)) else None
      | _ \<Rightarrow> None)"

fun scan_string :: "string \<Rightarrow> (string \<times> string) option" where
  \<comment> \<open>what follows an opening quote\<close>
  "scan_string [] = None"
| "scan_string (c # r) =
     (if c = CHR 0x22 then Some ([], r)
      else if c = CHR 0x5C then
        (case r of
           [] \<Rightarrow> None
         | e # r1 \<Rightarrow>
             (case unescape e of
                Some x \<Rightarrow> map_option (apfst (Cons x)) (scan_string r1)
              | None \<Rightarrow>
                  if e = CHR ''u'' then
                    (case r1 of
                       h1 # h2 # h3 # h4 # r2 \<Rightarrow>
                         (case hex4 h1 h2 h3 h4 of
                            Some x \<Rightarrow> map_option (apfst (Cons x)) (scan_string r2)
                          | None \<Rightarrow> None)
                     | _ \<Rightarrow> None)
                  else None))
      else if (of_char c :: nat) < 32 then None
      else map_option (apfst (Cons c)) (scan_string r))"

definition is_digit_char :: "char \<Rightarrow> bool" where
  "is_digit_char c \<longleftrightarrow> (let n = of_char c :: nat in 48 \<le> n \<and> n \<le> 57)"

definition scan_digits :: "string \<Rightarrow> (nat \<times> string) option" where
  \<comment> \<open>\<open>0|[1-9][0-9]*\<close>, and no fraction or exponent after it\<close>
  "scan_digits s =
     (let ds = (if take 1 s = ''0'' then ''0'' else takeWhile is_digit_char s); r = drop (length ds) s in
      if ds = [] then None
      else if take 1 r \<in> {''.'', ''e'', ''E''} then None
      else Some (digits_number 0 ds, r))"

definition scan_number :: "string \<Rightarrow> (json \<times> string) option" where
  "scan_number s =
     (if take 1 s = ''-'' then map_option (apfst (\<lambda>n. JInt (- int n))) (scan_digits (drop 1 s))
      else map_option (apfst (\<lambda>n. JInt (int n))) (scan_digits s))"

definition dict_of :: "(string \<times> 'a) list \<Rightarrow> (string, 'a) dict" where
  \<comment> \<open>\<open>dict(pairs)\<close>\<close>
  "dict_of ps = foldl (\<lambda>d (k, v). AList.update k v d) [] ps"

fun scan_once :: "nat \<Rightarrow> string \<Rightarrow> (json \<times> string) option"
  and scan_elements :: "nat \<Rightarrow> string \<Rightarrow> (json list \<times> string) option"
  and scan_pairs :: "nat \<Rightarrow> string \<Rightarrow> ((string \<times> json) list \<times> string) option" where
  "scan_once 0 s = None"
| "scan_once (Suc n) s =
     (case s of
        [] \<Rightarrow> None
      | c # r \<Rightarrow>
          if c = CHR 0x22 then map_option (apfst JStr) (scan_string r)
          else if c = CHR ''['' then
            (if take 1 (skip_ws r) = '']'' then Some (JArr [], drop 1 (skip_ws r))
             else map_option (apfst JArr) (scan_elements n (skip_ws r)))
          else if c = CHR ''{'' then
            (if take 1 (skip_ws r) = ''}'' then Some (JObj [], drop 1 (skip_ws r))
             else map_option (apfst (\<lambda>ps. JObj (dict_of ps))) (scan_pairs n (skip_ws r)))
          else if take 4 s = ''null'' then Some (JNull, drop 4 s)
          else if take 4 s = ''true'' then Some (JBool True, drop 4 s)
          else if take 5 s = ''false'' then Some (JBool False, drop 5 s)
          else scan_number s)"
| "scan_elements 0 s = None"
| "scan_elements (Suc n) s =
     (case scan_once n s of
        None \<Rightarrow> None
      | Some (v, r) \<Rightarrow>
          (case skip_ws r of
             [] \<Rightarrow> None
           | c # r1 \<Rightarrow>
               if c = CHR '']'' then Some ([v], r1)
               else if c = CHR '','' then map_option (apfst (Cons v)) (scan_elements n (skip_ws r1))
               else None))"
| "scan_pairs 0 s = None"
| "scan_pairs (Suc n) s =
     (if take 1 s \<noteq> [CHR 0x22] then None
      else case scan_string (drop 1 s) of
        None \<Rightarrow> None
      | Some (k, r) \<Rightarrow>
          if take 1 (skip_ws r) \<noteq> '':'' then None
          else
            (case scan_once n (skip_ws (drop 1 (skip_ws r))) of
               None \<Rightarrow> None
             | Some (v, r1) \<Rightarrow>
                 (case skip_ws r1 of
                    [] \<Rightarrow> None
                  | c # r2 \<Rightarrow>
                      if c = CHR ''}'' then Some ([(k, v)], r2)
                      else if c = CHR '','' then map_option (apfst (Cons (k, v))) (scan_pairs n (skip_ws r2))
                      else None)))"

definition loads :: "string \<Rightarrow> json option" where
  "loads s =
     (case scan_once (Suc (length s)) (skip_ws s) of
        Some (v, r) \<Rightarrow> if skip_ws r = [] then Some v else None
      | None \<Rightarrow> None)"

text \<open>The values whose text can be read back: no floats, and no object with a repeated key.\<close>

fun plain_json :: "json \<Rightarrow> bool" where
  "plain_json (JFloat t n) = False"
| "plain_json (JArr xs) = list_all plain_json xs"
| "plain_json (JObj ps) = (distinct (map fst ps) \<and> list_all (\<lambda>(k, v). plain_json v) ps)"
| "plain_json _ = True"

section \<open>The round trip\<close>

lemma hex_digit_value: "d < 16 \<Longrightarrow> hex_value (hex_digit d) = Some d"
  by (simp add: hex_value_def hex_digit_def Let_def)

lemma hex4_code: "hex4 (CHR ''0'') (CHR ''0'') (hex_digit (of_char c div 16)) (hex_digit (of_char c mod 16)) = Some c"
proof -
  have "(of_char c :: nat) div 16 < 16" using nat_of_char_less_256 [of c] by linarith
  moreover have "hex_value (CHR ''0'') = Some 0" by code_simp
  ultimately show ?thesis by (simp add: hex4_def hex_digit_value)
qed

lemma unescape_simps:
  "unescape (CHR 0x22) = Some (CHR 0x22)" "unescape (CHR 0x5C) = Some (CHR 0x5C)"
  "unescape (CHR ''n'') = Some (CHR 0x0A)" "unescape (CHR ''r'') = Some (CHR 0x0D)"
  "unescape (CHR ''t'') = Some (CHR 0x09)" "unescape (CHR ''f'') = Some (CHR 0x0C)"
  "unescape (CHR ''b'') = Some (CHR 0x08)" "unescape (CHR ''u'') = None"
  by code_simp+

lemma scan_backslash:
  "unescape e = Some x \<Longrightarrow> scan_string (CHR 0x5C # e # s) = map_option (apfst (Cons x)) (scan_string s)"
  "hex4 h1 h2 h3 h4 = Some x \<Longrightarrow>
   scan_string (CHR 0x5C # CHR ''u'' # h1 # h2 # h3 # h4 # s) = map_option (apfst (Cons x)) (scan_string s)"
  by (simp_all add: unescape_simps(8))

lemma scan_plain:
  "c \<noteq> CHR 0x22 \<Longrightarrow> c \<noteq> CHR 0x5C \<Longrightarrow> 32 \<le> (of_char c :: nat) \<Longrightarrow>
   scan_string (c # s) = map_option (apfst (Cons c)) (scan_string s)"
  by simp

lemma scan_escape:
  "scan_string (escape_char c @ s) = map_option (apfst (Cons c)) (scan_string s)"
proof -
  consider "c \<in> {CHR 0x22, CHR 0x5C, CHR 0x0A, CHR 0x0D, CHR 0x09, CHR 0x0C, CHR 0x08}"
    | "c \<noteq> CHR 0x22" "c \<noteq> CHR 0x5C" "32 \<le> (of_char c :: nat)" "escape_char c = [c]"
    | "escape_char c = [CHR 0x5C, CHR ''u'', CHR ''0'', CHR ''0'',
        hex_digit (of_char c div 16), hex_digit (of_char c mod 16)]"
  proof (cases "c \<in> {CHR 0x22, CHR 0x5C, CHR 0x0A, CHR 0x0D, CHR 0x09, CHR 0x0C, CHR 0x08}")
    case False
    have e: "escape_char c = (if 32 \<le> (of_char c :: nat) \<and> (of_char c :: nat) \<le> 126 then [c]
        else [CHR 0x5C, CHR ''u'', CHR ''0'', CHR ''0'', hex_digit (of_char c div 16), hex_digit (of_char c mod 16)])"
      unfolding escape_char_def Let_def using False
      by (simp only: insert_iff empty_iff de_Morgan_disj simp_thms if_False)
    show ?thesis
    proof (cases "32 \<le> (of_char c :: nat) \<and> (of_char c :: nat) \<le> 126")
      case True
      then show ?thesis using False e by (intro that(2)) (simp_all only: if_True simp_thms, blast+)
    next
      case no: False
      then show ?thesis using e by (intro that(3)) (simp only: if_False)
    qed
  qed (rule that(1))
  then show ?thesis
  proof cases
    case 1
    moreover have "escape_char (CHR 0x22) = [CHR 0x5C, CHR 0x22]" "escape_char (CHR 0x5C) = [CHR 0x5C, CHR 0x5C]"
      "escape_char (CHR 0x0A) = [CHR 0x5C, CHR ''n'']" "escape_char (CHR 0x0D) = [CHR 0x5C, CHR ''r'']"
      "escape_char (CHR 0x09) = [CHR 0x5C, CHR ''t'']" "escape_char (CHR 0x0C) = [CHR 0x5C, CHR ''f'']"
      "escape_char (CHR 0x08) = [CHR 0x5C, CHR ''b'']"
      by code_simp+
    ultimately show ?thesis
      by (elim insertE emptyE) (simp_all add: scan_backslash(1) unescape_simps del: scan_string.simps)
  next
    case 2
    then have "escape_char c @ s = c # s" by simp
    then show ?thesis using scan_plain [OF 2(1-3), of s] by (simp only:)
  next
    case 3
    then show ?thesis by (simp only: append_Cons append_Nil scan_backslash(2) [OF hex4_code])
  qed
qed

lemma scan_dumps_str: "scan_string (concat (map escape_char s) @ CHR 0x22 # r) = Some (s, r)"
proof (induction s)
  case (Cons c s)
  then show ?case by (simp add: scan_escape del: scan_string.simps)
qed simp
text \<open>Numbers: what follows one must not go on with it.\<close>

definition ends_value :: "string \<Rightarrow> bool" where
  "ends_value r \<longleftrightarrow> r = [] \<or> hd r \<in> set '',]}''"

lemma digit_char_is_digit: "d < 10 \<Longrightarrow> is_digit_char (digit_char d)"
  by (simp add: is_digit_char_def of_digit_char)

lemma is_digit_of_digits: "c \<in> set (digits n) \<Longrightarrow> is_digit_char c"
  using digits_chars [of n] digit_char_is_digit by blast

lemma digits_hd_zero: "0 < n \<Longrightarrow> hd (digits n) \<noteq> CHR ''0''"
proof (induction n rule: digits.induct)
  case (1 n)
  show ?case
  proof (cases "n < 10")
    case True
    have "of_char (digit_char n) \<noteq> (of_char (digit_char 0) :: nat)"
      using True 1(2) by (simp add: of_digit_char)
    then show ?thesis using True by (metis digit_char_0 digits.simps list.sel(1))
  next
    case False
    then have "0 < n div 10" by simp
    from 1(1) [OF False this] show ?thesis
      using False digits_not_Nil [of "n div 10"] by (simp add: digits.simps [of n])
  qed
qed

lemma ends_value_chars:
  assumes "ends_value r"
  shows "takeWhile is_digit_char r = []" "take 1 r \<notin> {''.'', ''e'', ''E''}"
proof -
  have "\<not> is_digit_char (CHR '','')" "\<not> is_digit_char (CHR '']'')" "\<not> is_digit_char (CHR ''}'')" by code_simp+
  then show "takeWhile is_digit_char r = []" "take 1 r \<notin> {''.'', ''e'', ''E''}"
    using assms by (cases r; auto simp: ends_value_def)+
qed

lemma scan_digits_digits:
  assumes "ends_value r"
  shows "scan_digits (digits n @ r) = Some (n, r)"
proof -
  have t: "takeWhile is_digit_char (digits n @ r) = digits n"
    using takeWhile_append2 [of "digits n" is_digit_char r] is_digit_of_digits ends_value_chars(1) [OF assms]
    by auto
  have "(if take 1 (digits n @ r) = ''0'' then ''0'' else takeWhile is_digit_char (digits n @ r)) = digits n"
  proof (cases "n = 0")
    case True
    then show ?thesis using digit_char_0 by (simp add: digits.simps [of 0])
  next
    case False
    then have "take 1 (digits n @ r) \<noteq> ''0''"
      using digits_hd_zero [of n] digits_not_Nil [of n] by (cases "digits n") simp_all
    then show ?thesis using t by simp
  qed
  then show ?thesis
    using ends_value_chars(2) [OF assms] digits_not_Nil [of n] digits_number_digits [of 0 n]
    by (simp add: scan_digits_def Let_def)
qed

lemma scan_dumps_int:
  assumes "ends_value r"
  shows "scan_number (dumps_int n @ r) = Some (JInt n, r)"
proof (cases "n < 0")
  case True
  then show ?thesis
    using scan_digits_digits [OF assms, of "nat (- n)"] by (simp add: scan_number_def dumps_int_def)
next
  case False
  obtain c cs where d: "digits (nat n) = c # cs" using digits_not_Nil by (cases "digits (nat n)") auto
  then have "c \<noteq> CHR ''-''" using digit_string_minus [OF digit_string_simps(4), of "nat n"] by auto
  then show ?thesis
    using False d scan_digits_digits [OF assms, of "nat n"] by (simp add: scan_number_def dumps_int_def)
qed

text \<open>The first character of a text decides which reader goes on.\<close>

definition starts_value :: "char \<Rightarrow> bool" where
  "starts_value c \<longleftrightarrow> \<not> is_ws c \<and> c \<notin> set '']}''"

lemma number_head:
  assumes "is_digit_char c \<or> c = CHR ''-''"
  shows "starts_value c" "c \<notin> {CHR 0x22, CHR ''['', CHR ''{'', CHR ''n'', CHR ''t'', CHR ''f''}"
proof -
  have "list_all (\<lambda>x. \<not> is_digit_char x \<and> x \<noteq> CHR ''-'')
     ([CHR '' '', CHR 0x09, CHR 0x0A, CHR 0x0D, CHR '']'', CHR ''}''] @
      [CHR 0x22, CHR ''['', CHR ''{'', CHR ''n'', CHR ''t'', CHR ''f''])"
    by code_simp
  with assms show "starts_value c" "c \<notin> {CHR 0x22, CHR ''['', CHR ''{'', CHR ''n'', CHR ''t'', CHR ''f''}"
    by (auto simp: starts_value_def is_ws_def)
qed

lemma dumps_int_head: "\<exists>c cs. dumps_int n = c # cs \<and> (is_digit_char c \<or> c = CHR ''-'')"
proof (cases "n < 0")
  case False
  obtain c cs where d: "digits (nat n) = c # cs" using digits_not_Nil by (cases "digits (nat n)") auto
  then have "is_digit_char c" using is_digit_of_digits [of c "nat n"] by simp
  then show ?thesis using False d by (simp add: dumps_int_def)
qed (simp add: dumps_int_def)

lemma dumps_head:
  assumes "plain_json j"
  obtains c cs where "dumps j = c # cs" "starts_value c"
proof -
  have st: "starts_value (CHR ''n'')" "starts_value (CHR ''t'')" "starts_value (CHR ''f'')"
    "starts_value (CHR 0x22)" "starts_value (CHR ''['')" "starts_value (CHR ''{'')"
    by code_simp+
  show thesis
  proof (cases j)
    case (JBool b)
    then show ?thesis using that st by (cases b) simp_all
  next
    case (JInt n)
    then show ?thesis using dumps_int_head [of n] number_head(1) that by auto
  qed (use assms that st in \<open>simp_all add: dumps_str_def\<close>)
qed

lemma skip_ws_head: "\<not> is_ws c \<Longrightarrow> skip_ws (c # s) = c # s"
  by (simp add: skip_ws_def)

lemma skip_ws_dumps: "plain_json j \<Longrightarrow> skip_ws (dumps j @ r) = dumps j @ r"
  by (erule dumps_head) (simp add: skip_ws_head starts_value_def)

lemma punctuation: "\<not> is_ws (CHR '','')" "\<not> is_ws (CHR '']'')" "\<not> is_ws (CHR ''}'')"
  "\<not> is_ws (CHR '':'')" "\<not> is_ws (CHR 0x22)"
  by code_simp+

definition reads :: "json \<Rightarrow> bool" where
  "reads j \<longleftrightarrow> (\<forall>n r. length (dumps j) \<le> n \<longrightarrow> ends_value r \<longrightarrow> scan_once n (dumps j @ r) = Some (j, r))"

lemma commas_Cons: "xs \<noteq> [] \<Longrightarrow> commas (x # xs) = x @ CHR '','' # commas xs"
  by (cases xs) simp_all

lemma scan_elements_dumps:
  assumes "\<And>x. x \<in> set xs \<Longrightarrow> reads x \<and> plain_json x" and "xs \<noteq> []"
    and "length (commas (map dumps xs)) + 1 \<le> n"
  shows "scan_elements n (commas (map dumps xs) @ CHR '']'' # r) = Some (xs, r)"
  using assms
proof (induction xs arbitrary: n)
  case (Cons x xs)
  obtain m where n: "n = Suc m" using Cons.prems(3) by (cases n) auto
  have x: "reads x" "plain_json x" using Cons.prems(1) by simp_all
  show ?case
  proof (cases "xs = []")
    case True
    have "scan_once m (dumps x @ CHR '']'' # r) = Some (x, CHR '']'' # r)"
      using x(1) Cons.prems(3) n True by (simp add: reads_def ends_value_def)
    then show ?thesis using True n by (simp add: skip_ws_head punctuation)
  next
    case False
    let ?t = "commas (map dumps xs) @ CHR '']'' # r"
    have "scan_once m (dumps x @ CHR '','' # ?t) = Some (x, CHR '','' # ?t)"
      using x(1) Cons.prems(3) n False by (simp add: reads_def ends_value_def commas_Cons)
    moreover have "skip_ws ?t = ?t"
    proof -
      obtain y ys where xs: "xs = y # ys" using False by (cases xs) auto
      then obtain c cs where "dumps y = c # cs" "starts_value c"
        using Cons.prems(1) dumps_head [of y] by auto
      then have "\<exists>cs. commas (map dumps xs) = c # cs" using xs by (cases ys) auto
      with \<open>starts_value c\<close> show ?thesis by (auto simp: skip_ws_head starts_value_def)
    qed
    moreover have "scan_elements m ?t = Some (xs, r)"
      using Cons.IH [of m] Cons.prems False n by (simp add: commas_Cons)
    ultimately show ?thesis using False n by (simp add: commas_Cons skip_ws_head punctuation)
  qed
qed simp

abbreviation dumps_pair :: "string \<times> json \<Rightarrow> string" where
  "dumps_pair \<equiv> \<lambda>(k, v). dumps_str k @ CHR '':'' # dumps v"

lemma scan_pairs_dumps:
  assumes "\<And>k v. (k, v) \<in> set ps \<Longrightarrow> reads v \<and> plain_json v" and "ps \<noteq> []"
    and "length (commas (map dumps_pair ps)) + 1 \<le> n"
  shows "scan_pairs n (commas (map dumps_pair ps) @ CHR ''}'' # r) = Some (ps, r)"
  using assms
proof (induction ps arbitrary: n)
  case (Cons p ps)
  obtain m where n: "n = Suc m" using Cons.prems(3) by (cases n) auto
  obtain k v where p: "p = (k, v)" by force
  have v: "reads v" "plain_json v" using Cons.prems(1) [of k v] p by simp_all
  have key: "scan_string (drop 1 (dumps_str k @ CHR '':'' # t)) = Some (k, CHR '':'' # t)" for t
    using scan_dumps_str [of k] by (simp add: dumps_str_def)
  have quote: "take 1 (dumps_str k @ t) = [CHR 0x22]" for t by (simp add: dumps_str_def)
  show ?case
  proof (cases "ps = []")
    case True
    have "scan_once m (dumps v @ CHR ''}'' # r) = Some (v, CHR ''}'' # r)"
      using v(1) Cons.prems(3) n p True by (simp add: reads_def ends_value_def)
    then show ?thesis
      using True n p key [of "dumps v @ CHR ''}'' # r"] quote v(2)
      by (simp add: skip_ws_head punctuation skip_ws_dumps del: drop_append take_append)
  next
    case False
    let ?t = "commas (map dumps_pair ps) @ CHR ''}'' # r"
    have "scan_once m (dumps v @ CHR '','' # ?t) = Some (v, CHR '','' # ?t)"
      using v(1) Cons.prems(3) n p False by (simp add: reads_def ends_value_def commas_Cons)
    moreover have "skip_ws ?t = ?t"
    proof -
      obtain q qs where ps: "ps = q # qs" using False by (cases ps) auto
      have "\<exists>cs. commas (map dumps_pair ps) = CHR 0x22 # cs"
        using ps by (cases qs; cases q) (auto simp: dumps_str_def)
      then show ?thesis by (auto simp: skip_ws_head punctuation)
    qed
    moreover have "scan_pairs m ?t = Some (ps, r)"
    proof (rule Cons.IH)
      show "length (commas (map dumps_pair ps)) + 1 \<le> m"
        using Cons.prems(3) n p False by (simp add: commas_Cons)
    qed (use Cons.prems(1) False in auto)
    ultimately show ?thesis
      using False n p key [of "dumps v @ CHR '','' # ?t"] quote v(2)
      by (simp add: commas_Cons skip_ws_head punctuation skip_ws_dumps del: drop_append take_append)
  qed
qed simp

lemma update_new: "k \<notin> fst ` set d \<Longrightarrow> AList.update k v d = d @ [(k, v)]"
  by (induction d) auto

lemma dict_of_distinct: "distinct (map fst ps) \<Longrightarrow> dict_of ps = ps"
proof -
  have "distinct (map fst (d @ ps)) \<Longrightarrow> foldl (\<lambda>d (k, v). AList.update k v d) d ps = d @ ps" for d
  proof (induction ps arbitrary: d)
    case (Cons p ps)
    then show ?case by (cases p) (auto simp: update_new)
  qed simp
  from this [of "[]"] show "distinct (map fst ps) \<Longrightarrow> ?thesis" by (simp add: dict_of_def)
qed

lemma scan_once_number:
  assumes "is_digit_char c \<or> c = CHR ''-''"
  shows "scan_once (Suc n) (c # s) = scan_number (c # s)"
proof -
  have "c \<noteq> CHR 0x22" "c \<noteq> CHR ''[''" "c \<noteq> CHR ''{''" "take 4 (c # s) \<noteq> ''null''"
    "take 4 (c # s) \<noteq> ''true''" "take 5 (c # s) \<noteq> ''false''"
    using number_head(2) [OF assms] by auto
  then show ?thesis by (simp only: scan_once.simps list.case if_False)
qed

lemma scan_once_brackets:
  "scan_once (Suc n) (CHR 0x22 # s) = map_option (apfst JStr) (scan_string s)"
  "scan_once (Suc n) (CHR ''['' # s) =
     (if take 1 (skip_ws s) = '']'' then Some (JArr [], drop 1 (skip_ws s))
      else map_option (apfst JArr) (scan_elements n (skip_ws s)))"
  "scan_once (Suc n) (CHR ''{'' # s) =
     (if take 1 (skip_ws s) = ''}'' then Some (JObj [], drop 1 (skip_ws s))
      else map_option (apfst (\<lambda>ps. JObj (dict_of ps))) (scan_pairs n (skip_ws s)))"
  by simp_all

lemma commas_head:
  assumes "xs \<noteq> []" and "hd xs = c # cs"
  shows "\<exists>cs. commas xs = c # cs"
  using assms by (cases xs; cases "tl xs") auto

lemma plain_reads: "plain_json j \<Longrightarrow> reads j"
proof (induction j)
  case (JInt n)
  show ?case unfolding reads_def
  proof (intro allI impI)
    fix m r
    assume m: "length (dumps (JInt n)) \<le> m" and r: "ends_value r"
    obtain c cs where c: "dumps_int n = c # cs" "is_digit_char c \<or> c = CHR ''-''"
      using dumps_int_head by blast
    with m obtain k where "m = Suc k" by (cases m) auto
    then show "scan_once m (dumps (JInt n) @ r) = Some (JInt n, r)"
      using scan_dumps_int [OF r, of n] scan_once_number [OF c(2)] c(1) by simp
  qed
next
  case (JStr s)
  show ?case unfolding reads_def
  proof (intro allI impI)
    fix m r
    assume "length (dumps (JStr s)) \<le> m"
    then obtain k where "m = Suc k" by (cases m) (auto simp: dumps_str_def)
    then show "scan_once m (dumps (JStr s) @ r) = Some (JStr s, r)"
      using scan_dumps_str [of s r] by (simp add: dumps_str_def scan_once_brackets(1) del: scan_once.simps)
  qed
next
  case (JArr xs)
  have ok: "reads x \<and> plain_json x" if "x \<in> set xs" for x
    using JArr that by (auto simp: list_all_iff)
  show ?case unfolding reads_def
  proof (intro allI impI)
    fix m r
    assume m: "length (dumps (JArr xs)) \<le> m"
    then obtain k where k: "m = Suc k" by (cases m) auto
    show "scan_once m (dumps (JArr xs) @ r) = Some (JArr xs, r)"
    proof (cases "xs = []")
      case True
      then show ?thesis using k by (simp add: scan_once_brackets(2) skip_ws_head punctuation del: scan_once.simps)
    next
      case False
      let ?t = "commas (map dumps xs) @ CHR '']'' # r"
      obtain c cs where c: "dumps (hd xs) = c # cs" "starts_value c"
        using ok [of "hd xs"] False dumps_head by (metis hd_in_set)
      obtain cs' where "commas (map dumps xs) = c # cs'"
        using commas_head [of "map dumps xs" c cs] c(1) False by (auto simp: hd_map)
      then have "skip_ws ?t = ?t" "take 1 ?t \<noteq> '']''"
        using c(2) by (auto simp: skip_ws_head starts_value_def)
      moreover have "scan_elements k ?t = Some (xs, r)"
        using scan_elements_dumps [OF ok False, of k r] m k by simp
      ultimately show ?thesis
        using k by (simp add: scan_once_brackets(2) del: scan_once.simps scan_elements.simps take_append)
    qed
  qed
next
  case (JObj ps)
  have ok: "reads v \<and> plain_json v" if "(k, v) \<in> set ps" for k v
    using JObj that by (fastforce simp: list_all_iff)
  show ?case unfolding reads_def
  proof (intro allI impI)
    fix m r
    assume m: "length (dumps (JObj ps)) \<le> m"
    then obtain k where k: "m = Suc k" by (cases m) auto
    show "scan_once m (dumps (JObj ps) @ r) = Some (JObj ps, r)"
    proof (cases "ps = []")
      case True
      then show ?thesis using k by (simp add: scan_once_brackets(3) skip_ws_head punctuation del: scan_once.simps)
    next
      case False
      let ?t = "commas (map dumps_pair ps) @ CHR ''}'' # r"
      have "\<exists>cs. hd (map dumps_pair ps) = CHR 0x22 # cs"
        using False by (cases ps) (auto simp: dumps_str_def)
      then obtain cs' where "commas (map dumps_pair ps) = CHR 0x22 # cs'"
        using commas_head [of "map dumps_pair ps"] False by (metis list.map_disc_iff)
      then have "skip_ws ?t = ?t" "take 1 ?t \<noteq> ''}''" by (auto simp: skip_ws_head punctuation)
      moreover have "scan_pairs k ?t = Some (ps, r)"
        using scan_pairs_dumps [where ps = ps and n = k and r = r, OF ok False] m k by simp
      moreover have "dict_of ps = ps" using JObj.prems by (simp add: dict_of_distinct)
      ultimately show ?thesis
        using k by (simp add: scan_once_brackets(3) del: scan_once.simps scan_pairs.simps take_append)
    qed
  qed
next
  case (JBool b)
  show ?case unfolding reads_def
  proof (intro allI impI)
    fix m r
    assume "length (dumps (JBool b)) \<le> m"
    then obtain k where "m = Suc k" by (cases m) (auto split: if_splits)
    then show "scan_once m (dumps (JBool b) @ r) = Some (JBool b, r)" by (cases b) simp_all
  qed
next
  case JNull
  show ?case unfolding reads_def
  proof (intro allI impI)
    fix m r
    assume "length (dumps JNull) \<le> m"
    then obtain k where "m = Suc k" by (cases m) auto
    then show "scan_once m (dumps JNull @ r) = Some (JNull, r)" by simp
  qed
qed simp

lemma loads_dumps: "plain_json j \<Longrightarrow> loads (dumps j) = Some j"
proof -
  assume j: "plain_json j"
  have "skip_ws (dumps j) = dumps j" using skip_ws_dumps [OF j, of "[]"] by simp
  moreover have "scan_once (Suc (length (dumps j))) (dumps j) = Some (j, [])"
    using plain_reads [OF j] unfolding reads_def by (metis append_Nil2 ends_value_def le_SucI order_refl)
  ultimately show ?thesis by (simp add: loads_def skip_ws_def)
qed

lemma dumps_inj: "plain_json j \<Longrightarrow> plain_json k \<Longrightarrow> dumps j = dumps k \<Longrightarrow> j = k"
  using loads_dumps by (metis option.sel)

end
