(* ===== verification/Offset_Store.thy ===== *)
theory Offset_Store
  imports Json_Text Commit_Protocol Machines
begin

text \<open>
  The durable resume point, Debezium's offset file and the replay decision: a model of
  \<open>ResumePoint.to_json\<close>, \<open>from_json\<close>, \<open>read_resume_point\<close> and \<open>write_resume_point\<close> of
  \<open>src/cdc_flight/destination.py\<close>, and of \<open>src/cdc_flight/offsets.py\<close> but for the Java
  serialisation and the fsync discipline: a file is written and replaced as a whole.

  An offset file is absent, empty, unreadable, or a list of entries of key text and value text. The SHA-256
  digest is the argument \<open>sha\<close>; nothing is assumed of it.
\<close>

section \<open>The resume point and its row\<close>

datatype offset_error =
    OffsetUnusable
  | ReconciliationRefused
  | FileDrift
  | NotAnObject
  | UnknownDecision

definition truthy_json :: "json \<Rightarrow> bool" where
  "truthy_json j =
     (case j of JNull \<Rightarrow> False | JBool b \<Rightarrow> b | JInt n \<Rightarrow> n \<noteq> 0 | JFloat t n \<Rightarrow> t \<noteq> ''0.0'' \<and> t \<noteq> ''-0.0'' | JStr s \<Rightarrow> s \<noteq> []
      | JArr xs \<Rightarrow> xs \<noteq> [] | JObj ps \<Rightarrow> ps \<noteq> [])"

definition json_get :: "json_object \<Rightarrow> string \<Rightarrow> json" where
  "json_get o' k = dict_get o' k JNull"

definition text_or_null :: "string option \<Rightarrow> json" where
  "text_or_null x = (case x of None \<Rightarrow> JNull | Some s \<Rightarrow> JStr s)"

definition null_or_text :: "json \<Rightarrow> string option" where
  \<comment> \<open>\<open>last_txn_id\<close> is taken as it is; the column replaces it in \<open>read_resume_point\<close>\<close>
  "null_or_text j = (case j of JStr s \<Rightarrow> Some s | _ \<Rightarrow> None)"

definition to_json :: "resume_point \<Rightarrow> string" where
  "to_json p = dumps (JObj [(''partition'', JObj (pt_partition p)), (''offset'', JObj (pt_offset p)),
     (''last_lsn'', JInt (pt_last_lsn p)), (''last_txn_id'', text_or_null (pt_last_txn_id p)),
     (''last_total_order'', pt_last_total_order p)])"

definition object_or_empty :: "json \<Rightarrow> offset_error + json_object" where
  \<comment> \<open>\<open>value or {}\<close>, which must be a dict\<close>
  "object_or_empty j =
     (if \<not> truthy_json j then Inr [] else case j of JObj ps \<Rightarrow> Inr ps | _ \<Rightarrow> Inl OffsetUnusable)"

definition int_value :: "json \<Rightarrow> offset_error + int" where
  "int_value j = (case py_int j of None \<Rightarrow> Inl OffsetUnusable | Some n \<Rightarrow> Inr n)"

definition from_json :: "string \<Rightarrow> offset_error + resume_point" where
  "from_json text =
     (case loads text of
        Some (JObj payload) \<Rightarrow>
          rbind (object_or_empty (json_get payload ''partition'')) (\<lambda>part.
          rbind (object_or_empty (json_get payload ''offset'')) (\<lambda>offset.
          rbind (if truthy_json (json_get payload ''last_lsn'') then int_value (json_get payload ''last_lsn'')
                 else Inr 0) (\<lambda>last_lsn.
          if last_lsn < 0 then Inl OffsetUnusable
          else
            rbind (case json_get payload ''last_total_order'' of
                     JNull \<Rightarrow> Inr JNull
                   | j \<Rightarrow> rbind (int_value j) (\<lambda>n. Inr (JInt n))) (\<lambda>total_order.
            Inr \<lparr>pt_partition = part, pt_offset = offset, pt_last_lsn = last_lsn,
                 pt_last_txn_id = null_or_text (json_get payload ''last_txn_id''),
                 pt_last_total_order = total_order, pt_commit_id = 0, pt_snapshot_epoch = 0\<rparr>))))
      | _ \<Rightarrow> Inl OffsetUnusable)"

record offset_row =
  or_resume_json :: string
  or_commit_id :: "int option"
  or_last_lsn :: "int option"
  or_last_txn_id :: "string option"
  or_last_total_order :: json
  or_snapshot_epoch :: "int option"
  or_key_blob :: "string option"

definition write_resume_point :: "resume_point \<Rightarrow> int \<Rightarrow> string option \<Rightarrow> offset_row" where
  \<comment> \<open>the row that replaces the pipeline's row\<close>
  "write_resume_point p commit_id key_blob =
     \<lparr>or_resume_json = to_json p, or_commit_id = Some commit_id, or_last_lsn = Some (pt_last_lsn p),
      or_last_txn_id = pt_last_txn_id p, or_last_total_order = pt_last_total_order p,
      or_snapshot_epoch = Some (pt_snapshot_epoch p), or_key_blob = key_blob\<rparr>"

definition read_resume_point :: "offset_row option \<Rightarrow> offset_error + resume_point option" where
  "read_resume_point row =
     (case row of
        None \<Rightarrow> Inr None
      | Some r \<Rightarrow>
          rbind (from_json (or_resume_json r)) (\<lambda>p.
            Inr (Some (p\<lparr>pt_commit_id := int_or (or_commit_id r) 0,
                         pt_last_lsn := int_or (or_last_lsn r) (pt_last_lsn p),
                         pt_last_txn_id := or_last_txn_id r,
                         pt_last_total_order := or_last_total_order r,
                         pt_snapshot_epoch := int_or (or_snapshot_epoch r) 0\<rparr>))))"

section \<open>The offset file\<close>

datatype offset_file = NoFile | EmptyFile | Unreadable | OffsetFile "(string \<times> string) list"

definition encode_key :: "string \<Rightarrow> json_object \<Rightarrow> string" where
  "encode_key namespace part = dumps (JArr [JStr namespace, JObj part])"

definition encode_value :: "json_object \<Rightarrow> string" where
  "encode_value offset = dumps (JObj offset)"

definition read_file :: "offset_file \<Rightarrow> (string \<times> string) list" where
  "read_file f = (case f of OffsetFile es \<Rightarrow> es | _ \<Rightarrow> [])"

definition file_present :: "offset_file \<Rightarrow> bool" where
  "file_present f \<longleftrightarrow> f \<noteq> NoFile \<and> f \<noteq> EmptyFile"

definition parse_entry :: "string \<times> string \<Rightarrow> (json \<times> json) option" where
  "parse_entry kv =
     (case (loads (fst kv), if snd kv = [] then Some (JObj []) else loads (snd kv)) of
        (Some key, Some v) \<Rightarrow>
          Some (case key of JArr (_ # part # _) \<Rightarrow> part | _ \<Rightarrow> JObj [], v)
      | _ \<Rightarrow> None)"

definition parse_offsets :: "(string \<times> string) list \<Rightarrow> (json \<times> json) list" where
  "parse_offsets es = List.map_filter parse_entry es"

definition lsn_of :: "json_object \<Rightarrow> int option" where
  "lsn_of offset = first_int offset [''lsn'', ''lsn_proc'', ''lsn_commit'']"

definition as_object :: "json \<Rightarrow> offset_error + json_object" where
  \<comment> \<open>\<open>offset.get\<close> raises on a value that is no dict\<close>
  "as_object j = (case j of JObj ps \<Rightarrow> Inr ps | _ \<Rightarrow> Inl NotAnObject)"

definition first_lsn :: "(json \<times> json) list \<Rightarrow> offset_error + int option" where
  "first_lsn parsed =
     (case parsed of [] \<Rightarrow> Inr None | (_, v) # _ \<Rightarrow> rbind (as_object v) (\<lambda>o'. Inr (lsn_of o')))"

fun best_lsn :: "int option \<Rightarrow> (json \<times> json) list \<Rightarrow> offset_error + int option" where
  "best_lsn best [] = Inr best"
| "best_lsn best ((_, v) # rest) =
     rbind (as_object v) (\<lambda>o'.
       best_lsn (case lsn_of o' of
                   None \<Rightarrow> best
                 | Some n \<Rightarrow> (case best of None \<Rightarrow> Some n | Some b \<Rightarrow> if n > b then Some n else best)) rest)"

definition file_lsn :: "offset_file \<Rightarrow> offset_error + int option" where
  "file_lsn f = best_lsn None (parse_offsets (read_file f))"

text \<open>Python's \<open>==\<close> on JSON values: a dict has no order, and a bool equals the number it is.\<close>

definition number_of :: "json \<Rightarrow> int option" where
  "number_of j = (case j of JInt n \<Rightarrow> Some n | JBool b \<Rightarrow> Some (if b then 1 else 0) | _ \<Rightarrow> None)"

fun py_eq :: "json \<Rightarrow> json \<Rightarrow> bool" where
  "py_eq (JArr xs) k = (case k of JArr ys \<Rightarrow> list_all2 py_eq xs ys | _ \<Rightarrow> False)"
| "py_eq (JObj ps) k =
     (case k of
        JObj qs \<Rightarrow> length ps = length qs \<and>
          list_all (\<lambda>(c, v). case map_of qs c of None \<Rightarrow> False | Some w \<Rightarrow> py_eq v w) ps
      | _ \<Rightarrow> False)"
| "py_eq (JFloat s n) k = (k = JFloat s n)"
| "py_eq JNull k = (k = JNull)"
| "py_eq (JStr s) k = (k = JStr s)"
| "py_eq j k = (number_of j = number_of k)"

definition offset_map_differs ::
  "(string \<times> string) list \<Rightarrow> string \<Rightarrow> resume_point \<Rightarrow> bool" where
  \<comment> \<open>\<open>_offset_map_difference(...) is not None\<close>\<close>
  "offset_map_differs entries namespace row =
     (if pt_offset row = [] then False
      else case entries of
             [(key, v)] \<Rightarrow>
               key \<noteq> encode_key namespace (pt_partition row) \<or>
               (case parse_offsets [(key, v)] of
                  [] \<Rightarrow> True
                | (_, offset) # _ \<Rightarrow> \<not> py_eq offset (JObj (pt_offset row)))
           | _ \<Rightarrow> True)"

section \<open>Reconciliation at start-up\<close>

record offset_state =
  os_row :: "offset_row option"
  os_file :: offset_file
  os_armed :: "string list"   \<comment> \<open>the decisions \<open>before_repair\<close> was called with\<close>
  os_alerts :: "string list"

record reconcile_options =
  ro_accept_orphan :: bool
  ro_repair :: bool
  ro_before_repair :: bool    \<comment> \<open>a callback is given\<close>

record reconciliation =
  rc_decision :: string
  rc_resume_point :: resume_point
  rc_file_lsn :: "int option"
  rc_repaired :: bool

definition repair_file :: "reconcile_options \<Rightarrow> string \<Rightarrow> resume_point \<Rightarrow> offset_state \<Rightarrow> bool \<times> offset_state" where
  "repair_file opts namespace row st =
     (if \<not> ro_repair opts \<or> pt_offset row = [] then (False, st)
      else
        let blob = (case os_row st of None \<Rightarrow> None | Some r \<Rightarrow> or_key_blob r);
            key = (if truthy_str blob then the blob else encode_key namespace (pt_partition row))
        in (True, st\<lparr>os_file := OffsetFile [(key, encode_value (pt_offset row))]\<rparr>))"

definition repair_with_intent ::
  "reconcile_options \<Rightarrow> string \<Rightarrow> resume_point \<Rightarrow> string \<Rightarrow> offset_state \<Rightarrow> bool \<times> offset_state" where
  "repair_with_intent opts namespace row decision st =
     repair_file opts namespace row
       (if ro_before_repair opts \<and> pt_offset row \<noteq> [] then st\<lparr>os_armed := os_armed st @ [decision]\<rparr> else st)"

definition decide :: "string \<Rightarrow> resume_point \<Rightarrow> int option \<Rightarrow> bool \<Rightarrow> offset_error + reconciliation" where
  \<comment> \<open>\<open>Reconciliation.__post_init__\<close> parses the decision\<close>
  "decide decision point lsn repaired =
     (case domain_parse RECONCILE_DECISIONS decision of
        Inl _ \<Rightarrow> Inl UnknownDecision
      | Inr d \<Rightarrow> Inr \<lparr>rc_decision = d, rc_resume_point = point, rc_file_lsn = lsn, rc_repaired = repaired\<rparr>)"

definition rebuilt :: "reconcile_options \<Rightarrow> string \<Rightarrow> resume_point \<Rightarrow> string \<Rightarrow> int option \<Rightarrow> offset_state \<Rightarrow>
    (offset_error + reconciliation) \<times> offset_state" where
  "rebuilt opts namespace row decision lsn st =
     (let (repaired, st1) = repair_with_intent opts namespace row decision st
      in (decide decision row lsn repaired, st1))"

definition reconcile_row ::
  "reconcile_options \<Rightarrow> string \<Rightarrow> resume_point \<Rightarrow> int option \<Rightarrow> offset_state \<Rightarrow>
   (offset_error + reconciliation) \<times> offset_state" where
  \<comment> \<open>a destination row exists: it is the truth\<close>
  "reconcile_row opts namespace row lsn st =
     (if \<not> file_present (os_file st) then
        (let (repaired, st1) = repair_with_intent opts namespace row ''file_missing_rebuilt'' st in
         (decide (if repaired then ''file_missing_rebuilt''
                  else if pt_offset row = [] then ''file_missing_no_durable_offset''
                  else ''file_missing_repair_disabled'') row None repaired, st1))
      else if read_file (os_file st) = [] then rebuilt opts namespace row ''file_corrupt_rebuilt'' None st
      else if (case lsn of None \<Rightarrow> False | Some n \<Rightarrow> pt_last_lsn row \<noteq> 0 \<and> n > pt_last_lsn row) then
        rebuilt opts namespace row ''file_ahead_rebuilt'' lsn (st\<lparr>os_alerts := os_alerts st @ [''offset_file_ahead'']\<rparr>)
      else if (case lsn of None \<Rightarrow> False | Some n \<Rightarrow> pt_last_lsn row \<noteq> 0 \<and> n < pt_last_lsn row) then
        rebuilt opts namespace row ''file_behind_rebuilt'' lsn st
      else if offset_map_differs (read_file (os_file st)) namespace row then
        rebuilt opts namespace row ''file_offset_mismatch_rebuilt'' lsn st
      else (decide ''resume'' row lsn False, st))"

definition reconcile ::
  "reconcile_options \<Rightarrow> string \<Rightarrow> offset_state \<Rightarrow> (offset_error + reconciliation) \<times> offset_state" where
  "reconcile opts namespace st =
     (case read_resume_point (os_row st) of
        Inl e \<Rightarrow> (Inl e, st)
      | Inr row \<Rightarrow>
          (case first_lsn (parse_offsets (read_file (os_file st))) of
             Inl e \<Rightarrow> (Inl e, st)
           | Inr lsn \<Rightarrow>
               (case row of
                  Some p \<Rightarrow> reconcile_row opts namespace p lsn st
                | None \<Rightarrow>
                    if \<not> file_present (os_file st) then (decide ''fresh_start'' zero_point None False, st)
                    else if ro_accept_orphan opts then
                      (decide ''orphan_accepted_resnapshot'' zero_point lsn False, st)
                    else (Inl ReconciliationRefused,
                          st\<lparr>os_alerts := os_alerts st @ [''orphan_offset_file'']\<rparr>))))"

section \<open>The replay decision\<close>

record replay_intent =
  ri_pipeline :: string
  ri_namespace :: string
  ri_commit_id :: int
  ri_digest :: string
  ri_phase :: string
  ri_source_size :: "int option"
  ri_source_sha256 :: "string option"

definition as_dict :: "replay_intent \<Rightarrow> json_object" where
  "as_dict i =
     [(''kind'', JStr ''cdc-flight-replay-intent''), (''version'', JInt 1),
      (''pipeline'', JStr (ri_pipeline i)), (''namespace'', JStr (ri_namespace i)),
      (''durable_commit_id'', JInt (ri_commit_id i)), (''durable_resume_digest'', JStr (ri_digest i)),
      (''phase'', JStr (ri_phase i)),
      (''source_size'', case ri_source_size i of None \<Rightarrow> JNull | Some n \<Rightarrow> JInt n),
      (''source_sha256'', text_or_null (ri_source_sha256 i))]"

definition hex_digest :: "string \<Rightarrow> bool" where
  "hex_digest s \<longleftrightarrow> length s = 64 \<and> list_all (\<lambda>c. c \<in> set ''0123456789abcdef'') s"

definition intent_from_payload :: "json \<Rightarrow> offset_error + replay_intent" where
  "intent_from_payload payload =
     (case payload of
        JObj o' \<Rightarrow>
          if \<not> py_eq (JStr ''cdc-flight-replay-intent'') (json_get o' ''kind'') \<or>
             \<not> py_eq (JInt 1) (json_get o' ''version'') then Inl OffsetUnusable
          else
            (case (json_get o' ''pipeline'', json_get o' ''namespace'', json_get o' ''durable_commit_id'',
                   json_get o' ''durable_resume_digest'', json_get o' ''phase'') of
               (JStr pipeline, JStr ns, JInt commit_id, JStr digest, JStr phase) \<Rightarrow>
                 if pipeline = [] \<or> ns = [] \<or> commit_id < 0 \<or> \<not> hex_digest digest \<or>
                    phase \<notin> {''pending'', ''installing''} then Inl OffsetUnusable
                 else if phase = ''pending'' then
                   (if json_get o' ''source_size'' \<noteq> JNull \<or> json_get o' ''source_sha256'' \<noteq> JNull
                    then Inl OffsetUnusable
                    else Inr \<lparr>ri_pipeline = pipeline, ri_namespace = ns, ri_commit_id = commit_id,
                              ri_digest = digest, ri_phase = phase, ri_source_size = None,
                              ri_source_sha256 = None\<rparr>)
                 else
                   (case (json_get o' ''source_size'', json_get o' ''source_sha256'') of
                      (JInt nbytes, JStr sha256) \<Rightarrow>
                        if nbytes \<le> 0 \<or> \<not> hex_digest sha256 then Inl OffsetUnusable
                        else Inr \<lparr>ri_pipeline = pipeline, ri_namespace = ns, ri_commit_id = commit_id,
                                  ri_digest = digest, ri_phase = phase, ri_source_size = Some nbytes,
                                  ri_source_sha256 = Some sha256\<rparr>
                    | _ \<Rightarrow> Inl OffsetUnusable)
             | _ \<Rightarrow> Inl OffsetUnusable)
      | _ \<Rightarrow> Inl OffsetUnusable)"

definition sorted_dict :: "json_object \<Rightarrow> json_object" where
  \<comment> \<open>\<open>sort_keys=True\<close>; the values of an intent are scalars\<close>
  "sorted_dict o' = sort_key fst o'"

definition intent_text :: "replay_intent \<Rightarrow> string" where
  "intent_text i = dumps (JObj (sorted_dict (as_dict i)))"

definition read_replay_intent :: "string option \<Rightarrow> offset_error + replay_intent option" where
  \<comment> \<open>the sidecar: absent, or its text\<close>
  "read_replay_intent sidecar =
     (case sidecar of
        None \<Rightarrow> Inr None
      | Some text \<Rightarrow>
          if text = [] then Inl OffsetUnusable
          else (case loads text of
                  None \<Rightarrow> Inl OffsetUnusable
                | Some payload \<Rightarrow> rbind (intent_from_payload payload) (\<lambda>i. Inr (Some i))))"

definition resume_digest :: "(string \<Rightarrow> string) \<Rightarrow> resume_point \<Rightarrow> string" where
  "resume_digest sha p = sha (to_json p)"

definition validate_replay_intent ::
  "(string \<Rightarrow> string) \<Rightarrow> replay_intent \<Rightarrow> string \<Rightarrow> string \<Rightarrow> resume_point option \<Rightarrow> offset_error + unit" where
  "validate_replay_intent sha i pipeline namespace durable =
     (if ri_pipeline i \<noteq> pipeline \<or> ri_namespace i \<noteq> namespace then Inl OffsetUnusable
      else case durable of
             None \<Rightarrow> Inl OffsetUnusable
           | Some p \<Rightarrow>
               raise_if (pt_offset p = [] \<or> pt_commit_id p < ri_commit_id i \<or>
                 pt_commit_id p = ri_commit_id i \<and> resume_digest sha p \<noteq> ri_digest i) OffsetUnusable)"

definition arm_replay_intent ::
  "(string \<Rightarrow> string) \<Rightarrow> string \<Rightarrow> string \<Rightarrow> resume_point \<Rightarrow> string option \<Rightarrow>
   offset_error + replay_intent \<times> string option" where
  \<comment> \<open>the intent and the sidecar afterwards\<close>
  "arm_replay_intent sha pipeline namespace p sidecar =
     (if pt_offset p = [] then Inl OffsetUnusable
      else
        rbind (read_replay_intent sidecar) (\<lambda>existing.
          case existing of
            Some i \<Rightarrow> rbind (validate_replay_intent sha i pipeline namespace (Some p)) (\<lambda>_. Inr (i, sidecar))
          | None \<Rightarrow>
              let i = \<lparr>ri_pipeline = pipeline, ri_namespace = namespace, ri_commit_id = pt_commit_id p,
                       ri_digest = resume_digest sha p, ri_phase = ''pending'', ri_source_size = None,
                       ri_source_sha256 = None\<rparr>
              in Inr (i, Some (intent_text i))))"

definition mark_replay_installing ::
  "replay_intent \<Rightarrow> int \<Rightarrow> string \<Rightarrow> string option \<Rightarrow> offset_error + replay_intent \<times> string option" where
  "mark_replay_installing i nbytes sha256 sidecar =
     (if ri_phase i \<notin> {''pending'', ''installing''} then Inl OffsetUnusable
      else if nbytes \<le> 0 \<or> length sha256 \<noteq> 64 then Inl OffsetUnusable
      else
        let installing = i\<lparr>ri_phase := ''installing'', ri_source_size := Some nbytes, ri_source_sha256 := Some sha256\<rparr>
        in if ri_phase i = ''installing'' \<and> ri_source_size i = Some nbytes \<and> ri_source_sha256 i = Some sha256
           then Inr (i, sidecar)
           else Inr (installing, Some (intent_text installing)))"

text \<open>A fingerprint is the nbytes and digest of the file's bytes, the argument \<open>fp\<close>.\<close>

definition replay_offset_fingerprint ::
  "((string \<times> string) list \<Rightarrow> int \<times> string) \<Rightarrow> offset_file \<Rightarrow> offset_error + int \<times> string" where
  "replay_offset_fingerprint fp f =
     (case f of
        OffsetFile es \<Rightarrow>
          if es = [] \<or> length (parse_offsets es) \<noteq> 1 then Inl OffsetUnusable else Inr (fp es)
      | _ \<Rightarrow> Inl OffsetUnusable)"

definition not_greater :: "json_object \<Rightarrow> string \<times> json \<Rightarrow> bool" where
  "not_greater durable kv =
     (case (number_of (snd kv), map_option number_of (map_of durable (fst kv))) of
        (Some a, Some (Some b)) \<Rightarrow> a \<le> b
      | _ \<Rightarrow> True)"

definition offset_map_is_behind :: "json_object \<Rightarrow> json_object \<Rightarrow> bool" where
  "offset_map_is_behind actual durable =
     (case (lsn_of actual, lsn_of durable) of
        (Some a, Some d) \<Rightarrow> a < d \<and> list_all (not_greater durable) actual
      | _ \<Rightarrow> False)"

definition offset_file_is_not_ahead :: "string \<Rightarrow> resume_point \<Rightarrow> offset_file \<Rightarrow> offset_error + bool" where
  "offset_file_is_not_ahead namespace p f =
     (case read_file f of
        [(key, v)] \<Rightarrow>
          if pt_offset p = [] \<or> key \<noteq> encode_key namespace (pt_partition p) then Inr False
          else
            (case parse_offsets [(key, v)] of
               [] \<Rightarrow> Inr False
             | (_, actual_value) # _ \<Rightarrow>
                 rbind (as_object actual_value) (\<lambda>actual.
                   Inr (case (lsn_of actual, lsn_of (pt_offset p)) of
                          (Some a, Some d) \<Rightarrow>
                            if a > d then False
                            else if a = d then py_eq (JObj actual) (JObj (pt_offset p))
                            else offset_map_is_behind actual (pt_offset p)
                        | _ \<Rightarrow> py_eq (JObj actual) (JObj (pt_offset p)))))
      | _ \<Rightarrow> Inr False)"

definition replay_install_is_durable ::
  "((string \<times> string) list \<Rightarrow> int \<times> string) \<Rightarrow> replay_intent \<Rightarrow> offset_file \<Rightarrow> resume_point \<Rightarrow> offset_error + bool" where
  "replay_install_is_durable fp i target p =
     (if ri_phase i \<noteq> ''installing'' then Inr False
      else case replay_offset_fingerprint fp target of
             Inl _ \<Rightarrow> Inr False
           | Inr (nbytes, digest) \<Rightarrow>
               if ri_source_size i = Some nbytes \<and> ri_source_sha256 i = Some digest
               then offset_file_is_not_ahead (ri_namespace i) p target else Inr False)"

definition install_replay_offset ::
  "((string \<times> string) list \<Rightarrow> int \<times> string) \<Rightarrow> offset_file \<Rightarrow> (int \<times> string) option \<Rightarrow>
   (string \<times> resume_point) option \<Rightarrow> offset_error + offset_file" where
  \<comment> \<open>the canonical file afterwards\<close>
  "install_replay_offset fp source expected durable =
     rbind (replay_offset_fingerprint fp source) (\<lambda>f.
     if (case expected of None \<Rightarrow> False | Some e \<Rightarrow> f \<noteq> e) then Inl OffsetUnusable
     else
       case durable of
         None \<Rightarrow> Inr source
       | Some (namespace, p) \<Rightarrow>
           rbind (offset_file_is_not_ahead namespace p source) (\<lambda>ok.
             if ok then Inr source else Inl OffsetUnusable))"

section \<open>The running service\<close>

datatype service_check = NoDurableOffset | OffsetAgrees | OffsetBehind

definition verify_service_offset :: "string \<Rightarrow> offset_state \<Rightarrow> offset_error + service_check" where
  "verify_service_offset namespace st =
     rbind (read_resume_point (os_row st)) (\<lambda>row.
       case row of
         None \<Rightarrow> Inr NoDurableOffset
       | Some p \<Rightarrow>
           if pt_offset p = [] then Inr NoDurableOffset
           else if \<not> file_present (os_file st) then Inl OffsetUnusable
           else
             let es = read_file (os_file st) in
             if \<not> offset_map_differs es namespace p then Inr OffsetAgrees
             else if length es = 1 then
               (case parse_offsets es of
                  [] \<Rightarrow> Inl OffsetUnusable
                | (_, v) # _ \<Rightarrow>
                    rbind (as_object v) (\<lambda>actual.
                      if offset_map_is_behind actual (pt_offset p) then Inr OffsetBehind else Inl OffsetUnusable))
             else Inl OffsetUnusable)"

definition capture_offset_file :: "offset_file \<Rightarrow> resume_point \<Rightarrow> offset_error + string option" where
  \<comment> \<open>the key blob for the next commit; the entries blob is redundant and not modelled\<close>
  "capture_offset_file f p =
     (case read_file f of
        [] \<Rightarrow> Inr None
      | (key, _) # _ \<Rightarrow>
          rbind (first_lsn (parse_offsets (read_file f))) (\<lambda>lsn.
            case lsn of
              Some n \<Rightarrow> if pt_last_lsn p \<noteq> 0 \<and> n > pt_last_lsn p then Inl FileDrift else Inr (Some key)
            | None \<Rightarrow> Inr (Some key)))"

section \<open>Choosing how the engine starts\<close>

text \<open>The part of \<open>pipeline.run\<close> that reads the replay decision, reconciles the file and selects the
  engine's offset store, when no recovery journal is open; and what follows a completed replay run.\<close>

record replay_world =
  rw_offsets :: offset_state
  rw_sidecar :: "string option"
  rw_disposable :: offset_file

datatype engine_start = StockStart | ReplayStart replay_intent

record replay_env =
  re_sha :: "string \<Rightarrow> string"
  re_fp :: "(string \<times> string) list \<Rightarrow> int \<times> string"
  re_pipeline :: string
  re_namespace :: string
  re_accept_orphan :: bool
  re_repair :: bool

definition take_intent :: "replay_env \<Rightarrow> replay_world \<Rightarrow> (offset_error + replay_intent option) \<times> replay_world" where
  "take_intent env w =
     (case read_replay_intent (rw_sidecar w) of
        Inl e \<Rightarrow> (Inl e, w)
      | Inr None \<Rightarrow> (Inr None, w\<lparr>rw_disposable := NoFile\<rparr>)
      | Inr (Some i) \<Rightarrow>
          (case read_resume_point (os_row (rw_offsets w)) of
             Inl e \<Rightarrow> (Inl e, w)
           | Inr durable \<Rightarrow>
               (case validate_replay_intent (re_sha env) i (re_pipeline env) (re_namespace env) durable of
                  Inl e \<Rightarrow> (Inl e, w)
                | Inr _ \<Rightarrow>
                    (case (case durable of
                             None \<Rightarrow> Inr False
                           | Some p \<Rightarrow> replay_install_is_durable (re_fp env) i (os_file (rw_offsets w)) p) of
                       Inl e \<Rightarrow> (Inl e, w)
                     | Inr True \<Rightarrow> (Inr None, w\<lparr>rw_disposable := NoFile, rw_sidecar := None\<rparr>)
                     | Inr False \<Rightarrow> (Inr (Some i), w)))))"

definition start_up :: "replay_env \<Rightarrow> replay_world \<Rightarrow> (offset_error + engine_start) \<times> replay_world" where
  "start_up env w0 =
     (case take_intent env w0 of
        (Inl e, w) \<Rightarrow> (Inl e, w)
      | (Inr intent, w) \<Rightarrow>
          (let opts = \<lparr>ro_accept_orphan = re_accept_orphan env, ro_repair = re_repair env \<and> intent = None,
                       ro_before_repair = (intent = None)\<rparr>
           in case reconcile opts (re_namespace env) (rw_offsets w) of
                (Inl e, st) \<Rightarrow> (Inl e, w\<lparr>rw_offsets := st\<rparr>)
              | (Inr rec, st) \<Rightarrow>
                  (case intent of
                     Some i \<Rightarrow> (Inr (ReplayStart i), w\<lparr>rw_offsets := st, rw_disposable := NoFile\<rparr>)
                   | None \<Rightarrow>
                       if os_armed st = os_armed (rw_offsets w) then (Inr StockStart, w\<lparr>rw_offsets := st\<rparr>)
                       else
                         (case arm_replay_intent (re_sha env) (re_pipeline env) (re_namespace env)
                                 (rc_resume_point rec) (rw_sidecar w) of
                            Inl e \<Rightarrow> (Inl e, w)
                          | Inr (i, sidecar) \<Rightarrow>
                              (Inr (ReplayStart i),
                               w\<lparr>rw_offsets := st, rw_sidecar := sidecar, rw_disposable := NoFile\<rparr>)))))"

definition finish_replay :: "replay_env \<Rightarrow> replay_intent \<Rightarrow> replay_world \<Rightarrow> (offset_error + unit) \<times> replay_world" where
  "finish_replay env intent w =
     (case replay_offset_fingerprint (re_fp env) (rw_disposable w) of
        Inl e \<Rightarrow> (Inl e, w)
      | Inr (nbytes, digest) \<Rightarrow>
          (case mark_replay_installing intent nbytes digest (rw_sidecar w) of
             Inl e \<Rightarrow> (Inl e, w)
           | Inr (i, sidecar) \<Rightarrow>
               (let w1 = w\<lparr>rw_sidecar := sidecar\<rparr> in
                case read_resume_point (os_row (rw_offsets w1)) of
                  Inl e \<Rightarrow> (Inl e, w1)
                | Inr None \<Rightarrow> (Inl OffsetUnusable, w1)
                | Inr (Some p) \<Rightarrow>
                    (case install_replay_offset (re_fp env) (rw_disposable w1) (Some (nbytes, digest))
                            (Some (re_namespace env, p)) of
                       Inl e \<Rightarrow> (Inl e, w1)
                     | Inr f \<Rightarrow>
                         (Inr (), w1\<lparr>rw_offsets := (rw_offsets w1)\<lparr>os_file := f\<rparr>, rw_sidecar := None\<rparr>)))))"

section \<open>Round trips\<close>

definition storable_point :: "resume_point \<Rightarrow> bool" where
  "storable_point p \<longleftrightarrow> plain_json (JObj (pt_partition p)) \<and> plain_json (JObj (pt_offset p)) \<and>
     0 \<le> pt_last_lsn p \<and> (case pt_last_total_order p of JNull \<Rightarrow> True | JInt _ \<Rightarrow> True | _ \<Rightarrow> False)"

lemma from_to_json:
  assumes "storable_point p"
  shows "from_json (to_json p) = Inr (p\<lparr>pt_commit_id := 0, pt_snapshot_epoch := 0\<rparr>)"
proof -
  have t: "plain_json (text_or_null t)" for t by (simp add: text_or_null_def split: option.split)
  have "loads (to_json p) = Some (JObj [(''partition'', JObj (pt_partition p)), (''offset'', JObj (pt_offset p)),
     (''last_lsn'', JInt (pt_last_lsn p)), (''last_txn_id'', text_or_null (pt_last_txn_id p)),
     (''last_total_order'', pt_last_total_order p)])"
    unfolding to_json_def using assms t
    by (intro loads_dumps) (auto simp: storable_point_def split: json.splits)
  then show ?thesis
    using assms
    by (cases "pt_last_txn_id p"; cases "pt_last_total_order p")
      (auto simp: from_json_def json_get_def dict_get_def object_or_empty_def truthy_json_def int_value_def
        null_or_text_def text_or_null_def storable_point_def intro!: resume_point.equality)
qed

lemma read_written_point:
  assumes "storable_point p" and "pt_commit_id p = cid"
  shows "read_resume_point (Some (write_resume_point p cid blob)) = Inr (Some p)"
proof -
  have "read_resume_point (Some (write_resume_point p cid blob)) =
      Inr (Some (p\<lparr>pt_commit_id := cid, pt_last_lsn := pt_last_lsn p, pt_last_txn_id := pt_last_txn_id p,
        pt_last_total_order := pt_last_total_order p, pt_snapshot_epoch := pt_snapshot_epoch p\<rparr>))"
    by (simp add: read_resume_point_def write_resume_point_def from_to_json [OF assms(1)])
  also have "\<dots> = Inr (Some p)" using assms(2) by (cases p) simp
  finally show ?thesis .
qed

lemma parse_encoded_entry:
  assumes "plain_json (JObj part)" and "plain_json (JObj offset)"
  shows "parse_entry (encode_key namespace part, encode_value offset) = Some (JObj part, JObj offset)"
proof -
  have ne: "dumps (JObj offset) \<noteq> []" by simp
  have k: "loads (dumps (JArr [JStr namespace, JObj part])) = Some (JArr [JStr namespace, JObj part])"
    by (rule loads_dumps) (use assms(1) in simp)
  show ?thesis
    unfolding parse_entry_def encode_key_def encode_value_def fst_conv snd_conv k
      loads_dumps [OF assms(2)] if_not_P [OF ne]
    by simp
qed

lemma py_eq_refl: "plain_json j \<Longrightarrow> py_eq j j"
proof (induction j)
  case (JObj ps)
  have "case map_of ps c of None \<Rightarrow> False | Some w \<Rightarrow> py_eq v w" if "(c, v) \<in> set ps" for c v
  proof -
    have "map_of ps c = Some v" using JObj.prems that by simp
    moreover have "py_eq v v" using JObj.IH [OF that] JObj.prems that by (auto simp: list_all_iff)
    ultimately show ?thesis by simp
  qed
  then show ?case by (auto simp: list_all_iff)
next
  case (JArr xs)
  then show ?case by (auto simp: list_all2_same list_all_iff)
qed (simp_all add: number_of_def)

definition wf_intent :: "replay_intent \<Rightarrow> bool" where
  "wf_intent i \<longleftrightarrow> ri_pipeline i \<noteq> [] \<and> ri_namespace i \<noteq> [] \<and> 0 \<le> ri_commit_id i \<and> hex_digest (ri_digest i) \<and>
     (ri_phase i = ''pending'' \<and> ri_source_size i = None \<and> ri_source_sha256 i = None \<or>
      ri_phase i = ''installing'' \<and>
      (\<exists>n d. ri_source_size i = Some n \<and> 0 < n \<and> ri_source_sha256 i = Some d \<and> hex_digest d))"

lemma map_of_sorted_dict:
  assumes "distinct (map fst d)"
  shows "map_of (sorted_dict d) = map_of d"
proof -
  have "distinct (map fst (sorted_dict d))" "set (sorted_dict d) = set d"
    using assms by (simp_all add: sorted_dict_def distinct_map)
  then show ?thesis using assms by (simp add: map_of_inject_set)
qed

lemma as_dict_distinct: "distinct (map fst (as_dict i))"
  by (simp add: as_dict_def)

lemma intent_payload: "loads (intent_text i) = Some (JObj (sorted_dict (as_dict i)))"
proof -
  have "distinct (map fst (sorted_dict (as_dict i)))" "set (sorted_dict (as_dict i)) = set (as_dict i)"
    using as_dict_distinct [of i] by (simp_all add: sorted_dict_def distinct_map)
  moreover have "\<forall>(k, v) \<in> set (as_dict i). plain_json v"
    by (simp add: as_dict_def text_or_null_def split: option.split)
  ultimately have "plain_json (JObj (sorted_dict (as_dict i)))" by (auto simp: list_all_iff)
  then show ?thesis unfolding intent_text_def by (rule loads_dumps)
qed

lemma intent_text_not_Nil: "intent_text i \<noteq> []"
  by (simp add: intent_text_def)

lemma json_get_as_dict:
  "json_get (sorted_dict (as_dict i)) k = json_get (as_dict i) k"
  by (simp add: json_get_def dict_get_def map_of_sorted_dict [OF as_dict_distinct])

lemma intent_round_trip:
  assumes "wf_intent i"
  shows "read_replay_intent (Some (intent_text i)) = Inr (Some i)"
proof -
  have "intent_from_payload (JObj (sorted_dict (as_dict i))) = Inr i"
    using assms unfolding intent_from_payload_def json.case json_get_as_dict
    by (auto simp: wf_intent_def json_get_def dict_get_def as_dict_def text_or_null_def number_of_def
        intro!: replay_intent.equality)
  then show ?thesis using intent_text_not_Nil by (simp add: read_replay_intent_def intent_payload)
qed

lemma intent_accepted_wf:
  assumes "intent_from_payload payload = Inr i"
  shows "wf_intent i"
proof -
  obtain o' where "payload = JObj o'" using assms by (cases payload) (simp_all add: intent_from_payload_def)
  then show ?thesis
    using assms by (auto simp: intent_from_payload_def wf_intent_def split: if_splits json.splits)
qed

section \<open>What reconciliation leaves behind\<close>

lemma repair_with_intent_armed:
  assumes "repair_with_intent opts namespace p d st = (b, st')" and "ro_before_repair opts" and "pt_offset p \<noteq> []"
  shows "os_armed st' = os_armed st @ [d]"
  using assms by (auto simp: repair_with_intent_def repair_file_def Let_def split: if_splits)

lemma repair_without_callback:
  assumes "repair_with_intent opts namespace p d st = (b, st')" and "\<not> ro_before_repair opts" and "\<not> ro_repair opts"
  shows "st' = st"
  using assms by (auto simp: repair_with_intent_def repair_file_def split: if_splits)

lemma decide_point: "decide d p n b = Inr rec \<Longrightarrow> rc_resume_point rec = p \<and> rc_decision rec = d"
  by (auto simp: decide_def domain_parse_def split: if_splits sum.splits)

lemma rebuilt_armed:
  assumes "rebuilt opts namespace p d n st = (r, st')" and "ro_before_repair opts" and "pt_offset p \<noteq> []"
  shows "os_armed st' = os_armed st @ [d]"
  using assms repair_with_intent_armed by (auto simp: rebuilt_def split: prod.splits)

lemma reconcile_row_armed:
  assumes "reconcile_row opts namespace p n st = (Inr rec, st')" and "ro_before_repair opts"
    and "pt_offset p \<noteq> []" and "os_armed st' = os_armed st"
  shows "st' = st \<and> file_present (os_file st) \<and> \<not> offset_map_differs (read_file (os_file st)) namespace p"
proof -
  have new: "os_armed st1 \<noteq> os_armed st"
    if "repair_with_intent opts namespace p d st = (b, st1)" for d b st1
    using repair_with_intent_armed [OF that assms(2,3)] by simp
  have new2: "os_armed st1 \<noteq> os_armed st"
    if "rebuilt opts namespace p d k st0 = (r, st1)" "os_armed st0 = os_armed st" for d k r st0 st1
    using rebuilt_armed [OF that(1) assms(2,3)] that(2) by simp
  obtain b st1 where m: "repair_with_intent opts namespace p ''file_missing_rebuilt'' st = (b, st1)" by force
  show ?thesis
    using assms(1,4) new [OF m] new2 m unfolding reconcile_row_def
    by (force split: if_splits)
qed

lemma agreeing_file:
  assumes "\<not> offset_map_differs es namespace p" and "pt_offset p \<noteq> []"
  obtains v o' where "es = [(encode_key namespace (pt_partition p), v)]"
    and "parse_offsets es \<noteq> []" and "snd (hd (parse_offsets es)) = JObj o'" and "py_eq (JObj o') (JObj (pt_offset p))"
proof -
  obtain key v where es: "es = [(key, v)]" "key = encode_key namespace (pt_partition p)"
    using assms by (auto simp: offset_map_differs_def split: list.splits if_splits)
  obtain k offset rest where po: "parse_offsets es = (k, offset) # rest" "py_eq offset (JObj (pt_offset p))"
    using assms es by (auto simp: offset_map_differs_def split: list.splits if_splits)
  then obtain o' where "offset = JObj o'" by (cases offset) (auto simp: number_of_def)
  with po es that show thesis by simp
qed

lemma take_intent_frame:
  assumes "take_intent env w = (r, w')"
  shows "rw_offsets w' = rw_offsets w"
    and "r = Inr (Some i) \<Longrightarrow> w' = w" and "r = Inr None \<Longrightarrow> rw_sidecar w' = None"
  using assms by (auto simp: take_intent_def read_replay_intent_def rbind_eq_Inr
      split: sum.splits option.splits bool.splits if_splits)

lemma reconcile_without_callback:
  assumes "reconcile opts namespace st = (r, st')" and "\<not> ro_before_repair opts" and "\<not> ro_repair opts"
  shows "os_file st' = os_file st"
proof -
  have quiet: "snd (repair_with_intent opts namespace p d s) = s" for p d s
    using repair_without_callback [OF _ assms(2,3)] by (metis prod.collapse)
  have row: "os_file (snd (reconcile_row opts namespace p n st)) = os_file st" for p n
    unfolding reconcile_row_def rebuilt_def by (simp add: quiet split_def Let_def)
  show ?thesis
    using assms(1) row unfolding reconcile_def
    by (auto split: sum.splits option.splits if_splits) (metis snd_conv)
qed

section \<open>The properties\<close>

text \<open>
  C34: What a commit writes as the resume point is what the next start reads: through the JSON text
  and the columns of the control row, every field comes back.
\<close>

theorem resume_point_round_trip:
  assumes "storable_point p" and "pt_commit_id p = cid"
  shows "read_resume_point (Some (write_resume_point p cid blob)) = Inr (Some p)"
  using assms by (rule read_written_point)

definition sample_point :: resume_point where
  "sample_point = \<lparr>pt_partition = [(''server'', JStr ''cdc'')],
     pt_offset = [(''lsn'', JInt 100), (''txId'', JInt 7), (''note'', JStr (CHR 0x22 # ''x''))], pt_last_lsn = 100,
     pt_last_txn_id = Some ''7'', pt_last_total_order = JInt 3, pt_commit_id = 5, pt_snapshot_epoch = 1\<rparr>"

theorem resume_point_round_trip_witness:
  "read_resume_point (Some (write_resume_point sample_point 5 None)) = Inr (Some sample_point)"
  by (rule resume_point_round_trip) (simp_all add: storable_point_def sample_point_def)

text \<open>
  The replay decision on disk: what is written is read back as it was, and whatever is
  accepted from disk is a well-formed decision, bound to a pipeline, a commit and a digest,
  with an installed-file fingerprint exactly when it is being installed.
\<close>

theorem replay_intent_round_trip:
  "(wf_intent i \<longrightarrow> read_replay_intent (Some (intent_text i)) = Inr (Some i)) \<and>
   (read_replay_intent sidecar = Inr (Some j) \<longrightarrow> wf_intent j)"
  using intent_round_trip intent_accepted_wf
  by (auto simp: read_replay_intent_def rbind_eq_Inr split: option.splits if_splits)

definition sample_intent :: replay_intent where
  "sample_intent = \<lparr>ri_pipeline = ''p'', ri_namespace = ''n'', ri_commit_id = 5, ri_digest = replicate 64 (CHR ''a''),
     ri_phase = ''installing'', ri_source_size = Some 90, ri_source_sha256 = Some (replicate 64 (CHR ''b''))\<rparr>"

lemma sample_intent_wf: "wf_intent sample_intent"
  by (simp add: wf_intent_def sample_intent_def hex_digest_def list_all_iff)

theorem replay_intent_round_trip_example:
  "read_replay_intent (Some (intent_text sample_intent)) = Inr (Some sample_intent) \<and> wf_intent sample_intent"
  using replay_intent_round_trip [of sample_intent "Some (intent_text sample_intent)" sample_intent] sample_intent_wf
  by blast


definition sample_env :: replay_env where
  "sample_env = \<lparr>re_sha = (\<lambda>_. replicate 64 (CHR ''a'')), re_fp = (\<lambda>es. (int (length es), replicate 64 (CHR ''b''))),
     re_pipeline = ''p'', re_namespace = ''n'', re_accept_orphan = False, re_repair = True\<rparr>"

definition sample_world :: "offset_file \<Rightarrow> string option \<Rightarrow> offset_file \<Rightarrow> replay_world" where
  "sample_world f sidecar disposable = \<lparr>rw_offsets = \<lparr>os_row = Some (write_resume_point sample_point 5 None),
     os_file = f, os_armed = [], os_alerts = []\<rparr>, rw_sidecar = sidecar, rw_disposable = disposable\<rparr>"

definition good_file :: offset_file where
  "good_file = OffsetFile [(encode_key ''n'' (pt_partition sample_point), encode_value (pt_offset sample_point))]"

text \<open>A file that agrees is resumed; one that lags by one record, or belongs to somebody else, is not.\<close>

lemma sample_starts:
  "fst (start_up sample_env (sample_world good_file None NoFile)) = Inr StockStart"
  "fst (start_up sample_env (sample_world (OffsetFile [(encode_key ''n'' (pt_partition sample_point),
      encode_value [(''lsn'', JInt 99)])]) None NoFile)) \<noteq> Inr StockStart"
  "fst (start_up sample_env (sample_world (OffsetFile [(encode_key ''m'' (pt_partition sample_point),
      encode_value (pt_offset sample_point))]) None NoFile)) \<noteq> Inr StockStart"
  by code_simp+

lemma sample_point_read: "read_resume_point (os_row (rw_offsets (sample_world f s d))) = Inr (Some sample_point)"
proof -
  have "storable_point sample_point" "pt_commit_id sample_point = 5"
    by (simp_all add: storable_point_def sample_point_def)
  then show ?thesis by (simp add: sample_world_def read_written_point)
qed




lemma not_ahead_lsn:
  assumes "offset_file_is_not_ahead namespace p f = Inr True"
  obtains v k actual where "f = OffsetFile [(encode_key namespace (pt_partition p), v)]"
    and "parse_offsets [(encode_key namespace (pt_partition p), v)] = [(k, JObj actual)]"
    and "\<And>a d. lsn_of actual = Some a \<Longrightarrow> lsn_of (pt_offset p) = Some d \<Longrightarrow> a \<le> d"
    and "lsn_of actual = None \<or> lsn_of (pt_offset p) = None \<Longrightarrow> py_eq (JObj actual) (JObj (pt_offset p))"
proof -
  obtain key v where f: "read_file f = [(key, v)]"
    using assms by (auto simp: offset_file_is_not_ahead_def split: list.splits)
  have key: "key = encode_key namespace (pt_partition p)"
    using assms f by (auto simp: offset_file_is_not_ahead_def split: if_splits)
  obtain k j rest where po: "parse_offsets [(key, v)] = (k, j) # rest"
    using assms f key by (auto simp: offset_file_is_not_ahead_def split: list.splits if_splits)
  then have rest: "rest = []" by (auto simp: parse_offsets_def map_filter_def split: if_splits)
  obtain actual where j: "j = JObj actual"
    using assms f key po by (cases j) (auto simp: offset_file_is_not_ahead_def as_object_def split: if_splits)
  have of: "f = OffsetFile [(key, v)]" using f by (simp add: read_file_def split: offset_file.splits)
  have d: "(case (lsn_of actual, lsn_of (pt_offset p)) of
      (Some a, Some d) \<Rightarrow> if a > d then False else if a = d then py_eq (JObj actual) (JObj (pt_offset p))
        else offset_map_is_behind actual (pt_offset p)
    | _ \<Rightarrow> py_eq (JObj actual) (JObj (pt_offset p)))"
    using assms f key po j
    by (cases "lsn_of actual"; cases "lsn_of (pt_offset p)"; cases "pt_offset p = []")
      (simp_all add: offset_file_is_not_ahead_def as_object_def)
  show thesis
  proof (rule that [of v k actual])
    show "a \<le> d'" if "lsn_of actual = Some a" "lsn_of (pt_offset p) = Some d'" for a d'
      using d that by (auto split: if_splits)
    show "py_eq (JObj actual) (JObj (pt_offset p))" if "lsn_of actual = None \<or> lsn_of (pt_offset p) = None"
      using d that by (auto split: option.splits)
  qed (use of key po rest j in simp_all)
qed

text \<open>
  A replay ends with a safe offset file or leaves the decision in place. When the installation
  succeeds, the offset file has the pipeline's key and an LSN not above the durable one;
  when it fails, at whatever check, the old file is untouched and the sidecar still holds a decision.
\<close>

theorem replay_install_is_fail_safe:
  assumes "finish_replay env i w = (r, w')" and "rw_sidecar w \<noteq> None"
  shows "(\<exists>e. r = Inl e \<and> rw_offsets w' = rw_offsets w \<and> rw_sidecar w' \<noteq> None) \<or>
    (r = Inr () \<and> rw_sidecar w' = None \<and>
     (\<exists>p v k actual. read_resume_point (os_row (rw_offsets w)) = Inr (Some p) \<and>
        os_file (rw_offsets w') = OffsetFile [(encode_key (re_namespace env) (pt_partition p), v)] \<and>
        parse_offsets [(encode_key (re_namespace env) (pt_partition p), v)] = [(k, JObj actual)] \<and>
        (\<forall>a d. lsn_of actual = Some a \<and> lsn_of (pt_offset p) = Some d \<longrightarrow> a \<le> d)))"
proof -
  have mark: "sc \<noteq> None" if "mark_replay_installing i n d sc0 = Inr (i', sc)" "sc0 \<noteq> None" for n d sc0 i' sc
    using that by (auto simp: mark_replay_installing_def Let_def split: if_splits)
  show ?thesis
  proof (cases r)
    case (Inl e)
    then have "rw_offsets w' = rw_offsets w" "rw_sidecar w' \<noteq> None"
      using assms mark [OF _ assms(2)] by (auto simp: finish_replay_def Let_def split: sum.splits prod.splits option.splits)
    then show ?thesis using Inl by blast
  next
    case (Inr u)
    then obtain nd p f where
      p: "read_resume_point (os_row (rw_offsets w)) = Inr (Some p)" and
      f: "install_replay_offset (re_fp env) (rw_disposable w) (Some nd) (Some (re_namespace env, p)) = Inr f" and
      w': "os_file (rw_offsets w') = f" "rw_sidecar w' = None"
      using assms(1) by (auto simp: finish_replay_def Let_def split: sum.splits prod.splits option.splits)
    have "offset_file_is_not_ahead (re_namespace env) p f = Inr True"
      using f by (auto simp: install_replay_offset_def rbind_eq_Inr split: if_splits)
    then obtain v k actual where
      na: "f = OffsetFile [(encode_key (re_namespace env) (pt_partition p), v)]"
        "parse_offsets [(encode_key (re_namespace env) (pt_partition p), v)] = [(k, JObj actual)]"
        "\<And>a d. lsn_of actual = Some a \<Longrightarrow> lsn_of (pt_offset p) = Some d \<Longrightarrow> a \<le> d"
      by (rule not_ahead_lsn) blast
    show ?thesis
      using p w' Inr na by (intro disjI2 conjI exI [of _ p] exI [of _ v] exI [of _ k] exI [of _ actual]) auto
  qed
qed

theorem replay_install_is_fail_safe_example:
  "rw_sidecar (snd (finish_replay sample_env sample_intent
      (sample_world NoFile (Some (intent_text sample_intent)) EmptyFile))) \<noteq> None"
proof -
  let ?w = "sample_world NoFile (Some (intent_text sample_intent)) EmptyFile"
  obtain r w' where f: "finish_replay sample_env sample_intent ?w = (r, w')" by force
  have "rw_sidecar ?w \<noteq> None" by (simp add: sample_world_def)
  moreover have "r = Inl OffsetUnusable"
    using f by (simp add: finish_replay_def sample_world_def replay_offset_fingerprint_def)
  ultimately show ?thesis using replay_install_is_fail_safe [OF f] f by auto
qed

text \<open>
  C40: An offset file with no destination row is never trusted and never touched: without the
  operator's acceptance the start is refused and an alert raised, with it the file is
  only classified.
\<close>

theorem orphan_file_is_refused:
  assumes "os_row st = None" and "file_present (os_file st)"
    and "reconcile opts namespace st = (r, st')"
  shows "os_file st' = os_file st \<and> os_armed st' = os_armed st \<and>
    (case first_lsn (parse_offsets (read_file (os_file st))) of
       Inl e \<Rightarrow> r = Inl e
     | Inr n \<Rightarrow>
         if ro_accept_orphan opts then (\<exists>rec. r = Inr rec \<and> rc_decision rec = ''orphan_accepted_resnapshot'')
         else r = Inl ReconciliationRefused \<and> ''orphan_offset_file'' \<in> set (os_alerts st'))"
proof -
  have d: "\<exists>rec. decide ''orphan_accepted_resnapshot'' zero_point n False = Inr rec \<and>
      rc_decision rec = ''orphan_accepted_resnapshot''" for n
    by (simp add: decide_def domain_parse_def RECONCILE_DECISIONS_def)
  have row: "read_resume_point (os_row st) = Inr None" using assms(1) by (simp add: read_resume_point_def)
  show ?thesis
  proof (cases "first_lsn (parse_offsets (read_file (os_file st)))")
    case (Inl e)
    then show ?thesis using assms(3) row by (auto simp: reconcile_def)
  next
    case (Inr n)
    then show ?thesis
      using assms(2,3) row d [of n] by (cases "ro_accept_orphan opts") (auto simp: reconcile_def)
  qed
qed

theorem orphan_file_is_refused_witness:
  "fst (reconcile \<lparr>ro_accept_orphan = False, ro_repair = True, ro_before_repair = True\<rparr> ''n''
      ((rw_offsets (sample_world good_file None NoFile))\<lparr>os_row := None\<rparr>)) = Inl ReconciliationRefused \<and>
   os_file (snd (reconcile \<lparr>ro_accept_orphan = False, ro_repair = True, ro_before_repair = True\<rparr> ''n''
      ((rw_offsets (sample_world good_file None NoFile))\<lparr>os_row := None\<rparr>))) = good_file"
proof -
  let ?opts = "\<lparr>ro_accept_orphan = False, ro_repair = True, ro_before_repair = True\<rparr>"
  let ?st = "(rw_offsets (sample_world good_file None NoFile))\<lparr>os_row := None\<rparr>"
  obtain r st' where r: "reconcile ?opts ''n'' ?st = (r, st')" by force
  have "file_present (os_file ?st)" by (simp add: sample_world_def good_file_def file_present_def)
  with orphan_file_is_refused [OF _ _ r] have "os_file st' = good_file" by (simp add: sample_world_def)
  moreover have "fst (reconcile ?opts ''n'' ?st) = Inl ReconciliationRefused" by code_simp
  ultimately show ?thesis using r by simp
qed

end
