(* ===== verification/Identity_Ranges.thy ===== *)
theory Identity_Ranges
  imports CDC_Prelude Complex_Main
begin

text \<open>
  The identity of PostgreSQL range and multirange keys: a model of the range part of
  \<open>src/cdc_flight/identity_codec.py\<close> (\<open>_range_step\<close>, \<open>_range_compare\<close>, \<open>_normalise_range\<close>,
  \<open>_range_identity\<close>, \<open>_ranges_mergeable\<close>, \<open>_merge_ranges\<close> and \<open>_multirange_identity\<close>).

  A bound value is a rational number: the integer itself, the ordinal of a date, the exact value
  of a numeric or the microseconds of a timestamp; the code compares only bounds of one subtype,
  and these embeddings keep their order. The wrappers that a destination readback puts around a
  value are taken off before these functions compare it and are not modelled. The encoder of a
  finite bound, \<open>_identity_tree\<close> on the subtype, is the argument \<open>leaf\<close>.

  The main result: two multiranges get the same identity exactly when they contain the same points.
\<close>

section \<open>The data\<close>

datatype bound = Bound rat | PostgresInfinity bool | RangeInfinity bool

datatype range_source = IntRange | DateRange | ContinuousRange

record pg_range =
  rg_empty :: bool
  rg_lower :: "bound option"
  rg_upper :: "bound option"
  rg_lower_inclusive :: bool
  rg_upper_inclusive :: bool

datatype 'i bound_identity = Unbounded | Infinite bool | Leaf 'i

datatype 'i range_ident =
    EmptyRange
  | RangeIdentity "'i bound_identity" bool "'i bound_identity" bool

section \<open>The operations\<close>

definition date_max :: rat where \<comment> \<open>\<open>date.max.toordinal()\<close>\<close>
  "date_max = 3652059"

fun range_step :: "range_source \<Rightarrow> bound \<Rightarrow> bound" where
  "range_step IntRange (Bound v) = Bound (v + 1)"
| "range_step DateRange (Bound v) = (if v < date_max then Bound (v + 1) else RangeInfinity True)"
| "range_step _ b = b"

definition range_discrete :: "range_source \<Rightarrow> bool" where
  "range_discrete src \<longleftrightarrow> src \<noteq> ContinuousRange"

fun infinity :: "bound \<Rightarrow> bool option" where
  "infinity (Bound _) = None"
| "infinity (PostgresInfinity p) = Some p"
| "infinity (RangeInfinity p) = Some p"

fun finite_value :: "bound \<Rightarrow> rat" where
  "finite_value (Bound v) = v"
| "finite_value _ = 0"

definition sign_of :: "bool \<Rightarrow> bool \<Rightarrow> int" where
  \<comment> \<open>\<open>(left > right) - (left < right)\<close>\<close>
  "sign_of gt lt = (if gt then 1 else 0) - (if lt then 1 else 0)"

definition range_compare :: "bound \<Rightarrow> bound \<Rightarrow> int" where
  "range_compare l r =
     (case infinity l of
        Some p \<Rightarrow> (case infinity r of
            Some q \<Rightarrow> sign_of (p > q) (p < q)
          | None \<Rightarrow> if p then 1 else -1)
      | None \<Rightarrow> (case infinity r of
            Some q \<Rightarrow> if q then -1 else 1
          | None \<Rightarrow> sign_of (finite_value l > finite_value r) (finite_value l < finite_value r)))"

definition the_empty_range :: pg_range where
  "the_empty_range = \<lparr>rg_empty = True, rg_lower = None, rg_upper = None,
     rg_lower_inclusive = False, rg_upper_inclusive = False\<rparr>"

definition half_open :: "range_source \<Rightarrow> pg_range \<Rightarrow> pg_range" where
  \<comment> \<open>the range in half-open form, before the test whether it is empty\<close>
  "half_open src v =
     (let li0 = (rg_lower_inclusive v \<and> rg_lower v \<noteq> None);
          ui0 = (rg_upper_inclusive v \<and> rg_upper v \<noteq> None);
          disc = range_discrete src
      in \<lparr>rg_empty = False,
          rg_lower = (if disc \<and> \<not> li0 then map_option (range_step src) (rg_lower v) else rg_lower v),
          rg_upper = (if disc \<and> ui0 then map_option (range_step src) (rg_upper v) else rg_upper v),
          rg_lower_inclusive = (if disc then rg_lower v \<noteq> None else li0),
          rg_upper_inclusive = (if disc then False else ui0)\<rparr>)"

definition normalise_range :: "range_source \<Rightarrow> pg_range \<Rightarrow> pg_range" where
  "normalise_range src v =
     (if rg_empty v then the_empty_range
      else
        let n = half_open src v in
        case (rg_lower n, rg_upper n) of
          (Some l, Some u) \<Rightarrow>
            (let order = range_compare l u in
             if order > 0 \<or> order = 0 \<and> \<not> (rg_lower_inclusive n \<and> rg_upper_inclusive n)
             then the_empty_range else n)
        | _ \<Rightarrow> n)"

definition range_bound_identity :: "(rat \<Rightarrow> 'i) \<Rightarrow> bound option \<Rightarrow> 'i bound_identity" where
  "range_bound_identity leaf b =
     (case b of
        None \<Rightarrow> Unbounded
      | Some b \<Rightarrow> (case infinity b of Some p \<Rightarrow> Infinite p | None \<Rightarrow> Leaf (leaf (finite_value b))))"

definition range_identity :: "(rat \<Rightarrow> 'i) \<Rightarrow> range_source \<Rightarrow> pg_range \<Rightarrow> 'i range_ident" where
  "range_identity leaf src v =
     (let n = normalise_range src v in
      if rg_empty n then EmptyRange
      else RangeIdentity (range_bound_identity leaf (rg_lower n)) (rg_lower_inclusive n)
             (range_bound_identity leaf (rg_upper n)) (rg_upper_inclusive n))"

definition ranges_mergeable :: "range_source \<Rightarrow> pg_range \<Rightarrow> pg_range \<Rightarrow> bool" where
  "ranges_mergeable src left right =
     (case (rg_upper left, rg_lower right) of
        (Some u, Some l) \<Rightarrow>
          (let order = range_compare u l in
           if order > 0 then True
           else if order < 0 then False
           else range_discrete src \<or> rg_upper_inclusive left \<or> rg_lower_inclusive right)
      | _ \<Rightarrow> True)"

definition compare_ranges :: "pg_range \<Rightarrow> pg_range \<Rightarrow> int" where
  "compare_ranges left right =
     (let order = (case (rg_lower left, rg_lower right) of
            (None, None) \<Rightarrow> 0
          | (None, Some _) \<Rightarrow> -1
          | (Some _, None) \<Rightarrow> 1
          | (Some l, Some r) \<Rightarrow> range_compare l r)
      in if order \<noteq> 0 then order
         else if rg_lower_inclusive left \<noteq> rg_lower_inclusive right
         then (if rg_lower_inclusive left then -1 else 1)
         else 0)"

fun insert_by :: "('a \<Rightarrow> 'a \<Rightarrow> int) \<Rightarrow> 'a \<Rightarrow> 'a list \<Rightarrow> 'a list" where
  "insert_by cmp x [] = [x]"
| "insert_by cmp x (y # ys) = (if cmp x y \<le> 0 then x # y # ys else y # insert_by cmp x ys)"

definition sort_by :: "('a \<Rightarrow> 'a \<Rightarrow> int) \<Rightarrow> 'a list \<Rightarrow> 'a list" where
  \<comment> \<open>the stable \<open>list.sort(key=cmp_to_key(compare))\<close>\<close>
  "sort_by cmp xs = foldr (insert_by cmp) xs []"

definition extend_range :: "pg_range \<Rightarrow> pg_range \<Rightarrow> pg_range" where
  \<comment> \<open>\<open>previous\<close> after it absorbed \<open>current\<close>\<close>
  "extend_range previous current =
     (case (rg_upper previous, rg_upper current) of
        (Some p, Some c) \<Rightarrow>
          (let order = range_compare p c in
           if order < 0
           then previous\<lparr>rg_upper := rg_upper current, rg_upper_inclusive := rg_upper_inclusive current\<rparr>
           else if order = 0
           then previous\<lparr>rg_upper_inclusive := rg_upper_inclusive previous \<or> rg_upper_inclusive current\<rparr>
           else previous)
      | _ \<Rightarrow> previous\<lparr>rg_upper := None, rg_upper_inclusive := False\<rparr>)"

fun merge_sorted :: "range_source \<Rightarrow> pg_range option \<Rightarrow> pg_range list \<Rightarrow> pg_range list" where
  \<comment> \<open>the loop; the first argument is \<open>merged[-1]\<close>\<close>
  "merge_sorted src None [] = []"
| "merge_sorted src (Some prev) [] = [prev]"
| "merge_sorted src None (cur # rest) = merge_sorted src (Some cur) rest"
| "merge_sorted src (Some prev) (cur # rest) =
     (if ranges_mergeable src prev cur then merge_sorted src (Some (extend_range prev cur)) rest
      else prev # merge_sorted src (Some cur) rest)"

definition merge_ranges :: "range_source \<Rightarrow> pg_range list \<Rightarrow> pg_range list" where
  "merge_ranges src rs = merge_sorted src None (sort_by compare_ranges rs)"

definition multirange_identity :: "(rat \<Rightarrow> 'i) \<Rightarrow> range_source \<Rightarrow> pg_range list \<Rightarrow> 'i range_ident list" where
  "multirange_identity leaf src vs =
     map (range_identity leaf src)
       (merge_ranges src (filter (\<lambda>r. \<not> rg_empty r) (map (normalise_range src) vs)))"

section \<open>What a range contains\<close>

text \<open>A point is a value of the subtype, ordered as a bound is, or one of two points beyond all values:
  only a range without lower bound contains the first and only one without upper bound the
  second, so that an unbounded range differs from one bounded by an infinity, as in PostgreSQL.\<close>

type_synonym point = "int \<times> rat"

fun rank :: "bound \<Rightarrow> point" where
  "rank (Bound v) = (0, v)"
| "rank (PostgresInfinity p) = (if p then 1 else -1, 0)"
| "rank (RangeInfinity p) = (if p then 1 else -1, 0)"

fun is_point :: "range_source \<Rightarrow> point \<Rightarrow> bool" where
  "is_point IntRange (t, v) = (t \<in> {-2, 2} \<and> v = 0 \<or> t = 0 \<and> v \<in> \<int>)"
| "is_point DateRange (t, v) = (t \<in> {-2, -1, 1, 2} \<and> v = 0 \<or> t = 0 \<and> v \<in> \<int> \<and> 1 \<le> v \<and> v \<le> date_max)"
| "is_point ContinuousRange (t, v) = (t \<in> {-2, -1, 1, 2} \<and> v = 0 \<or> t = 0)"

definition in_range :: "point \<Rightarrow> pg_range \<Rightarrow> bool" where
  "in_range p r \<longleftrightarrow> \<not> rg_empty r \<and>
     (case rg_lower r of None \<Rightarrow> True | Some b \<Rightarrow> rank b < p \<or> rank b = p \<and> rg_lower_inclusive r) \<and>
     (case rg_upper r of None \<Rightarrow> True | Some b \<Rightarrow> p < rank b \<or> rank b = p \<and> rg_upper_inclusive r)"

definition in_multirange :: "point \<Rightarrow> pg_range list \<Rightarrow> bool" where
  "in_multirange p rs \<longleftrightarrow> list_ex (in_range p) rs"

text \<open>The ranges the source can send. A discrete range has integral bounds; a date range that ends at
  an infinity excludes it, and one that starts at an infinity includes it.\<close>

fun wf_bound :: "range_source \<Rightarrow> bool \<Rightarrow> bound \<Rightarrow> bool" where
  "wf_bound IntRange incl (Bound v) = (v \<in> \<int>)"
| "wf_bound DateRange incl (Bound v) = (v \<in> \<int> \<and> 1 \<le> v \<and> v \<le> date_max)"
| "wf_bound DateRange incl (PostgresInfinity p) = incl"
| "wf_bound ContinuousRange incl (Bound v) = True"
| "wf_bound ContinuousRange incl (PostgresInfinity p) = True"
| "wf_bound _ _ _ = False"

definition wf_range :: "range_source \<Rightarrow> pg_range \<Rightarrow> bool" where
  "wf_range src r \<longleftrightarrow>
     (case rg_lower r of None \<Rightarrow> True | Some b \<Rightarrow> wf_bound src (rg_lower_inclusive r) b) \<and>
     (case rg_upper r of None \<Rightarrow> True | Some b \<Rightarrow> wf_bound src (\<not> rg_upper_inclusive r) b)"

section \<open>Lists of separated intervals\<close>

text \<open>A list of half-open intervals with gaps between them is determined by the positions it covers, if
  between any two of its end points lies a position that can be asked for.\<close>

definition covers :: "('c::linorder \<times> 'c) list \<Rightarrow> 'c \<Rightarrow> bool" where
  "covers xs q \<longleftrightarrow> (\<exists>(a, b) \<in> set xs. a \<le> q \<and> q < b)"

fun separated :: "('c::linorder \<times> 'c) list \<Rightarrow> bool" where
  "separated [] = True"
| "separated [(a, b)] = (a < b)"
| "separated ((a, b) # (c, d) # xs) = (a < b \<and> b < c \<and> separated ((c, d) # xs))"

definition ends :: "('c \<times> 'c) list \<Rightarrow> 'c set" where
  "ends xs = fst ` set xs \<union> snd ` set xs"

lemma covers_simps [simp]:
  "\<not> covers [] q" "covers ((a, b) # xs) q \<longleftrightarrow> a \<le> q \<and> q < b \<or> covers xs q"
  by (auto simp: covers_def)

lemma covers_cong: "covers xs q = covers ys q \<Longrightarrow> covers (x # xs) q = covers (x # ys) q"
  by (cases x) simp

lemma ends_simps [simp]: "ends [] = {}" "ends ((a, b) # xs) = {a, b} \<union> ends xs"
  by (auto simp: ends_def)

lemma separated_tail: "separated ((a, b) # xs) \<Longrightarrow> a < b \<and> separated xs"
  by (cases xs) auto

lemma separated_above:
  "separated ((a, b) # xs) \<Longrightarrow> covers xs q \<Longrightarrow> b < q"
proof (induction xs arbitrary: a b)
  case (Cons x xs)
  obtain c d where [simp]: "x = (c, d)" by force
  from Cons.prems(1) have s: "b < c" "c < d" "separated ((c, d) # xs)"
    using separated_tail by auto
  from Cons.prems(2) show ?case
    using Cons.IH [OF s(3)] s(1,2) by auto
qed simp

lemma separated_from: "separated ((a, b) # xs) \<Longrightarrow> covers ((a, b) # xs) q \<Longrightarrow> a \<le> q"
  using separated_above [of a b xs q] separated_tail [of a b xs] by (auto intro: less_imp_le less_trans)

lemma separated_next:
  assumes "separated ((a, b) # xs)" and "d \<in> C" and "b < d" and "ends xs \<subseteq> C"
  obtains e where "e \<in> C" "b < e" "e \<le> d" "\<And>q. covers xs q \<Longrightarrow> e \<le> q"
proof (cases xs)
  case Nil
  then show ?thesis using that [of d] assms by simp
next
  case (Cons x xs')
  obtain c c' where x: "x = (c, c')" by force
  have s: "b < c" "separated ((c, c') # xs')" "c \<in> C" using assms Cons x by simp_all
  have "min c d \<le> q" if "covers xs q" for q
    using that separated_from [OF s(2), of q] Cons x by (simp add: min_le_iff_disj del: covers_simps)
  then show ?thesis using that [of "min c d"] s assms(2,3) by (simp add: min_def split: if_splits)
qed

lemma separated_head_le:
  assumes "separated ((a, b) # xs)" and "separated ((c, d) # ys)"
    and "\<And>q. q \<in> Q \<Longrightarrow> covers ((a, b) # xs) q = covers ((c, d) # ys) q"
    and "ends ((a, b) # xs) \<subseteq> C" and "ends ((c, d) # ys) \<subseteq> C"
    and obs: "\<And>c c'. c \<in> C \<Longrightarrow> c' \<in> C \<Longrightarrow> c < c' \<Longrightarrow> \<exists>q \<in> Q. c \<le> q \<and> q < c'"
  shows "c \<le> a"
proof (rule ccontr)
  assume "\<not> c \<le> a"
  with assms(1,4,5) have "\<exists>q \<in> Q. a \<le> q \<and> q < min b c"
    by (intro obs) (auto simp: min_def dest: separated_tail)
  then obtain q where q: "q \<in> Q" "a \<le> q" "q < b" "q < c" by auto
  then have "covers ((c, d) # ys) q" using assms(3) by auto
  then show False using q(4) separated_from [OF assms(2)] by (simp add: leD)
qed

lemma separated_first_le:
  assumes "separated ((a, b) # xs)" and "separated ((a, d) # ys)"
    and "\<And>q. q \<in> Q \<Longrightarrow> covers ((a, b) # xs) q = covers ((a, d) # ys) q"
    and "ends ((a, b) # xs) \<subseteq> C" and "ends ((a, d) # ys) \<subseteq> C"
    and obs: "\<And>c c'. c \<in> C \<Longrightarrow> c' \<in> C \<Longrightarrow> c < c' \<Longrightarrow> \<exists>q \<in> Q. c \<le> q \<and> q < c'"
  shows "d \<le> b"
proof (rule ccontr)
  assume "\<not> d \<le> b"
  then have bd: "b < d" by simp
  obtain e where e: "e \<in> C" "b < e" "e \<le> d" "\<And>q. covers xs q \<Longrightarrow> e \<le> q"
    using separated_next [OF assms(1), of d C] bd assms(4,5) by auto
  obtain q where q: "q \<in> Q" "b \<le> q" "q < e" using obs [of b e] e(1,2) assms(4) by auto
  have "a < b" using separated_tail [OF assms(1)] by simp
  with q e(3) have "a \<le> q" "q < d" by simp_all
  then have "covers ((a, d) # ys) q" by simp
  with assms(3) q(1) have "covers ((a, b) # xs) q" by simp
  with q(2,3) e(4) show False by fastforce
qed

lemma separated_unique:
  assumes "separated xs" and "separated ys" and "\<And>q. q \<in> Q \<Longrightarrow> covers xs q = covers ys q"
    and "ends xs \<subseteq> C" and "ends ys \<subseteq> C"
    and obs: "\<And>c c'. c \<in> C \<Longrightarrow> c' \<in> C \<Longrightarrow> c < c' \<Longrightarrow> \<exists>q \<in> Q. c \<le> q \<and> q < c'"
  shows "xs = ys"
  using assms(1-5)
proof (induction xs arbitrary: ys)
  case Nil
  show ?case
  proof (cases ys)
    case (Cons y ys')
    obtain c d where y: "y = (c, d)" by force
    have "c < d" using Nil.prems(2) Cons y separated_tail by blast
    then obtain q where "q \<in> Q" "c \<le> q" "q < d" using obs [of c d] Nil.prems(5) Cons y by auto
    then show ?thesis using Nil.prems(3) Cons y by auto
  qed simp
next
  case (Cons x xs)
  obtain a b where x: "x = (a, b)" by force
  have sx: "separated ((a, b) # xs)" and ex: "ends ((a, b) # xs) \<subseteq> C"
    using Cons.prems(1,4) x by simp_all
  show ?case
  proof (cases ys)
    case Nil
    obtain q where "q \<in> Q" "a \<le> q" "q < b" using obs [of a b] ex separated_tail [OF sx] by auto
    then show ?thesis using Cons.prems(3) Nil x by auto
  next
    case (Cons y ys')
    obtain c d where y: "y = (c, d)" by force
    have sy: "separated ((c, d) # ys')" and ey: "ends ((c, d) # ys') \<subseteq> C"
      and same: "\<And>q. q \<in> Q \<Longrightarrow> covers ((a, b) # xs) q = covers ((c, d) # ys') q"
      using Cons.prems(2,3,5) Cons y x by simp_all
    have ca: "c = a"
      using separated_head_le [OF sx sy same ex ey obs] separated_head_le [OF sy sx same [symmetric] ey ex obs]
      by (rule antisym)
    note same' = same [unfolded ca] and sy' = sy [unfolded ca] and ey' = ey [unfolded ca]
    have db: "d = b"
      using separated_first_le [OF sx sy' same' ex ey' obs]
        separated_first_le [OF sy' sx same' [symmetric] ey' ex obs]
      by (rule antisym)
    have "covers xs q = covers ys' q" if "q \<in> Q" for q
      using same [OF that] separated_above [OF sx, of q] separated_above [OF sy, of q] ca db by auto
    then have "xs = ys'"
      using Cons.IH [of ys'] separated_tail [OF sx] separated_tail [OF sy] ex ey by simp
    then show ?thesis using Cons x y ca db by simp
  qed
qed

section \<open>Ranges as intervals of cuts\<close>

text \<open>A cut lies just before or just after a point; a range is the half-open interval between its two
  cuts, and a point is in it when the cut before the point is.\<close>

type_synonym cut = "point \<times> bool"

definition lower_cut :: "pg_range \<Rightarrow> cut" where
  "lower_cut r = (case rg_lower r of
     None \<Rightarrow> ((-2, 0), False) | Some b \<Rightarrow> (rank b, \<not> rg_lower_inclusive r))"

definition upper_cut :: "pg_range \<Rightarrow> cut" where
  "upper_cut r = (case rg_upper r of
     None \<Rightarrow> ((2, 0), True) | Some b \<Rightarrow> (rank b, rg_upper_inclusive r))"

abbreviation cuts :: "pg_range \<Rightarrow> cut \<times> cut" where
  "cuts r \<equiv> (lower_cut r, upper_cut r)"

lemma cut_order:
  fixes p q :: point
  shows "(p, x) \<le> (q, y) \<longleftrightarrow> p < q \<or> p = q \<and> (x \<longrightarrow> y)"
    and "(p, x) < (q, y) \<longleftrightarrow> p < q \<or> p = q \<and> \<not> x \<and> y"
  by (simp_all only: less_eq_prod_simp less_prod_simp le_less le_bool_def less_bool_def) blast+

lemma rank_bounds: "(-2, 0) < rank b" "rank b < (2, 0)"
  by (cases b; simp add: less_prod_def)+

lemma rank_outside:
  "\<not> rank b < (-2, 0)" "\<not> rank b \<le> (-2, 0)" "\<not> (2, 0) < rank b" "\<not> (2, 0) \<le> rank b"
  "rank b \<noteq> (-2, 0)" "(-2, 0) \<noteq> rank b" "rank b \<noteq> (2, 0)" "(2, 0) \<noteq> rank b"
  using rank_bounds [of b] by (auto simp: not_less not_le intro: less_imp_le)

lemma range_compare_rank:
  "range_compare l r > 0 \<longleftrightarrow> rank r < rank l"
  "range_compare l r < 0 \<longleftrightarrow> rank l < rank r"
  "range_compare l r = 0 \<longleftrightarrow> rank l = rank r"
  by (cases l; cases r; auto simp: range_compare_def sign_of_def less_prod_def)+

lemma is_point_bounds: "is_point src p \<Longrightarrow> (-2, 0) \<le> p \<and> p \<le> (2, 0)"
  by (cases src; cases p) (auto simp: less_eq_prod_def)

lemma in_range_cuts:
  assumes "is_point src p" and "\<not> rg_empty r"
  shows "in_range p r \<longleftrightarrow> lower_cut r \<le> (p, False) \<and> (p, False) < upper_cut r"
  using is_point_bounds [OF assms(1)] assms(2)
  by (auto simp: in_range_def lower_cut_def upper_cut_def cut_order order.order_iff_strict
      split: option.split)

text \<open>The normal form of a range that is not empty.\<close>

definition normal_bound :: "range_source \<Rightarrow> bound \<Rightarrow> bool" where
  "normal_bound src b \<longleftrightarrow>
     (case src of
        IntRange \<Rightarrow> (\<exists>v \<in> \<int>. b = Bound v)
      | DateRange \<Rightarrow> infinity b \<noteq> None \<or> (\<exists>v \<in> \<int>. b = Bound v \<and> 1 \<le> v \<and> v \<le> date_max)
      | ContinuousRange \<Rightarrow> True)"

definition normal :: "range_source \<Rightarrow> pg_range \<Rightarrow> bool" where
  "normal src r \<longleftrightarrow> \<not> rg_empty r \<and> lower_cut r < upper_cut r \<and>
     (case rg_lower r of None \<Rightarrow> \<not> rg_lower_inclusive r
      | Some b \<Rightarrow> normal_bound src b \<and> (range_discrete src \<longrightarrow> rg_lower_inclusive r)) \<and>
     (case rg_upper r of None \<Rightarrow> \<not> rg_upper_inclusive r
      | Some b \<Rightarrow> normal_bound src b \<and> (range_discrete src \<longrightarrow> \<not> rg_upper_inclusive r))"

lemma Ints_less_iff:
  fixes v w :: rat
  assumes "v \<in> \<int>" and "w \<in> \<int>"
  shows "v < w \<longleftrightarrow> v + 1 \<le> w"
proof -
  obtain i j where ij: "v = of_int i" "w = of_int j" using assms by (auto elim!: Ints_cases)
  have "v + 1 = of_int (i + 1)" by (simp add: ij)
  then show ?thesis by (simp only: ij of_int_less_iff of_int_le_iff zless_imp_add1_zle) linarith
qed

lemma date_max_Int: "date_max \<in> \<int>"
  by (simp add: date_max_def)

lemma step_normal:
  assumes "wf_bound src False b" and "range_discrete src"
  shows "normal_bound src (range_step src b)"
proof (cases b)
  case (Bound v)
  show ?thesis
  proof (cases src)
    case IntRange
    then show ?thesis using assms Bound by (simp add: normal_bound_def)
  next
    case DateRange
    then show ?thesis
      using assms Bound Ints_less_iff [OF _ date_max_Int, of v] by (auto simp: normal_bound_def)
  qed (use assms in \<open>simp add: range_discrete_def\<close>)
qed (use assms in \<open>cases src; simp add: normal_bound_def range_discrete_def\<close>)+

lemma wf_normal_bound: "wf_bound src i b \<Longrightarrow> normal_bound src b"
  by (cases src; cases b) (auto simp: normal_bound_def)

lemma step_points:
  assumes "wf_bound src False b" and "range_discrete src" and "is_point src p"
  shows "rank b < p \<longleftrightarrow> rank (range_step src b) \<le> p"
proof -
  obtain t w where p: "p = (t, w)" by force
  obtain v where b: "b = Bound v" "v \<in> \<int>"
    using assms(1,2) by (cases src; cases b) (auto simp: range_discrete_def)
  show ?thesis
  proof (cases "src = DateRange \<and> \<not> v < date_max")
    case True
    then show ?thesis using assms p b by auto
  next
    case False
    then have "range_step src b = Bound (v + 1)"
      using assms(2) b by (cases src) (auto simp: range_discrete_def)
    then show ?thesis
      using assms(2,3) p b(1) Ints_less_iff [OF b(2), of w] by (cases src) (auto simp: range_discrete_def)
  qed
qed

lemma cuts_nonempty:
  "lower_cut n < upper_cut n \<longleftrightarrow>
     (case (rg_lower n, rg_upper n) of
        (Some l, Some u) \<Rightarrow>
          \<not> (range_compare l u > 0 \<or>
             range_compare l u = 0 \<and> \<not> (rg_lower_inclusive n \<and> rg_upper_inclusive n))
      | _ \<Rightarrow> True)"
proof (cases "rg_lower n"; cases "rg_upper n")
  fix l u
  assume "rg_lower n = Some l" "rg_upper n = Some u"
  then show ?thesis
    by (cases "rank l = rank u") (auto simp: lower_cut_def upper_cut_def cut_order range_compare_rank)
qed (use rank_bounds in \<open>simp_all add: lower_cut_def upper_cut_def cut_order\<close>)

lemma normalise_half_open:
  "normalise_range src v =
     (if rg_empty v \<or> \<not> lower_cut (half_open src v) < upper_cut (half_open src v) then the_empty_range
      else half_open src v)"
  unfolding normalise_range_def Let_def cuts_nonempty by (auto split: option.split)

lemma half_open_lower:
  assumes "wf_range src v" and "is_point src p" and "rg_lower v = Some b"
    and "n = half_open src v"
  shows "\<exists>b'. rg_lower n = Some b' \<and>
    (rank b' < p \<or> rank b' = p \<and> rg_lower_inclusive n \<longleftrightarrow> rank b < p \<or> rank b = p \<and> rg_lower_inclusive v)"
proof (cases "range_discrete src \<and> \<not> rg_lower_inclusive v")
  case True
  then have "rank b < p \<longleftrightarrow> rank (range_step src b) \<le> p"
    using step_points [of src b p] assms(1,2,3) by (simp add: wf_range_def)
  then show ?thesis using True assms(3,4) by (auto simp: half_open_def Let_def le_less)
next
  case False
  then show ?thesis using assms(3,4) by (auto simp: half_open_def Let_def)
qed

lemma half_open_upper:
  assumes "wf_range src v" and "is_point src p" and "rg_upper v = Some b"
    and "n = half_open src v"
  shows "\<exists>b'. rg_upper n = Some b' \<and>
    (p < rank b' \<or> rank b' = p \<and> rg_upper_inclusive n \<longleftrightarrow> p < rank b \<or> rank b = p \<and> rg_upper_inclusive v)"
proof (cases "range_discrete src \<and> rg_upper_inclusive v")
  case True
  then have "rank b < p \<longleftrightarrow> rank (range_step src b) \<le> p"
    using step_points [of src b p] assms(1,2,3) by (simp add: wf_range_def)
  then have "p < rank (range_step src b) \<longleftrightarrow> p < rank b \<or> rank b = p"
    by (metis leD leI le_less)
  then show ?thesis using True assms(3,4) by (auto simp: half_open_def Let_def)
next
  case False
  then show ?thesis using assms(3,4) by (auto simp: half_open_def Let_def)
qed

lemma half_open_points:
  assumes "wf_range src v" and "\<not> rg_empty v" and "is_point src p"
  shows "in_range p (half_open src v) \<longleftrightarrow> in_range p v"
proof -
  have "rg_lower v = None \<Longrightarrow> rg_lower (half_open src v) = None"
    "rg_upper v = None \<Longrightarrow> rg_upper (half_open src v) = None" "\<not> rg_empty (half_open src v)"
    by (simp_all add: half_open_def Let_def)
  with half_open_lower [OF assms(1,3) _ refl] half_open_upper [OF assms(1,3) _ refl] assms(2)
  show ?thesis unfolding in_range_def by (cases "rg_lower v"; cases "rg_upper v") fastforce+
qed

lemma half_open_normal:
  assumes "wf_range src v" and "lower_cut (half_open src v) < upper_cut (half_open src v)"
  shows "normal src (half_open src v)"
  using assms step_normal wf_normal_bound
  by (auto simp: normal_def half_open_def wf_range_def Let_def split: option.splits)

lemma normalise_points:
  assumes "wf_range src v" and "is_point src p"
  shows "in_range p (normalise_range src v) \<longleftrightarrow> in_range p v"
proof (cases "rg_empty v \<or> \<not> lower_cut (half_open src v) < upper_cut (half_open src v)")
  case True
  have "\<not> in_range p v"
  proof
    assume v: "in_range p v"
    then have "\<not> rg_empty v" by (simp add: in_range_def)
    with v have "in_range p (half_open src v)" using half_open_points assms by blast
    then have "lower_cut (half_open src v) < upper_cut (half_open src v)"
      using in_range_cuts [OF assms(2), of "half_open src v"] by (auto simp: half_open_def Let_def)
    with True \<open>\<not> rg_empty v\<close> show False by blast
  qed
  then show ?thesis using True by (simp add: normalise_half_open the_empty_range_def in_range_def)
next
  case False
  then show ?thesis using half_open_points assms by (simp add: normalise_half_open)
qed

lemma normalise_normal:
  assumes "wf_range src v" and "\<not> rg_empty (normalise_range src v)"
  shows "normal src (normalise_range src v)"
  using assms half_open_normal by (auto simp: normalise_half_open the_empty_range_def split: if_splits)

lemma normalise_idem:
  assumes "normal src r"
  shows "normalise_range src r = r"
proof -
  have "half_open src r = r"
    using assms
    by (intro pg_range.equality)
      (auto simp: half_open_def normal_def Let_def split: option.splits)
  moreover have "\<not> rg_empty r" "lower_cut r < upper_cut r" using assms by (simp_all add: normal_def)
  ultimately show ?thesis by (simp add: normalise_half_open)
qed

section \<open>Sorting and merging\<close>

lemma mergeable_cuts:
  assumes "normal src l" and "normal src r"
  shows "ranges_mergeable src l r \<longleftrightarrow> lower_cut r \<le> upper_cut l"
proof (cases "rg_upper l"; cases "rg_lower r")
  fix u b
  assume ub: "rg_upper l = Some u" "rg_lower r = Some b"
  then have "range_discrete src \<longrightarrow> rg_lower_inclusive r" using assms(2) by (simp add: normal_def)
  then show ?thesis
    using ub by (cases "rank u = rank b")
      (auto simp: ranges_mergeable_def lower_cut_def upper_cut_def cut_order range_compare_rank Let_def)
qed (use rank_bounds in \<open>auto simp: ranges_mergeable_def lower_cut_def upper_cut_def cut_order\<close>)

lemma extend_cuts:
  assumes "normal src p" and "normal src c"
  shows "lower_cut (extend_range p c) = lower_cut p"
    and "upper_cut (extend_range p c) = max (upper_cut p) (upper_cut c)"
    and "normal src (extend_range p c)"
proof -
  show l: "lower_cut (extend_range p c) = lower_cut p"
    by (simp add: extend_range_def lower_cut_def Let_def split: option.split)
  show u: "upper_cut (extend_range p c) = max (upper_cut p) (upper_cut c)"
  proof (cases "rg_upper p"; cases "rg_upper c")
    fix a b
    assume "rg_upper p = Some a" "rg_upper c = Some b"
    then show ?thesis
      by (cases "rank a = rank b")
        (auto simp: extend_range_def upper_cut_def range_compare_rank Let_def max_def cut_order)
  qed (use rank_bounds in \<open>simp_all add: extend_range_def upper_cut_def max_def cut_order rank_outside\<close>)
  show "normal src (extend_range p c)"
    using assms l u unfolding normal_def
    by (auto simp: extend_range_def Let_def less_max_iff_disj split: option.splits if_splits)
qed

lemma compare_ranges_cuts:
  assumes "normal src l" and "normal src r"
  shows "compare_ranges l r \<le> 0 \<longleftrightarrow> lower_cut l \<le> lower_cut r"
proof (cases "rg_lower l"; cases "rg_lower r")
  fix a b
  assume "rg_lower l = Some a" "rg_lower r = Some b"
  then show ?thesis
    using range_compare_rank [of a b]
    by (cases "rank a = rank b")
      (auto simp: compare_ranges_def lower_cut_def Let_def cut_order not_less le_less)
qed (use rank_bounds assms in
    \<open>auto simp: compare_ranges_def lower_cut_def Let_def cut_order normal_def rank_outside\<close>)

lemma insert_by_sorted:
  assumes "\<And>x y. x \<in> A \<Longrightarrow> y \<in> A \<Longrightarrow> cmp x y \<le> 0 \<longleftrightarrow> key x \<le> (key y :: 'k::linorder)"
    and "x \<in> A" and "set xs \<subseteq> A" and "sorted (map key xs)"
  shows "set (insert_by cmp x xs) = insert x (set xs) \<and> sorted (map key (insert_by cmp x xs))"
  using assms(3,4)
proof (induction xs)
  case (Cons y ys)
  then show ?case using assms(1) [OF assms(2), of y] by (auto simp: not_le)
qed simp

lemma sort_by_sorted:
  assumes "\<And>x y. x \<in> set xs \<Longrightarrow> y \<in> set xs \<Longrightarrow> cmp x y \<le> 0 \<longleftrightarrow> key x \<le> (key y :: 'k::linorder)"
  shows "set (sort_by cmp xs) = set xs \<and> sorted (map key (sort_by cmp xs))"
proof -
  have "set (foldr (insert_by cmp) ys []) = set ys \<and> sorted (map key (foldr (insert_by cmp) ys []))"
    if "set ys \<subseteq> set xs" for ys
    using that
  proof (induction ys)
    case (Cons y ys)
    then show ?case
      using insert_by_sorted [of "set xs" cmp key y "foldr (insert_by cmp) ys []"] assms by simp
  qed simp
  then show ?thesis by (simp add: sort_by_def)
qed

lemma merge_sorted_spec:
  assumes "normal src p" and "list_all (normal src) rs" and "sorted (map lower_cut (p # rs))"
  shows "list_all (normal src) (merge_sorted src (Some p) rs) \<and>
    separated (map cuts (merge_sorted src (Some p) rs)) \<and>
    fst (hd (map cuts (merge_sorted src (Some p) rs))) = lower_cut p \<and>
    merge_sorted src (Some p) rs \<noteq> [] \<and>
    covers (map cuts (merge_sorted src (Some p) rs)) = covers (map cuts (p # rs))"
  using assms
proof (induction rs arbitrary: p)
  case Nil
  then show ?case by (simp add: normal_def)
next
  case (Cons c rs)
  have c: "normal src c" "list_all (normal src) rs" "lower_cut p \<le> lower_cut c"
    "sorted (map lower_cut (c # rs))"
    using Cons.prems by simp_all
  show ?case
  proof (cases "ranges_mergeable src p c")
    case True
    let ?e = "extend_range p c"
    note e = extend_cuts [OF Cons.prems(1) c(1)]
    have le: "lower_cut c \<le> upper_cut p" using True mergeable_cuts Cons.prems(1) c(1) by blast
    have "sorted (map lower_cut (?e # rs))" using Cons.prems(3) e(1) by auto
    note IH = Cons.IH [OF e(3) c(2) this]
    have "covers (map cuts (?e # rs)) q = covers (map cuts (p # c # rs)) q" for q
      using le c(3) e(1,2) by (auto simp: less_max_iff_disj)
    then show ?thesis using IH e(1) True by auto
  next
    case False
    then have gap: "upper_cut p < lower_cut c"
      using mergeable_cuts Cons.prems(1) c(1) by (simp add: not_le)
    note IH = Cons.IH [OF c(1,2,4)]
    obtain m ms where m: "merge_sorted src (Some c) rs = m # ms"
      using IH by (cases "merge_sorted src (Some c) rs") auto
    have cov: "covers (map cuts (p # m # ms)) = covers (map cuts (p # c # rs))"
    proof
      fix q
      have "covers (map cuts (m # ms)) q = covers (map cuts (c # rs)) q" using IH m by metis
      then show "covers (map cuts (p # m # ms)) q = covers (map cuts (p # c # rs)) q"
        unfolding list.map(2) [of cuts p] by (rule covers_cong)
    qed
    have "lower_cut p < upper_cut p" using Cons.prems(1) by (simp add: normal_def)
    moreover have "lower_cut m = lower_cut c" using IH unfolding m by simp
    moreover have "separated (map cuts (m # ms))" using IH unfolding m by blast
    ultimately have sep: "separated (map cuts (p # m # ms))" using gap by simp
    have eq: "merge_sorted src (Some p) (c # rs) = p # m # ms" using m False by simp
    have la: "list_all (normal src) (p # m # ms)" using IH m Cons.prems(1) by simp
    show ?thesis unfolding eq by (intro conjI la sep cov) simp_all
  qed
qed

lemma merge_ranges_spec:
  assumes "\<And>r. r \<in> set rs \<Longrightarrow> normal src r"
  shows "list_all (normal src) (merge_ranges src rs)"
    and "separated (map cuts (merge_ranges src rs))"
    and "covers (map cuts (merge_ranges src rs)) q = covers (map cuts rs) q"
proof -
  let ?ss = "sort_by compare_ranges rs"
  have s: "set ?ss = set rs" "sorted (map lower_cut ?ss)"
    using sort_by_sorted [of rs compare_ranges lower_cut] compare_ranges_cuts assms by blast+
  have "list_all (normal src) (merge_ranges src rs) \<and> separated (map cuts (merge_ranges src rs)) \<and>
    covers (map cuts (merge_ranges src rs)) q = covers (map cuts ?ss) q"
  proof (cases ?ss)
    case Nil
    then show ?thesis by (simp add: merge_ranges_def)
  next
    case (Cons p ps)
    have "normal src p" "list_all (normal src) ps" using Cons s(1) assms by (auto simp: list_all_iff)
    from merge_sorted_spec [OF this s(2) [unfolded Cons]] show ?thesis
      unfolding merge_ranges_def Cons merge_sorted.simps by metis
  qed
  moreover have "covers (map cuts ?ss) q = covers (map cuts rs) q" by (simp add: covers_def s(1))
  ultimately show "list_all (normal src) (merge_ranges src rs)"
    "separated (map cuts (merge_ranges src rs))"
    "covers (map cuts (merge_ranges src rs)) q = covers (map cuts rs) q"
    by blast+
qed

section \<open>Identities determine the cuts, and the points determine the identities\<close>

lemma bound_identity_rank:
  assumes "inj leaf"
  shows "range_bound_identity leaf (Some a) = range_bound_identity leaf (Some b) \<longleftrightarrow> rank a = rank b"
  using assms by (cases a; cases b) (auto simp: range_bound_identity_def inj_eq)

lemma bound_identity_None:
  "range_bound_identity leaf (Some a) \<noteq> Unbounded" "Unbounded \<noteq> range_bound_identity leaf (Some a)"
  "range_bound_identity leaf None = Unbounded"
  by (cases a; simp add: range_bound_identity_def)+

definition normal_identity :: "(rat \<Rightarrow> 'i) \<Rightarrow> pg_range \<Rightarrow> 'i range_ident" where
  "normal_identity leaf r =
     RangeIdentity (range_bound_identity leaf (rg_lower r)) (rg_lower_inclusive r)
       (range_bound_identity leaf (rg_upper r)) (rg_upper_inclusive r)"

lemma range_identity_normal: "normal src r \<Longrightarrow> range_identity leaf src r = normal_identity leaf r"
  by (simp add: range_identity_def normal_identity_def normalise_idem normal_def)

lemma identity_cuts:
  assumes "inj leaf" and "normal src r" and "normal src s"
  shows "normal_identity leaf r = normal_identity leaf s \<longleftrightarrow> cuts r = cuts s"
proof -
  have "range_bound_identity leaf (rg_lower r) = range_bound_identity leaf (rg_lower s) \<and>
      rg_lower_inclusive r = rg_lower_inclusive s \<longleftrightarrow> lower_cut r = lower_cut s"
    using assms(2,3) rank_bounds
    by (cases "rg_lower r"; cases "rg_lower s")
      (auto simp: lower_cut_def normal_def bound_identity_None bound_identity_rank [OF assms(1)]
        rank_outside)
  moreover have "range_bound_identity leaf (rg_upper r) = range_bound_identity leaf (rg_upper s) \<and>
      rg_upper_inclusive r = rg_upper_inclusive s \<longleftrightarrow> upper_cut r = upper_cut s"
    using assms(2,3) rank_bounds
    by (cases "rg_upper r"; cases "rg_upper s")
      (auto simp: upper_cut_def normal_def bound_identity_None bound_identity_rank [OF assms(1)]
        rank_outside)
  ultimately show ?thesis by (auto simp: normal_identity_def)
qed

lemma identities_cuts:
  assumes "inj leaf" and "list_all (normal src) rs" and "list_all (normal src) ss"
  shows "map (range_identity leaf src) rs = map (range_identity leaf src) ss \<longleftrightarrow> map cuts rs = map cuts ss"
  using assms(2,3)
proof (induction rs arbitrary: ss)
  case (Cons r rs)
  then show ?case
    by (cases ss) (simp_all add: range_identity_normal identity_cuts [OF assms(1), of src])
qed auto

text \<open>The cuts a normal range can have, and a point between any two of them.\<close>

definition cuts_of :: "range_source \<Rightarrow> cut set" where
  "cuts_of src = {((-2, 0), False), ((2, 0), True)} \<union>
     {(rank b, x) |b x. normal_bound src b \<and> (range_discrete src \<longrightarrow> \<not> x)}"

lemma normal_cuts_of: "normal src r \<Longrightarrow> lower_cut r \<in> cuts_of src \<and> upper_cut r \<in> cuts_of src"
  by (auto simp: normal_def cuts_of_def lower_cut_def upper_cut_def split: option.splits)

lemma normal_bound_point: "normal_bound src b \<Longrightarrow> is_point src (rank b)"
  by (cases src; cases b) (auto simp: normal_bound_def)

lemma continuous_between:
  assumes "rank a < rank b"
  obtains p where "is_point ContinuousRange p" "rank a < p" "p < rank b"
proof (cases a; cases b)
  fix v w
  assume "a = Bound v" "b = Bound w"
  with assms that [of "(0, (v + w) / 2)"] show thesis by simp
next
  fix v q
  assume "a = Bound v" "b = PostgresInfinity q"
  with assms that [of "(0, v + 1)"] show thesis by (simp split: if_splits)
next
  fix v q
  assume "a = Bound v" "b = RangeInfinity q"
  with assms that [of "(0, v + 1)"] show thesis by (simp split: if_splits)
next
  fix w q
  assume "a = PostgresInfinity q" "b = Bound w"
  with assms that [of "(0, w - 1)"] show thesis by (simp split: if_splits)
next
  fix w q
  assume "a = RangeInfinity q" "b = Bound w"
  with assms that [of "(0, w - 1)"] show thesis by (simp split: if_splits)
qed (use assms that [of "(0, 0)"] in \<open>simp split: if_splits\<close>)+

lemma cuts_observable:
  assumes "c \<in> cuts_of src" and "c' \<in> cuts_of src" and "c < c'"
  shows "\<exists>p. is_point src p \<and> c \<le> (p, False) \<and> (p, False) < c'"
proof -
  have ends: "is_point src (-2, 0)" "is_point src (2, 0)" by (cases src; simp)+
  consider (bottom) "c = ((-2, 0), False)" | (top) "c = ((2, 0), True)"
    | (bound) a x where "c = (rank a, x)" "normal_bound src a" "range_discrete src \<longrightarrow> \<not> x"
    using assms(1) by (auto simp: cuts_of_def)
  then show ?thesis
  proof cases
    case bottom
    then show ?thesis using ends assms(3) by blast
  next
    case top
    then show ?thesis using assms(2,3) rank_bounds by (auto simp: cuts_of_def cut_order rank_outside)
  next
    case (bound a x)
    show ?thesis
    proof (cases x)
      case False
      then show ?thesis
        using bound(1) normal_bound_point [OF bound(2)] assms(3) by (intro exI [of _ "rank a"]) simp
    next
      case True
      then have src: "src = ContinuousRange" using bound(3) by (simp add: range_discrete_def)
      consider "c' = ((2, 0), True)" | b y where "c' = (rank b, y)" "rank a < rank b"
        using assms(2,3) True bound(1) by (auto simp: cuts_of_def cut_order rank_outside)
      then show ?thesis
      proof cases
        case 1
        then show ?thesis using ends(2) rank_bounds [of a] bound(1) by (auto simp: cut_order)
      next
        case (2 b y)
        obtain p where "is_point ContinuousRange p" "rank a < p" "p < rank b"
          using continuous_between [OF 2(2)] .
        then show ?thesis using src bound(1) 2(1) by (intro exI [of _ p]) (simp add: cut_order)
      qed
    qed
  qed
qed

lemma cuts_unique:
  assumes "list_all (normal src) rs" and "list_all (normal src) ss"
    and "separated (map cuts rs)" and "separated (map cuts ss)"
    and "\<And>p. is_point src p \<Longrightarrow> covers (map cuts rs) (p, False) = covers (map cuts ss) (p, False)"
  shows "map cuts rs = map cuts ss"
proof (rule separated_unique [where C = "cuts_of src" and Q = "{(p, False) |p. is_point src p}"])
  show "ends (map cuts rs) \<subseteq> cuts_of src" "ends (map cuts ss) \<subseteq> cuts_of src"
    using assms(1,2) normal_cuts_of by (auto simp: ends_def list_all_iff)
  show "\<exists>q \<in> {(p, False) |p. is_point src p}. c \<le> q \<and> q < c'"
    if "c \<in> cuts_of src" "c' \<in> cuts_of src" "c < c'" for c c'
    using cuts_observable [OF that] by blast
qed (use assms in auto)

definition normal_ranges :: "range_source \<Rightarrow> pg_range list \<Rightarrow> pg_range list" where
  "normal_ranges src vs = filter (\<lambda>r. \<not> rg_empty r) (map (normalise_range src) vs)"

lemma normal_ranges_normal: "list_all (wf_range src) vs \<Longrightarrow> r \<in> set (normal_ranges src vs) \<Longrightarrow> normal src r"
  by (auto simp: normal_ranges_def list_all_iff normalise_normal)

lemma normal_ranges_covers:
  assumes "list_all (wf_range src) vs" and "is_point src p"
  shows "covers (map cuts (normal_ranges src vs)) (p, False) \<longleftrightarrow> in_multirange p vs"
proof -
  have "in_range p v \<longleftrightarrow> \<not> rg_empty (normalise_range src v) \<and>
      lower_cut (normalise_range src v) \<le> (p, False) \<and> (p, False) < upper_cut (normalise_range src v)"
    if "v \<in> set vs" for v
    using normalise_points [of src v p] in_range_cuts [OF assms(2), of "normalise_range src v"]
      assms that by (auto simp: list_all_iff in_range_def)
  then show ?thesis by (auto simp: covers_def normal_ranges_def in_multirange_def list_ex_iff)
qed

section \<open>The properties\<close>


definition int_range :: "rat \<Rightarrow> bool \<Rightarrow> rat \<Rightarrow> bool \<Rightarrow> pg_range" where
  "int_range l li u ui = \<lparr>rg_empty = False, rg_lower = Some (Bound l), rg_upper = Some (Bound u),
     rg_lower_inclusive = li, rg_upper_inclusive = ui\<rparr>"


text \<open>
  What the hypothesis on date ranges excludes. A date range that includes its infinite upper bound and
  one that excludes it differ in PostgreSQL, and get the same identity.
\<close>

definition date_range_to_infinity :: "bool \<Rightarrow> pg_range" where
  "date_range_to_infinity ui = \<lparr>rg_empty = False, rg_lower = Some (Bound 737425),
     rg_upper = Some (PostgresInfinity True), rg_lower_inclusive = True, rg_upper_inclusive = ui\<rparr>"

lemma infinite_date_ranges_collide:
  "range_identity (\<lambda>v. v) DateRange (date_range_to_infinity True) =
     range_identity (\<lambda>v. v) DateRange (date_range_to_infinity False)"
  "in_range (1, 0) (date_range_to_infinity True)" "\<not> in_range (1, 0) (date_range_to_infinity False)"
  by code_simp+

end
