(* ===== verification/Identity_Codec.thy ===== *)
theory Identity_Codec
  imports Decimal_Digits Complex_Main "HOL-Library.Finite_Map"
begin

text \<open>
  The canonical identity of numbers, JSONB documents, zoned times and intervals: a model of
  \<open>_canonical_decimal_text\<close>, \<open>_jsonb_parse\<close>, \<open>_jsonb_identity\<close>, \<open>canonical_jsonb_identity\<close>,
  \<open>_interval_units\<close> (of a \<open>timedelta\<close> or of a readback mapping) and \<open>_time_identity\<close> of
  \<open>src/cdc_flight/identity_codec.py\<close>.

  A Python \<open>Decimal\<close> is its sign, coefficient and exponent. The lemmas show that the text of a
  number determines its value and the value its text, and that two JSONB documents get
  the same identity exactly when PostgreSQL holds them equal: key order, repeated keys,
  number spelling and scale do not matter and nothing else is lost.
\<close>

section \<open>Decimals\<close>

datatype number = Number bool nat int \<comment> \<open>sign, coefficient, exponent\<close>

datatype decimal = Finite number | NonFinite

datatype codec_error = NotFinite

definition format_f :: "bool \<Rightarrow> nat \<Rightarrow> int \<Rightarrow> string" where
  \<comment> \<open>\<open>format(decimal, "f")\<close>\<close>
  "format_f neg c e =
     (if neg then ''-'' else '''') @
     (let ds = digits c; k = nat (- e) in
      if 0 \<le> e then ds @ replicate (nat e) (CHR ''0'')
      else if k < length ds then take (length ds - k) ds @ ''.'' @ drop (length ds - k) ds
      else ''0.'' @ replicate (k - length ds) (CHR ''0'') @ ds)"

fun number_text :: "number \<Rightarrow> string" where
  "number_text (Number neg c e) =
     (if c = 0 then ''0''
      else
        let text = format_f neg c e;
            text1 = (if CHR ''.'' \<in> set text then rstrip (CHR ''.'') (rstrip (CHR ''0'') text) else text)
        in if text1 \<in> {'''', ''-0''} then ''0'' else text1)"

definition canonical_decimal_text :: "decimal \<Rightarrow> codec_error + string" where
  "canonical_decimal_text d = (case d of NonFinite \<Rightarrow> Inl NotFinite | Finite n \<Rightarrow> Inr (number_text n))"

section \<open>JSONB\<close>

text \<open>A document with its numbers as decimals, which in JSON text are all finite, and the pairs of an object in source order.\<close>

datatype jsonb =
    JbNull
  | JbBool bool
  | JbNumber number
  | JbString string
  | JbArray "jsonb list"
  | JbObject "(string \<times> jsonb) list"

datatype jsonb_ident =
    IdNull
  | IdBoolean bool
  | IdNumber string
  | IdString string
  | IdArray "jsonb_ident list"
  | IdObject "(string \<times> jsonb_ident) list"

definition last_key_wins :: "(string \<times> 'a) list \<Rightarrow> (string \<times> 'a) list" where
  \<comment> \<open>\<open>{str(key): item for key, item in pairs}\<close>\<close>
  "last_key_wins ps = foldl (\<lambda>d p. AList.update (fst p) (snd p) d) [] ps"

fun jsonb_parse :: "jsonb \<Rightarrow> jsonb" where
  "jsonb_parse (JbArray xs) = JbArray (map jsonb_parse xs)"
| "jsonb_parse (JbObject ps) = JbObject (last_key_wins (map (\<lambda>(k, v). (k, jsonb_parse v)) ps))"
| "jsonb_parse j = j"

fun jsonb_identity :: "jsonb \<Rightarrow> jsonb_ident" where
  "jsonb_identity JbNull = IdNull"
| "jsonb_identity (JbBool b) = IdBoolean b"
| "jsonb_identity (JbNumber n) = IdNumber (number_text n)"
| "jsonb_identity (JbString s) = IdString s"
| "jsonb_identity (JbArray xs) = IdArray (map jsonb_identity xs)"
| "jsonb_identity (JbObject ps) = IdObject (sort_key fst (map (\<lambda>(k, v). (k, jsonb_identity v)) ps))"

definition canonical_jsonb_identity :: "jsonb \<Rightarrow> jsonb_ident" where
  "canonical_jsonb_identity j = jsonb_identity (jsonb_parse j)"

section \<open>Times and intervals\<close>

definition day_microseconds :: int where
  "day_microseconds = 86400000000"

record zoned_time =
  zt_hour :: int
  zt_minute :: int
  zt_second :: int
  zt_microsecond :: int
  zt_offset_days :: int
  zt_offset_seconds :: int
  zt_offset_microseconds :: int

definition timetz_identity :: "zoned_time \<Rightarrow> int" where
  "timetz_identity t =
     (let local_us = (zt_hour t * 3600 + zt_minute t * 60 + zt_second t) * 1000000 + zt_microsecond t;
          offset_us = (zt_offset_days t * 86400 + zt_offset_seconds t) * 1000000 + zt_offset_microseconds t
      in (local_us - offset_us) mod day_microseconds)"

datatype interval_value =
    Timedelta int int int \<comment> \<open>days, seconds, microseconds\<close>
  | Units int int int     \<comment> \<open>months, days, microseconds of a readback\<close>

fun interval_units :: "interval_value \<Rightarrow> int \<times> int \<times> int" where
  "interval_units (Timedelta d s us) = (0, d, s * 1000000 + us)"
| "interval_units (Units m d us) = (0, d + m * 30, us)"

section \<open>What a text says\<close>

definition unsigned_value :: "string \<Rightarrow> rat" where
  "unsigned_value s =
     (let whole = takeWhile (\<lambda>c. c \<noteq> CHR ''.'') s; frac = drop (Suc (length whole)) s
      in of_nat (digits_number 0 (whole @ frac)) / 10 ^ length frac)"

definition text_value :: "string \<Rightarrow> rat" where
  "text_value s = (if take 1 s = ''-'' then - unsigned_value (drop 1 s) else unsigned_value s)"

definition scale10 :: "int \<Rightarrow> rat" where
  "scale10 e = (if 0 \<le> e then 10 ^ nat e else 1 / 10 ^ nat (- e))"

fun number_value :: "number \<Rightarrow> rat" where
  "number_value (Number neg c e) = (if neg then -1 else 1) * of_nat c * scale10 e"

section \<open>Values of texts\<close>

lemma unsigned_value_dot:
  assumes "CHR ''.'' \<notin> set w"
  shows "unsigned_value (w @ ''.'' @ f) = of_nat (digits_number 0 (w @ f)) / 10 ^ length f"
    and "unsigned_value w = of_nat (digits_number 0 w)"
proof -
  have t: "takeWhile (\<lambda>c. c \<noteq> CHR ''.'') (w @ r) = w @ takeWhile (\<lambda>c. c \<noteq> CHR ''.'') r" for r
    using assms by (intro takeWhile_append2) metis
  have w: "takeWhile (\<lambda>c. c \<noteq> CHR ''.'') w = w" using t [of "[]"] by (metis append_Nil2 takeWhile.simps(1))
  have wf: "takeWhile (\<lambda>c. c \<noteq> CHR ''.'') (w @ ''.'' @ f) = w" using t [of "''.'' @ f"] by simp
  show "unsigned_value (w @ ''.'' @ f) = of_nat (digits_number 0 (w @ f)) / 10 ^ length f"
    unfolding unsigned_value_def wf Let_def by simp
  show "unsigned_value w = of_nat (digits_number 0 w)"
    unfolding unsigned_value_def w Let_def by simp
qed

definition joined :: "string \<Rightarrow> string \<Rightarrow> string" where
  \<comment> \<open>whole part and fraction, the point left out with an empty fraction\<close>
  "joined w f = (if f = [] then w else w @ ''.'' @ f)"

lemma strip_joined:
  assumes "w \<noteq> []" and "last w \<noteq> CHR ''.''" and "digit_string f"
  shows "rstrip (CHR ''.'') (rstrip (CHR ''0'') (w @ ''.'' @ f)) = joined w (rstrip (CHR ''0'') f)"
proof -
  let ?f = "rstrip (CHR ''0'') f"
  have 1: "rstrip (CHR ''0'') (w @ ''.'' @ f) = (w @ ''.'') @ ?f"
    using rstrip_prefix [of "w @ ''.''" "CHR ''0''" f] by simp
  have "digit_string ?f" using rstrip_split [of f "CHR ''0''"] assms(3) by (metis digit_string_simps(3))
  show ?thesis
  proof (cases "?f = []")
    case True
    then show ?thesis unfolding 1 using assms(1,2) by (simp add: joined_def rstrip_stop)
  next
    case False
    then have "last ?f \<noteq> CHR ''.''"
      using digit_string_dot [OF \<open>digit_string ?f\<close>] last_in_set by metis
    then show ?thesis unfolding 1 using False by (simp add: joined_def rstrip_stop)
  qed
qed

lemma joined_value:
  assumes "digit_string w"
  shows "unsigned_value (joined w (rstrip (CHR ''0'') f)) =
    of_nat (digits_number 0 (w @ f)) / 10 ^ length f"
proof -
  obtain k where k: "f = rstrip (CHR ''0'') f @ replicate k (CHR ''0'')" using rstrip_split by blast
  let ?f = "rstrip (CHR ''0'') f"
  have "digits_number 0 (w @ f) = digits_number 0 (w @ ?f) * 10 ^ k" "length f = length ?f + k"
    by (subst k; simp add: digits_number_append digits_number_zeros)+
  then have "of_nat (digits_number 0 (w @ f)) / 10 ^ length f =
      (of_nat (digits_number 0 (w @ ?f)) / 10 ^ length ?f :: rat)"
    by (simp add: power_add)
  then show ?thesis
    using unsigned_value_dot [OF digit_string_dot [OF assms]] by (simp add: joined_def)
qed

section \<open>The text of a number\<close>

definition sign_text :: "bool \<Rightarrow> string" where
  "sign_text neg = (if neg then ''-'' else '''')"

definition whole_part :: "nat \<Rightarrow> nat \<Rightarrow> string" where
  "whole_part c k = (if k < length (digits c) then take (length (digits c) - k) (digits c) else ''0'')"

definition fraction_part :: "nat \<Rightarrow> nat \<Rightarrow> string" where
  "fraction_part c k =
     (if k < length (digits c) then drop (length (digits c) - k) (digits c)
      else replicate (k - length (digits c)) (CHR ''0'') @ digits c)"

definition body :: "nat \<Rightarrow> int \<Rightarrow> string" where
  "body c e =
     (if 0 \<le> e then digits c @ replicate (nat e) (CHR ''0'')
      else joined (whole_part c (nat (- e))) (rstrip (CHR ''0'') (fraction_part c (nat (- e)))))"

lemma parts_digits: "digit_string (whole_part c k)" "digit_string (fraction_part c k)" "whole_part c k \<noteq> []"
proof -
  have "digit_string ''0''" using digit_string_simps(5) [of 1] by simp
  then show "digit_string (whole_part c k)" "digit_string (fraction_part c k)"
    using digit_string_part [OF digit_string_simps(4) [of c]] by (simp_all add: whole_part_def fraction_part_def)
  show "whole_part c k \<noteq> []" by (auto simp: whole_part_def)
qed

lemma parts_value: "digits_number 0 (whole_part c k @ fraction_part c k) = c"
proof (cases "k < length (digits c)")
  case True
  then have "whole_part c k @ fraction_part c k = digits c" by (simp add: whole_part_def fraction_part_def)
  then show ?thesis using digits_number_digits [of 0 c] by simp
next
  case False
  then show ?thesis
    using digits_number_zeros [of 0 "k - length (digits c)"]
    by (simp add: whole_part_def fraction_part_def digits_number_append digits_number_digits)
qed

lemma parts_length: "length (fraction_part c k) = k"
  by (simp add: fraction_part_def)

lemma body_value: "unsigned_value (body c e) = of_nat c * scale10 e"
proof (cases "0 \<le> e")
  case True
  have "CHR ''.'' \<notin> set (digits c @ replicate (nat e) (CHR ''0''))"
    using digit_string_dot [of "digits c @ replicate (nat e) (CHR ''0'')"] by simp
  from unsigned_value_dot(2) [OF this] True show ?thesis
    by (simp add: body_def scale10_def digits_number_append digits_number_zeros digits_number_digits)
next
  case False
  then show ?thesis
    using joined_value [OF parts_digits(1), of c "nat (- e)" "fraction_part c (nat (- e))"]
    by (simp add: body_def scale10_def parts_value parts_length)
qed

lemma body_head: "\<exists>d. d < 10 \<and> take 1 (body c e) = [digit_char d]"
proof -
  have head: "\<exists>d. d < 10 \<and> take 1 (w @ r) = [digit_char d]" if "digit_string w" "w \<noteq> []" for w r
    using that by (cases w) auto
  show ?thesis
  proof (cases "0 \<le> e")
    case True
    then show ?thesis
      using head [OF digit_string_simps(4) digits_not_Nil, of c "replicate (nat e) (CHR ''0'')"]
      by (simp only: body_def) simp
  next
    case False
    then show ?thesis
      using head [OF parts_digits(1,3), of c "nat (- e)"] head [OF parts_digits(1,3), of c "nat (- e)" "[]"]
      by (simp add: body_def joined_def)
  qed
qed

lemma signed_value:
  "text_value (sign_text neg @ body c e) = (if neg then -1 else 1) * of_nat c * scale10 e"
proof (cases neg)
  case True
  then show ?thesis by (simp add: text_value_def sign_text_def body_value)
next
  case False
  obtain d where "d < 10" "take 1 (body c e) = [digit_char d]" using body_head by blast
  then have "take 1 (body c e) \<noteq> ''-''" using digit_char_neq(2) by simp
  then show ?thesis using False by (simp add: text_value_def sign_text_def body_value)
qed

lemma scale10_pos: "0 < scale10 e"
  by (simp add: scale10_def)

lemma stripped_format:
  "(let t = format_f neg c e in
    if CHR ''.'' \<in> set t then rstrip (CHR ''.'') (rstrip (CHR ''0'') t) else t) = sign_text neg @ body c e"
proof (cases "0 \<le> e")
  case True
  have "CHR ''.'' \<notin> set (digits c @ replicate (nat e) (CHR ''0''))"
    using digit_string_dot [of "digits c @ replicate (nat e) (CHR ''0'')"] by simp
  then show ?thesis using True by (auto simp: format_f_def body_def sign_text_def Let_def)
next
  case False
  let ?k = "nat (- e)"
  let ?w = "sign_text neg @ whole_part c ?k"
  have t: "format_f neg c e = ?w @ ''.'' @ fraction_part c ?k"
    using False by (simp add: format_f_def whole_part_def fraction_part_def sign_text_def Let_def)
  have "last ?w = last (whole_part c ?k)" "last (whole_part c ?k) \<in> set (whole_part c ?k)"
    using parts_digits(3) by simp_all
  then have "last ?w \<noteq> CHR ''.''" using digit_string_dot [OF parts_digits(1)] by metis
  moreover have "?w \<noteq> []" using parts_digits(3) by simp
  ultimately have "rstrip (CHR ''.'') (rstrip (CHR ''0'') (format_f neg c e)) =
      joined ?w (rstrip (CHR ''0'') (fraction_part c ?k))"
    unfolding t using strip_joined [OF _ _ parts_digits(2)] by blast
  moreover have "CHR ''.'' \<in> set (format_f neg c e)" unfolding t by simp
  ultimately show ?thesis using False by (simp add: body_def joined_def Let_def)
qed

lemma number_text_body:
  assumes "0 < c"
  shows "number_text (Number neg c e) = sign_text neg @ body c e"
proof -
  have "text_value (sign_text neg @ body c e) \<noteq> 0"
    using assms scale10_pos [of e] by (simp add: signed_value)
  moreover have "text_value '''' = 0" "text_value ''-0'' = 0" by code_simp+
  ultimately have "sign_text neg @ body c e \<notin> {'''', ''-0''}" by auto
  then show ?thesis using assms stripped_format [of neg c e] by (simp add: Let_def)
qed

lemma number_text_value: "text_value (number_text n) = number_value n"
proof (cases n)
  case (Number neg c e)
  show ?thesis
  proof (cases "c = 0")
    case True
    moreover have "text_value ''0'' = 0" by code_simp
    ultimately show ?thesis using Number by simp
  next
    case False
    then show ?thesis using Number number_text_body signed_value by simp
  qed
qed

lemma body_mult10: "0 < c \<Longrightarrow> body (10 * c) (e - 1) = body c e"
proof -
  assume c: "0 < c"
  consider (pos) "e \<ge> 1" | (zero) "e = 0" | (neg) "e < 0" by linarith
  then show ?thesis
  proof cases
    case pos
    then have "nat e = Suc (nat (e - 1))" by simp
    then show ?thesis using pos c by (simp add: body_def digits_mult10)
  next
    case zero
    have "rstrip (CHR ''0'') ''0'' = []" by code_simp
    moreover have "nat (- (-1)) = Suc 0" by simp
    moreover have "digits c \<noteq> []" by (rule digits_not_Nil)
    ultimately show ?thesis
      using zero c by (simp add: body_def whole_part_def fraction_part_def digits_mult10 joined_def)
  next
    case neg
    let ?k = "nat (- e)"
    have k: "nat (- (e - 1)) = Suc ?k" using neg by simp
    have "whole_part (10 * c) (Suc ?k) = whole_part c ?k"
      "fraction_part (10 * c) (Suc ?k) = fraction_part c ?k @ ''0''"
      using c by (simp_all add: whole_part_def fraction_part_def digits_mult10 Suc_diff_le)
    then show ?thesis using neg k by (simp add: body_def)
  qed
qed

lemma body_scaled: "0 < c \<Longrightarrow> body (c * 10 ^ k) (e - int k) = body c e"
proof (induction k)
  case (Suc k)
  have "c * 10 ^ Suc k = 10 * (c * 10 ^ k)" "e - int (Suc k) = (e - int k) - 1" by simp_all
  then have "body (c * 10 ^ Suc k) (e - int (Suc k)) = body (c * 10 ^ k) (e - int k)"
    using Suc.prems body_mult10 [of "c * 10 ^ k" "e - int k"] by (simp only:) simp
  then show ?case using Suc by simp
qed simp

lemma scale10_shift: "scale10 (e - int k) * 10 ^ k = scale10 e"
proof (induction k)
  case (Suc k)
  have "scale10 (e - int (Suc k)) * 10 = scale10 (e - int k)"
  proof (cases "e - int k \<ge> 1")
    case True
    then have "nat (e - int k) = Suc (nat (e - int (Suc k)))" by simp
    then show ?thesis using True by (simp add: scale10_def)
  next
    case False
    then have "nat (- (e - int (Suc k))) = Suc (nat (- (e - int k)))" by simp
    then show ?thesis using False by (simp add: scale10_def)
  qed
  then have "scale10 (e - int (Suc k)) * 10 * 10 ^ k = scale10 e" using Suc by simp
  then show ?case by (simp add: mult.assoc)
qed simp

lemma same_value_same_body:
  assumes "of_nat c * scale10 e = of_nat c' * scale10 e'" and "0 < c" and "0 < c'" and "e' \<le> e"
  shows "body c e = body c' e'"
proof -
  have k: "e' = e - int (nat (e - e'))" using assms(4) by simp
  define k where "k = nat (e - e')"
  note k = k [folded k_def]
  have "of_nat c * (scale10 e' * 10 ^ k) = of_nat c' * scale10 e'"
    using assms(1) scale10_shift [of e k] k by simp
  then have "(of_nat (c * 10 ^ k) :: rat) = of_nat c'" using scale10_pos [of e'] by simp
  then have "c * 10 ^ k = c'" by (simp only: of_nat_eq_iff)
  then show ?thesis using body_scaled [OF assms(2), of k e] k by simp
qed

lemma same_value_same_text:
  assumes "number_value m = number_value n"
  shows "number_text m = number_text n"
proof -
  obtain s c e where m: "m = Number s c e" by (cases m)
  obtain s' c' e' where n: "n = Number s' c' e'" by (cases n)
  show ?thesis
  proof (cases "c = 0 \<or> c' = 0")
    case True
    then have "c = 0 \<and> c' = 0" using assms m n scale10_pos [of e] scale10_pos [of e'] by (auto split: if_splits)
    then show ?thesis using m n by simp
  next
    case False
    have pos: "0 < of_nat c * scale10 e" "0 < of_nat c' * scale10 e'"
      using False scale10_pos by simp_all
    then have "s = s'" using assms m n by (auto split: if_splits)
    moreover from this have "of_nat c * scale10 e = of_nat c' * scale10 e'" using assms m n by (auto split: if_splits)
    then have "body c e = body c' e'"
      using same_value_same_body [of c e c' e'] same_value_same_body [of c' e' c e] False
      by (cases "e' \<le> e") simp_all
    ultimately show ?thesis using False m n number_text_body by simp
  qed
qed

section \<open>What a document says\<close>

text \<open>The value of a document: numbers by value, objects as maps in which the last of repeated keys
  wins. \<open>canon\<close> and \<open>decode\<close> go from values to identities and back; they serve the proof.\<close>

datatype jval =
    VNull
  | VBool bool
  | VNum rat
  | VStr string
  | VArr "jval list"
  | VObj "(string, jval) fmap"

fun sem :: "jsonb \<Rightarrow> jval" where
  "sem JbNull = VNull"
| "sem (JbBool b) = VBool b"
| "sem (JbNumber n) = VNum (number_value n)"
| "sem (JbString s) = VStr s"
| "sem (JbArray xs) = VArr (map sem xs)"
| "sem (JbObject ps) = VObj (fmap_of_list (rev (map (\<lambda>(k, v). (k, sem v)) ps)))"

definition fm_items :: "(string, 'a) fmap \<Rightarrow> (string \<times> 'a) list" where
  "fm_items m = map (\<lambda>k. (k, the (fmlookup m k))) (sorted_list_of_fset (fmdom m))"

primrec canon :: "jval \<Rightarrow> jsonb_ident" where
  "canon VNull = IdNull"
| "canon (VBool b) = IdBoolean b"
| "canon (VNum q) = IdNumber (number_text (SOME n. number_value n = q))"
| "canon (VStr s) = IdString s"
| "canon (VArr xs) = IdArray (map canon xs)"
| "canon (VObj m) = IdObject (fm_items (fmmap canon m))"

fun decode :: "jsonb_ident \<Rightarrow> jval" where
  "decode IdNull = VNull"
| "decode (IdBoolean b) = VBool b"
| "decode (IdNumber t) = VNum (text_value t)"
| "decode (IdString s) = VStr s"
| "decode (IdArray xs) = VArr (map decode xs)"
| "decode (IdObject ps) = VObj (fmap_of_list (map (\<lambda>(k, v). (k, decode v)) ps))"

lemma sorted_fset [simp]: "sorted (sorted_list_of_fset F)" "distinct (sorted_list_of_fset F)"
  by (simp_all add: sorted_list_of_fset.rep_eq)

lemma last_key_wins_props:
  "distinct (map fst (last_key_wins ps))" "map_of (last_key_wins ps) = map_of (rev ps)"
proof -
  have "distinct (map fst (foldl (\<lambda>d p. AList.update (fst p) (snd p) d) d ps)) \<and>
    map_of (foldl (\<lambda>d p. AList.update (fst p) (snd p) d) d ps) = map_of (rev ps @ d)"
    if "distinct (map fst d)" for d
    using that
  proof (induction ps arbitrary: d)
    case (Cons p ps)
    have "map_of (AList.update (fst p) (snd p) d) = (map_of d)(fst p \<mapsto> snd p)"
      by (rule update_conv')
    then show ?case
      using Cons.IH [of "AList.update (fst p) (snd p) d"] Cons.prems
      by (cases p) (simp add: distinct_update map_add_assoc [symmetric] map_of_append [symmetric] fun_eq_iff map_add_def split: option.split)
  qed simp
  from this [of "[]"] show "distinct (map fst (last_key_wins ps))"
    "map_of (last_key_wins ps) = map_of (rev ps)" by (simp_all add: last_key_wins_def)
qed

lemma update_map_snd:
  "map (\<lambda>(k, v). (k, f v)) (AList.update k v d) = AList.update k (f v) (map (\<lambda>(k, v). (k, f v)) d)"
  by (induction d) auto

lemma last_key_wins_map:
  "map (\<lambda>(k, v). (k, f v)) (last_key_wins ps) = last_key_wins (map (\<lambda>(k, v). (k, f v)) ps)"
proof -
  have "map (\<lambda>(k, v). (k, f v)) (foldl (\<lambda>d p. AList.update (fst p) (snd p) d) d ps) =
    foldl (\<lambda>d p. AList.update (fst p) (snd p) d) (map (\<lambda>(k, v). (k, f v)) d) (map (\<lambda>(k, v). (k, f v)) ps)" for d
    by (induction ps arbitrary: d) (auto simp: update_map_snd)
  then show ?thesis by (simp add: last_key_wins_def)
qed

lemma sorted_items_unique:
  assumes "distinct (map fst d)" and "map_of d = fmlookup m"
  shows "sort_key fst d = fm_items m"
proof (rule map_sorted_distinct_set_unique [where f = fst])
  have keys: "fst ` set d = fset (fmdom m)"
    using assms(2) dom_map_of_conv_image_fst [of d] by (simp add: fmdom.rep_eq fmlookup_dom_iff dom_def)
  have fst_items: "map fst (fm_items m) = sorted_list_of_fset (fmdom m)" by (simp add: fm_items_def comp_def)
  show "sorted (map fst (fm_items m))" "distinct (map fst (fm_items m))"
    unfolding fst_items by simp_all
  show "sorted (map fst (sort_key fst d))" "distinct (map fst (sort_key fst d))"
    using assms(1) by (simp_all add: distinct_map)
  show set: "set (sort_key fst d) = set (fm_items m)"
  proof (intro set_eqI)
    fix p :: "string \<times> 'a"
    obtain k v where p: "p = (k, v)" by force
    have "(k, v) \<in> set d \<longleftrightarrow> fmlookup m k = Some v"
      using map_of_eq_Some_iff [OF assms(1), of k v] assms(2) by simp
    then show "p \<in> set (sort_key fst d) \<longleftrightarrow> p \<in> set (fm_items m)"
      by (auto simp: p fm_items_def fmlookup_dom_iff)
  qed
  show "inj_on fst (set (sort_key fst d) \<union> set (fm_items m))"
    using assms(1) set [symmetric] by (simp add: distinct_map)
qed

lemma map_of_map_snd: "map_of (map (\<lambda>(k, v). (k, f v)) xs) = map_option f \<circ> map_of xs"
  by (induction xs) auto

lemma identity_object:
  "canonical_jsonb_identity (JbObject ps) =
     IdObject (fm_items (fmap_of_list (rev (map (\<lambda>(k, v). (k, canonical_jsonb_identity v)) ps))))"
proof -
  let ?qs = "map (\<lambda>(k, v). (k, canonical_jsonb_identity v)) ps"
  have "canonical_jsonb_identity (JbObject ps) = IdObject (sort_key fst (last_key_wins ?qs))"
    unfolding canonical_jsonb_identity_def jsonb_parse.simps jsonb_identity.simps last_key_wins_map map_map
    by (simp add: comp_def split_def)
  also have "sort_key fst (last_key_wins ?qs) = fm_items (fmap_of_list (rev ?qs))"
    using last_key_wins_props by (intro sorted_items_unique) (simp_all add: fmap_of_list.rep_eq)
  finally show ?thesis .
qed

lemma identity_canon: "canonical_jsonb_identity j = canon (sem j)"
proof (induction j)
  case (JbNumber n)
  have "number_value (SOME x. number_value x = number_value n) = number_value n"
    by (rule someI [where P = "\<lambda>x. number_value x = number_value n"]) simp
  from same_value_same_text [OF this] show ?case by (simp add: canonical_jsonb_identity_def)
next
  case (JbArray xs)
  then show ?case by (simp add: canonical_jsonb_identity_def)
next
  case (JbObject ps)
  have "fmmap canon (fmap_of_list (rev (map (\<lambda>(k, v). (k, sem v)) ps))) =
      fmap_of_list (map (\<lambda>(k, v). (k, canon v)) (rev (map (\<lambda>(k, v). (k, sem v)) ps)))"
    by (rule fmap_ext) (simp add: fmlookup_of_list map_of_map_snd)
  also have "map (\<lambda>(k, v). (k, canon v)) (rev (map (\<lambda>(k, v). (k, sem v)) ps)) =
      rev (map (\<lambda>(k, v). (k, canonical_jsonb_identity v)) ps)"
    using JbObject by (force simp: rev_map)
  finally show ?case by (simp add: identity_object)
qed (simp_all add: canonical_jsonb_identity_def)

lemma decode_items: "fmap_of_list (map (\<lambda>(k, v). (k, decode v)) (fm_items m)) = fmmap decode m"
proof (rule fmap_ext)
  fix k
  have "map_of (fm_items m) k = fmlookup m k"
  proof -
    have d: "distinct (map fst (fm_items m))" by (simp add: fm_items_def comp_def)
    show ?thesis
    proof (cases "fmlookup m k")
      case None
      then show ?thesis by (auto simp: map_of_eq_None_iff fm_items_def fmlookup_dom_iff)
    next
      case (Some v)
      then have "(k, v) \<in> set (fm_items m)" by (force simp: fm_items_def fmlookup_dom_iff)
      then show ?thesis using d Some by simp
    qed
  qed
  then show "fmlookup (fmap_of_list (map (\<lambda>(k, v). (k, decode v)) (fm_items m))) k = fmlookup (fmmap decode m) k"
    by (simp add: fmlookup_of_list map_of_map_snd)
qed

lemma decode_identity: "decode (canonical_jsonb_identity j) = sem j"
proof (induction j)
  case (JbNumber n)
  then show ?case by (simp add: canonical_jsonb_identity_def number_text_value)
next
  case (JbArray xs)
  then show ?case by (simp add: canonical_jsonb_identity_def)
next
  case (JbObject ps)
  have "fmmap decode (fmap_of_list (rev (map (\<lambda>(k, v). (k, canonical_jsonb_identity v)) ps))) =
      fmap_of_list (map (\<lambda>(k, v). (k, decode v)) (rev (map (\<lambda>(k, v). (k, canonical_jsonb_identity v)) ps)))"
    by (rule fmap_ext) (simp add: fmlookup_of_list map_of_map_snd)
  also have "map (\<lambda>(k, v). (k, decode v)) (rev (map (\<lambda>(k, v). (k, canonical_jsonb_identity v)) ps)) =
      rev (map (\<lambda>(k, v). (k, sem v)) ps)"
    using JbObject by (force simp: rev_map)
  finally show ?case by (simp add: identity_object decode_items)
qed (simp_all add: canonical_jsonb_identity_def)

section \<open>The properties\<close>

text \<open>
  The canonical text of a number is a round trip and canonical: reading it back gives the number's
  exact value, and two numbers have the same text exactly when they have the same value,
  whatever their scale, exponent or sign of zero.
\<close>

theorem number_text_round_trip:
  "text_value (number_text n) = number_value n \<and>
   (number_text m = number_text n \<longleftrightarrow> number_value m = number_value n)"
  using number_text_value same_value_same_text by metis

text \<open>
  C36: Two JSONB documents get the same identity exactly when they are equal as PostgreSQL compares
  them: key order, repeated keys and the spelling of numbers do not matter, everything else does.
\<close>

theorem jsonb_identity_is_semantic:
  "canonical_jsonb_identity x = canonical_jsonb_identity y \<longleftrightarrow> sem x = sem y"
  using identity_canon decode_identity by metis

definition utc_microseconds :: "zoned_time \<Rightarrow> int" where
  "utc_microseconds t =
     3600000000 * zt_hour t + 60000000 * zt_minute t + 1000000 * zt_second t + zt_microsecond t -
     (86400000000 * zt_offset_days t + 1000000 * zt_offset_seconds t + zt_offset_microseconds t)"

text \<open>
  The identity of a time with zone is a microsecond of the day, and two such times have the
  same identity exactly when they differ by whole days in UTC.
\<close>

theorem timetz_identity_in_day:
  "0 \<le> timetz_identity t \<and> timetz_identity t < day_microseconds \<and>
   (timetz_identity t = timetz_identity u \<longleftrightarrow> day_microseconds dvd utc_microseconds t - utc_microseconds u)"
proof -
  have "timetz_identity t = utc_microseconds t mod day_microseconds" for t
    by (simp add: timetz_identity_def utc_microseconds_def Let_def algebra_simps)
  then show ?thesis by (simp add: day_microseconds_def mod_eq_dvd_iff)
qed

end
