(* ===== verification/Text_Codec.thy ===== *)
theory Text_Codec
  imports Json_Text
begin

text \<open>
  What the event identities of \<open>src/cdc_flight/event_ledger.py\<close> and the order tokens of
  \<open>src/cdc_flight/scd2.py\<close> use of Python's text library: \<open>str.encode\<close> (UTF-8, for code points below
  256), \<open>base64.urlsafe_b64encode\<close> and \<open>base64.b64encode\<close>, \<open>str\<close> of an integer, the format
  \<open>020d\<close>, \<open>str.join\<close> with a dot, and \<open>json.dumps\<close> with \<open>sort_keys\<close> and without \<open>ensure_ascii\<close>.

  The lemmas: a component of an identity determines the text it encodes and has no dot, a
  dotted join of dot-free parts determines the parts, and zero-padded numbers are ordered like
  the numbers.
\<close>

section \<open>UTF-8 and base64\<close>

definition utf8_char :: "char \<Rightarrow> nat list" where
  "utf8_char c =
     (let n = of_char c in if n < 128 then [n] else [192 + n div 64, 128 + n mod 64])"

definition utf8 :: "string \<Rightarrow> nat list" where
  "utf8 s = concat (map utf8_char s)"

fun sextets :: "nat list \<Rightarrow> nat list" where
  "sextets [] = []"
| "sextets [a] = [a div 4, a mod 4 * 16]"
| "sextets [a, b] = [a div 4, a mod 4 * 16 + b div 16, b mod 16 * 4]"
| "sextets (a # b # c # r) =
     [a div 4, a mod 4 * 16 + b div 16, b mod 16 * 4 + c div 64, c mod 64] @ sextets r"

definition b64_char :: "string \<Rightarrow> nat \<Rightarrow> char" where
  "b64_char alt n =
     (''ABCDEFGHIJKLMNOPQRSTUVWXYZabcdefghijklmnopqrstuvwxyz0123456789'' @ alt) ! n"

definition b64encode :: "string \<Rightarrow> nat list \<Rightarrow> string" where
  "b64encode alt bs =
     map (b64_char alt) (sextets bs) @ replicate ((3 - length bs mod 3) mod 3) (CHR ''='')"

definition b64_component :: "string \<Rightarrow> string" where
  \<comment> \<open>\<open>base64.urlsafe_b64encode(text.encode()).decode().rstrip("=") or "_"\<close>\<close>
  "b64_component s =
     (let t = rstrip (CHR ''='') (b64encode ''-_'' (utf8 s)) in if t = [] then ''_'' else t)"

lemma mixed_radix:
  fixes q r :: nat
  assumes "q * m + r = q' * m + r'" and "r < m" and "r' < m"
  shows "q = q' \<and> r = r'"
  using assms by (metis add.commute add_left_cancel div_mult_self3 div_less add_0 less_nat_zero_code)

lemma div_mod_eq: "(a :: nat) div m = b div m \<Longrightarrow> a mod m = b mod m \<Longrightarrow> a = b"
  by (metis div_mult_mod_eq)

lemma sextets_inj:
  assumes "sextets xs = sextets ys" and "set xs \<subseteq> {..<256}" and "set ys \<subseteq> {..<256}"
  shows "xs = ys"
  using assms
proof (induction xs arbitrary: ys rule: sextets.induct)
  case 1
  then show ?case by (cases ys rule: sextets.cases) simp_all
next
  case (2 a)
  then show ?case by (cases ys rule: sextets.cases) (auto intro: div_mod_eq)
next
  case (3 a b)
  then obtain x y where ys: "ys = [x, y]" by (cases ys rule: sextets.cases) simp_all
  with 3 have "a div 4 = x div 4" "b mod 16 = y mod 16"
    and "a mod 4 * 16 + b div 16 = x mod 4 * 16 + y div 16" by simp_all
  moreover have "b div 16 < 16" "y div 16 < 16" using 3 ys by (simp_all add: less_mult_imp_div_less)
  ultimately show ?case using ys mixed_radix [of "a mod 4" 16 "b div 16" "x mod 4" "y div 16"]
    by (auto intro: div_mod_eq)
next
  case (4 a b c r)
  then obtain x y z s where ys: "ys = x # y # z # s" by (cases ys rule: sextets.cases) simp_all
  with 4 have e: "a div 4 = x div 4" "a mod 4 * 16 + b div 16 = x mod 4 * 16 + y div 16"
    "b mod 16 * 4 + c div 64 = y mod 16 * 4 + z div 64" "c mod 64 = z mod 64" "sextets r = sextets s"
    by simp_all
  have l: "b div 16 < 16" "y div 16 < 16" "c div 64 < 4" "z div 64 < 4" using 4 ys by (simp_all add: less_mult_imp_div_less)
  have "r = s" using 4 ys e(5) by simp
  moreover have "a mod 4 = x mod 4 \<and> b div 16 = y div 16" by (rule mixed_radix [OF e(2) l(1,2)])
  moreover have "b mod 16 = y mod 16 \<and> c div 64 = z div 64" by (rule mixed_radix [OF e(3) l(3,4)])
  ultimately show ?case using ys e(1,4) by (auto intro: div_mod_eq)
qed

lemma sextets_less: "set xs \<subseteq> {..<256} \<Longrightarrow> set (sextets xs) \<subseteq> {..<64}"
proof (induction xs rule: sextets.induct)
  case (3 a b)
  then have "b div 16 < 16" by (simp add: less_mult_imp_div_less)
  then show ?case using 3 by auto
next
  case (4 a b c r)
  then have "b div 16 < 16" "c div 64 < 4" by (simp_all add: less_mult_imp_div_less)
  then show ?case using 4 by auto
qed auto

lemma utf8_bytes: "set (utf8 s) \<subseteq> {..<256}"
proof -
  have "set (utf8_char c) \<subseteq> {..<256}" for c
  proof -
    have "(of_char c :: nat) < 256" by simp
    then have "(of_char c :: nat) div 64 < 4" by (simp add: less_mult_imp_div_less)
    then show ?thesis unfolding utf8_char_def Let_def by auto
  qed
  then show ?thesis unfolding utf8_def by auto
qed

lemma utf8_char_prefix:
  assumes "utf8_char c @ r = utf8_char d @ s" shows "c = d \<and> r = s"
proof -
  have "(of_char c :: nat) < 256" "(of_char d :: nat) < 256" by simp_all
  then have "(of_char c :: nat) = of_char d \<and> r = s"
    using assms div_mod_eq [of "of_char c" 64 "of_char d"]
    by (auto simp: utf8_char_def Let_def split: if_splits)
  then show ?thesis by simp
qed

lemma utf8_inj: "utf8 s = utf8 t \<Longrightarrow> s = t"
proof (induction s arbitrary: t)
  case Nil
  then show ?case by (cases t) (auto simp: utf8_def utf8_char_def Let_def split: if_splits)
next
  case (Cons c s)
  then obtain d u where t: "t = d # u"
    by (cases t) (auto simp: utf8_def utf8_char_def Let_def split: if_splits)
  from Cons.prems t have "utf8_char c @ utf8 s = utf8_char d @ utf8 u" by (simp add: utf8_def)
  from utf8_char_prefix [OF this] show ?case using t Cons.IH [of u] by simp
qed

text \<open>The alphabet has 64 different characters, and none of them is a pad or a dot.\<close>

lemma b64_alphabet:
  "list_all (\<lambda>i. b64_char ''-_'' i \<noteq> CHR ''='' \<and> b64_char ''-_'' i \<noteq> CHR ''.'') [0..<64]"
  "distinct (map (b64_char ''-_'') [0..<64])"
  by code_simp+

lemma b64_char_neq: "i < 64 \<Longrightarrow> b64_char ''-_'' i \<noteq> CHR ''='' \<and> b64_char ''-_'' i \<noteq> CHR ''.''"
  using b64_alphabet(1) by (simp add: list_all_iff)

lemma b64_char_inj: "inj_on (b64_char ''-_'') {..<64}"
  using b64_alphabet(2) by (simp add: distinct_map lessThan_atLeast0)

lemma rstrip_padding: "rstrip c (s @ replicate k c) = rstrip c s"
  by (induction k) (simp_all flip: replicate_append_same append_assoc)

lemma b64_unpadded:
  assumes "set bs \<subseteq> {..<256}"
  shows "rstrip (CHR ''='') (b64encode ''-_'' bs) = map (b64_char ''-_'') (sextets bs)"
proof -
  have "c \<noteq> CHR ''=''" if "c \<in> set (map (b64_char ''-_'') (sextets bs))" for c
    using that sextets_less [OF assms] b64_char_neq by fastforce
  then show ?thesis unfolding b64encode_def rstrip_padding by (metis last_in_set rstrip_stop)
qed

lemma sextets_length: "length (sextets bs) \<noteq> 1"
  by (cases bs rule: sextets.cases) simp_all

lemma b64_component_unfold:
  "b64_component s = (if s = [] then ''_'' else map (b64_char ''-_'') (sextets (utf8 s)))"
proof -
  have "sextets (utf8 s) = [] \<longleftrightarrow> s = []"
  proof
    assume "sextets (utf8 s) = []"
    then have "utf8 s = utf8 []" by (cases "utf8 s" rule: sextets.cases) (simp_all add: utf8_def)
    then show "s = []" by (rule utf8_inj)
  qed (simp add: utf8_def)
  then show ?thesis unfolding b64_component_def b64_unpadded [OF utf8_bytes] Let_def by simp
qed

lemma b64_component_inj: "b64_component s = b64_component t \<Longrightarrow> s = t"
proof -
  assume e: "b64_component s = b64_component t"
  show ?thesis
  proof (cases "s = [] \<or> t = []")
    case True
    then show ?thesis using arg_cong [OF e, of length] sextets_length [of "utf8 s"] sextets_length [of "utf8 t"]
      by (auto simp: b64_component_unfold split: if_splits)
  next
    case False
    then have "map (b64_char ''-_'') (sextets (utf8 s)) = map (b64_char ''-_'') (sextets (utf8 t))"
      using e by (simp add: b64_component_unfold)
    then have "sextets (utf8 s) = sextets (utf8 t)"
      by (rule map_inj_on) (rule inj_on_subset [OF b64_char_inj], use sextets_less [OF utf8_bytes] in blast)
    then show ?thesis using sextets_inj utf8_bytes utf8_inj by blast
  qed
qed

lemma b64_component_dot: "CHR ''.'' \<notin> set (b64_component s)"
proof (cases "s = []")
  case False
  then show ?thesis using sextets_less [OF utf8_bytes] b64_char_neq by (fastforce simp: b64_component_unfold)
qed (simp add: b64_component_unfold)

section \<open>Integers\<close>

text \<open>\<open>str(n)\<close> of an integer is the text that \<open>json.dumps\<close> writes; \<open>f"{n:020d}"\<close> pads it with zeros
  after the sign.\<close>

abbreviation str_int :: "int \<Rightarrow> string" where
  "str_int \<equiv> dumps_int"

definition zero_pad :: "nat \<Rightarrow> string \<Rightarrow> string" where
  "zero_pad w s = replicate (w - length s) (CHR ''0'') @ s"

definition format_0d :: "nat \<Rightarrow> int \<Rightarrow> string" where
  "format_0d w n =
     (if n < 0 then CHR ''-'' # zero_pad (w - 1) (digits (nat (- n))) else zero_pad w (digits (nat n)))"

lemma digits_inj: "digits m = digits n \<Longrightarrow> m = n"
  by (metis add_0 digits_number_digits mult_0)

lemma digits_no_minus: "digits m \<noteq> CHR ''-'' # s"
  using digit_string_minus [of "digits m"] by auto

lemma str_int_inj: "str_int m = str_int n \<Longrightarrow> m = n"
  using digits_no_minus [of "nat m"] digits_no_minus [of "nat n", symmetric]
  by (auto simp: dumps_int_def split: if_splits dest!: digits_inj)

lemma str_int_dot: "CHR ''.'' \<notin> set (str_int n)"
  using digit_string_dot [of "digits (nat n)"] digit_string_dot [of "digits (nat (- n))"]
  by (simp add: dumps_int_def)

section \<open>Dotted texts\<close>

fun dotted :: "string list \<Rightarrow> string" where
  \<comment> \<open>\<open>".".join(parts)\<close>\<close>
  "dotted [] = []"
| "dotted [x] = x"
| "dotted (x # y # r) = x @ CHR ''.'' # dotted (y # r)"

lemma dot_split:
  assumes "x @ CHR ''.'' # r = y @ CHR ''.'' # s" and "CHR ''.'' \<notin> set x" and "CHR ''.'' \<notin> set y"
  shows "x = y \<and> r = s"
proof -
  have *: "takeWhile (\<lambda>c. c \<noteq> CHR ''.'') (z @ CHR ''.'' # t) = z" if "CHR ''.'' \<notin> set z" for z t
    using that by (induction z) auto
  then have "x = y" using assms by metis
  then show ?thesis using assms(1) by simp
qed

lemma dotted_inj:
  assumes "dotted xs = dotted ys" and "length xs = length ys"
    and "\<forall>x \<in> set xs \<union> set ys. CHR ''.'' \<notin> set x"
  shows "xs = ys"
  using assms
proof (induction xs arbitrary: ys rule: dotted.induct)
  case (3 x y r)
  then obtain u v w where ys: "ys = u # v # w" by (cases ys rule: dotted.cases) simp_all
  then have e: "x = u \<and> dotted (y # r) = dotted (v # w)"
    using 3 by (intro dot_split) simp_all
  have "y # r = v # w" by (rule "3.IH") (use 3 ys e in simp_all)
  then show ?case using ys e by simp
next
  case (2 x)
  then show ?case by (cases ys rule: dotted.cases) simp_all
qed simp

section \<open>The order of padded numbers\<close>

lemma append_less_append:
  fixes x y :: "'a :: order list"
  assumes "length x = length y"
  shows "x @ r < y @ s \<longleftrightarrow> x < y \<or> x = y \<and> r < s"
  using assms by (induction x y rule: list_induct2) auto

lemma digits_number_bound:
  assumes "digit_string s"
  shows "a * 10 ^ length s \<le> digits_number a s \<and> digits_number a s < (a + 1) * 10 ^ length s"
  using assms
proof (induction s arbitrary: a)
  case (Cons c s)
  then obtain d where d: "d < 10" "c = digit_char d" by auto
  have "a * 10 \<le> 10 * a + d \<and> 10 * a + d + 1 \<le> (a + 1) * 10" using d(1) by simp
  then have "a * 10 * 10 ^ length s \<le> (10 * a + d) * 10 ^ length s"
    "(10 * a + d + 1) * 10 ^ length s \<le> (a + 1) * 10 * 10 ^ length s"
    by (meson mult_le_mono1)+
  moreover have "digits_number a (c # s) = digits_number (10 * a + d) s" using d by (simp add: of_digit_char)
  moreover have "(10 * a + d) * 10 ^ length s \<le> digits_number (10 * a + d) s \<and>
      digits_number (10 * a + d) s < (10 * a + d + 1) * 10 ^ length s"
    using Cons by simp
  ultimately show ?case unfolding list.size power_add power_Suc0_right by linarith
qed simp

lemma digits_number_mono:
  assumes "digit_string s" and "digit_string t" and "length s = length t" and "a < b"
  shows "digits_number a s < digits_number b t"
proof -
  have "digits_number a s < (a + 1) * 10 ^ length s" using digits_number_bound [OF assms(1)] by simp
  also have "\<dots> \<le> b * 10 ^ length s" using assms(4) by (intro mult_le_mono1) simp
  also have "\<dots> \<le> digits_number b t" using digits_number_bound [OF assms(2), of b] assms(3) by simp
  finally show ?thesis .
qed

lemma digit_string_order:
  assumes "length s = length t" and "digit_string s" and "digit_string t"
  shows "s < t \<longleftrightarrow> digits_number a s < digits_number a t"
  using assms
proof (induction s t arbitrary: a rule: list_induct2)
  case (Cons c s d t)
  then obtain i j where i: "i < 10" "c = digit_char i" and j: "j < 10" "d = digit_char j" by auto
  have "c < d \<longleftrightarrow> i < j" unfolding i(2) j(2) less_char_def of_digit_char [OF i(1)] of_digit_char [OF j(1)] by simp
  moreover have "c = d \<longleftrightarrow> i = j" using i j by (metis add_left_imp_eq of_digit_char)
  ultimately have order: "c < d \<longleftrightarrow> i < j" "c = d \<longleftrightarrow> i = j" .
  have n: "digits_number a (c # s) = digits_number (10 * a + i) s"
    "digits_number a (d # t) = digits_number (10 * a + j) t"
    unfolding i(2) j(2) digits_number.simps of_digit_char [OF i(1)] of_digit_char [OF j(1)] by simp_all
  consider "i < j" | "i = j" | "j < i" by linarith
  then show ?case
  proof cases
    case 1
    then have "digits_number (10 * a + i) s < digits_number (10 * a + j) t"
      by (intro digits_number_mono) (use Cons in simp_all)
    then show ?thesis using 1 order(1) by (simp only: n Cons_less_Cons simp_thms)
  next
    case 2
    then have "s < t \<longleftrightarrow> digits_number (10 * a + i) s < digits_number (10 * a + j) t"
      using Cons.IH [of "10 * a + i"] Cons.prems by simp
    then show ?thesis using 2 order unfolding n Cons_less_Cons by simp
  next
    case 3
    then have "digits_number (10 * a + j) t < digits_number (10 * a + i) s"
      by (intro digits_number_mono) (use Cons in simp_all)
    then show ?thesis using 3 order unfolding n Cons_less_Cons by linarith
  qed
qed simp

lemma digits_length: "n < 10 ^ w \<Longrightarrow> 0 < w \<Longrightarrow> length (digits n) \<le> w"
proof (induction n arbitrary: w rule: digits.induct)
  case (1 n)
  show ?case
  proof (cases "n < 10")
    case False
    with "1.prems" obtain v where v: "w = Suc v" "0 < v" by (cases w; cases "w - 1") auto
    then have "n div 10 < 10 ^ v" using "1.prems" by (simp add: less_mult_imp_div_less mult.commute)
    then show ?thesis using "1.IH" [OF False] v False by (simp add: digits.simps [of n])
  qed (use 1 in \<open>simp add: digits.simps [of n]\<close>)
qed

lemma format_0d_spec:
  assumes "0 \<le> n" and "n < 10 ^ w" and "0 < w"
  shows "length (format_0d w n) = w" and "digit_string (format_0d w n)"
    and "digits_number 0 (format_0d w n) = nat n"
proof -
  have "nat n < 10 ^ w" using assms(1,2) by (simp add: nat_less_iff)
  then have "length (digits (nat n)) \<le> w" using assms(3) by (rule digits_length)
  then show "length (format_0d w n) = w" using assms(1) by (simp add: format_0d_def zero_pad_def)
  show "digit_string (format_0d w n)" using assms(1) by (simp add: format_0d_def zero_pad_def)
  show "digits_number 0 (format_0d w n) = nat n"
    using assms(1) by (simp add: format_0d_def zero_pad_def digits_number_append digits_number_zeros digits_number_digits)
qed

lemma format_0d_less:
  assumes "0 \<le> m" "m < 10 ^ w" "0 \<le> n" "n < 10 ^ w" "0 < w"
  shows "format_0d w m < format_0d w n \<longleftrightarrow> m < n" and "format_0d w m = format_0d w n \<longleftrightarrow> m = n"
  using assms digit_string_order [of "format_0d w m" "format_0d w n" 0]
    format_0d_spec [of m w] format_0d_spec [of n w]
  by (auto simp: nat_less_eq_zless)

section \<open>Canonical JSON text\<close>

text \<open>\<open>json.dumps(value, sort_keys=True, separators=(",", ":"), ensure_ascii=False)\<close>.\<close>

definition escape_raw :: "char \<Rightarrow> string" where
  "escape_raw c = (if (of_char c :: nat) \<ge> 127 then [c] else escape_char c)"

definition dumps_raw_str :: "string \<Rightarrow> string" where
  "dumps_raw_str s = CHR 0x22 # concat (map escape_raw s) @ [CHR 0x22]"

fun dumps_raw :: "json \<Rightarrow> string" where
  "dumps_raw (JStr s) = dumps_raw_str s"
| "dumps_raw (JArr xs) = CHR ''['' # commas (map dumps_raw xs) @ '']''"
| "dumps_raw (JObj ps) =
     CHR ''{'' # commas (map snd (sort_key fst
        (map (\<lambda>(k, v). (k, dumps_raw_str k @ CHR '':'' # dumps_raw v)) ps))) @ ''}''"
| "dumps_raw v = dumps v"

end
