(* ===== verification/Event_Ledger.thy ===== *)
theory Event_Ledger
  imports Text_Codec
begin

text \<open>
  The event identities and the event ledger: \<open>src/cdc_flight/event_ledger.py\<close> (canonical JSON,
  digests, \<open>identity_for\<close>, \<open>message_identity_for\<close>, \<open>assert_same_identity\<close>) and, of
  \<open>src/cdc_flight/destination.py\<close>, \<open>read_event_ledger\<close>, \<open>claim_event_ledger\<close> and the batched
  claims of one plan, \<open>EventLedgerBatch\<close>.

  The ledger is the list of its rows in insertion order. SHA-256 and the fingerprints of the column
  descriptors of an event are arguments. The images of an event hold JSON values, for which
  \<open>_jsonable\<close> only rewrites dictionaries.

  The results: an identifier made of source facts determines these facts, the claims of a batch
  with its caches and its one bulk insert give exactly the answers, errors and rows of claims made
  one by one, and a replay of claimed events is recognised and writes nothing.
\<close>

section \<open>Canonical JSON and digests\<close>

definition digest_mapping :: "(string \<times> json) list \<Rightarrow> json" where
  \<comment> \<open>\<open>{"__mapping__": sorted(pairs, key=lambda pair: canonical_json(pair[0]))}\<close>\<close>
  "digest_mapping pairs =
     JObj [(''__mapping__'',
            JArr (map (\<lambda>(k, v). JArr [JStr k, v]) (sort_key (\<lambda>(k, _). dumps_raw (JStr k)) pairs)))]"

fun jsonable :: "json \<Rightarrow> json" where
  "jsonable (JArr xs) = JArr (map jsonable xs)"
| "jsonable (JObj ps) = digest_mapping (map (\<lambda>(k, v). (k, jsonable v)) ps)"
| "jsonable v = v"

definition canonical_json :: "json \<Rightarrow> string" where
  "canonical_json v = dumps_raw (jsonable v)"

definition json_object_of :: "json_object option \<Rightarrow> json" where
  "json_object_of d = (case d of None \<Rightarrow> JNull | Some ps \<Rightarrow> JObj ps)"

definition json_str_of :: "string option \<Rightarrow> json" where
  "json_str_of s = (case s of None \<Rightarrow> JNull | Some t \<Rightarrow> JStr t)"

definition json_bytes :: "string option \<Rightarrow> json" where
  \<comment> \<open>\<open>_jsonable\<close> of a byte string\<close>
  "json_bytes s =
     (case s of None \<Rightarrow> JNull | Some bs \<Rightarrow> JObj [(''__bytes__'', JStr (b64encode ''+/'' (map of_char bs)))])"

record digest_env =
  de_sha256 :: "nat list \<Rightarrow> string"
  de_key_descriptors :: "pending_record \<Rightarrow> (string, string) dict"
  de_before_descriptors :: "pending_record \<Rightarrow> (string, string) dict"
  de_after_descriptors :: "pending_record \<Rightarrow> (string, string) dict"

definition descriptor_group :: "(string, string) dict \<Rightarrow> json" where
  "descriptor_group d = digest_mapping (map (\<lambda>(c, f). (c, JStr f)) (sort_key fst d))"

definition payload_digest :: "digest_env \<Rightarrow> pending_record \<Rightarrow> string" where
  "payload_digest env ev =
     (let descriptors = digest_mapping
            [(''key_descriptors'', descriptor_group (de_key_descriptors env ev)),
             (''before_descriptors'', descriptor_group (de_before_descriptors env ev)),
             (''after_descriptors'', descriptor_group (de_after_descriptors env ev))];
          material =
            [(''operation'', json_str_of (pr_op ev)),
             (''key'', jsonable (json_object_of (pr_key ev))),
             (''before'', jsonable (json_object_of (pr_before ev))),
             (''after'', jsonable (json_object_of (pr_after ev))),
             (''descriptors'', descriptors),
             (''snapshot_identity'', json_str_of (pr_snapshot_identity ev))] @
            (if pr_kind ev = KIND_MESSAGE then
               [(''message_prefix'', json_str_of (pr_message_prefix ev)),
                (''message_content'', json_bytes (pr_message_content ev)),
                (''message_transactional'',
                   case pr_message_transactional ev of None \<Rightarrow> JNull | Some b \<Rightarrow> JBool b)]
             else [])
      in de_sha256 env (utf8 (dumps_raw (digest_mapping material))))"

definition key_guard_digest :: "digest_env \<Rightarrow> json_object option \<Rightarrow> string option" where
  "key_guard_digest env key =
     map_option (\<lambda>k. de_sha256 env (utf8 (canonical_json (JObj k)))) key"

section \<open>Identities\<close>

record ledger_facts =
  lf_operation :: "string option"
  lf_payload_digest :: string
  lf_source_schema :: "string option"
  lf_source_table :: "string option"
  lf_source_cluster_id :: "string option"
  lf_source_timeline :: "int option"
  lf_relation_generation :: "string option"
  lf_txn_id :: "string option"
  lf_commit_lsn :: "int option"
  lf_source_lsn :: "int option"
  lf_total_order :: "int option"
  lf_key_guard_digest :: "string option"
  lf_policy_epoch :: int
  lf_snapshot_epoch :: "int option"
  lf_policy_digest :: "string option"
  lf_delete_mode :: "string option"

record event_identity =
  ei_event_id :: string
  ei_facts :: ledger_facts
  ei_strong :: bool

definition ledger_eligible :: "event_identity \<Rightarrow> bool" where
  "ledger_eligible i \<longleftrightarrow> ei_strong i \<or> lf_snapshot_epoch (ei_facts i) \<noteq> None"

datatype ledger_error =
    MissingIdentityFacts
  | IdentityCollision string
  | PrimaryKeyConflict

record identity_args =
  ia_event_id :: "string option"
  ia_source_cluster_id :: "string option"
  ia_source_timeline :: "int option"
  ia_relation_generation :: "string option"
  ia_commit_lsn :: "int option"
  ia_policy_epoch :: "int option"
  ia_require_strong :: bool
  ia_digest :: "string option"

definition opt_or :: "'a option \<Rightarrow> 'a option \<Rightarrow> 'a option" where
  \<comment> \<open>\<open>x if x is not None else y\<close>\<close>
  "opt_or x y = (case x of None \<Rightarrow> y | Some _ \<Rightarrow> x)"

definition str_or :: "string option \<Rightarrow> string \<Rightarrow> string" where
  "str_or x d = (case x of None \<Rightarrow> d | Some s \<Rightarrow> if s = [] then d else s)"

definition str_opt_int :: "int option \<Rightarrow> string" where
  "str_opt_int x = (case x of None \<Rightarrow> ''None'' | Some n \<Rightarrow> str_int n)"

definition snapshot_epoch_of :: "string \<Rightarrow> int" where
  \<comment> \<open>the second part of \<open>snap:<epoch>:...\<close>, 0 when there is none\<close>
  "snapshot_epoch_of s =
     (if take 5 s = ''snap:'' then
        (case int_of_text (takeWhile (\<lambda>c. c \<noteq> CHR '':'') (drop 5 s)) of None \<Rightarrow> 0 | Some n \<Rightarrow> n)
      else 0)"

definition snapshot_id :: "identity_args \<Rightarrow> pending_record \<Rightarrow> string option" where
  "snapshot_id a ev =
     (if pr_snapshot_identity ev = None \<and>
         (pr_incremental ev \<or> truthy_str (pr_snapshot ev) \<or>
          take 5 (str_or (ia_event_id a) []) = ''snap:'')
      then ia_event_id a else pr_snapshot_identity ev)"

definition strong_event_id ::
  "string \<Rightarrow> int \<Rightarrow> string \<Rightarrow> string \<Rightarrow> int \<Rightarrow> int \<Rightarrow> string" where
  "strong_event_id cluster timeline generation txn commit order =
     dotted [''v2'', b64_component cluster, str_int timeline, b64_component generation,
       b64_component txn, str_int commit, str_int order]"

definition identity_for ::
  "digest_env \<Rightarrow> identity_args \<Rightarrow> pending_record \<Rightarrow> ledger_error + event_identity" where
  "identity_for env a ev =
     (let sid = snapshot_id a ev;
          snap = truthy_str sid;
          snapshot_epoch =
            (if snap then Some (if pr_incremental ev then 0 else snapshot_epoch_of (the sid)) else None);
          supplied = (if snap then sid else ia_event_id a);
          cluster = opt_or (ia_source_cluster_id a) (pr_source_cluster_id ev);
          timeline = opt_or (ia_source_timeline a) (pr_source_timeline ev);
          generation = opt_or (ia_relation_generation a) (pr_relation_generation ev);
          txn = pr_txn_id ev;
          commit = opt_or (ia_commit_lsn a) (pr_commit_lsn ev);
          order = py_int (pr_total_order ev);
          epoch = (case ia_policy_epoch a of Some e \<Rightarrow> e | None \<Rightarrow> pr_policy_epoch ev);
          strong = (truthy_str cluster \<and> timeline \<noteq> None \<and> truthy_str generation \<and>
                    truthy_str txn \<and> commit \<noteq> None \<and> order \<noteq> None);
          stable =
            (case supplied of
               Some s \<Rightarrow> s
             | None \<Rightarrow>
                 if strong then
                   strong_event_id (the cluster) (the timeline) (the generation) (the txn) (the commit) (the order)
                 else str_opt_int (pr_lsn ev) @ '':'' @ (case txn of None \<Rightarrow> ''None'' | Some t \<Rightarrow> t) @ '':'' @
                      str_opt_int order)
      in if ia_require_strong a \<and> \<not> (strong \<or> snap) then Inl MissingIdentityFacts
         else Inr
           \<lparr>ei_event_id = stable,
            ei_facts =
              \<lparr>lf_operation = pr_op ev,
               lf_payload_digest = str_or (ia_digest a) (payload_digest env ev),
               lf_source_schema = pr_schema ev, lf_source_table = pr_table ev,
               lf_source_cluster_id = cluster, lf_source_timeline = timeline,
               lf_relation_generation = generation, lf_txn_id = txn, lf_commit_lsn = commit,
               lf_source_lsn = pr_lsn ev, lf_total_order = order,
               lf_key_guard_digest = key_guard_digest env (pr_key ev),
               lf_policy_epoch = epoch, lf_snapshot_epoch = snapshot_epoch,
               lf_policy_digest = pr_policy_digest ev, lf_delete_mode = pr_delete_mode ev\<rparr>,
            ei_strong = strong\<rparr>)"

definition message_components ::
  "string \<Rightarrow> int \<Rightarrow> bool \<Rightarrow> string option \<Rightarrow> int option \<Rightarrow> int option \<Rightarrow> string option \<Rightarrow> string list" where
  "message_components cluster timeline transactional txn order cursor sequence =
     [''message-v1'', b64_component cluster, str_int timeline] @
     (if transactional then [''tx'', b64_component (the txn), str_int (the order), str_int (the cursor)]
      else case cursor of
             Some l \<Rightarrow> [''lsn'', str_int l]
           | None \<Rightarrow> [''sequence'', b64_component (the sequence)])"

text \<open>After its refusals the facts of a message are complete, so its identity is strong and the spelling
  for unscoped adapters is not reached.\<close>

definition message_identity_for ::
  "digest_env \<Rightarrow> identity_args \<Rightarrow> pending_record \<Rightarrow> ledger_error + event_identity" where
  "message_identity_for env a ev =
     (let cluster = opt_or (ia_source_cluster_id a) (pr_source_cluster_id ev);
          timeline = opt_or (ia_source_timeline a) (pr_source_timeline ev);
          source_lsn = pr_lsn ev;
          commit = opt_or (ia_commit_lsn a) (pr_commit_lsn ev);
          txn = pr_txn_id ev;
          order = py_int (pr_total_order ev);
          sequence = pr_source_sequence ev;
          transactional =
            (case pr_message_transactional ev of Some b \<Rightarrow> b | None \<Rightarrow> txn \<noteq> None \<or> order \<noteq> None);
          cursor = opt_or source_lsn commit;
          missing =
            (if transactional then
               \<not> (truthy_str cluster \<and> timeline \<noteq> None \<and> truthy_str txn \<and> order \<noteq> None \<and> cursor \<noteq> None)
             else (cursor = None \<and> \<not> truthy_str sequence) \<or> \<not> truthy_str cluster \<or> timeline = None)
      in if missing then Inl MissingIdentityFacts
         else Inr
           \<lparr>ei_event_id =
              (case ia_event_id a of
                 Some s \<Rightarrow> s
               | None \<Rightarrow> dotted (message_components (the cluster) (the timeline) transactional txn order
                                   cursor sequence)),
            ei_facts =
              \<lparr>lf_operation = Some ''m'',
               lf_payload_digest = str_or (ia_digest a) (payload_digest env ev),
               lf_source_schema = None, lf_source_table = None,
               lf_source_cluster_id = cluster, lf_source_timeline = timeline,
               lf_relation_generation = None, lf_txn_id = txn, lf_commit_lsn = commit,
               lf_source_lsn = source_lsn, lf_total_order = order,
               lf_key_guard_digest = None,
               lf_policy_epoch = (case ia_policy_epoch a of Some e \<Rightarrow> e | None \<Rightarrow> pr_policy_epoch ev),
               lf_snapshot_epoch = None,
               lf_policy_digest = pr_policy_digest ev, lf_delete_mode = None\<rparr>,
            ei_strong = True\<rparr>)"

section \<open>The ledger\<close>

record ledger_row =
  le_pipeline :: string
  le_target_table :: string
  le_event_id :: string
  le_state :: string
  le_facts :: ledger_facts
  le_applied_at :: int

type_synonym ledger = "ledger_row list"

definition identity_checks :: "ledger_facts \<Rightarrow> ledger_facts \<Rightarrow> (string \<times> bool) list" where
  "identity_checks observed expected =
     [(''operation'', lf_operation observed = lf_operation expected),
      (''payload_digest'', lf_payload_digest observed = lf_payload_digest expected),
      (''source_schema'', lf_source_schema observed = lf_source_schema expected),
      (''source_table'', lf_source_table observed = lf_source_table expected),
      (''source_cluster_id'', lf_source_cluster_id observed = lf_source_cluster_id expected),
      (''source_timeline'', lf_source_timeline observed = lf_source_timeline expected),
      (''relation_generation'', lf_relation_generation observed = lf_relation_generation expected),
      (''txn_id'', lf_txn_id observed = lf_txn_id expected),
      (''commit_lsn'', lf_commit_lsn observed = lf_commit_lsn expected),
      (''source_lsn'', lf_source_lsn observed = lf_source_lsn expected),
      (''total_order'', lf_total_order observed = lf_total_order expected),
      (''key_guard_digest'', lf_key_guard_digest observed = lf_key_guard_digest expected),
      (''policy_epoch'', lf_policy_epoch observed = lf_policy_epoch expected),
      (''snapshot_epoch'', lf_snapshot_epoch observed = lf_snapshot_epoch expected),
      (''policy_digest'', lf_policy_digest observed = lf_policy_digest expected),
      (''delete_mode'', lf_delete_mode observed = lf_delete_mode expected)]"

definition assert_same_identity :: "ledger_facts \<Rightarrow> event_identity \<Rightarrow> ledger_error + unit" where
  "assert_same_identity existing i =
     (case find (\<lambda>(_, same). \<not> same) (identity_checks existing (ei_facts i)) of
        Some (name, _) \<Rightarrow> Inl (IdentityCollision name)
      | None \<Rightarrow> Inr ())"

definition read_event_ledger :: "ledger \<Rightarrow> string \<Rightarrow> string \<Rightarrow> string \<Rightarrow> ledger_row option" where
  "read_event_ledger led p t e =
     find (\<lambda>r. le_pipeline r = p \<and> le_target_table r = t \<and> le_event_id r = e) led"

text \<open>The arguments of one claim; \<open>cl_now\<close> is the clock when it is made.\<close>

record ledger_claim =
  cl_identity :: event_identity
  cl_target_table :: string
  cl_source_lsn :: "int option"
  cl_snapshot :: bool
  cl_state :: string
  cl_now :: int

definition applied_state :: "string \<Rightarrow> bool" where
  "applied_state s \<longleftrightarrow> s \<in> {''applied'', ''internal'', ''replayed''}"

definition pending_row :: "string \<Rightarrow> ledger_claim \<Rightarrow> ledger_row" where
  "pending_row p c =
     \<lparr>le_pipeline = p, le_target_table = cl_target_table c, le_event_id = ei_event_id (cl_identity c),
      le_state = cl_state c, le_facts = (ei_facts (cl_identity c))\<lparr>lf_source_lsn := cl_source_lsn c\<rparr>,
      le_applied_at = cl_now c\<rparr>"

definition claim_event_ledger :: "string \<Rightarrow> ledger_claim \<Rightarrow> ledger \<Rightarrow> ledger_error + (bool \<times> ledger)" where
  \<comment> \<open>\<open>claim_event_ledger\<close> without a batch\<close>
  "claim_event_ledger p c led =
     (case read_event_ledger led p (cl_target_table c) (ei_event_id (cl_identity c)) of
        Some r \<Rightarrow>
          rbind (assert_same_identity (le_facts r) (cl_identity c)) (\<lambda>_. Inr (applied_state (le_state r), led))
      | None \<Rightarrow> Inr (False, led @ [pending_row p c]))"

section \<open>The batched ledger of one plan\<close>

record ledger_batch =
  lb_pipeline :: string
  lb_known :: "(string \<times> string, ledger_facts \<times> string) dict"
  lb_loaded_targets :: "string list"
  lb_loaded_transactions :: "(string \<times> string) list"
  lb_pending :: "ledger_row list"

definition new_ledger_batch :: "string \<Rightarrow> ledger_batch" where
  "new_ledger_batch p =
     \<lparr>lb_pipeline = p, lb_known = [], lb_loaded_targets = [], lb_loaded_transactions = [], lb_pending = []\<rparr>"

definition remember_rows :: "ledger_row list \<Rightarrow> ledger_batch \<Rightarrow> ledger_batch" where
  \<comment> \<open>the loop that stores fetched rows in \<open>_known\<close>\<close>
  "remember_rows rows b =
     b\<lparr>lb_known := foldl (\<lambda>k r. AList.update (le_target_table r, le_event_id r) (le_facts r, le_state r) k)
        (lb_known b) rows\<rparr>"

definition load_target :: "ledger \<Rightarrow> string \<Rightarrow> ledger_batch \<Rightarrow> ledger_batch" where
  "load_target led t b =
     (if t \<in> set (lb_loaded_targets b) then b
      else (remember_rows (filter (\<lambda>r. le_pipeline r = lb_pipeline b \<and> le_target_table r = t) led) b)
             \<lparr>lb_loaded_targets := List.insert t (lb_loaded_targets b)\<rparr>)"

definition select_transactions :: "ledger \<Rightarrow> string \<Rightarrow> string \<Rightarrow> string list \<Rightarrow> ledger_row list" where
  \<comment> \<open>\<open>WHERE pipeline = ? AND target_table = ? AND txn_id IN (...)\<close>\<close>
  "select_transactions led p t txns =
     filter (\<lambda>r. le_pipeline r = p \<and> le_target_table r = t \<and>
                 (case lf_txn_id (le_facts r) of None \<Rightarrow> False | Some x \<Rightarrow> x \<in> set txns)) led"

definition load_transactions :: "ledger \<Rightarrow> string \<Rightarrow> string list \<Rightarrow> ledger_batch \<Rightarrow> ledger_batch" where
  "load_transactions led t txns b =
     (remember_rows (select_transactions led (lb_pipeline b) t txns) b)
       \<lparr>lb_loaded_transactions := foldl (\<lambda>l x. List.insert (t, x) l) (lb_loaded_transactions b) txns\<rparr>"

definition load_transaction :: "ledger \<Rightarrow> string \<Rightarrow> string \<Rightarrow> ledger_batch \<Rightarrow> ledger_batch" where
  "load_transaction led t txn b =
     (if (t, txn) \<in> set (lb_loaded_transactions b) then b else load_transactions led t [txn] b)"

fun chunks :: "nat \<Rightarrow> 'a list \<Rightarrow> 'a list list" where
  "chunks n [] = []"
| "chunks n (x # xs) = (x # take (n - 1) xs) # chunks n (drop (n - 1) xs)"

definition group_pairs :: "(string \<times> string) list \<Rightarrow> (string, string list) dict" where
  "group_pairs pairs =
     foldl (\<lambda>g (t, x). AList.update t (List.insert x (dict_get g t [])) g) [] pairs"

definition prefetch_transactions :: "ledger \<Rightarrow> (string \<times> string) list \<Rightarrow> ledger_batch \<Rightarrow> ledger_batch" where
  "prefetch_transactions led pairs b0 =
     foldl (\<lambda>b (t, txns).
        let pending = sort (filter (\<lambda>x. (t, x) \<notin> set (lb_loaded_transactions b)) txns)
        in foldl (\<lambda>b batch. load_transactions led t batch b) b (chunks 1024 pending))
       b0 (group_pairs pairs)"

definition load_for :: "ledger \<Rightarrow> ledger_claim \<Rightarrow> ledger_batch \<Rightarrow> ledger_batch" where
  "load_for led c b =
     (if cl_snapshot c then load_target led (cl_target_table c) b
      else case lf_txn_id (ei_facts (cl_identity c)) of
             None \<Rightarrow> b | Some x \<Rightarrow> load_transaction led (cl_target_table c) x b)"

definition batch_claim :: "ledger \<Rightarrow> ledger_batch \<Rightarrow> ledger_claim \<Rightarrow> ledger_error + (bool \<times> ledger_batch)" where
  "batch_claim led b0 c =
     (let i = cl_identity c;
          t = cl_target_table c;
          key = (t, ei_event_id i);
          b = load_for led c b0
      in case map_of (lb_known b) key of
           Some (facts, state) \<Rightarrow> rbind (assert_same_identity facts i) (\<lambda>_. Inr (applied_state state, b))
         | None \<Rightarrow>
             (case (if \<not> cl_snapshot c \<and> lf_txn_id (ei_facts i) = None
                    then read_event_ledger led (lb_pipeline b) t (ei_event_id i) else None) of
                Some r \<Rightarrow>
                  rbind (assert_same_identity (le_facts r) i)
                    (\<lambda>_. Inr (applied_state (le_state r),
                              b\<lparr>lb_known := AList.update key (le_facts r, le_state r) (lb_known b)\<rparr>))
              | None \<Rightarrow>
                  Inr (False,
                       b\<lparr>lb_known := AList.update key (ei_facts i, cl_state c) (lb_known b),
                         lb_pending := lb_pending b @ [pending_row (lb_pipeline b) c]\<rparr>)))"

definition insert_row :: "ledger \<Rightarrow> ledger_row \<Rightarrow> ledger_error + ledger" where
  "insert_row led r =
     (if read_event_ledger led (le_pipeline r) (le_target_table r) (le_event_id r) \<noteq> None
      then Inl PrimaryKeyConflict else Inr (led @ [r]))"

definition batch_flush :: "ledger \<Rightarrow> ledger_batch \<Rightarrow> ledger_error + ledger" where
  "batch_flush led b = rfold insert_row led (lb_pending b)"

text \<open>A plan: claims in the order of its events, until one raises.\<close>

definition batch_step ::
  "ledger \<Rightarrow> bool list \<times> ledger_batch \<Rightarrow> ledger_claim \<Rightarrow> ledger_error + (bool list \<times> ledger_batch)" where
  "batch_step led s c = rbind (batch_claim led (snd s) c) (\<lambda>(r, b). Inr (fst s @ [r], b))"

definition direct_step ::
  "string \<Rightarrow> bool list \<times> ledger \<Rightarrow> ledger_claim \<Rightarrow> ledger_error + (bool list \<times> ledger)" where
  "direct_step p s c = rbind (claim_event_ledger p c (snd s)) (\<lambda>(r, l). Inr (fst s @ [r], l))"

definition claims_batched ::
  "ledger \<Rightarrow> ledger_batch \<Rightarrow> ledger_claim list \<Rightarrow> ledger_error + (bool list \<times> ledger_batch)" where
  "claims_batched led b cs =
     rfold (batch_step led) ([], b) cs"

definition claims_direct :: "string \<Rightarrow> ledger \<Rightarrow> ledger_claim list \<Rightarrow> ledger_error + (bool list \<times> ledger)" where
  "claims_direct p led cs =
     rfold (direct_step p) ([], led) cs"

section \<open>Identifiers determine the source facts\<close>

lemma strong_event_id_inj:
  assumes "strong_event_id c tm g x l n = strong_event_id c' tm' g' x' l' n'"
  shows "c = c' \<and> tm = tm' \<and> g = g' \<and> x = x' \<and> l = l' \<and> n = n'"
proof -
  have "[''v2'', b64_component c, str_int tm, b64_component g, b64_component x, str_int l, str_int n] =
    [''v2'', b64_component c', str_int tm', b64_component g', b64_component x', str_int l', str_int n']"
    by (rule dotted_inj) (use assms b64_component_dot str_int_dot in \<open>simp_all add: strong_event_id_def\<close>)
  then show ?thesis using b64_component_inj str_int_inj by auto
qed

lemma strong_event_id_head: "take 5 (strong_event_id c tm g x l n) \<noteq> ''snap:''"
  by (simp add: strong_event_id_def)

section \<open>The batch is a faithful cache\<close>

lemma find_append: "find P (xs @ ys) = (case find P xs of None \<Rightarrow> find P ys | Some x \<Rightarrow> Some x)"
  by (induction xs) simp_all

definition row_key :: "ledger_row \<Rightarrow> string \<times> string \<times> string" where
  "row_key r = (le_pipeline r, le_target_table r, le_event_id r)"

lemma read_SomeD:
  assumes "read_event_ledger led p t e = Some r"
  shows "r \<in> set led \<and> row_key r = (p, t, e)"
  using assms nth_mem unfolding read_event_ledger_def find_Some_iff row_key_def by fastforce

lemma read_unique:
  assumes "distinct (map row_key led)" and "r \<in> set led" and "row_key r = (p, t, e)"
  shows "read_event_ledger led p t e = Some r"
proof -
  have "read_event_ledger led p t e \<noteq> None"
    using assms(2,3) by (auto simp: read_event_ledger_def find_None_iff row_key_def)
  then obtain r' where r': "read_event_ledger led p t e = Some r'" by blast
  then have "r' = r" using assms read_SomeD by (metis distinct_map inj_onD)
  then show ?thesis using r' by simp
qed

lemma read_None: "read_event_ledger led p t e = None \<longleftrightarrow> (p, t, e) \<notin> row_key ` set led"
  by (auto simp: read_event_ledger_def find_None_iff row_key_def image_iff)

text \<open>
  What the caches of a batch mean. A known identity is that of a row of the ledger with the pending
  rows, and every row of a loaded target or transaction, and every pending row, is known.
\<close>

definition known_rows :: "ledger_batch \<Rightarrow> ledger_row \<Rightarrow> bool" where
  "known_rows b r \<longleftrightarrow> map_of (lb_known b) (le_target_table r, le_event_id r) \<noteq> None"

definition valid_batch :: "ledger \<Rightarrow> ledger_batch \<Rightarrow> bool" where
  "valid_batch led b \<longleftrightarrow>
     distinct (map row_key (led @ lb_pending b)) \<and>
     (\<forall>t e f s. map_of (lb_known b) (t, e) = Some (f, s) \<longrightarrow>
        (\<exists>r \<in> set (led @ lb_pending b). row_key r = (lb_pipeline b, t, e) \<and> le_facts r = f \<and> le_state r = s)) \<and>
     (\<forall>r \<in> set led. le_pipeline r = lb_pipeline b \<longrightarrow>
        le_target_table r \<in> set (lb_loaded_targets b) \<longrightarrow> known_rows b r) \<and>
     (\<forall>r \<in> set led. \<forall>x. le_pipeline r = lb_pipeline b \<longrightarrow> lf_txn_id (le_facts r) = Some x \<longrightarrow>
        (le_target_table r, x) \<in> set (lb_loaded_transactions b) \<longrightarrow> known_rows b r) \<and>
     (\<forall>r \<in> set (lb_pending b). le_pipeline r = lb_pipeline b \<and> known_rows b r)"

lemma valid_new: "distinct (map row_key led) \<Longrightarrow> valid_batch led (new_ledger_batch p)"
  by (simp add: valid_batch_def new_ledger_batch_def)

lemma remember_known:
  "map_of (lb_known (remember_rows rows b)) (t, e) =
     (case find (\<lambda>r. le_target_table r = t \<and> le_event_id r = e) (rev rows) of
        Some r \<Rightarrow> Some (le_facts r, le_state r) | None \<Rightarrow> map_of (lb_known b) (t, e))"
proof (induction rows rule: rev_induct)
  case (snoc r rows)
  then show ?case by (auto simp: remember_rows_def update_conv' split: option.splits)
qed (simp add: remember_rows_def)

lemma remember_same [simp]:
  "lb_pipeline (remember_rows rows b) = lb_pipeline b" "lb_pending (remember_rows rows b) = lb_pending b"
  "lb_loaded_targets (remember_rows rows b) = lb_loaded_targets b"
  "lb_loaded_transactions (remember_rows rows b) = lb_loaded_transactions b"
  by (simp_all add: remember_rows_def)

lemma remember_knows:
  "known_rows b r \<Longrightarrow> known_rows (remember_rows rows b) r"
  "r \<in> set rows \<Longrightarrow> known_rows (remember_rows rows b) r"
  by (auto simp: known_rows_def remember_known find_None_iff split: option.splits)

lemma remember_valid:
  assumes "valid_batch led b" and "set rows \<subseteq> {r \<in> set led. le_pipeline r = lb_pipeline b}"
  shows "valid_batch led (remember_rows rows b)"
proof -
  have "\<exists>r \<in> set (led @ lb_pending b). row_key r = (lb_pipeline b, t, e) \<and> le_facts r = f \<and> le_state r = s"
    if "map_of (lb_known (remember_rows rows b)) (t, e) = Some (f, s)" for t e f s
  proof (cases "find (\<lambda>r. le_target_table r = t \<and> le_event_id r = e) (rev rows)")
    case None
    then show ?thesis using that assms(1) by (simp add: remember_known valid_batch_def)
  next
    case (Some r)
    then have "r \<in> set rows" "le_target_table r = t" "le_event_id r = e"
      by (auto simp: find_Some_iff) (metis nth_mem set_rev length_rev)
    then show ?thesis using that Some assms(2) by (auto simp: remember_known row_key_def)
  qed
  then show ?thesis using assms(1) remember_knows(1) unfolding valid_batch_def by simp
qed

lemma valid_loaded_targets:
  assumes "valid_batch led b"
    and "\<And>r. r \<in> set led \<Longrightarrow> le_pipeline r = lb_pipeline b \<Longrightarrow> le_target_table r \<in> set ts \<Longrightarrow> known_rows b r"
  shows "valid_batch led (b\<lparr>lb_loaded_targets := ts\<rparr>)"
  using assms unfolding valid_batch_def known_rows_def by simp

lemma valid_loaded_transactions:
  assumes "valid_batch led b"
    and "\<And>r x. r \<in> set led \<Longrightarrow> le_pipeline r = lb_pipeline b \<Longrightarrow> lf_txn_id (le_facts r) = Some x \<Longrightarrow>
      (le_target_table r, x) \<in> set ts \<Longrightarrow> known_rows b r"
  shows "valid_batch led (b\<lparr>lb_loaded_transactions := ts\<rparr>)"
  using assms unfolding valid_batch_def known_rows_def by simp

lemma valid_knows:
  assumes "valid_batch led b" and "r \<in> set led" and "le_pipeline r = lb_pipeline b"
  shows "le_target_table r \<in> set (lb_loaded_targets b) \<Longrightarrow> known_rows b r"
    and "lf_txn_id (le_facts r) = Some x \<Longrightarrow> (le_target_table r, x) \<in> set (lb_loaded_transactions b) \<Longrightarrow>
      known_rows b r"
  using assms unfolding valid_batch_def by simp_all

lemma load_target_valid:
  assumes "valid_batch led b"
  shows "valid_batch led (load_target led t b)"
    and "t \<in> set (lb_loaded_targets (load_target led t b))"
    and "lb_pending (load_target led t b) = lb_pending b" "lb_pipeline (load_target led t b) = lb_pipeline b"
proof -
  let ?rows = "filter (\<lambda>r. le_pipeline r = lb_pipeline b \<and> le_target_table r = t) led"
  have v: "valid_batch led (remember_rows ?rows b)" by (rule remember_valid [OF assms]) auto
  have k: "known_rows (remember_rows ?rows b) r" if "r \<in> set led" "le_pipeline r = lb_pipeline b" "le_target_table r = t" for r
    by (rule remember_knows(2)) (use that in simp)
  have "valid_batch led (remember_rows ?rows b\<lparr>lb_loaded_targets := List.insert t (lb_loaded_targets b)\<rparr>)"
    by (rule valid_loaded_targets [OF v]) (use k valid_knows(1) [OF v] in auto)
  then show "valid_batch led (load_target led t b)" using assms
    by (cases "t \<in> set (lb_loaded_targets b)") (simp_all only: load_target_def if_True if_False simp_thms)
qed (simp_all add: load_target_def)

lemma foldl_insert_set: "set (foldl (\<lambda>l x. List.insert (t, x) l) l xs) = set l \<union> Pair t ` set xs"
  by (induction xs arbitrary: l) auto

lemma load_transactions_valid:
  assumes "valid_batch led b"
  shows "valid_batch led (load_transactions led t xs b)"
    and "set (lb_loaded_transactions (load_transactions led t xs b)) =
      set (lb_loaded_transactions b) \<union> Pair t ` set xs"
    and "lb_pending (load_transactions led t xs b) = lb_pending b"
    and "lb_pipeline (load_transactions led t xs b) = lb_pipeline b"
proof -
  let ?rows = "select_transactions led (lb_pipeline b) t xs"
  have v: "valid_batch led (remember_rows ?rows b)"
    by (rule remember_valid [OF assms]) (auto simp: select_transactions_def)
  have k: "known_rows (remember_rows ?rows b) r"
    if "r \<in> set led" "le_pipeline r = lb_pipeline b" "le_target_table r = t" "lf_txn_id (le_facts r) = Some x" "x \<in> set xs" for r x
    by (rule remember_knows(2)) (use that in \<open>simp add: select_transactions_def\<close>)
  show "valid_batch led (load_transactions led t xs b)" unfolding load_transactions_def
    by (rule valid_loaded_transactions [OF v])
      (use k valid_knows(2) [OF v] in \<open>auto simp: foldl_insert_set\<close>)
qed (simp_all add: load_transactions_def foldl_insert_set)

lemma load_transaction_valid:
  assumes "valid_batch led b"
  shows "valid_batch led (load_transaction led t x b)"
    and "(t, x) \<in> set (lb_loaded_transactions (load_transaction led t x b))"
    and "lb_pending (load_transaction led t x b) = lb_pending b"
    and "lb_pipeline (load_transaction led t x b) = lb_pipeline b"
  using assms load_transactions_valid [OF assms, of t "[x]"] by (auto simp: load_transaction_def)

lemma load_chunks_valid:
  assumes "valid_batch led b"
  shows "valid_batch led (foldl (\<lambda>b xs. load_transactions led t xs b) b xss) \<and>
    lb_pending (foldl (\<lambda>b xs. load_transactions led t xs b) b xss) = lb_pending b \<and>
    lb_pipeline (foldl (\<lambda>b xs. load_transactions led t xs b) b xss) = lb_pipeline b"
  using assms by (induction xss arbitrary: b) (simp_all add: load_transactions_valid)

lemma prefetch_valid:
  assumes "valid_batch led b"
  shows "valid_batch led (prefetch_transactions led pairs b) \<and>
    lb_pending (prefetch_transactions led pairs b) = lb_pending b \<and>
    lb_pipeline (prefetch_transactions led pairs b) = lb_pipeline b"
proof -
  have "valid_batch led (foldl (\<lambda>b (t, txns). let pending = sort (filter (\<lambda>x. (t, x) \<notin> set (lb_loaded_transactions b)) txns)
          in foldl (\<lambda>b batch. load_transactions led t batch b) b (chunks 1024 pending)) b g) \<and>
      lb_pending (foldl (\<lambda>b (t, txns). let pending = sort (filter (\<lambda>x. (t, x) \<notin> set (lb_loaded_transactions b)) txns)
          in foldl (\<lambda>b batch. load_transactions led t batch b) b (chunks 1024 pending)) b g) = lb_pending b \<and>
      lb_pipeline (foldl (\<lambda>b (t, txns). let pending = sort (filter (\<lambda>x. (t, x) \<notin> set (lb_loaded_transactions b)) txns)
          in foldl (\<lambda>b batch. load_transactions led t batch b) b (chunks 1024 pending)) b g) = lb_pipeline b" for g
    using assms
  proof (induction g arbitrary: b)
    case (Cons a g)
    then show ?case by (cases a) (simp add: Let_def load_chunks_valid)
  qed simp
  then show ?thesis unfolding prefetch_transactions_def by blast
qed

text \<open>Loading before a claim: the cache then knows every row with the identifier of the claim.\<close>

lemma load_for_valid:
  assumes "valid_batch led b"
  shows "valid_batch led (load_for led c b) \<and> lb_pending (load_for led c b) = lb_pending b \<and>
    lb_pipeline (load_for led c b) = lb_pipeline b"
  using assms by (simp add: load_for_def load_target_valid load_transaction_valid split: option.splits)

definition same_transaction :: "string \<Rightarrow> ledger \<Rightarrow> ledger_claim \<Rightarrow> bool" where
  \<comment> \<open>a row with the identifier of a streamed claim is of the same source transaction\<close>
  "same_transaction p led c \<longleftrightarrow>
     (\<forall>r \<in> set led. row_key r = (p, cl_target_table c, ei_event_id (cl_identity c)) \<longrightarrow>
        \<not> cl_snapshot c \<longrightarrow> lf_txn_id (ei_facts (cl_identity c)) \<noteq> None \<longrightarrow>
        lf_txn_id (le_facts r) = lf_txn_id (ei_facts (cl_identity c)))"

lemma load_for_complete:
  assumes "valid_batch led b" and "same_transaction (lb_pipeline b) led c"
    and "r \<in> set (led @ lb_pending b)"
    and "row_key r = (lb_pipeline b, cl_target_table c, ei_event_id (cl_identity c))"
    and "cl_snapshot c \<or> lf_txn_id (ei_facts (cl_identity c)) \<noteq> None \<or> r \<in> set (lb_pending b)"
  shows "map_of (lb_known (load_for led c b)) (cl_target_table c, ei_event_id (cl_identity c)) \<noteq> None"
proof -
  have v: "valid_batch led (load_for led c b)" and same: "lb_pending (load_for led c b) = lb_pending b"
    "lb_pipeline (load_for led c b) = lb_pipeline b" using load_for_valid [OF assms(1)] by simp_all
  have "known_rows (load_for led c b) r"
  proof (cases "r \<in> set (lb_pending b)")
    case True
    then show ?thesis using v same unfolding valid_batch_def by simp
  next
    case False
    then have r: "r \<in> set led" "le_pipeline r = lb_pipeline b" "le_target_table r = cl_target_table c"
      using assms(3,4) by (simp_all add: row_key_def)
    show ?thesis
    proof (cases "cl_snapshot c")
      case True
      then have "le_target_table r \<in> set (lb_loaded_targets (load_for led c b))"
        using r load_target_valid(2) [OF assms(1)] by (simp add: load_for_def)
      then show ?thesis using valid_knows(1) [OF v r(1)] r same by simp
    next
      case snap: False
      then obtain x where x: "lf_txn_id (ei_facts (cl_identity c)) = Some x" using assms(5) False by blast
      then have "lf_txn_id (le_facts r) = Some x" using assms(2,4) r snap unfolding same_transaction_def by simp
      moreover have "(le_target_table r, x) \<in> set (lb_loaded_transactions (load_for led c b))"
        using r x snap load_transaction_valid(2) [OF assms(1)] by (simp add: load_for_def)
      ultimately show ?thesis using valid_knows(2) [OF v r(1)] r same by simp
    qed
  qed
  then show ?thesis using assms(4) by (simp add: known_rows_def row_key_def)
qed

lemma add_pending_valid:
  assumes "valid_batch led b" and "row_key r \<notin> row_key ` set (led @ lb_pending b)"
    and "le_pipeline r = lb_pipeline b"
  shows "valid_batch led (b\<lparr>lb_known := AList.update (le_target_table r, le_event_id r) (le_facts r, le_state r) (lb_known b),
    lb_pending := lb_pending b @ [r]\<rparr>)"
proof -
  have "distinct (map row_key (led @ lb_pending b @ [r]))" using assms(1,2) by (auto simp: valid_batch_def)
  moreover have "\<exists>r' \<in> set (led @ lb_pending b @ [r]). row_key r' = (lb_pipeline b, t, e) \<and> le_facts r' = f \<and> le_state r' = s"
    if "map_of (AList.update (le_target_table r, le_event_id r) (le_facts r, le_state r) (lb_known b)) (t, e) = Some (f, s)"
    for t e f s
  proof (cases "(t, e) = (le_target_table r, le_event_id r)")
    case True
    then show ?thesis using that assms(3) by (auto simp: update_conv' row_key_def)
  next
    case False
    then have "map_of (lb_known b) (t, e) = Some (f, s)" using that by (auto simp: update_conv' split: if_splits)
    then show ?thesis using assms(1) unfolding valid_batch_def by fastforce
  qed
  ultimately show ?thesis using assms(1,3) unfolding valid_batch_def known_rows_def by (simp add: update_conv')
qed

lemma add_known_valid:
  assumes "valid_batch led b" and "r \<in> set led" and "le_pipeline r = lb_pipeline b"
  shows "valid_batch led (b\<lparr>lb_known := AList.update (le_target_table r, le_event_id r) (le_facts r, le_state r) (lb_known b)\<rparr>)"
  using remember_valid [OF assms(1), of "[r]"] assms(2,3) by (simp add: remember_rows_def)

text \<open>One claim: the batch answers as a direct claim against the ledger with the pending rows.\<close>

lemma batch_claim_direct:
  assumes v: "valid_batch led b" and same: "same_transaction (lb_pipeline b) led c"
    and lsn: "cl_source_lsn c = lf_source_lsn (ei_facts (cl_identity c))"
  shows "case batch_claim led b c of
      Inl e \<Rightarrow> claim_event_ledger (lb_pipeline b) c (led @ lb_pending b) = Inl e
    | Inr (r, b') \<Rightarrow>
        claim_event_ledger (lb_pipeline b) c (led @ lb_pending b) = Inr (r, led @ lb_pending b') \<and>
        valid_batch led b' \<and> lb_pipeline b' = lb_pipeline b"
proof -
  let ?b = "load_for led c b" and ?t = "cl_target_table c" and ?e = "ei_event_id (cl_identity c)"
    and ?p = "lb_pipeline b" and ?x = "lf_txn_id (ei_facts (cl_identity c))"
  have vb: "valid_batch led ?b" and pend: "lb_pending ?b = lb_pending b" and pipe: "lb_pipeline ?b = ?p"
    using load_for_valid [OF v] by simp_all
  have dist: "distinct (map row_key (led @ lb_pending b))" using v by (simp add: valid_batch_def)
  have row: "row_key (pending_row ?p c) = (?p, ?t, ?e)" "le_facts (pending_row ?p c) = ei_facts (cl_identity c)"
    "le_state (pending_row ?p c) = cl_state c" "le_pipeline (pending_row ?p c) = ?p"
    "le_target_table (pending_row ?p c) = ?t" "le_event_id (pending_row ?p c) = ?e"
    using lsn by (simp_all add: pending_row_def row_key_def)
  show ?thesis
  proof (cases "map_of (lb_known ?b) (?t, ?e)")
    case (Some fs)
    obtain f s where fs: "fs = (f, s)" by (cases fs)
    then obtain r where r: "r \<in> set (led @ lb_pending b)" "row_key r = (?p, ?t, ?e)" "le_facts r = f" "le_state r = s"
      using vb Some pend pipe unfolding valid_batch_def by metis
    then have "read_event_ledger (led @ lb_pending b) ?p ?t ?e = Some r" using read_unique [OF dist] by simp
    moreover have "batch_claim led b c =
        rbind (assert_same_identity f (cl_identity c)) (\<lambda>_. Inr (applied_state s, ?b))"
      using Some fs by (simp add: batch_claim_def Let_def)
    ultimately show ?thesis using r vb pend pipe
      by (cases "assert_same_identity f (cl_identity c)") (simp_all add: claim_event_ledger_def)
  next
    case None
    have absent: "r \<notin> set (lb_pending b) \<and> \<not> cl_snapshot c \<and> ?x = None"
      if "r \<in> set (led @ lb_pending b)" "row_key r = (?p, ?t, ?e)" for r
      using load_for_complete [OF v same that] None by blast
    show ?thesis
    proof (cases "read_event_ledger (led @ lb_pending b) ?p ?t ?e")
      case (Some r)
      then have r: "r \<in> set (led @ lb_pending b)" "row_key r = (?p, ?t, ?e)"
        using read_SomeD by blast+
      then have a: "r \<in> set led" "\<not> cl_snapshot c" "?x = None" using absent by auto
      have "read_event_ledger led ?p ?t ?e = Some r" using read_unique [of led r] dist a r by simp
      then have "batch_claim led b c = rbind (assert_same_identity (le_facts r) (cl_identity c))
          (\<lambda>_. Inr (applied_state (le_state r),
             ?b\<lparr>lb_known := AList.update (?t, ?e) (le_facts r, le_state r) (lb_known ?b)\<rparr>))"
        using None a pipe by (simp add: batch_claim_def Let_def)
      moreover have "valid_batch led (?b\<lparr>lb_known := AList.update (?t, ?e) (le_facts r, le_state r) (lb_known ?b)\<rparr>)"
        using add_known_valid [OF vb a(1)] r(2) pipe by (simp add: row_key_def)
      ultimately show ?thesis using Some pend pipe
        by (cases "assert_same_identity (le_facts r) (cl_identity c)") (simp_all add: claim_event_ledger_def)
    next
      case no: None
      then have key: "row_key (pending_row ?p c) \<notin> row_key ` set (led @ lb_pending ?b)"
        unfolding row(1) pend read_None by simp
      have "read_event_ledger led ?p ?t ?e = None" using no by (auto simp: read_None)
      then have "batch_claim led b c = Inr (False,
          ?b\<lparr>lb_known := AList.update (?t, ?e) (ei_facts (cl_identity c), cl_state c) (lb_known ?b),
            lb_pending := lb_pending ?b @ [pending_row ?p c]\<rparr>)"
        using None pipe by (simp add: batch_claim_def Let_def)
      then show ?thesis using add_pending_valid [OF vb key] row no pend pipe by (simp add: claim_event_ledger_def)
    qed
  qed
qed

lemma claims_batched_direct:
  assumes "valid_batch led b"
    and "list_all (same_transaction (lb_pipeline b) led) cs"
    and "list_all (\<lambda>c. cl_source_lsn c = lf_source_lsn (ei_facts (cl_identity c))) cs"
  shows "case rfold (batch_step led) (rs, b) cs of
      Inl e \<Rightarrow> rfold (direct_step (lb_pipeline b))
                 (rs, led @ lb_pending b) cs = Inl e
    | Inr (rs', b') \<Rightarrow> rfold (direct_step (lb_pipeline b))
                 (rs, led @ lb_pending b) cs = Inr (rs', led @ lb_pending b') \<and> valid_batch led b'"
  using assms
proof (induction cs arbitrary: rs b)
  case (Cons c cs)
  have step: "case batch_claim led b c of
      Inl e \<Rightarrow> claim_event_ledger (lb_pipeline b) c (led @ lb_pending b) = Inl e
    | Inr (r, b') \<Rightarrow>
        claim_event_ledger (lb_pipeline b) c (led @ lb_pending b) = Inr (r, led @ lb_pending b') \<and>
        valid_batch led b' \<and> lb_pipeline b' = lb_pipeline b"
    by (rule batch_claim_direct) (use Cons.prems in simp_all)
  show ?case
  proof (cases "batch_claim led b c")
    case (Inl e)
    then show ?thesis using step by (simp add: batch_step_def direct_step_def)
  next
    case (Inr q)
    obtain r b' where q: "q = (r, b')" by (cases q)
    with Inr step have s: "claim_event_ledger (lb_pipeline b) c (led @ lb_pending b) = Inr (r, led @ lb_pending b')"
      "valid_batch led b'" "lb_pipeline b' = lb_pipeline b" by simp_all
    have eqs: "rfold (batch_step led) (rs, b) (c # cs) = rfold (batch_step led) (rs @ [r], b') cs"
      "rfold (direct_step (lb_pipeline b)) (rs, led @ lb_pending b) (c # cs) =
        rfold (direct_step (lb_pipeline b)) (rs @ [r], led @ lb_pending b') cs"
      using Inr q s by (simp_all add: batch_step_def direct_step_def)
    show ?thesis unfolding eqs
      by (rule Cons.IH [OF s(2), of "rs @ [r]", unfolded s(3)]) (use Cons.prems(2,3) in simp_all)
  qed
qed simp

lemma flush_pending:
  assumes "distinct (map row_key (led @ rows))"
  shows "rfold insert_row led rows = Inr (led @ rows)"
  using assms
proof (induction rows arbitrary: led)
  case (Cons r rows)
  then have "row_key r \<notin> row_key ` set led" by auto
  then have "read_event_ledger led (le_pipeline r) (le_target_table r) (le_event_id r) = None"
    by (simp add: read_None row_key_def)
  then show ?case using Cons.IH [of "led @ [r]"] Cons.prems by (simp add: insert_row_def)
qed simp

section \<open>Replays\<close>

lemma assert_same_identity_refl: "assert_same_identity (ei_facts i) i = Inr ()"
  by (simp add: assert_same_identity_def identity_checks_def)

lemma assert_same_identity_iff: "assert_same_identity f i = Inr u \<longleftrightarrow> f = ei_facts i"
proof
  assume "assert_same_identity f i = Inr u"
  then have "\<forall>c \<in> set (identity_checks f (ei_facts i)). snd c"
    by (fastforce simp: assert_same_identity_def find_None_iff split: option.splits)
  then show "f = ei_facts i" by (simp add: identity_checks_def)
qed (simp add: assert_same_identity_refl)

definition claimed :: "string \<Rightarrow> ledger \<Rightarrow> ledger_claim \<Rightarrow> bool" where
  "claimed p led c \<longleftrightarrow>
     (case read_event_ledger led p (cl_target_table c) (ei_event_id (cl_identity c)) of
        None \<Rightarrow> False | Some r \<Rightarrow> le_facts r = ei_facts (cl_identity c) \<and> applied_state (le_state r))"

lemma claimed_append: "claimed p led c \<Longrightarrow> claimed p (led @ rows) c"
  by (auto simp: claimed_def read_event_ledger_def find_append split: option.splits)

lemma claim_claims:
  assumes "claim_event_ledger p c led = Inr (r, led')"
    and "cl_source_lsn c = lf_source_lsn (ei_facts (cl_identity c))"
    and "applied_state (cl_state c)" and "list_all (\<lambda>r. applied_state (le_state r)) led"
  shows "claimed p led' c \<and> (\<exists>rows. led' = led @ rows) \<and> list_all (\<lambda>r. applied_state (le_state r)) led'"
proof (cases "read_event_ledger led p (cl_target_table c) (ei_event_id (cl_identity c))")
  case None
  then have "led' = led @ [pending_row p c]" using assms(1) by (simp add: claim_event_ledger_def)
  then show ?thesis using None assms(2-4)
    by (simp add: claimed_def read_event_ledger_def find_append pending_row_def)
next
  case (Some r)
  then have "applied_state (le_state r)" using assms(4) by (auto simp: read_event_ledger_def find_Some_iff list_all_length)
  then show ?thesis using Some assms(1,4)
    by (auto simp: claim_event_ledger_def claimed_def rbind_eq_Inr assert_same_identity_iff)
qed

lemma claimed_replay:
  "claimed p led c \<Longrightarrow> claim_event_ledger p c led = Inr (True, led)"
  by (auto simp: claimed_def claim_event_ledger_def assert_same_identity_refl split: option.splits)

lemma claims_direct_claims:
  assumes "rfold (direct_step p) (rs, led) cs = Inr (rs', led')"
    and "list_all (\<lambda>c. cl_source_lsn c = lf_source_lsn (ei_facts (cl_identity c)) \<and> applied_state (cl_state c)) cs"
    and "list_all (\<lambda>r. applied_state (le_state r)) led"
  shows "list_all (claimed p led') cs \<and> (\<exists>rows. led' = led @ rows)"
  using assms
proof (induction cs arbitrary: rs led)
  case (Cons c cs)
  from Cons.prems(1) obtain r l where l: "claim_event_ledger p c led = Inr (r, l)"
    and rest: "rfold (direct_step p) (rs @ [r], l) cs = Inr (rs', led')"
    by (cases "claim_event_ledger p c led") (auto simp: direct_step_def [of p "(rs, led)" c])
  have c: "claimed p l c \<and> (\<exists>rows. l = led @ rows) \<and> list_all (\<lambda>r. applied_state (le_state r)) l"
    by (rule claim_claims [OF l]) (use Cons.prems in simp_all)
  have i: "list_all (claimed p led') cs \<and> (\<exists>rows. led' = l @ rows)"
    by (rule Cons.IH [OF rest]) (use Cons.prems c in simp_all)
  then show ?case using c claimed_append by auto
qed simp

lemma claimed_replays:
  assumes "list_all (claimed p led) cs"
  shows "rfold (direct_step p) (rs, led) cs =
    Inr (rs @ replicate (length cs) True, led)"
  using assms
proof (induction cs arbitrary: rs)
  case (Cons c cs)
  then show ?case using claimed_replay [of p led c] by (simp add: direct_step_def)
qed simp

section \<open>The properties\<close>

text \<open>
  C13: The batched ledger of a plan is equivalent to claiming the events one by one. With its
  prefetched transactions, its loaded targets and its single bulk insert, it gives the same
  answers, raises the same collisions and leaves the same ledger, whatever the plan mixes of
  snapshot rows, streamed rows, messages and repeated events, provided an identifier in the ledger
  belongs to one source transaction.
\<close>

theorem batched_claims_equal_direct:
  assumes "distinct (map row_key led)"
    and "list_all (same_transaction p led) cs"
    and "list_all (\<lambda>c. cl_source_lsn c = lf_source_lsn (ei_facts (cl_identity c))) cs"
  shows "rbind (claims_batched led (prefetch_transactions led pairs (new_ledger_batch p)) cs)
      (\<lambda>(answers, b). rbind (batch_flush led b) (\<lambda>led'. Inr (answers, led'))) =
    claims_direct p led cs"
proof -
  let ?b = "prefetch_transactions led pairs (new_ledger_batch p)"
  have v: "valid_batch led ?b" "lb_pending ?b = []" "lb_pipeline ?b = p"
    using prefetch_valid [OF valid_new [OF assms(1)]] by (simp_all add: new_ledger_batch_def)
  have loop: "case claims_batched led ?b cs of
      Inl e \<Rightarrow> claims_direct p led cs = Inl e
    | Inr (rs, b) \<Rightarrow> claims_direct p led cs = Inr (rs, led @ lb_pending b) \<and> valid_batch led b"
    unfolding claims_batched_def claims_direct_def
    by (rule claims_batched_direct [OF v(1), of cs "[]", unfolded v(2,3) append_Nil2]) (fact assms)+
  show ?thesis
  proof (cases "claims_batched led ?b cs")
    case (Inl e)
    then show ?thesis using loop by simp
  next
    case (Inr q)
    obtain rs b where q: "q = (rs, b)" by (cases q)
    then have d: "claims_direct p led cs = Inr (rs, led @ lb_pending b)" and vb: "valid_batch led b"
      using loop Inr by simp_all
    have "batch_flush led b = Inr (led @ lb_pending b)"
      unfolding batch_flush_def by (rule flush_pending) (use vb in \<open>simp add: valid_batch_def\<close>)
    then show ?thesis using Inr q d by simp
  qed
qed

text \<open>A ledger with one row of transaction \<open>x\<close>, and a plan that replays that row, claims a new row of the
  same transaction and meets the new row again.\<close>

definition sample_facts :: "string \<Rightarrow> int \<Rightarrow> ledger_facts" where
  "sample_facts x n =
     \<lparr>lf_operation = Some ''c'', lf_payload_digest = ''d'', lf_source_schema = Some ''s'', lf_source_table = Some ''t'',
      lf_source_cluster_id = Some ''k'', lf_source_timeline = Some 1, lf_relation_generation = Some ''g'',
      lf_txn_id = Some x, lf_commit_lsn = Some 9, lf_source_lsn = Some n, lf_total_order = Some n,
      lf_key_guard_digest = None, lf_policy_epoch = 0, lf_snapshot_epoch = None, lf_policy_digest = None,
      lf_delete_mode = None\<rparr>"

definition sample_claim :: "string \<Rightarrow> string \<Rightarrow> int \<Rightarrow> ledger_claim" where
  "sample_claim e x n =
     \<lparr>cl_identity = \<lparr>ei_event_id = e, ei_facts = sample_facts x n, ei_strong = True\<rparr>, cl_target_table = ''t'',
      cl_source_lsn = Some n, cl_snapshot = False, cl_state = ''applied'', cl_now = 0\<rparr>"

definition sample_ledger :: ledger where
  "sample_ledger = [pending_row ''p'' (sample_claim ''1'' ''x'' 1)]"

lemmas sample_defs = sample_ledger_def sample_claim_def sample_facts_def pending_row_def row_key_def
  same_transaction_def applied_state_def

theorem batched_claims_equal_direct_witness:
  "rbind (claims_batched sample_ledger (prefetch_transactions sample_ledger [(''t'', ''x'')] (new_ledger_batch ''p''))
        [sample_claim ''1'' ''x'' 1, sample_claim ''2'' ''x'' 2, sample_claim ''2'' ''x'' 2])
      (\<lambda>(answers, b). rbind (batch_flush sample_ledger b) (\<lambda>led'. Inr (answers, led'))) =
    Inr ([True, False, True], sample_ledger @ [pending_row ''p'' (sample_claim ''2'' ''x'' 2)])"
  by (subst batched_claims_equal_direct)
    (simp_all add: sample_defs claims_direct_def direct_step_def claim_event_ledger_def read_event_ledger_def
      assert_same_identity_def identity_checks_def)

text \<open>
  A replay writes nothing. When a plan has claimed its events, every later plan that delivers
  only these events again, in any order, finds all of them applied and leaves the ledger as it is.
\<close>

theorem replayed_claims_write_nothing:
  assumes "claims_direct p led cs = Inr (answers, led')"
    and "list_all (\<lambda>c. cl_source_lsn c = lf_source_lsn (ei_facts (cl_identity c)) \<and> applied_state (cl_state c)) cs"
    and "list_all (\<lambda>r. applied_state (le_state r)) led" and "set cs' \<subseteq> set cs"
  shows "claims_direct p led' cs' = Inr (replicate (length cs') True, led')"
proof -
  have "list_all (claimed p led') cs"
    using claims_direct_claims [OF assms(1) [unfolded claims_direct_def] assms(2,3)] by simp
  then have "list_all (claimed p led') cs'" using assms(4) by (auto simp: list_all_iff)
  then show ?thesis using claimed_replays [of p led' cs' "[]"] by (simp add: claims_direct_def)
qed

theorem replayed_claims_write_nothing_example:
  "claims_direct ''p'' (sample_ledger @ [pending_row ''p'' (sample_claim ''2'' ''x'' 2)])
      [sample_claim ''2'' ''x'' 2, sample_claim ''1'' ''x'' 1] =
    Inr ([True, True], sample_ledger @ [pending_row ''p'' (sample_claim ''2'' ''x'' 2)])"
proof -
  have "claims_direct ''p'' sample_ledger [sample_claim ''1'' ''x'' 1, sample_claim ''2'' ''x'' 2] =
      Inr ([True, False], sample_ledger @ [pending_row ''p'' (sample_claim ''2'' ''x'' 2)])"
    by (simp add: sample_defs claims_direct_def direct_step_def claim_event_ledger_def read_event_ledger_def
      assert_same_identity_def identity_checks_def)
  from replayed_claims_write_nothing [OF this, of "[sample_claim ''2'' ''x'' 2, sample_claim ''1'' ''x'' 1]"]
  show ?thesis by (simp add: sample_defs numeral_2_eq_2)
qed

text \<open>
  C14: A streamed event's identifier is its place in the source. When two events that are not part
  of a snapshot get the same identifier from complete source facts, these facts agree: cluster,
  timeline, relation generation, transaction, commit LSN and ordinal.
\<close>

theorem event_id_determines_source_facts:
  assumes "identity_for env a ev = Inr i" and "identity_for env a' ev' = Inr i'"
    and "ia_event_id a = None" and "ia_event_id a' = None" and "ei_strong i" and "ei_strong i'"
    and "lf_snapshot_epoch (ei_facts i) = None" and "lf_snapshot_epoch (ei_facts i') = None"
    and "ei_event_id i = ei_event_id i'"
  shows "lf_source_cluster_id (ei_facts i) = lf_source_cluster_id (ei_facts i') \<and>
    lf_source_timeline (ei_facts i) = lf_source_timeline (ei_facts i') \<and>
    lf_relation_generation (ei_facts i) = lf_relation_generation (ei_facts i') \<and>
    lf_txn_id (ei_facts i) = lf_txn_id (ei_facts i') \<and>
    lf_commit_lsn (ei_facts i) = lf_commit_lsn (ei_facts i') \<and>
    lf_total_order (ei_facts i) = lf_total_order (ei_facts i')"
proof -
  have id: "\<exists>c tm g x l n. ei_event_id j = strong_event_id c tm g x l n \<and>
      lf_source_cluster_id (ei_facts j) = Some c \<and> lf_source_timeline (ei_facts j) = Some tm \<and>
      lf_relation_generation (ei_facts j) = Some g \<and> lf_txn_id (ei_facts j) = Some x \<and>
      lf_commit_lsn (ei_facts j) = Some l \<and> lf_total_order (ei_facts j) = Some n"
    if "identity_for env b e = Inr j" "ia_event_id b = None" "ei_strong j" "lf_snapshot_epoch (ei_facts j) = None"
    for b e j
    using that by (auto simp: identity_for_def Let_def split: if_splits option.splits elim!: truthy_strE)
  show ?thesis using id [OF assms(1,3,5,7)] id [OF assms(2,4,6,8)] assms(9) strong_event_id_inj by metis
qed

text \<open>The same source event, delivered twice.\<close>

definition sample_event :: "nat \<Rightarrow> pending_record" where
  "sample_event n = (blank_record n (Some n) KIND_DATA)
     \<lparr>pr_op := Some ''c'', pr_txn_id := Some ''x'', pr_total_order := JInt 1, pr_relation_generation := Some ''g'',
      pr_source_cluster_id := Some ''k'', pr_source_timeline := Some 1, pr_commit_lsn := Some 9\<rparr>"

definition sample_args :: identity_args where
  "sample_args =
     \<lparr>ia_event_id = None, ia_source_cluster_id = None, ia_source_timeline = None, ia_relation_generation = None,
      ia_commit_lsn = None, ia_policy_epoch = None, ia_require_strong = True, ia_digest = Some ''d''\<rparr>"

definition sample_env :: digest_env where
  "sample_env = \<lparr>de_sha256 = (\<lambda>_. []), de_key_descriptors = (\<lambda>_. []), de_before_descriptors = (\<lambda>_. []),
     de_after_descriptors = (\<lambda>_. [])\<rparr>"

definition sample_identity :: event_identity where
  "sample_identity =
     \<lparr>ei_event_id = strong_event_id ''k'' 1 ''g'' ''x'' 9 1,
      ei_facts = (sample_facts ''x'' 1)\<lparr>lf_source_schema := None, lf_source_table := None, lf_source_lsn := None\<rparr>,
      ei_strong = True\<rparr>"

lemma sample_identity_for: "identity_for sample_env sample_args (sample_event n) = Inr sample_identity"
  by (simp add: identity_for_def sample_args_def sample_event_def sample_identity_def sample_facts_def blank_record_def
    snapshot_id_def str_or_def opt_or_def key_guard_digest_def Let_def)

theorem event_id_determines_source_facts_witness:
  "lf_txn_id (ei_facts (projr (identity_for sample_env sample_args (sample_event 1)))) =
     lf_txn_id (ei_facts (projr (identity_for sample_env sample_args (sample_event 2)))) \<and>
   lf_total_order (ei_facts (projr (identity_for sample_env sample_args (sample_event 1)))) = Some 1"
proof -
  have "ia_event_id sample_args = None" "ei_strong sample_identity"
    "lf_snapshot_epoch (ei_facts sample_identity) = None" "lf_total_order (ei_facts sample_identity) = Some 1"
    by (simp_all add: sample_identity_def sample_facts_def sample_args_def)
  then show ?thesis
    using event_id_determines_source_facts [OF sample_identity_for [of 1] sample_identity_for [of 2]]
    by (simp add: sample_identity_for)
qed

end
