(* ===== verification/Scd2_History.thy ===== *)
theory Scd2_History
  imports Event_Ledger
begin

text \<open>
  History tables: \<open>src/cdc_flight/scd2.py\<close>. A relation with the history mode \<open>scd2\<close> keeps every version
  of a source row with the order tokens between which it is valid; a view selects the current
  versions. A version is admitted with a claim of the shared event ledger in the same transaction,
  so a refusal leaves nothing behind and the model returns the error alone.

  A history is the list of the rows of its table in insertion order. The normalisation of column
  names (a call into dlt), the encoder of a value for a column (\<open>None\<close> when it raises) and the
  reading of a source timestamp are fields of the environment.
\<close>

section \<open>Order tokens\<close>

datatype scd2_error =
    InvalidBundle
  | ColumnsCollide
  | KeysMissing
  | UnsupportedOperation
  | KeylessRow
  | NoOrderFacts
  | CrossGeneration
  | LedgerRefused ledger_error
  | ManyCurrent
  | SharedToken
  | IncompleteImage
  | NotBindable
  | NoPredecessor
  | NoBeforeImage
  | BeforeMismatch
  | PrecedesHistory
  | NoCurrent
  | NotNewer
  | UniqueViolation

definition transaction_order_token :: "event_identity \<Rightarrow> scd2_error + string" where
  "transaction_order_token i =
     (let f = ei_facts i in
      case (lf_source_cluster_id f, lf_source_timeline f, lf_relation_generation f, lf_commit_lsn f, lf_total_order f) of
        (Some cluster, Some timeline, Some generation, Some commit, Some order) \<Rightarrow>
          if cluster = [] \<or> generation = [] then Inl NoOrderFacts
          else Inr (dotted [b64_component cluster, format_0d 20 timeline, b64_component generation,
                            format_0d 20 commit, format_0d 20 order])
      | _ \<Rightarrow> Inl NoOrderFacts)"

section \<open>Bundles and events\<close>

record scd2_env =
  se_normalize :: "string \<Rightarrow> string"
  se_encode :: "string \<Rightarrow> json \<Rightarrow> json option"
  se_timestamp :: "int \<Rightarrow> int option"
  se_now :: int

record scd2_bundle =
  sb_pipeline :: string
  sb_source_schema :: string
  sb_source_table :: string
  sb_target_table :: string
  sb_columns :: "string list"
  sb_key_columns :: "string list"
  sb_relation_generation :: string
  sb_history_table :: "string option"
  sb_current_view :: "string option"
  sb_policy_epoch :: int

definition init_bundle :: "scd2_env \<Rightarrow> scd2_bundle \<Rightarrow> scd2_error + scd2_bundle" where
  \<comment> \<open>\<open>__post_init__\<close>; the normalised names are the keys of a dictionary\<close>
  "init_bundle env b =
     (if sb_pipeline b = [] \<or> sb_source_schema b = [] \<or> sb_source_table b = [] then Inl InvalidBundle
      else if sb_relation_generation b = [] then Inl InvalidBundle
      else Inr (b\<lparr>sb_columns := rev (remdups (rev (map (se_normalize env) (sb_columns b)))),
                  sb_key_columns := map (se_normalize env) (sb_key_columns b)\<rparr>))"

definition history_name :: "scd2_bundle \<Rightarrow> string" where
  "history_name b = str_or (sb_history_table b) (sb_target_table b @ ''__scd2_history'')"

definition current_name :: "scd2_bundle \<Rightarrow> string" where
  "current_name b = str_or (sb_current_view b) (sb_target_table b @ ''__current'')"

record scd2_event =
  sv_pipeline :: string
  sv_target_table :: string
  sv_source_schema :: string
  sv_source_table :: string
  sv_event_id :: string
  sv_operation :: string
  sv_key :: json_object
  sv_before :: "json_object option"
  sv_after :: "json_object option"
  sv_identity :: event_identity
  sv_observed_at :: "int option"

definition lower :: "char \<Rightarrow> char" where
  \<comment> \<open>\<open>str.lower\<close> of one character, ASCII letters\<close>
  "lower c = (let n = of_char c :: nat in if 65 \<le> n \<and> n \<le> 90 then char_of (n + 32) else c)"

definition str_opt :: "string option \<Rightarrow> string" where
  \<comment> \<open>\<open>str(x)\<close> for \<open>x: str | None\<close>\<close>
  "str_opt x = (case x of None \<Rightarrow> ''None'' | Some s \<Rightarrow> s)"

definition from_pending ::
  "scd2_env \<Rightarrow> digest_env \<Rightarrow> identity_args \<Rightarrow> string \<Rightarrow> string \<Rightarrow> pending_record \<Rightarrow> scd2_error + scd2_event" where
  "from_pending env denv a pipeline target ev =
     (let event_id = str_or (ia_event_id a) [];
          keeps = truthy_str (pr_snapshot_identity ev) \<or> pr_incremental ev \<or> take 5 event_id = ''snap:'';
          a' = a\<lparr>ia_event_id := (if keeps then ia_event_id a else None), ia_require_strong := True, ia_digest := None\<rparr>
      in case identity_for denv a' ev of
           Inl e \<Rightarrow> Inl (LedgerRefused e)
         | Inr i \<Rightarrow>
             let operation = map lower (str_or (pr_op ev) []) in
             if operation \<notin> {''c'', ''r'', ''u'', ''d''} then Inl UnsupportedOperation
             else case pr_key ev of
                    None \<Rightarrow> Inl KeylessRow
                  | Some [] \<Rightarrow> Inl KeylessRow
                  | Some key \<Rightarrow>
                      Inr \<lparr>sv_pipeline = pipeline, sv_target_table = target,
                           sv_source_schema = str_opt (pr_schema ev), sv_source_table = str_opt (pr_table ev),
                           sv_event_id = ei_event_id i, sv_operation = operation, sv_key = key,
                           sv_before = pr_before ev, sv_after = pr_after ev, sv_identity = i,
                           sv_observed_at = Option.bind (pr_source_ts_ms ev) (se_timestamp env)\<rparr>)"

definition source_identity :: "scd2_event \<Rightarrow> string" where
  "source_identity ev = canonical_json (JObj (sv_key ev))"

record scd2_table_event =
  te_pipeline :: string
  te_target_table :: string
  te_source_schema :: string
  te_source_table :: string
  te_event_id :: string
  te_identity :: event_identity

record apply_result =
  ar_event_id :: string
  ar_replayed :: bool
  ar_order_token :: string
  ar_current :: bool

section \<open>The destination\<close>

record history_row =
  hr_values :: "json_object option"
  hr_source_identity :: string
  hr_relation_generation :: "string option"
  hr_valid_from :: string
  hr_valid_to :: "string option"
  hr_is_current :: bool
  hr_operation :: string
  hr_event_id :: string
  hr_commit_lsn :: "int option"
  hr_txn_id :: "string option"
  hr_observed_at :: "int option"
  hr_policy_epoch :: int
  hr_payload_digest :: string
  hr_key_json :: string
  hr_image_json :: "string option"

type_synonym history = "history_row list"

definition HISTORY_META :: "string list" where
  "HISTORY_META = map (\<lambda>s. ''__cdcf_scd2_'' @ s)
     [''source_identity'', ''relation_generation'', ''valid_from'', ''valid_to'', ''is_current'', ''operation'',
      ''event_id'', ''commit_lsn'', ''txn_id'', ''observed_at'', ''policy_epoch'', ''payload_digest'', ''key_json'',
      ''image_json'']"

text \<open>The ledger, the history tables and the views by name, and the control rows of the bundles.\<close>

record scd2_store =
  ss_ledger :: ledger
  ss_histories :: "(string, history) dict"
  ss_views :: "(string, string) dict"
  ss_bundles :: "scd2_bundle list"

definition source_columns :: "scd2_bundle \<Rightarrow> scd2_error + string list" where
  "source_columns b =
     (if list_ex (\<lambda>c. c \<in> set HISTORY_META) (sb_columns b) then Inl ColumnsCollide
      else if \<not> list_all (\<lambda>k. k \<in> set (sb_columns b)) (sb_key_columns b) then Inl KeysMissing
      else Inr (sb_columns b))"

definition ensure_bundle :: "scd2_bundle \<Rightarrow> scd2_store \<Rightarrow> scd2_error + scd2_store" where
  "ensure_bundle b st =
     rbind (source_columns b) (\<lambda>_.
       Inr (st\<lparr>ss_histories := AList.update (history_name b) (dict_get (ss_histories st) (history_name b) []) (ss_histories st),
               ss_views := AList.update (current_name b) (history_name b) (ss_views st),
               ss_bundles := filter (\<lambda>c. \<not> (sb_pipeline c = sb_pipeline b \<and> sb_source_schema c = sb_source_schema b \<and>
                                          sb_source_table c = sb_source_table b)) (ss_bundles st) @ [b]\<rparr>))"

definition history_of :: "scd2_bundle \<Rightarrow> scd2_store \<Rightarrow> history" where
  "history_of b st = dict_get (ss_histories st) (history_name b) []"

definition set_history :: "scd2_bundle \<Rightarrow> history \<Rightarrow> scd2_store \<Rightarrow> scd2_store" where
  "set_history b h st = st\<lparr>ss_histories := AList.update (history_name b) h (ss_histories st)\<rparr>"

definition current_view :: "history \<Rightarrow> history" where
  "current_view h = filter (\<lambda>r. hr_is_current r \<and> hr_operation r \<noteq> ''d'') h"

section \<open>Placing a version\<close>

definition history_rows :: "history \<Rightarrow> string \<Rightarrow> history" where
  "history_rows h i = sort_key hr_valid_from (filter (\<lambda>r. hr_source_identity r = i) h)"

fun encode_columns :: "scd2_env \<Rightarrow> json_object \<Rightarrow> json_object option" where
  "encode_columns env [] = Some []"
| "encode_columns env ((c, v) # r) =
     (case (se_encode env c v, encode_columns env r) of (Some w, Some r') \<Rightarrow> Some ((c, w) # r') | _ \<Rightarrow> None)"

definition complete_image ::
  "scd2_env \<Rightarrow> scd2_bundle \<Rightarrow> json_object option \<Rightarrow> scd2_error + (json_object \<times> json_object)" where
  "complete_image env b img =
     (case img of
        None \<Rightarrow> Inl IncompleteImage
      | Some d \<Rightarrow>
          if list_ex (\<lambda>c. \<not> dict_has d c) (sb_columns b) then Inl IncompleteImage
          else let raw = map (\<lambda>c. (c, dict_get d c JNull)) (sb_columns b) in
               (case encode_columns env raw of None \<Rightarrow> Inl NotBindable | Some enc \<Rightarrow> Inr (raw, enc)))"

definition verify_before :: "scd2_event \<Rightarrow> history_row \<Rightarrow> scd2_error + unit" where
  "verify_before ev r =
     (case sv_before ev of
        None \<Rightarrow> Inl NoBeforeImage
      | Some d \<Rightarrow> raise_if (hr_image_json r \<noteq> Some (canonical_json (JObj d))) BeforeMismatch)"

definition truncate_boundary :: "history \<Rightarrow> string option" where
  \<comment> \<open>\<open>max\<close> over the truncate markers\<close>
  "truncate_boundary h =
     foldr (\<lambda>r m. case m of None \<Rightarrow> Some (hr_valid_from r) | Some t \<Rightarrow> Some (max (hr_valid_from r) t))
       (filter (\<lambda>r. hr_operation r = ''t'') h) None"

definition close_version :: "history_row \<Rightarrow> string \<Rightarrow> history \<Rightarrow> history" where
  "close_version v token h =
     map (\<lambda>r. if hr_event_id r = hr_event_id v then r\<lparr>hr_valid_to := Some token, hr_is_current := False\<rparr> else r) h"

definition new_version ::
  "scd2_event \<Rightarrow> string \<Rightarrow> string \<Rightarrow> string option \<Rightarrow> bool \<Rightarrow> (json_object \<times> json_object) option \<Rightarrow> history_row" where
  "new_version ev identity token valid_to cur img =
     \<lparr>hr_values = map_option snd img, hr_source_identity = identity,
      hr_relation_generation = lf_relation_generation (ei_facts (sv_identity ev)),
      hr_valid_from = token, hr_valid_to = valid_to, hr_is_current = cur, hr_operation = sv_operation ev,
      hr_event_id = sv_event_id ev, hr_commit_lsn = lf_commit_lsn (ei_facts (sv_identity ev)),
      hr_txn_id = lf_txn_id (ei_facts (sv_identity ev)), hr_observed_at = sv_observed_at ev,
      hr_policy_epoch = lf_policy_epoch (ei_facts (sv_identity ev)),
      hr_payload_digest = lf_payload_digest (ei_facts (sv_identity ev)),
      hr_key_json = canonical_json (JObj (sv_key ev)),
      hr_image_json = map_option (\<lambda>(raw, _). canonical_json (JObj raw)) img\<rparr>"

definition insert_version :: "history_row \<Rightarrow> history \<Rightarrow> scd2_error + history" where
  \<comment> \<open>the table is declared \<open>UNIQUE\<close> in the event identifier\<close>
  "insert_version v h = (if hr_event_id v \<in> hr_event_id ` set h then Inl UniqueViolation else Inr (h @ [v]))"

definition event_image ::
  "scd2_env \<Rightarrow> scd2_bundle \<Rightarrow> scd2_event \<Rightarrow> scd2_error + (json_object \<times> json_object) option" where
  "event_image env b ev =
     (if sv_operation ev \<in> {''c'', ''r'', ''u''} then map_sum id Some (complete_image env b (sv_after ev))
      else if sv_operation ev = ''d'' then map_sum id Some (complete_image env b (sv_before ev))
      else Inr None)"

definition add_version ::
  "scd2_event \<Rightarrow> string \<Rightarrow> (json_object \<times> json_object) option \<Rightarrow> history \<Rightarrow> string option \<Rightarrow> bool \<Rightarrow>
    scd2_error + (bool \<times> history)" where
  \<comment> \<open>\<open>_insert\<close> and the return of its \<open>is_current\<close>\<close>
  "add_version ev token img h valid_to cur =
     rbind (insert_version (new_version ev (source_identity ev) token valid_to cur img) h) (\<lambda>h'. Inr (cur, h'))"

definition place_among ::
  "scd2_event \<Rightarrow> string \<Rightarrow> (json_object \<times> json_object) option \<Rightarrow> history \<Rightarrow> scd2_error + (bool \<times> history)" where
  \<comment> \<open>the part of \<open>apply_event\<close> for a row that has versions\<close>
  "place_among ev token img h =
     (let rows = history_rows h (source_identity ev);
          current_row = (case filter hr_is_current rows of [] \<Rightarrow> None | r # _ \<Rightarrow> Some r);
          predecessor = find (\<lambda>r. hr_valid_from r < token) (rev rows);
          successor = find (\<lambda>r. token < hr_valid_from r) rows;
          late = (case current_row of None \<Rightarrow> False | Some r \<Rightarrow> token < hr_valid_from r)
      in if current_row = None \<and> sv_operation ev \<in> {''c'', ''r''} \<and>
            (case truncate_boundary h of None \<Rightarrow> False | Some t \<Rightarrow> t < token)
         then add_version ev token img h None True
         else
           rbind (if sv_operation ev \<in> {''u'', ''d''} then
                    (case predecessor of None \<Rightarrow> Inl NoPredecessor | Some r \<Rightarrow> verify_before ev r)
                  else raise_if (late \<and> predecessor = None) PrecedesHistory) (\<lambda>_.
           if \<not> late then
             (case current_row of
                None \<Rightarrow> Inl NoCurrent
              | Some r \<Rightarrow>
                  if sv_operation ev \<in> {''c'', ''r''} \<and> token \<le> hr_valid_from r then Inl NotNewer
                  else add_version ev token img (close_version r token h) None True)
           else
             (case predecessor of
                None \<Rightarrow> Inl NoPredecessor
              | Some r \<Rightarrow>
                  add_version ev token img (close_version r token h) (map_option hr_valid_from successor) False)))"

definition place_event ::
  "scd2_env \<Rightarrow> scd2_bundle \<Rightarrow> scd2_event \<Rightarrow> string \<Rightarrow> history \<Rightarrow> scd2_error + (bool \<times> history)" where
  \<comment> \<open>\<open>apply_event\<close> after the claim; the flag is \<open>SCD2ApplyResult.current\<close>\<close>
  "place_event env b ev token h =
     (let rows = history_rows h (source_identity ev) in
      if 1 < length (filter hr_is_current rows) then Inl ManyCurrent
      else if list_ex (\<lambda>r. hr_valid_from r = token) rows then Inl SharedToken
      else
        rbind (event_image env b ev) (\<lambda>img.
        if rows = [] then
          (if sv_operation ev \<notin> {''c'', ''r''} then Inl NoPredecessor else add_version ev token img h None True)
        else place_among ev token img h))"

definition apply_event ::
  "scd2_env \<Rightarrow> scd2_bundle \<Rightarrow> scd2_event \<Rightarrow> scd2_store \<Rightarrow> scd2_error + (apply_result \<times> scd2_store)" where
  "apply_event env b ev st =
     (if lf_relation_generation (ei_facts (sv_identity ev)) \<noteq> Some (sb_relation_generation b) then Inl CrossGeneration
      else
        rbind (transaction_order_token (sv_identity ev)) (\<lambda>token.
        rbind (ensure_bundle b st) (\<lambda>st1.
        case claim_event_ledger (sv_pipeline ev)
               \<lparr>cl_identity = sv_identity ev, cl_target_table = sv_target_table ev,
                cl_source_lsn = lf_source_lsn (ei_facts (sv_identity ev)), cl_snapshot = False,
                cl_state = ''applied'', cl_now = se_now env\<rparr> (ss_ledger st1) of
          Inl e \<Rightarrow> Inl (LedgerRefused e)
        | Inr (True, _) \<Rightarrow>
            Inr (\<lparr>ar_event_id = sv_event_id ev, ar_replayed = True, ar_order_token = token, ar_current = False\<rparr>, st1)
        | Inr (False, led) \<Rightarrow>
            rbind (place_event env b ev token (history_of b st1)) (\<lambda>(cur, h).
              Inr (\<lparr>ar_event_id = sv_event_id ev, ar_replayed = False, ar_order_token = token, ar_current = cur\<rparr>,
                   set_history b h (st1\<lparr>ss_ledger := led\<rparr>))))))"

definition table_key :: "string \<Rightarrow> string \<Rightarrow> json_object" where
  "table_key schema tab = [(''__table__'', JStr (schema @ ''.'' @ tab))]"

definition truncate_marker :: "scd2_table_event \<Rightarrow> string \<Rightarrow> history_row" where
  "truncate_marker te token =
     (let key = table_key (te_source_schema te) (te_source_table te) in
      new_version
        \<lparr>sv_pipeline = te_pipeline te, sv_target_table = te_target_table te, sv_source_schema = te_source_schema te,
         sv_source_table = te_source_table te, sv_event_id = te_event_id te, sv_operation = ''t'', sv_key = key,
         sv_before = None, sv_after = None, sv_identity = te_identity te, sv_observed_at = None\<rparr>
        (canonical_json (JObj key)) token None False None)"

definition close_current :: "string \<Rightarrow> history \<Rightarrow> history" where
  "close_current token h =
     map (\<lambda>r. if hr_is_current r then r\<lparr>hr_valid_to := Some token, hr_is_current := False\<rparr> else r) h"

definition apply_truncate ::
  "scd2_env \<Rightarrow> scd2_bundle \<Rightarrow> scd2_table_event \<Rightarrow> scd2_store \<Rightarrow> scd2_error + (apply_result \<times> scd2_store)" where
  "apply_truncate env b te st =
     rbind (ensure_bundle b st) (\<lambda>st1.
     rbind (transaction_order_token (te_identity te)) (\<lambda>token.
     case claim_event_ledger (te_pipeline te)
            \<lparr>cl_identity = te_identity te, cl_target_table = te_target_table te,
             cl_source_lsn = lf_source_lsn (ei_facts (te_identity te)), cl_snapshot = False,
             cl_state = ''applied'', cl_now = se_now env\<rparr> (ss_ledger st1) of
       Inl e \<Rightarrow> Inl (LedgerRefused e)
     | Inr (True, _) \<Rightarrow>
         Inr (\<lparr>ar_event_id = te_event_id te, ar_replayed = True, ar_order_token = token, ar_current = False\<rparr>, st1)
     | Inr (False, led) \<Rightarrow>
         rbind (insert_version (truncate_marker te token) (close_current token (history_of b st1))) (\<lambda>h.
           Inr (\<lparr>ar_event_id = te_event_id te, ar_replayed = False, ar_order_token = token, ar_current = False\<rparr>,
                set_history b h (st1\<lparr>ss_ledger := led\<rparr>)))))"

section \<open>What the queries return\<close>

lemma history_rows_set [simp]: "set (history_rows h i) = {r \<in> set h. hr_source_identity r = i}"
  by (auto simp: history_rows_def)

lemma history_rows_sorted: "sorted (map hr_valid_from (history_rows h i))"
  by (simp add: history_rows_def)

lemma find_least:
  assumes "sorted (map f xs)" and "find (\<lambda>r. t < f r) xs = Some r"
  shows "r \<in> set xs \<and> t < f r \<and> (\<forall>w \<in> set xs. t < f w \<longrightarrow> f r \<le> f w)"
  using assms by (induction xs) (auto split: if_splits)

lemma find_greatest:
  assumes "sorted (map f xs)" and "find (\<lambda>r. f r < t) (rev xs) = Some r"
  shows "r \<in> set xs \<and> f r < t \<and> (\<forall>w \<in> set xs. f w < t \<longrightarrow> f w \<le> f r)"
  using assms
proof (induction xs rule: rev_induct)
  case (snoc x xs)
  then show ?case by (auto simp: sorted_append split: if_splits)
qed simp

lemma truncate_boundary_ge:
  assumes "r \<in> set h" and "hr_operation r = ''t''"
  shows "\<exists>t. truncate_boundary h = Some t \<and> hr_valid_from r \<le> t"
  using assms unfolding truncate_boundary_def
proof (induction h)
  case (Cons x h)
  then show ?case by (auto split: option.splits simp: max.coboundedI2)
qed simp

text \<open>
  The specification of a placement. A version \<open>v\<close> is appended when its row has no version or only
  versions that a truncate closed before it, it replaces the current version when it is newer, and
  otherwise it goes between its neighbours in source order.
\<close>

inductive version_step :: "history \<Rightarrow> history_row \<Rightarrow> history \<Rightarrow> bool" where
  first: "version_step h v (h @ [v])"
  if "\<forall>r \<in> set h. hr_source_identity r \<noteq> hr_source_identity v"
    "hr_valid_to v = None" "hr_is_current v" "hr_event_id v \<notin> hr_event_id ` set h"
| reborn: "version_step h v (h @ [v])"
  if "\<forall>r \<in> set h. hr_source_identity r = hr_source_identity v \<longrightarrow> \<not> hr_is_current r"
    "truncate_boundary h = Some t" "t < hr_valid_from v"
    "\<forall>r \<in> set h. hr_source_identity r = hr_source_identity v \<longrightarrow> hr_valid_from r \<noteq> hr_valid_from v"
    "hr_valid_to v = None" "hr_is_current v" "hr_event_id v \<notin> hr_event_id ` set h"
| newest: "version_step h v (close_version r (hr_valid_from v) h @ [v])"
  if "r \<in> set h" "hr_source_identity r = hr_source_identity v" "hr_is_current r" "hr_valid_from r < hr_valid_from v"
    "\<forall>r \<in> set h. hr_source_identity r = hr_source_identity v \<longrightarrow> hr_valid_from r \<noteq> hr_valid_from v"
    "hr_valid_to v = None" "hr_is_current v" "hr_event_id v \<notin> hr_event_id ` set h"
| late: "version_step h v (close_version r (hr_valid_from v) h @ [v])"
  if "r \<in> set h" "hr_source_identity r = hr_source_identity v" "hr_valid_from r < hr_valid_from v"
    "\<forall>w \<in> set h. hr_source_identity w = hr_source_identity v \<longrightarrow> hr_valid_from w < hr_valid_from v \<longrightarrow>
       hr_valid_from w \<le> hr_valid_from r"
    "s \<in> set h" "hr_source_identity s = hr_source_identity v" "hr_valid_from v < hr_valid_from s"
    "\<forall>w \<in> set h. hr_source_identity w = hr_source_identity v \<longrightarrow> hr_valid_from v < hr_valid_from w \<longrightarrow>
       hr_valid_from s \<le> hr_valid_from w"
    "c \<in> set h" "hr_source_identity c = hr_source_identity v" "hr_is_current c" "hr_valid_from v < hr_valid_from c"
    "\<forall>r \<in> set h. hr_source_identity r = hr_source_identity v \<longrightarrow> hr_valid_from r \<noteq> hr_valid_from v"
    "hr_valid_to v = Some (hr_valid_from s)" "\<not> hr_is_current v" "hr_event_id v \<notin> hr_event_id ` set h"

lemma new_version_simps [simp]:
  "hr_source_identity (new_version ev i token valid_to cur img) = i"
  "hr_valid_from (new_version ev i token valid_to cur img) = token"
  "hr_valid_to (new_version ev i token valid_to cur img) = valid_to"
  "hr_is_current (new_version ev i token valid_to cur img) = cur"
  "hr_operation (new_version ev i token valid_to cur img) = sv_operation ev"
  "hr_event_id (new_version ev i token valid_to cur img) = sv_event_id ev"
  "hr_image_json (new_version ev i token valid_to cur img) = map_option (\<lambda>(raw, _). canonical_json (JObj raw)) img"
  by (simp_all add: new_version_def)

lemma close_version_ids [simp]: "hr_event_id ` set (close_version r token h) = hr_event_id ` set h"
proof -
  have "map hr_event_id (close_version r token h) = map hr_event_id h" by (simp add: close_version_def)
  then show ?thesis by (metis image_set)
qed

lemma add_version_Inr:
  assumes "add_version ev token img h valid_to cur = Inr (c, h')"
  shows "c = cur \<and> h' = h @ [new_version ev (source_identity ev) token valid_to cur img] \<and>
    sv_event_id ev \<notin> hr_event_id ` set h"
  using assms by (auto simp: add_version_def insert_version_def split: if_splits)

lemma place_among_step:
  assumes "place_among ev token img h = Inr (cur, h')"
    and unique: "\<forall>r \<in> set h. hr_source_identity r = source_identity ev \<longrightarrow> hr_valid_from r \<noteq> token"
  shows "\<exists>valid_to. version_step h (new_version ev (source_identity ev) token valid_to cur img) h'"
proof -
  let ?i = "source_identity ev"
  let ?rows = "history_rows h ?i"
  let ?p = "find (\<lambda>r. hr_valid_from r < token) (rev ?rows)" and ?s = "find (\<lambda>r. token < hr_valid_from r) ?rows"
  show ?thesis
  proof (cases "filter hr_is_current ?rows")
    case Nil
    then have none: "\<forall>r \<in> set h. hr_source_identity r = ?i \<longrightarrow> \<not> hr_is_current r"
      by (auto simp: filter_empty_conv)
    from assms(1) Nil obtain t where t: "truncate_boundary h = Some t" "t < token"
      and add: "add_version ev token img h None True = Inr (cur, h')"
      by (auto simp: place_among_def Let_def rbind_eq_Inr split: if_splits option.splits)
    from add_version_Inr [OF add] show ?thesis
      using version_step.reborn [of h "new_version ev ?i token None True img" t] none t unique
      by (intro exI [of _ None]) simp
  next
    case (Cons c cs)
    then have c: "c \<in> set h" "hr_source_identity c = ?i" "hr_is_current c"
      using Cons_eq_filterD [OF Cons [symmetric]] history_rows_set by (metis (mono_tags, lifting) Un_iff list.set_intros(1) mem_Collect_eq set_append)+
    show ?thesis
    proof (cases "token < hr_valid_from c")
      case False
      then have lt: "hr_valid_from c < token" using unique c by force
      from assms(1) Cons False have "add_version ev token img (close_version c token h) None True = Inr (cur, h')"
        by (auto simp: place_among_def Let_def rbind_eq_Inr split: if_splits)
      from add_version_Inr [OF this] show ?thesis
        using version_step.newest [of c h "new_version ev ?i token None True img"] c lt unique
        by (intro exI [of _ None]) simp
    next
      case late: True
      then have "?s \<noteq> None" using c by (auto simp: find_None_iff)
      then obtain s where s: "?s = Some s" by blast
      from assms(1) Cons late obtain r where r: "?p = Some r"
        and "add_version ev token img (close_version r token h) (map_option hr_valid_from ?s) False = Inr (cur, h')"
        by (auto simp: place_among_def Let_def rbind_eq_Inr split: if_splits option.splits)
      note add = add_version_Inr [OF this(2)]
      note g = find_greatest [OF history_rows_sorted r] and l = find_least [OF history_rows_sorted s]
      from add show ?thesis
        using version_step.late [of r h "new_version ev ?i token (Some (hr_valid_from s)) False img" s c] c late g l s unique
        by (intro exI [of _ "Some (hr_valid_from s)"]) simp
    qed
  qed
qed

lemma place_event_step:
  assumes "place_event env b ev token h = Inr (cur, h')"
  shows "\<exists>img valid_to. event_image env b ev = Inr img \<and>
    version_step h (new_version ev (source_identity ev) token valid_to cur img) h'"
proof -
  let ?i = "source_identity ev"
  have unique: "\<forall>r \<in> set h. hr_source_identity r = ?i \<longrightarrow> hr_valid_from r \<noteq> token"
    using assms by (auto simp: place_event_def Let_def list_ex_iff split: if_splits)
  obtain img where img: "event_image env b ev = Inr img"
    using assms by (cases "event_image env b ev") (auto simp: place_event_def Let_def split: if_splits)
  show ?thesis
  proof (cases "history_rows h ?i = []")
    case True
    then have "add_version ev token img h None True = Inr (cur, h')"
      using assms img by (auto simp: place_event_def Let_def split: if_splits)
    moreover from True have "\<forall>r \<in> set h. hr_source_identity r \<noteq> ?i"
      using history_rows_set [of h ?i] by (metis (mono_tags, lifting) empty_Collect_eq set_empty)
    ultimately show ?thesis using img add_version_Inr
      by (intro exI [of _ img] exI [of _ None]) (fastforce intro!: version_step.first)
  next
    case False
    then have "place_among ev token img h = Inr (cur, h')"
      using assms img by (auto simp: place_event_def Let_def split: if_splits)
    from place_among_step [OF this unique] show ?thesis using img by blast
  qed
qed

section \<open>The invariant\<close>

text \<open>
  Versions of one source row start at different tokens, a version is current exactly while it
  has no end, and an ended version ends after it starts and before or when a later version starts; the
  newest version of a row can only be ended by a truncate. \<open>m\<close> is the identity of the markers.
\<close>

definition version_ok :: "history \<Rightarrow> history_row \<Rightarrow> bool" where
  "version_ok h v \<longleftrightarrow>
     (hr_is_current v \<longleftrightarrow> hr_valid_to v = None) \<and>
     (\<forall>t. hr_valid_to v = Some t \<longrightarrow> hr_valid_from v < t \<and>
        ((\<exists>w \<in> set h. hr_source_identity w = hr_source_identity v \<and> hr_valid_from v < hr_valid_from w) \<or>
         (\<exists>w \<in> set h. hr_operation w = ''t'' \<and> hr_valid_from w = t))) \<and>
     (\<forall>w \<in> set h. hr_source_identity w = hr_source_identity v \<longrightarrow>
        (hr_valid_from w = hr_valid_from v \<longrightarrow> w = v) \<and>
        (hr_valid_from v < hr_valid_from w \<longrightarrow> (\<exists>t. hr_valid_to v = Some t \<and> t \<le> hr_valid_from w)))"

definition history_ok :: "string \<Rightarrow> history \<Rightarrow> bool" where
  "history_ok m h \<longleftrightarrow>
     distinct (map hr_event_id h) \<and>
     (\<forall>v \<in> set h. (hr_operation v = ''t'') = (hr_source_identity v = m) \<and>
        (hr_source_identity v = m \<longrightarrow> \<not> hr_is_current v) \<and>
        (hr_source_identity v \<noteq> m \<longrightarrow> version_ok h v))"

lemma history_ok_Nil [simp]: "history_ok m []"
  by (simp add: history_ok_def)

lemma history_okD:
  assumes "history_ok m h" and "v \<in> set h" and "hr_source_identity v \<noteq> m"
  shows "hr_is_current v \<longleftrightarrow> hr_valid_to v = None"
    and "hr_valid_to v = Some t \<Longrightarrow> hr_valid_from v < t"
    and "w \<in> set h \<Longrightarrow> hr_source_identity w = hr_source_identity v \<Longrightarrow> hr_valid_from w = hr_valid_from v \<Longrightarrow> w = v"
    and "w \<in> set h \<Longrightarrow> hr_source_identity w = hr_source_identity v \<Longrightarrow> hr_valid_from v < hr_valid_from w \<Longrightarrow>
      \<exists>t. hr_valid_to v = Some t \<and> t \<le> hr_valid_from w"
    and "hr_valid_to v = Some t \<Longrightarrow>
      (\<exists>w \<in> set h. hr_source_identity w = hr_source_identity v \<and> hr_valid_from v < hr_valid_from w) \<or>
      (\<exists>w \<in> set h. hr_operation w = ''t'' \<and> hr_valid_from w = t)"
  using assms unfolding history_ok_def version_ok_def by blast+

lemma current_is_newest:
  assumes "history_ok m h" and "c \<in> set h" and "hr_source_identity c \<noteq> m" and "hr_is_current c"
    and "w \<in> set h" and "hr_source_identity w = hr_source_identity c"
  shows "hr_valid_from w \<le> hr_valid_from c"
  using history_okD(1,4) [OF assms(1,2,3)] assms(4-6) by fastforce

text \<open>The end of every version of a row without a current version is a truncate's, or before it.\<close>

lemma closed_before_boundary:
  assumes "history_ok m h" and "v \<in> set h" and "hr_source_identity v \<noteq> m"
    and "\<forall>r \<in> set h. hr_source_identity r = hr_source_identity v \<longrightarrow> \<not> hr_is_current r"
    and "truncate_boundary h = Some b"
  shows "\<exists>t. hr_valid_to v = Some t \<and> t \<le> b"
proof -
  let ?S = "{r \<in> set h. hr_source_identity r = hr_source_identity v}"
  let ?x = "Max (hr_valid_from ` ?S)"
  have "?x \<in> hr_valid_from ` ?S" using assms(2) by (intro Max_in) auto
  then obtain w where w: "w \<in> set h" "hr_source_identity w = hr_source_identity v" "hr_valid_from w = ?x" by auto
  have top: "hr_valid_from r \<le> hr_valid_from w" if "r \<in> ?S" for r
    using that w(3) by simp
  have wm: "hr_source_identity w \<noteq> m" using w assms(3) by simp
  have "\<not> hr_is_current w" using assms(4) w by blast
  then obtain t where t: "hr_valid_to w = Some t" using history_okD(1) [OF assms(1) w(1) wm] by auto
  have "\<not> (\<exists>r \<in> set h. hr_source_identity r = hr_source_identity w \<and> hr_valid_from w < hr_valid_from r)"
    using top w(2) by (metis (mono_tags, lifting) leD mem_Collect_eq)
  then have "t \<le> b"
    using history_okD(5) [OF assms(1) w(1) wm t] truncate_boundary_ge assms(5) by (metis option.inject)
  show ?thesis
  proof (cases "v = w")
    case True
    then show ?thesis using t \<open>t \<le> b\<close> by simp
  next
    case False
    then have "hr_valid_from v < hr_valid_from w"
      using top [of v] history_okD(3) [OF assms(1,2,3) w(1,2)] assms(2) by force
    then obtain u where "hr_valid_to v = Some u" "u \<le> hr_valid_from w"
      using history_okD(4) [OF assms(1,2,3) w(1,2)] by blast
    then show ?thesis using history_okD(2) [OF assms(1) w(1) wm t] \<open>t \<le> b\<close> by force
  qed
qed

section \<open>Placements keep the invariant\<close>

lemma history_okI:
  assumes "distinct (map hr_event_id h)"
    and "\<And>v. v \<in> set h \<Longrightarrow> (hr_operation v = ''t'') = (hr_source_identity v = m)"
    and "\<And>v. v \<in> set h \<Longrightarrow> hr_source_identity v = m \<Longrightarrow> \<not> hr_is_current v"
    and "\<And>v. v \<in> set h \<Longrightarrow> hr_source_identity v \<noteq> m \<Longrightarrow> version_ok h v"
  shows "history_ok m h"
  using assms unfolding history_ok_def by blast

lemma history_ok_rows:
  assumes "history_ok m h"
  shows "distinct (map hr_event_id h)"
    and "v \<in> set h \<Longrightarrow> (hr_operation v = ''t'') = (hr_source_identity v = m)"
    and "v \<in> set h \<Longrightarrow> hr_source_identity v = m \<Longrightarrow> \<not> hr_is_current v"
    and "v \<in> set h \<Longrightarrow> hr_source_identity v \<noteq> m \<Longrightarrow> version_ok h v"
  using assms unfolding history_ok_def by blast+

lemma append_version_ok:
  assumes ok: "history_ok m h" and v: "hr_source_identity v \<noteq> m" "hr_operation v \<noteq> ''t''" "hr_valid_to v = None"
      "hr_is_current v" "hr_event_id v \<notin> hr_event_id ` set h"
    and ended: "\<And>r. r \<in> set h \<Longrightarrow> hr_source_identity r = hr_source_identity v \<Longrightarrow>
      \<exists>t. hr_valid_to r = Some t \<and> t \<le> hr_valid_from v"
  shows "history_ok m (h @ [v])"
proof (rule history_okI)
  show "distinct (map hr_event_id (h @ [v]))" using history_ok_rows(1) [OF ok] v(5) by auto
  have before: "hr_valid_from r < hr_valid_from v" if r: "r \<in> set h" "hr_source_identity r = hr_source_identity v" for r
  proof -
    obtain t where t: "hr_valid_to r = Some t" "t \<le> hr_valid_from v" using ended [OF r] by blast
    then show ?thesis using history_okD(2) [OF ok r(1) _ t(1)] r(2) v(1) by force
  qed
  show "version_ok (h @ [v]) x" if x: "x \<in> set (h @ [v])" "hr_source_identity x \<noteq> m" for x
  proof (cases "x = v")
    case True
    then show ?thesis unfolding version_ok_def using v before by fastforce
  next
    case False
    then have "version_ok h x" using history_ok_rows(4) [OF ok] x by simp
    then show ?thesis unfolding version_ok_def using ended [of x] before [of x] x False by auto
  qed
qed (use history_ok_rows(2,3) [OF ok] v in auto)

lemma image_replace: "r \<in> S \<Longrightarrow> (\<lambda>x. if x = r then y else x) ` S = insert y (S - {r})"
  by auto

lemma set_close_version:
  assumes "distinct (map hr_event_id h)" and "r \<in> set h"
  shows "set (close_version r token h) = insert (r\<lparr>hr_valid_to := Some token, hr_is_current := False\<rparr>) (set h - {r})"
proof -
  have id: "hr_event_id x = hr_event_id r \<longleftrightarrow> x = r" if "x \<in> set h" for x
    using that assms by (metis distinct_map inj_onD)
  have "close_version r token h =
      map (\<lambda>x. if x = r then r\<lparr>hr_valid_to := Some token, hr_is_current := False\<rparr> else x) h"
    unfolding close_version_def by (rule map_cong [OF refl]) (simp add: id)
  then show ?thesis using image_replace [OF assms(2)] by (simp only: set_map)
qed

lemma map_ids_close: "map hr_event_id (close_version r token h) = map hr_event_id h"
  by (simp add: close_version_def)

lemma between_version_ok:
  fixes r v :: history_row
  defines "r' \<equiv> r\<lparr>hr_valid_to := Some (hr_valid_from v), hr_is_current := False\<rparr>"
  assumes ok: "history_ok m h" and v: "hr_source_identity v \<noteq> m" "hr_operation v \<noteq> ''t''" "hr_event_id v \<notin> hr_event_id ` set h"
    and r: "r \<in> set h" "hr_source_identity r = hr_source_identity v" "hr_valid_from r < hr_valid_from v"
    and fresh: "\<And>w. w \<in> set h \<Longrightarrow> hr_source_identity w = hr_source_identity v \<Longrightarrow> hr_valid_from w \<noteq> hr_valid_from v"
    and pred: "\<And>w. w \<in> set h \<Longrightarrow> hr_source_identity w = hr_source_identity v \<Longrightarrow>
      hr_valid_from w < hr_valid_from v \<Longrightarrow> hr_valid_from w \<le> hr_valid_from r"
    and new: "hr_is_current v \<longleftrightarrow> hr_valid_to v = None"
      "\<And>t. hr_valid_to v = Some t \<Longrightarrow> hr_valid_from v < t"
      "hr_valid_to v \<noteq> None \<Longrightarrow> \<exists>w \<in> set h. hr_source_identity w = hr_source_identity v \<and> hr_valid_from v < hr_valid_from w"
      "\<And>w. w \<in> set h \<Longrightarrow> hr_source_identity w = hr_source_identity v \<Longrightarrow> hr_valid_from v < hr_valid_from w \<Longrightarrow>
        \<exists>t. hr_valid_to v = Some t \<and> t \<le> hr_valid_from w"
  shows "history_ok m (close_version r (hr_valid_from v) h @ [v])"
proof (rule history_okI)
  let ?h = "close_version r (hr_valid_from v) h @ [v]"
  have rows: "set ?h = insert v (insert r' (set h - {r}))"
    using set_close_version [OF history_ok_rows(1) [OF ok] r(1)] by (simp add: r'_def)
  have r': "hr_source_identity r' = hr_source_identity r" "hr_valid_from r' = hr_valid_from r" "hr_operation r' = hr_operation r"
    "hr_valid_to r' = Some (hr_valid_from v)" "\<not> hr_is_current r'" by (simp_all add: r'_def)
  have rm: "hr_source_identity r \<noteq> m" using r v by simp
  show "distinct (map hr_event_id ?h)" using history_ok_rows(1) [OF ok] v(3) by (auto simp: map_ids_close)
  show "(hr_operation x = ''t'') = (hr_source_identity x = m)" if x: "x \<in> set ?h" for x
  proof -
    consider "x = v" | "x = r'" | "x \<in> set h" using x unfolding rows by auto
    then show ?thesis
      by cases (use v r' rm history_ok_rows(2) [OF ok r(1)] history_ok_rows(2) [OF ok, of x] in simp_all)
  qed
  show "\<not> hr_is_current x" if "x \<in> set ?h" "hr_source_identity x = m" for x
    using that history_ok_rows(3) [OF ok] v r' r(1) unfolding rows by auto
  have later: "\<exists>w \<in> set ?h. hr_source_identity w = i \<and> f < hr_valid_from w"
    if "\<exists>w \<in> set h. hr_source_identity w = i \<and> f < hr_valid_from w" for i f
    using that r' unfolding rows by (metis (no_types, lifting) insertE insertI1 insertI2 insert_Diff r(1))
  have marker: "\<exists>w \<in> set ?h. hr_operation w = ''t'' \<and> hr_valid_from w = t"
    if "\<exists>w \<in> set h. hr_operation w = ''t'' \<and> hr_valid_from w = t" for t
    using that r' unfolding rows by (metis (no_types, lifting) insertE insertI1 insertI2 insert_Diff r(1))
  show "version_ok ?h x" if x: "x \<in> set ?h" "hr_source_identity x \<noteq> m" for x
  proof -
    consider "x = v" | "x = r'" | "x \<in> set h" "x \<noteq> r" "x \<noteq> v" using x(1) unfolding rows by auto
    then show ?thesis
    proof cases
      case 1
      have "(hr_valid_from w = hr_valid_from v \<longrightarrow> w = v) \<and>
          (hr_valid_from v < hr_valid_from w \<longrightarrow> (\<exists>t. hr_valid_to v = Some t \<and> t \<le> hr_valid_from w))"
        if "w \<in> set ?h" "hr_source_identity w = hr_source_identity v" for w
        using that fresh new(4) r r' unfolding rows by auto
      then show ?thesis unfolding version_ok_def 1 using new(1,2) later [OF new(3)] by blast
    next
      case 2
      have "(hr_valid_from w = hr_valid_from r' \<longrightarrow> w = r') \<and>
          (hr_valid_from r' < hr_valid_from w \<longrightarrow> (\<exists>t. hr_valid_to r' = Some t \<and> t \<le> hr_valid_from w))"
        if w: "w \<in> set ?h" "hr_source_identity w = hr_source_identity r'" for w
      proof (cases "w \<in> set h - {r}")
        case True
        then show ?thesis using history_okD(3) [OF ok r(1) rm, of w] pred [of w] w r r' by force
      next
        case False
        then show ?thesis using w r r' unfolding rows by auto
      qed
      moreover have "\<exists>w \<in> set ?h. hr_source_identity w = hr_source_identity r' \<and> hr_valid_from r' < hr_valid_from w"
        using r r' unfolding rows by auto
      ultimately show ?thesis unfolding version_ok_def 2 using r r' by simp
    next
      case 3
      note okx = history_okD [OF ok 3(1) x(2)]
      have "(hr_valid_from w = hr_valid_from x \<longrightarrow> w = x) \<and>
          (hr_valid_from x < hr_valid_from w \<longrightarrow> (\<exists>t. hr_valid_to x = Some t \<and> t \<le> hr_valid_from w))"
        if w: "w \<in> set ?h" "hr_source_identity w = hr_source_identity x" for w
      proof -
        consider "w = v" | "w = r'" | "w \<in> set h" using w unfolding rows by auto
        then show ?thesis
        proof cases
          case 1
          have "hr_valid_from x \<le> hr_valid_from r" if "hr_valid_from x < hr_valid_from v"
            using pred [of x] that 3 w 1 by simp
          then show ?thesis using okx(3,4) [of r] fresh [of x] 3 w r 1 by force
        next
          case 2
          then show ?thesis using okx(3,4) [of r] r r' w 3 by auto
        next
          case 3
          then show ?thesis using okx(3,4) w by blast
        qed
      qed
      then show ?thesis unfolding version_ok_def using okx(1,2,5) later marker by blast
    qed
  qed
qed

lemma version_step_ok:
  assumes "version_step h v h'" and ok: "history_ok m h" and v: "hr_source_identity v \<noteq> m" "hr_operation v \<noteq> ''t''"
  shows "history_ok m h'"
  using assms(1)
proof cases
  case first
  then show ?thesis using append_version_ok [OF ok v] by blast
next
  case (reborn t)
  have "\<exists>u. hr_valid_to r = Some u \<and> u \<le> hr_valid_from v"
    if "r \<in> set h" "hr_source_identity r = hr_source_identity v" for r
    using closed_before_boundary [OF ok that(1) _ _ reborn(3)] that v(1) reborn(2,4) by force
  then show ?thesis using append_version_ok [OF ok v reborn(6-8)] reborn(1) by blast
next
  case (newest r)
  have top: "hr_valid_from w \<le> hr_valid_from r" if "w \<in> set h" "hr_source_identity w = hr_source_identity v" for w
    using current_is_newest [OF ok newest(2) _ newest(4) that(1)] that(2) newest(3) v(1) by simp
  show ?thesis unfolding newest(1)
    by (rule between_version_ok [OF ok v newest(9) newest(2,3,5)]) (use newest top in force)+
next
  case (late r s c)
  show ?thesis unfolding late(1)
    by (rule between_version_ok [OF ok v late(17) late(2,3,4)]) (use late in force)+
qed

lemma truncate_ok:
  assumes ok: "history_ok m h" and newer: "\<And>v. v \<in> set h \<Longrightarrow> hr_is_current v \<Longrightarrow> hr_valid_from v < token"
    and k: "hr_source_identity k = m" "hr_operation k = ''t''" "\<not> hr_is_current k" "hr_valid_from k = token"
      "hr_event_id k \<notin> hr_event_id ` set h"
  shows "history_ok m (close_current token h @ [k])"
proof (rule history_okI)
  define cl :: "history_row \<Rightarrow> history_row" where
    "cl r = (if hr_is_current r then r\<lparr>hr_valid_to := Some token, hr_is_current := False\<rparr> else r)" for r
  let ?h = "close_current token h @ [k]"
  have rows: "x \<in> set ?h \<longleftrightarrow> x = k \<or> (\<exists>r \<in> set h. x = cl r)" for x by (auto simp: close_current_def cl_def)
  have c: "hr_source_identity (cl r) = hr_source_identity r" "hr_valid_from (cl r) = hr_valid_from r"
    "hr_operation (cl r) = hr_operation r" "\<not> hr_is_current (cl r)" "hr_event_id (cl r) = hr_event_id r"
    "hr_valid_to (cl r) = (if hr_is_current r then Some token else hr_valid_to r)" for r by (simp_all add: cl_def)
  have "map hr_event_id (close_current token h) = map hr_event_id h" by (simp add: close_current_def)
  then show "distinct (map hr_event_id ?h)" using history_ok_rows(1) [OF ok] k(5) by simp
  show "(hr_operation x = ''t'') = (hr_source_identity x = m)" if "x \<in> set ?h" for x
    using that history_ok_rows(2) [OF ok] k unfolding rows by (metis c(1,3))
  show "\<not> hr_is_current x" if "x \<in> set ?h" "hr_source_identity x = m" for x
    using that(1) k c(4) unfolding rows by metis
  show "version_ok ?h x" if x: "x \<in> set ?h" "hr_source_identity x \<noteq> m" for x
  proof -
    obtain r where r: "r \<in> set h" "x = cl r" using x k(1) unfolding rows by blast
    then have rm: "hr_source_identity r \<noteq> m" using x(2) c(1) by metis
    note o = history_okD [OF ok r(1) rm]
    have others: "(hr_valid_from w = hr_valid_from (cl r) \<longrightarrow> w = cl r) \<and>
        (hr_valid_from (cl r) < hr_valid_from w \<longrightarrow> (\<exists>t. hr_valid_to (cl r) = Some t \<and> t \<le> hr_valid_from w))"
      if w: "w \<in> set ?h" "hr_source_identity w = hr_source_identity (cl r)" for w
    proof -
      obtain q where q: "q \<in> set h" "w = cl q" using w k(1) rm c(1) unfolding rows by metis
      have same: "hr_source_identity q = hr_source_identity r" using w(2) q(2) c(1) by metis
      have "\<not> hr_is_current r" if "hr_valid_from r < hr_valid_from q"
        using current_is_newest [OF ok r(1) rm _ q(1) same] that by force
      then show ?thesis using o(3,4) [OF q(1) same] q(2) by (auto simp: c(2,6))
    qed
    have ended: "hr_valid_from (cl r) < t \<and>
        ((\<exists>w \<in> set ?h. hr_source_identity w = hr_source_identity (cl r) \<and> hr_valid_from (cl r) < hr_valid_from w) \<or>
         (\<exists>w \<in> set ?h. hr_operation w = ''t'' \<and> hr_valid_from w = t))"
      if t: "hr_valid_to (cl r) = Some t" for t
    proof (cases "hr_is_current r")
      case True
      then have "t = token" using t c(6) by simp
      moreover have "k \<in> set ?h" by simp
      ultimately show ?thesis using newer [OF r(1) True] k c(2) by metis
    next
      case False
      then have t': "hr_valid_to r = Some t" using t c(6) by simp
      have "\<exists>w \<in> set ?h. hr_source_identity w = hr_source_identity q \<and> hr_valid_from w = hr_valid_from q \<and>
          hr_operation w = hr_operation q" if "q \<in> set h" for q
        using c(1-3) [of q] that rows [of "cl q"] by blast
      then show ?thesis using o(2) [OF t'] o(5) [OF t'] c(1,2) by metis
    qed
    have "hr_is_current (cl r) \<longleftrightarrow> hr_valid_to (cl r) = None" using c(4,6) o(1) by auto
    then show ?thesis using others ended unfolding version_ok_def r(2) by blast
  qed
qed

section \<open>Reachable histories\<close>

definition marker_identity :: "scd2_bundle \<Rightarrow> string" where
  "marker_identity b = canonical_json (JObj (table_key (sb_source_schema b) (sb_source_table b)))"

datatype history_op =
    RowEvent scd2_event
  | TableTruncate scd2_table_event

definition apply_op ::
  "scd2_env \<Rightarrow> scd2_bundle \<Rightarrow> history_op \<Rightarrow> scd2_store \<Rightarrow> scd2_error + (apply_result \<times> scd2_store)" where
  "apply_op env b op st =
     (case op of RowEvent ev \<Rightarrow> apply_event env b ev st | TableTruncate te \<Rightarrow> apply_truncate env b te st)"

text \<open>
  The operations of one relation: row events with an operation that \<open>from_pending\<close> admits and a key
  that is not the reserved key of the markers, in any order, and truncates of this relation that
  are newer than the versions they close.
\<close>

definition admitted_op :: "scd2_bundle \<Rightarrow> history_op \<Rightarrow> bool" where
  "admitted_op b op =
     (case op of
        RowEvent ev \<Rightarrow> sv_operation ev \<in> {''c'', ''r'', ''u'', ''d''} \<and> source_identity ev \<noteq> marker_identity b
      | TableTruncate te \<Rightarrow> te_source_schema te = sb_source_schema b \<and> te_source_table te = sb_source_table b)"

definition truncate_in_order :: "scd2_bundle \<Rightarrow> history_op \<Rightarrow> string \<Rightarrow> scd2_store \<Rightarrow> bool" where
  "truncate_in_order b op token st =
     (case op of
        RowEvent _ \<Rightarrow> True
      | TableTruncate _ \<Rightarrow> list_all (\<lambda>v. hr_is_current v \<longrightarrow> hr_valid_from v < token) (history_of b st))"

inductive history_reachable :: "scd2_env \<Rightarrow> scd2_bundle \<Rightarrow> scd2_store \<Rightarrow> bool" for env b where
  empty: "history_reachable env b st" if "history_of b st = []"
| step: "history_reachable env b st'"
  if "history_reachable env b st" "admitted_op b op" "apply_op env b op st = Inr (res, st')"
    "truncate_in_order b op (ar_order_token res) st"

lemma ensure_bundle_history:
  assumes "ensure_bundle b st = Inr st'"
  shows "history_of b st' = history_of b st \<and> ss_ledger st' = ss_ledger st"
  using assms by (cases "source_columns b") (auto simp: ensure_bundle_def history_of_def)

lemma set_history_same [simp]: "history_of b (set_history b h st) = h"
  by (simp add: history_of_def set_history_def)

lemma history_of_ledger [simp]: "history_of b (st\<lparr>ss_ledger := l\<rparr>) = history_of b st"
  by (simp add: history_of_def)

text \<open>An applied operation leaves the history alone when it was replayed, and otherwise makes one step.\<close>

lemma apply_event_step:
  assumes "apply_event env b ev st = Inr (res, st')"
  shows "(ar_replayed res \<and> \<not> ar_current res \<and> history_of b st' = history_of b st) \<or>
    (\<not> ar_replayed res \<and> (\<exists>img valid_to. event_image env b ev = Inr img \<and>
       version_step (history_of b st)
         (new_version ev (source_identity ev) (ar_order_token res) valid_to (ar_current res) img) (history_of b st')))"
proof -
  obtain token st1 where t: "transaction_order_token (sv_identity ev) = Inr token" and e: "ensure_bundle b st = Inr st1"
    using assms by (auto simp: apply_event_def rbind_eq_Inr split: if_splits)
  let ?claim = "\<lparr>cl_identity = sv_identity ev, cl_target_table = sv_target_table ev,
    cl_source_lsn = lf_source_lsn (ei_facts (sv_identity ev)), cl_snapshot = False, cl_state = ''applied'', cl_now = se_now env\<rparr>"
  obtain replayed led where c: "claim_event_ledger (sv_pipeline ev) ?claim (ss_ledger st1) = Inr (replayed, led)"
    using assms t e by (cases "claim_event_ledger (sv_pipeline ev) ?claim (ss_ledger st1)")
      (auto simp: apply_event_def split: if_splits)
  note h = ensure_bundle_history [OF e]
  show ?thesis
  proof (cases replayed)
    case True
    then show ?thesis using assms t e c h by (auto simp: apply_event_def split: if_splits)
  next
    case False
    then obtain cur h' where p: "place_event env b ev token (history_of b st) = Inr (cur, h')"
      and r: "res = \<lparr>ar_event_id = sv_event_id ev, ar_replayed = False, ar_order_token = token, ar_current = cur\<rparr>"
      "history_of b st' = h'"
      using assms t e c h by (auto simp: apply_event_def rbind_eq_Inr split: if_splits)
    from place_event_step [OF p] show ?thesis by (simp add: r)
  qed
qed

lemma apply_truncate_step:
  assumes "apply_truncate env b te st = Inr (res, st')"
  shows "(ar_replayed res \<and> history_of b st' = history_of b st) \<or>
    (\<not> ar_replayed res \<and> te_event_id te \<notin> hr_event_id ` set (history_of b st) \<and>
     history_of b st' = close_current (ar_order_token res) (history_of b st) @ [truncate_marker te (ar_order_token res)])"
proof -
  obtain token st1 where t: "transaction_order_token (te_identity te) = Inr token" and e: "ensure_bundle b st = Inr st1"
    using assms by (auto simp: apply_truncate_def rbind_eq_Inr)
  let ?claim = "\<lparr>cl_identity = te_identity te, cl_target_table = te_target_table te,
    cl_source_lsn = lf_source_lsn (ei_facts (te_identity te)), cl_snapshot = False, cl_state = ''applied'', cl_now = se_now env\<rparr>"
  obtain replayed led where c: "claim_event_ledger (te_pipeline te) ?claim (ss_ledger st1) = Inr (replayed, led)"
    using assms t e by (cases "claim_event_ledger (te_pipeline te) ?claim (ss_ledger st1)")
      (auto simp: apply_truncate_def)
  note h = ensure_bundle_history [OF e]
  show ?thesis
  proof (cases replayed)
    case True
    then show ?thesis using assms t e c h by (auto simp: apply_truncate_def)
  next
    case False
    have "map hr_event_id (close_current token (history_of b st)) = map hr_event_id (history_of b st)"
      by (simp add: close_current_def)
    then have "hr_event_id ` set (close_current token (history_of b st)) = hr_event_id ` set (history_of b st)"
      by (metis image_set)
    then show ?thesis using assms t e c h False
      by (auto simp: apply_truncate_def insert_version_def truncate_marker_def Let_def split: if_splits)
  qed
qed

lemma truncate_marker_simps [simp]:
  "hr_source_identity (truncate_marker te token) = canonical_json (JObj (table_key (te_source_schema te) (te_source_table te)))"
  "hr_operation (truncate_marker te token) = ''t''" "\<not> hr_is_current (truncate_marker te token)"
  "hr_valid_from (truncate_marker te token) = token" "hr_event_id (truncate_marker te token) = te_event_id te"
  by (simp_all add: truncate_marker_def Let_def)

lemma apply_op_ok:
  assumes "history_ok (marker_identity b) (history_of b st)" and "admitted_op b op"
    and "apply_op env b op st = Inr (res, st')" and "truncate_in_order b op (ar_order_token res) st"
  shows "history_ok (marker_identity b) (history_of b st')"
proof (cases op)
  case (RowEvent ev)
  then show ?thesis using apply_event_step [of env b ev st res st'] assms version_step_ok [OF _ assms(1)]
    by (fastforce simp: apply_op_def admitted_op_def)
next
  case (TableTruncate te)
  have k: "hr_source_identity (truncate_marker te (ar_order_token res)) = marker_identity b"
    using assms(2) TableTruncate by (simp add: admitted_op_def marker_identity_def)
  have "history_ok (marker_identity b)
      (close_current (ar_order_token res) (history_of b st) @ [truncate_marker te (ar_order_token res)])"
    if "te_event_id te \<notin> hr_event_id ` set (history_of b st)"
    by (rule truncate_ok [OF assms(1) _ k])
      (use that assms(4) TableTruncate in \<open>auto simp: truncate_in_order_def list_all_iff\<close>)
  then show ?thesis using apply_truncate_step [of env b te st res st'] assms(1,3) TableTruncate
    by (auto simp: apply_op_def)
qed

lemma reachable_ok: "history_reachable env b st \<Longrightarrow> history_ok (marker_identity b) (history_of b st)"
proof (induction rule: history_reachable.induct)
  case (step st op res st')
  then show ?case by (blast intro: apply_op_ok)
qed simp

text \<open>Running a list of operations from a store, while they are admitted and applied.\<close>

fun run_history :: "scd2_env \<Rightarrow> scd2_bundle \<Rightarrow> history_op list \<Rightarrow> scd2_store \<Rightarrow> scd2_store option" where
  "run_history env b [] st = Some st"
| "run_history env b (op # ops) st =
     (case apply_op env b op st of
        Inl _ \<Rightarrow> None
      | Inr (res, st') \<Rightarrow>
          if admitted_op b op \<and> truncate_in_order b op (ar_order_token res) st then run_history env b ops st' else None)"

lemma run_history_reachable:
  assumes "run_history env b ops st = Some st'" and "history_reachable env b st"
  shows "history_reachable env b st'"
  using assms
  by (induction ops arbitrary: st)
    (auto split: sum.splits prod.splits if_splits intro: history_reachable.step)

section \<open>The current view\<close>

definition view_image :: "history \<Rightarrow> string \<Rightarrow> string option" where
  "view_image h i = Option.bind (find (\<lambda>r. hr_source_identity r = i) (current_view h)) hr_image_json"

lemma current_unique:
  assumes "history_ok m h" and "r \<in> set h" and "hr_is_current r" and "s \<in> set h" and "hr_is_current s"
    and "hr_source_identity r = hr_source_identity s"
  shows "r = s"
proof -
  have m: "hr_source_identity r \<noteq> m" "hr_source_identity s \<noteq> m" using history_ok_rows(3) [OF assms(1)] assms(2-6) by auto
  have "hr_valid_from r = hr_valid_from s"
    using current_is_newest [OF assms(1,2) m(1) assms(3,4)] current_is_newest [OF assms(1,4) m(2) assms(5,2)] assms(6) by simp
  then show ?thesis using history_okD(3) [OF assms(1,4) m(2) assms(2)] assms(6) by simp
qed

lemma view_of_current:
  assumes "history_ok m h" and "r \<in> set h" and "hr_is_current r"
  shows "view_image h (hr_source_identity r) = (if hr_operation r = ''d'' then None else hr_image_json r)"
proof -
  have same: "x = r" if "x \<in> set h" "hr_is_current x" "hr_source_identity x = hr_source_identity r" for x
    using current_unique [OF assms(1) that(1,2) assms(2,3) that(3)] .
  show ?thesis
  proof (cases "find (\<lambda>x. hr_source_identity x = hr_source_identity r) (current_view h)")
    case None
    then have "view_image h (hr_source_identity r) = None" by (simp add: view_image_def)
    moreover have "hr_operation r = ''d''" using None assms by (auto simp: current_view_def find_None_iff)
    ultimately show ?thesis by simp
  next
    case (Some x)
    then have "x \<in> set (current_view h)" "hr_source_identity x = hr_source_identity r"
      unfolding find_Some_iff by auto
    then have "x = r" "hr_operation r \<noteq> ''d''" using same unfolding current_view_def by auto
    then show ?thesis using Some by (simp add: view_image_def)
  qed
qed

lemma view_of_none:
  assumes "\<And>r. r \<in> set h \<Longrightarrow> hr_source_identity r = i \<Longrightarrow> \<not> hr_is_current r"
  shows "view_image h i = None"
proof -
  have "find (\<lambda>r. hr_source_identity r = i) (current_view h) = None"
    using assms by (auto simp: current_view_def find_None_iff)
  then show ?thesis by (simp add: view_image_def)
qed

lemma view_cong:
  assumes "history_ok m h" and "history_ok m h'"
    and "\<And>r. hr_source_identity r = i \<Longrightarrow> hr_is_current r \<Longrightarrow> r \<in> set h \<longleftrightarrow> r \<in> set h'"
  shows "view_image h i = view_image h' i"
proof (cases "\<exists>r \<in> set h. hr_source_identity r = i \<and> hr_is_current r")
  case True
  then obtain r where "r \<in> set h" "hr_source_identity r = i" "hr_is_current r" by blast
  then show ?thesis using view_of_current assms by metis
next
  case False
  then have "view_image h i = None" "view_image h' i = None"
    using assms(3) by (intro view_of_none; blast)+
  then show ?thesis by simp
qed

text \<open>How a step changes the current rows.\<close>

lemma version_step_rows:
  assumes "version_step h v h'" and "history_ok m h"
  shows "v \<in> set h'" and "hr_source_identity w \<noteq> hr_source_identity v \<Longrightarrow> w \<in> set h' \<longleftrightarrow> w \<in> set h"
    and "\<not> hr_is_current v \<Longrightarrow> \<exists>c \<in> set h. c \<in> set h' \<and> hr_is_current c \<and> hr_source_identity c = hr_source_identity v \<and>
      hr_valid_from v < hr_valid_from c"
    and "hr_is_current v \<Longrightarrow> hr_source_identity v \<noteq> m \<Longrightarrow> w \<in> set h \<Longrightarrow> hr_source_identity w = hr_source_identity v \<Longrightarrow>
      hr_valid_from w < hr_valid_from v"
proof -
  note ids = history_ok_rows(1) [OF assms(2)]
  show "v \<in> set h'" using assms(1) by cases auto
  show "w \<in> set h' \<longleftrightarrow> w \<in> set h" if "hr_source_identity w \<noteq> hr_source_identity v"
    using assms(1) by cases (use that set_close_version [OF ids] in auto)
  show "\<exists>c \<in> set h. c \<in> set h' \<and> hr_is_current c \<and> hr_source_identity c = hr_source_identity v \<and>
      hr_valid_from v < hr_valid_from c" if "\<not> hr_is_current v"
    using assms(1)
  proof cases
    case (late r s c)
    moreover have "c \<noteq> r" using late by auto
    ultimately show ?thesis using set_close_version [OF ids, of r] by auto
  qed (use that in auto)
  show "hr_valid_from w < hr_valid_from v"
    if a: "hr_is_current v" "hr_source_identity v \<noteq> m" "w \<in> set h" "hr_source_identity w = hr_source_identity v"
    using assms(1)
  proof cases
    case (reborn t)
    obtain u where u: "hr_valid_to w = Some u" "u \<le> t"
      using closed_before_boundary [OF assms(2) a(3) _ _ reborn(3)] a reborn(2) by auto
    then show ?thesis using history_okD(2) [OF assms(2) a(3) _ u(1)] a reborn(4) by force
  next
    case (newest r)
    then show ?thesis using current_is_newest [OF assms(2) newest(2) _ newest(4) a(3)] a by force
  qed (use a in auto)
qed

lemma version_step_view:
  assumes "version_step h v h'" and ok: "history_ok m h" and v: "hr_source_identity v \<noteq> m" "hr_operation v \<noteq> ''t''"
  shows "view_image h' = (if hr_is_current v
      then (view_image h)(hr_source_identity v := if hr_operation v = ''d'' then None else hr_image_json v)
      else view_image h)"
proof
  fix i
  note ok' = version_step_ok [OF assms] and rows = version_step_rows [OF assms(1) ok]
  show "view_image h' i = (if hr_is_current v
      then (view_image h)(hr_source_identity v := if hr_operation v = ''d'' then None else hr_image_json v)
      else view_image h) i"
  proof (cases "i = hr_source_identity v")
    case False
    then have "view_image h i = view_image h' i" using rows(2) by (intro view_cong [OF ok ok']) auto
    then show ?thesis using False by simp
  next
    case True
    show ?thesis
    proof (cases "hr_is_current v")
      case cur: True
      then show ?thesis using True view_of_current [OF ok' rows(1)] by simp
    next
      case False
      from rows(3) [OF False] obtain c where c: "c \<in> set h" "c \<in> set h'" "hr_is_current c" "hr_source_identity c = i"
        using True by blast
      have "view_image h' i = view_image h i"
        using view_of_current [OF ok c(1,3)] view_of_current [OF ok' c(2,3)] unfolding c(4) by simp
      then show ?thesis using False by simp
    qed
  qed
qed

section \<open>Examples\<close>

text \<open>One relation with the columns \<open>a\<close> and \<open>b\<close>, keyed by \<open>a\<close>; the event at LSN \<open>n\<close> sets \<open>b\<close>.\<close>

definition demo_env :: scd2_env where
  "demo_env = \<lparr>se_normalize = (\<lambda>s. s), se_encode = (\<lambda>_ v. Some v), se_timestamp = (\<lambda>_. None), se_now = 0\<rparr>"

definition demo_bundle :: scd2_bundle where
  "demo_bundle = \<lparr>sb_pipeline = ''p'', sb_source_schema = ''s'', sb_source_table = ''t'', sb_target_table = ''d'',
     sb_columns = [''a'', ''b''], sb_key_columns = [''a''], sb_relation_generation = ''g'', sb_history_table = Some ''h'',
     sb_current_view = Some ''v'', sb_policy_epoch = 0\<rparr>"

definition demo_store :: scd2_store where
  "demo_store = \<lparr>ss_ledger = [], ss_histories = [], ss_views = [], ss_bundles = []\<rparr>"

definition demo_identity :: "int \<Rightarrow> event_identity" where
  "demo_identity n = \<lparr>ei_event_id = str_int n,
     ei_facts = (sample_facts ''x'' n)\<lparr>lf_commit_lsn := Some n\<rparr>, ei_strong = True\<rparr>"

definition demo_row :: "int \<Rightarrow> json_object" where
  "demo_row v = [(''a'', JInt 1), (''b'', JInt v)]"

definition demo_event :: "int \<Rightarrow> string \<Rightarrow> int option \<Rightarrow> int option \<Rightarrow> scd2_event" where
  "demo_event n operation old new = \<lparr>sv_pipeline = ''p'', sv_target_table = ''d'', sv_source_schema = ''s'',
     sv_source_table = ''t'', sv_event_id = str_int n, sv_operation = operation, sv_key = [(''a'', JInt 1)],
     sv_before = map_option demo_row old, sv_after = map_option demo_row new, sv_identity = demo_identity n,
     sv_observed_at = None\<rparr>"

definition demo_truncate :: "int \<Rightarrow> scd2_table_event" where
  "demo_truncate n = \<lparr>te_pipeline = ''p'', te_target_table = ''d'', te_source_schema = ''s'', te_source_table = ''t'',
     te_event_id = str_int n, te_identity = demo_identity n\<rparr>"

definition demo_key :: string where
  "demo_key = source_identity (demo_event 1 ''c'' None None)"

definition demo_token :: "int \<Rightarrow> string" where
  "demo_token n = projr (transaction_order_token (demo_identity n))"

lemma demo_reachable: "history_reachable demo_env demo_bundle demo_store"
  by (rule history_reachable.empty) (simp add: history_of_def demo_store_def)

section \<open>The properties\<close>

text \<open>The versions of a row that are valid at an order token.\<close>

definition versions_at :: "history \<Rightarrow> string \<Rightarrow> string \<Rightarrow> history" where
  "versions_at h i token =
     filter (\<lambda>r. hr_source_identity r = i \<and> hr_valid_from r \<le> token \<and>
                 (case hr_valid_to r of None \<Rightarrow> True | Some t \<Rightarrow> token < t)) h"

lemma at_most_one: "distinct xs \<Longrightarrow> (\<And>x y. x \<in> set xs \<Longrightarrow> y \<in> set xs \<Longrightarrow> x = y) \<Longrightarrow> length xs \<le> 1"
  using card_le_Suc0_iff_eq [of "set xs"] by (auto simp: distinct_card)

lemma history_ok_versions_at:
  assumes "history_ok m h" and "i \<noteq> m"
  shows "length (versions_at h i token) \<le> 1"
proof (rule at_most_one)
  show "distinct (versions_at h i token)"
    using history_ok_rows(1) [OF assms(1)] by (simp add: versions_at_def distinct_map)
  fix x y assume xy: "x \<in> set (versions_at h i token)" "y \<in> set (versions_at h i token)"
  then have x: "x \<in> set h" "hr_source_identity x = i" and y: "y \<in> set h" "hr_source_identity y = i"
    by (simp_all add: versions_at_def)
  have "\<not> hr_valid_from u < hr_valid_from w"
    if "u \<in> set (versions_at h i token)" "w \<in> set (versions_at h i token)" for u w
    using history_okD(4) [OF assms(1), of u w] that assms(2) by (fastforce simp: versions_at_def)
  from this [OF xy] this [OF xy(2,1)] have "hr_valid_from x = hr_valid_from y" by simp
  then show "x = y" using history_okD(3) [OF assms(1) y(1) _ x(1)] x y assms(2) by simp
qed

lemma history_ok_one_current:
  assumes "history_ok m h"
  shows "length (filter hr_is_current (history_rows h i)) \<le> 1"
proof (rule at_most_one)
  have "distinct h" using history_ok_rows(1) [OF assms] by (simp add: distinct_map)
  then show "distinct (filter hr_is_current (history_rows h i))" by (simp add: history_rows_def)
  fix x y assume "x \<in> set (filter hr_is_current (history_rows h i))" "y \<in> set (filter hr_is_current (history_rows h i))"
  then show "x = y" using current_unique [OF assms, of x y] by simp
qed

text \<open>
  C16: A history never overlaps. After any sequence of creates, reads, updates and deletes in any order
  of arrival, late ones included, and of truncates newer than what they close, every row has at
  every order token at most one valid version and at most one current version.
\<close>

theorem history_never_overlaps:
  assumes "history_reachable env b st" and "i \<noteq> marker_identity b"
  shows "length (versions_at (history_of b st) i token) \<le> 1 \<and>
    length (filter hr_is_current (history_rows (history_of b st) i)) \<le> 1"
  using history_ok_versions_at [OF reachable_ok [OF assms(1)] assms(2)] history_ok_one_current [OF reachable_ok [OF assms(1)]]
  by blast

text \<open>A row is created, truncated, created again and updated; one update arrives late.\<close>

theorem history_never_overlaps_witness:
  "case run_history demo_env demo_bundle
      [RowEvent (demo_event 1 ''c'' None (Some 10)), TableTruncate (demo_truncate 5), RowEvent (demo_event 9 ''c'' None (Some 20)),
       RowEvent (demo_event 12 ''u'' (Some 20) (Some 30)), RowEvent (demo_event 11 ''u'' (Some 20) (Some 25))] demo_store of
     None \<Rightarrow> False
   | Some st \<Rightarrow> length (history_rows (history_of demo_bundle st) demo_key) = 4 \<and>
       length (versions_at (history_of demo_bundle st) demo_key (demo_token 11)) \<le> 1"
proof -
  let ?ops = "[RowEvent (demo_event 1 ''c'' None (Some 10)), TableTruncate (demo_truncate 5), RowEvent (demo_event 9 ''c'' None (Some 20)),
       RowEvent (demo_event 12 ''u'' (Some 20) (Some 30)), RowEvent (demo_event 11 ''u'' (Some 20) (Some 25))]"
  have "case run_history demo_env demo_bundle ?ops demo_store of
      None \<Rightarrow> False | Some st \<Rightarrow> length (history_rows (history_of demo_bundle st) demo_key) = 4"
    by code_simp
  then obtain st where st: "run_history demo_env demo_bundle ?ops demo_store = Some st"
    and n: "length (history_rows (history_of demo_bundle st) demo_key) = 4" by (rule some_okE)
  have "demo_key \<noteq> marker_identity demo_bundle" by code_simp
  from history_never_overlaps [OF run_history_reachable [OF st demo_reachable] this, of "demo_token 11"]
  show ?thesis using st n by simp
qed

text \<open>What a source table does with an operation, as a map from keys to the images of rows.\<close>

definition source_image :: "scd2_bundle \<Rightarrow> scd2_event \<Rightarrow> string option" where
  "source_image b ev =
     (if sv_operation ev = ''d'' then None
      else map_option (\<lambda>d. canonical_json (JObj (map (\<lambda>c. (c, dict_get d c JNull)) (sb_columns b)))) (sv_after ev))"

definition source_apply :: "scd2_bundle \<Rightarrow> history_op \<Rightarrow> (string \<Rightarrow> string option) \<Rightarrow> string \<Rightarrow> string option" where
  "source_apply b op rows =
     (case op of RowEvent ev \<Rightarrow> rows(source_identity ev := source_image b ev) | TableTruncate _ \<Rightarrow> (\<lambda>_. None))"

definition newest_op :: "scd2_bundle \<Rightarrow> history_op \<Rightarrow> string \<Rightarrow> scd2_store \<Rightarrow> bool" where
  "newest_op b op token st =
     (case op of
        RowEvent ev \<Rightarrow> list_all (\<lambda>v. hr_valid_from v < token) (history_rows (history_of b st) (source_identity ev))
      | TableTruncate _ \<Rightarrow> True)"

lemma event_image_source:
  assumes "event_image env b ev = Inr img" and "sv_operation ev \<in> {''c'', ''r'', ''u'', ''d''}"
  shows "(if sv_operation ev = ''d'' then None else map_option (\<lambda>(raw, _). canonical_json (JObj raw)) img) = source_image b ev"
proof (cases "sv_operation ev = ''d''")
  case False
  then have "map_sum id Some (complete_image env b (sv_after ev)) = Inr img"
    using assms unfolding event_image_def by (simp split: if_splits)
  then show ?thesis using False
    by (cases "sv_after ev") (auto simp: complete_image_def source_image_def Let_def split: if_splits option.splits)
qed (simp add: source_image_def)

text \<open>
  C15: The current view refines the source table. An applied operation that is no replay and newer
  than every version of its row changes the view exactly as it changes the source table: an upsert
  shows its image, a delete or a truncate removes it. A replayed or late operation does not change
  the view.
\<close>

theorem current_view_refines_source:
  assumes "history_reachable env b st" and "admitted_op b op" and "apply_op env b op st = Inr (res, st')"
    and "truncate_in_order b op (ar_order_token res) st"
  shows "view_image (history_of b st') =
    (if \<not> ar_replayed res \<and> newest_op b op (ar_order_token res) st
     then source_apply b op (view_image (history_of b st)) else view_image (history_of b st))"
proof (cases op)
  case (RowEvent ev)
  note ok = reachable_ok [OF assms(1)]
  show ?thesis
  proof (cases "ar_replayed res")
    case True
    then show ?thesis using apply_event_step [of env b ev st res st'] assms(3) RowEvent by (simp add: apply_op_def)
  next
    case False
    then obtain img valid_to where img: "event_image env b ev = Inr img"
      and step: "version_step (history_of b st)
        (new_version ev (source_identity ev) (ar_order_token res) valid_to (ar_current res) img) (history_of b st')"
      using apply_event_step [of env b ev st res st'] assms(3) RowEvent by (auto simp: apply_op_def)
    have op: "sv_operation ev \<in> {''c'', ''r'', ''u'', ''d''}" "source_identity ev \<noteq> marker_identity b"
      using assms(2) RowEvent by (simp_all add: admitted_op_def)
    have "ar_current res = newest_op b op (ar_order_token res) st"
      using version_step_rows(3,4) [OF step ok] op(2) RowEvent by (fastforce simp: newest_op_def list_all_iff)
    moreover have "view_image (history_of b st') = (if ar_current res
        then (view_image (history_of b st))(source_identity ev := source_image b ev) else view_image (history_of b st))"
      using version_step_view [OF step ok] op event_image_source [OF img op(1)] by (auto split: if_splits)
    ultimately show ?thesis using False RowEvent by (simp add: source_apply_def)
  qed
next
  case (TableTruncate te)
  have "view_image (close_current token h @ [truncate_marker te token]) = (\<lambda>_. None)" for token h
    by (rule ext, rule view_of_none) (auto simp: close_current_def split: if_splits)
  then show ?thesis using apply_truncate_step [of env b te st res st'] assms(3) TableTruncate
    by (auto simp: apply_op_def source_apply_def newest_op_def)
qed

theorem current_view_refines_source_witness:
  "case run_history demo_env demo_bundle [RowEvent (demo_event 1 ''c'' None (Some 10))] demo_store of
     None \<Rightarrow> False
   | Some st \<Rightarrow>
       (case apply_op demo_env demo_bundle (RowEvent (demo_event 3 ''u'' (Some 10) (Some 15))) st of
          Inl _ \<Rightarrow> False
        | Inr (res, st') \<Rightarrow>
            view_image (history_of demo_bundle st') =
              (view_image (history_of demo_bundle st))(demo_key := Some (canonical_json (JObj (demo_row 15)))))"
proof -
  let ?ops = "[RowEvent (demo_event 1 ''c'' None (Some 10))]" and ?op = "RowEvent (demo_event 3 ''u'' (Some 10) (Some 15))"
  have "case run_history demo_env demo_bundle ?ops demo_store of None \<Rightarrow> False
      | Some st \<Rightarrow> (case apply_op demo_env demo_bundle ?op st of Inl _ \<Rightarrow> False
          | Inr (res, st') \<Rightarrow> \<not> ar_replayed res \<and> newest_op demo_bundle ?op (ar_order_token res) st)"
    by code_simp
  then obtain st where st: "run_history demo_env demo_bundle ?ops demo_store = Some st"
    and ok: "case apply_op demo_env demo_bundle ?op st of Inl _ \<Rightarrow> False
          | Inr (res, st') \<Rightarrow> \<not> ar_replayed res \<and> newest_op demo_bundle ?op (ar_order_token res) st"
    by (rule some_okE)
  from ok obtain res st' where r: "apply_op demo_env demo_bundle ?op st = Inr (res, st')"
    "\<not> ar_replayed res \<and> newest_op demo_bundle ?op (ar_order_token res) st" by (rule run_okE)
  have adm: "admitted_op demo_bundle ?op" by code_simp
  have "truncate_in_order demo_bundle ?op (ar_order_token res) st" by (simp add: truncate_in_order_def)
  from current_view_refines_source [OF run_history_reachable [OF st demo_reachable] adm r(1) this]
  have "view_image (history_of demo_bundle st') = source_apply demo_bundle ?op (view_image (history_of demo_bundle st))"
    using r(2) by simp
  also have "\<dots> = (view_image (history_of demo_bundle st))(demo_key := Some (canonical_json (JObj (demo_row 15))))"
    by (simp add: source_apply_def source_image_def demo_event_def demo_row_def demo_bundle_def demo_key_def source_identity_def dict_get_def)
  finally show ?thesis using st r(1) by simp
qed

definition source_position :: "event_identity \<Rightarrow> int \<times> int \<times> int" where
  "source_position i =
     (the (lf_source_timeline (ei_facts i)), the (lf_commit_lsn (ei_facts i)), the (lf_total_order (ei_facts i)))"

definition in_64_bits :: "event_identity \<Rightarrow> bool" where
  "in_64_bits i = (case source_position i of (x, y, z) \<Rightarrow>
     0 \<le> x \<and> x < 2 ^ 64 \<and> 0 \<le> y \<and> y < 2 ^ 64 \<and> 0 \<le> z \<and> z < 2 ^ 64)"

text \<open>
  C17: Order tokens compare like source positions. For two events of one cluster and relation
  generation, with 64-bit timelines, commit LSNs and ordinals, the text order of the tokens is the
  order of timeline, commit LSN and ordinal.
\<close>

theorem order_tokens_follow_the_source:
  assumes "transaction_order_token i = Inr s" and "transaction_order_token j = Inr t"
    and "lf_source_cluster_id (ei_facts i) = lf_source_cluster_id (ei_facts j)"
    and "lf_relation_generation (ei_facts i) = lf_relation_generation (ei_facts j)"
    and "in_64_bits i" and "in_64_bits j"
  shows "s < t \<longleftrightarrow> source_position i < source_position j"
proof -
  obtain c g x y z where i: "lf_source_cluster_id (ei_facts i) = Some c" "lf_source_timeline (ei_facts i) = Some x"
    "lf_relation_generation (ei_facts i) = Some g" "lf_commit_lsn (ei_facts i) = Some y" "lf_total_order (ei_facts i) = Some z"
    and s: "s = dotted [b64_component c, format_0d 20 x, b64_component g, format_0d 20 y, format_0d 20 z]"
    using assms(1) by (auto simp: transaction_order_token_def Let_def split: option.splits if_splits)
  obtain u v w where j: "lf_source_timeline (ei_facts j) = Some u"
    "lf_commit_lsn (ei_facts j) = Some v" "lf_total_order (ei_facts j) = Some w"
    and t: "t = dotted [b64_component c, format_0d 20 u, b64_component g, format_0d 20 v, format_0d 20 w]"
    using assms(2) i assms(3,4) by (auto simp: transaction_order_token_def Let_def split: option.splits if_splits)
  have bounds: "0 \<le> n \<and> n < 10 ^ 20" if "n \<in> {x, y, z, u, v, w}" for n
    using assms(5,6) i j that by (auto simp: in_64_bits_def source_position_def)
  have len: "length (format_0d 20 n) = 20" if "n \<in> {x, y, z, u, v, w}" for n
    using format_0d_spec(1) [of n 20] bounds [OF that] by simp
  have less: "format_0d 20 m < format_0d 20 n \<longleftrightarrow> m < n" "format_0d 20 m = format_0d 20 n \<longleftrightarrow> m = n"
    if "m \<in> {x, y, z, u, v, w}" "n \<in> {x, y, z, u, v, w}" for m n
    using format_0d_less [of m 20 n] bounds that by simp_all
  have "s < t \<longleftrightarrow> x < u \<or> x = u \<and> (y < v \<or> y = v \<and> z < w)"
    unfolding s t dotted.simps by (simp add: append_less_append len less)
  also have "\<dots> \<longleftrightarrow> source_position i < source_position j" using i j by (auto simp: source_position_def)
  finally show ?thesis .
qed

text \<open>LSNs 9 and 10: the texts of the unpadded numbers have the opposite order.\<close>

theorem order_tokens_follow_the_source_witness: "demo_token 9 < demo_token 10 \<and> str_int 10 < str_int 9"
proof -
  have "transaction_order_token (demo_identity 9) = Inr (demo_token 9)" "transaction_order_token (demo_identity 10) = Inr (demo_token 10)"
    "in_64_bits (demo_identity 9)" "in_64_bits (demo_identity 10)" "str_int 10 < str_int 9"
    "source_position (demo_identity 9) < source_position (demo_identity 10)" by code_simp+
  then show ?thesis using order_tokens_follow_the_source [of "demo_identity 9" _ "demo_identity 10"]
    by (simp add: demo_identity_def sample_facts_def)
qed

text \<open>
  What the code does with a late event of a row that was truncated since. The row is created at 1,
  truncated at 5 and created again at 9; the update of 3 arrives then. It is placed between the
  versions of 1 and 9 and gets the start of 9 as its end, so the row has a valid version at 7,
  when the source table had none.
\<close>

lemma late_event_spans_truncate:
  "case run_history demo_env demo_bundle
      [RowEvent (demo_event 1 ''c'' None (Some 10)), TableTruncate (demo_truncate 5), RowEvent (demo_event 9 ''c'' None (Some 20)),
       RowEvent (demo_event 3 ''u'' (Some 10) (Some 15))] demo_store of
     None \<Rightarrow> False
   | Some st \<Rightarrow> map hr_event_id (versions_at (history_of demo_bundle st) demo_key (demo_token 7)) = [''3'']"
  by code_simp

end
