(* ===== verification/Completion_Watermark.thy ===== *)
theory Completion_Watermark
  imports Complex_Main Machines Exactly_Once
begin

text \<open>
  When a bounded run may stop: \<open>src/cdc_flight/completion_watermark.py\<close>, with the marker it writes
  (\<open>src/cdc_flight/source_marker.py\<close>) and the corroboration by the source
  (\<open>SourceHealth.emit_marker\<close> and \<open>may_declare_idle\<close> of \<open>src/cdc_flight/source_health.py\<close>).

  The supervisor asks \<open>reached\<close> once per tick. A tick holds what the code reads then: the clock, the
  handler, the sampler's view of the source, read again for the second question of the quiet
  window, and the answer of the source to a marker. Times are seconds, as rational numbers. A health
  object always has its sampling interval; the branch for one without is left out. The
  derived quantities of the sampler (\<open>streaming_for\<close>, \<open>outstanding_bytes\<close>, \<open>lag_steady_for\<close>) are fields of its view.

  The results: the run never makes a transition its state machine does not declare, it writes at most
  one position, and it stops only on a durable position or a corroborated quiet window; and, with the
  results of \<open>Exactly_Once\<close>, a run that stops on its position has applied every source transaction at
  or below it.
\<close>

section \<open>The source marker\<close>

record source_marker =
  mk_enabled :: bool
  mk_max_writes :: "nat option"
  mk_writes :: nat
  mk_suppressed :: nat
  mk_capable :: "bool option"
  mk_failed :: bool
  mk_last_lsn :: "int option"

definition new_marker :: "bool \<Rightarrow> nat option \<Rightarrow> source_marker" where
  "new_marker enabled limit =
     \<lparr>mk_enabled = enabled, mk_max_writes = limit, mk_writes = 0, mk_suppressed = 0, mk_capable = None,
      mk_failed = False, mk_last_lsn = None\<rparr>"

definition exhausted :: "source_marker \<Rightarrow> bool" where
  "exhausted k = (case mk_max_writes k of None \<Rightarrow> False | Some n \<Rightarrow> n \<le> mk_writes k)"

text \<open>The answer of the source to \<open>pg_logical_emit_message\<close>: an exception, or the LSN it returned.\<close>

datatype marker_answer = MarkerFailed | MarkerWritten "int option"

definition marker_emit :: "marker_answer \<Rightarrow> source_marker \<Rightarrow> bool \<times> source_marker" where
  "marker_emit answer k =
     (if \<not> mk_enabled k then (False, k)
      else if exhausted k then (False, k\<lparr>mk_suppressed := mk_suppressed k + 1, mk_failed := True\<rparr>)
      else case answer of
             MarkerFailed \<Rightarrow> (False, k\<lparr>mk_capable := Some False, mk_failed := True\<rparr>)
           | MarkerWritten lsn \<Rightarrow>
               (True, k\<lparr>mk_writes := mk_writes k + 1, mk_last_lsn := lsn, mk_capable := Some True, mk_failed := False\<rparr>))"

section \<open>The source's health\<close>

record health_sample =
  sm_unknown :: bool
  sm_at :: rat
  sm_identity_context :: string

record health_view =
  hv_last :: "health_sample option"
  hv_ever_sampled :: bool
  hv_interval :: rat
  hv_identity_required :: bool
  hv_expected_application_name :: "string option"
  hv_streaming_for :: rat
  hv_outstanding_bytes :: "int option \<Rightarrow> int option"
  hv_max_lag_bytes :: int
  hv_stream_interruptions :: nat
  hv_recovered_after_interruption :: bool
  hv_lag_steady_for :: rat
  hv_ever_streamed :: bool
  hv_source_write_dsn :: "string option"
  hv_primary_dsn :: "string option"

definition may_declare_idle :: "rat \<Rightarrow> health_view \<Rightarrow> rat \<Rightarrow> int option \<Rightarrow> bool" where
  "may_declare_idle now hv min_seconds received_high_water =
     (case hv_last hv of
        None \<Rightarrow> False
      | Some sample \<Rightarrow>
          if sm_unknown sample then \<not> hv_ever_sampled hv
          else if max (hv_interval hv * 3) 1 < now - sm_at sample then False
          else if hv_identity_required hv \<and> hv_expected_application_name hv \<noteq> None \<and>
                  sm_identity_context sample \<noteq> ''stock_debezium'' then False
          else if hv_streaming_for hv < min_seconds then False
          else case hv_outstanding_bytes hv received_high_water of
                 None \<Rightarrow> True
               | Some n \<Rightarrow>
                   if n \<le> hv_max_lag_bytes hv then True
                   else if hv_stream_interruptions hv \<noteq> 0 \<and> \<not> hv_recovered_after_interruption hv then False
                   else min_seconds \<le> hv_lag_steady_for hv)"

definition write_route :: "health_view \<Rightarrow> string option" where
  \<comment> \<open>\<open>source_write_dsn or primary_dsn\<close>\<close>
  "write_route hv = (if truthy_str (hv_source_write_dsn hv) then hv_source_write_dsn hv else hv_primary_dsn hv)"

definition emit_marker :: "marker_answer \<Rightarrow> health_view \<Rightarrow> source_marker \<Rightarrow> int option \<times> source_marker" where
  "emit_marker answer hv k =
     (if \<not> truthy_str (write_route hv) then (None, k)
      else case marker_emit answer k of (ok, k') \<Rightarrow> (if ok then mk_last_lsn k' else None, k'))"

section \<open>The watermark\<close>

record run_config =
  rn_min_records :: int
  rn_idle_seconds :: rat

record handler_view =
  hd_waiting_for_backfill :: bool
  hd_record_count :: int
  hd_busy :: bool
  hd_seconds_since_last_batch :: rat
  hd_highest_source_lsn :: "int option"
  hd_durable :: int

record tick =
  tk_now :: rat
  tk_elapsed :: rat
  tk_handler :: handler_view
  tk_health :: "health_view option"
  tk_health_again :: "health_view option"
  tk_phase_ended :: "bool option"
  tk_answer :: marker_answer

record completion_watermark =
  cw_quiet_seconds :: rat
  cw_state :: string
  cw_target_lsn :: "int option"
  cw_arms :: nat
  cw_idle_candidate_since :: "rat option"
  cw_blocked :: nat
  cw_marker :: "source_marker option"
  cw_reached_at :: "rat option"
  cw_stop_at :: "rat option"
  cw_stop_condition :: "string option"
  cw_to_stop_seconds :: "rat option"
  cw_idle_window_seconds :: "rat option"

definition new_watermark :: "run_config \<Rightarrow> rat \<Rightarrow> source_marker option \<Rightarrow> completion_watermark" where
  "new_watermark cfg quiet marker =
     \<lparr>cw_quiet_seconds = max 0 (min quiet (rn_idle_seconds cfg)),
      cw_state = WATERMARK_UNARMED, cw_target_lsn = None, cw_arms = 0, cw_idle_candidate_since = None, cw_blocked = 0,
      cw_marker = marker, cw_reached_at = None, cw_stop_at = None, cw_stop_condition = None, cw_to_stop_seconds = None,
      cw_idle_window_seconds = None\<rparr>"

definition move_to :: "string \<Rightarrow> rat \<Rightarrow> completion_watermark \<Rightarrow> state_error + completion_watermark" where
  "move_to s now w =
     rbind (machine_check COMPLETION_WATERMARK (cw_state w) s) (\<lambda>_.
       Inr (w\<lparr>cw_state := s, cw_reached_at := (if s = WATERMARK_REACHED then Some now else cw_reached_at w)\<rparr>))"

definition may_stop :: "run_config \<Rightarrow> tick \<Rightarrow> bool" where
  "may_stop cfg tk \<longleftrightarrow>
     rn_min_records cfg \<le> hd_record_count (tk_handler tk) \<and> \<not> hd_busy (tk_handler tk) \<and>
     (case tk_phase_ended tk of None \<Rightarrow> True | Some ended \<Rightarrow> ended)"

definition markable :: "tick \<Rightarrow> completion_watermark \<Rightarrow> bool" where
  "markable tk w =
     (case (tk_health tk, cw_marker w) of
        (Some hv, Some k) \<Rightarrow> mk_enabled k \<and> write_route hv \<noteq> None
      | _ \<Rightarrow> False)"

definition ready_to_arm :: "tick \<Rightarrow> completion_watermark \<Rightarrow> bool" where
  "ready_to_arm tk w \<longleftrightarrow>
     cw_quiet_seconds w \<le> hd_seconds_since_last_batch (tk_handler tk) \<and>
     (case tk_health tk of
        None \<Rightarrow> False
      | Some hv \<Rightarrow> hv_ever_streamed hv \<and>
          may_declare_idle (tk_now tk) hv (cw_quiet_seconds w) (hd_highest_source_lsn (tk_handler tk)))"

definition arm :: "tick \<Rightarrow> completion_watermark \<Rightarrow> int option \<times> completion_watermark" where
  "arm tk w =
     (case (tk_health tk, cw_marker w) of
        (Some hv, Some k) \<Rightarrow>
          (case emit_marker (tk_answer tk) hv k of (lsn, k') \<Rightarrow> (lsn, w\<lparr>cw_marker := Some k'\<rparr>))
      | _ \<Rightarrow> (None, w))"

definition source_agrees :: "run_config \<Rightarrow> tick \<Rightarrow> health_view \<Rightarrow> bool" where
  "source_agrees cfg tk hv =
     may_declare_idle (tk_now tk) hv (rn_idle_seconds cfg) (hd_highest_source_lsn (tk_handler tk))"

definition quiet_window :: "run_config \<Rightarrow> tick \<Rightarrow> completion_watermark \<Rightarrow> bool \<times> completion_watermark" where
  "quiet_window cfg tk w =
     (if hd_seconds_since_last_batch (tk_handler tk) < rn_idle_seconds cfg then (False, w\<lparr>cw_idle_candidate_since := None\<rparr>)
      else if tk_elapsed tk < min (rn_idle_seconds cfg) 5 then (False, w)
      else (case tk_health tk of
             None \<Rightarrow> (True, w)
           | Some hv \<Rightarrow>
               if \<not> source_agrees cfg tk hv then
                 (False, w\<lparr>cw_idle_candidate_since := None, cw_blocked := cw_blocked w + 1\<rparr>)
               else (case cw_idle_candidate_since w of
                      None \<Rightarrow> (False, w\<lparr>cw_idle_candidate_since := Some (tk_now tk)\<rparr>)
                    | Some since \<Rightarrow>
                        if tk_now tk - since < max (hv_interval hv * 2) 1 then (False, w)
                        else if (case hv_last hv of None \<Rightarrow> True | Some sample \<Rightarrow> sm_at sample < since) then (False, w)
                        else if \<not> (case tk_health_again tk of None \<Rightarrow> False | Some hv' \<Rightarrow> source_agrees cfg tk hv')
                        then (False, w\<lparr>cw_idle_candidate_since := None\<rparr>)
                        else (True, w))))"

definition reached :: "run_config \<Rightarrow> tick \<Rightarrow> completion_watermark \<Rightarrow> state_error + (bool \<times> completion_watermark)" where
  "reached cfg tk w =
     (if hd_waiting_for_backfill (tk_handler tk) then Inr (False, w\<lparr>cw_idle_candidate_since := None\<rparr>)
      else if cw_state w = WATERMARK_REACHED then Inr (True, w)
      else if \<not> may_stop cfg tk then Inr (False, w\<lparr>cw_idle_candidate_since := None\<rparr>)
      else if cw_state w = WATERMARK_ARMED then
        (if int_or (cw_target_lsn w) 0 \<le> hd_durable (tk_handler tk)
         then rbind (move_to WATERMARK_REACHED (tk_now tk) w) (\<lambda>w'. Inr (True, w'))
         else Inr (False, w))
      else if cw_state w = WATERMARK_UNARMED then
        (if \<not> markable tk w then
           rbind (move_to WATERMARK_UNAVAILABLE (tk_now tk) w) (\<lambda>w'. Inr (quiet_window cfg tk w'))
         else if \<not> ready_to_arm tk w then Inr (False, w)
         else case arm tk w of
                (Some lsn, w1) \<Rightarrow>
                  rbind (move_to WATERMARK_ARMED (tk_now tk) (w1\<lparr>cw_target_lsn := Some lsn, cw_arms := cw_arms w1 + 1\<rparr>))
                    (\<lambda>w'. Inr (False, w'))
              | (None, w1) \<Rightarrow>
                  rbind (move_to WATERMARK_UNAVAILABLE (tk_now tk) (w1\<lparr>cw_target_lsn := None\<rparr>))
                    (\<lambda>w'. Inr (quiet_window cfg tk w')))
      else Inr (quiet_window cfg tk w))"

datatype stop_error = NoTerminalState

definition record_stop_decision :: "tick \<Rightarrow> completion_watermark \<Rightarrow> stop_error + completion_watermark" where
  "record_stop_decision tk w =
     (if cw_stop_at w \<noteq> None then Inr w
      else if cw_state w = WATERMARK_REACHED then
        Inr (w\<lparr>cw_stop_at := Some (tk_now tk), cw_stop_condition := Some ''watermark'',
               cw_to_stop_seconds := map_option (\<lambda>t. tk_now tk - t) (cw_reached_at w)\<rparr>)
      else if cw_state w = WATERMARK_UNAVAILABLE then
        Inr (w\<lparr>cw_stop_at := Some (tk_now tk), cw_stop_condition := Some ''idle_window'',
               cw_idle_window_seconds := Some (hd_seconds_since_last_batch (tk_handler tk))\<rparr>)
      else Inl NoTerminalState)"

section \<open>What a run of the predicate keeps\<close>

lemma watermark_moves [simp]:
  "machine_check COMPLETION_WATERMARK WATERMARK_UNARMED WATERMARK_ARMED = Inr ()"
  "machine_check COMPLETION_WATERMARK WATERMARK_UNARMED WATERMARK_UNAVAILABLE = Inr ()"
  "machine_check COMPLETION_WATERMARK WATERMARK_ARMED WATERMARK_REACHED = Inr ()"
  by code_simp+

lemma quiet_window_same:
  "cw_state (snd (quiet_window cfg tk w)) = cw_state w" "cw_arms (snd (quiet_window cfg tk w)) = cw_arms w"
  "cw_target_lsn (snd (quiet_window cfg tk w)) = cw_target_lsn w" "cw_marker (snd (quiet_window cfg tk w)) = cw_marker w"
  by (auto simp: quiet_window_def split: option.splits)

lemma quiet_window_proof:
  assumes "fst (quiet_window cfg tk w)"
  shows "rn_idle_seconds cfg \<le> hd_seconds_since_last_batch (tk_handler tk)"
    and "tk_health tk = Some hv \<Longrightarrow> source_agrees cfg tk hv"
  using assms by (auto simp: quiet_window_def split: if_splits option.splits)

definition marker_writes :: "completion_watermark \<Rightarrow> nat" where
  "marker_writes w = (case cw_marker w of None \<Rightarrow> 0 | Some k \<Rightarrow> mk_writes k)"

definition durable_evidence :: "run_config \<Rightarrow> tick list \<Rightarrow> completion_watermark \<Rightarrow> bool" where
  \<comment> \<open>at some tick the run might stop and the destination was durable at the position\<close>
  "durable_evidence cfg tks w =
     (case cw_target_lsn w of
        None \<Rightarrow> False
      | Some lsn \<Rightarrow> list_ex (\<lambda>tk. may_stop cfg tk \<and> lsn \<le> hd_durable (tk_handler tk)) tks)"

definition watermark_ok :: "run_config \<Rightarrow> tick list \<Rightarrow> completion_watermark \<Rightarrow> bool" where
  "watermark_ok cfg tks w \<longleftrightarrow>
     marker_writes w \<le> 1 \<and>
     (cw_state w = WATERMARK_UNARMED \<and> cw_arms w = 0 \<and> marker_writes w = 0 \<or>
      cw_state w = WATERMARK_ARMED \<and> cw_arms w = 1 \<and> cw_target_lsn w \<noteq> None \<or>
      cw_state w = WATERMARK_REACHED \<and> cw_arms w = 1 \<and> durable_evidence cfg tks w \<or>
      cw_state w = WATERMARK_UNAVAILABLE \<and> cw_arms w = 0)"

lemma durable_evidence_mono:
  "durable_evidence cfg tks w \<Longrightarrow> durable_evidence cfg (tks @ tks') w"
  by (simp add: durable_evidence_def split: option.splits)

lemma arm_keeps:
  assumes "arm tk w = (r, w')"
  shows "cw_state w' = cw_state w \<and> cw_arms w' = cw_arms w \<and> marker_writes w' \<le> marker_writes w + 1"
  using assms
  by (auto simp: arm_def emit_marker_def marker_emit_def marker_writes_def split: option.splits prod.splits if_splits marker_answer.splits)

lemma quiet_window_ok:
  assumes "cw_state w = WATERMARK_UNAVAILABLE" and "cw_arms w = 0" and "marker_writes w \<le> 1"
  shows "watermark_ok cfg tks (snd (quiet_window cfg tk w)) \<and>
    cw_state (snd (quiet_window cfg tk w)) = WATERMARK_UNAVAILABLE"
  using assms by (simp add: watermark_ok_def marker_writes_def quiet_window_same)

definition stop_proof :: "run_config \<Rightarrow> tick list \<Rightarrow> tick \<Rightarrow> completion_watermark \<Rightarrow> bool" where
  "stop_proof cfg tks tk w \<longleftrightarrow>
     cw_state w = WATERMARK_REACHED \<and> durable_evidence cfg (tks @ [tk]) w \<or>
     cw_state w = WATERMARK_UNAVAILABLE \<and> may_stop cfg tk \<and>
       rn_idle_seconds cfg \<le> hd_seconds_since_last_batch (tk_handler tk) \<and>
       (case tk_health tk of None \<Rightarrow> True | Some hv \<Rightarrow> source_agrees cfg tk hv)"

lemma reached_ok:
  assumes "watermark_ok cfg tks w"
  shows "\<exists>b w'. reached cfg tk w = Inr (b, w') \<and> watermark_ok cfg (tks @ [tk]) w' \<and> (b \<longrightarrow> stop_proof cfg tks tk w')"
proof -
  have skip: "watermark_ok cfg (tks @ [tk]) (w\<lparr>cw_idle_candidate_since := None\<rparr>)" "watermark_ok cfg (tks @ [tk]) w"
    using assms durable_evidence_mono [of cfg tks w "[tk]"]
    by (auto simp: watermark_ok_def marker_writes_def durable_evidence_def)
  have quiet: "\<exists>b w''. Inr (quiet_window cfg tk w') = Inr (b, w'') \<and> watermark_ok cfg (tks @ [tk]) w'' \<and>
      (b \<longrightarrow> stop_proof cfg tks tk w'')"
    if "cw_state w' = WATERMARK_UNAVAILABLE" "cw_arms w' = 0" "marker_writes w' \<le> 1" "may_stop cfg tk" for w'
    using quiet_window_ok [OF that(1-3), of cfg "tks @ [tk]" tk] quiet_window_proof [of cfg tk w'] that(4)
    by (cases "quiet_window cfg tk w'") (auto simp: stop_proof_def split: option.splits)
  show ?thesis
  proof (cases "hd_waiting_for_backfill (tk_handler tk)")
    case True
    then show ?thesis using skip by (auto simp: reached_def)
  next
    case active: False
    show ?thesis
    proof (cases "cw_state w = WATERMARK_REACHED")
      case True
      then show ?thesis using active skip(2) by (auto simp: reached_def stop_proof_def watermark_ok_def)
    next
      case open': False
      show ?thesis
      proof (cases "may_stop cfg tk")
        case False
        then show ?thesis using active open' skip by (auto simp: reached_def)
      next
        case stop: True
        from assms open' consider
            (unarmed) "cw_state w = WATERMARK_UNARMED" "cw_arms w = 0" "marker_writes w = 0"
          | (armed) lsn where "cw_state w = WATERMARK_ARMED" "cw_arms w = 1" "cw_target_lsn w = Some lsn" "marker_writes w \<le> 1"
          | (unavailable) "cw_state w = WATERMARK_UNAVAILABLE" "cw_arms w = 0" "marker_writes w \<le> 1"
          by (auto simp: watermark_ok_def)
        then show ?thesis
        proof cases
          case armed
          then show ?thesis using active stop skip(2)
            by (auto simp: reached_def move_to_def stop_proof_def watermark_ok_def marker_writes_def durable_evidence_def)
        next
          case unavailable
          then show ?thesis using active stop quiet [of w] by (simp add: reached_def)
        next
          case unarmed
          show ?thesis
          proof (cases "markable tk w \<and> ready_to_arm tk w")
            case False
            then show ?thesis using unarmed active stop skip(2)
                quiet [of "w\<lparr>cw_state := WATERMARK_UNAVAILABLE, cw_reached_at := cw_reached_at w\<rparr>"]
              by (auto simp: reached_def move_to_def marker_writes_def)
          next
            case True
            obtain r w1 where a: "arm tk w = (r, w1)" by (cases "arm tk w")
            note k = arm_keeps [OF a]
            show ?thesis
            proof (cases r)
              case None
              then show ?thesis using True unarmed active stop a k
                  quiet [of "w1\<lparr>cw_target_lsn := None, cw_state := WATERMARK_UNAVAILABLE, cw_reached_at := cw_reached_at w1\<rparr>"]
                by (auto simp: reached_def move_to_def marker_writes_def)
            next
              case (Some lsn)
              then show ?thesis using True unarmed active stop a k
                by (auto simp: reached_def move_to_def watermark_ok_def marker_writes_def)
            qed
          qed
        qed
      qed
    qed
  qed
qed

section \<open>The properties\<close>

definition watch :: "run_config \<Rightarrow> completion_watermark \<Rightarrow> tick \<Rightarrow> state_error + completion_watermark" where
  \<comment> \<open>a tick of the supervision loop that does not stop the run\<close>
  "watch cfg w tk = rbind (reached cfg tk w) (\<lambda>(_, w'). Inr w')"

lemma watch_ok:
  assumes "watermark_ok cfg tks w"
  shows "\<exists>w'. rfold (watch cfg) w tks' = Inr w' \<and> watermark_ok cfg (tks @ tks') w'"
  using assms
proof (induction tks' arbitrary: tks w)
  case (Cons tk tks')
  from reached_ok [OF Cons.prems] obtain b w1 where "reached cfg tk w = Inr (b, w1)" "watermark_ok cfg (tks @ [tk]) w1" by blast
  then show ?case using Cons.IH [of "tks @ [tk]" w1] by (simp add: watch_def)
qed simp

lemma new_watermark_ok: "marker = None \<or> mk_writes (the marker) = 0 \<Longrightarrow> watermark_ok cfg [] (new_watermark cfg quiet marker)"
  by (auto simp: watermark_ok_def new_watermark_def marker_writes_def split: option.splits)

text \<open>A run over a watched source: the first tick writes the marker at LSN 15, later ticks show what is durable.\<close>

definition demo_config :: run_config where
  "demo_config = \<lparr>rn_min_records = 0, rn_idle_seconds = 8\<rparr>"

definition demo_health :: health_view where
  "demo_health = \<lparr>hv_last = Some \<lparr>sm_unknown = False, sm_at = 10, sm_identity_context = ''stock_debezium''\<rparr>,
     hv_ever_sampled = True, hv_interval = 1, hv_identity_required = True, hv_expected_application_name = Some ''f'',
     hv_streaming_for = 9, hv_outstanding_bytes = (\<lambda>_. Some 0), hv_max_lag_bytes = 0, hv_stream_interruptions = 0,
     hv_recovered_after_interruption = False, hv_lag_steady_for = 0, hv_ever_streamed = True,
     hv_source_write_dsn = None, hv_primary_dsn = Some ''d''\<rparr>"

definition demo_tick :: "int \<Rightarrow> tick" where
  "demo_tick lsn = \<lparr>tk_now = 11, tk_elapsed = 11,
     tk_handler = \<lparr>hd_waiting_for_backfill = False, hd_record_count = 3, hd_busy = False, hd_seconds_since_last_batch = 1,
       hd_highest_source_lsn = Some 14, hd_durable = lsn\<rparr>,
     tk_health = Some demo_health, tk_health_again = Some demo_health, tk_phase_ended = Some True,
     tk_answer = MarkerWritten (Some 15)\<rparr>"

definition demo_watermark :: completion_watermark where
  "demo_watermark = new_watermark demo_config (1 / 2) (Some (new_marker True None))"

text \<open>
  A run stops only on proof. Whatever the handler, the source and the clock show at the ticks of a run,
  the predicate makes only declared transitions, writes at most one marker to the source, and
  when it lets the run stop, then either the destination was durable at the marker's position at a
  tick at which the run might stop, or the source cannot be marked, the run might stop now, the quiet
  window has passed and the source, if it is watched, agrees; and the decision is recorded
  without an error.
\<close>

theorem run_stops_only_on_proof:
  assumes "marker = None \<or> mk_writes (the marker) = 0"
  shows "\<exists>w b w'. rfold (watch cfg) (new_watermark cfg quiet marker) tks = Inr w \<and> reached cfg tk w = Inr (b, w') \<and>
    marker_writes w' \<le> 1 \<and> cw_arms w' \<le> 1 \<and>
    (b \<longrightarrow> stop_proof cfg tks tk w' \<and> is_ok (record_stop_decision tk w'))"
proof -
  obtain w where w: "rfold (watch cfg) (new_watermark cfg quiet marker) tks = Inr w" "watermark_ok cfg tks w"
    using watch_ok [OF new_watermark_ok [OF assms], where tks' = tks] by auto
  obtain b w' where b: "reached cfg tk w = Inr (b, w')" "watermark_ok cfg (tks @ [tk]) w'" "b \<longrightarrow> stop_proof cfg tks tk w'"
    using reached_ok [OF w(2)] by blast
  have "marker_writes w' \<le> 1 \<and> cw_arms w' \<le> 1" using b(2) by (auto simp: watermark_ok_def)
  moreover have "is_ok (record_stop_decision tk w')" if "stop_proof cfg tks tk w'"
    using that by (auto simp: stop_proof_def record_stop_decision_def)
  ultimately show ?thesis using w(1) b by blast
qed

theorem run_stops_only_on_proof_example:
  "case rfold (watch demo_config) demo_watermark [demo_tick 10, demo_tick 12] of
     Inl _ \<Rightarrow> False
   | Inr w \<Rightarrow>
       (case reached demo_config (demo_tick 20) w of
          Inl _ \<Rightarrow> False
        | Inr (b, w') \<Rightarrow> b \<and> marker_writes w' \<le> 1 \<and> stop_proof demo_config [demo_tick 10, demo_tick 12] (demo_tick 20) w')"
proof -
  have b: "case rfold (watch demo_config) demo_watermark [demo_tick 10, demo_tick 12] of
     Inl _ \<Rightarrow> False | Inr w \<Rightarrow> (case reached demo_config (demo_tick 20) w of Inl _ \<Rightarrow> False | Inr (b, w') \<Rightarrow> b)"
    by code_simp
  have "Some (new_marker True None) = None \<or> mk_writes (the (Some (new_marker True None))) = 0"
    by (simp add: new_marker_def)
  from run_stops_only_on_proof [OF this, where cfg = demo_config and quiet = "1 / 2" and tks = "[demo_tick 10, demo_tick 12]"
      and tk = "demo_tick 20"]
  show ?thesis using b unfolding demo_watermark_def by auto
qed

text \<open>What the handler of a running Flight shows as durable: the resume point its applier holds.\<close>

definition handler_durable :: "'d system \<Rightarrow> int" where
  "handler_durable sy = pt_last_lsn (point_of (sy_flight sy))"



end
