(* ===== verification/Keyless_Table.thy ===== *)
theory Keyless_Table
  imports Machines Table_Work Text_Codec "HOL-Library.Multiset"
begin

text \<open>
  Tables without a key: a model of \<open>src/cdc_flight/keyless_work.py\<close>, of the keyless writes of
  \<open>src/cdc_flight/table_writer.py\<close> with the two SQL statements they issue
  (\<open>typed_materialization.py\<close>), of the per-event ledger (\<open>destination.py\<close>) and of the dispatch of
  one table's events by \<open>src/cdc_flight/planner.py\<close>.

  Such a table is a bag of rows. An event removes one row that looks like its before-image and
  adds its after-image; \<open>cdcf_event_id\<close> names the event that wrote a row and tells equal rows
  apart. A row is a function from column names to values, \<open>None\<close> being NULL.

  \<open>SELECT ... LIMIT 1\<close> without an order returns any matching row: \<open>choice\<close> picks one, by the
  event that asks. The encoding of a value by its column descriptor (\<open>typed_types.py\<close>) is the
  argument \<open>enc\<close>; an encoded value is stored and compared as it is. Not modelled: the choice
  of a native type and its refusals, the admission of new columns beyond that they
  are added, and the shared event and delete ledgers, which are claimed before the fold
  (\<open>Event_Ledger\<close>).
\<close>

section \<open>Values, events and operations\<close>

datatype 'v cell = Source 'v | Text string | Num int | Flag bool

type_synonym 'v cells = "'v cell image"
type_synonym 'v stored_row = "string \<Rightarrow> 'v cell option"
type_synonym 'v encoder = "string \<Rightarrow> 'v cell \<Rightarrow> 'v cell"

abbreviation CDCF_EVENT_ID :: string where "CDCF_EVENT_ID \<equiv> ''cdcf_event_id''"
abbreviation CDCF_DELETED :: string where "CDCF_DELETED \<equiv> ''cdcf_deleted''"

definition applier_columns :: "string list" where
  "applier_columns =
     [''cdcf_commit_id'', ''cdcf_event_id'', ''cdcf_total_order'', ''cdcf_deleted'',
      ''cdcf_delete_event_id'', ''cdcf_delete_lsn'', ''dbz_op'', ''dbz_lsn'', ''dbz_tx_id'',
      ''dbz_schema'', ''dbz_table'', ''dbz_source_ts_ms'']"

datatype keyless_error =
    Fold tw_error
  | SchemaEvolutionRefused
  | DestinationIdentityCollision
  | ValueError
  | LedgerState state_error
  | KeyedFold

text \<open>
  An event of one table as the planner folds it: \<open>ke_image\<close> is \<open>RowPatch.from_image\<close> of its
  before-image for a delete and of its after-image otherwise, \<open>ke_before\<close> that of the before-image of
  an update, \<open>ke_described\<close> the columns with a catalog descriptor.
\<close>

record 'v keyless_event =
  ke_op :: string
  ke_event_id :: string
  ke_keyless :: bool
  ke_image :: "'v cell row_patch"
  ke_before :: "'v cell row_patch"
  ke_described :: "string list"
  ke_delete_mode :: "string option"
  ke_digest :: "string option"
  ke_lsn :: "int option"
  ke_txn_id :: "string option"
  ke_tx_number :: "int option"
  ke_total_order :: "int option"
  ke_schema :: string
  ke_table :: string
  ke_source_ts_ms :: "int option"

record 'v keyless_operation =
  ko_event_id :: string
  ko_operation :: string
  ko_after :: "'v cells option"
  ko_before :: "'v cells option"
  ko_image_digest :: "string option"
  ko_delete_mode :: string
  ko_source_lsn :: "int option"
  ko_txn_id :: "string option"
  ko_total_order :: "int option"

section \<open>RowPatch.from_event and encoded\_values\<close>

definition row_metadata :: "int \<Rightarrow> bool \<Rightarrow> 'v keyless_event \<Rightarrow> 'v cells" where
  "row_metadata commit_id snapshot ev =
     [(''cdcf_commit_id'', Some (Num commit_id)),
      (''cdcf_event_id'', Some (Text (ke_event_id ev))),
      (''cdcf_total_order'', if snapshot then None else map_option Num (ke_total_order ev)),
      (''cdcf_deleted'', Some (Flag False)),
      (''cdcf_delete_event_id'', None),
      (''cdcf_delete_lsn'', None),
      (''dbz_op'', Some (Text (ke_op ev))),
      (''dbz_lsn'', map_option Num (ke_lsn ev)),
      (''dbz_tx_id'', if snapshot then None else map_option Num (ke_tx_number ev)),
      (''dbz_schema'', Some (Text (ke_schema ev))),
      (''dbz_table'', Some (Text (ke_table ev))),
      (''dbz_source_ts_ms'', map_option Num (ke_source_ts_ms ev))]"

definition from_event :: "int \<Rightarrow> bool \<Rightarrow> 'v keyless_event \<Rightarrow> 'v cell row_patch" where
  "from_event commit_id snapshot ev =
     (let p = ke_image ev in
      p\<lparr>rp_fields := fold (\<lambda>(c, v). AList.update c (field_of v)) (row_metadata commit_id snapshot ev)
                        (rp_fields p),
        rp_complete := (ke_op ev \<in> {''c'', ''r''} \<or> snapshot)\<rparr>)"

definition encoded_field :: "'v encoder \<Rightarrow> string \<Rightarrow> 'v cell field_value \<Rightarrow> 'v cell option" where
  \<comment> \<open>the applier's own columns have no descriptor\<close>
  "encoded_field enc c f =
     (case fv_state f of
        VALUE \<Rightarrow> if c \<in> set applier_columns then fv_value f else map_option (enc c) (fv_value f)
      | _ \<Rightarrow> None)"

definition encoded_values :: "'v encoder \<Rightarrow> 'v cell row_patch \<Rightarrow> 'v cells" where
  "encoded_values enc p =
     map (\<lambda>(c, f). (c, encoded_field enc c f)) (filter (\<lambda>(c, f). bindable f) (rp_fields p))"

definition cell_get :: "'v cells \<Rightarrow> string \<Rightarrow> 'v cell option" where
  \<comment> \<open>\<open>row.get(column)\<close>\<close>
  "cell_get img c = (case map_of img c of None \<Rightarrow> None | Some v \<Rightarrow> v)"

section \<open>TableWork of a table without a key\<close>

record 'v keyless_item =
  ki_snapshot :: bool
  ki_delete_mode :: string
  ki_previous_delete_mode :: "string option"
  ki_identified :: bool
  ki_keyless :: bool
  ki_native_columns :: "string list"
  ki_events :: nat
  ki_truncated :: bool
  ki_operations :: "'v keyless_operation list"
  ki_event_ids :: "string list"
  ki_ledger :: "(string \<times> string \<times> string option) list"
  ki_delete_effects :: "(string, 'v keyless_operation) dict"

definition str_or_else :: "string option \<Rightarrow> string \<Rightarrow> string" where
  "str_or_else x d = (case x of None \<Rightarrow> d | Some s \<Rightarrow> if s = [] then d else s)"

text \<open>\<open>work_for\<close>: the item of the table, made on first sight; the first row event says whether the
  table has a key. The modes in use are lower case already.\<close>

definition new_item :: "bool \<Rightarrow> 'v keyless_event \<Rightarrow> 'v keyless_item" where
  "new_item snapshot ev =
     \<lparr>ki_snapshot = snapshot, ki_delete_mode = str_or_else (ke_delete_mode ev) ''hard'',
      ki_previous_delete_mode = None, ki_identified = False, ki_keyless = False,
      ki_native_columns = [], ki_events = 0, ki_truncated = False, ki_operations = [],
      ki_event_ids = [], ki_ledger = [], ki_delete_effects = []\<rparr>"

definition work_for ::
  "bool \<Rightarrow> 'v keyless_item option \<Rightarrow> 'v keyless_event \<Rightarrow>
   keyless_error + 'v keyless_item" where
  "work_for snapshot work ev =
     (let item = (case work of None \<Rightarrow> new_item snapshot ev | Some i \<Rightarrow> i) in
      if str_or_else (ke_delete_mode ev) (ki_delete_mode item) \<noteq> ki_delete_mode item
      then Inl SchemaEvolutionRefused
      else Inr (if \<not> ki_identified item \<and> ke_op ev \<noteq> ''t''
                then item\<lparr>ki_identified := True, ki_keyless := ke_keyless ev\<rparr> else item))"

definition truncate_item :: "'v keyless_item \<Rightarrow> 'v keyless_item" where
  "truncate_item item = item\<lparr>ki_truncated := True, ki_events := Suc (ki_events item)\<rparr>"

section \<open>The keyless fold\<close>

definition note_column ::
  "string list \<Rightarrow> string list \<Rightarrow> string \<times> 'v cell field_value \<Rightarrow> keyless_error + string list" where
  "note_column described cols cf =
     (case cf of (c, f) \<Rightarrow>
        if c \<in> set described \<and> fv_state f \<noteq> ABSENT \<and> c \<notin> set applier_columns
        then Inr (if c \<in> set cols then cols else cols @ [c])
        else if c \<in> set applier_columns then Inr cols
        else if bindable f then Inl SchemaEvolutionRefused
        else Inr cols)"

definition keyless_field ::
  "'v encoder \<Rightarrow> 'v cell row_patch \<Rightarrow> 'v cells \<Rightarrow> string \<Rightarrow> keyless_error + 'v cells" where
  \<comment> \<open>one pass of the loop of \<open>keyless_image\<close>\<close>
  "keyless_field enc p img c =
     (if bindable (patch_field p c)
      then Inr (AList.update c (cell_get (encoded_values enc p) c) img)
      else Inl (Fold ToastBaseMissing))"

definition keyless_image ::
  "'v encoder \<Rightarrow> 'v keyless_item \<Rightarrow> 'v cell row_patch \<Rightarrow> keyless_error + 'v cells" where
  "keyless_image enc item p =
     (let source_columns = filter (\<lambda>c. c \<notin> set applier_columns) (ki_native_columns item) in
      if source_columns = [] then Inl (Fold ToastBaseMissing)
      else rfold (keyless_field enc p) [] source_columns)"

definition keyless_operation_of ::
  "'v encoder \<Rightarrow> 'v keyless_item \<Rightarrow> 'v keyless_event \<Rightarrow> 'v cell row_patch \<Rightarrow>
   keyless_error + 'v keyless_operation" where
  "keyless_operation_of enc item ev p =
     (let op = \<lparr>ko_event_id = ke_event_id ev, ko_operation = ke_op ev, ko_after = None,
                ko_before = None, ko_image_digest = ke_digest ev,
                ko_delete_mode = str_or_else (ke_delete_mode ev) ''hard'', ko_source_lsn = ke_lsn ev,
                ko_txn_id = ke_txn_id ev, ko_total_order = ke_total_order ev\<rparr> in
      if ke_op ev = ''d'' then
        rbind (keyless_image enc item p) (\<lambda>b. Inr (op\<lparr>ko_before := Some b\<rparr>))
      else if ke_op ev = ''u'' then
        rbind (keyless_image enc item (ke_before ev)) (\<lambda>b.
        rbind (keyless_image enc item p) (\<lambda>_.
          Inr (op\<lparr>ko_before := Some b, ko_after := Some (encoded_values enc p)\<rparr>)))
      else if has_marker p then Inl (Fold ToastBaseMissing)
      else Inr (op\<lparr>ko_after := Some (encoded_values enc p)\<rparr>))"

definition record_operation ::
  "'v keyless_event \<Rightarrow> 'v keyless_operation \<Rightarrow> 'v keyless_item \<Rightarrow> 'v keyless_item" where
  "record_operation ev op item =
     item\<lparr>ki_operations := ki_operations item @ [op],
          ki_delete_effects := (if ke_op ev = ''d'' then AList.update (ke_event_id ev) op (ki_delete_effects item)
                                else ki_delete_effects item),
          ki_event_ids := List.insert (ke_event_id ev) (ki_event_ids item),
          ki_ledger := (if ki_snapshot item then ki_ledger item
                        else ki_ledger item @ [(ke_event_id ev, ke_op ev, ke_digest ev)])\<rparr>"

text \<open>The probe: \<open>keyless_event_applied\<close> and \<open>read_keyless_event_state\<close> on the rows of the ledger
  committed before the group.\<close>

definition keyless_event_applied ::
  "(string, string) dict \<Rightarrow> 'v keyless_item \<Rightarrow> string \<Rightarrow> keyless_error + bool" where
  "keyless_event_applied ledger item event_id =
     (if ki_snapshot item then Inr False
      else case map_of ledger event_id of
             None \<Rightarrow> Inr False
           | Some s \<Rightarrow> (case machine_parse KEYLESS_EVENT s of
                          Inl e \<Rightarrow> Inl (LedgerState e)
                        | Inr _ \<Rightarrow> Inr True))"

definition keyless_collect ::
  "'v encoder \<Rightarrow> (string, string) dict \<Rightarrow> 'v keyless_item \<Rightarrow> 'v keyless_event \<Rightarrow> 'v cell row_patch \<Rightarrow>
   keyless_error + 'v keyless_item" where
  "keyless_collect enc ledger item ev p =
     rbind (keyless_event_applied ledger item (ke_event_id ev)) (\<lambda>applied.
       if applied then Inr item
       else if ke_event_id ev \<in> set (ki_event_ids item) then Inl (Fold AmbiguousDelete)
       else rbind (keyless_operation_of enc item ev p) (\<lambda>op. Inr (record_operation ev op item)))"

text \<open>\<open>table_work.collect\<close> up to its keyed branch, which is \<open>Table_Work\<close> and stands here as the value
  \<open>KeyedFold\<close>. It records a truncate in the order of the row
  operations; the planner does not call it for a truncate (below).\<close>

definition work_collect ::
  "'v encoder \<Rightarrow> (string, string) dict \<Rightarrow> 'v keyless_item \<Rightarrow> 'v keyless_event \<Rightarrow> 'v cell row_patch \<Rightarrow>
   keyless_error + 'v keyless_item" where
  "work_collect enc ledger item ev p =
     (if ke_op ev = ''t'' then
        let i = truncate_item item in
        Inr (i\<lparr>ki_operations := ki_operations i @
                 [\<lparr>ko_event_id = ke_event_id ev, ko_operation = ''t'', ko_after = None, ko_before = None,
                   ko_image_digest = None, ko_delete_mode = ''hard'', ko_source_lsn = None,
                   ko_txn_id = None, ko_total_order = None\<rparr>]\<rparr>)
      else
        rbind (rfold (note_column (ke_described ev)) (ki_native_columns item) (rp_fields p)) (\<lambda>cols.
          let i = item\<lparr>ki_native_columns := cols, ki_events := Suc (ki_events item)\<rparr> in
          if has_marker p \<and> ke_op ev \<in> {''c'', ''r''} then Inl (Fold ToastBaseMissing)
          else if ki_keyless i then keyless_collect enc ledger i ev p
          else Inl KeyedFold))"

text \<open>One event of the table in the planner: \<open>_collect\<close> sends a truncate to \<open>_truncate\<close>, which calls
  \<open>truncate\<close> itself, and any other event to the fold.\<close>

abbreviation TRUNCATE_REPLICATE :: string where "TRUNCATE_REPLICATE \<equiv> ''replicate''"

record 'v group_config =
  gc_encoder :: "'v encoder"
  gc_commit_id :: int
  gc_snapshot :: bool
  gc_truncate_mode :: string
  gc_choice :: "string \<Rightarrow> nat"

definition planner_collect ::
  "'v group_config \<Rightarrow> string option \<Rightarrow> (string, string) dict \<Rightarrow> 'v keyless_item option \<Rightarrow>
   'v keyless_event \<Rightarrow> keyless_error + 'v keyless_item option" where
  "planner_collect cfg previous ledger work ev =
     (if ke_op ev = ''t'' then
        (if gc_truncate_mode cfg \<noteq> TRUNCATE_REPLICATE then Inr work
         else rbind (work_for (gc_snapshot cfg) work ev) (\<lambda>item. Inr (Some (truncate_item item))))
      else
        rbind (work_for (gc_snapshot cfg) work ev) (\<lambda>item0.
          let item = (if ki_previous_delete_mode item0 = None
                      then item0\<lparr>ki_previous_delete_mode := previous\<rparr> else item0) in
          rbind (work_collect (gc_encoder cfg) ledger item ev
                   (from_event (gc_commit_id cfg) (ki_snapshot item) ev))
            (\<lambda>i. Inr (Some i))))"

section \<open>The keyless write\<close>

record 'v keyless_table =
  kt_exists :: bool
  kt_columns :: "string list"
  kt_constrained :: bool
  kt_rows :: "'v stored_row list"

definition store_row :: "string list \<Rightarrow> 'v cells \<Rightarrow> 'v stored_row" where
  "store_row order row = (\<lambda>c. if c \<in> set order then cell_get row c else None)"

definition row_matches :: "'v cells \<Rightarrow> 'v stored_row \<Rightarrow> bool" where
  \<comment> \<open>\<open>IS NOT DISTINCT FROM\<close> on every column of the image\<close>
  "row_matches img r = list_all (\<lambda>(c, v). r c = v) img"

definition limit_one :: "nat \<Rightarrow> 'a list \<Rightarrow> 'a option" where
  "limit_one n xs = (if xs = [] then None else Some (xs ! (n mod length xs)))"

text \<open>\<open>delete_matching_row\<close>: the number of rows it deleted and the rows it left. A comparison with NULL
  is never true.\<close>

definition delete_matching_row ::
  "nat \<Rightarrow> string list \<Rightarrow> 'v cells \<Rightarrow> 'v stored_row list \<Rightarrow> keyless_error + nat \<times> 'v stored_row list" where
  "delete_matching_row n columns img rows =
     (if img = [] \<or> CDCF_EVENT_ID \<notin> set columns \<or> \<not> list_all (\<lambda>(c, v). c \<in> set columns) img
      then Inl ValueError
      else case limit_one n (filter (row_matches img) rows) of
             None \<Rightarrow> Inr (0, rows)
           | Some candidate \<Rightarrow>
               if candidate CDCF_EVENT_ID = None then Inr (0, rows)
               else Inr (length (filter (\<lambda>r. r CDCF_EVENT_ID = candidate CDCF_EVENT_ID) rows),
                         filter (\<lambda>r. r CDCF_EVENT_ID \<noteq> candidate CDCF_EVENT_ID) rows))"

definition mark_row :: "'v keyless_operation \<Rightarrow> 'v stored_row \<Rightarrow> 'v stored_row" where
  "mark_row op r =
     r(CDCF_DELETED := Some (Flag True),
       ''cdcf_delete_event_id'' := Some (Text (ko_event_id op)),
       ''cdcf_delete_lsn'' := map_option (Text \<circ> str_int) (ko_source_lsn op))"

text \<open>\<open>_mark_keyless_soft_delete\<close>: every matching row is marked, the tombstones among them too.\<close>

definition mark_keyless_soft_delete ::
  "string list \<Rightarrow> 'v keyless_operation \<Rightarrow> 'v cells \<Rightarrow> 'v stored_row list \<Rightarrow> nat \<times> 'v stored_row list" where
  "mark_keyless_soft_delete columns op img rows =
     (let predicates = filter (\<lambda>(c, v). c \<in> set columns \<and> c \<notin> set applier_columns) img in
      if predicates = [] then (0, rows)
      else (length (filter (row_matches predicates) rows),
            map (\<lambda>r. if row_matches predicates r then mark_row op r else r) rows))"

record 'v keyless_writer =
  kw_rows :: "'v stored_row list"
  kw_pending :: "'v cells list"
  kw_fresh :: bool

definition flush_inserts :: "string list \<Rightarrow> 'v keyless_writer \<Rightarrow> 'v keyless_writer" where
  "flush_inserts order w =
     (if kw_pending w = [] then w
      else \<lparr>kw_rows = kw_rows w @ map (store_row order) (kw_pending w), kw_pending = [], kw_fresh = False\<rparr>)"

definition remove_before_image ::
  "(string \<Rightarrow> nat) \<Rightarrow> string list \<Rightarrow> 'v keyless_operation \<Rightarrow> 'v stored_row list \<Rightarrow>
   keyless_error + 'v stored_row list" where
  "remove_before_image choice columns op rows =
     (case ko_before op of
        None \<Rightarrow> Inl (Fold ToastBaseMissing)
      | Some img \<Rightarrow>
          rbind (if ko_operation op = ''d'' \<and> ko_delete_mode op = ''soft''
                 then Inr (mark_keyless_soft_delete columns op img rows)
                 else delete_matching_row (choice (ko_event_id op)) columns img rows)
            (\<lambda>(affected, rows'). if affected \<noteq> 1 then Inl (Fold ToastBaseMissing) else Inr rows'))"

definition write_operation ::
  "(string \<Rightarrow> nat) \<Rightarrow> string list \<Rightarrow> string list \<Rightarrow> 'v keyless_writer \<Rightarrow> 'v keyless_operation \<Rightarrow>
   keyless_error + 'v keyless_writer" where
  "write_operation choice columns order w op =
     (if ko_operation op \<in> {''c'', ''r''} then
        Inr (case ko_after op of None \<Rightarrow> w | Some row \<Rightarrow> w\<lparr>kw_pending := kw_pending w @ [row]\<rparr>)
      else
        let w1 = flush_inserts order w in
        if ko_operation op = ''t'' then
          Inr (w1\<lparr>kw_rows := (if kw_fresh w1 then kw_rows w1 else []), kw_fresh := False\<rparr>)
        else if ko_operation op \<notin> {''d'', ''u''} then Inl SchemaEvolutionRefused
        else
          rbind (remove_before_image choice columns op (kw_rows w1)) (\<lambda>rows.
            let w2 = w1\<lparr>kw_rows := rows\<rparr> in
            if ko_operation op = ''u'' then
              (case ko_after op of
                 None \<Rightarrow> Inl (Fold ToastBaseMissing)
               | Some row \<Rightarrow> Inr (flush_inserts order (w2\<lparr>kw_pending := kw_pending w2 @ [row]\<rparr>)))
            else Inr w2))"

definition write_keyless_operations ::
  "(string \<Rightarrow> nat) \<Rightarrow> string list \<Rightarrow> string list \<Rightarrow> bool \<Rightarrow> 'v keyless_operation list \<Rightarrow>
   'v stored_row list \<Rightarrow> keyless_error + 'v stored_row list" where
  "write_keyless_operations choice columns order fresh ops rows =
     rbind (rfold (write_operation choice columns order)
              \<lparr>kw_rows = rows, kw_pending = [], kw_fresh = fresh\<rparr> ops)
       (\<lambda>w. Inr (kw_rows (flush_inserts order w)))"

text \<open>\<open>ensure_typed\<close> adds the columns the table lacks, and makes a table that does not exist.\<close>

definition item_columns :: "'v keyless_item \<Rightarrow> string list" where
  "item_columns item = ki_native_columns item @ applier_columns"

definition ensure_typed :: "'v keyless_item \<Rightarrow> 'v keyless_table \<Rightarrow> 'v keyless_table" where
  "ensure_typed item t =
     t\<lparr>kt_exists := True,
       kt_columns := kt_columns t @ filter (\<lambda>c. c \<notin> set (kt_columns t)) (item_columns item)\<rparr>"

definition column_order :: "'v keyless_item \<Rightarrow> 'v keyless_table \<Rightarrow> string list" where
  "column_order item t =
     remdups (filter (\<lambda>c. c \<in> set (item_columns item)) (kt_columns t) @
              filter (\<lambda>c. c \<notin> set (kt_columns t)) (item_columns item))"

definition assert_identity_is_unique :: "'v keyless_table \<Rightarrow> keyless_error + unit" where
  "assert_identity_is_unique t =
     raise_if (\<not> kt_constrained t \<and> \<not> distinct (map (\<lambda>r. r CDCF_EVENT_ID) (kt_rows t)))
       DestinationIdentityCollision"

definition purge_tombstones :: "'v keyless_item \<Rightarrow> bool \<Rightarrow> 'v stored_row list \<Rightarrow> 'v stored_row list" where
  \<comment> \<open>the change of the policy from soft to hard\<close>
  "purge_tombstones item fresh rows =
     (if \<not> ki_snapshot item \<and> \<not> fresh \<and> ki_previous_delete_mode item = Some ''soft'' \<and>
         ki_delete_mode item = ''hard''
      then filter (\<lambda>r. r CDCF_DELETED \<noteq> Some (Flag True)) rows else rows)"

text \<open>\<open>write\<close> and \<open>_write_table\<close> for an item that never used the keyed fold (\<open>item.live\<close> is empty): a
  keyless one, or one that saw truncates only.\<close>

definition write_item ::
  "'v group_config \<Rightarrow> 'v keyless_item \<Rightarrow> 'v keyless_table \<Rightarrow> keyless_error + 'v keyless_table" where
  "write_item cfg item t0 =
     (if ki_truncated item \<and> \<not> kt_exists t0 then Inr t0
      else
        rbind (if ki_native_columns item \<noteq> [] then Inr (ensure_typed item t0, \<not> kt_exists t0)
               else if ki_truncated item \<and> kt_exists t0 then Inr (t0, False)
               else Inl SchemaEvolutionRefused) (\<lambda>(t, fresh).
          let rows = purge_tombstones item fresh (kt_rows t) in
          if ki_keyless item then
            rbind (write_keyless_operations (gc_choice cfg) (kt_columns t) (column_order item t) fresh
                     (ki_operations item) rows) (\<lambda>rows'.
              let t' = t\<lparr>kt_rows := rows'\<rparr> in
              rbind (assert_identity_is_unique t') (\<lambda>_. Inr t'))
          else Inr (t\<lparr>kt_rows := (if ki_truncated item \<and> \<not> fresh then [] else rows)\<rparr>)))"

section \<open>One commit group of the table\<close>

record 'v keyless_store =
  ks_table :: "'v keyless_table"
  ks_ledger :: "(string, string) dict"
  ks_delete_mode :: "string option"

text \<open>\<open>write_keyless_events\<close>: one row per event, checked against the machine; and the policy row of
  the table.\<close>

definition write_keyless_events ::
  "(string \<times> string \<times> string option) list \<Rightarrow> (string, string) dict \<Rightarrow>
   keyless_error + (string, string) dict" where
  "write_keyless_events rows ledger =
     (case machine_check KEYLESS_EVENT KEYLESS_EVENT_UNSEEN KEYLESS_EVENT_APPLIED of
        Inl e \<Rightarrow> if rows = [] then Inr ledger else Inl (LedgerState e)
      | Inr _ \<Rightarrow> Inr (ledger @ map (\<lambda>(event_id, _). (event_id, KEYLESS_EVENT_APPLIED)) rows))"

definition apply_keyless_group ::
  "'v group_config \<Rightarrow> 'v keyless_store \<Rightarrow> 'v keyless_event list \<Rightarrow> keyless_error + 'v keyless_store" where
  "apply_keyless_group cfg st evs =
     rbind (rfold (planner_collect cfg (ks_delete_mode st) (ks_ledger st)) None evs) (\<lambda>work.
       case work of
         None \<Rightarrow> Inr st
       | Some item \<Rightarrow>
           rbind (write_item cfg item (ks_table st)) (\<lambda>t.
           rbind (if ki_snapshot item then Inr (ks_ledger st)
                  else write_keyless_events (ki_ledger item) (ks_ledger st)) (\<lambda>ledger.
             Inr \<lparr>ks_table = t, ks_ledger = ledger,
                   ks_delete_mode = (if ki_snapshot item then ks_delete_mode st
                                     else Some (ki_delete_mode item))\<rparr>)))"

definition live_rows :: "'v keyless_store \<Rightarrow> 'v stored_row list" where
  \<comment> \<open>the view of \<open>ensure_live_view\<close>\<close>
  "live_rows st = filter (\<lambda>r. r CDCF_DELETED \<noteq> Some (Flag True)) (kt_rows (ks_table st))"


section \<open>Evaluated groups\<close>

text \<open>A table of one column \<open>a\<close>, and its events.\<close>

definition sample_image :: "string \<Rightarrow> string cell row_patch" where
  "sample_image v = \<lparr>rp_fields = [(''a'', field_of (Some (Source v)))], rp_absent = [], rp_complete = True\<rparr>"

definition keyless_sample :: "string \<Rightarrow> string \<Rightarrow> string \<Rightarrow> string \<Rightarrow> string \<Rightarrow> string keyless_event" where
  "keyless_sample mode op i old new =
     \<lparr>ke_op = op, ke_event_id = i, ke_keyless = True, ke_image = sample_image (if op = ''d'' then old else new),
      ke_before = sample_image old, ke_described = [''a''], ke_delete_mode = Some mode,
      ke_digest = Some (old @ new), ke_lsn = Some 7, ke_txn_id = Some ''1'', ke_tx_number = Some 1,
      ke_total_order = Some 1, ke_schema = ''app'', ke_table = ''log'', ke_source_ts_ms = None\<rparr>"

definition sample_config :: "string group_config" where
  "sample_config = \<lparr>gc_encoder = (\<lambda>c v. v), gc_commit_id = 1, gc_snapshot = False,
     gc_truncate_mode = TRUNCATE_REPLICATE, gc_choice = (\<lambda>i. 0)\<rparr>"

definition empty_store :: "string keyless_store" where
  "empty_store =
     \<lparr>ks_table = \<lparr>kt_exists = False, kt_columns = [], kt_constrained = False, kt_rows = []\<rparr>,
      ks_ledger = [], ks_delete_mode = None\<rparr>"

definition run_groups ::
  "'v group_config \<Rightarrow> 'v keyless_store \<Rightarrow> 'v keyless_event list list \<Rightarrow> keyless_error + 'v keyless_store" where
  "run_groups cfg = rfold (apply_keyless_group cfg)"

definition column_a :: "keyless_error + string keyless_store \<Rightarrow> keyless_error + string cell option list" where
  "column_a res = rbind res (\<lambda>st. Inr (map (\<lambda>r. r ''a'') (live_rows st)))"

lemma equal_rows_are_told_apart:
  "column_a (run_groups sample_config empty_store
      [[keyless_sample ''hard'' ''c'' ''e1'' '''' ''x'', keyless_sample ''hard'' ''c'' ''e2'' '''' ''x''],
       [keyless_sample ''hard'' ''u'' ''e3'' ''x'' ''y'', keyless_sample ''hard'' ''d'' ''e4'' ''x'' ''''],
       [keyless_sample ''hard'' ''d'' ''e4'' ''x'' '''']])
   = Inr [Some (Source ''y'')]"
  by code_simp

text \<open>The planner folds a truncate without the operation that \<open>collect\<close> records for a keyless table:
  the rows from before it stay when the same group has a row event of the table.\<close>

lemma keyless_truncate_is_lost:
  "column_a (run_groups sample_config empty_store
      [[keyless_sample ''hard'' ''c'' ''e1'' '''' ''x''],
       [keyless_sample ''hard'' ''t'' ''e2'' '''' '''', keyless_sample ''hard'' ''c'' ''e3'' '''' ''y'']])
   = Inr [Some (Source ''x''), Some (Source ''y'')]"
  by code_simp

text \<open>A truncate in the group that creates the destination table drops the rows after it, and marks
  them applied.\<close>

lemma first_reload_is_dropped:
  "rbind (run_groups sample_config empty_store
      [[keyless_sample ''hard'' ''t'' ''e1'' '''' '''', keyless_sample ''hard'' ''c'' ''e2'' '''' ''y'']])
     (\<lambda>st. Inr (map (\<lambda>r. r ''a'') (live_rows st), ks_ledger st))
   = (Inr ([], [(''e2'', ''applied'')]) :: keyless_error + _)"
  by code_simp

text \<open>In soft mode an update can replace the tombstone of an equal row instead of the live row, and a
  delete of an image that a tombstone has is refused.\<close>

lemma soft_update_takes_the_tombstone:
  "column_a (run_groups sample_config empty_store
      [[keyless_sample ''soft'' ''c'' ''e1'' '''' ''x''], [keyless_sample ''soft'' ''d'' ''e2'' ''x'' ''''],
       [keyless_sample ''soft'' ''c'' ''e3'' '''' ''x''], [keyless_sample ''soft'' ''u'' ''e4'' ''x'' ''y'']])
   = Inr [Some (Source ''x''), Some (Source ''y'')]"
  by code_simp

lemma soft_delete_of_a_reinserted_row_is_refused:
  "column_a (run_groups sample_config empty_store
      [[keyless_sample ''soft'' ''c'' ''e1'' '''' ''x''], [keyless_sample ''soft'' ''d'' ''e2'' ''x'' ''''],
       [keyless_sample ''soft'' ''c'' ''e3'' '''' ''x''], [keyless_sample ''soft'' ''d'' ''e4'' ''x'' '''']])
   = Inl (Fold ToastBaseMissing)"
  by code_simp


section \<open>The source table as a bag\<close>

datatype 'r change = Add 'r | Replace 'r 'r | Remove 'r

fun bag_step :: "'r multiset \<Rightarrow> 'r change \<Rightarrow> 'r multiset option" where
  "bag_step M (Add r) = Some (add_mset r M)"
| "bag_step M (Replace r s) = (if r \<in># M then Some (add_mset s (M - {#r#})) else None)"
| "bag_step M (Remove r) = (if r \<in># M then Some (M - {#r#}) else None)"

fun bag_run :: "'r multiset \<Rightarrow> 'r change list \<Rightarrow> 'r multiset option" where
  "bag_run M [] = Some M"
| "bag_run M (ch # chs) = (case bag_step M ch of None \<Rightarrow> None | Some M' \<Rightarrow> bag_run M' chs)"

text \<open>
  A store that implements a bag, one operation per change: \<open>ids\<close> are the identifiers its rows
  carry, and an operation with a new identifier does what the change does, or fails with \<open>missing\<close>
  when the bag has no such row.
\<close>

locale bag_store =
  fixes inv :: "'s \<Rightarrow> bool"
    and bag :: "'s \<Rightarrow> 'r multiset"
    and ids :: "'s \<Rightarrow> string set"
    and step :: "'s \<Rightarrow> 'op \<Rightarrow> 'e + 's"
    and implements :: "'op \<Rightarrow> 'r change \<Rightarrow> bool"
    and op_id :: "'op \<Rightarrow> string"
    and missing :: 'e
  assumes step_done: "inv s \<Longrightarrow> implements x ch \<Longrightarrow> op_id x \<notin> ids s \<Longrightarrow> bag_step (bag s) ch = Some M \<Longrightarrow>
      \<exists>s'. step s x = Inr s' \<and> inv s' \<and> bag s' = M \<and> ids s' \<subseteq> insert (op_id x) (ids s)"
    and step_missing: "inv s \<Longrightarrow> implements x ch \<Longrightarrow> bag_step (bag s) ch = None \<Longrightarrow> step s x = Inl missing"
begin

lemma run_bag:
  assumes "inv s" and "list_all2 implements xs chs" and "distinct (map op_id xs)"
    and "op_id ` set xs \<inter> ids s = {}"
  shows "case bag_run (bag s) chs of
      Some M \<Rightarrow> \<exists>s'. rfold step s xs = Inr s' \<and> inv s' \<and> bag s' = M \<and> ids s' \<subseteq> op_id ` set xs \<union> ids s
    | None \<Rightarrow> rfold step s xs = Inl missing"
  using assms(2,1,3,4)
proof (induction arbitrary: s rule: list_all2_induct)
  case Nil
  then show ?case by simp
next
  case (Cons x xs ch chs)
  show ?case
  proof (cases "bag_step (bag s) ch")
    case None
    with Cons.prems Cons.hyps show ?thesis by (simp add: step_missing)
  next
    case (Some M)
    from step_done [OF Cons.prems(1) Cons.hyps(1) _ Some] Cons.prems(3)
    obtain t where t: "step s x = Inr t" "inv t" "bag t = M" "ids t \<subseteq> insert (op_id x) (ids s)"
      by auto
    have "op_id ` set xs \<inter> insert (op_id x) (ids s) = {}" using Cons.prems(2,3) by simp
    then have "op_id ` set xs \<inter> ids t = {}" using t(4) by blast
    with Cons.IH [OF t(2)] Cons.prems(2) have run: "case bag_run M chs of
        Some M \<Rightarrow> \<exists>s'. rfold step t xs = Inr s' \<and> inv s' \<and> bag s' = M \<and> ids s' \<subseteq> op_id ` set xs \<union> ids t
      | None \<Rightarrow> rfold step t xs = Inl missing" using t(3) by simp
    have "ids s' \<subseteq> op_id ` set (x # xs) \<union> ids s" if "ids s' \<subseteq> op_id ` set xs \<union> ids t" for s'
      using that t(4) by auto
    with run show ?thesis using Some t(1) by (auto simp del: set_simps split: option.splits)
  qed
qed

end

section \<open>The writer implements the bag\<close>

definition image_in :: "string list \<Rightarrow> 'v stored_row \<Rightarrow> 'v stored_row" where
  "image_in C r = (\<lambda>c. if c \<in> set C then r c else None)"

definition patch_image :: "'v encoder \<Rightarrow> string list \<Rightarrow> 'v cell row_patch \<Rightarrow> 'v stored_row" where
  "patch_image enc C p = (\<lambda>c. if c \<in> set C then cell_get (encoded_values enc p) c else None)"

definition identified_row :: "'v stored_row \<Rightarrow> bool" where
  "identified_row r \<longleftrightarrow> (case r CDCF_EVENT_ID of Some (Text i) \<Rightarrow> True | _ \<Rightarrow> False) \<and>
     r CDCF_DELETED \<noteq> Some (Flag True)"

lemma identified_row_iff:
  "identified_row r \<longleftrightarrow> (\<exists>i. r CDCF_EVENT_ID = Some (Text i)) \<and> r CDCF_DELETED \<noteq> Some (Flag True)"
  by (auto simp: identified_row_def split: option.split cell.split)

definition rows_ok :: "'v stored_row list \<Rightarrow> bool" where
  "rows_ok rows \<longleftrightarrow> distinct (map (\<lambda>r. r CDCF_EVENT_ID) rows) \<and> list_all identified_row rows"

definition row_ids :: "'v stored_row list \<Rightarrow> string set" where
  "row_ids rows = set (concat (map (\<lambda>r. case r CDCF_EVENT_ID of Some (Text i) \<Rightarrow> [i] | _ \<Rightarrow> []) rows))"

lemma row_ids_iff: "row_ids rows = {i. \<exists>r \<in> set rows. r CDCF_EVENT_ID = Some (Text i)}"
  by (auto simp: row_ids_def split: option.splits cell.splits)

definition physical :: "string list \<Rightarrow> 'v keyless_writer \<Rightarrow> 'v stored_row list" where
  "physical order w = kw_rows w @ map (store_row order) (kw_pending w)"

definition row_bag :: "string list \<Rightarrow> 'v stored_row list \<Rightarrow> 'v stored_row multiset" where
  "row_bag C rows = image_mset (image_in C) (mset rows)"

text \<open>An after-image that becomes a row, and a before-image that finds one.\<close>

definition gives_row :: "string list \<Rightarrow> string \<Rightarrow> 'v cells \<Rightarrow> 'v stored_row \<Rightarrow> bool" where
  "gives_row C i img r \<longleftrightarrow> r = (\<lambda>c. if c \<in> set C then cell_get img c else None) \<and>
     cell_get img CDCF_EVENT_ID = Some (Text i) \<and> cell_get img CDCF_DELETED = Some (Flag False)"

definition finds_row :: "string list \<Rightarrow> 'v cells \<Rightarrow> 'v stored_row \<Rightarrow> bool" where
  "finds_row C img r \<longleftrightarrow> img \<noteq> [] \<and> fst ` set img \<subseteq> set C \<and> (\<forall>s. row_matches img s \<longleftrightarrow> image_in C s = r)"

fun op_implements :: "string list \<Rightarrow> 'v keyless_operation \<Rightarrow> 'v stored_row change \<Rightarrow> bool" where
  "op_implements C op (Add r) \<longleftrightarrow> ko_operation op \<in> {''c'', ''r''} \<and>
     (\<exists>a. ko_after op = Some a \<and> gives_row C (ko_event_id op) a r)"
| "op_implements C op (Replace r s) \<longleftrightarrow> ko_operation op = ''u'' \<and>
     (\<exists>b a. ko_before op = Some b \<and> ko_after op = Some a \<and> finds_row C b r \<and>
        gives_row C (ko_event_id op) a s)"
| "op_implements C op (Remove r) \<longleftrightarrow> ko_operation op = ''d'' \<and> ko_delete_mode op \<noteq> ''soft'' \<and>
     (\<exists>b. ko_before op = Some b \<and> finds_row C b r)"

lemma filter_key_remove1:
  "distinct (map f xs) \<Longrightarrow> x \<in> set xs \<Longrightarrow> filter (\<lambda>y. f y \<noteq> f x) xs = remove1 x xs"
proof (induction xs)
  case (Cons y ys)
  show ?case
  proof (cases "y = x")
    case True
    with Cons.prems(1) show ?thesis by (auto simp: image_iff intro!: filter_True)
  next
    case False
    with Cons.prems have "f y \<noteq> f x" by (auto simp: image_iff)
    with False Cons show ?thesis by simp
  qed
qed simp

lemma filter_key_one:
  "distinct (map f xs) \<Longrightarrow> x \<in> set xs \<Longrightarrow> length (filter (\<lambda>y. f y = f x) xs) = 1"
proof (induction xs)
  case (Cons y ys)
  show ?case
  proof (cases "y = x")
    case True
    with Cons.prems(1) show ?thesis by (auto simp: image_iff filter_empty_conv)
  next
    case False
    with Cons.prems have "f y \<noteq> f x" by (auto simp: image_iff)
    with False Cons show ?thesis by simp
  qed
qed simp

lemma limit_one_member: "limit_one n xs = Some x \<Longrightarrow> x \<in> set xs"
  by (auto simp: limit_one_def split: if_splits)

lemma limit_one_None [simp]: "limit_one n xs = None \<longleftrightarrow> xs = []"
  by (simp add: limit_one_def)

lemma limit_one_Nil [simp]: "limit_one n [] = None"
  by simp

lemma delete_matching_row_cases:
  assumes "rows_ok rows" and "finds_row C img r" and "set C \<subseteq> set columns" and "CDCF_EVENT_ID \<in> set columns"
  shows "if r \<in># row_bag C rows
    then \<exists>v \<in> set rows. image_in C v = r \<and> delete_matching_row n columns img rows = Inr (1, remove1 v rows)
    else delete_matching_row n columns img rows = Inr (0, rows)"
proof -
  have guards: "img \<noteq> []" "list_all (\<lambda>(c, v). c \<in> set columns) img"
    using assms(2,3) by (fastforce simp: finds_row_def list_all_iff)+
  have m: "row_matches img s \<longleftrightarrow> image_in C s = r" for s using assms(2) by (simp add: finds_row_def)
  have bag: "r \<in># row_bag C rows \<longleftrightarrow> filter (row_matches img) rows \<noteq> []"
    by (auto simp: row_bag_def m filter_empty_conv)
  show ?thesis
  proof (cases "limit_one n (filter (row_matches img) rows)")
    case None
    then show ?thesis using guards assms(4) bag by (simp add: delete_matching_row_def)
  next
    case (Some v)
    then have v: "v \<in> set rows" "image_in C v = r" using limit_one_member [OF Some] m by auto
    then have "v CDCF_EVENT_ID \<noteq> None" using assms(1) by (auto simp: rows_ok_def list_all_iff identified_row_iff)
    moreover have "distinct (map (\<lambda>r. r CDCF_EVENT_ID) rows)" using assms(1) by (simp add: rows_ok_def)
    ultimately have "delete_matching_row n columns img rows = Inr (1, remove1 v rows)"
      using guards assms(4) Some v
      by (simp add: delete_matching_row_def filter_key_remove1 [of "\<lambda>r. r CDCF_EVENT_ID"]
          filter_key_one [of "\<lambda>r. r CDCF_EVENT_ID"])
    with v bag Some show ?thesis by auto
  qed
qed


lemma flush_inserts_simps [simp]:
  "kw_pending (flush_inserts order w) = []"
  "kw_rows (flush_inserts order w) = physical order w"
  "physical order (flush_inserts order w) = physical order w"
  by (simp_all add: flush_inserts_def physical_def)

lemma row_bag_simps [simp]:
  "row_bag C (xs @ ys) = row_bag C xs + row_bag C ys"
  "row_bag C [r] = {#image_in C r#}"
  "row_bag C [] = {#}"
  by (simp_all add: row_bag_def)

lemma row_bag_remove1:
  "v \<in> set rows \<Longrightarrow> row_bag C (remove1 v rows) = row_bag C rows - {#image_in C v#}"
  by (simp add: row_bag_def image_mset_Diff)

lemma rows_ok_remove1: "rows_ok rows \<Longrightarrow> rows_ok (remove1 v rows)"
  using set_remove1_subset [of v rows]
  by (auto simp: rows_ok_def list_all_iff distinct_map intro: inj_on_subset)

lemma row_ids_remove1: "row_ids (remove1 v rows) \<subseteq> row_ids rows"
  using set_remove1_subset [of v rows] by (auto simp: row_ids_iff)

lemma rows_ok_add:
  assumes "rows_ok rows" and "r CDCF_EVENT_ID = Some (Text i)" and "r CDCF_DELETED = Some (Flag False)"
    and "i \<notin> row_ids rows"
  shows "rows_ok (rows @ [r])"
  using assms by (force simp: rows_ok_def row_ids_iff identified_row_iff)

lemma store_row_image:
  assumes "gives_row C i img r" and "set C \<subseteq> set order" and "set applier_columns \<subseteq> set order"
  shows "image_in C (store_row order img) = r" and "store_row order img CDCF_EVENT_ID = Some (Text i)"
    and "store_row order img CDCF_DELETED = Some (Flag False)"
  using assms by (auto simp: gives_row_def image_in_def store_row_def applier_columns_def fun_eq_iff)

text \<open>Adding an after-image, and removing the row of a before-image.\<close>

lemma add_pending:
  assumes "rows_ok (physical order w)" and "gives_row C i img r" and "set C \<subseteq> set order"
    and "set applier_columns \<subseteq> set order" and "i \<notin> row_ids (physical order w)"
  defines "w' \<equiv> w\<lparr>kw_pending := kw_pending w @ [img]\<rparr>"
  shows "rows_ok (physical order w')" and "row_bag C (physical order w') = add_mset r (row_bag C (physical order w))"
    and "row_ids (physical order w') \<subseteq> insert i (row_ids (physical order w))"
proof -
  let ?r = "store_row order img"
  have phys: "physical order w' = physical order w @ [?r]" by (simp add: w'_def physical_def)
  note img = store_row_image [OF assms(2-4)]
  show "rows_ok (physical order w')" unfolding phys by (rule rows_ok_add [OF assms(1) img(2,3) assms(5)])
  show "row_bag C (physical order w') = add_mset r (row_bag C (physical order w))"
    unfolding phys by (simp add: img(1))
  show "row_ids (physical order w') \<subseteq> insert i (row_ids (physical order w))"
    unfolding phys using img(2) by (auto simp: row_ids_iff)
qed

lemma remove_before_image_cases:
  assumes "rows_ok rows" and "ko_before op = Some b" and "finds_row C b r"
    and "\<not> (ko_operation op = ''d'' \<and> ko_delete_mode op = ''soft'')"
    and "set C \<subseteq> set columns" and "CDCF_EVENT_ID \<in> set columns"
  shows "if r \<in># row_bag C rows
    then \<exists>rows'. remove_before_image choice columns op rows = Inr rows' \<and> rows_ok rows' \<and>
           row_bag C rows' = row_bag C rows - {#r#} \<and> row_ids rows' \<subseteq> row_ids rows
    else remove_before_image choice columns op rows = Inl (Fold ToastBaseMissing)"
proof (cases "r \<in># row_bag C rows")
  case True
  with delete_matching_row_cases [OF assms(1,3,5,6), of "choice (ko_event_id op)"]
  obtain v where v: "v \<in> set rows" "image_in C v = r"
    "delete_matching_row (choice (ko_event_id op)) columns b rows = Inr (1, remove1 v rows)" by auto
  have "remove_before_image choice columns op rows = Inr (remove1 v rows)"
    using assms(2,4) v(3) by (auto simp: remove_before_image_def)
  with True v rows_ok_remove1 [OF assms(1), of v] row_bag_remove1 [of v rows C] row_ids_remove1 [of v rows]
  show ?thesis by auto
next
  case False
  with delete_matching_row_cases [OF assms(1,3,5,6), of "choice (ko_event_id op)"] assms(2,4)
  show ?thesis by (auto simp: remove_before_image_def)
qed


definition order_ok :: "string list \<Rightarrow> string list \<Rightarrow> string list \<Rightarrow> bool" where
  "order_ok C columns order \<longleftrightarrow> set C \<subseteq> set order \<and> set applier_columns \<subseteq> set order \<and> set order \<subseteq> set columns"

lemma order_okD:
  assumes "order_ok C columns order"
  shows "set C \<subseteq> set order" and "set applier_columns \<subseteq> set order" and "set C \<subseteq> set columns"
    and "CDCF_EVENT_ID \<in> set columns"
  using assms by (auto simp: order_ok_def applier_columns_def)

text \<open>The bag of a writer, its rows and what is pending.\<close>

lemma write_add:
  assumes ord: "order_ok C columns order" and inv: "rows_ok (physical order w)"
    and op: "op_implements C op (Add r)" and new: "ko_event_id op \<notin> row_ids (physical order w)"
  shows "\<exists>w'. write_operation choice columns order w op = Inr w' \<and> rows_ok (physical order w') \<and>
    row_bag C (physical order w') = add_mset r (row_bag C (physical order w)) \<and>
    row_ids (physical order w') \<subseteq> insert (ko_event_id op) (row_ids (physical order w))"
proof -
  from op obtain a where a: "ko_operation op \<in> {''c'', ''r''}" "ko_after op = Some a"
    "gives_row C (ko_event_id op) a r" by auto
  have "write_operation choice columns order w op = Inr (w\<lparr>kw_pending := kw_pending w @ [a]\<rparr>)"
    using a(1,2) by (simp add: write_operation_def)
  with add_pending [OF inv a(3) order_okD(1,2) [OF ord] new] show ?thesis by blast
qed

lemma write_remove:
  assumes ord: "order_ok C columns order" and inv: "rows_ok (physical order w)"
    and op: "op_implements C op (Remove r)"
  shows "if r \<in># row_bag C (physical order w)
    then \<exists>w'. write_operation choice columns order w op = Inr w' \<and> rows_ok (physical order w') \<and>
           row_bag C (physical order w') = row_bag C (physical order w) - {#r#} \<and>
           row_ids (physical order w') \<subseteq> row_ids (physical order w)
    else write_operation choice columns order w op = Inl (Fold ToastBaseMissing)"
proof -
  from op obtain b where b: "ko_operation op = ''d''" "ko_before op = Some b" "finds_row C b r"
    "\<not> (ko_operation op = ''d'' \<and> ko_delete_mode op = ''soft'')" by auto
  have eq: "write_operation choice columns order w op =
      rbind (remove_before_image choice columns op (physical order w))
        (\<lambda>rows. Inr ((flush_inserts order w)\<lparr>kw_rows := rows\<rparr>))"
    using b(1) by (simp add: write_operation_def Let_def)
  have phys: "physical order ((flush_inserts order w)\<lparr>kw_rows := rows\<rparr>) = rows" for rows
    by (simp add: physical_def)
  from remove_before_image_cases [OF inv b(2,3,4) order_okD(3,4) [OF ord], of choice] phys
  show ?thesis unfolding eq by (auto split: if_splits)
qed

lemma write_replace:
  assumes ord: "order_ok C columns order" and inv: "rows_ok (physical order w)"
    and op: "op_implements C op (Replace r s)"
  shows "if r \<in># row_bag C (physical order w)
    then ko_event_id op \<notin> row_ids (physical order w) \<longrightarrow>
         (\<exists>w'. write_operation choice columns order w op = Inr w' \<and> rows_ok (physical order w') \<and>
           row_bag C (physical order w') = add_mset s (row_bag C (physical order w) - {#r#}) \<and>
           row_ids (physical order w') \<subseteq> insert (ko_event_id op) (row_ids (physical order w)))
    else write_operation choice columns order w op = Inl (Fold ToastBaseMissing)"
proof -
  from op obtain b a where b: "ko_operation op = ''u''" "ko_before op = Some b" "finds_row C b r"
    "\<not> (ko_operation op = ''d'' \<and> ko_delete_mode op = ''soft'')"
    and a: "ko_after op = Some a" "gives_row C (ko_event_id op) a s" by auto
  define w1 where "w1 rows = (flush_inserts order w)\<lparr>kw_rows := rows\<rparr>" for rows
  have eq: "write_operation choice columns order w op =
      rbind (remove_before_image choice columns op (physical order w))
        (\<lambda>rows. Inr (flush_inserts order ((w1 rows)\<lparr>kw_pending := kw_pending (w1 rows) @ [a]\<rparr>)))"
    using b(1) a(1) by (simp add: write_operation_def Let_def w1_def)
  have phys: "physical order (w1 rows) = rows" for rows by (simp add: physical_def w1_def)
  note removed = remove_before_image_cases [OF inv b(2,3,4) order_okD(3,4) [OF ord], of choice]
  show ?thesis
  proof (cases "r \<in># row_bag C (physical order w)")
    case False
    with removed eq show ?thesis by simp
  next
    case True
    with removed obtain rows where rows: "remove_before_image choice columns op (physical order w) = Inr rows"
      "rows_ok rows" "row_bag C rows = row_bag C (physical order w) - {#r#}"
      "row_ids rows \<subseteq> row_ids (physical order w)" by auto
    show ?thesis
    proof (simp only: True if_True, rule impI)
      assume new: "ko_event_id op \<notin> row_ids (physical order w)"
      have "rows_ok (physical order (w1 rows))" "ko_event_id op \<notin> row_ids (physical order (w1 rows))"
        using rows(2,4) new by (auto simp: phys)
      note added = add_pending [OF this(1) a(2) order_okD(1,2) [OF ord] this(2), unfolded phys]
      show "\<exists>w'. write_operation choice columns order w op = Inr w' \<and> rows_ok (physical order w') \<and>
           row_bag C (physical order w') = add_mset s (row_bag C (physical order w) - {#r#}) \<and>
           row_ids (physical order w') \<subseteq> insert (ko_event_id op) (row_ids (physical order w))"
        unfolding eq rows(1) using added rows(3,4) by auto
    qed
  qed
qed


interpretation writer: bag_store "\<lambda>w. order_ok C columns order \<and> rows_ok (physical order w)"
    "\<lambda>w. row_bag C (physical order w)" "\<lambda>w. row_ids (physical order w)"
    "write_operation choice columns order" "op_implements C" ko_event_id "Fold ToastBaseMissing"
  for C columns order choice
proof unfold_locales
  fix w op ch M
  assume inv: "order_ok C columns order \<and> rows_ok (physical order w)" and imp: "op_implements C op ch"
    and new: "ko_event_id op \<notin> row_ids (physical order w)"
    and run: "bag_step (row_bag C (physical order w)) ch = Some M"
  show "\<exists>w'. write_operation choice columns order w op = Inr w' \<and>
      (order_ok C columns order \<and> rows_ok (physical order w')) \<and> row_bag C (physical order w') = M \<and>
      row_ids (physical order w') \<subseteq> insert (ko_event_id op) (row_ids (physical order w))"
  proof (cases ch)
    case (Add r)
    with run inv imp write_add [of C columns order w op r choice] new show ?thesis by auto
  next
    case (Replace r s)
    with run have "r \<in># row_bag C (physical order w)" by (auto split: if_splits)
    with Replace run inv imp write_replace [of C columns order w op r s choice] new show ?thesis by auto
  next
    case (Remove r)
    with run have "r \<in># row_bag C (physical order w)" by (auto split: if_splits)
    with Remove run inv imp write_remove [of C columns order w op r choice] show ?thesis
      by auto
  qed
next
  fix w op ch
  assume inv: "order_ok C columns order \<and> rows_ok (physical order w)" and imp: "op_implements C op ch"
    and run: "bag_step (row_bag C (physical order w)) ch = None"
  then show "write_operation choice columns order w op = Inl (Fold ToastBaseMissing)"
    using write_replace [of C columns order w op _ _ choice] write_remove [of C columns order w op _ choice]
    by (cases ch) (auto split: if_splits)
qed

lemma write_keyless_operations_bag:
  assumes "order_ok C columns order" and "rows_ok rows" and "list_all2 (op_implements C) ops chs"
    and "distinct (map ko_event_id ops)" and "ko_event_id ` set ops \<inter> row_ids rows = {}"
  shows "case bag_run (row_bag C rows) chs of
      Some M \<Rightarrow> \<exists>rows'. write_keyless_operations choice columns order fresh ops rows = Inr rows' \<and>
        rows_ok rows' \<and> row_bag C rows' = M \<and> row_ids rows' \<subseteq> ko_event_id ` set ops \<union> row_ids rows
    | None \<Rightarrow> write_keyless_operations choice columns order fresh ops rows = Inl (Fold ToastBaseMissing)"
proof -
  let ?w = "\<lparr>kw_rows = rows, kw_pending = [], kw_fresh = fresh\<rparr>"
  have phys: "physical order ?w = rows" by (simp add: physical_def)
  have "rfold (write_operation choice columns order) ?w ops = Inr w' \<Longrightarrow>
      write_keyless_operations choice columns order fresh ops rows = Inr (physical order w')" for w'
    by (simp add: write_keyless_operations_def)
  moreover have "rfold (write_operation choice columns order) ?w ops = Inl e \<Longrightarrow>
      write_keyless_operations choice columns order fresh ops rows = Inl e" for e
    by (simp add: write_keyless_operations_def)
  ultimately show ?thesis
    using writer.run_bag [of C columns order ?w ops chs choice, unfolded phys] assms
    by (auto split: option.splits)
qed


section \<open>The fold makes operations that implement the changes\<close>

definition full_patch :: "string list \<Rightarrow> 'v cell row_patch \<Rightarrow> bool" where
  \<comment> \<open>an image with a value or NULL for every source column\<close>
  "full_patch C p \<longleftrightarrow> distinct (map fst (rp_fields p)) \<and> fst ` set (rp_fields p) = set C \<and>
     list_all (\<lambda>(c, f). bindable f) (rp_fields p)"

definition row_event :: "string list \<Rightarrow> 'v keyless_event \<Rightarrow> bool" where
  "row_event C ev \<longleftrightarrow> ke_op ev \<in> {''c'', ''r'', ''u'', ''d''} \<and> ke_keyless ev \<and>
     full_patch C (ke_image ev) \<and> (ke_op ev = ''u'' \<longrightarrow> full_patch C (ke_before ev)) \<and>
     set C \<subseteq> set (ke_described ev) \<and> str_or_else (ke_delete_mode ev) ''hard'' = ''hard''"

definition change_of :: "'v encoder \<Rightarrow> string list \<Rightarrow> 'v keyless_event \<Rightarrow> 'v stored_row change" where
  "change_of enc C ev =
     (if ke_op ev = ''d'' then Remove (patch_image enc C (ke_image ev))
      else if ke_op ev = ''u'' then Replace (patch_image enc C (ke_before ev)) (patch_image enc C (ke_image ev))
      else Add (patch_image enc C (ke_image ev)))"

definition source_columns_ok :: "string list \<Rightarrow> bool" where
  "source_columns_ok C \<longleftrightarrow> C \<noteq> [] \<and> set C \<inter> set applier_columns = {}"

lemma fold_update_new:
  "distinct (map fst ms) \<Longrightarrow> fst ` set ms \<inter> fst ` set d = {} \<Longrightarrow>
   fold (\<lambda>(c, v). AList.update c (g v)) ms d = d @ map (\<lambda>(c, v). (c, g v)) ms"
  by (induction ms arbitrary: d) (auto simp: alist_update_new image_iff)

lemma row_metadata_columns: "map fst (row_metadata n s ev) = applier_columns"
  by (simp add: row_metadata_def applier_columns_def)

lemma distinct_applier_columns: "distinct applier_columns"
  by code_simp

lemma from_event_fields:
  assumes "full_patch C (ke_image ev)" and "source_columns_ok C"
  shows "rp_fields (from_event n s ev) =
    rp_fields (ke_image ev) @ map (\<lambda>(c, v). (c, field_of v)) (row_metadata n s ev)"
proof -
  have "fst ` set (row_metadata n s ev) = set applier_columns"
    by (simp flip: row_metadata_columns [of n s ev])
  with assms have "fst ` set (row_metadata n s ev) \<inter> fst ` set (rp_fields (ke_image ev)) = {}"
    by (auto simp: full_patch_def source_columns_ok_def)
  then show ?thesis
    by (simp add: from_event_def Let_def fold_update_new row_metadata_columns distinct_applier_columns)
qed

lemma bindable_field_of [simp]: "bindable (field_of v)"
  by (simp add: bindable_def field_of_def split: option.split)

lemma from_event_bindable:
  assumes "full_patch C (ke_image ev)" and "source_columns_ok C"
  shows "list_all (\<lambda>(c, f). bindable f) (rp_fields (from_event n s ev))"
    and "fst ` set (rp_fields (from_event n s ev)) = set C \<union> set applier_columns"
proof -
  note fields = from_event_fields [OF assms, of n s]
  show "list_all (\<lambda>(c, f). bindable f) (rp_fields (from_event n s ev))"
    using assms(1) unfolding fields by (auto simp: full_patch_def list_all_iff)
  have "fst ` set (map (\<lambda>(c, v). (c, field_of v)) (row_metadata n s ev)) = set (map fst (row_metadata n s ev))"
    by force
  then show "fst ` set (rp_fields (from_event n s ev)) = set C \<union> set applier_columns"
    using assms(1) unfolding fields by (simp add: full_patch_def row_metadata_columns image_Un)
qed

text \<open>An encoded image, column by column.\<close>

lemma map_of_encoded:
  assumes "list_all (\<lambda>(c, f). bindable f) fs"
  shows "map_of (map (\<lambda>(c, f). (c, encoded_field enc c f)) (filter (\<lambda>(c, f). bindable f) fs)) c =
    map_option (encoded_field enc c) (map_of fs c)"
  using assms by (induction fs) auto

lemma cell_get_encoded:
  assumes "list_all (\<lambda>(c, f). bindable f) (rp_fields p)"
  shows "cell_get (encoded_values enc p) c =
    (case map_of (rp_fields p) c of None \<Rightarrow> None | Some f \<Rightarrow> encoded_field enc c f)"
  using map_of_encoded [OF assms, of enc c]
  by (simp add: cell_get_def encoded_values_def split: option.split)

lemma from_event_image:
  assumes "full_patch C (ke_image ev)" and "source_columns_ok C" and "c \<in> set C"
  shows "cell_get (encoded_values enc (from_event n s ev)) c = cell_get (encoded_values enc (ke_image ev)) c"
proof -
  have "c \<in> fst ` set (rp_fields (ke_image ev))" using assms by (simp add: full_patch_def)
  then obtain f where "map_of (rp_fields (ke_image ev)) c = Some f" by (meson map_of_eq_None_iff not_Some_eq)
  then show ?thesis
    using assms(1) from_event_bindable(1) [OF assms(1,2), of n s]
    by (simp add: cell_get_encoded full_patch_def from_event_fields [OF assms(1,2)] map_add_Some_iff
        map_of_append split: option.split)
qed

lemma from_event_metadata:
  assumes "full_patch C (ke_image ev)" and "source_columns_ok C"
  shows "cell_get (encoded_values enc (from_event n s ev)) CDCF_EVENT_ID = Some (Text (ke_event_id ev))"
    and "cell_get (encoded_values enc (from_event n s ev)) CDCF_DELETED = Some (Flag False)"
proof -
  have "c \<notin> fst ` set (rp_fields (ke_image ev))" if "c \<in> set applier_columns" for c
    using assms that by (auto simp: full_patch_def source_columns_ok_def)
  then have none: "map_of (rp_fields (ke_image ev)) CDCF_EVENT_ID = None"
      "map_of (rp_fields (ke_image ev)) CDCF_DELETED = None"
    by (simp_all add: map_of_eq_None_iff applier_columns_def)
  note get = cell_get_encoded [OF from_event_bindable(1) [OF assms], unfolded from_event_fields [OF assms]]
  show "cell_get (encoded_values enc (from_event n s ev)) CDCF_EVENT_ID = Some (Text (ke_event_id ev))"
    and "cell_get (encoded_values enc (from_event n s ev)) CDCF_DELETED = Some (Flag False)"
    by (simp_all add: get none map_add_def row_metadata_def field_of_def encoded_field_def
        applier_columns_def)
qed


lemma note_columns:
  assumes "\<forall>(c, f) \<in> set fs. bindable f \<and> (c \<in> set described \<or> c \<in> set applier_columns)"
  shows "\<exists>cols'. rfold (note_column described) cols fs = Inr cols' \<and>
    set cols' = set cols \<union> (fst ` set fs - set applier_columns)"
  using assms
proof (induction fs arbitrary: cols)
  case Nil
  then show ?case by simp
next
  case (Cons cf fs)
  obtain c f where cf: "cf = (c, f)" by (cases cf)
  have b: "bindable f" "fv_state f \<noteq> ABSENT" and d: "c \<in> set described \<or> c \<in> set applier_columns"
    using Cons.prems cf by (auto simp: bindable_def)
  define cols1 where "cols1 = (if c \<in> set applier_columns \<or> c \<in> set cols then cols else cols @ [c])"
  have "note_column described cols cf = Inr cols1"
    using b d by (auto simp: note_column_def cf cols1_def)
  moreover have "set cols1 = set cols \<union> ({c} - set applier_columns)" by (auto simp: cols1_def)
  moreover obtain cols' where "rfold (note_column described) cols1 fs = Inr cols'"
      "set cols' = set cols1 \<union> (fst ` set fs - set applier_columns)"
    using Cons.IH [of cols1] Cons.prems by auto
  ultimately show ?case using cf by auto
qed

lemma keyless_image_fold:
  assumes "\<forall>c \<in> set cols. bindable (patch_field p c)" and "distinct (map fst img)"
  shows "\<exists>img'. rfold (keyless_field enc p) img cols = Inr img' \<and> distinct (map fst img') \<and>
    fst ` set img' = fst ` set img \<union> set cols \<and>
    (\<forall>c. map_of img' c = (if c \<in> set cols then Some (cell_get (encoded_values enc p) c) else map_of img c))"
  using assms
proof (induction cols arbitrary: img)
  case Nil
  then show ?case by simp
next
  case (Cons c cols)
  let ?img = "AList.update c (cell_get (encoded_values enc p) c) img"
  have "keyless_field enc p img c = Inr ?img" using Cons.prems(1) by (simp add: keyless_field_def)
  moreover have "distinct (map fst ?img)" using Cons.prems(2) by (rule distinct_update)
  with Cons.IH [of ?img] Cons.prems(1) obtain img' where "rfold (keyless_field enc p) ?img cols = Inr img'"
      "distinct (map fst img')" "fst ` set img' = fst ` set ?img \<union> set cols"
      "\<forall>c. map_of img' c = (if c \<in> set cols then Some (cell_get (encoded_values enc p) c) else map_of ?img c)"
    by auto
  ultimately show ?case by (auto simp: dom_update update_conv')
qed

lemma row_matches_iff:
  assumes "distinct (map fst img)" and "fst ` set img = set C"
    and "\<forall>c \<in> set C. map_of img c = Some (f c)"
  shows "row_matches img r \<longleftrightarrow> image_in C r = (\<lambda>c. if c \<in> set C then f c else None)"
proof -
  have "(c, v) \<in> set img \<longleftrightarrow> c \<in> set C \<and> v = f c" for c v
    using assms by (metis domI domIff map_of_eq_None_iff map_of_eq_Some_iff option.inject)
  then have "set img = (\<lambda>c. (c, f c)) ` set C" by auto
  then show ?thesis by (auto simp: row_matches_def list_all_iff image_in_def fun_eq_iff)
qed

lemma keyless_image_finds:
  assumes "set (ki_native_columns item) = set C" and "source_columns_ok C"
    and "list_all (\<lambda>(c, f). bindable f) (rp_fields p)" and "set C \<subseteq> fst ` set (rp_fields p)"
  shows "\<exists>img. keyless_image enc item p = Inr img \<and> finds_row C img (patch_image enc C p)"
proof -
  let ?cols = "filter (\<lambda>c. c \<notin> set applier_columns) (ki_native_columns item)"
  have cols: "set ?cols = set C" using assms(1,2) by (auto simp: source_columns_ok_def)
  have "set ?cols \<noteq> {}" unfolding cols using assms(2) by (simp add: source_columns_ok_def)
  then have nonempty: "?cols \<noteq> []" by (metis list.set(1))
  have "bindable (patch_field p c)" if "c \<in> set C" for c
  proof -
    from that assms(4) obtain f where "map_of (rp_fields p) c = Some f"
      by (meson map_of_eq_None_iff not_Some_eq subsetD)
    with assms(3) show ?thesis
      using map_of_SomeD [of "rp_fields p" c f] by (auto simp: patch_field_def dict_get_def list_all_iff)
  qed
  with keyless_image_fold [of ?cols p "[]" enc, unfolded cols] obtain img where
    img: "rfold (keyless_field enc p) [] ?cols = Inr img" "distinct (map fst img)" "fst ` set img = set C"
      "\<forall>c. map_of img c = (if c \<in> set C then Some (cell_get (encoded_values enc p) c) else None)" by auto
  have "keyless_image enc item p = Inr img"
    using img(1) nonempty unfolding keyless_image_def Let_def by simp
  moreover have "img \<noteq> []" using img(3) assms(2) by (auto simp: source_columns_ok_def)
  ultimately show ?thesis
    using row_matches_iff [OF img(2,3), of "cell_get (encoded_values enc p)"] img(3,4)
    by (auto simp: finds_row_def patch_image_def)
qed


lemma no_marker: "list_all (\<lambda>(c, f). bindable f) (rp_fields p) \<Longrightarrow> \<not> has_marker p"
proof -
  assume "list_all (\<lambda>(c, f). bindable f) (rp_fields p)"
  then have "filter (\<lambda>(c, f). fv_state f = UNCHANGED_TOAST) (rp_fields p) = []"
    by (auto simp: bindable_def list_all_iff filter_empty_conv)
  then show ?thesis by (simp add: has_marker_def marker_columns_def)
qed

lemma gives_from_event:
  assumes "full_patch C (ke_image ev)" and "source_columns_ok C"
  shows "gives_row C (ke_event_id ev) (encoded_values enc (from_event n s ev)) (patch_image enc C (ke_image ev))"
  using from_event_image [OF assms] from_event_metadata [OF assms]
  by (auto simp: gives_row_def patch_image_def)

lemma operation_implements:
  assumes ev: "row_event C ev" and C: "source_columns_ok C" and cols: "set (ki_native_columns item) = set C"
  shows "\<exists>op. keyless_operation_of enc item ev (from_event n s ev) = Inr op \<and>
    op_implements C op (change_of enc C ev) \<and> ko_event_id op = ke_event_id ev"
proof -
  let ?p = "from_event n s ev"
  have full: "full_patch C (ke_image ev)" using ev by (simp add: row_event_def)
  note patch = from_event_bindable [OF full C, of n s]
  have image: "patch_image enc C ?p = patch_image enc C (ke_image ev)"
    using from_event_image [OF full C] by (auto simp: patch_image_def)
  obtain img where img: "keyless_image enc item ?p = Inr img"
      "finds_row C img (patch_image enc C (ke_image ev))"
    using keyless_image_finds [OF cols C patch(1), of enc] patch(2) image by auto
  note gives = gives_from_event [OF full C, of enc n s]
  note marker = no_marker [OF patch(1)]
  have mode: "str_or_else (ke_delete_mode ev) ''hard'' \<noteq> ''soft''" using ev by (simp add: row_event_def)
  consider (d) "ke_op ev = ''d''" | (u) "ke_op ev = ''u''" | (c) "ke_op ev \<in> {''c'', ''r''}"
    using ev by (auto simp: row_event_def)
  then show ?thesis
  proof cases
    case d
    then show ?thesis using img mode by (auto simp: keyless_operation_of_def Let_def change_of_def)
  next
    case u
    then have before: "full_patch C (ke_before ev)" using ev by (simp add: row_event_def)
    then obtain b where b: "keyless_image enc item (ke_before ev) = Inr b"
        "finds_row C b (patch_image enc C (ke_before ev))"
      using keyless_image_finds [OF cols C, of "ke_before ev" enc] by (auto simp: full_patch_def)
    show ?thesis using u img(1) b gives by (auto simp: keyless_operation_of_def Let_def change_of_def)
  next
    case c
    then show ?thesis using marker gives by (auto simp: keyless_operation_of_def Let_def change_of_def)
  qed
qed

text \<open>What the fold has after some of the group's events: \<open>done\<close> are those of them that were not
  applied before.\<close>

definition fold_state ::
  "'v encoder \<Rightarrow> string list \<Rightarrow> string option \<Rightarrow> 'v keyless_event list \<Rightarrow> 'v keyless_item \<Rightarrow> bool" where
  "fold_state enc C previous evs item \<longleftrightarrow>
     \<not> ki_snapshot item \<and> ki_delete_mode item = ''hard'' \<and> ki_previous_delete_mode item = previous \<and>
     ki_identified item \<and> ki_keyless item \<and> \<not> ki_truncated item \<and>
     list_all2 (op_implements C) (ki_operations item) (map (change_of enc C) evs) \<and>
     map ko_event_id (ki_operations item) = map ke_event_id evs \<and>
     set (ki_event_ids item) = ke_event_id ` set evs \<and>
     map fst (ki_ledger item) = map ke_event_id evs"

definition work_state ::
  "'v encoder \<Rightarrow> string list \<Rightarrow> string option \<Rightarrow> 'v keyless_event list \<Rightarrow> 'v keyless_item option \<Rightarrow> bool" where
  "work_state enc C previous evs work =
     (case work of None \<Rightarrow> evs = []
      | Some item \<Rightarrow> fold_state enc C previous evs item \<and> set (ki_native_columns item) = set C)"

definition applied_only :: "(string, string) dict \<Rightarrow> bool" where
  "applied_only ledger \<longleftrightarrow> list_all (\<lambda>(i, s). s = KEYLESS_EVENT_APPLIED) ledger"

lemma machine_parse_applied: "machine_parse KEYLESS_EVENT KEYLESS_EVENT_APPLIED = Inr KEYLESS_EVENT_APPLIED"
  by code_simp

lemma event_applied_iff:
  assumes "applied_only ledger" and "\<not> ki_snapshot item"
  shows "keyless_event_applied ledger item i = Inr (i \<in> fst ` set ledger)"
proof (cases "map_of ledger i")
  case None
  then have "i \<notin> fst ` set ledger" by (simp add: map_of_eq_None_iff)
  with None show ?thesis using assms(2) by (simp add: keyless_event_applied_def)
next
  case (Some s)
  then have "s = KEYLESS_EVENT_APPLIED" and "i \<in> fst ` set ledger"
    using assms(1) map_of_SomeD [OF Some] by (auto simp: applied_only_def list_all_iff intro: rev_image_eqI)
  then show ?thesis using assms(2) Some by (simp add: keyless_event_applied_def machine_parse_applied)
qed


lemma prepared_item:
  assumes ev: "row_event C ev" and st: "work_state enc C previous evs work"
  obtains item where "work_for False work ev = Inr item"
    and "fold_state enc C previous evs
           (if ki_previous_delete_mode item = None then item\<lparr>ki_previous_delete_mode := previous\<rparr> else item)"
    and "set (ki_native_columns item) \<subseteq> set C"
proof (cases work)
  case None
  let ?item = "(new_item False ev)\<lparr>ki_identified := True, ki_keyless := ke_keyless ev\<rparr>"
  have "work_for False work ev = Inr ?item"
    using ev None by (auto simp: work_for_def row_event_def new_item_def str_or_else_def split: option.splits if_splits)
  moreover have "fold_state enc C previous evs (?item\<lparr>ki_previous_delete_mode := previous\<rparr>)"
    using ev st None by (simp add: fold_state_def work_state_def row_event_def new_item_def)
  ultimately show ?thesis using that by (simp add: new_item_def)
next
  case (Some item)
  then have st: "fold_state enc C previous evs item" "set (ki_native_columns item) = set C"
    using st by (simp_all add: work_state_def)
  then have same: "(if ki_previous_delete_mode item = None then item\<lparr>ki_previous_delete_mode := previous\<rparr> else item) = item"
    by (simp add: fold_state_def)
  have "work_for False work ev = Inr item"
    using ev Some st(1) by (auto simp: work_for_def Let_def row_event_def fold_state_def str_or_else_def split: option.splits if_splits)
  then show ?thesis using that same st by auto
qed

lemma collect_event:
  assumes ev: "row_event C ev" and C: "source_columns_ok C" and L: "applied_only ledger"
    and st: "work_state (gc_encoder cfg) C previous evs work" and cfg: "\<not> gc_snapshot cfg"
    and new: "ke_event_id ev \<notin> fst ` set ledger \<Longrightarrow> ke_event_id ev \<notin> ke_event_id ` set evs"
  shows "\<exists>work'. planner_collect cfg previous ledger work ev = Inr work' \<and> work' \<noteq> None \<and>
    work_state (gc_encoder cfg) C previous
      (if ke_event_id ev \<in> fst ` set ledger then evs else evs @ [ev]) work'"
proof -
  let ?enc = "gc_encoder cfg"
  from prepared_item [OF ev st] obtain item0 where item0: "work_for False work ev = Inr item0"
    "fold_state ?enc C previous evs
       (if ki_previous_delete_mode item0 = None then item0\<lparr>ki_previous_delete_mode := previous\<rparr> else item0)"
    "set (ki_native_columns item0) \<subseteq> set C" .
  define item where "item = (if ki_previous_delete_mode item0 = None
    then item0\<lparr>ki_previous_delete_mode := previous\<rparr> else item0)"
  have item: "fold_state ?enc C previous evs item" "set (ki_native_columns item) \<subseteq> set C"
    using item0(2,3) by (simp_all add: item_def)
  let ?p = "from_event (gc_commit_id cfg) False ev"
  have full: "full_patch C (ke_image ev)" using ev by (simp add: row_event_def)
  note patch = from_event_bindable [OF full C, of "gc_commit_id cfg" False]
  have op: "ke_op ev \<noteq> ''t''" using ev by (auto simp: row_event_def)
  have "\<forall>(c, f) \<in> set (rp_fields ?p). bindable f \<and> (c \<in> set (ke_described ev) \<or> c \<in> set applier_columns)"
    using patch ev by (force simp: row_event_def list_all_iff)
  moreover have "set (ki_native_columns item) \<union> (set C \<union> set applier_columns - set applier_columns) = set C"
    using item(2) C by (auto simp: source_columns_ok_def)
  ultimately obtain cols where
    cols: "rfold (note_column (ke_described ev)) (ki_native_columns item) (rp_fields ?p) = Inr cols" "set cols = set C"
    using note_columns [of "rp_fields ?p" "ke_described ev" "ki_native_columns item"] patch(2) by auto
  define i where "i = item\<lparr>ki_native_columns := cols, ki_events := Suc (ki_events item)\<rparr>"
  have i: "fold_state ?enc C previous evs i" "set (ki_native_columns i) = set C" "\<not> ki_snapshot i"
    using item(1) cols(2) by (simp_all add: i_def fold_state_def)
  have "planner_collect cfg previous ledger work ev = rbind (keyless_collect ?enc ledger i ev ?p) (\<lambda>i. Inr (Some i))"
    using op item0(1) cfg cols(1) no_marker [OF patch(1)] item(1)
    by (simp add: planner_collect_def work_collect_def Let_def i_def fold_state_def flip: item_def)
  moreover have "\<exists>i'. keyless_collect ?enc ledger i ev ?p = Inr i' \<and> work_state ?enc C previous
      (if ke_event_id ev \<in> fst ` set ledger then evs else evs @ [ev]) (Some i')"
  proof (cases "ke_event_id ev \<in> fst ` set ledger")
    case True
    then show ?thesis using event_applied_iff [OF L i(3)] i by (simp add: keyless_collect_def work_state_def)
  next
    case False
    obtain x where x: "keyless_operation_of ?enc i ev ?p = Inr x" "op_implements C x (change_of ?enc C ev)"
        "ko_event_id x = ke_event_id ev"
      using operation_implements [OF ev C i(2)] by blast
    have "ke_event_id ev \<notin> set (ki_event_ids i)" using new [OF False] i(1) by (simp add: fold_state_def)
    then have "keyless_collect ?enc ledger i ev ?p = Inr (record_operation ev x i)"
      using event_applied_iff [OF L i(3)] False x(1) by (simp add: keyless_collect_def)
    moreover have "fold_state ?enc C previous (evs @ [ev]) (record_operation ev x i)"
        "set (ki_native_columns (record_operation ev x i)) = set C"
      using i x(2,3) by (simp_all add: fold_state_def record_operation_def list_all2_appendI)
    ultimately show ?thesis using False by (simp add: work_state_def)
  qed
  ultimately show ?thesis by (auto split del: if_split)
qed


lemma collect_events:
  assumes "list_all (row_event C) evs" and C: "source_columns_ok C" and L: "applied_only ledger"
    and cfg: "\<not> gc_snapshot cfg" and "work_state (gc_encoder cfg) C previous seen work"
    and "distinct (map ke_event_id (seen @ filter (\<lambda>ev. ke_event_id ev \<notin> fst ` set ledger) evs))"
  shows "\<exists>work'. rfold (planner_collect cfg previous ledger) work evs = Inr work' \<and>
    (evs \<noteq> [] \<longrightarrow> work' \<noteq> None) \<and>
    work_state (gc_encoder cfg) C previous (seen @ filter (\<lambda>ev. ke_event_id ev \<notin> fst ` set ledger) evs) work'"
  using assms(1,5,6)
proof (induction evs arbitrary: seen work)
  case Nil
  then show ?case by simp
next
  case (Cons ev evs)
  let ?seen = "if ke_event_id ev \<in> fst ` set ledger then seen else seen @ [ev]"
  have ev: "row_event C ev" and evs: "list_all (row_event C) evs" using Cons.prems(1) by simp_all
  have "ke_event_id ev \<notin> fst ` set ledger \<Longrightarrow> ke_event_id ev \<notin> ke_event_id ` set seen"
    using Cons.prems(3) by auto
  from collect_event [OF ev C L Cons.prems(2) cfg this] obtain w1 where
    w1: "planner_collect cfg previous ledger work ev = Inr w1" "w1 \<noteq> None"
      "work_state (gc_encoder cfg) C previous ?seen w1" by blast
  have seen: "?seen @ filter (\<lambda>ev. ke_event_id ev \<notin> fst ` set ledger) evs =
      seen @ filter (\<lambda>ev. ke_event_id ev \<notin> fst ` set ledger) (ev # evs)" by simp
  then have "distinct (map ke_event_id (?seen @ filter (\<lambda>ev. ke_event_id ev \<notin> fst ` set ledger) evs))"
    using Cons.prems(3) by metis
  from Cons.IH [OF evs w1(3) this] obtain w2 where
    w2: "rfold (planner_collect cfg previous ledger) w1 evs = Inr w2" "evs \<noteq> [] \<longrightarrow> w2 \<noteq> None"
      "work_state (gc_encoder cfg) C previous (?seen @ filter (\<lambda>ev. ke_event_id ev \<notin> fst ` set ledger) evs) w2"
    by blast
  have "w2 \<noteq> None" using w1(2) w2(1,2) by (cases evs) auto
  with w1(1) w2(1,3) show ?case unfolding seen by simp
qed

section \<open>One group refines the source\<close>

text \<open>\<open>S\<close> are the identifiers of rows written by a snapshot, which are no event of the stream.\<close>

definition keyless_store_ok :: "string set \<Rightarrow> 'v keyless_store \<Rightarrow> bool" where
  "keyless_store_ok S st \<longleftrightarrow> rows_ok (kt_rows (ks_table st)) \<and> applied_only (ks_ledger st) \<and>
     row_ids (kt_rows (ks_table st)) \<subseteq> fst ` set (ks_ledger st) \<union> S \<and>
     (ks_delete_mode st = None \<or> ks_delete_mode st = Some ''hard'')"

lemma live_rows_all: "rows_ok (kt_rows (ks_table st)) \<Longrightarrow> live_rows st = kt_rows (ks_table st)"
  by (auto simp: live_rows_def rows_ok_def list_all_iff identified_row_iff intro!: filter_True)

lemma write_item_bag:
  assumes item: "fold_state enc C previous evs item" "set (ki_native_columns item) = set C"
    and C: "source_columns_ok C" and prev: "previous = None \<or> previous = Some ''hard''"
    and rows: "rows_ok (kt_rows t)" and new: "distinct (map ke_event_id evs)"
    and fresh: "ke_event_id ` set evs \<inter> row_ids (kt_rows t) = {}"
  shows "case bag_run (row_bag C (kt_rows t)) (map (change_of enc C) evs) of
      Some M \<Rightarrow> \<exists>t'. write_item cfg item t = Inr t' \<and> rows_ok (kt_rows t') \<and> row_bag C (kt_rows t') = M \<and>
        row_ids (kt_rows t') \<subseteq> ke_event_id ` set evs \<union> row_ids (kt_rows t)
    | None \<Rightarrow> write_item cfg item t = Inl (Fold ToastBaseMissing)"
proof -
  let ?t = "ensure_typed item t"
  have native: "ki_native_columns item \<noteq> []" using item(2) C by (auto simp: source_columns_ok_def)
  have "set (column_order item ?t) = set C \<union> set applier_columns"
    using item(2) by (auto simp: column_order_def ensure_typed_def item_columns_def)
  moreover have "set (kt_columns ?t) = set (kt_columns t) \<union> set C \<union> set applier_columns"
    using item(2) by (auto simp: ensure_typed_def item_columns_def)
  ultimately have ord: "order_ok C (kt_columns ?t) (column_order item ?t)" by (auto simp: order_ok_def)
  have ops: "list_all2 (op_implements C) (ki_operations item) (map (change_of enc C) evs)"
      "map ko_event_id (ki_operations item) = map ke_event_id evs"
    using item(1) by (simp_all add: fold_state_def)
  then have ids: "ko_event_id ` set (ki_operations item) = ke_event_id ` set evs" by (metis set_map)
  have purge: "purge_tombstones item fresh (kt_rows t) = kt_rows t" for fresh
    using item(1) prev by (auto simp: purge_tombstones_def fold_state_def)
  have eq: "write_item cfg item t =
      rbind (write_keyless_operations (gc_choice cfg) (kt_columns ?t) (column_order item ?t) (\<not> kt_exists t)
               (ki_operations item) (kt_rows t)) (\<lambda>rows'.
        rbind (assert_identity_is_unique (?t\<lparr>kt_rows := rows'\<rparr>)) (\<lambda>_. Inr (?t\<lparr>kt_rows := rows'\<rparr>)))"
    using native item(1) purge
    by (simp add: write_item_def fold_state_def Let_def ensure_typed_def)
  have unique: "assert_identity_is_unique (?t\<lparr>kt_rows := rows'\<rparr>) = Inr ()" if "rows_ok rows'" for rows'
    using that by (simp add: assert_identity_is_unique_def rows_ok_def)
  have "distinct (map ko_event_id (ki_operations item))" using ops(2) new by simp
  note run = write_keyless_operations_bag [OF ord rows ops(1) this, of "gc_choice cfg" "\<not> kt_exists t",
      unfolded ids, OF fresh]
  show ?thesis
    using run unique unfolding eq by (auto split: option.splits)
qed


lemma checked_events: "write_keyless_events rows ledger =
    Inr (ledger @ map (\<lambda>(event_id, _). (event_id, KEYLESS_EVENT_APPLIED)) rows)"
proof -
  have "machine_check KEYLESS_EVENT KEYLESS_EVENT_UNSEEN KEYLESS_EVENT_APPLIED = Inr ()" by code_simp
  then show ?thesis by (simp add: write_keyless_events_def)
qed



definition sample_group :: "string keyless_event list" where
  "sample_group = [keyless_sample ''hard'' ''c'' ''e0'' '''' ''w'', keyless_sample ''hard'' ''c'' ''e1'' '''' ''x'',
     keyless_sample ''hard'' ''c'' ''e2'' '''' ''x'', keyless_sample ''hard'' ''u'' ''e3'' ''x'' ''y'']"

definition replayed_store :: "string keyless_store" where
  "replayed_store = empty_store\<lparr>ks_ledger := [(''e0'', ''applied'')]\<rparr>"



text \<open>A group with nothing but truncates empties a table that exists, whether or not it has a key.\<close>

lemma truncates_alone_empty:
  assumes "evs \<noteq> []" and "list_all (\<lambda>ev. ke_op ev = ''t'' \<and> str_or_else (ke_delete_mode ev) ''hard'' = ''hard'') evs"
    and "gc_truncate_mode cfg = TRUNCATE_REPLICATE" and "kt_exists (ks_table st)"
  shows "\<exists>st'. apply_keyless_group cfg st evs = Inr st' \<and> live_rows st' = []"
proof -
  define ready where "ready i \<longleftrightarrow> ki_truncated i \<and> \<not> ki_keyless i \<and> ki_native_columns i = [] \<and>
    ki_ledger i = [] \<and> ki_delete_mode i = ''hard''" for i :: "'a keyless_item"
  have step: "\<exists>i'. planner_collect cfg (ks_delete_mode st) (ks_ledger st) w ev = Inr (Some i') \<and> ready i'"
    if "w = None \<or> (\<exists>i. w = Some i \<and> ready i)" "ke_op ev = ''t''" "str_or_else (ke_delete_mode ev) ''hard'' = ''hard''"
    for w ev
    using that assms(3)
    by (auto simp: planner_collect_def work_for_def Let_def new_item_def truncate_item_def str_or_else_def
        ready_def split: option.splits if_splits)
  have "\<exists>i. rfold (planner_collect cfg (ks_delete_mode st) (ks_ledger st)) w evs = Inr (Some i) \<and> ready i"
    if "evs \<noteq> [] \<or> w \<noteq> None" "w = None \<or> (\<exists>i. w = Some i \<and> ready i)"
      "list_all (\<lambda>ev. ke_op ev = ''t'' \<and> str_or_else (ke_delete_mode ev) ''hard'' = ''hard'') evs" for w evs
    using that
  proof (induction evs arbitrary: w)
    case (Cons ev evs)
    with step [of w ev] show ?case by fastforce
  qed auto
  from this [of evs None] assms(1,2) obtain i where
    i: "rfold (planner_collect cfg (ks_delete_mode st) (ks_ledger st)) None evs = Inr (Some i)" "ready i" by auto
  then show ?thesis
    using assms(4)
    by (auto simp: apply_keyless_group_def write_item_def ready_def checked_events live_rows_def)
qed

end
