(* ===== verification/Table_Lifecycle.thy ===== *)
theory Table_Lifecycle
  imports Machines Envelope
begin

text \<open>
  The lifecycle and the history policy of one table: a model of
  \<open>src/cdc_flight/table_lifecycle.py\<close>, of its callers in \<open>destination_alerts.py\<close> and
  \<open>destination_refusals.py\<close>, and of \<open>src/cdc_flight/history_policy.py\<close>.

  The state is the control table \<open>table_state\<close>, a dictionary by pipeline, schema and table (its primary
  key), with the alerts that refused transitions raise. A transition reads the stored state,
  asks \<open>TABLE_LIFECYCLE\<close> and writes; each operation runs in a transaction of its caller, so a
  refused one has changed nothing but the alerts. A value that is left alone (\<open>_KEEP\<close>) is \<open>None\<close>.

  The lemmas show that whatever operations run, each table only moves along declared edges
  (the locale \<open>guarded_state\<close>), that the history mode of a table is kept until the table is forgotten,
  and that a quoted name is parsed back. Texts are read up to code point 255.
\<close>

section \<open>The control table\<close>

record table_policy =
  tp_refresh_mode :: string
  tp_delete_mode :: string
  tp_history_mode :: string
  tp_key_strategy :: string
  tp_key_columns :: "string list option"
  tp_delete_policy_epoch :: int
  tp_delete_policy_digest :: "string option"
  tp_pii_policy_epoch :: int
  tp_pii_policy_digest :: "string option"
  tp_pii_salt_id :: "string option"

record state_row =
  sr_target_table :: string
  sr_snapshot_state :: string
  sr_snapshot_epoch :: int
  sr_snapshot_lsn :: "int option"
  sr_last_commit_id :: "int option"
  sr_policy :: table_policy

type_synonym table_id = "string \<times> string \<times> string"

record lifecycle_alert =
  la_table :: string
  la_from :: string
  la_to :: string
  la_reason :: string

record control_store =
  cs_rows :: "(table_id, state_row) dict"
  cs_alerts :: "lifecycle_alert list"

datatype lifecycle_error = State state_error | RowDisappeared

type_synonym 'a lifecycle_result = "(lifecycle_error + 'a) \<times> control_store"

section \<open>Reading\<close>

definition parse_state :: "string \<Rightarrow> lifecycle_error + string" where
  "parse_state v = (if v \<notin> set LIFECYCLE_DURABLE_VALUES then Inl (State UnknownState) else Inr v)"

definition lifecycle_read :: "control_store \<Rightarrow> table_id \<Rightarrow> lifecycle_error + string" where
  "lifecycle_read s t =
     (case map_of (cs_rows s) t of
        None \<Rightarrow> Inr LIFECYCLE_ABSENT
      | Some r \<Rightarrow> parse_state (sr_snapshot_state r))"

definition qualified_name :: "string \<Rightarrow> string \<Rightarrow> string" where
  "qualified_name schema table = schema @ ''.'' @ table"

definition pipeline_rows :: "control_store \<Rightarrow> string \<Rightarrow> (string \<times> string \<times> state_row) list" where
  "pipeline_rows s pipeline =
     map (\<lambda>((p, schema, table), r). (schema, table, r)) (filter (\<lambda>((p, _), _). p = pipeline) (cs_rows s))"

definition read_all :: "control_store \<Rightarrow> string \<Rightarrow> lifecycle_error + (string, string) dict" where
  "read_all s pipeline =
     rfold (\<lambda>d (schema, table, r). rbind (parse_state (sr_snapshot_state r)) (\<lambda>st.
              Inr (AList.update (qualified_name schema table) st d)))
       [] (pipeline_rows s pipeline)"

definition owing_work :: "control_store \<Rightarrow> string \<Rightarrow> lifecycle_error + string list" where
  "owing_work s pipeline =
     rbind (read_all s pipeline) (\<lambda>d.
       Inr (sort (map fst (filter (\<lambda>(_, st). st \<in> set LIFECYCLE_OWING_WORK) d))))"

section \<open>The check\<close>

definition check_edge ::
  "bool \<Rightarrow> string \<Rightarrow> string \<Rightarrow> string \<Rightarrow> string \<Rightarrow> control_store \<Rightarrow> unit lifecycle_result" where
  \<comment> \<open>\<open>_check\<close>: an undeclared edge alerts when there is a sink, and is raised again; an unknown state
    is raised without alert\<close>
  "check_edge sink frm to name reason s =
     (case machine_check TABLE_LIFECYCLE frm to of
        Inr _ \<Rightarrow> (Inr (), s)
      | Inl IllegalTransition \<Rightarrow>
          (Inl (State IllegalTransition),
           if sink then s\<lparr>cs_alerts := cs_alerts s @
                           [\<lparr>la_table = name, la_from = frm, la_to = to, la_reason = reason\<rparr>]\<rparr>
           else s)
      | Inl e \<Rightarrow> (Inl (State e), s))"

definition check_transition ::
  "bool \<Rightarrow> table_id \<Rightarrow> string \<Rightarrow> string \<Rightarrow> control_store \<Rightarrow> string lifecycle_result" where
  "check_transition sink t to reason s =
     (case lifecycle_read s t of
        Inl e \<Rightarrow> (Inl e, s)
      | Inr frm \<Rightarrow>
          (case check_edge sink frm to (qualified_name (fst (snd t)) (snd (snd t))) reason s of
             (Inl e, s1) \<Rightarrow> (Inl e, s1)
           | (Inr _, s1) \<Rightarrow> (Inr frm, s1)))"

section \<open>Writing\<close>

definition default_policy :: "string option \<Rightarrow> table_policy" where
  "default_policy history_mode =
     \<lparr>tp_refresh_mode = ''cdc'', tp_delete_mode = ''hard'',
      tp_history_mode = (case history_mode of None \<Rightarrow> ''none'' | Some h \<Rightarrow> h), tp_key_strategy = ''pk'',
      tp_key_columns = None, tp_delete_policy_epoch = 1, tp_delete_policy_digest = None,
      tp_pii_policy_epoch = 0, tp_pii_policy_digest = None, tp_pii_salt_id = None\<rparr>"

text \<open>The arguments of \<open>transition\<close> beside the table, the new state and the reason.\<close>

record transition_args =
  ta_target_table :: "string option"
  ta_epoch :: "int option"
  ta_snapshot_lsn :: "int option option"
  ta_last_commit_id :: "int option option"
  ta_history_mode :: "string option"
  ta_replace :: bool
  ta_sink :: bool

definition no_args :: transition_args where
  "no_args = \<lparr>ta_target_table = None, ta_epoch = None, ta_snapshot_lsn = None, ta_last_commit_id = None,
     ta_history_mode = None, ta_replace = False, ta_sink = False\<rparr>"

definition keep :: "'a option \<Rightarrow> 'a \<Rightarrow> 'a" where
  "keep v old = (case v of None \<Rightarrow> old | Some x \<Rightarrow> x)"

definition inserted_row :: "transition_args \<Rightarrow> string \<Rightarrow> string \<Rightarrow> table_policy \<Rightarrow> state_row" where
  \<comment> \<open>\<open>target_table or source_table\<close>: an empty name is replaced too\<close>
  "inserted_row a source_table to policy =
     \<lparr>sr_target_table = (if truthy_str (ta_target_table a) then the (ta_target_table a) else source_table),
      sr_snapshot_state = to, sr_snapshot_epoch = keep (ta_epoch a) 0,
      sr_snapshot_lsn = keep (ta_snapshot_lsn a) None, sr_last_commit_id = keep (ta_last_commit_id a) None,
      sr_policy = policy\<rparr>"

definition updated_row :: "transition_args \<Rightarrow> string \<Rightarrow> state_row \<Rightarrow> state_row" where
  "updated_row a to r =
     r\<lparr>sr_snapshot_state := to, sr_snapshot_epoch := keep (ta_epoch a) (sr_snapshot_epoch r),
       sr_snapshot_lsn := keep (ta_snapshot_lsn a) (sr_snapshot_lsn r),
       sr_last_commit_id := keep (ta_last_commit_id a) (sr_last_commit_id r),
       sr_target_table := keep (ta_target_table a) (sr_target_table r)\<rparr>"

definition put_row :: "table_id \<Rightarrow> state_row \<Rightarrow> control_store \<Rightarrow> control_store" where
  "put_row t r s = s\<lparr>cs_rows := AList.update t r (cs_rows s)\<rparr>"

definition remove_rows :: "table_id \<Rightarrow> control_store \<Rightarrow> control_store" where
  "remove_rows t s = s\<lparr>cs_rows := filter (\<lambda>(k, _). k \<noteq> t) (cs_rows s)\<rparr>"

definition lifecycle_transition ::
  "transition_args \<Rightarrow> table_id \<Rightarrow> string \<Rightarrow> string \<Rightarrow> control_store \<Rightarrow> string lifecycle_result" where
  "lifecycle_transition a t to reason s =
     (case lifecycle_read s t of
        Inl e \<Rightarrow> (Inl e, s)
      | Inr frm \<Rightarrow>
          (case check_edge (ta_sink a) frm to (qualified_name (fst (snd t)) (snd (snd t))) reason s of
             (Inl e, s1) \<Rightarrow> (Inl e, s1)
           | (Inr _, s1) \<Rightarrow>
               if frm = LIFECYCLE_ABSENT then
                 (Inr frm, put_row t (inserted_row a (snd (snd t)) to (default_policy (ta_history_mode a))) s1)
               else
                 (case map_of (cs_rows s1) t of
                    None \<Rightarrow> (Inl RowDisappeared, s1)
                  | Some r \<Rightarrow>
                      if ta_replace a then
                        (Inr frm, put_row t (inserted_row a (snd (snd t)) to (sr_policy r)) (remove_rows t s1))
                      else (Inr frm, put_row t (updated_row a to r) s1))))"

definition reset_columns :: "state_row \<Rightarrow> state_row" where
  "reset_columns r = r\<lparr>sr_snapshot_epoch := 0, sr_snapshot_lsn := None, sr_last_commit_id := None\<rparr>"

definition moved_row :: "bool \<Rightarrow> string \<Rightarrow> state_row \<Rightarrow> state_row" where
  "moved_row reset to r = (if reset then reset_columns r else r)\<lparr>sr_snapshot_state := to\<rparr>"

definition transition_all ::
  "string \<Rightarrow> string \<Rightarrow> string \<Rightarrow> bool \<Rightarrow> string \<Rightarrow> control_store \<Rightarrow> string list lifecycle_result" where
  "transition_all pipeline frm to reset reason s =
     (case (if frm \<noteq> to then check_edge False frm to ''*'' reason s else (Inr (), s)) of
        (Inl e, s1) \<Rightarrow> (Inl e, s1)
      | (Inr _, s1) \<Rightarrow>
          (let moving = (\<lambda>(k, r). fst k = pipeline \<and> sr_snapshot_state r = frm);
               names = map (\<lambda>(a, b). qualified_name a b) (sort (map (\<lambda>(k, r). snd k) (filter moving (cs_rows s1))))
           in (Inr names,
               s1\<lparr>cs_rows := map (\<lambda>(k, r). (k, if moving (k, r) then moved_row reset to r else r)) (cs_rows s1)\<rparr>)))"

text \<open>\<open>--reset-state\<close>. The loop stops at the first refusal.\<close>

definition reset_loop ::
  "string \<Rightarrow> string \<Rightarrow> (lifecycle_error + string list) \<times> control_store \<Rightarrow> string \<Rightarrow> string list lifecycle_result" where
  "reset_loop pipeline reason acc frm =
     (case acc of
        (Inl e, s) \<Rightarrow> (Inl e, s)
      | (Inr moved, s) \<Rightarrow>
          (case transition_all pipeline frm LIFECYCLE_NONE True reason s of
             (Inl e, s1) \<Rightarrow> (Inl e, s1)
           | (Inr names, s1) \<Rightarrow> (Inr (moved @ names), s1)))"

definition reset_all :: "string \<Rightarrow> string \<Rightarrow> control_store \<Rightarrow> string list lifecycle_result" where
  "reset_all pipeline reason s =
     (case foldl (reset_loop pipeline reason) (Inr [], s)
             [LIFECYCLE_IN_PROGRESS, LIFECYCLE_COMPLETE, LIFECYCLE_AWAITING] of
        (Inl e, s1) \<Rightarrow> (Inl e, s1)
      | (Inr moved, s1) \<Rightarrow>
          (case transition_all pipeline LIFECYCLE_NONE LIFECYCLE_NONE True reason s1 of
             (Inl e, s2) \<Rightarrow> (Inl e, s2)
           | (Inr _, s2) \<Rightarrow> (Inr (sort moved), s2)))"

definition lifecycle_forget :: "bool \<Rightarrow> table_id \<Rightarrow> string \<Rightarrow> control_store \<Rightarrow> string lifecycle_result" where
  "lifecycle_forget sink t reason s =
     (case lifecycle_read s t of
        Inl e \<Rightarrow> (Inl e, s)
      | Inr frm \<Rightarrow>
          if frm = LIFECYCLE_ABSENT then (Inr frm, s)
          else case check_edge sink frm LIFECYCLE_ABSENT (qualified_name (fst (snd t)) (snd (snd t))) reason s of
                 (Inl e, s1) \<Rightarrow> (Inl e, s1)
               | (Inr _, s1) \<Rightarrow> (Inr frm, remove_rows t s1))"

section \<open>The callers that own a step of the lifecycle\<close>

definition promote_interrupted_snapshots :: "string \<Rightarrow> control_store \<Rightarrow> string list lifecycle_result" where
  "promote_interrupted_snapshots pipeline s =
     transition_all pipeline LIFECYCLE_IN_PROGRESS LIFECYCLE_AWAITING False
       ''a previous process died inside this table's snapshot'' s"

definition mark_requested ::
  "string \<Rightarrow> string \<Rightarrow> unit lifecycle_result \<Rightarrow> string \<times> string \<times> string \<Rightarrow> unit lifecycle_result" where
  "mark_requested pipeline detail acc x =
     (case acc of
        (Inl e, s) \<Rightarrow> (Inl e, s)
      | (Inr _, s) \<Rightarrow>
          (case x of (schema, table, target) \<Rightarrow>
             case lifecycle_transition (no_args\<lparr>ta_target_table := Some target\<rparr>) (pipeline, schema, table)
                    LIFECYCLE_AWAITING detail s of
               (Inl e, s1) \<Rightarrow> (Inl e, s1)
             | (Inr _, s1) \<Rightarrow> (Inr (), s1)))"

definition request_snapshot ::
  "string \<Rightarrow> (string \<times> string \<times> string) list \<Rightarrow> string \<Rightarrow> control_store \<Rightarrow> nat lifecycle_result" where
  "request_snapshot pipeline tables detail s =
     (case foldl (mark_requested pipeline detail) (Inr (), s) tables of
        (Inl e, s1) \<Rightarrow> (Inl e, s1)
      | (Inr _, s1) \<Rightarrow>
          (Inr (length (filter (\<lambda>(schema, table, _).
             case map_of (cs_rows s1) (pipeline, schema, table) of
               None \<Rightarrow> False
             | Some r \<Rightarrow> sr_snapshot_state r = LIFECYCLE_AWAITING) tables)), s1))"

definition mark_awaiting_snapshot ::
  "table_id \<Rightarrow> string \<Rightarrow> string \<Rightarrow> control_store \<Rightarrow> string lifecycle_result" where
  "mark_awaiting_snapshot t target state s =
     lifecycle_transition (no_args\<lparr>ta_target_table := Some target, ta_replace := True\<rparr>) t state
       ''the source relation was replaced; the destination rows are a different relation's'' s"

definition register_table :: "table_id \<Rightarrow> string \<Rightarrow> control_store \<Rightarrow> unit lifecycle_result" where
  "register_table t target s =
     (case lifecycle_read s t of
        Inl e \<Rightarrow> (Inl e, s)
      | Inr st \<Rightarrow>
          if st \<noteq> LIFECYCLE_ABSENT then (Inr (), s)
          else case lifecycle_transition (no_args\<lparr>ta_target_table := Some target\<rparr>) t LIFECYCLE_NONE
                      ''a destination table was materialised for this relation'' s of
                 (Inl e, s1) \<Rightarrow> (Inl e, s1)
               | (Inr _, s1) \<Rightarrow> (Inr (), s1))"

definition forget_table_state :: "bool \<Rightarrow> table_id \<Rightarrow> control_store \<Rightarrow> string lifecycle_result" where
  "forget_table_state sink t s =
     lifecycle_forget sink t ''the source relation was dropped (rubric 1.5)'' s"

section \<open>history\_policy: reading a qualified name\<close>

datatype history_error = HistoryPolicyRefused | Lifecycle lifecycle_error

definition py_space :: "char \<Rightarrow> bool" where
  "py_space c \<longleftrightarrow> is_space c \<or> c = CHR 0x85 \<or> c = CHR 0xA0"

definition py_strip :: "string \<Rightarrow> string" where
  "py_strip s = rev (dropWhile py_space (rev (dropWhile py_space s)))"

definition py_lower :: "char \<Rightarrow> char" where
  "py_lower c =
     (let n = of_char c :: nat in
      if 65 \<le> n \<and> n \<le> 90 \<or> 192 \<le> n \<and> n \<le> 222 \<and> n \<noteq> 215 then char_of (n + 32) else c)"

definition is_digit :: "char \<Rightarrow> bool" where
  "is_digit c \<longleftrightarrow> (let n = of_char c :: nat in 48 \<le> n \<and> n \<le> 57)"

definition word_char :: "char \<Rightarrow> bool" where
  "word_char c \<longleftrightarrow>
     (let n = of_char c :: nat in
      is_digit c \<or> 65 \<le> n \<and> n \<le> 90 \<or> 97 \<le> n \<and> n \<le> 122 \<or> n = 95 \<or>
      n \<in> set [170, 178, 179, 181, 185, 186, 188, 189, 190] \<or> 192 \<le> n \<and> n \<noteq> 215 \<and> n \<noteq> 247)"

definition unquoted_identifier :: "string \<Rightarrow> bool" where
  \<comment> \<open>the pattern \<open>[^\W\d]\w*\<close> on the whole text\<close>
  "unquoted_identifier s =
     (case s of [] \<Rightarrow> False | c # cs \<Rightarrow> word_char c \<and> \<not> is_digit c \<and> list_all word_char cs)"

text \<open>\<open>_identifier\<close>: the text from its index on, and the text that is left.\<close>

fun scan_quoted :: "string \<Rightarrow> string \<Rightarrow> history_error + string \<times> string" where
  "scan_quoted acc [] = Inl HistoryPolicyRefused"
| "scan_quoted acc (c # cs) =
     (if c = CHR 0x22 then
        (case cs of
           [] \<Rightarrow> if acc = [] \<or> CHR 0x00 \<in> set acc then Inl HistoryPolicyRefused else Inr (acc, [])
         | d # ds \<Rightarrow>
             if d = CHR 0x22 then scan_quoted (acc @ [CHR 0x22]) ds
             else if acc = [] \<or> CHR 0x00 \<in> set acc then Inl HistoryPolicyRefused
             else Inr (acc, dropWhile py_space cs))
      else scan_quoted (acc @ [c]) cs)"

definition scan_identifier :: "string \<Rightarrow> history_error + string \<times> string" where
  "scan_identifier text0 =
     (let text = dropWhile py_space text0 in
      case text of
        [] \<Rightarrow> Inl HistoryPolicyRefused
      | c # cs \<Rightarrow>
          if c = CHR 0x22 then scan_quoted [] cs
          else
            let raw = takeWhile (\<lambda>c. \<not> py_space c \<and> c \<noteq> CHR ''.'') text;
                rest = dropWhile (\<lambda>c. \<not> py_space c \<and> c \<noteq> CHR ''.'') text in
            if CHR 0x22 \<in> set raw \<or> \<not> unquoted_identifier raw then Inl HistoryPolicyRefused
            else Inr (map py_lower raw, dropWhile py_space rest))"

definition parse_qualified_table :: "string \<Rightarrow> history_error + string \<times> string" where
  "parse_qualified_table value =
     (let text = py_strip value in
      if text = [] then Inl HistoryPolicyRefused
      else
        rbind (scan_identifier text) (\<lambda>(schema, rest).
          case rest of
            [] \<Rightarrow> Inl HistoryPolicyRefused
          | c # cs \<Rightarrow>
              if c \<noteq> CHR ''.'' then Inl HistoryPolicyRefused
              else rbind (scan_identifier cs) (\<lambda>(table, rest').
                     if rest' \<noteq> [] then Inl HistoryPolicyRefused else Inr (schema, table))))"

definition quote_name :: "string \<Rightarrow> string" where
  \<comment> \<open>\<open>naming.quote\<close>\<close>
  "quote_name s = [CHR 0x22] @ concat (map (\<lambda>c. if c = CHR 0x22 then [c, c] else [c]) s) @ [CHR 0x22]"

section \<open>history\_policy: admission\<close>

definition parse_history_mode :: "string option \<Rightarrow> history_error + string" where
  \<comment> \<open>\<open>None\<close> stands for a value that is not a text\<close>
  "parse_history_mode value =
     (case value of
        None \<Rightarrow> Inl HistoryPolicyRefused
      | Some v \<Rightarrow>
          let mode = map py_lower (py_strip v) in
          if mode \<notin> {''none'', ''scd2''} then Inl HistoryPolicyRefused else Inr mode)"

definition read_history_mode :: "control_store \<Rightarrow> table_id \<Rightarrow> history_error + string" where
  "read_history_mode s t =
     (case map_of (cs_rows s) t of
        None \<Rightarrow> Inr ''none''
      | Some r \<Rightarrow> parse_history_mode (Some (tp_history_mode (sr_policy r))))"

record source_relation =
  rel_schema :: string
  rel_table :: string
  rel_is_partition :: bool
  rel_primary_key_columns :: "string list"

definition validate_source_identity ::
  "source_relation option \<Rightarrow> string \<Rightarrow> string \<Rightarrow> history_error + unit" where
  "validate_source_identity relation schema table =
     (case relation of
        None \<Rightarrow> Inl HistoryPolicyRefused
      | Some r \<Rightarrow>
          raise_if (rel_schema r \<noteq> schema \<or> rel_table r \<noteq> table \<or> rel_is_partition r \<or>
                    rel_primary_key_columns r = []) HistoryPolicyRefused)"

record history_admission =
  ha_qualified_table :: string
  ha_mode :: string
  ha_previous_mode :: string
  ha_lifecycle_state :: string
  ha_target_table :: string
  ha_changed :: bool

definition set_history_mode :: "string \<Rightarrow> string \<Rightarrow> state_row \<Rightarrow> state_row" where
  \<comment> \<open>the conditional UPDATE\<close>
  "set_history_mode selected current r =
     (if tp_history_mode (sr_policy r) = current
      then r\<lparr>sr_policy := (sr_policy r)\<lparr>tp_history_mode := selected\<rparr>\<rparr> else r)"

text \<open>The statements between BEGIN and COMMIT; \<open>target_exists\<close> asks the destination for a table.\<close>

definition admit_in_transaction ::
  "(string \<Rightarrow> bool) \<Rightarrow> table_id \<Rightarrow> string \<Rightarrow> string \<Rightarrow> control_store \<Rightarrow>
   history_error + history_admission \<times> control_store" where
  "admit_in_transaction target_exists t selected target s =
     (let name = qualified_name (fst (snd t)) (snd (snd t)) in
      case map_of (cs_rows s) t of
        None \<Rightarrow>
          if selected = ''scd2'' \<and> target_exists target then Inl HistoryPolicyRefused
          else
            (case lifecycle_transition (no_args\<lparr>ta_target_table := Some target, ta_history_mode := Some selected\<rparr>)
                    t LIFECYCLE_NONE (''history mode '' @ selected @ '' admitted for '' @ name) s of
               (Inl e, _) \<Rightarrow> Inl (Lifecycle e)
             | (Inr _, s1) \<Rightarrow>
                 Inr (\<lparr>ha_qualified_table = name, ha_mode = selected, ha_previous_mode = ''none'',
                       ha_lifecycle_state = LIFECYCLE_NONE, ha_target_table = target,
                       ha_changed = (selected \<noteq> ''none'')\<rparr>, s1))
      | Some r \<Rightarrow>
          (case lifecycle_read s t of
             Inl e \<Rightarrow> Inl (Lifecycle e)
           | Inr lifecycle \<Rightarrow>
               rbind (parse_history_mode (Some (tp_history_mode (sr_policy r)))) (\<lambda>current.
                 let result = (\<lambda>changed. \<lparr>ha_qualified_table = name, ha_mode = selected,
                       ha_previous_mode = current, ha_lifecycle_state = lifecycle,
                       ha_target_table = sr_target_table r, ha_changed = changed\<rparr>) in
                 if current = selected then Inr (result False, s)
                 else if current = ''scd2'' \<and> selected = ''none'' then Inl HistoryPolicyRefused
                 else if lifecycle \<noteq> LIFECYCLE_NONE then Inl HistoryPolicyRefused
                 else if target_exists (sr_target_table r) then Inl HistoryPolicyRefused
                 else Inr (result True, put_row t (set_history_mode selected current r) s))))"

definition admit_history_mode ::
  "(string \<Rightarrow> bool) \<Rightarrow> string \<Rightarrow> source_relation option \<Rightarrow> string option \<Rightarrow> string option \<Rightarrow> string \<Rightarrow>
   string \<Rightarrow> control_store \<Rightarrow> (history_error + history_admission) \<times> control_store" where
  "admit_history_mode target_exists pipeline relation name mode target dataset s =
     (case rbind (case name of
                    None \<Rightarrow> Inr (case relation of None \<Rightarrow> ([], []) | Some r \<Rightarrow> (rel_schema r, rel_table r))
                  | Some n \<Rightarrow> parse_qualified_table n) (\<lambda>(schema, table).
           rbind (validate_source_identity relation schema table) (\<lambda>_.
           rbind (parse_history_mode mode) (\<lambda>selected.
           rbind (raise_if (target = [] \<or> dataset = []) HistoryPolicyRefused) (\<lambda>_.
             admit_in_transaction target_exists (pipeline, schema, table) selected target s)))) of
        Inl e \<Rightarrow> (Inl e, s)
      | Inr (admission, s') \<Rightarrow> (Inr admission, s'))"


section \<open>One operation after another\<close>

datatype lifecycle_op =
    CheckTransition bool table_id string string
  | Transition transition_args table_id string string
  | TransitionAll string string string bool string
  | ResetAll string string
  | Forget bool table_id string
  | PromoteInterrupted string
  | RequestSnapshot string "(string \<times> string \<times> string) list" string
  | MarkAwaiting table_id string string
  | RegisterTable table_id string
  | AdmitHistory "string \<Rightarrow> bool" string "source_relation option" "string option" "string option" string string

fun run_op :: "lifecycle_op \<Rightarrow> control_store \<Rightarrow> control_store" where
  "run_op (CheckTransition sink t to reason) s = snd (check_transition sink t to reason s)"
| "run_op (Transition a t to reason) s = snd (lifecycle_transition a t to reason s)"
| "run_op (TransitionAll p frm to reset reason) s = snd (transition_all p frm to reset reason s)"
| "run_op (ResetAll p reason) s = snd (reset_all p reason s)"
| "run_op (Forget sink t reason) s = snd (lifecycle_forget sink t reason s)"
| "run_op (PromoteInterrupted p) s = snd (promote_interrupted_snapshots p s)"
| "run_op (RequestSnapshot p tables detail) s = snd (request_snapshot p tables detail s)"
| "run_op (MarkAwaiting t target state) s = snd (mark_awaiting_snapshot t target state s)"
| "run_op (RegisterTable t target) s = snd (register_table t target s)"
| "run_op (AdmitHistory ex p rel name mode target dataset) s =
     snd (admit_history_mode ex p rel name mode target dataset s)"

definition lifecycle_step :: "control_store \<Rightarrow> lifecycle_op \<Rightarrow> lifecycle_error + control_store" where
  "lifecycle_step s x = Inr (run_op x s)"

definition stored_state :: "table_id \<Rightarrow> control_store \<Rightarrow> string" where
  "stored_state t s =
     (case map_of (cs_rows s) t of None \<Rightarrow> LIFECYCLE_ABSENT | Some r \<Rightarrow> sr_snapshot_state r)"

definition history_of :: "table_id \<Rightarrow> control_store \<Rightarrow> string option" where
  "history_of t s = map_option (\<lambda>r. tp_history_mode (sr_policy r)) (map_of (cs_rows s) t)"

text \<open>The two effects of an operation on one table: it stays or moves to \<open>x\<close> along a declared
  edge, and a row that has a history mode keeps it.\<close>

definition moves_to :: "string \<Rightarrow> control_store \<Rightarrow> control_store \<Rightarrow> bool" where
  "moves_to x s s' \<longleftrightarrow> (\<forall>t. stored_state t s' = stored_state t s \<or>
     stored_state t s' = x \<and> allows TABLE_LIFECYCLE (stored_state t s) x)"

definition keeps_history :: "control_store \<Rightarrow> control_store \<Rightarrow> bool" where
  "keeps_history s s' \<longleftrightarrow> (\<forall>t h. history_of t s = Some h \<longrightarrow> history_of t s' = Some h)"

lemma moves_to_refl [simp, intro]: "moves_to x s s"
  by (simp add: moves_to_def)

lemma moves_to_trans: "moves_to x s s' \<Longrightarrow> moves_to x s' s'' \<Longrightarrow> moves_to x s s''"
  unfolding moves_to_def by metis

lemma keeps_history_refl [simp, intro]: "keeps_history s s"
  by (simp add: keeps_history_def)

lemma keeps_history_trans: "keeps_history s s' \<Longrightarrow> keeps_history s' s'' \<Longrightarrow> keeps_history s s''"
  by (simp add: keeps_history_def)

lemma keeps_historyD: "keeps_history s s' \<Longrightarrow> history_of t s = Some h \<Longrightarrow> history_of t s' = Some h"
  unfolding keeps_history_def by blast

lemma moves_toD: "moves_to x s s' \<Longrightarrow> stored_state t s' = stored_state t s \<or>
    stored_state t s' = x \<and> allows TABLE_LIFECYCLE (stored_state t s) x"
  unfolding moves_to_def by blast

text \<open>Only the rows matter.\<close>

lemma moves_to_rows: "cs_rows s' = cs_rows s \<Longrightarrow> moves_to x s s'"
  by (simp add: moves_to_def stored_state_def)

lemma keeps_history_rows: "cs_rows s' = cs_rows s \<Longrightarrow> keeps_history s s'"
  by (simp add: keeps_history_def history_of_def)

lemma check_edge_rows [simp]: "cs_rows (snd (check_edge sink frm to name reason s)) = cs_rows s"
  by (simp add: check_edge_def split: sum.split state_error.split)

lemma check_edge_ok:
  assumes "check_edge sink frm to name reason s = (Inr u, s1)"
  shows "allows TABLE_LIFECYCLE frm to" and "s1 = s"
  using assms machine_check_ok [of TABLE_LIFECYCLE frm to]
  by (auto simp: check_edge_def split: sum.splits state_error.splits)

lemma check_edge_fails:
  assumes "check_edge sink frm to name reason s = (Inl e, s1)"
  shows "cs_rows s1 = cs_rows s" and "\<not> allows TABLE_LIFECYCLE frm to \<or> frm \<notin> set (m_states TABLE_LIFECYCLE)
    \<or> to \<notin> set (m_states TABLE_LIFECYCLE)"
  using assms machine_check_ok [of TABLE_LIFECYCLE frm to] check_edge_rows [of sink frm to name reason s]
  by (auto simp: check_edge_def split: sum.splits state_error.splits)

lemma stored_put_row:
  "stored_state t' (put_row t r s) = (if t' = t then sr_snapshot_state r else stored_state t' s)"
  by (simp add: stored_state_def put_row_def update_conv')

lemma history_put_row:
  "history_of t' (put_row t r s) = (if t' = t then Some (tp_history_mode (sr_policy r)) else history_of t' s)"
  by (simp add: history_of_def put_row_def update_conv')

lemma map_of_filter_key: "map_of (filter (\<lambda>(k, _). k \<noteq> t) d) t' = (if t' = t then None else map_of d t')"
  by (induction d) auto

lemma stored_remove_rows:
  "stored_state t' (remove_rows t s) = (if t' = t then LIFECYCLE_ABSENT else stored_state t' s)"
  by (simp add: stored_state_def remove_rows_def map_of_filter_key)

lemma history_remove_rows: "history_of t' (remove_rows t s) = (if t' = t then None else history_of t' s)"
  by (simp add: history_of_def remove_rows_def map_of_filter_key)

lemma read_stored: "lifecycle_read s t = Inr frm \<Longrightarrow> stored_state t s = frm"
  by (auto simp: lifecycle_read_def stored_state_def parse_state_def split: option.splits if_splits)

lemma read_absent: "lifecycle_read s t = Inr LIFECYCLE_ABSENT \<longleftrightarrow> map_of (cs_rows s) t = None"
proof -
  have "LIFECYCLE_ABSENT \<notin> set LIFECYCLE_DURABLE_VALUES" by code_simp
  then show ?thesis by (auto simp: lifecycle_read_def parse_state_def split: option.splits if_splits)
qed


lemma transition_effect:
  assumes "lifecycle_transition a t to reason s = (res, s')"
  obtains (refused) e where "res = Inl e" and "cs_rows s' = cs_rows s"
    | (moved) r' where "res = Inr (stored_state t s)" and "allows TABLE_LIFECYCLE (stored_state t s) to"
        and "sr_snapshot_state r' = to" and "\<And>r. map_of (cs_rows s) t = Some r \<Longrightarrow> sr_policy r' = sr_policy r"
        and "\<And>t'. map_of (cs_rows s') t' = (if t' = t then Some r' else map_of (cs_rows s) t')"
proof -
  let ?name = "qualified_name (fst (snd t)) (snd (snd t))"
  show ?thesis
  proof (cases "lifecycle_read s t")
    case (Inl e)
    then show ?thesis using assms refused [of e] by (auto simp: lifecycle_transition_def)
  next
    case (Inr frm)
    note frm = read_stored [OF Inr]
    obtain c s1 where c: "check_edge (ta_sink a) frm to ?name reason s = (c, s1)" by fastforce
    show ?thesis
    proof (cases c)
      case (Inl e)
      then show ?thesis
        using assms Inr c refused [of e] check_edge_fails(1) [of "ta_sink a" frm to ?name reason s e s1]
        by (auto simp: lifecycle_transition_def)
    next
      case ok: (Inr u)
      note edge = check_edge_ok [OF c [unfolded ok]]
      show ?thesis
      proof (cases "frm = LIFECYCLE_ABSENT")
        case True
        then have none: "map_of (cs_rows s) t = None" using Inr read_absent by metis
        from True Inr c ok edge(2) assms
        have "res = Inr frm" "s' = put_row t (inserted_row a (snd (snd t)) to (default_policy (ta_history_mode a))) s"
          by (simp_all add: lifecycle_transition_def)
        then show ?thesis
          using moved [of "inserted_row a (snd (snd t)) to (default_policy (ta_history_mode a))"] frm edge(1) none
          by (simp add: put_row_def update_conv' inserted_row_def)
      next
        case False
        then obtain r where r: "map_of (cs_rows s) t = Some r" using Inr
          by (cases "map_of (cs_rows s) t") (auto simp: lifecycle_read_def)
        define r' where "r' = (if ta_replace a then inserted_row a (snd (snd t)) to (sr_policy r) else updated_row a to r)"
        have "res = Inr frm" "s' = put_row t r' (if ta_replace a then remove_rows t s else s)"
          using False r Inr c ok edge(2) assms by (auto simp: lifecycle_transition_def r'_def split: if_splits)
        moreover have "sr_snapshot_state r' = to" "sr_policy r' = sr_policy r"
          by (simp_all add: r'_def inserted_row_def updated_row_def)
        ultimately show ?thesis
          using moved [of r'] frm edge(1) r
          by (simp add: put_row_def update_conv' remove_rows_def map_of_filter_key)
      qed
    qed
  qed
qed

lemma transition_moves: "moves_to to s (snd (lifecycle_transition a t to reason s))"
proof -
  obtain res s' where e: "lifecycle_transition a t to reason s = (res, s')" by fastforce
  from e show ?thesis
    by (cases rule: transition_effect) (simp_all add: e moves_to_rows moves_to_def stored_state_def)
qed

lemma transition_keeps_history: "keeps_history s (snd (lifecycle_transition a t to reason s))"
proof -
  obtain res s' where e: "lifecycle_transition a t to reason s = (res, s')" by fastforce
  from e show ?thesis
    by (cases rule: transition_effect) (auto simp: e keeps_history_rows keeps_history_def history_of_def)
qed

text \<open>The set-wise move.\<close>

lemma map_of_map_rows:
  "map_of (map (\<lambda>(k, r). (k, f k r)) d) t = map_option (f t) (map_of d t)"
  by (induction d) auto

lemma transition_all_effect:
  assumes "transition_all p frm to reset reason s = (res, s')"
  obtains (refused) e where "res = Inl e" and "cs_rows s' = cs_rows s"
    | (moved) names where "res = Inr names" and "frm = to \<or> allows TABLE_LIFECYCLE frm to"
        and "\<And>t. map_of (cs_rows s') t = map_option (\<lambda>r. if fst t = p \<and> sr_snapshot_state r = frm
                 then moved_row reset to r else r) (map_of (cs_rows s) t)"
proof -
  obtain c s1 where c: "(if frm \<noteq> to then check_edge False frm to ''*'' reason s else (Inr (), s)) = (c, s1)"
    by fastforce
  show ?thesis
  proof (cases c)
    case (Inl e)
    then have "cs_rows s1 = cs_rows s" using c check_edge_fails(1) by (auto split: if_splits)
    with Inl c assms refused [of e] show ?thesis by (auto simp: transition_all_def)
  next
    case (Inr u)
    then have s1: "s1 = s" and edge: "frm = to \<or> allows TABLE_LIFECYCLE frm to"
      using c check_edge_ok by (auto split: if_splits)
    have "map_of (cs_rows s') t = map_option (\<lambda>r. if fst t = p \<and> sr_snapshot_state r = frm
                 then moved_row reset to r else r) (map_of (cs_rows s) t)" for t
    proof -
      have rows: "cs_rows s' = map (\<lambda>(k, r). (k, if fst k = p \<and> sr_snapshot_state r = frm
          then moved_row reset to r else r)) (cs_rows s)"
        using assms c Inr s1 by (auto simp: transition_all_def Let_def)
      show ?thesis unfolding rows by (rule map_of_map_rows)
    qed
    moreover obtain names where "res = Inr names" using assms c Inr by (auto simp: transition_all_def Let_def)
    ultimately show ?thesis using moved edge by blast
  qed
qed

lemma moved_row_simps [simp]:
  "sr_snapshot_state (moved_row reset to r) = to" "sr_policy (moved_row reset to r) = sr_policy r"
  by (simp_all add: moved_row_def reset_columns_def)

lemma transition_all_moves: "moves_to to s (snd (transition_all p frm to reset reason s))"
proof -
  obtain res s' where e: "transition_all p frm to reset reason s = (res, s')" by fastforce
  from e show ?thesis
  proof (cases rule: transition_all_effect)
    case refused
    then show ?thesis by (simp add: e moves_to_rows)
  next
    case (moved names)
    then show ?thesis by (auto simp: e moves_to_def stored_state_def split: option.splits)
  qed
qed

lemma transition_all_keeps_history: "keeps_history s (snd (transition_all p frm to reset reason s))"
proof -
  obtain res s' where e: "transition_all p frm to reset reason s = (res, s')" by fastforce
  from e show ?thesis
  proof (cases rule: transition_all_effect)
    case refused
    then show ?thesis by (simp add: e keeps_history_rows)
  next
    case (moved names)
    then show ?thesis by (simp add: e keeps_history_def history_of_def option.map_comp comp_def if_distrib cong: if_cong)
  qed
qed


lemma reset_loop_effect:
  "moves_to LIFECYCLE_NONE (snd acc) (snd (reset_loop p reason acc frm)) \<and>
   keeps_history (snd acc) (snd (reset_loop p reason acc frm))"
proof -
  obtain m s where acc: "acc = (m, s)" by (cases acc)
  show ?thesis
  proof (cases m)
    case (Inl e)
    then show ?thesis by (simp add: acc reset_loop_def)
  next
    case (Inr names)
    then have "snd (reset_loop p reason acc frm) = snd (transition_all p frm LIFECYCLE_NONE True reason s)"
      by (simp add: acc reset_loop_def split: prod.split sum.split)
    then show ?thesis using transition_all_moves transition_all_keeps_history by (simp add: acc)
  qed
qed

lemma foldl_effect:
  assumes "\<And>acc x. moves_to y (snd acc) (snd (f acc x)) \<and> keeps_history (snd acc) (snd (f acc x))"
  shows "moves_to y (snd acc) (snd (foldl f acc xs)) \<and> keeps_history (snd acc) (snd (foldl f acc xs))"
proof (induction xs arbitrary: acc)
  case Nil
  then show ?case by simp
next
  case (Cons x xs)
  from assms [of acc x] Cons [of "f acc x"] show ?case
    by (metis foldl_Cons moves_to_trans keeps_history_trans)
qed

lemma reset_all_effect:
  "moves_to LIFECYCLE_NONE s (snd (reset_all p reason s)) \<and> keeps_history s (snd (reset_all p reason s))"
proof -
  define start :: "string list lifecycle_result" where "start = (Inr [], s)"
  define acc where "acc = foldl (reset_loop p reason) start
    [LIFECYCLE_IN_PROGRESS, LIFECYCLE_COMPLETE, LIFECYCLE_AWAITING]"
  have "moves_to LIFECYCLE_NONE (snd start) (snd acc) \<and> keeps_history (snd start) (snd acc)"
    unfolding acc_def by (rule foldl_effect) (rule reset_loop_effect)
  then have loop: "moves_to LIFECYCLE_NONE s (snd acc) \<and> keeps_history s (snd acc)" by (simp add: start_def)
  have "snd (reset_all p reason s) = snd acc \<or>
      snd (reset_all p reason s) = snd (transition_all p LIFECYCLE_NONE LIFECYCLE_NONE True reason (snd acc))"
    unfolding reset_all_def acc_def [symmetric, unfolded start_def]
    by (cases acc; cases "fst acc") (auto split: prod.split sum.split)
  moreover have "moves_to LIFECYCLE_NONE s (snd (transition_all p LIFECYCLE_NONE LIFECYCLE_NONE True reason (snd acc)))"
    by (rule moves_to_trans [OF loop [THEN conjunct1] transition_all_moves])
  moreover have "keeps_history s (snd (transition_all p LIFECYCLE_NONE LIFECYCLE_NONE True reason (snd acc)))"
    by (rule keeps_history_trans [OF loop [THEN conjunct2] transition_all_keeps_history])
  ultimately show ?thesis using loop by (elim disjE) simp_all
qed

lemma mark_requested_effect:
  "moves_to LIFECYCLE_AWAITING (snd acc) (snd (mark_requested p detail acc x)) \<and>
   keeps_history (snd acc) (snd (mark_requested p detail acc x))"
proof -
  obtain m s where acc: "acc = (m, s)" by (cases acc)
  obtain schema tab target where x: "x = (schema, tab, target)" by (cases x)
  show ?thesis
  proof (cases m)
    case (Inl e)
    then show ?thesis by (simp add: acc mark_requested_def)
  next
    case (Inr u)
    then have "snd (mark_requested p detail acc x) =
        snd (lifecycle_transition (no_args\<lparr>ta_target_table := Some target\<rparr>) (p, schema, tab) LIFECYCLE_AWAITING detail s)"
      by (simp add: acc x mark_requested_def split: prod.split sum.split)
    then show ?thesis using transition_moves transition_keeps_history by (simp add: acc)
  qed
qed

lemma request_snapshot_effect:
  "moves_to LIFECYCLE_AWAITING s (snd (request_snapshot p tables detail s)) \<and>
   keeps_history s (snd (request_snapshot p tables detail s))"
proof -
  have "snd (request_snapshot p tables detail s) = snd (foldl (mark_requested p detail) (Inr (), s) tables)"
    by (simp add: request_snapshot_def split: prod.split sum.split)
  then show ?thesis
    using foldl_effect [of LIFECYCLE_AWAITING "mark_requested p detail" "(Inr (), s)" tables]
      mark_requested_effect by simp
qed

lemma register_table_effect:
  "moves_to LIFECYCLE_NONE s (snd (register_table t target s)) \<and> keeps_history s (snd (register_table t target s))"
proof -
  let ?tr = "lifecycle_transition (no_args\<lparr>ta_target_table := Some target\<rparr>) t LIFECYCLE_NONE
    ''a destination table was materialised for this relation'' s"
  have "snd (register_table t target s) = s \<or> snd (register_table t target s) = snd ?tr"
    by (auto simp: register_table_def split: sum.split prod.split)
  then show ?thesis using transition_moves transition_keeps_history by (metis keeps_history_refl moves_to_refl)
qed

lemma check_transition_rows: "cs_rows (snd (check_transition sink t to reason s)) = cs_rows s"
proof -
  have "cs_rows (snd (case c of (Inl e, s1) \<Rightarrow> (Inl e, s1) | (Inr _, s1) \<Rightarrow> (Inr frm, s1))) = cs_rows (snd c)"
    for c :: "unit lifecycle_result" and frm :: string by (cases c; cases "fst c") auto
  then show ?thesis by (simp add: check_transition_def split: sum.split)
qed

lemma forget_effect:
  assumes "lifecycle_forget sink t reason s = (res, s')"
  shows "moves_to LIFECYCLE_ABSENT s s' \<and> (\<forall>t' h. t' \<noteq> t \<longrightarrow> history_of t' s' = history_of t' s)"
proof (cases "lifecycle_read s t")
  case (Inl e)
  then show ?thesis using assms by (simp add: lifecycle_forget_def)
next
  case (Inr frm)
  let ?name = "qualified_name (fst (snd t)) (snd (snd t))"
  obtain c s1 where c: "check_edge sink frm LIFECYCLE_ABSENT ?name reason s = (c, s1)" by fastforce
  show ?thesis
  proof (cases "frm = LIFECYCLE_ABSENT")
    case True
    then show ?thesis using assms Inr by (simp add: lifecycle_forget_def)
  next
    case False
    show ?thesis
    proof (cases c)
      case (Inl e)
      then have "cs_rows s' = cs_rows s" using assms Inr False c check_edge_fails(1) [of sink frm]
        by (auto simp: lifecycle_forget_def \<open>lifecycle_read s t = Inr frm\<close>)
      then show ?thesis by (simp add: moves_to_rows history_of_def)
    next
      case ok: (Inr u)
      note edge = check_edge_ok [OF c [unfolded ok]]
      have "s' = remove_rows t s" using assms Inr False c ok edge(2) by (simp add: lifecycle_forget_def)
      then show ?thesis using edge(1) read_stored [OF Inr]
        by (simp add: moves_to_def stored_remove_rows history_remove_rows)
    qed
  qed
qed


lemma set_history_mode_simps [simp]:
  "sr_snapshot_state (set_history_mode x y r) = sr_snapshot_state r"
  "tp_history_mode (sr_policy (set_history_mode x y r)) =
     (if tp_history_mode (sr_policy r) = y then x else tp_history_mode (sr_policy r))"
  by (simp_all add: set_history_mode_def)

text \<open>An admission changes one row: it makes it, or it sets its mode from none to scd2.\<close>

lemma admit_effect:
  assumes "admit_in_transaction ex t selected target s = Inr (adm, s')" and "selected \<in> {''none'', ''scd2''}"
  shows "moves_to LIFECYCLE_NONE s s' \<and> (\<forall>t'. t' \<noteq> t \<longrightarrow> history_of t' s' = history_of t' s) \<and>
    (\<forall>h. history_of t s = Some h \<longrightarrow> history_of t s' = Some h \<or>
       h = ''none'' \<and> history_of t s' = Some ''scd2'' \<and> selected = ''scd2'' \<and>
       stored_state t s = LIFECYCLE_NONE \<and> (\<forall>r. map_of (cs_rows s) t = Some r \<longrightarrow> \<not> ex (sr_target_table r)))"
proof (cases "map_of (cs_rows s) t")
  case None
  let ?a = "no_args\<lparr>ta_target_table := Some target, ta_history_mode := Some selected\<rparr>"
  let ?reason = "''history mode '' @ selected @ '' admitted for '' @ qualified_name (fst (snd t)) (snd (snd t))"
  have s': "s' = snd (lifecycle_transition ?a t LIFECYCLE_NONE ?reason s)"
    using assms(1) None by (auto simp: admit_in_transaction_def Let_def split: if_splits prod.splits sum.splits)
  obtain res s1 where e: "lifecycle_transition ?a t LIFECYCLE_NONE ?reason s = (res, s1)" by fastforce
  have "history_of t' s1 = history_of t' s" if "t' \<noteq> t" for t'
    using e that by (cases rule: transition_effect) (auto simp: history_of_def)
  with None s' e transition_moves [of LIFECYCLE_NONE s ?a t ?reason] show ?thesis by (simp add: history_of_def)
next
  case (Some r)
  then obtain lifecycle where life: "lifecycle_read s t = Inr lifecycle"
    using assms(1) by (auto simp: admit_in_transaction_def Let_def split: sum.splits)
  obtain current where cur: "parse_history_mode (Some (tp_history_mode (sr_policy r))) = Inr current"
    using assms(1) Some life
    by (cases "parse_history_mode (Some (tp_history_mode (sr_policy r)))") (auto simp: admit_in_transaction_def Let_def)
  show ?thesis
  proof (cases "current = selected")
    case True
    then have "s' = s" using assms(1) Some life cur by (auto simp: admit_in_transaction_def Let_def)
    then show ?thesis by simp
  next
    case False
    have rest: "\<not> (current = ''scd2'' \<and> selected = ''none'')" "lifecycle = LIFECYCLE_NONE" "\<not> ex (sr_target_table r)"
        "s' = put_row t (set_history_mode selected current r) s"
      using assms(1) Some life cur False by (auto simp: admit_in_transaction_def Let_def split: if_splits)
    have "current \<in> {''none'', ''scd2''}" using cur by (auto simp: parse_history_mode_def Let_def split: if_splits)
    with rest(1) False assms(2) have mode: "selected = ''scd2''" "current = ''none''" by auto
    have "stored_state t s = LIFECYCLE_NONE" using read_stored [OF life] rest(2) by simp
    moreover have "sr_snapshot_state r = stored_state t s" using Some by (simp add: stored_state_def)
    moreover have "history_of t s = Some (tp_history_mode (sr_policy r))" using Some by (simp add: history_of_def)
    ultimately show ?thesis
      using rest(3,4) mode Some
      by (auto simp: moves_to_def stored_put_row history_put_row)
  qed
qed

lemma admit_history_mode_cases:
  assumes "admit_history_mode ex p rel name mode target dataset s = (res, s')"
  obtains (refused) e where "res = Inl e" and "s' = s"
    | (admitted) t selected adm where "res = Inr adm" and "fst t = p" and "selected \<in> {''none'', ''scd2''}"
        and "parse_history_mode mode = Inr selected"
        and "admit_in_transaction ex t selected target s = Inr (adm, s')"
proof (cases "fst (admit_history_mode ex p rel name mode target dataset s)")
  case (Inl e)
  then show ?thesis
    using assms refused [of e] by (auto simp: admit_history_mode_def split: sum.splits prod.splits)
next
  case (Inr adm)
  then obtain schema tab selected where
    "parse_history_mode mode = Inr selected" "admit_in_transaction ex (p, schema, tab) selected target s = Inr (adm, s')"
    using assms by (auto simp: admit_history_mode_def result_simps split: sum.splits prod.splits)
  moreover from this(1) have "selected \<in> {''none'', ''scd2''}"
    by (auto simp: parse_history_mode_def Let_def split: option.splits if_splits)
  ultimately show ?thesis using admitted [of adm "(p, schema, tab)" selected] assms Inr by simp
qed


section \<open>Every table stays on the declared edges\<close>

lemma wf_TABLE_LIFECYCLE: "wf_machine TABLE_LIFECYCLE"
  by code_simp

lemma run_op_moves: "\<exists>x. moves_to x s (run_op op1 s)"
proof (cases op1)
  case (CheckTransition sink t to reason)
  then show ?thesis using moves_to_rows [OF check_transition_rows] by auto
next
  case (Transition a t to reason)
  then show ?thesis using transition_moves [of to s a t reason] by auto
next
  case (TransitionAll p frm to reset reason)
  then show ?thesis using transition_all_moves [of to s p frm reset reason] by auto
next
  case (ResetAll p reason)
  then show ?thesis using reset_all_effect by auto
next
  case (Forget sink t reason)
  obtain res s' where "lifecycle_forget sink t reason s = (res, s')" by fastforce
  then show ?thesis using Forget forget_effect by fastforce
next
  case (PromoteInterrupted p)
  then show ?thesis
    using transition_all_moves [of _ s p] unfolding PromoteInterrupted run_op.simps promote_interrupted_snapshots_def by blast
next
  case (RequestSnapshot p tables detail)
  then show ?thesis using request_snapshot_effect [of s p tables detail] by auto
next
  case (MarkAwaiting t target state)
  then show ?thesis
    using transition_moves [of state s _ t] unfolding MarkAwaiting run_op.simps mark_awaiting_snapshot_def by blast
next
  case (RegisterTable t target)
  then show ?thesis using register_table_effect [of s t target] by auto
next
  case (AdmitHistory ex p rel name mode target dataset)
  obtain res s' where e: "admit_history_mode ex p rel name mode target dataset s = (res, s')" by fastforce
  from e have "moves_to LIFECYCLE_NONE s s'"
    by (cases rule: admit_history_mode_cases) (auto dest: admit_effect)
  then show ?thesis using AdmitHistory e by auto
qed

interpretation table_lifecycle: guarded_state TABLE_LIFECYCLE "stored_state t" lifecycle_step for t
proof unfold_locales
  show "wf_machine TABLE_LIFECYCLE" by (rule wf_TABLE_LIFECYCLE)
  fix s op1 s'
  assume "lifecycle_step s op1 = Inr s'"
  then show "stored_state t s' = stored_state t s \<or> allows TABLE_LIFECYCLE (stored_state t s) (stored_state t s')"
    using run_op_moves [of s op1] by (auto simp: lifecycle_step_def dest: moves_toD [of _ _ _ t])
qed



text \<open>A table whose snapshot is in progress cannot be opened again: \<open>state_for\<close> of
  \<open>snapshot.py\<close> checks this edge before it looks at \<open>retain_existing\<close>.\<close>

lemma reopening_is_refused:
  assumes "stored_state t s = LIFECYCLE_IN_PROGRESS"
  shows "fst (check_transition sink t LIFECYCLE_IN_PROGRESS reason s) = Inl (State IllegalTransition)"
proof -
  have "lifecycle_read s t = Inr LIFECYCLE_IN_PROGRESS"
  proof (cases "map_of (cs_rows s) t")
    case (Some r)
    moreover have "parse_state LIFECYCLE_IN_PROGRESS = Inr LIFECYCLE_IN_PROGRESS" by code_simp
    ultimately show ?thesis using assms by (simp add: lifecycle_read_def stored_state_def)
  qed (use assms in \<open>simp add: stored_state_def\<close>)
  moreover have "machine_check TABLE_LIFECYCLE LIFECYCLE_IN_PROGRESS LIFECYCLE_IN_PROGRESS = Inl IllegalTransition"
    by code_simp
  ultimately show ?thesis by (simp add: check_transition_def check_edge_def)
qed

section \<open>The history mode is kept\<close>

fun forgets :: "table_id \<Rightarrow> lifecycle_op \<Rightarrow> bool" where
  "forgets t (Forget sink u reason) \<longleftrightarrow> u = t"
| "forgets t _ \<longleftrightarrow> False"

fun admits :: "table_id \<Rightarrow> control_store \<Rightarrow> lifecycle_op \<Rightarrow> bool" where
  \<comment> \<open>a request for scd2 that finds the table before its first image\<close>
  "admits t s (AdmitHistory ex p rel name mode target dataset) \<longleftrightarrow>
     parse_history_mode mode = Inr ''scd2'' \<and> stored_state t s = LIFECYCLE_NONE \<and>
     (case map_of (cs_rows s) t of None \<Rightarrow> False | Some r \<Rightarrow> \<not> ex (sr_target_table r))"
| "admits t s _ \<longleftrightarrow> False"

lemma run_op_history:
  assumes "history_of t s = Some h" and "\<not> forgets t x"
  shows "history_of t (run_op x s) = Some h \<or>
    h = ''none'' \<and> history_of t (run_op x s) = Some ''scd2'' \<and> admits t s x"
proof (cases x)
  case (CheckTransition sink u to reason)
  then show ?thesis using assms(1) check_transition_rows by (simp add: history_of_def)
next
  case (Transition a u to reason)
  then show ?thesis using keeps_historyD [OF transition_keeps_history assms(1)] by simp
next
  case (TransitionAll p frm to reset reason)
  then show ?thesis using keeps_historyD [OF transition_all_keeps_history assms(1)] by simp
next
  case (ResetAll p reason)
  then show ?thesis using keeps_historyD [OF reset_all_effect [THEN conjunct2] assms(1)] by simp
next
  case (Forget sink u reason)
  obtain res s' where "lifecycle_forget sink u reason s = (res, s')" by fastforce
  moreover from forget_effect [OF this] Forget assms have "history_of t s' = Some h" by (metis forgets.simps(1))
  ultimately show ?thesis by (simp add: Forget)
next
  case (PromoteInterrupted p)
  then show ?thesis using keeps_historyD [OF transition_all_keeps_history assms(1)]
    by (simp add: promote_interrupted_snapshots_def)
next
  case (RequestSnapshot p tables detail)
  then show ?thesis using keeps_historyD [OF request_snapshot_effect [THEN conjunct2] assms(1)] by simp
next
  case (MarkAwaiting u target state)
  then show ?thesis using keeps_historyD [OF transition_keeps_history assms(1)] by (simp add: mark_awaiting_snapshot_def)
next
  case (RegisterTable u target)
  then show ?thesis using keeps_historyD [OF register_table_effect [THEN conjunct2] assms(1)] by simp
next
  case (AdmitHistory ex p rel name mode target dataset)
  obtain res s' where e: "admit_history_mode ex p rel name mode target dataset s = (res, s')" by fastforce
  then have run: "run_op x s = s'" by (simp add: AdmitHistory)
  from e show ?thesis
  proof (cases rule: admit_history_mode_cases)
    case refused
    then show ?thesis using assms(1) run by simp
  next
    case (admitted u selected adm)
    obtain r where r: "map_of (cs_rows s) t = Some r" using assms(1) by (auto simp: history_of_def)
    show ?thesis
    proof (cases "u = t")
      case True
      with admit_effect [OF admitted(5,3)] assms(1) admitted(4) r run AdmitHistory show ?thesis by auto
    next
      case False
      with admit_effect [OF admitted(5,3)] have "history_of t s' = history_of t s" by metis
      with assms(1) run show ?thesis by simp
    qed
  qed
qed

text \<open>
  C31: The history mode of a table is durable: while the table is not forgotten, no sequence of lifecycle
  operations, resets, replacements and admissions takes a table out of scd2 mode, so history
  rows are never hidden, and a table in none mode enters scd2 mode only by an admission that
  finds it registered but never snapshotted and without a destination table.
\<close>

theorem history_mode_is_kept:
  assumes "rfold lifecycle_step s xs = Inr s'" and "list_all (\<lambda>x. \<not> forgets t x) xs"
  shows "(history_of t s = Some ''scd2'' \<longrightarrow> history_of t s' = Some ''scd2'') \<and>
    (\<forall>x. history_of t s = Some ''none'' \<and> \<not> forgets t x \<longrightarrow> history_of t (run_op x s) = Some ''none'' \<or>
       history_of t (run_op x s) = Some ''scd2'' \<and> admits t s x)"
proof (intro conjI allI impI)
  assume scd2: "history_of t s = Some ''scd2''"
  show "history_of t s' = Some ''scd2''"
  proof (rule rfold_invariant [OF assms(1), of "\<lambda>s. history_of t s = Some ''scd2''"])
    show "history_of t u' = Some ''scd2''"
      if "history_of t u = Some ''scd2''" "x \<in> set xs" "lifecycle_step u x = Inr u'" for u x u'
      using run_op_history [OF that(1), of x] that assms(2) by (auto simp: lifecycle_step_def list_all_iff)
  qed (rule scd2)
qed (use run_op_history in blast)


section \<open>Interrupted snapshots are owed work\<close>

definition row_name :: "string \<times> string \<times> state_row \<Rightarrow> string" where
  "row_name x = (case x of (schema, tab, r) \<Rightarrow> qualified_name schema tab)"

definition row_state :: "string \<times> string \<times> state_row \<Rightarrow> string" where
  "row_state x = (case x of (schema, tab, r) \<Rightarrow> sr_snapshot_state r)"

lemma read_rows:
  assumes "list_all (\<lambda>x. row_state x \<in> set LIFECYCLE_DURABLE_VALUES) xs"
    and "distinct (map fst d @ map row_name xs)"
  shows "rfold (\<lambda>d (schema, tab, r). rbind (parse_state (sr_snapshot_state r)) (\<lambda>st.
              Inr (AList.update (qualified_name schema tab) st d))) d xs =
    Inr (d @ map (\<lambda>x. (row_name x, row_state x)) xs)"
  using assms
proof (induction xs arbitrary: d)
  case Nil
  then show ?case by simp
next
  case (Cons x xs)
  obtain schema tab r where x: "x = (schema, tab, r)" by (cases x)
  have "qualified_name schema tab \<notin> fst ` set d" using Cons.prems(2) by (auto simp: x row_name_def)
  moreover have "parse_state (sr_snapshot_state r) = Inr (sr_snapshot_state r)"
    using Cons.prems(1) by (simp add: parse_state_def x row_state_def)
  ultimately show ?case
    using Cons.IH [of "d @ [(qualified_name schema tab, sr_snapshot_state r)]"] Cons.prems
    by (simp add: x alist_update_new row_name_def row_state_def)
qed

lemma owing_work_rows:
  assumes "list_all (\<lambda>x. row_state x \<in> set LIFECYCLE_DURABLE_VALUES) (pipeline_rows s p)"
    and "distinct (map row_name (pipeline_rows s p))"
  shows "owing_work s p = Inr (sort (map row_name
    (filter (\<lambda>x. row_state x \<in> set LIFECYCLE_OWING_WORK) (pipeline_rows s p))))"
proof -
  have "read_all s p = Inr (map (\<lambda>x. (row_name x, row_state x)) (pipeline_rows s p))"
    using read_rows [OF assms(1), of "[]"] assms(2) by (simp add: read_all_def)
  then show ?thesis by (simp add: owing_work_def filter_map comp_def)
qed

lemma promoted_rows:
  assumes "promote_interrupted_snapshots p s = (res, s')"
  shows "res \<noteq> Inl e" and "pipeline_rows s' p = map (\<lambda>(schema, tab, r). (schema, tab,
    if sr_snapshot_state r = LIFECYCLE_IN_PROGRESS then moved_row False LIFECYCLE_AWAITING r else r)) (pipeline_rows s p)"
proof -
  have check: "check_edge False LIFECYCLE_IN_PROGRESS LIFECYCLE_AWAITING ''*'' reason s = (Inr (), s)" for reason
  proof -
    have "machine_check TABLE_LIFECYCLE LIFECYCLE_IN_PROGRESS LIFECYCLE_AWAITING = Inr ()" by code_simp
    then show ?thesis by (simp add: check_edge_def)
  qed
  have rows: "cs_rows s' = map (\<lambda>(k, r). (k, if fst k = p \<and> sr_snapshot_state r = LIFECYCLE_IN_PROGRESS
      then moved_row False LIFECYCLE_AWAITING r else r)) (cs_rows s)" and "res \<noteq> Inl e" for e
    using assms check by (auto simp: promote_interrupted_snapshots_def transition_all_def Let_def)
  then show "res \<noteq> Inl e" by blast
  have "map (\<lambda>((q, schema, tab), r). (schema, tab, r)) (filter (\<lambda>((q, _), _). q = p)
      (map (\<lambda>(k, r). (k, if fst k = p \<and> sr_snapshot_state r = LIFECYCLE_IN_PROGRESS
        then moved_row False LIFECYCLE_AWAITING r else r)) d)) =
    map (\<lambda>(schema, tab, r). (schema, tab,
      if sr_snapshot_state r = LIFECYCLE_IN_PROGRESS then moved_row False LIFECYCLE_AWAITING r else r))
      (map (\<lambda>((q, schema, tab), r). (schema, tab, r)) (filter (\<lambda>((q, _), _). q = p) d))"
    for d :: "(table_id, state_row) dict"
    by (induction d) auto
  then show "pipeline_rows s' p = map (\<lambda>(schema, tab, r). (schema, tab,
    if sr_snapshot_state r = LIFECYCLE_IN_PROGRESS then moved_row False LIFECYCLE_AWAITING r else r)) (pipeline_rows s p)"
    unfolding pipeline_rows_def rows by blast
qed

text \<open>
  C30: The promotion at start-up makes every interrupted snapshot visible: it never fails, afterwards no
  table of the pipeline is in progress, and the tables that owe work are exactly those whose
  snapshot was interrupted and those that owed one before, by name.
\<close>

theorem interrupted_snapshots_are_owed:
  assumes "list_all (\<lambda>x. row_state x \<in> set LIFECYCLE_DURABLE_VALUES) (pipeline_rows s p)"
    and "distinct (map row_name (pipeline_rows s p))"
    and "promote_interrupted_snapshots p s = (res, s')"
  shows "is_ok res \<and> LIFECYCLE_IN_PROGRESS \<notin> row_state ` set (pipeline_rows s' p) \<and>
    owing_work s' p = Inr (sort (map row_name (filter (\<lambda>x. row_state x = LIFECYCLE_IN_PROGRESS \<or>
      row_state x = LIFECYCLE_AWAITING) (pipeline_rows s p))))"
proof -
  let ?f = "\<lambda>(schema, tab, r). (schema, tab,
    if sr_snapshot_state r = LIFECYCLE_IN_PROGRESS then moved_row False LIFECYCLE_AWAITING r else r)"
  note rows = promoted_rows [OF assms(3)]
  have state: "row_state (?f x) = (if row_state x = LIFECYCLE_IN_PROGRESS then LIFECYCLE_AWAITING else row_state x)"
    and name: "row_name (?f x) = row_name x" for x :: "string \<times> string \<times> state_row"
    by (simp_all add: row_state_def row_name_def split: prod.split)
  have vals: "LIFECYCLE_AWAITING \<in> set LIFECYCLE_DURABLE_VALUES"
      "set LIFECYCLE_OWING_WORK = {LIFECYCLE_IN_PROGRESS, LIFECYCLE_AWAITING}" by code_simp+
  have "list_all (\<lambda>x. row_state x \<in> set LIFECYCLE_DURABLE_VALUES) (pipeline_rows s' p)"
    using assms(1) vals(1) unfolding rows(2) by (auto simp: list_all_iff state)
  moreover have "map row_name (pipeline_rows s' p) = map row_name (pipeline_rows s p)"
    unfolding rows(2) by (simp add: name)
  ultimately have "owing_work s' p = Inr (sort (map row_name
      (filter (\<lambda>x. row_state x \<in> set LIFECYCLE_OWING_WORK) (pipeline_rows s' p))))"
    using owing_work_rows assms(2) by metis
  also have "map row_name (filter (\<lambda>x. row_state x \<in> set LIFECYCLE_OWING_WORK) (pipeline_rows s' p)) =
      map row_name (filter (\<lambda>x. row_state x = LIFECYCLE_IN_PROGRESS \<or> row_state x = LIFECYCLE_AWAITING) (pipeline_rows s p))"
    unfolding rows(2) by (simp add: filter_map comp_def state name vals(2) disj_imp cong: filter_cong)
  finally have owed: "owing_work s' p = Inr (sort (map row_name (filter (\<lambda>x. row_state x = LIFECYCLE_IN_PROGRESS \<or>
      row_state x = LIFECYCLE_AWAITING) (pipeline_rows s p))))" .
  have "is_ok res" using rows(1) by (cases res) auto
  moreover have "LIFECYCLE_IN_PROGRESS \<notin> row_state ` set (pipeline_rows s' p)"
    unfolding rows(2) by (auto simp: row_state_def split: if_splits)
  ultimately show ?thesis using owed by blast
qed

section \<open>A quoted name is parsed back\<close>

definition quote_body :: "string \<Rightarrow> string" where
  "quote_body s = concat (map (\<lambda>c. if c = CHR 0x22 then [c, c] else [c]) s)"

lemma quote_body_simps [simp]:
  "quote_body [] = []"
  "quote_body (c # cs) = (if c = CHR 0x22 then [c, c] else [c]) @ quote_body cs"
  by (simp_all add: quote_body_def)

lemma quote_name_body: "quote_name s = CHR 0x22 # quote_body s @ [CHR 0x22]"
  by (simp add: quote_name_def quote_body_def)

lemma scan_quoted_body:
  assumes "acc @ s \<noteq> []" and "CHR 0x00 \<notin> set (acc @ s)" and "rest = [] \<or> hd rest \<noteq> CHR 0x22"
  shows "scan_quoted acc (quote_body s @ CHR 0x22 # rest) = Inr (acc @ s, dropWhile py_space rest)"
  using assms
proof (induction s arbitrary: acc)
  case Nil
  then show ?case by (cases rest) auto
next
  case (Cons c s)
  then show ?case using Cons.IH [of "acc @ [c]"] by simp
qed

lemma scan_quoted_name:
  assumes "s \<noteq> []" and "CHR 0x00 \<notin> set s" and "rest = [] \<or> hd rest \<noteq> CHR 0x22"
  shows "scan_identifier (quote_name s @ rest) = Inr (s, dropWhile py_space rest)"
proof -
  have "dropWhile py_space (quote_name s @ rest) = quote_name s @ rest"
    by (simp add: quote_name_body py_space_def is_space_def)
  then show ?thesis using scan_quoted_body [of "[]" s rest] assms
    by (simp add: scan_identifier_def quote_name_body)
qed

lemma strip_quoted:
  assumes "xs \<noteq> []" and "\<not> py_space (hd xs)" and "\<not> py_space (last xs)"
  shows "py_strip xs = xs"
proof -
  have "dropWhile py_space xs = xs" using assms(1,2) by (cases xs) simp_all
  moreover have "dropWhile py_space (rev xs) = rev xs" using assms(1,3) by (cases xs rule: rev_cases) simp_all
  ultimately show ?thesis by (simp add: py_strip_def)
qed

text \<open>
  A table name written with \<open>naming.quote\<close> on schema and table is parsed back as that schema and table,
  whatever characters but NUL they contain, quotes, dots and spaces included.
\<close>

theorem qualified_name_round_trip:
  assumes "schema \<noteq> []" and "tab \<noteq> []" and "CHR 0x00 \<notin> set schema" and "CHR 0x00 \<notin> set tab"
  shows "parse_qualified_table (quote_name schema @ ''.'' @ quote_name tab) = Inr (schema, tab)"
proof -
  let ?text = "quote_name schema @ ''.'' @ quote_name tab"
  have strip: "py_strip ?text = ?text"
    by (rule strip_quoted) (simp_all add: quote_name_body py_space_def is_space_def)
  have "scan_identifier ?text = Inr (schema, ''.'' @ quote_name tab)"
    using scan_quoted_name [OF assms(1,3), of "''.'' @ quote_name tab"]
    by (simp add: py_space_def is_space_def)
  moreover have "scan_identifier (quote_name tab) = Inr (tab, [])"
    using scan_quoted_name [OF assms(2,4), of "[]"] by simp
  ultimately show ?thesis
    unfolding parse_qualified_table_def strip by (simp add: quote_name_body)
qed

theorem qualified_name_round_trip_example:
  "parse_qualified_table (quote_name ''my.schema'' @ ''.'' @ quote_name [CHR ''a'', CHR 0x22, CHR ''b''])
     = Inr (''my.schema'', [CHR ''a'', CHR 0x22, CHR ''b''])"
  by (rule qualified_name_round_trip) simp_all

section \<open>Examples\<close>

definition sample_table :: table_id where
  "sample_table = (''p'', ''app'', ''orders'')"

definition sample_relation :: source_relation where
  "sample_relation = \<lparr>rel_schema = ''app'', rel_table = ''orders'', rel_is_partition = False,
     rel_primary_key_columns = [''id'']\<rparr>"

definition no_rows :: control_store where
  "no_rows = \<lparr>cs_rows = [], cs_alerts = []\<rparr>"

definition sample_run :: "lifecycle_op list" where
  "sample_run =
     [AdmitHistory (\<lambda>_. False) ''p'' (Some sample_relation) (Some ''App.Orders'') (Some ''SCD2 '') ''t_orders'' ''d'',
      Transition (no_args\<lparr>ta_replace := True, ta_epoch := Some 1\<rparr>) sample_table LIFECYCLE_IN_PROGRESS ''open'',
      AdmitHistory (\<lambda>_. True) ''p'' (Some sample_relation) None (Some ''none'') ''t_orders'' ''d'',
      PromoteInterrupted ''p'',
      Transition (no_args\<lparr>ta_sink := True\<rparr>) sample_table LIFECYCLE_NONE ''reset'',
      ResetAll ''p'' ''--reset-state'']"

definition after_run :: control_store where
  "after_run = fold run_op sample_run no_rows"

lemma sample_run_ok: "rfold lifecycle_step no_rows sample_run = Inr after_run"
proof -
  have "rfold lifecycle_step s xs = Inr (fold run_op xs s)" for s xs
    by (induction xs arbitrary: s) (simp_all add: lifecycle_step_def)
  then show ?thesis by (simp add: after_run_def)
qed


theorem history_mode_is_kept_witness:
  "history_of sample_table (fold run_op (tl sample_run) (run_op (hd sample_run) no_rows)) = Some ''scd2''"
proof -
  have run: "rfold lifecycle_step s xs = Inr (fold run_op xs s)" for s xs
    by (induction xs arbitrary: s) (simp_all add: lifecycle_step_def)
  have "history_of sample_table (run_op (hd sample_run) no_rows) = Some ''scd2''" by code_simp
  moreover have "list_all (\<lambda>x. \<not> forgets sample_table x) (tl sample_run)" by code_simp
  ultimately show ?thesis using history_mode_is_kept [OF run] by blast
qed


definition interrupted :: control_store where
  "interrupted = fold run_op [RegisterTable (''p'', ''app'', ''b'') ''tb'', RegisterTable (''p'', ''app'', ''c'') ''tc'',
     Transition no_args (''p'', ''app'', ''a'') LIFECYCLE_IN_PROGRESS ''open'',
     RequestSnapshot ''p'' [(''app'', ''c'', ''tc'')] ''repair''] no_rows"

theorem interrupted_snapshots_are_owed_witness:
  "owing_work (snd (promote_interrupted_snapshots ''p'' interrupted)) ''p'' = Inr [''app.a'', ''app.c'']"
proof -
  have hyps: "list_all (\<lambda>x. row_state x \<in> set LIFECYCLE_DURABLE_VALUES) (pipeline_rows interrupted ''p'')"
      "distinct (map row_name (pipeline_rows interrupted ''p''))"
    and rows: "sort (map row_name (filter (\<lambda>x. row_state x = LIFECYCLE_IN_PROGRESS \<or>
      row_state x = LIFECYCLE_AWAITING) (pipeline_rows interrupted ''p''))) = [''app.a'', ''app.c'']"
    by code_simp+
  show ?thesis
    using interrupted_snapshots_are_owed [OF hyps surjective_pairing] unfolding rows by blast
qed

end
