(* ===== verification/Slot_Check.thy ===== *)
theory Slot_Check
  imports Offset_Store Table_Lifecycle
begin

text \<open>
  The replication slot and the cluster it lives in: a model of \<open>SlotObservation\<close>, \<open>observe_slot\<close>,
  \<open>SlotVerdict\<close>, \<open>check_slot\<close>, \<open>slot_retirement_status\<close> and \<open>check_invariant_o\<close> of
  \<open>src/cdc_flight/reconcile.py\<close>, and of the control table \<open>slot_state\<close>
  (\<open>read_slot_state\<close>, \<open>write_slot_state\<close> of \<open>destination_alerts.py\<close>) that remembers the last observation.

  The answer of PostgreSQL to the one query of \<open>observe_slot\<close> is an argument. The texts of messages and
  the time stamps are left out; the decision, what the run must do about it and the positions are kept.

  The lemmas show that every decision is in the frozen domain, that a run streams on only from a slot that is
  covered by the destination, and that a destination without resume point is rebuilt only if it is known to be
  empty.
\<close>

section \<open>The observation\<close>

record slot_observation =
  so_slot_exists :: bool
  so_active :: bool
  so_restart_lsn :: "int option"
  so_confirmed_flush_lsn :: "int option"
  so_current_wal_lsn :: "int option"
  so_system_identifier :: "string option"
  so_timeline_id :: "int option"
  so_wal_status :: "string option"
  so_invalidation_reason :: "string option"
  so_error :: "string option"

definition no_observation :: slot_observation where
  \<comment> \<open>the defaults of the dataclass\<close>
  "no_observation = \<lparr>so_slot_exists = False, so_active = False, so_restart_lsn = None,
     so_confirmed_flush_lsn = None, so_current_wal_lsn = None, so_system_identifier = None,
     so_timeline_id = None, so_wal_status = None, so_invalidation_reason = None, so_error = None\<rparr>"

definition observable :: "slot_observation \<Rightarrow> bool" where
  "observable obs \<longleftrightarrow> so_error obs = None"

text \<open>One row of \<open>_SLOT_OBSERVATION_SQL\<close>: the outer join gives NULLs when there is no slot.\<close>

record source_slot_row =
  sq_restart :: "int option"
  sq_confirmed :: "int option"
  sq_active :: "bool option"
  sq_current :: "int option"
  sq_system_id :: "string option"
  sq_timeline :: "int option"
  sq_wal_status :: "string option"
  sq_invalidation :: "string option"

definition observe_slot :: "string + source_slot_row option \<Rightarrow> slot_observation" where
  \<comment> \<open>\<open>Inl\<close> is the exception of the connection or of the query\<close>
  "observe_slot answer =
     (case answer of
        Inl exc \<Rightarrow> no_observation\<lparr>so_error := Some exc\<rparr>
      | Inr None \<Rightarrow> no_observation\<lparr>so_error := Some ''no row from pg_replication_slots''\<rparr>
      | Inr (Some q) \<Rightarrow>
          \<lparr>so_slot_exists = (sq_restart q \<noteq> None \<or> sq_confirmed q \<noteq> None \<or> sq_active q = Some True),
           so_active = (sq_active q = Some True), so_restart_lsn = sq_restart q,
           so_confirmed_flush_lsn = sq_confirmed q, so_current_wal_lsn = sq_current q,
           so_system_identifier = sq_system_id q, so_timeline_id = sq_timeline q,
           so_wal_status = sq_wal_status q, so_invalidation_reason = sq_invalidation q, so_error = None\<rparr>)"

section \<open>The verdict\<close>

definition RESNAPSHOT_DECISIONS :: "string list" where
  "RESNAPSHOT_DECISIONS =
     [''slot_ahead_of_destination'', ''slot_missing'', ''slot_invalidated'', ''slot_recreated'',
      ''source_identity_changed'', ''source_timeline_changed'', ''source_lsn_regressed'',
      ''no_durable_destination_row'']"

definition FORGET_CATALOG_DECISIONS :: "string list" where
  "FORGET_CATALOG_DECISIONS =
     [''source_identity_changed'', ''source_timeline_changed'', ''source_lsn_regressed'']"

record slot_verdict =
  vd_decision :: string
  vd_ok :: bool
  vd_resnapshot :: bool
  vd_refuse :: bool
  vd_destination_rows :: "(string, int) dict option"   \<comment> \<open>of the context\<close>

definition make_verdict :: "string \<Rightarrow> bool \<Rightarrow> bool \<Rightarrow> bool \<Rightarrow> (string, int) dict option \<Rightarrow> state_error + slot_verdict" where
  \<comment> \<open>\<open>__post_init__\<close> parses the decision\<close>
  "make_verdict decision ok resnapshot refuse rows =
     rbind (domain_parse SLOT_VERDICTS decision) (\<lambda>d.
       Inr \<lparr>vd_decision = d, vd_ok = ok, vd_resnapshot = resnapshot, vd_refuse = refuse,
            vd_destination_rows = rows\<rparr>)"

text \<open>A row of \<open>slot_state\<close>, which is also what a \<open>SlotStateReceipt\<close> answers to \<open>get\<close>.\<close>

record slot_row =
  sl_system_identifier :: "string option"
  sl_timeline_id :: "int option"
  sl_restart_lsn :: "int option"
  sl_confirmed_flush_lsn :: "int option"
  sl_current_wal_lsn :: "int option"
  sl_durable_lsn :: "int option"
  sl_verdict :: "string option"

definition empty_slot_row :: slot_row where
  "empty_slot_row = \<lparr>sl_system_identifier = None, sl_timeline_id = None, sl_restart_lsn = None,
     sl_confirmed_flush_lsn = None, sl_current_wal_lsn = None, sl_durable_lsn = None, sl_verdict = None\<rparr>"

definition wal_unusable :: "slot_observation \<Rightarrow> bool" where
  "wal_unusable obs \<longleftrightarrow>
     truthy_str (so_invalidation_reason obs) \<or>
     map py_lower (case so_wal_status obs of None \<Rightarrow> [] | Some w \<Rightarrow> w) \<in> {''lost'', ''unreserved''}"

definition identity_changed :: "slot_row \<Rightarrow> slot_observation \<Rightarrow> bool" where
  "identity_changed prev obs \<longleftrightarrow>
     truthy_str (sl_system_identifier prev) \<and> truthy_str (so_system_identifier obs) \<and>
     sl_system_identifier prev \<noteq> so_system_identifier obs"

definition timeline_changed :: "slot_row \<Rightarrow> slot_observation \<Rightarrow> bool" where
  "timeline_changed prev obs \<longleftrightarrow>
     sl_timeline_id prev \<noteq> None \<and> so_timeline_id obs \<noteq> None \<and> sl_timeline_id prev \<noteq> so_timeline_id obs"

definition known_below :: "int option \<Rightarrow> int option \<Rightarrow> bool" where
  \<comment> \<open>both are known and the first is smaller\<close>
  "known_below a b = (case (a, b) of (Some x, Some y) \<Rightarrow> x < y | _ \<Rightarrow> False)"

definition restart_regressed :: "slot_row \<Rightarrow> slot_observation \<Rightarrow> bool" where
  "restart_regressed prev obs \<longleftrightarrow> known_below (so_restart_lsn obs) (sl_restart_lsn prev)"

definition confirmed_regressed :: "slot_row \<Rightarrow> slot_observation \<Rightarrow> bool" where
  "confirmed_regressed prev obs \<longleftrightarrow>
     sl_confirmed_flush_lsn prev = None \<or> so_confirmed_flush_lsn obs = None \<or>
     known_below (so_confirmed_flush_lsn obs) (sl_confirmed_flush_lsn prev)"

definition check_slot ::
  "int option \<Rightarrow> slot_observation \<Rightarrow> slot_row option \<Rightarrow> (string, int) dict option \<Rightarrow> state_error + slot_verdict" where
  "check_slot durable_lsn obs previous destination_rows =
     (if \<not> observable obs then make_verdict ''source_unobservable'' False False False None
      else
        case durable_lsn of
          None \<Rightarrow>
            if \<not> so_slot_exists obs \<or> so_confirmed_flush_lsn obs = None then
              make_verdict ''fresh_start'' True False False None
            else
              (case destination_rows of
                 None \<Rightarrow> make_verdict ''no_durable_destination_row'' False False True (Some [])
               | Some rows \<Rightarrow>
                   if rows \<noteq> [] then make_verdict ''no_durable_destination_row'' False False True (Some rows)
                   else make_verdict ''no_durable_destination_row'' False True False (Some []))
        | Some point \<Rightarrow>
            let prev = (case previous of None \<Rightarrow> empty_slot_row | Some p \<Rightarrow> p) in
            if identity_changed prev obs then make_verdict ''source_identity_changed'' False True False None
            else if timeline_changed prev obs then make_verdict ''source_timeline_changed'' False True False None
            else if wal_unusable obs then make_verdict ''slot_invalidated'' False True False None
            else if known_below (so_current_wal_lsn obs) (Some point) then
              make_verdict ''source_lsn_regressed'' False True False None
            else if \<not> so_slot_exists obs then make_verdict ''slot_missing'' False True False None
            else if restart_regressed prev obs \<and> confirmed_regressed prev obs then
              make_verdict ''slot_recreated'' False True False None
            else if known_below (Some point) (so_confirmed_flush_lsn obs) then
              make_verdict ''slot_ahead_of_destination'' False True False None
            else make_verdict ''ok'' True False False None)"

section \<open>The memory of the slot\<close>

type_synonym slot_table = "(string \<times> string, slot_row) dict"   \<comment> \<open>by pipeline and slot name\<close>

record slot_receipt =
  sp_pipeline :: string
  sp_slot_name :: string
  sp_row :: slot_row

text \<open>\<open>SlotState\<close>: the value that a receipt binds; its decision is \<open>observed\<close> where no verdict was
  stored.\<close>

definition receipt_state :: "slot_receipt \<Rightarrow> string \<times> string \<times> string \<times> slot_row" where
  "receipt_state r =
     (sp_pipeline r, sp_slot_name r,
      if truthy_str (sl_verdict (sp_row r)) then the (sl_verdict (sp_row r)) else ''observed'',
      (sp_row r)\<lparr>sl_verdict := None\<rparr>)"

definition read_slot_state :: "slot_table \<Rightarrow> string \<Rightarrow> string \<Rightarrow> slot_receipt option" where
  "read_slot_state table pipeline slot_name =
     map_option (\<lambda>r. \<lparr>sp_pipeline = pipeline, sp_slot_name = slot_name, sp_row = r\<rparr>)
       (map_of table (pipeline, slot_name))"

definition write_slot_state ::
  "string \<Rightarrow> string \<Rightarrow> slot_row \<Rightarrow> string option \<Rightarrow> slot_table \<Rightarrow> state_error + slot_receipt \<times> slot_table" where
  "write_slot_state pipeline slot_name observation verdict table =
     rbind (case verdict of
              None \<Rightarrow> Inr None
            | Some v \<Rightarrow> rbind (domain_parse SLOT_VERDICTS v) (\<lambda>d. Inr (Some d))) (\<lambda>v.
       let row = observation\<lparr>sl_verdict := v\<rparr> in
       Inr (\<lparr>sp_pipeline = pipeline, sp_slot_name = slot_name, sp_row = row\<rparr>,
            filter (\<lambda>(k, _). k \<noteq> (pipeline, slot_name)) table @ [((pipeline, slot_name), row)]))"

definition recorded_observation :: "slot_observation \<Rightarrow> int option \<Rightarrow> slot_row" where
  \<comment> \<open>what \<open>write_slot_state\<close> takes of \<open>observation.as_dict()\<close> with the durable position\<close>
  "recorded_observation obs durable_lsn =
     \<lparr>sl_system_identifier = so_system_identifier obs, sl_timeline_id = so_timeline_id obs,
      sl_restart_lsn = so_restart_lsn obs, sl_confirmed_flush_lsn = so_confirmed_flush_lsn obs,
      sl_current_wal_lsn = so_current_wal_lsn obs, sl_durable_lsn = durable_lsn, sl_verdict = None\<rparr>"

section \<open>The retirement of the main slot\<close>

definition slot_retirement_status :: "string \<Rightarrow> string \<Rightarrow> slot_observation \<Rightarrow> unit + string" where
  \<comment> \<open>\<open>Inl\<close> is the unresolved obligation\<close>
  "slot_retirement_status dsn slot_name obs =
     (if dsn = [] \<or> slot_name = [] \<or> \<not> observable obs then Inl ()
      else Inr (if so_slot_exists obs then ''retained'' else ''absent''))"

section \<open>Invariant O\<close>

definition SNAPSHOT_MODES_WITH_DATA :: "string list" where
  "SNAPSHOT_MODES_WITH_DATA = [''initial'', ''initial_only'', ''always'', ''when_needed'']"

record invariant_result =
  io_checked :: bool
  io_ok :: bool
  io_decision :: "string option"

datatype invariant_alert = MarkedAlert string string | PlainAlert string
  \<comment> \<open>the code of an alert, with its condition marker where it has one\<close>

datatype invariant_error = NoDurableDestinationRow | SlotAheadOfDestination

definition condition_marker :: "string \<Rightarrow> string \<Rightarrow> int option \<Rightarrow> string" where
  "condition_marker slot_name decision lsn =
     slot_name @ '':'' @ decision @ '':'' @ (case lsn of None \<Rightarrow> ''None'' | Some n \<Rightarrow> dumps_int n)"

definition raise_marked :: "string \<Rightarrow> string \<Rightarrow> invariant_alert list \<Rightarrow> invariant_alert list" where
  "raise_marked code marker alerts =
     (if MarkedAlert code marker \<in> set alerts then alerts else alerts @ [MarkedAlert code marker])"

definition check_invariant_o ::
  "int option \<Rightarrow> (unit + int option) \<Rightarrow> string \<Rightarrow> string option \<Rightarrow> bool \<Rightarrow> bool \<Rightarrow> invariant_alert list \<Rightarrow>
   (invariant_error + invariant_result) \<times> invariant_alert list" where
  \<comment> \<open>\<open>position\<close> is what \<open>slot_position\<close> gives, \<open>Inl\<close> where it raises\<close>
  "check_invariant_o durable_lsn position slot_name snapshot_mode raising retained_slot alerts =
     (case position of
        Inl _ \<Rightarrow> (Inr \<lparr>io_checked = False, io_ok = False, io_decision = None\<rparr>, alerts)
          \<comment> \<open>the result then says nothing else\<close>
      | Inr confirmed \<Rightarrow>
          let result = (\<lambda>ok decision. \<lparr>io_checked = True, io_ok = ok, io_decision = decision\<rparr>) in
          (case (durable_lsn, confirmed) of
             (None, Some lsn) \<Rightarrow>
               if retained_slot then (Inr (result True (Some ''recovery_retained'')), alerts)
               else if (case snapshot_mode of None \<Rightarrow> [] | Some m \<Rightarrow> m) \<in> set SNAPSHOT_MODES_WITH_DATA then
                 (Inr (result True (Some ''no_durable_row_full_snapshot'')), alerts)
               else
                 (if raising then Inl NoDurableDestinationRow
                  else Inr (result False (Some ''no_durable_destination_row'')),
                  raise_marked ''no_durable_destination_row''
                    (condition_marker slot_name ''no_durable_destination_row'' (Some lsn)) alerts)
           | (Some point, Some lsn) \<Rightarrow>
               if lsn > point then
                 (if raising then Inl SlotAheadOfDestination else Inr (result False None),
                  alerts @ [PlainAlert ''slot_ahead_of_destination''])
               else (Inr (result True None), alerts)
           | _ \<Rightarrow> (Inr (result True None), alerts)))"

section \<open>What the verdicts mean\<close>

lemma make_verdict_known:
  "decision \<in> set (d_values SLOT_VERDICTS) \<Longrightarrow>
   make_verdict decision ok resnapshot refuse rows =
     Inr \<lparr>vd_decision = decision, vd_ok = ok, vd_resnapshot = resnapshot, vd_refuse = refuse, vd_destination_rows = rows\<rparr>"
  by (simp add: make_verdict_def domain_parse_def)

lemmas verdict_simps = make_verdict_known SLOT_VERDICTS_def

lemma known_below_iff [simp]:
  "known_below (Some x) (Some y) \<longleftrightarrow> x < y" "\<not> known_below None b" "\<not> known_below a None"
  by (simp_all add: known_below_def split: option.split)

text \<open>Without a resume point the verdict looks at the destination only.\<close>

lemma check_slot_without_point:
  assumes "observable obs"
  shows "check_slot None obs prev rows =
    (if \<not> so_slot_exists obs \<or> so_confirmed_flush_lsn obs = None
     then Inr \<lparr>vd_decision = ''fresh_start'', vd_ok = True, vd_resnapshot = False, vd_refuse = False,
               vd_destination_rows = None\<rparr>
     else Inr \<lparr>vd_decision = ''no_durable_destination_row'', vd_ok = False, vd_resnapshot = (rows = Some []),
               vd_refuse = (rows \<noteq> Some []), vd_destination_rows = Some (case rows of None \<Rightarrow> [] | Some r \<Rightarrow> r)\<rparr>)"
  using assms by (simp add: check_slot_def verdict_simps split: option.split)

definition same_lineage :: "slot_row option \<Rightarrow> slot_observation \<Rightarrow> bool" where
  "same_lineage previous obs \<longleftrightarrow>
     (\<forall>q. previous = Some q \<longrightarrow> \<not> identity_changed q obs \<and> \<not> timeline_changed q obs)"

definition recreated :: "slot_row option \<Rightarrow> slot_observation \<Rightarrow> bool" where
  "recreated previous obs \<longleftrightarrow>
     (\<exists>q. previous = Some q \<and> restart_regressed q obs \<and> confirmed_regressed q obs)"

lemma empty_slot_row_agrees:
  "\<not> identity_changed empty_slot_row obs" "\<not> timeline_changed empty_slot_row obs"
  "\<not> restart_regressed empty_slot_row obs"
  by (simp_all add: identity_changed_def timeline_changed_def restart_regressed_def empty_slot_row_def)

lemma check_slot_with_point:
  assumes "observable obs"
  shows "\<exists>v. check_slot (Some p) obs prev rows = Inr v \<and> \<not> vd_refuse v \<and> vd_ok v = (\<not> vd_resnapshot v) \<and>
    vd_decision v \<in> set (''ok'' # RESNAPSHOT_DECISIONS) \<and>
    (vd_ok v \<longleftrightarrow> same_lineage prev obs \<and> \<not> wal_unusable obs \<and> so_slot_exists obs \<and>
       \<not> known_below (so_current_wal_lsn obs) (Some p) \<and> \<not> recreated prev obs \<and>
       \<not> known_below (Some p) (so_confirmed_flush_lsn obs))"
  using assms
  by (cases prev) (auto simp: check_slot_def verdict_simps Let_def same_lineage_def recreated_def
    RESNAPSHOT_DECISIONS_def empty_slot_row_agrees)

lemma check_slot_total: "\<exists>v. check_slot durable_lsn obs prev rows = Inr v"
proof (cases "observable obs")
  case False
  then show ?thesis by (simp add: check_slot_def verdict_simps)
next
  case True
  then show ?thesis
    by (cases durable_lsn) (auto simp: check_slot_without_point dest: check_slot_with_point [of obs _ prev rows])
qed


text \<open>The start-up guard agrees with the verdict.\<close>

lemma missing_slot_has_no_position: "\<not> so_slot_exists (observe_slot a) \<Longrightarrow> so_confirmed_flush_lsn (observe_slot a) = None"
  by (auto simp: observe_slot_def no_observation_def split: sum.splits option.splits)

lemma accepted_slot_passes_invariant_o:
  assumes "check_slot durable_lsn (observe_slot a) prev rows = Inr v" and "vd_ok v"
  shows "check_invariant_o durable_lsn (Inr (so_confirmed_flush_lsn (observe_slot a))) slot mode raising retained alerts =
    (Inr \<lparr>io_checked = True, io_ok = True, io_decision = None\<rparr>, alerts)"
proof -
  have seen: "observable (observe_slot a)" using assms by (auto simp: check_slot_def verdict_simps split: if_splits)
  show ?thesis
  proof (cases durable_lsn)
    case None
    then have "so_confirmed_flush_lsn (observe_slot a) = None"
      using assms seen missing_slot_has_no_position [of a] by (auto simp: check_slot_without_point split: if_splits)
    then show ?thesis using None by (simp add: check_invariant_o_def Let_def)
  next
    case (Some p)
    with assms check_slot_with_point [OF seen, of p prev rows]
    have "\<not> known_below (Some p) (so_confirmed_flush_lsn (observe_slot a))" by auto
    then show ?thesis using Some
      by (cases "so_confirmed_flush_lsn (observe_slot a)") (auto simp: check_invariant_o_def Let_def)
  qed
qed

lemma read_written_slot_state:
  assumes "write_slot_state pipeline slot obs verdict table = Inr (r, table')"
  shows "read_slot_state table' pipeline slot = Some r" and
    "k \<noteq> (pipeline, slot) \<Longrightarrow> map_of table' k = map_of table k"
proof -
  have other: "map_of (filter (\<lambda>(k, _). k \<noteq> (pipeline, slot)) table) k =
      (if k = (pipeline, slot) then None else map_of table k)" for k
    by (rule map_of_filter_key)
  from assms obtain v where r: "r = \<lparr>sp_pipeline = pipeline, sp_slot_name = slot, sp_row = obs\<lparr>sl_verdict := v\<rparr>\<rparr>"
    and t: "table' = filter (\<lambda>(k, _). k \<noteq> (pipeline, slot)) table @ [((pipeline, slot), obs\<lparr>sl_verdict := v\<rparr>)]"
    by (auto simp: write_slot_state_def rbind_eq_Inr Let_def)
  show "read_slot_state table' pipeline slot = Some r"
    unfolding read_slot_state_def t r map_of_append other [unfolded split_def] by (simp add: map_add_def other)
  show "k \<noteq> (pipeline, slot) \<Longrightarrow> map_of table' k = map_of table k"
    unfolding t by (auto simp: map_add_def other split: option.split)
qed

end
