(* ===== verification/Slot_Recovery.thy ===== *)
theory Slot_Recovery
  imports Slot_Check
begin

text \<open>
  Acquisition recovery: a model of \<open>src/cdc_flight/recovery.py\<close>, of \<open>src/cdc_flight/acquisition.py\<close> and of
  \<open>recover_by_full_resnapshot\<close> in \<open>src/cdc_flight/reconcile.py\<close>.

  The state is what survives a crash: the journal row of the pipeline and namespace, the lifecycle table, the
  resume row, the memory of the slot, the recorded source catalog with its baseline, the alerts, and the files
  of the state directory by path. Every operation gives its result beside the state it leaves, so a state
  between two durable effects is the state of an interrupted run: \<open>rv_crash\<close> says at which of the fault
  anchors the process dies. PostgreSQL's answers, the answer of \<open>require_recovery_message_certificate\<close>,
  what the file system refuses to delete and the row counts of the destination are arguments. The two JSON columns
  of the journal are kept as the values they hold, \<open>None\<close> where they do not decode. Texts of messages and time
  stamps are left out.
\<close>

section \<open>The durable state\<close>

record recovery_row =
  jr_recovery_id :: string
  jr_decision :: string
  jr_phase :: string
  jr_slot_name :: "string option"
  jr_offset_path :: "string option"
  jr_snapshot_mode :: "string option"
  jr_forget_catalog :: bool
  jr_tables_marked :: int
  jr_captured :: "string list option"
  jr_state_dir :: "string option"
  jr_resolution :: "json option"

datatype occurrence =
    SlotOccurrence "string \<times> string \<times> string \<times> slot_row"
  | RecoveryOccurrence string string   \<comment> \<open>recovery id and decision\<close>

record acquisition_alert =
  aa_severity :: string
  aa_code :: string
  aa_condition :: string
  aa_occurrence :: "occurrence option"
  aa_pending :: bool
  aa_journal_id :: "string option"

record health_episode =
  he_episode_id :: int
  he_state :: string
  he_confirmed_lsn :: "int option"

record acquisition_world =
  aq_journal :: "recovery_row option"
  aq_tables :: control_store
  aq_row :: "offset_row option"
  aq_slots :: slot_table
  aq_relations :: "(string \<times> string) list"   \<comment> \<open>\<open>source_relations\<close>: pipeline and relation\<close>
  aq_baseline :: "(string, string) dict"
  aq_health :: "(string, health_episode) dict"
  aq_alerts :: "acquisition_alert list"
  aq_files :: "(string, offset_file) dict"

datatype recovery_error =
    RecoveryFailed
  | JournalState state_error
  | ReceiptRefused
  | MessageObligationUnresolved
  | LifecycleRefused lifecycle_error
  | ResumeRowUnusable offset_error
  | UnlinkFailed
  | LastLsnMissing
  | ResnapshotDisabled
  | NoSlotReceipt
  | Interrupted

type_synonym 'a recovery_result = "(recovery_error + 'a) \<times> acquisition_world"

definition wbind ::
  "'a recovery_result \<Rightarrow> ('a \<Rightarrow> acquisition_world \<Rightarrow> 'b recovery_result) \<Rightarrow> 'b recovery_result" where
  "wbind m f = (case m of (Inl e, w) \<Rightarrow> (Inl e, w) | (Inr x, w) \<Rightarrow> f x w)"

text \<open>The anchors at which a process may die.\<close>

datatype recovery_cut =
    QueueHalfWritten | RequestedRecorded | FileDeleted | FileDeletedRecorded | RowDeleted
  | RowDeletedRecorded | SlotRetired | ArmedRecorded

record recovery_env =
  rv_pipeline :: string
  rv_namespace :: string
  rv_read_dsn :: string
  rv_slot_owner_dsn :: string
  rv_new_id :: string                             \<comment> \<open>\<open>uuid4\<close>\<close>
  rv_certificate :: "json_object option"          \<comment> \<open>the certificate, \<open>None\<close> where it raises\<close>
  rv_observe :: "string \<Rightarrow> string \<Rightarrow> slot_observation"
  rv_undeletable :: "string \<Rightarrow> bool"
  rv_count :: "string \<Rightarrow> int option"              \<comment> \<open>rows of a destination table, if it exists\<close>
  rv_crash :: "recovery_cut \<Rightarrow> bool"

definition die_at :: "recovery_env \<Rightarrow> recovery_cut \<Rightarrow> acquisition_world \<Rightarrow> unit recovery_result" where
  "die_at env anchor w = (if rv_crash env anchor then Inl Interrupted else Inr (), w)"

section \<open>Alerts that are raised once\<close>

definition occurrence_current :: "acquisition_world \<Rightarrow> occurrence \<Rightarrow> bool" where
  \<comment> \<open>\<open>_validate_occurrence_binding\<close> on the two kinds used here\<close>
  "occurrence_current w occ =
     (case occ of
        SlotOccurrence (pipeline, slot, state) \<Rightarrow>
          (case read_slot_state (aq_slots w) pipeline slot of
             None \<Rightarrow> False
           | Some r \<Rightarrow> receipt_state r = (pipeline, slot, state))
      | RecoveryOccurrence rid decision \<Rightarrow>
          (case aq_journal w of
             None \<Rightarrow> False
           | Some j \<Rightarrow> jr_recovery_id j = rid \<and> jr_decision j = decision))"

definition same_alert :: "string \<Rightarrow> string \<Rightarrow> occurrence \<Rightarrow> acquisition_alert \<Rightarrow> bool" where
  "same_alert code condition occ a \<longleftrightarrow>
     aa_code a = code \<and> aa_condition a = condition \<and> aa_occurrence a = Some occ"

definition raise_alert_once ::
  "string \<Rightarrow> string \<Rightarrow> string \<Rightarrow> occurrence \<Rightarrow> bool \<Rightarrow> acquisition_world \<Rightarrow> recovery_error + acquisition_world" where
  "raise_alert_once severity code condition occ pending w =
     rbind (raise_if (\<not> occurrence_current w occ) ReceiptRefused) (\<lambda>_.
       Inr (if list_ex (same_alert code condition occ) (aq_alerts w) then w
            else w\<lparr>aq_alerts := aq_alerts w @
                   [\<lparr>aa_severity = severity, aa_code = code, aa_condition = condition, aa_occurrence = Some occ,
                     aa_pending = pending, aa_journal_id = None\<rparr>]\<rparr>))"

definition pending_recovery_alert_exists :: "string \<Rightarrow> occurrence \<Rightarrow> acquisition_world \<Rightarrow> bool" where
  "pending_recovery_alert_exists code occ w \<longleftrightarrow>
     list_ex (\<lambda>a. same_alert code code occ a \<and> aa_pending a) (aq_alerts w)"

definition mark_recovery_alert_journaled ::
  "string \<Rightarrow> occurrence \<Rightarrow> string \<Rightarrow> acquisition_world \<Rightarrow> acquisition_world" where
  "mark_recovery_alert_journaled code occ rid w =
     w\<lparr>aq_alerts := map (\<lambda>a. if same_alert code code occ a \<and> aa_pending a
                             then a\<lparr>aa_pending := False, aa_journal_id := Some rid\<rparr> else a) (aq_alerts w)\<rparr>"

section \<open>The journal\<close>

definition ORPHAN_DECISION :: string where "ORPHAN_DECISION = ''orphan_offsets_accepted''"

definition RESET_DECISION :: string where "RESET_DECISION = ''operator_reset''"

definition PHASES :: "string list" where
  "PHASES = [RECOVERY_REQUESTED, RECOVERY_FILE_DELETED, RECOVERY_ROW_DELETED, RECOVERY_ARMED]"

definition FORCED_SNAPSHOT_MODE :: string where "FORCED_SNAPSHOT_MODE = ''initial''"

record recovery_record =
  rr_recovery_id :: string
  rr_decision :: string
  rr_phase :: string
  rr_slot_name :: "string option"
  rr_offset_path :: "string option"
  rr_snapshot_mode :: "string option"
  rr_forget_catalog :: bool
  rr_tables_marked :: int
  rr_captured :: "string list"
  rr_state_dir :: "string option"
  rr_resolution :: "json_object option"

definition record_of :: "recovery_row \<Rightarrow> recovery_record" where
  "record_of j =
     \<lparr>rr_recovery_id = jr_recovery_id j, rr_decision = jr_decision j, rr_phase = jr_phase j,
      rr_slot_name = jr_slot_name j, rr_offset_path = jr_offset_path j,
      rr_snapshot_mode = jr_snapshot_mode j, rr_forget_catalog = jr_forget_catalog j,
      rr_tables_marked = jr_tables_marked j,
      rr_captured = (case jr_captured j of None \<Rightarrow> [] | Some c \<Rightarrow> c),
      rr_state_dir = jr_state_dir j,
      rr_resolution = (case jr_resolution j of Some (JObj ps) \<Rightarrow> Some ps | _ \<Rightarrow> None)\<rparr>"

definition recovery_read :: "acquisition_world \<Rightarrow> recovery_error + recovery_record option" where
  "recovery_read w =
     (case aq_journal w of
        None \<Rightarrow> Inr None
      | Some j \<Rightarrow> if jr_phase j \<notin> set PHASES then Inl RecoveryFailed else Inr (Some (record_of j)))"

definition recovery_check :: "string \<Rightarrow> string \<Rightarrow> recovery_error + unit" where
  "recovery_check frm to = (case machine_check ACQUISITION_RECOVERY frm to of
     Inl e \<Rightarrow> Inl (JournalState e) | Inr _ \<Rightarrow> Inr ())"

definition write_phase :: "string \<Rightarrow> string \<Rightarrow> acquisition_world \<Rightarrow> unit recovery_result" where
  "write_phase phase frm w =
     (case recovery_check frm phase of
        Inl e \<Rightarrow> (Inl e, w)
      | Inr _ \<Rightarrow> (Inr (), w\<lparr>aq_journal := map_option (\<lambda>j. j\<lparr>jr_phase := phase\<rparr>) (aq_journal w)\<rparr>))"

definition recovery_clear :: "acquisition_world \<Rightarrow> unit recovery_result" where
  "recovery_clear w =
     (case recovery_read w of
        Inl e \<Rightarrow> (Inl e, w)
      | Inr None \<Rightarrow> (Inr (), w)
      | Inr (Some r) \<Rightarrow>
          (case recovery_check (rr_phase r) RECOVERY_ABSENT of
             Inl e \<Rightarrow> (Inl e, w)
           | Inr _ \<Rightarrow> (Inr (), w\<lparr>aq_journal := None\<rparr>)))"

section \<open>Requesting a recovery\<close>

record begin_args =
  bg_decision :: string
  bg_slot_name :: string
  bg_offset_path :: string
  bg_captured :: "(string \<times> string \<times> string) list"
  bg_forget_catalog :: bool
  bg_receipt :: slot_receipt
  bg_state_dir :: "string option"
  bg_severity :: string
  bg_expected_identity :: json

definition prejournal_occurrence :: "slot_receipt \<Rightarrow> occurrence" where
  "prejournal_occurrence r = SlotOccurrence (receipt_state r)"

text \<open>The position that the journal keeps: the one of the source evidence, or else of the resume row.\<close>

definition evidence_fence :: "json_object \<Rightarrow> json" where
  "evidence_fence resolution =
     (case json_get resolution ''source_evidence'' of JObj ps \<Rightarrow> json_get ps ''after_lsn'' | _ \<Rightarrow> JNull)"

definition source_fence :: "json_object \<Rightarrow> resume_point option \<Rightarrow> offset_error + json" where
  "source_fence resolution point =
     (case (evidence_fence resolution, point) of
        (JNull, Some p) \<Rightarrow>
          if pt_last_lsn p > 0 then Inr (JInt (pt_last_lsn p))
          else (case json_get (pt_offset p) ''lsn'' of
                  JNull \<Rightarrow> Inr JNull
                | j \<Rightarrow> rbind (int_value j) (\<lambda>n. Inr (JInt n)))
      | (known, _) \<Rightarrow> Inr known)"

text \<open>What is checked before the transaction: the edge, the receipt, the certificate, the resume row.\<close>

definition begin_admission :: "recovery_env \<Rightarrow> begin_args \<Rightarrow> acquisition_world \<Rightarrow> recovery_error + json_object" where
  "begin_admission env a w =
     rbind (recovery_read w) (\<lambda>existing.
     rbind (recovery_check (case existing of None \<Rightarrow> RECOVERY_ABSENT | Some r \<Rightarrow> rr_phase r) RECOVERY_REQUESTED) (\<lambda>_.
     rbind (raise_if (sp_pipeline (bg_receipt a) \<noteq> rv_pipeline env \<or>
                      sp_slot_name (bg_receipt a) \<noteq> bg_slot_name a) ReceiptRefused) (\<lambda>_.
     rbind (raise_if (map_option receipt_state (read_slot_state (aq_slots w) (rv_pipeline env) (bg_slot_name a))
                      \<noteq> Some (receipt_state (bg_receipt a))) ReceiptRefused) (\<lambda>_.
     case rv_certificate env of
       None \<Rightarrow> Inl MessageObligationUnresolved
     | Some resolution \<Rightarrow>
         (case (if bg_decision a = RESET_DECISION then Inr None else read_resume_point (aq_row w)) of
            Inl e \<Rightarrow> Inl (ResumeRowUnusable e)
          | Inr point \<Rightarrow>
              (case source_fence resolution point of
                 Inl e \<Rightarrow> Inl (ResumeRowUnusable e)
               | Inr position \<Rightarrow>
                   Inr (AList.update ''expected_source_identity'' (bg_expected_identity a)
                          (AList.update ''source_fence_lsn'' position resolution))))))))"

definition forget_catalog_rows :: "string \<Rightarrow> acquisition_world \<Rightarrow> recovery_error + acquisition_world" where
  \<comment> \<open>the DELETE of \<open>source_relations\<close>, then \<open>catalog_baseline.forget\<close>\<close>
  "forget_catalog_rows pipeline w =
     (let w1 = w\<lparr>aq_relations := filter (\<lambda>(p, _). p \<noteq> pipeline) (aq_relations w)\<rparr> in
      case map_of (aq_baseline w1) pipeline of
        None \<Rightarrow> Inr w1
      | Some state \<Rightarrow>
          (case rbind (machine_parse CATALOG_BASELINE state) (\<lambda>was.
                  if was = BASELINE_ABSENT then Inr False
                  else rbind (machine_check CATALOG_BASELINE was BASELINE_ABSENT) (\<lambda>_. Inr True)) of
             Inl e \<Rightarrow> Inl (JournalState e)
           | Inr False \<Rightarrow> Inr w1
           | Inr True \<Rightarrow> Inr (w1\<lparr>aq_baseline := filter (\<lambda>(p, _). p \<noteq> pipeline) (aq_baseline w1)\<rparr>)))"

text \<open>The statements between BEGIN and COMMIT.\<close>

definition begin_transaction ::
  "recovery_env \<Rightarrow> begin_args \<Rightarrow> json_object \<Rightarrow> acquisition_world \<Rightarrow>
   recovery_error + recovery_record \<times> acquisition_world" where
  "begin_transaction env a resolution w =
     (case (if bg_decision a = RESET_DECISION then reset_all (rv_pipeline env) (bg_decision a) (aq_tables w)
            else (Inr [], aq_tables w)) of
        (Inl e, _) \<Rightarrow> Inl (LifecycleRefused e)
      | (Inr _, s1) \<Rightarrow>
          (case request_snapshot (rv_pipeline env) (bg_captured a) (bg_decision a) s1 of
             (Inl e, _) \<Rightarrow> Inl (LifecycleRefused e)
           | (Inr marked, s2) \<Rightarrow>
               rbind (if bg_forget_catalog a then forget_catalog_rows (rv_pipeline env) w else Inr w) (\<lambda>w1.
                 let captured = map (\<lambda>(schema, table, _). qualified_name schema table) (bg_captured a) in
                 Inr (\<lparr>rr_recovery_id = rv_new_id env, rr_decision = bg_decision a, rr_phase = RECOVERY_REQUESTED,
                       rr_slot_name = Some (bg_slot_name a), rr_offset_path = Some (bg_offset_path a),
                       rr_snapshot_mode = Some FORCED_SNAPSHOT_MODE, rr_forget_catalog = bg_forget_catalog a,
                       rr_tables_marked = int marked, rr_captured = captured, rr_state_dir = bg_state_dir a,
                       rr_resolution = Some resolution\<rparr>,
                      w1\<lparr>aq_tables := s2,
                         aq_journal := Some \<lparr>jr_recovery_id = rv_new_id env, jr_decision = bg_decision a,
                           jr_phase = RECOVERY_REQUESTED, jr_slot_name = Some (bg_slot_name a),
                           jr_offset_path = Some (bg_offset_path a), jr_snapshot_mode = Some FORCED_SNAPSHOT_MODE,
                           jr_forget_catalog = bg_forget_catalog a, jr_tables_marked = int marked,
                           jr_captured = Some captured, jr_state_dir = bg_state_dir a,
                           jr_resolution = Some (JObj resolution)\<rparr>\<rparr>))))"

definition begin_failed :: "recovery_error \<Rightarrow> begin_args \<Rightarrow> acquisition_world \<Rightarrow> recovery_record recovery_result" where
  \<comment> \<open>after the rollback: the failure reaches the operator under the key of the slot\<close>
  "begin_failed e a w =
     (case raise_alert_once (bg_severity a) (bg_decision a) (bg_decision a)
             (prejournal_occurrence (bg_receipt a)) True w of
        Inl e' \<Rightarrow> (Inl e', w)
      | Inr w' \<Rightarrow> (Inl e, w'))"

definition recovery_begin :: "recovery_env \<Rightarrow> begin_args \<Rightarrow> acquisition_world \<Rightarrow> recovery_record recovery_result" where
  "recovery_begin env a w =
     (case begin_admission env a w of
        Inl e \<Rightarrow> (Inl e, w)
      | Inr resolution \<Rightarrow>
          let slot_key = prejournal_occurrence (bg_receipt a);
              pending = pending_recovery_alert_exists (bg_decision a) slot_key w in
          if rv_crash env QueueHalfWritten then (Inl Interrupted, w)
          else
            (case begin_transaction env a resolution w of
               Inl e \<Rightarrow> begin_failed e a w
             | Inr (r, w1) \<Rightarrow>
                 (case raise_alert_once (bg_severity a) (bg_decision a) (bg_decision a)
                         (if pending then slot_key
                          else RecoveryOccurrence (rr_recovery_id r) (bg_decision a)) False w1 of
                    Inl e \<Rightarrow> begin_failed e a w1
                  | Inr w2 \<Rightarrow>
                      let w3 = (if pending
                                then mark_recovery_alert_journaled (bg_decision a) slot_key (rr_recovery_id r) w2
                                else w2) in
                      wbind (die_at env RequestedRecorded w3) (\<lambda>_ w4. (Inr r, w4)))))"

section \<open>The ladder\<close>

record resume_report =
  rs_resumed_from :: string
  rs_phase :: string
  rs_slot :: "string option"
  rs_offset_file :: "string option"
  rs_intent_cleared :: bool

definition REPLAY_INTENT_FILE_NAME :: string where
  "REPLAY_INTENT_FILE_NAME = ''.offsets.replay.intent''"

definition in_directory :: "string \<Rightarrow> string \<Rightarrow> bool" where
  "in_directory d file \<longleftrightarrow> take (length d + 1) file = d @ ''/''"

definition rmtree :: "recovery_env \<Rightarrow> string \<Rightarrow> acquisition_world \<Rightarrow> acquisition_world" where
  \<comment> \<open>with \<open>ignore_errors\<close>; the empty directory is made again\<close>
  "rmtree env d w = w\<lparr>aq_files := filter (\<lambda>(p, _). \<not> in_directory d p \<or> rv_undeletable env p) (aq_files w)\<rparr>"

definition unlink :: "recovery_env \<Rightarrow> string \<Rightarrow> acquisition_world \<Rightarrow> unit recovery_result" where
  "unlink env file w =
     (if dict_has (aq_files w) file \<and> rv_undeletable env file then (Inl UnlinkFailed, w)
      else (Inr (), w\<lparr>aq_files := filter (\<lambda>(p, _). p \<noteq> file) (aq_files w)\<rparr>))"

type_synonym rung = "recovery_record \<times> resume_report"

definition delete_offset_file ::
  "recovery_env \<Rightarrow> recovery_record \<Rightarrow> resume_report \<Rightarrow> acquisition_world \<Rightarrow> resume_report recovery_result" where
  "delete_offset_file env r report w =
     (let file = (if truthy_str (rr_offset_path r) then rr_offset_path r else None);
          removed = (case file of None \<Rightarrow> False | Some p \<Rightarrow> dict_has (aq_files w) p);
          report' = report\<lparr>rs_offset_file := Some (if removed then ''removed'' else ''absent'')\<rparr> in
      if truthy_str (rr_state_dir r) then
        let d = the (rr_state_dir r) in
        (Inr (report'\<lparr>rs_intent_cleared := dict_has (aq_files w) (d @ ''/'' @ REPLAY_INTENT_FILE_NAME)\<rparr>),
         rmtree env d w)
      else case file of
             None \<Rightarrow> (Inr report', w)
           | Some p \<Rightarrow> wbind (unlink env p w) (\<lambda>_ w1. (Inr report', w1)))"

definition step_file :: "recovery_env \<Rightarrow> rung \<Rightarrow> acquisition_world \<Rightarrow> rung recovery_result" where
  "step_file env x w =
     (let (r, report) = x in
      if rr_phase r \<noteq> RECOVERY_REQUESTED then (Inr x, w)
      else
        wbind (delete_offset_file env r report w) (\<lambda>report' w1.
        wbind (die_at env FileDeleted w1) (\<lambda>_ w2.
        wbind (write_phase RECOVERY_FILE_DELETED RECOVERY_REQUESTED w2) (\<lambda>_ w3.
        wbind (die_at env FileDeletedRecorded w3) (\<lambda>_ w4.
          (Inr (r\<lparr>rr_phase := RECOVERY_FILE_DELETED\<rparr>, report'), w4))))))"

definition step_row :: "recovery_env \<Rightarrow> rung \<Rightarrow> acquisition_world \<Rightarrow> rung recovery_result" where
  "step_row env x w =
     (let (r, report) = x in
      if rr_phase r \<noteq> RECOVERY_FILE_DELETED then (Inr x, w)
      else
        wbind (die_at env RowDeleted (w\<lparr>aq_row := None\<rparr>)) (\<lambda>_ w2.
        wbind (write_phase RECOVERY_ROW_DELETED RECOVERY_FILE_DELETED w2) (\<lambda>_ w3.
        wbind (die_at env RowDeletedRecorded w3) (\<lambda>_ w4.
          (Inr (r\<lparr>rr_phase := RECOVERY_ROW_DELETED\<rparr>, report), w4)))))"

definition retire_the_slot_or_fail :: "recovery_env \<Rightarrow> string option \<Rightarrow> recovery_error + string" where
  "retire_the_slot_or_fail env slot_name =
     (if \<not> truthy_str slot_name then Inr ''absent''
      else case slot_retirement_status (rv_slot_owner_dsn env) (the slot_name)
                  (rv_observe env (rv_slot_owner_dsn env) (the slot_name)) of
             Inl _ \<Rightarrow> Inl RecoveryFailed
           | Inr action \<Rightarrow> if action \<in> {''retained'', ''absent''} then Inr action else Inl RecoveryFailed)"

definition step_slot :: "recovery_env \<Rightarrow> rung \<Rightarrow> acquisition_world \<Rightarrow> rung recovery_result" where
  "step_slot env x w =
     (let (r, report) = x in
      if rr_phase r \<noteq> RECOVERY_ROW_DELETED then (Inr x, w)
      else
        case retire_the_slot_or_fail env (rr_slot_name r) of
          Inl e \<Rightarrow> (Inl e, w)
        | Inr action \<Rightarrow>
            wbind (die_at env SlotRetired w) (\<lambda>_ w2.
            wbind (write_phase RECOVERY_ARMED RECOVERY_ROW_DELETED w2) (\<lambda>_ w3.
            wbind (die_at env ArmedRecorded w3) (\<lambda>_ w4.
              (Inr (r\<lparr>rr_phase := RECOVERY_ARMED\<rparr>, report\<lparr>rs_slot := Some action\<rparr>), w4)))))"

definition recovery_resume ::
  "recovery_env \<Rightarrow> recovery_record \<Rightarrow> acquisition_world \<Rightarrow> rung recovery_result" where
  \<comment> \<open>the record is the caller's: its phase moves with the journal's\<close>
  "recovery_resume env r w =
     (case rv_certificate env of
        None \<Rightarrow> (Inl MessageObligationUnresolved, w)
      | Some _ \<Rightarrow>
          wbind (step_file env (r, \<lparr>rs_resumed_from = rr_phase r, rs_phase = rr_phase r, rs_slot = None,
                                     rs_offset_file = None, rs_intent_cleared = False\<rparr>) w) (\<lambda>x1 w1.
          wbind (step_row env x1 w1) (\<lambda>x2 w2.
          wbind (step_slot env x2 w2) (\<lambda>(r', report) w3.
            if rr_phase r' \<noteq> RECOVERY_ARMED then (Inl RecoveryFailed, w3)
            else (Inr (r', report\<lparr>rs_phase := rr_phase r',
                     rs_slot := Some (case rs_slot report of None \<Rightarrow> ''already retained by an earlier attempt'' | Some s \<Rightarrow> s),
                     rs_offset_file := Some (case rs_offset_file report of None \<Rightarrow> ''already removed by an earlier attempt''
                                             | Some f \<Rightarrow> f)\<rparr>), w3)))))"

section \<open>Completion\<close>

record recovery_completion =
  cm_cleared :: bool
  cm_recovery_id :: string
  cm_still_owed :: "string list"
  cm_has_resume_point :: bool
  cm_reason :: string

definition complete_if_ready ::
  "recovery_env \<Rightarrow> recovery_record \<Rightarrow> string list \<Rightarrow> bool \<Rightarrow> acquisition_world \<Rightarrow> recovery_completion recovery_result" where
  "complete_if_ready env r verified_empty retained_slot w =
     (case read_all (aq_tables w) (rv_pipeline env) of
        Inl e \<Rightarrow> (Inl (LifecycleRefused e), w)
      | Inr states \<Rightarrow>
          let obligation = (if rr_captured r \<noteq> [] then rr_captured r else sort (map fst states));
              still_owed = filter (\<lambda>name. map_of states name \<noteq> Some LIFECYCLE_COMPLETE) obligation;
              has_resume = (aq_row w \<noteq> None);
              empty_discharged = (obligation \<noteq> [] \<and> set obligation \<subseteq> set verified_empty);
              answer = (\<lambda>cleared reason. \<lparr>cm_cleared = cleared, cm_recovery_id = rr_recovery_id r,
                 cm_still_owed = (if cleared then [] else still_owed), cm_has_resume_point = has_resume,
                 cm_reason = reason\<rparr>) in
          if still_owed \<noteq> [] \<or> \<not> (has_resume \<or> empty_discharged \<or> retained_slot) then
            (Inr (answer False (if still_owed \<noteq> [] then ''captured table(s) are not complete''
               else if \<not> retained_slot then ''the retained main slot is not yet recorded as a stream handoff''
               else ''the destination has no resume point'')), w)
          else
            wbind (recovery_clear w) (\<lambda>_ w1.
              (Inr (answer True (if has_resume then ''every captured table reached a terminal lifecycle state''
                 else ''every captured table was verified empty at the source'')), w1)))"

definition discharge_replay_intent_for_recovery ::
  "recovery_env \<Rightarrow> string \<Rightarrow> acquisition_world \<Rightarrow> bool recovery_result" where
  \<comment> \<open>gives whether the hint was cleared\<close>
  "discharge_replay_intent_for_recovery env intent w =
     (case rv_certificate env of
        None \<Rightarrow> (Inl MessageObligationUnresolved, w)
      | Some _ \<Rightarrow>
          if dict_has (aq_files w) intent then wbind (unlink env intent w) (\<lambda>_ w1. (Inr True, w1))
          else (Inr False, w))"

section \<open>Acquisition\<close>

definition partition_dot :: "string \<Rightarrow> string \<times> string" where
  \<comment> \<open>\<open>str.partition\<close> at the first dot, without the dot\<close>
  "partition_dot s = (takeWhile (\<lambda>c. c \<noteq> CHR ''.'') s, drop 1 (dropWhile (\<lambda>c. c \<noteq> CHR ''.'') s))"

definition captured_tables ::
  "(string \<Rightarrow> string \<Rightarrow> string) \<Rightarrow> string \<Rightarrow> string \<Rightarrow> string list \<Rightarrow> acquisition_world \<Rightarrow>
   (string \<times> string \<times> string) list" where
  \<comment> \<open>the first argument is \<open>naming.destination_table\<close> with its prefix\<close>
  "captured_tables destination_table pipeline default_schema tables w =
     (let known = foldl (\<lambda>d (schema, table, r). AList.update (qualified_name schema table) (sr_target_table r) d)
                    [] (pipeline_rows (aq_tables w) pipeline) in
      map (\<lambda>name.
        let (schema, table) = (case partition_dot name of (s, t) \<Rightarrow> if t = [] then (default_schema, name) else (s, t));
            target = map_of known (qualified_name schema table) in
        (schema, table, if truthy_str target then the target else destination_table schema table)) tables)"

definition resume_any_journalled_recovery ::
  "recovery_env \<Rightarrow> acquisition_world \<Rightarrow> rung option recovery_result" where
  "resume_any_journalled_recovery env w =
     (case recovery_read w of
        Inl e \<Rightarrow> (Inl e, w)
      | Inr None \<Rightarrow> (Inr None, w)
      | Inr (Some r) \<Rightarrow>
          if rr_phase r = RECOVERY_ARMED then
            let slot = (if truthy_str (rr_slot_name r) then the (rr_slot_name r) else []) in
            (case slot_retirement_status (rv_slot_owner_dsn env) slot (rv_observe env (rv_slot_owner_dsn env) slot) of
               Inl _ \<Rightarrow> (Inl MessageObligationUnresolved, w)
             | Inr action \<Rightarrow>
                 (Inr (Some (r, \<lparr>rs_resumed_from = rr_phase r, rs_phase = rr_phase r, rs_slot = Some action,
                                 rs_offset_file = None, rs_intent_cleared = False\<rparr>)), w))
          else wbind (recovery_resume env r w) (\<lambda>x w1. (Inr (Some x), w1)))"

definition observe_source_health ::
  "string \<Rightarrow> string \<Rightarrow> int option \<Rightarrow> acquisition_world \<Rightarrow> acquisition_world" where
  "observe_source_health pipeline state lsn w =
     (if state \<notin> {''reachable'', ''dark''} then w
      else
        let episode = (case map_of (aq_health w) pipeline of
              None \<Rightarrow> \<lparr>he_episode_id = (if state = ''reachable'' then 0 else 1), he_state = state, he_confirmed_lsn = lsn\<rparr>
            | Some e \<Rightarrow>
                \<lparr>he_episode_id = (if state = ''dark'' \<and> he_state e \<noteq> ''dark'' then he_episode_id e + 1 else he_episode_id e),
                 he_state = state, he_confirmed_lsn = lsn\<rparr>) in
        w\<lparr>aq_health := AList.update pipeline episode (aq_health w)\<rparr>)"

definition destination_holds_rows ::
  "recovery_env \<Rightarrow> (string \<times> string \<times> string) list \<Rightarrow> (string, int) dict" where
  "destination_holds_rows env tables =
     foldl (\<lambda>held (schema, table, target).
       case rv_count env target of
         None \<Rightarrow> held
       | Some count \<Rightarrow> if count \<noteq> 0 then AList.update (qualified_name schema table) count held else held) [] tables"

definition same_retained_identity :: "slot_row \<Rightarrow> slot_observation \<Rightarrow> bool" where
  "same_retained_identity prev obs \<longleftrightarrow>
     sl_system_identifier prev \<noteq> None \<and> sl_timeline_id prev \<noteq> None \<and>
     so_system_identifier obs = sl_system_identifier prev \<and> so_timeline_id obs = sl_timeline_id prev \<and>
     sl_confirmed_flush_lsn prev \<noteq> None \<and> so_confirmed_flush_lsn obs = sl_confirmed_flush_lsn prev \<and>
     \<not> known_below (so_restart_lsn obs) (sl_restart_lsn prev)"

definition retained_handoff :: "int option \<Rightarrow> slot_observation \<Rightarrow> slot_row option \<Rightarrow> bool \<Rightarrow> bool" where
  "retained_handoff durable_lsn obs previous recovery_in_progress \<longleftrightarrow>
     observable obs \<and> so_slot_exists obs \<and> so_confirmed_flush_lsn obs \<noteq> None \<and> \<not> wal_unusable obs \<and>
     durable_lsn = None \<and>
     (recovery_in_progress \<or>
      (case previous of
         None \<Rightarrow> False
       | Some q \<Rightarrow> sl_verdict q = Some ''recovery_retained'' \<and> same_retained_identity q obs))"

definition recover_by_full_resnapshot ::
  "recovery_env \<Rightarrow> begin_args \<Rightarrow> acquisition_world \<Rightarrow> rung recovery_result" where
  \<comment> \<open>the identity it expects is in the arguments\<close>
  "recover_by_full_resnapshot env a w = wbind (recovery_begin env a w) (\<lambda>r w1. recovery_resume env r w1)"

record acquisition_config =
  ac_slot_name :: string
  ac_state_dir :: string
  ac_captured :: "(string \<times> string \<times> string) list"
  ac_resnapshot_enabled :: bool

definition offset_file_path :: "acquisition_config \<Rightarrow> string" where
  "offset_file_path cfg = ac_state_dir cfg @ ''/offsets.dat''"

definition optional_text :: "string option \<Rightarrow> json" where
  "optional_text t = (case t of None \<Rightarrow> JNull | Some s \<Rightarrow> JStr s)"

definition optional_int :: "int option \<Rightarrow> json" where
  "optional_int n = (case n of None \<Rightarrow> JNull | Some i \<Rightarrow> JInt i)"

definition expected_identity :: "slot_observation \<Rightarrow> slot_receipt \<Rightarrow> json" where
  "expected_identity obs receipt =
     JObj [(''system_identifier'', optional_text (if so_system_identifier obs \<noteq> None then so_system_identifier obs
              else sl_system_identifier (sp_row receipt))),
           (''timeline_id'', optional_int (if so_timeline_id obs \<noteq> None then so_timeline_id obs
              else sl_timeline_id (sp_row receipt)))]"

definition plain_alert :: "string \<Rightarrow> string \<Rightarrow> acquisition_alert" where
  "plain_alert code marker = \<lparr>aa_severity = ''critical'', aa_code = code, aa_condition = marker,
     aa_occurrence = None, aa_pending = False, aa_journal_id = None\<rparr>"

definition put_slot_state ::
  "recovery_env \<Rightarrow> string \<Rightarrow> slot_row \<Rightarrow> string \<Rightarrow> acquisition_world \<Rightarrow> slot_receipt recovery_result" where
  "put_slot_state env slot observation verdict w =
     (case write_slot_state (rv_pipeline env) slot observation (Some verdict) (aq_slots w) of
        Inl e \<Rightarrow> (Inl (JournalState e), w)
      | Inr (receipt, table) \<Rightarrow> (Inr receipt, w\<lparr>aq_slots := table\<rparr>))"

text \<open>\<open>check_the_slot\<close>, in its order: the verdict with its alerts, the memory of the slot, and the recovery
  with what it leaves in that memory.\<close>

definition slot_decision ::
  "recovery_env \<Rightarrow> acquisition_config \<Rightarrow> int option \<Rightarrow> slot_observation \<Rightarrow> bool \<Rightarrow> acquisition_world \<Rightarrow>
   recovery_error + slot_verdict" where
  "slot_decision env cfg durable_lsn obs in_progress w =
     (let previous = map_option sp_row (read_slot_state (aq_slots w) (rv_pipeline env) (ac_slot_name cfg));
          rows = (if durable_lsn = None then Some (destination_holds_rows env (ac_captured cfg)) else None) in
      case (if retained_handoff durable_lsn obs previous in_progress
            then make_verdict ''recovery_retained'' True False False None
            else check_slot durable_lsn obs previous rows) of
        Inl e \<Rightarrow> Inl (JournalState e)
      | Inr v \<Rightarrow> Inr v)"

definition refusal_alert ::
  "acquisition_config \<Rightarrow> slot_observation \<Rightarrow> slot_verdict \<Rightarrow> acquisition_world \<Rightarrow> acquisition_world" where
  "refusal_alert cfg obs v w =
     (let marker = condition_marker (ac_slot_name cfg) (vd_decision v) (so_confirmed_flush_lsn obs) in
      if vd_refuse v \<and> vd_decision v = ''no_durable_destination_row'' \<and>
         \<not> list_ex (\<lambda>a. aa_code a = vd_decision v \<and> aa_condition a = marker) (aq_alerts w)
      then w\<lparr>aq_alerts := aq_alerts w @ [plain_alert (vd_decision v) marker]\<rparr> else w)"

definition defer_to_orphan :: "bool \<Rightarrow> slot_verdict \<Rightarrow> slot_verdict" where
  "defer_to_orphan orphan_file v =
     (if vd_resnapshot v \<and> orphan_file \<and> vd_decision v = ''no_durable_destination_row''
      then v\<lparr>vd_ok := False, vd_resnapshot := False, vd_refuse := True\<rparr> else v)"

definition recovery_args ::
  "acquisition_config \<Rightarrow> slot_observation \<Rightarrow> slot_verdict \<Rightarrow> slot_receipt \<Rightarrow> begin_args" where
  "recovery_args cfg obs v receipt =
     \<lparr>bg_decision = vd_decision v, bg_slot_name = ac_slot_name cfg, bg_offset_path = offset_file_path cfg,
      bg_captured = ac_captured cfg, bg_forget_catalog = (vd_decision v \<in> set FORGET_CATALOG_DECISIONS),
      bg_receipt = receipt, bg_state_dir = None, bg_severity = ''critical'',
      bg_expected_identity = expected_identity obs receipt\<rparr>"

definition start_recovery ::
  "recovery_env \<Rightarrow> acquisition_config \<Rightarrow> slot_observation \<Rightarrow> int option \<Rightarrow> slot_verdict \<Rightarrow> slot_receipt \<Rightarrow>
   acquisition_world \<Rightarrow> rung recovery_result" where
  "start_recovery env cfg obs durable_lsn v receipt w =
     wbind (recover_by_full_resnapshot env (recovery_args cfg obs v receipt) w) (\<lambda>x w1.
       let recorded = recorded_observation obs durable_lsn;
           kept = (rs_slot (snd x) = Some ''retained'') in
       wbind (put_slot_state env (ac_slot_name cfg)
                (if kept then recorded
                 else recorded\<lparr>sl_restart_lsn := None, sl_confirmed_flush_lsn := None, sl_durable_lsn := None\<rparr>)
                (if kept then ''recovery_retained'' else vd_decision v) w1) (\<lambda>_ w2. (Inr x, w2)))"

definition act_on_verdict ::
  "recovery_env \<Rightarrow> acquisition_config \<Rightarrow> bool \<Rightarrow> slot_observation \<Rightarrow> int option \<Rightarrow> slot_verdict \<Rightarrow> acquisition_world \<Rightarrow>
   (slot_verdict \<times> rung option) recovery_result" where
  "act_on_verdict env cfg orphan_file obs durable_lsn v0 w =
     (let w1 = refusal_alert cfg obs v0 w;
          v = defer_to_orphan orphan_file v0 in
      if \<not> observable obs then
        if vd_resnapshot v then (Inl NoSlotReceipt, w1) else (Inr (v, None), w1)
      else
        wbind (put_slot_state env (ac_slot_name cfg) (recorded_observation obs durable_lsn) (vd_decision v) w1)
          (\<lambda>receipt w2.
            if \<not> vd_resnapshot v then (Inr (v, None), w2)
            else if \<not> ac_resnapshot_enabled cfg then
              (Inl ResnapshotDisabled, w2\<lparr>aq_alerts := aq_alerts w2 @ [plain_alert (vd_decision v) []]\<rparr>)
            else wbind (start_recovery env cfg obs durable_lsn v receipt w2) (\<lambda>x w3. (Inr (v, Some x), w3))))"

definition check_the_slot ::
  "recovery_env \<Rightarrow> acquisition_config \<Rightarrow> bool \<Rightarrow> bool \<Rightarrow> acquisition_world \<Rightarrow>
   (slot_verdict \<times> rung option) recovery_result" where
  "check_the_slot env cfg orphan_file in_progress w =
     (if (case aq_row w of None \<Rightarrow> False | Some r \<Rightarrow> or_last_lsn r = None) then (Inl LastLsnMissing, w)
      else
        let durable_lsn = (case aq_row w of None \<Rightarrow> None | Some r \<Rightarrow> or_last_lsn r);
            obs = rv_observe env (rv_read_dsn env) (ac_slot_name cfg);
            w1 = (if observable obs
                  then observe_source_health (rv_pipeline env) ''reachable'' (so_confirmed_flush_lsn obs) w else w) in
        case slot_decision env cfg durable_lsn obs in_progress w1 of
          Inl e \<Rightarrow> (Inl e, w1)
        | Inr v \<Rightarrow> act_on_verdict env cfg orphan_file obs durable_lsn v w1)"

text \<open>The two recoveries an operator asks for: the reset, and the acceptance of an orphan file (\<open>pipeline.py\<close>).\<close>

definition operator_recovery ::
  "recovery_env \<Rightarrow> acquisition_config \<Rightarrow> string \<Rightarrow> (slot_receipt \<Rightarrow> begin_args) \<Rightarrow> acquisition_world \<Rightarrow> rung recovery_result" where
  \<comment> \<open>both first write the last observation again, with the verdict of the decision\<close>
  "operator_recovery env cfg verdict args w =
     (let previous = (case read_slot_state (aq_slots w) (rv_pipeline env) (ac_slot_name cfg) of
            None \<Rightarrow> empty_slot_row | Some r \<Rightarrow> sp_row r) in
      wbind (put_slot_state env (ac_slot_name cfg) previous verdict w) (\<lambda>receipt w1.
      wbind (recovery_begin env (args receipt) w1) (\<lambda>r w2. recovery_resume env r w2)))"

definition journal_the_reset :: "recovery_env \<Rightarrow> acquisition_config \<Rightarrow> acquisition_world \<Rightarrow> rung recovery_result" where
  "journal_the_reset env cfg w =
     operator_recovery env cfg ''fresh_start'' (\<lambda>receipt.
       \<lparr>bg_decision = RESET_DECISION, bg_slot_name = ac_slot_name cfg, bg_offset_path = offset_file_path cfg,
        bg_captured = ac_captured cfg, bg_forget_catalog = True, bg_receipt = receipt,
        bg_state_dir = Some (ac_state_dir cfg), bg_severity = ''warning'', bg_expected_identity = JNull\<rparr>) w"

definition accept_orphan_offsets :: "recovery_env \<Rightarrow> acquisition_config \<Rightarrow> acquisition_world \<Rightarrow> rung recovery_result" where
  "accept_orphan_offsets env cfg w =
     operator_recovery env cfg ''no_durable_destination_row'' (\<lambda>receipt.
       \<lparr>bg_decision = ORPHAN_DECISION, bg_slot_name = ac_slot_name cfg, bg_offset_path = offset_file_path cfg,
        bg_captured = ac_captured cfg, bg_forget_catalog = False, bg_receipt = receipt,
        bg_state_dir = None, bg_severity = ''critical'', bg_expected_identity = JNull\<rparr>) w"

end
