(* ===== verification/Recovery_Ladder.thy ===== *)
theory Recovery_Ladder
  imports Slot_Recovery
begin

text \<open>
  What acquisition recovery guarantees, over the model of \<open>Slot_Recovery\<close>.

  The lemmas show that a recovery is announced together with the tables it owes, that it reaches its last phase
  from every interrupted attempt (the locale \<open>resumable\<close>, interpreted as \<open>ladder\<close>), that no interruption leaves an
  offset file without a resume row, that the journal is cleared only on evidence, and that a rebuild starts only for
  a cause.
\<close>

section \<open>The ladder under crashes\<close>

text \<open>A procedure that is started again after every interruption: what every attempt keeps, whether it ends or not,
  and what an undisturbed attempt reaches from there.\<close>

locale resumable =
  fixes attempt :: "'e \<Rightarrow> 's \<Rightarrow> 's"
    and admissible :: "'e \<Rightarrow> bool"
    and undisturbed :: "'e \<Rightarrow> bool"
    and inv :: "'s \<Rightarrow> bool"
    and goal :: "'s \<Rightarrow> bool"
  assumes attempt_inv: "inv s \<Longrightarrow> admissible e \<Longrightarrow> inv (attempt e s)"
    and attempt_goal: "inv s \<Longrightarrow> admissible e \<Longrightarrow> undisturbed e \<Longrightarrow> goal (attempt e s)"
    and goal_kept: "goal s \<Longrightarrow> inv s \<Longrightarrow> admissible e \<Longrightarrow> goal (attempt e s)"
begin

definition attempts :: "'e list \<Rightarrow> 's \<Rightarrow> 's" where
  "attempts es s = foldl (\<lambda>s e. attempt e s) s es"

lemma attempts_inv: "inv s \<Longrightarrow> list_all admissible es \<Longrightarrow> inv (attempts es s)"
  by (induction es arbitrary: s) (simp_all add: attempts_def attempt_inv)

lemma attempts_keep_goal: "goal s \<Longrightarrow> inv s \<Longrightarrow> list_all admissible es \<Longrightarrow> goal (attempts es s)"
  by (induction es arbitrary: s) (simp_all add: attempts_def attempt_inv goal_kept)

lemma attempts_append: "attempts (es @ fs) s = attempts fs (attempts es s)"
  by (simp add: attempts_def)

lemma some_undisturbed_attempt_is_enough:
  assumes "inv s" and "list_all admissible es" and "list_ex undisturbed es"
  shows "goal (attempts es s)"
proof -
  obtain fs e gs where es: "es = fs @ e # gs" and e: "undisturbed e"
    using assms(3) by (metis Bex_set split_list)
  have before: "inv (attempts fs s)" using attempts_inv assms(1,2) es by simp
  have adm: "admissible e" "list_all admissible gs" using assms(2) es by simp_all
  have "attempts es s = attempts gs (attempt e (attempts fs s))" unfolding es by (simp add: attempts_def)
  then show ?thesis
    using attempts_keep_goal [OF attempt_goal [OF before adm(1) e] attempt_inv [OF before adm(1)] adm(2)] by simp
qed

end

definition gone :: "string \<Rightarrow> acquisition_world \<Rightarrow> bool" where
  "gone file w \<longleftrightarrow> map_of (aq_files w) file = None"

definition same_elsewhere :: "acquisition_world \<Rightarrow> acquisition_world \<Rightarrow> bool" where
  "same_elsewhere w0 w \<longleftrightarrow> aq_tables w = aq_tables w0 \<and> aq_slots w = aq_slots w0 \<and> aq_relations w = aq_relations w0 \<and>
     aq_baseline w = aq_baseline w0 \<and> aq_health w = aq_health w0 \<and> aq_alerts w = aq_alerts w0"

text \<open>The ladder stands on \<open>phase\<close>: what the phases below have done is done, and nothing else has changed
  since \<open>w0\<close>.\<close>

definition on_rung :: "recovery_row \<Rightarrow> string \<Rightarrow> acquisition_world \<Rightarrow> string \<Rightarrow> acquisition_world \<Rightarrow> bool" where
  "on_rung j file w0 phase w \<longleftrightarrow>
     aq_journal w = Some (j\<lparr>jr_phase := phase\<rparr>) \<and> phase \<in> set PHASES \<and>
     (phase \<noteq> RECOVERY_REQUESTED \<longrightarrow> gone file w) \<and>
     (phase \<in> {RECOVERY_ROW_DELETED, RECOVERY_ARMED} \<longrightarrow> aq_row w = None) \<and>
     (phase = RECOVERY_REQUESTED \<longrightarrow> aq_row w = aq_row w0) \<and>
     (gone file w0 \<longrightarrow> gone file w) \<and> same_elsewhere w0 w"

definition names_file :: "recovery_row \<Rightarrow> string \<Rightarrow> bool" where
  "names_file j file \<longleftrightarrow> jr_offset_path j = Some file \<and> file \<noteq> [] \<and>
     (case jr_state_dir j of None \<Rightarrow> True | Some d \<Rightarrow> in_directory d file)"

definition deletable :: "recovery_row \<Rightarrow> string \<Rightarrow> recovery_env \<Rightarrow> bool" where
  \<comment> \<open>a reset ignores what it cannot delete, so it must be able to\<close>
  "deletable j file env \<longleftrightarrow> jr_state_dir j = None \<or> \<not> rv_undeletable env file"

lemma wbind_simps [simp]: "wbind (Inl e, w) f = (Inl e, w)" "wbind (Inr x, w) f = f x w"
  by (simp_all add: wbind_def)

lemma recovery_check_rungs [simp]:
  "recovery_check RECOVERY_REQUESTED RECOVERY_FILE_DELETED = Inr ()"
  "recovery_check RECOVERY_FILE_DELETED RECOVERY_ROW_DELETED = Inr ()"
  "recovery_check RECOVERY_ROW_DELETED RECOVERY_ARMED = Inr ()"
  by (code_simp, code_simp, code_simp)

lemma gone_filter:
  "gone file (w\<lparr>aq_files := filter (\<lambda>(p, c). P p) (aq_files w)\<rparr>) \<longleftrightarrow> (P file \<longrightarrow> gone file w)"
proof -
  have "map_of (filter (\<lambda>(p, c). P p) d) file = (if P file then map_of d file else None)" for d :: "(string, offset_file) dict"
    by (induction d) auto
  then show ?thesis by (simp add: gone_def)
qed

lemma same_elsewhere_refl [simp]: "same_elsewhere w w"
  by (simp add: same_elsewhere_def)

text \<open>The step that only changes files.\<close>

definition files_only :: "acquisition_world \<Rightarrow> acquisition_world \<Rightarrow> bool" where
  "files_only w w' \<longleftrightarrow> aq_journal w' = aq_journal w \<and> aq_row w' = aq_row w \<and> same_elsewhere w w'"

lemma files_only_simps [simp]: "files_only w w" "files_only w (w\<lparr>aq_files := fs\<rparr>)"
  by (simp_all add: files_only_def same_elsewhere_def)

lemma delete_offset_file_effect:
  assumes "delete_offset_file env r report w = (res, w')" and "rr_offset_path r = Some file" and "file \<noteq> []"
    and "case rr_state_dir r of None \<Rightarrow> True | Some d \<Rightarrow> in_directory d file"
    and "rr_state_dir r = None \<or> \<not> rv_undeletable env file"
  shows "files_only w w' \<and> (gone file w \<longrightarrow> gone file w') \<and>
    (is_ok res \<longrightarrow> gone file w') \<and> (\<not> rv_undeletable env file \<longrightarrow> is_ok res)"
proof (cases "truthy_str (rr_state_dir r)")
  case True
  then obtain d where d: "rr_state_dir r = Some d" by (auto elim: truthy_strE)
  with True assms have "w' = w\<lparr>aq_files := filter (\<lambda>(p, _). \<not> in_directory d p \<or> rv_undeletable env p) (aq_files w)\<rparr>"
    and "is_ok res"
    by (auto simp: delete_offset_file_def rmtree_def Let_def)
  then show ?thesis
    using assms(4,5) d gone_filter [of "file" "\<lambda>p. \<not> in_directory d p \<or> rv_undeletable env p" w] by simp
next
  case False
  show ?thesis
  proof (cases "dict_has (aq_files w) file \<and> rv_undeletable env file")
    case True
    with False assms(1-3) show ?thesis by (auto simp: delete_offset_file_def unlink_def Let_def)
  next
    case kept: False
    with False assms(1-3) have "w' = w\<lparr>aq_files := filter (\<lambda>(p, _). p \<noteq> file) (aq_files w)\<rparr>" and "is_ok res"
      by (auto simp: delete_offset_file_def unlink_def Let_def)
    then show ?thesis using gone_filter [of "file" "\<lambda>p. p \<noteq> file" w] by simp
  qed
qed

definition undisturbed :: "recovery_row \<Rightarrow> string \<Rightarrow> recovery_env \<Rightarrow> bool" where
  \<comment> \<open>no crash, a certificate, a file that can be deleted and a source that answers\<close>
  "undisturbed j file env \<longleftrightarrow>
     (\<forall>c. \<not> rv_crash env c) \<and> rv_certificate env \<noteq> None \<and> \<not> rv_undeletable env file \<and>
     (truthy_str (jr_slot_name j) \<longrightarrow> rv_slot_owner_dsn env \<noteq> [] \<and>
        observable (rv_observe env (rv_slot_owner_dsn env) (the (jr_slot_name j))))"

lemma record_of_phase [simp]:
  "rr_phase (record_of j) = jr_phase j" "rr_offset_path (record_of j) = jr_offset_path j"
  "rr_state_dir (record_of j) = jr_state_dir j" "rr_slot_name (record_of j) = jr_slot_name j"
  "(record_of (j\<lparr>jr_phase := ph\<rparr>))\<lparr>rr_phase := ph'\<rparr> = record_of (j\<lparr>jr_phase := ph'\<rparr>)"
  by (simp_all add: record_of_def)

text \<open>What is left of an attempt at a step: the rung it stands on, and the record it goes on with.\<close>

definition climbs :: "recovery_row \<Rightarrow> string \<Rightarrow> acquisition_world \<Rightarrow> string list \<Rightarrow> rung recovery_result \<Rightarrow> bool" where
  "climbs j file w0 phases m \<longleftrightarrow>
     (\<exists>ph. on_rung j file w0 ph (snd m) \<and>
       (\<forall>r report. fst m = Inr (r, report) \<longrightarrow> r = record_of (j\<lparr>jr_phase := ph\<rparr>) \<and> ph \<in> set phases))"

lemma climbs_stop: "on_rung j file w0 ph w \<Longrightarrow> climbs j file w0 phases (Inl e, w)"
  by (auto simp: climbs_def)

lemma climbs_on:
  "on_rung j file w0 ph w \<Longrightarrow> ph \<in> set phases \<Longrightarrow> climbs j file w0 phases (Inr (record_of (j\<lparr>jr_phase := ph\<rparr>), report), w)"
  by (auto simp: climbs_def)

lemma write_phase_rung:
  assumes "on_rung j file w0 frm w" and "recovery_check frm phase = Inr ()"
  shows "write_phase phase frm w = (Inr (), w\<lparr>aq_journal := Some (j\<lparr>jr_phase := phase\<rparr>)\<rparr>)"
  using assms by (simp add: write_phase_def on_rung_def)

lemma on_rung_next:
  assumes "on_rung j file w0 frm w" and "phase \<in> {RECOVERY_FILE_DELETED, RECOVERY_ROW_DELETED, RECOVERY_ARMED}"
    and "gone file w" and "phase \<noteq> RECOVERY_FILE_DELETED \<Longrightarrow> aq_row w = None"
  shows "on_rung j file w0 phase (w\<lparr>aq_journal := Some (j\<lparr>jr_phase := phase\<rparr>)\<rparr>)"
  using assms by (auto simp: on_rung_def PHASES_def gone_def same_elsewhere_def)

text \<open>An attempt keeps to the ladder, and succeeds when nothing disturbs it.\<close>

definition good_attempt ::
  "recovery_row \<Rightarrow> string \<Rightarrow> acquisition_world \<Rightarrow> recovery_env \<Rightarrow> string list \<Rightarrow> rung recovery_result \<Rightarrow> bool" where
  "good_attempt j file w0 env phases m \<longleftrightarrow>
     climbs j file w0 phases m \<and> (undisturbed j file env \<longrightarrow> is_ok (fst m))"

lemma good_attempt_bind:
  assumes m: "good_attempt j file w0 env phases m"
    and f: "\<And>ph report w. on_rung j file w0 ph w \<Longrightarrow> ph \<in> set phases \<Longrightarrow>
       good_attempt j file w0 env phases' (f (record_of (j\<lparr>jr_phase := ph\<rparr>), report) w)"
  shows "good_attempt j file w0 env phases' (wbind m f)"
proof -
  obtain res w where mm: "m = (res, w)" by fastforce
  show ?thesis
  proof (cases res)
    case (Inl e)
    then show ?thesis using m by (auto simp: mm climbs_def good_attempt_def)
  next
    case (Inr x)
    obtain r report where x: "x = (r, report)" by fastforce
    from m obtain ph where "on_rung j file w0 ph w" and "r = record_of (j\<lparr>jr_phase := ph\<rparr>)" and "ph \<in> set phases"
      by (auto simp: good_attempt_def climbs_def mm Inr x)
    then show ?thesis using f [of ph w report] by (simp add: mm Inr x)
  qed
qed

text \<open>The common end of the three steps: the anchor, the phase, the anchor.\<close>

lemma record_phase_climbs:
  assumes rung: "on_rung j file w0 frm w" and edge: "recovery_check frm phase = Inr ()"
    and upper: "phase \<in> {RECOVERY_FILE_DELETED, RECOVERY_ROW_DELETED, RECOVERY_ARMED}"
    and below: "gone file w" "phase \<noteq> RECOVERY_FILE_DELETED \<Longrightarrow> aq_row w = None"
    and phases: "phase \<in> set phases"
    and m: "m = wbind (die_at env a1 w) (\<lambda>_ w2.
        wbind (write_phase phase frm w2) (\<lambda>_ w3.
        wbind (die_at env a2 w3) (\<lambda>_ w4. (Inr (record_of (j\<lparr>jr_phase := phase\<rparr>), report), w4))))"
  shows "climbs j file w0 phases m \<and> ((\<forall>c. \<not> rv_crash env c) \<longrightarrow> is_ok (fst m))"
proof -
  note next_rung = on_rung_next [OF rung upper below]
  show ?thesis
    using climbs_stop [OF rung] climbs_stop [OF next_rung] climbs_on [OF next_rung phases]
    by (auto simp: m die_at_def write_phase_rung [OF rung edge])
qed

lemma step_file_climbs:
  assumes rung: "on_rung j file w0 ph w" and names: "names_file j file" and del: "deletable j file env"
    and m: "m = step_file env (record_of (j\<lparr>jr_phase := ph\<rparr>), report) w"
  shows "good_attempt j file w0 env [RECOVERY_FILE_DELETED, RECOVERY_ROW_DELETED, RECOVERY_ARMED] m"
proof (cases "ph = RECOVERY_REQUESTED")
  case False
  moreover have "ph \<in> set PHASES" using rung by (simp add: on_rung_def)
  ultimately show ?thesis using climbs_on [OF rung] by (auto simp: m step_file_def PHASES_def good_attempt_def)
next
  case True
  obtain res w1 where d: "delete_offset_file env (record_of (j\<lparr>jr_phase := ph\<rparr>)) report w = (res, w1)" by fastforce
  have eff: "files_only w w1 \<and> (gone file w \<longrightarrow> gone file w1) \<and> (is_ok res \<longrightarrow> gone file w1) \<and>
      (\<not> rv_undeletable env file \<longrightarrow> is_ok res)"
    by (rule delete_offset_file_effect [OF d]) (use names del in \<open>auto simp: names_file_def deletable_def\<close>)
  have rung1: "on_rung j file w0 RECOVERY_REQUESTED w1"
    using rung eff True by (auto simp: on_rung_def files_only_def same_elsewhere_def)
  show ?thesis
  proof (cases res)
    case (Inl e)
    then show ?thesis
      using True d climbs_stop [OF rung1] eff by (auto simp: m step_file_def undisturbed_def good_attempt_def)
  next
    case (Inr report')
    have m': "m = wbind (die_at env FileDeleted w1) (\<lambda>_ w2.
        wbind (write_phase RECOVERY_FILE_DELETED RECOVERY_REQUESTED w2) (\<lambda>_ w3.
        wbind (die_at env FileDeletedRecorded w3) (\<lambda>_ w4.
          (Inr (record_of (j\<lparr>jr_phase := RECOVERY_FILE_DELETED\<rparr>), report'), w4))))"
      using True d Inr by (simp add: m step_file_def)
    have "climbs j file w0 [RECOVERY_FILE_DELETED, RECOVERY_ROW_DELETED, RECOVERY_ARMED] m \<and>
        ((\<forall>c. \<not> rv_crash env c) \<longrightarrow> is_ok (fst m))"
      by (rule record_phase_climbs [OF rung1 recovery_check_rungs(1) _ _ _ _ m']) (use eff Inr in auto)
    then show ?thesis by (simp add: good_attempt_def undisturbed_def)
  qed
qed

lemma step_row_climbs:
  assumes rung: "on_rung j file w0 ph w"
    and ph: "ph \<in> set [RECOVERY_FILE_DELETED, RECOVERY_ROW_DELETED, RECOVERY_ARMED]"
    and m: "m = step_row env (record_of (j\<lparr>jr_phase := ph\<rparr>), report) w"
  shows "good_attempt j file w0 env [RECOVERY_ROW_DELETED, RECOVERY_ARMED] m"
proof (cases "ph = RECOVERY_FILE_DELETED")
  case False
  then show ?thesis using ph climbs_on [OF rung] by (auto simp: m step_row_def good_attempt_def)
next
  case True
  have rung1: "on_rung j file w0 RECOVERY_FILE_DELETED (w\<lparr>aq_row := None\<rparr>)"
    using rung True by (auto simp: on_rung_def gone_def same_elsewhere_def)
  have m': "m = wbind (die_at env RowDeleted (w\<lparr>aq_row := None\<rparr>)) (\<lambda>_ w2.
        wbind (write_phase RECOVERY_ROW_DELETED RECOVERY_FILE_DELETED w2) (\<lambda>_ w3.
        wbind (die_at env RowDeletedRecorded w3) (\<lambda>_ w4.
          (Inr (record_of (j\<lparr>jr_phase := RECOVERY_ROW_DELETED\<rparr>), report), w4))))"
    using True by (simp add: m step_row_def)
  have "climbs j file w0 [RECOVERY_ROW_DELETED, RECOVERY_ARMED] m \<and> ((\<forall>c. \<not> rv_crash env c) \<longrightarrow> is_ok (fst m))"
    by (rule record_phase_climbs [OF rung1 recovery_check_rungs(2) _ _ _ _ m'])
      (use rung True in \<open>auto simp: on_rung_def gone_def\<close>)
  then show ?thesis by (simp add: good_attempt_def undisturbed_def)
qed

lemma step_slot_climbs:
  assumes rung: "on_rung j file w0 ph w" and ph: "ph \<in> set [RECOVERY_ROW_DELETED, RECOVERY_ARMED]"
    and m: "m = step_slot env (record_of (j\<lparr>jr_phase := ph\<rparr>), report) w"
  shows "good_attempt j file w0 env [RECOVERY_ARMED] m"
proof (cases "ph = RECOVERY_ROW_DELETED")
  case False
  then show ?thesis using ph climbs_on [OF rung] by (auto simp: m step_slot_def good_attempt_def)
next
  case True
  show ?thesis
  proof (cases "retire_the_slot_or_fail env (jr_slot_name j)")
    case (Inl e)
    then have "\<not> undisturbed j file env"
      by (auto simp: retire_the_slot_or_fail_def slot_retirement_status_def undisturbed_def
        split: if_splits elim!: truthy_strE)
    then show ?thesis using True Inl climbs_stop [OF rung] by (simp add: m step_slot_def good_attempt_def)
  next
    case (Inr action)
    have m': "m = wbind (die_at env SlotRetired w) (\<lambda>_ w2.
        wbind (write_phase RECOVERY_ARMED RECOVERY_ROW_DELETED w2) (\<lambda>_ w3.
        wbind (die_at env ArmedRecorded w3) (\<lambda>_ w4.
          (Inr (record_of (j\<lparr>jr_phase := RECOVERY_ARMED\<rparr>), report\<lparr>rs_slot := Some action\<rparr>), w4))))"
      using True Inr by (simp add: m step_slot_def)
    have "climbs j file w0 [RECOVERY_ARMED] m \<and> ((\<forall>c. \<not> rv_crash env c) \<longrightarrow> is_ok (fst m))"
      by (rule record_phase_climbs [OF rung [unfolded True] recovery_check_rungs(3) _ _ _ _ m'])
        (use rung True in \<open>auto simp: on_rung_def\<close>)
    then show ?thesis by (simp add: good_attempt_def undisturbed_def)
  qed
qed

lemma resume_climbs:
  assumes rung: "on_rung j file w0 ph w" and names: "names_file j file" and del: "deletable j file env"
  shows "good_attempt j file w0 env [RECOVERY_ARMED] (recovery_resume env (record_of (j\<lparr>jr_phase := ph\<rparr>)) w)"
proof (cases "rv_certificate env")
  case None
  then show ?thesis using climbs_stop [OF rung] by (simp add: recovery_resume_def undisturbed_def good_attempt_def)
next
  case (Some certificate)
  have last: "good_attempt j file w0 env [RECOVERY_ARMED] (Inr (record_of (j\<lparr>jr_phase := ph'\<rparr>), report), w')"
    if "on_rung j file w0 ph' w'" and "ph' \<in> set [RECOVERY_ARMED]" for ph' report w'
    using climbs_on [OF that] by (simp add: good_attempt_def)
  show ?thesis
    unfolding recovery_resume_def Some option.case
    apply (rule good_attempt_bind [OF step_file_climbs [OF rung names del refl]])
    apply (rule good_attempt_bind [OF step_row_climbs [OF _ _ refl]], assumption, assumption)
    apply (rule good_attempt_bind [OF step_slot_climbs [OF _ _ refl]], assumption, assumption)
    subgoal for ph1 _ _ ph2 _ _ ph3 report w'
      using last [of ph3 w'] by simp
    done
qed

lemma restart_climbs:
  assumes rung: "on_rung j file w0 ph w" and names: "names_file j file" and del: "deletable j file env"
  defines "w' \<equiv> snd (resume_any_journalled_recovery env w)"
  shows "\<exists>ph'. on_rung j file w0 ph' w' \<and> (undisturbed j file env \<or> ph = RECOVERY_ARMED \<longrightarrow> ph' = RECOVERY_ARMED)"
proof -
  have read: "recovery_read w = Inr (Some (record_of (j\<lparr>jr_phase := ph\<rparr>)))"
    using rung by (simp add: recovery_read_def on_rung_def)
  show ?thesis
  proof (cases "ph = RECOVERY_ARMED")
    case True
    then have "w' = w" unfolding w'_def by (simp add: resume_any_journalled_recovery_def read Let_def split: sum.split)
    with rung True show ?thesis by blast
  next
    case False
    define m where "m = recovery_resume env (record_of (j\<lparr>jr_phase := ph\<rparr>)) w"
    have w': "w' = snd m"
      using False by (simp add: w'_def m_def resume_any_journalled_recovery_def read wbind_def split: prod.split sum.split)
    have good: "good_attempt j file w0 env [RECOVERY_ARMED] m"
      unfolding m_def by (rule resume_climbs [OF rung names del])
    then obtain ph' where "on_rung j file w0 ph' w'"
      and "\<And>r report. fst m = Inr (r, report) \<Longrightarrow> ph' = RECOVERY_ARMED"
      unfolding w' by (auto simp: good_attempt_def climbs_def)
    then show ?thesis using good False by (auto simp: good_attempt_def is_ok_iff)
  qed
qed

interpretation ladder: resumable "\<lambda>env w. snd (resume_any_journalled_recovery env w)" "deletable j pth"
  "undisturbed j pth" "\<lambda>w. names_file j pth \<and> (\<exists>ph. on_rung j pth w0 ph w)" "on_rung j pth w0 RECOVERY_ARMED"
  for j pth w0
proof (unfold_locales, goal_cases)
  case (1 s e)
  then show ?case using restart_climbs by blast
next
  case (2 s e)
  then show ?case using restart_climbs by metis
next
  case (3 s e)
  then show ?case using restart_climbs by metis
qed

section \<open>A recovery is announced whole\<close>

lemma mark_requested_failed: "foldl (mark_requested p detail) (Inl e, s) tables = (Inl e, s)"
  by (induction tables) (simp_all add: mark_requested_def)

lemma mark_requested_step:
  "mark_requested p detail (Inr u, s) (schema, tab, target) =
     (case lifecycle_transition (no_args\<lparr>ta_target_table := Some target\<rparr>) (p, schema, tab) LIFECYCLE_AWAITING detail s of
        (Inl e, s1) \<Rightarrow> (Inl e, s1) | (Inr _, s1) \<Rightarrow> (Inr (), s1))"
  by (simp add: mark_requested_def)

lemma awaiting_stays:
  assumes "moves_to LIFECYCLE_AWAITING s s'" and "stored_state t s = LIFECYCLE_AWAITING"
  shows "stored_state t s' = LIFECYCLE_AWAITING"
  using moves_toD [OF assms(1), of t] assms(2) by metis

lemma mark_requested_awaits:
  assumes "foldl (mark_requested p detail) (Inr u, s) tables = (Inr u', s')" and "(schema, tab, target) \<in> set tables"
  shows "stored_state (p, schema, tab) s' = LIFECYCLE_AWAITING"
  using assms
proof (induction tables arbitrary: s u)
  case Nil
  then show ?case by simp
next
  case (Cons x tables)
  obtain schema1 tab1 target1 where x: "x = (schema1, tab1, target1)" by (cases x)
  obtain res s1 where t: "lifecycle_transition (no_args\<lparr>ta_target_table := Some target1\<rparr>) (p, schema1, tab1)
      LIFECYCLE_AWAITING detail s = (res, s1)" by fastforce
  show ?case
  proof (cases res)
    case (Inl e)
    then show ?thesis using Cons.prems(1) t by (simp add: x mark_requested_step mark_requested_failed)
  next
    case (Inr frm)
    then have rest: "foldl (mark_requested p detail) (Inr (), s1) tables = (Inr u', s')"
      using Cons.prems(1) t by (simp add: x mark_requested_step)
    have "moves_to LIFECYCLE_AWAITING s1 s'"
      using foldl_effect [where f = "mark_requested p detail" and acc = "(Inr (), s1)" and xs = tables
          and y = LIFECYCLE_AWAITING] mark_requested_effect rest by simp
    moreover have "stored_state (p, schema1, tab1) s1 = LIFECYCLE_AWAITING"
      using t Inr by (cases rule: transition_effect) (simp_all add: stored_state_def)
    ultimately have first: "stored_state (p, schema1, tab1) s' = LIFECYCLE_AWAITING" by (rule awaiting_stays)
    show ?thesis
      using Cons.prems(2) Cons.IH [OF rest] first unfolding x by auto
  qed
qed

lemma request_snapshot_awaits:
  assumes "request_snapshot p tables detail s = (Inr n, s')"
  shows "(schema, tab, target) \<in> set tables \<Longrightarrow> stored_state (p, schema, tab) s' = LIFECYCLE_AWAITING"
    and "n = length tables"
proof -
  obtain u where f: "foldl (mark_requested p detail) (Inr (), s) tables = (Inr u, s')"
    using assms by (auto simp: request_snapshot_def split: prod.splits sum.splits)
  show awaits: "(schema, tab, target) \<in> set tables \<Longrightarrow> stored_state (p, schema, tab) s' = LIFECYCLE_AWAITING"
    for schema tab target by (rule mark_requested_awaits [OF f])
  have "case map_of (cs_rows s') (p, schema, tab) of None \<Rightarrow> False | Some r \<Rightarrow> sr_snapshot_state r = LIFECYCLE_AWAITING"
    if "(schema, tab, target) \<in> set tables" for schema tab target
    using awaits [OF that] by (simp add: stored_state_def split: option.splits)
  then have "filter (\<lambda>(schema, table, _). case map_of (cs_rows s') (p, schema, table) of
      None \<Rightarrow> False | Some r \<Rightarrow> sr_snapshot_state r = LIFECYCLE_AWAITING) tables = tables"
    by (intro filter_True) auto
  then show "n = length tables" using assms f by (simp add: request_snapshot_def)
qed

lemma begin_admission_receipt:
  assumes "begin_admission env a w = Inr resolution"
  shows "occurrence_current w (prejournal_occurrence (bg_receipt a))"
proof -
  from assms have names: "sp_pipeline (bg_receipt a) = rv_pipeline env" "sp_slot_name (bg_receipt a) = bg_slot_name a"
    and current: "map_option receipt_state (read_slot_state (aq_slots w) (rv_pipeline env) (bg_slot_name a))
      = Some (receipt_state (bg_receipt a))"
    by (auto simp: begin_admission_def rbind_eq_Inr raise_if_Inr)
  obtain state where "receipt_state (bg_receipt a) = (rv_pipeline env, bg_slot_name a, state)"
    using names by (simp add: receipt_state_def)
  with current show ?thesis by (auto simp: occurrence_current_def prejournal_occurrence_def split: option.splits)
qed

lemma forget_catalog_rows_effect:
  assumes "forget_catalog_rows p w = Inr w'"
  shows "aq_journal w' = aq_journal w \<and> aq_tables w' = aq_tables w \<and> aq_row w' = aq_row w \<and> aq_slots w' = aq_slots w \<and>
    aq_health w' = aq_health w \<and> aq_alerts w' = aq_alerts w \<and> aq_files w' = aq_files w"
  using assms by (auto simp: forget_catalog_rows_def Let_def split: option.splits sum.splits bool.splits)

text \<open>What stays as it is until the ladder is climbed.\<close>

definition not_destroyed :: "acquisition_world \<Rightarrow> acquisition_world \<Rightarrow> bool" where
  "not_destroyed w w' \<longleftrightarrow> aq_row w' = aq_row w \<and> aq_files w' = aq_files w \<and> aq_slots w' = aq_slots w \<and> aq_health w' = aq_health w"

definition nothing_requested :: "acquisition_world \<Rightarrow> acquisition_world \<Rightarrow> bool" where
  "nothing_requested w w' \<longleftrightarrow> aq_journal w' = aq_journal w \<and> aq_tables w' = aq_tables w \<and>
     aq_relations w' = aq_relations w \<and> aq_baseline w' = aq_baseline w"

definition captured_names :: "begin_args \<Rightarrow> string list" where
  "captured_names a = map (\<lambda>(schema, table, _). qualified_name schema table) (bg_captured a)"

definition requested_whole :: "recovery_env \<Rightarrow> begin_args \<Rightarrow> acquisition_world \<Rightarrow> recovery_row \<Rightarrow> bool" where
  "requested_whole env a w' j \<longleftrightarrow>
     aq_journal w' = Some j \<and> jr_recovery_id j = rv_new_id env \<and> jr_decision j = bg_decision a \<and>
     jr_phase j = RECOVERY_REQUESTED \<and> jr_slot_name j = Some (bg_slot_name a) \<and>
     jr_offset_path j = Some (bg_offset_path a) \<and> jr_state_dir j = bg_state_dir a \<and>
     jr_captured j = Some (captured_names a) \<and> jr_tables_marked j = int (length (bg_captured a)) \<and>
     (\<forall>(schema, table, target) \<in> set (bg_captured a).
        stored_state (rv_pipeline env, schema, table) (aq_tables w') = LIFECYCLE_AWAITING)"

lemma begin_transaction_effect:
  assumes "begin_transaction env a resolution w = Inr (r, w')"
  shows "\<exists>j. r = record_of j \<and> requested_whole env a w' j" and "not_destroyed w w'" and "aq_alerts w' = aq_alerts w"
    and "rr_recovery_id r = rv_new_id env"
proof -
  from assms obtain s1 marked s2 w1 where
    req: "request_snapshot (rv_pipeline env) (bg_captured a) (bg_decision a) s1 = (Inr marked, s2)"
    and w1: "(if bg_forget_catalog a then forget_catalog_rows (rv_pipeline env) w else Inr w) = Inr w1"
    and r: "r = \<lparr>rr_recovery_id = rv_new_id env, rr_decision = bg_decision a, rr_phase = RECOVERY_REQUESTED,
       rr_slot_name = Some (bg_slot_name a), rr_offset_path = Some (bg_offset_path a),
       rr_snapshot_mode = Some FORCED_SNAPSHOT_MODE, rr_forget_catalog = bg_forget_catalog a,
       rr_tables_marked = int marked, rr_captured = captured_names a, rr_state_dir = bg_state_dir a,
       rr_resolution = Some resolution\<rparr>"
    and w': "w' = w1\<lparr>aq_tables := s2, aq_journal := Some \<lparr>jr_recovery_id = rv_new_id env, jr_decision = bg_decision a,
       jr_phase = RECOVERY_REQUESTED, jr_slot_name = Some (bg_slot_name a),
       jr_offset_path = Some (bg_offset_path a), jr_snapshot_mode = Some FORCED_SNAPSHOT_MODE,
       jr_forget_catalog = bg_forget_catalog a, jr_tables_marked = int marked,
       jr_captured = Some (captured_names a), jr_state_dir = bg_state_dir a,
       jr_resolution = Some (JObj resolution)\<rparr>\<rparr>"
    by (auto simp: begin_transaction_def captured_names_def Let_def rbind_eq_Inr split: prod.splits sum.splits)
  have frame: "aq_row w1 = aq_row w \<and> aq_slots w1 = aq_slots w \<and> aq_health w1 = aq_health w \<and>
      aq_alerts w1 = aq_alerts w \<and> aq_files w1 = aq_files w"
    using w1 forget_catalog_rows_effect by (auto split: if_splits)
  show "\<exists>j. r = record_of j \<and> requested_whole env a w' j"
    using request_snapshot_awaits [OF req] unfolding r w'
    by (auto simp: record_of_def requested_whole_def)
  show "not_destroyed w w'" and "aq_alerts w' = aq_alerts w" using frame by (simp_all add: w' not_destroyed_def)
  show "rr_recovery_id r = rv_new_id env" by (simp add: r)
qed

lemma raise_alert_once_effect:
  assumes "raise_alert_once severity code condition occ pending w = Inr w'"
  shows "not_destroyed w w' \<and> nothing_requested w w'"
  using assms by (auto simp: raise_alert_once_def rbind_eq_Inr not_destroyed_def nothing_requested_def)

lemma raise_alert_once_current:
  "occurrence_current w occ \<Longrightarrow> \<exists>w'. raise_alert_once severity code condition occ pending w = Inr w'"
  by (simp add: raise_alert_once_def)

lemma journaled_alert_effect: "not_destroyed w (mark_recovery_alert_journaled code occ rid w) \<and>
    nothing_requested w (mark_recovery_alert_journaled code occ rid w)"
  by (simp add: mark_recovery_alert_journaled_def not_destroyed_def nothing_requested_def)

lemma requested_whole_kept: "requested_whole env a w j \<Longrightarrow> nothing_requested w w' \<Longrightarrow> requested_whole env a w' j"
  by (simp add: requested_whole_def nothing_requested_def)

lemma not_destroyed_trans: "not_destroyed w w' \<Longrightarrow> not_destroyed w' w'' \<Longrightarrow> not_destroyed w w''"
  by (simp add: not_destroyed_def)

lemma not_destroyed_refl [simp]: "not_destroyed w w" "nothing_requested w w"
  by (simp_all add: not_destroyed_def nothing_requested_def)

lemma occurrence_current_slots:
  "occurrence_current w (prejournal_occurrence r) \<Longrightarrow> aq_slots w' = aq_slots w \<Longrightarrow>
   occurrence_current w' (prejournal_occurrence r)"
  by (simp add: occurrence_current_def prejournal_occurrence_def split: prod.splits)

lemma begin_failed_effect:
  assumes "begin_failed e a w = (res, w')"
  shows "\<not> is_ok res \<and> not_destroyed w w' \<and> nothing_requested w w'"
  using assms raise_alert_once_effect by (auto simp: begin_failed_def split: sum.splits)

text \<open>The announcement after the COMMIT cannot fail: its owner was validated or has just been written.\<close>

lemma begin_committed:
  assumes adm: "begin_admission env a w = Inr resolution" and tx: "begin_transaction env a resolution w = Inr (r, w1)"
    and crash: "\<not> rv_crash env QueueHalfWritten" and run: "recovery_begin env a w = (res, w')"
  shows "\<exists>j. requested_whole env a w' j \<and> not_destroyed w w' \<and> (res = Inr (record_of j) \<or> res = Inl Interrupted)"
proof -
  define slot_key where "slot_key = prejournal_occurrence (bg_receipt a)"
  define pending where "pending = pending_recovery_alert_exists (bg_decision a) slot_key w"
  define occ where "occ = (if pending then slot_key else RecoveryOccurrence (rr_recovery_id r) (bg_decision a))"
  obtain j where j: "r = record_of j" "requested_whole env a w1 j" using begin_transaction_effect(1) [OF tx] by blast
  have nd: "not_destroyed w w1" by (rule begin_transaction_effect(2) [OF tx])
  have "occurrence_current w1 slot_key"
    unfolding slot_key_def
    by (rule occurrence_current_slots [OF begin_admission_receipt [OF adm]]) (use nd in \<open>simp add: not_destroyed_def\<close>)
  moreover have "occurrence_current w1 (RecoveryOccurrence (rr_recovery_id r) (bg_decision a))"
    using j(2) begin_transaction_effect(4) [OF tx] by (simp add: occurrence_current_def requested_whole_def)
  ultimately obtain w2 where
    w2: "raise_alert_once (bg_severity a) (bg_decision a) (bg_decision a) occ False w1 = Inr w2"
    unfolding occ_def by (metis raise_alert_once_current)
  define w3 where "w3 = (if pending then mark_recovery_alert_journaled (bg_decision a) slot_key (rr_recovery_id r) w2 else w2)"
  have run': "(res, w') = wbind (die_at env RequestedRecorded w3) (\<lambda>_ w4. (Inr r, w4))"
    unfolding run [symmetric] w3_def pending_def slot_key_def
    by (simp add: recovery_begin_def Let_def adm tx crash w2 [unfolded occ_def pending_def slot_key_def])
  have "nothing_requested w1 w3" and "not_destroyed w1 w3"
    using raise_alert_once_effect [OF w2] journaled_alert_effect [of w2]
    by (auto simp: w3_def nothing_requested_def not_destroyed_def)
  then have "requested_whole env a w3 j" and "not_destroyed w w3"
    using requested_whole_kept [OF j(2)] not_destroyed_trans [OF nd] by blast+
  moreover have "w' = w3" and "res = Inr r \<or> res = Inl Interrupted"
    using run' by (auto simp: die_at_def split: if_splits)
  ultimately show ?thesis using j(1) by blast
qed

lemma begin_effect:
  assumes run: "recovery_begin env a w = (res, w')"
  obtains (unannounced) "nothing_requested w w'" and "not_destroyed w w'" and "\<not> is_ok res"
    | (requested) j where "requested_whole env a w' j" and "not_destroyed w w'"
        and "res = Inr (record_of j) \<or> res = Inl Interrupted"
proof (cases "begin_admission env a w")
  case (Inl e)
  then have "res = Inl e" and "w' = w" using run by (simp_all add: recovery_begin_def)
  then have "nothing_requested w w'" and "not_destroyed w w'" and "\<not> is_ok res" by simp_all
  then show ?thesis by (rule unannounced)
next
  case adm: (Inr resolution)
  show ?thesis
  proof (cases "rv_crash env QueueHalfWritten")
    case True
    then have "res = Inl Interrupted" and "w' = w" using run adm by (simp_all add: recovery_begin_def Let_def)
    then have "nothing_requested w w'" and "not_destroyed w w'" and "\<not> is_ok res" by simp_all
  then show ?thesis by (rule unannounced)
  next
    case alive: False
    show ?thesis
    proof (cases "begin_transaction env a resolution w")
      case (Inl e)
      then have "begin_failed e a w = (res, w')" using run adm alive by (simp add: recovery_begin_def Let_def)
      then show ?thesis using begin_failed_effect unannounced by blast
    next
      case (Inr x)
      obtain r w1 where "x = (r, w1)" by fastforce
      then show ?thesis using begin_committed [OF adm _ alive run] Inr requested by blast
    qed
  qed
qed

text \<open>C19: However \<open>begin\<close> ends, with a crash at either of its anchors, a refused lifecycle transition or a stale
  receipt, the resume row and the files are untouched, and either journal, lifecycle table and recorded catalog are
  as before, or the journal is requested for exactly the captured tables and every one of them owes a snapshot; a
  returned record is the one the journal holds.\<close>

theorem recovery_is_announced_whole:
  assumes "recovery_begin env a w = (res, w')"
  shows "aq_row w' = aq_row w \<and> aq_files w' = aq_files w \<and> aq_slots w' = aq_slots w \<and>
    ((aq_journal w' = aq_journal w \<and> aq_tables w' = aq_tables w \<and> aq_relations w' = aq_relations w \<and>
        aq_baseline w' = aq_baseline w \<and> (\<nexists>r. res = Inr r)) \<or>
     (\<exists>j. requested_whole env a w' j \<and> recovery_read w' = Inr (Some (record_of j)) \<and>
        (res = Inr (record_of j) \<or> res = Inl Interrupted)))"
  using assms
proof (cases rule: begin_effect)
  case unannounced
  then show ?thesis by (auto simp: nothing_requested_def not_destroyed_def)
next
  case (requested j)
  then have "recovery_read w' = Inr (Some (record_of j))"
    by (simp add: requested_whole_def recovery_read_def PHASES_def)
  with requested show ?thesis by (auto simp: not_destroyed_def)
qed

section \<open>From the announcement to the last phase\<close>

definition restarts :: "recovery_env list \<Rightarrow> acquisition_world \<Rightarrow> acquisition_world" where
  \<comment> \<open>one acquisition after another, each ending where it ends\<close>
  "restarts es w = foldl (\<lambda>w env. snd (resume_any_journalled_recovery env w)) w es"

lemma restarts_ladder: "restarts es w = ladder.attempts es w"
  by (simp add: restarts_def ladder.attempts_def)

lemma announced_on_rung:
  assumes "recovery_begin env a w = (res, w1)" and "aq_journal w1 = Some j" and "jr_recovery_id j = rv_new_id env"
    and "map_option jr_recovery_id (aq_journal w) \<noteq> Some (rv_new_id env)"
  shows "requested_whole env a w1 j \<and> on_rung j (bg_offset_path a) w1 RECOVERY_REQUESTED w1 \<and> not_destroyed w w1"
  using assms(1)
proof (cases rule: begin_effect)
  case unannounced
  then have "aq_journal w = Some j" using assms(2) unfolding nothing_requested_def by metis
  then show ?thesis using assms(3,4) by simp
next
  case (requested j')
  then have "j' = j" using assms(2) by (simp add: requested_whole_def)
  with requested have whole: "requested_whole env a w1 j" by simp
  then have "j\<lparr>jr_phase := RECOVERY_REQUESTED\<rparr> = j" by (simp add: requested_whole_def)
  with whole requested(2) assms(2) show ?thesis by (simp add: on_rung_def PHASES_def)
qed

lemma announced_names_file:
  assumes "requested_whole env a w j" and "bg_offset_path a \<noteq> []"
    and "case bg_state_dir a of None \<Rightarrow> True | Some d \<Rightarrow> in_directory d (bg_offset_path a)"
  shows "names_file j (bg_offset_path a)"
  using assms by (simp add: requested_whole_def names_file_def)

text \<open>C20: Once the intent of a recovery is in the journal, whether \<open>begin\<close> returned or the process died right after its
  COMMIT, any sequence of acquisitions, each interrupted at any anchor or refused by a silent source or a missing
  certificate, leads to the last phase as soon as one of them is undisturbed: the offset file and the resume row are
  gone, and every captured table still owes its snapshot.\<close>

theorem recovery_reaches_armed:
  assumes announced: "recovery_begin env a w = (res, w1)" "aq_journal w1 = Some j" "jr_recovery_id j = rv_new_id env"
    "map_option jr_recovery_id (aq_journal w) \<noteq> Some (rv_new_id env)"
    and path: "bg_offset_path a \<noteq> []" "case bg_state_dir a of None \<Rightarrow> True | Some d \<Rightarrow> in_directory d (bg_offset_path a)"
    and es: "list_all (deletable j (bg_offset_path a)) es" "list_ex (undisturbed j (bg_offset_path a)) es"
  shows "aq_journal (restarts es w1) = Some (j\<lparr>jr_phase := RECOVERY_ARMED\<rparr>) \<and> aq_row (restarts es w1) = None \<and>
    map_of (aq_files (restarts es w1)) (bg_offset_path a) = None \<and>
    (\<forall>(schema, table, target) \<in> set (bg_captured a).
       stored_state (rv_pipeline env, schema, table) (aq_tables (restarts es w1)) = LIFECYCLE_AWAITING)"
proof -
  from announced_on_rung [OF announced] have whole: "requested_whole env a w1 j"
    "on_rung j (bg_offset_path a) w1 RECOVERY_REQUESTED w1" "not_destroyed w w1" by blast+
  have "names_file j (bg_offset_path a) \<and> (\<exists>ph. on_rung j (bg_offset_path a) w1 ph w1)"
    using announced_names_file [OF whole(1) path] whole(2) by blast
  then have "on_rung j (bg_offset_path a) w1 RECOVERY_ARMED (restarts es w1)"
    unfolding restarts_ladder by (rule ladder.some_undisturbed_attempt_is_enough [OF _ es])
  then show ?thesis using whole(1) by (auto simp: on_rung_def gone_def same_elsewhere_def requested_whole_def)
qed

text \<open>What the next start-up reconciles.\<close>

definition offsets_of :: "string \<Rightarrow> acquisition_world \<Rightarrow> offset_state" where
  "offsets_of file w = \<lparr>os_row = aq_row w,
     os_file = (case map_of (aq_files w) file of None \<Rightarrow> NoFile | Some f \<Rightarrow> f), os_armed = [], os_alerts = []\<rparr>"

definition unusable_only :: "offset_error + 'a \<Rightarrow> bool" where
  "unusable_only m \<longleftrightarrow> (\<forall>e. m = Inl e \<longrightarrow> e = OffsetUnusable)"

lemma unusable_only_rules:
  "unusable_only (Inr x)" "unusable_only (Inl OffsetUnusable)"
  "unusable_only m \<Longrightarrow> (\<And>x. unusable_only (f x)) \<Longrightarrow> unusable_only (rbind m f)"
  "unusable_only (object_or_empty j)" "unusable_only (int_value j)"
  "unusable_only m \<Longrightarrow> unusable_only m' \<Longrightarrow> unusable_only (if b then m else m')"
  by (auto simp: unusable_only_def rbind_eq_Inl object_or_empty_def int_value_def split: if_splits json.splits option.splits)

lemma from_json_unusable: "unusable_only (from_json text)"
  unfolding from_json_def by (auto intro!: unusable_only_rules split: option.split json.split)

lemma first_lsn_error: "first_lsn es = Inl e \<Longrightarrow> e = NotAnObject"
  by (auto simp: first_lsn_def as_object_def rbind_eq_Inl split: list.splits json.splits prod.splits)

lemma decide_error: "decide d p n b = Inl e \<Longrightarrow> e = UnknownDecision"
  by (auto simp: decide_def split: sum.splits)

lemma reconcile_row_error: "fst (reconcile_row opts namespace p lsn st) = Inl e \<Longrightarrow> e = UnknownDecision"
  by (auto simp: reconcile_row_def rebuilt_def Let_def split: prod.splits if_splits dest!: decide_error)

lemma refusal_means_orphan:
  assumes "fst (reconcile opts namespace st) = Inl ReconciliationRefused"
  shows "os_row st = None \<and> file_present (os_file st)"
proof -
  have "read_resume_point (os_row st) \<noteq> Inl ReconciliationRefused"
    by (auto simp: read_resume_point_def rbind_eq_Inl split: option.splits dest: from_json_unusable [unfolded unusable_only_def, rule_format])
  moreover have "first_lsn (parse_offsets (read_file (os_file st))) \<noteq> Inl ReconciliationRefused"
    by (auto dest: first_lsn_error)
  moreover have "os_row st = None" if "read_resume_point (os_row st) = Inr None"
    using that by (auto simp: read_resume_point_def rbind_eq_Inr split: option.splits)
  ultimately show ?thesis
    using assms
    by (auto simp: reconcile_def split: sum.splits option.splits if_splits
      dest: decide_error reconcile_row_error)
qed


section \<open>The end of a recovery\<close>

lemma rfold_states:
  assumes "rfold (\<lambda>d (schema, table, r). rbind (parse_state (sr_snapshot_state r)) (\<lambda>st.
              Inr (AList.update (qualified_name schema table) st d))) d rows = Inr d'"
    and "map_of d' n = Some st"
  shows "map_of d n = Some st \<or>
    (\<exists>schema table r. (schema, table, r) \<in> set rows \<and> qualified_name schema table = n \<and> sr_snapshot_state r = st)"
  using assms
proof (induction rows arbitrary: d)
  case Nil
  then show ?case by simp
next
  case (Cons x rows)
  obtain schema tab r where x: "x = (schema, tab, r)" by (cases x)
  from Cons.prems(1) obtain st1 where st1: "parse_state (sr_snapshot_state r) = Inr st1"
    and rest: "rfold (\<lambda>d (schema, table, r). rbind (parse_state (sr_snapshot_state r)) (\<lambda>st.
       Inr (AList.update (qualified_name schema table) st d))) (AList.update (qualified_name schema tab) st1 d) rows = Inr d'"
    by (auto simp: x rbind_eq_Inr)
  have "st1 = sr_snapshot_state r" using st1 by (auto simp: parse_state_def split: if_splits)
  then show ?case using Cons.IH [OF rest Cons.prems(2)] by (auto simp: x update_conv' split: if_splits)
qed

lemma qualified_name_inj:
  assumes "qualified_name a b = qualified_name a' b'" and "CHR ''.'' \<notin> set a" and "CHR ''.'' \<notin> set a'"
  shows "a = a' \<and> b = b'"
proof -
  have "takeWhile (\<lambda>c. c \<noteq> CHR ''.'') (qualified_name x y) = x" if "CHR ''.'' \<notin> set x" for x y
    using that by (induction x) (auto simp: qualified_name_def)
  then have "a = a'" using assms by metis
  with assms(1) show ?thesis by (simp add: qualified_name_def)
qed

text \<open>One row per table, and no dot in a schema name.\<close>

definition plain_rows :: "control_store \<Rightarrow> bool" where
  "plain_rows s \<longleftrightarrow> distinct (map fst (cs_rows s)) \<and> (\<forall>((p, schema, table), r) \<in> set (cs_rows s). CHR ''.'' \<notin> set schema)"

lemma read_all_stored:
  assumes "read_all s p = Inr d" and "map_of d (qualified_name schema tab) = Some st" and "plain_rows s"
    and "CHR ''.'' \<notin> set schema"
  shows "stored_state (p, schema, tab) s = st"
proof -
  obtain schema1 tab1 r where r: "(schema1, tab1, r) \<in> set (pipeline_rows s p)"
    and eq: "qualified_name schema1 tab1 = qualified_name schema tab" and st: "sr_snapshot_state r = st"
    using rfold_states [OF assms(1) [unfolded read_all_def] assms(2)] by auto
  have row: "((p, schema1, tab1), r) \<in> set (cs_rows s)" using r by (auto simp: pipeline_rows_def)
  then have "CHR ''.'' \<notin> set schema1" using assms(3) by (auto simp: plain_rows_def)
  with eq assms(4) have "schema1 = schema \<and> tab1 = tab" using qualified_name_inj by blast
  with row assms(3) have "map_of (cs_rows s) (p, schema, tab) = Some r" by (simp add: plain_rows_def)
  with st show ?thesis by (simp add: stored_state_def)
qed

lemma complete_effect:
  assumes "complete_if_ready env r verified_empty retained w = (Inr c, w')"
  obtains (waiting) "\<not> cm_cleared c" and "w' = w"
    | (cleared) states where "cm_cleared c" and "read_all (aq_tables w) (rv_pipeline env) = Inr states"
        and "\<forall>name \<in> set (if rr_captured r \<noteq> [] then rr_captured r else sort (map fst states)).
               map_of states name = Some LIFECYCLE_COMPLETE"
        and "aq_row w \<noteq> None \<or> retained \<or> rr_captured r = [] \<or> set (rr_captured r) \<subseteq> set verified_empty"
        and "recovery_clear w = (Inr (), w')"
proof -
  obtain states where states: "read_all (aq_tables w) (rv_pipeline env) = Inr states"
    using assms by (auto simp: complete_if_ready_def split: sum.splits)
  define obligation where "obligation = (if rr_captured r \<noteq> [] then rr_captured r else sort (map fst states))"
  define owed where "owed = filter (\<lambda>name. map_of states name \<noteq> Some LIFECYCLE_COMPLETE) obligation"
  define handoff where "handoff \<longleftrightarrow> aq_row w \<noteq> None \<or> (obligation \<noteq> [] \<and> set obligation \<subseteq> set verified_empty) \<or> retained"
  show ?thesis
  proof (cases "owed \<noteq> [] \<or> \<not> handoff")
    case True
    then have "\<not> cm_cleared c \<and> w' = w" using assms states
      by (auto simp: complete_if_ready_def Let_def owed_def handoff_def obligation_def)
    then show ?thesis using waiting by blast
  next
    case False
    define answer where "answer = \<lparr>cm_cleared = True, cm_recovery_id = rr_recovery_id r, cm_still_owed = [],
      cm_has_resume_point = (aq_row w \<noteq> None),
      cm_reason = (if aq_row w \<noteq> None then ''every captured table reached a terminal lifecycle state''
                 else ''every captured table was verified empty at the source'')\<rparr>"
    have run: "(Inr c, w') = wbind (recovery_clear w) (\<lambda>_ w1. (Inr answer, w1))"
      using False unfolding assms [symmetric] answer_def owed_def handoff_def obligation_def
      by (auto simp: complete_if_ready_def Let_def states split: if_splits)
    then have "recovery_clear w = (Inr (), w')" and "c = answer"
      by (auto simp: wbind_def split: prod.splits sum.splits)
    moreover have "\<forall>name \<in> set obligation. map_of states name = Some LIFECYCLE_COMPLETE"
      using False by (auto simp: owed_def filter_empty_conv)
    moreover have "aq_row w \<noteq> None \<or> retained \<or> rr_captured r = [] \<or> set (rr_captured r) \<subseteq> set verified_empty"
      using False by (auto simp: handoff_def obligation_def split: if_splits)
    ultimately show ?thesis using states cleared [of states] by (simp add: answer_def obligation_def)
  qed
qed

lemma recovery_clear_effect:
  assumes "recovery_clear w = (Inr u, w')" and "aq_journal w = Some j"
  shows "jr_phase j = RECOVERY_ARMED \<and> aq_journal w' = None"
proof -
  have "p \<in> set PHASES \<Longrightarrow> recovery_check p RECOVERY_ABSENT = Inr () \<Longrightarrow> p = RECOVERY_ARMED" for p
  proof -
    have "list_all (\<lambda>p. recovery_check p RECOVERY_ABSENT = Inr () \<longrightarrow> p = RECOVERY_ARMED) PHASES" by code_simp
    then show "p \<in> set PHASES \<Longrightarrow> recovery_check p RECOVERY_ABSENT = Inr () \<Longrightarrow> p = RECOVERY_ARMED"
      by (simp add: list_all_iff)
  qed
  then show ?thesis using assms
    by (auto simp: recovery_clear_def recovery_read_def split: if_splits sum.splits)
qed

text \<open>C22: A recovery that \<open>complete_if_ready\<close> clears, at any time after its announcement and any interrupted attempts,
  had climbed its ladder, every table captured by the announcement is \<open>complete\<close> at that moment, and the rebuilt
  image has a hand-over: a resume row, a retained slot, or a proof that all captured tables are empty.\<close>

theorem cleared_recovery_rebuilt_every_table:
  assumes announced: "recovery_begin env a w = (res, w1)" "aq_journal w1 = Some j" "jr_recovery_id j = rv_new_id env"
    "map_option jr_recovery_id (aq_journal w) \<noteq> Some (rv_new_id env)"
    and path: "bg_offset_path a \<noteq> []" "case bg_state_dir a of None \<Rightarrow> True | Some d \<Rightarrow> in_directory d (bg_offset_path a)"
    and es: "list_all (deletable j (bg_offset_path a)) es"
    and later: "aq_journal w3 = aq_journal (restarts es w1)" "recovery_read w3 = Inr (Some r)"
    and rows: "plain_rows (aq_tables w3)"
    and captured: "(schema, tab, target) \<in> set (bg_captured a)" "CHR ''.'' \<notin> set schema"
    and run: "complete_if_ready env r verified_empty retained w3 = (Inr c, w4)" "cm_cleared c"
  shows "aq_journal w4 = None \<and> aq_row (restarts es w1) = None \<and>
    map_of (aq_files (restarts es w1)) (bg_offset_path a) = None \<and>
    stored_state (rv_pipeline env, schema, tab) (aq_tables w3) = LIFECYCLE_COMPLETE \<and>
    (aq_row w3 \<noteq> None \<or> retained \<or> set (captured_names a) \<subseteq> set verified_empty)"
proof -
  from announced_on_rung [OF announced] have whole: "requested_whole env a w1 j"
    "on_rung j (bg_offset_path a) w1 RECOVERY_REQUESTED w1" by blast+
  have "names_file j (bg_offset_path a) \<and> (\<exists>ph. on_rung j (bg_offset_path a) w1 ph w1)"
    using announced_names_file [OF whole(1) path] whole(2) by blast
  then obtain ph where rung: "on_rung j (bg_offset_path a) w1 ph (restarts es w1)"
    unfolding restarts_ladder using ladder.attempts_inv [OF _ es] by blast
  then have j3: "aq_journal w3 = Some (j\<lparr>jr_phase := ph\<rparr>)" using later(1) by (simp add: on_rung_def)
  with later(2) have "r = record_of (j\<lparr>jr_phase := ph\<rparr>)" by (auto simp: recovery_read_def split: if_splits)
  then have names: "rr_captured r = captured_names a" using whole(1) by (simp add: record_of_def requested_whole_def)
  have name: "qualified_name schema tab \<in> set (captured_names a)" using captured(1) by (force simp: captured_names_def)
  from run(1) show ?thesis
  proof (cases rule: complete_effect)
    case waiting
    then show ?thesis using run(2) by simp
  next
    case (cleared states)
    have "ph = RECOVERY_ARMED" and "aq_journal w4 = None" using recovery_clear_effect [OF cleared(5) j3] by simp_all
    moreover have "map_of states (qualified_name schema tab) = Some LIFECYCLE_COMPLETE"
      using cleared(3) name names by (cases "captured_names a") auto
    then have "stored_state (rv_pipeline env, schema, tab) (aq_tables w3) = LIFECYCLE_COMPLETE"
      by (rule read_all_stored [OF cleared(2) _ rows captured(2)])
    moreover have "aq_row w3 \<noteq> None \<or> retained \<or> set (captured_names a) \<subseteq> set verified_empty"
      using cleared(4) names name by auto
    ultimately show ?thesis using rung by (auto simp: on_rung_def gone_def)
  qed
qed

section \<open>What starts a rebuild\<close>

lemma destination_holds_rows_empty:
  assumes "destination_holds_rows env tables = []" and "(schema, tab, target) \<in> set tables"
  shows "rv_count env target \<in> {None, Some 0}"
proof -
  define f where "f = (\<lambda>held (schema, table, target).
       case rv_count env target of
         None \<Rightarrow> held
       | Some count \<Rightarrow> if count \<noteq> 0 then AList.update (qualified_name schema table) count held else held)"
  have step: "held \<noteq> [] \<Longrightarrow> f held x \<noteq> []" for held x
    by (cases x) (auto simp: f_def split: option.split)
  then have grows: "held \<noteq> [] \<Longrightarrow> foldl f held xs \<noteq> []" for held xs
    by (induction xs arbitrary: held) auto
  have "foldl f [] tables = []" using assms(1) by (simp add: destination_holds_rows_def f_def)
  then have "f [] (schema, tab, target) = []"
    using assms(2)
  proof (induction tables)
    case (Cons x xs)
    have "f [] x = []" using Cons.prems(1) grows [of "f [] x" xs] by auto
    then show ?case using Cons by auto
  qed simp
  then show ?thesis by (auto simp: f_def split: option.splits if_splits)
qed

lemma slot_decision_without_row:
  assumes "slot_decision env cfg None obs in_progress w = Inr v" and "vd_resnapshot v"
  shows "destination_holds_rows env (ac_captured cfg) = [] \<and> vd_decision v = ''no_durable_destination_row''"
proof -
  define previous where "previous = map_option sp_row (read_slot_state (aq_slots w) (rv_pipeline env) (ac_slot_name cfg))"
  have "\<not> retained_handoff None obs previous in_progress"
    using assms by (auto simp: slot_decision_def Let_def previous_def verdict_simps)
  then have check: "check_slot None obs previous (Some (destination_holds_rows env (ac_captured cfg))) = Inr v"
    using assms(1) by (auto simp: slot_decision_def Let_def previous_def split: sum.splits)
  then have "observable obs" using assms(2) by (auto simp: check_slot_def verdict_simps split: if_splits)
  with check assms(2) show ?thesis by (auto simp: check_slot_without_point split: if_splits)
qed

definition untouched :: "acquisition_world \<Rightarrow> acquisition_world \<Rightarrow> bool" where
  "untouched w w' \<longleftrightarrow> aq_journal w' = aq_journal w \<and> aq_tables w' = aq_tables w \<and> aq_row w' = aq_row w \<and>
     aq_files w' = aq_files w \<and> aq_relations w' = aq_relations w \<and> aq_baseline w' = aq_baseline w"

lemma untouched_refl: "untouched w w"
  by (simp add: untouched_def)

lemma untouched_trans [trans]: "untouched w w' \<Longrightarrow> untouched w' w'' \<Longrightarrow> untouched w w''"
  by (simp add: untouched_def)

lemma untouched_rules:
  "untouched w (observe_source_health p state lsn w)" "untouched w (refusal_alert cfg obs v w)"
  "untouched w (w\<lparr>aq_alerts := as\<rparr>)"
  "put_slot_state env slot obs' verdict w = (res, w') \<Longrightarrow> untouched w w'"
  by (auto simp: untouched_def observe_source_health_def refusal_alert_def put_slot_state_def Let_def split: sum.splits prod.splits)

lemma defer_to_orphan_resnapshot:
  "vd_resnapshot (defer_to_orphan orphan v) \<longleftrightarrow>
     vd_resnapshot v \<and> \<not> (orphan \<and> vd_decision v = ''no_durable_destination_row'')"
  by (auto simp: defer_to_orphan_def)

lemma act_on_verdict_cases:
  assumes run: "act_on_verdict env cfg orphan obs point v0 w = (res, w')"
  shows "untouched w w' \<or> observable obs \<and> vd_resnapshot (defer_to_orphan orphan v0) \<and> ac_resnapshot_enabled cfg"
proof -
  define w1 where "w1 = refusal_alert cfg obs v0 w"
  define v where "v = defer_to_orphan orphan v0"
  obtain rec w2 where put: "put_slot_state env (ac_slot_name cfg) (recorded_observation obs point) (vd_decision v) w1 = (rec, w2)"
    by fastforce
  have w1: "untouched w w1" unfolding w1_def by (rule untouched_rules(2))
  have w2: "untouched w w2" using w1 untouched_rules(4) [OF put] by (rule untouched_trans)
  have "(w' = w1 \<or> w' = w2 \<or> w' = w2\<lparr>aq_alerts := aq_alerts w2 @ [plain_alert (vd_decision v) []]\<rparr>) \<or>
      observable obs \<and> vd_resnapshot v \<and> ac_resnapshot_enabled cfg"
    using run unfolding act_on_verdict_def Let_def w1_def [symmetric] v_def [symmetric] put
    by (cases rec) (auto split: if_splits)
  then show ?thesis using w1 w2 untouched_trans [OF w2 untouched_rules(3)] unfolding v_def by blast
qed

lemma check_the_slot_cases:
  assumes run: "check_the_slot env cfg orphan in_progress w = (res, w')"
  defines "point \<equiv> (case aq_row w of None \<Rightarrow> None | Some r \<Rightarrow> or_last_lsn r)"
    and "obs \<equiv> rv_observe env (rv_read_dsn env) (ac_slot_name cfg)"
  obtains (idle) "untouched w w'"
    | (rebuild) v w1 where "slot_decision env cfg point obs in_progress w1 = Inr v" and "aq_slots w1 = aq_slots w"
        and "vd_resnapshot v" and "\<not> (orphan \<and> vd_decision v = ''no_durable_destination_row'')"
        and "observable obs" and "ac_resnapshot_enabled cfg" and "aq_row w \<noteq> None \<Longrightarrow> point \<noteq> None"
proof (cases "case aq_row w of None \<Rightarrow> False | Some r \<Rightarrow> or_last_lsn r = None")
  case True
  then have "w' = w" using run by (simp add: check_the_slot_def)
  then show ?thesis using idle untouched_refl by blast
next
  case has_lsn: False
  then have point: "aq_row w \<noteq> None \<Longrightarrow> point \<noteq> None" by (auto simp: point_def)
  define w1 where "w1 = (if observable obs
      then observe_source_health (rv_pipeline env) ''reachable'' (so_confirmed_flush_lsn obs) w else w)"
  have w1: "untouched w w1" "aq_slots w1 = aq_slots w"
    using untouched_rules(1) [of w] untouched_refl [of w]
    by (simp_all add: w1_def, simp add: observe_source_health_def Let_def)
  have run': "(case slot_decision env cfg point obs in_progress w1 of
        Inl e \<Rightarrow> (Inl e, w1) | Inr v \<Rightarrow> act_on_verdict env cfg orphan obs point v w1) = (res, w')"
    using run unfolding check_the_slot_def if_not_P [OF has_lsn] w1_def point_def obs_def Let_def .
  show ?thesis
  proof (cases "slot_decision env cfg point obs in_progress w1")
    case (Inl e)
    then show ?thesis using run' idle w1(1) by simp
  next
    case (Inr v)
    then have "untouched w1 w' \<or> observable obs \<and> vd_resnapshot (defer_to_orphan orphan v) \<and> ac_resnapshot_enabled cfg"
      using run' act_on_verdict_cases by simp
    then show ?thesis
      using idle untouched_trans [OF w1(1)] rebuild [OF Inr w1(2)] point by (auto simp: defer_to_orphan_resnapshot)
  qed
qed

text \<open>C23: The slot check of an acquisition touches the journal, the lifecycle table, the resume row, the files or the
  recorded catalog only if the source answers and rebuilds are enabled, and then only for a cause: with a resume row,
  the verdict on the slot asks for a rebuild; without one, there is no orphan offset file and every captured
  destination table is absent or counted empty.\<close>

theorem rebuild_needs_a_cause:
  assumes "check_the_slot env cfg orphan in_progress w = (res, w')" and "\<not> untouched w w'"
  shows "so_error (rv_observe env (rv_read_dsn env) (ac_slot_name cfg)) = None \<and> ac_resnapshot_enabled cfg \<and>
    (case aq_row w of
       None \<Rightarrow> \<not> orphan \<and> (\<forall>(schema, table, target) \<in> set (ac_captured cfg). rv_count env target \<in> {None, Some 0})
     | Some row \<Rightarrow> \<exists>v. check_slot (or_last_lsn row) (rv_observe env (rv_read_dsn env) (ac_slot_name cfg))
         (map_option sp_row (read_slot_state (aq_slots w) (rv_pipeline env) (ac_slot_name cfg))) None = Inr v \<and> vd_resnapshot v)"
  using assms(1)
proof (cases rule: check_the_slot_cases)
  case idle
  with assms(2) show ?thesis by blast
next
  case (rebuild v w1)
  show ?thesis
  proof (cases "aq_row w")
    case None
    then have "destination_holds_rows env (ac_captured cfg) = [] \<and> vd_decision v = ''no_durable_destination_row''"
      using rebuild(1,3) by (intro slot_decision_without_row) simp_all
    then show ?thesis using None rebuild(4-6) by (auto simp: observable_def dest: destination_holds_rows_empty)
  next
    case (Some row)
    then have point: "or_last_lsn row \<noteq> None" using rebuild(7) by simp
    then have "\<not> retained_handoff (or_last_lsn row) obs previous in_progress" for obs previous
      by (simp add: retained_handoff_def)
    then have "check_slot (or_last_lsn row) (rv_observe env (rv_read_dsn env) (ac_slot_name cfg))
         (map_option sp_row (read_slot_state (aq_slots w) (rv_pipeline env) (ac_slot_name cfg))) None = Inr v"
      using rebuild(1,2) Some point by (auto simp: slot_decision_def Let_def split: sum.splits)
    then show ?thesis using Some rebuild(3,5,6) by (auto simp: observable_def)
  qed
qed

section \<open>Concrete runs\<close>

definition slot_seen :: slot_observation where
  "slot_seen = \<lparr>so_slot_exists = True, so_active = False, so_restart_lsn = Some 10, so_confirmed_flush_lsn = Some 900,
     so_current_wal_lsn = Some 950, so_system_identifier = Some ''7'', so_timeline_id = Some 1,
     so_wal_status = Some ''reserved'', so_invalidation_reason = None, so_error = None\<rparr>"

definition calm_env :: recovery_env where
  "calm_env = \<lparr>rv_pipeline = ''p'', rv_namespace = ''n'', rv_read_dsn = ''d'', rv_slot_owner_dsn = ''d'',
     rv_new_id = ''r1'', rv_certificate = Some [], rv_observe = (\<lambda>_ _. slot_seen), rv_undeletable = (\<lambda>_. False),
     rv_count = (\<lambda>_. None), rv_crash = (\<lambda>_. False)\<rparr>"

definition dying_env :: "recovery_cut \<Rightarrow> recovery_env" where
  "dying_env anchor = calm_env\<lparr>rv_crash := (\<lambda>c. c = anchor)\<rparr>"

definition sample_receipt :: slot_receipt where
  "sample_receipt = \<lparr>sp_pipeline = ''p'', sp_slot_name = ''s'', sp_row = recorded_observation slot_seen (Some 5)\<rparr>"

definition announce_args :: begin_args where
  "announce_args = \<lparr>bg_decision = ''slot_ahead_of_destination'', bg_slot_name = ''s'', bg_offset_path = ''st/offsets.dat'',
     bg_captured = [(''app'', ''t'', ''app_t''), (''app'', ''u'', ''app_u'')], bg_forget_catalog = False,
     bg_receipt = sample_receipt, bg_state_dir = None, bg_severity = ''critical'', bg_expected_identity = JNull\<rparr>"

definition running_world :: acquisition_world where
  "running_world = \<lparr>aq_journal = None, aq_tables = \<lparr>cs_rows = [], cs_alerts = []\<rparr>,
     aq_row = Some (write_resume_point sample_point 5 None), aq_slots = [((''p'', ''s''), sp_row sample_receipt)],
     aq_relations = [(''p'', ''app.t'')], aq_baseline = [], aq_health = [], aq_alerts = [],
     aq_files = [(''st/offsets.dat'', OffsetFile [])]\<rparr>"

definition announced_world :: acquisition_world where
  "announced_world = snd (recovery_begin (dying_env RequestedRecorded) announce_args running_world)"

definition announced_row :: recovery_row where
  "announced_row = the (aq_journal announced_world)"

definition sample_restarts :: "recovery_env list" where
  "sample_restarts = [dying_env FileDeleted, dying_env RowDeleted, dying_env SlotRetired, calm_env, dying_env ArmedRecorded]"

lemma sample_announced:
  "recovery_begin (dying_env RequestedRecorded) announce_args running_world = (Inl Interrupted, announced_world)"
  "aq_journal announced_world = Some announced_row" "jr_recovery_id announced_row = rv_new_id (dying_env RequestedRecorded)"
  "map_option jr_recovery_id (aq_journal running_world) \<noteq> Some (rv_new_id (dying_env RequestedRecorded))"
proof -
  have "fst (recovery_begin (dying_env RequestedRecorded) announce_args running_world) = Inl Interrupted" by code_simp
  then show "recovery_begin (dying_env RequestedRecorded) announce_args running_world = (Inl Interrupted, announced_world)"
    by (simp add: announced_world_def prod_eq_iff)
  have "aq_journal announced_world \<noteq> None" by code_simp
  then show "aq_journal announced_world = Some announced_row" by (simp add: announced_row_def)
  show "jr_recovery_id announced_row = rv_new_id (dying_env RequestedRecorded)" by code_simp
  show "map_option jr_recovery_id (aq_journal running_world) \<noteq> Some (rv_new_id (dying_env RequestedRecorded))" by code_simp
qed

lemma sample_path:
  "bg_offset_path announce_args \<noteq> []"
  "case bg_state_dir announce_args of None \<Rightarrow> True | Some d \<Rightarrow> in_directory d (bg_offset_path announce_args)"
  "list_all (deletable announced_row (bg_offset_path announce_args)) sample_restarts"
  "list_ex (undisturbed announced_row (bg_offset_path announce_args)) sample_restarts"
  by (simp_all add: announce_args_def deletable_def undisturbed_def sample_restarts_def dying_env_def calm_env_def
    slot_seen_def observable_def)

theorem recovery_is_announced_whole_witness:
  "recovery_read announced_world = Inr (Some (record_of announced_row)) \<and> aq_row announced_world = aq_row running_world \<and>
   stored_state (''p'', ''app'', ''t'') (aq_tables announced_world) = LIFECYCLE_AWAITING"
  using recovery_is_announced_whole [OF sample_announced(1)] sample_announced(2,4)
  by (auto simp: requested_whole_def announce_args_def dying_env_def calm_env_def running_world_def)

theorem recovery_reaches_armed_witness:
  "aq_journal (restarts sample_restarts announced_world) = Some (announced_row\<lparr>jr_phase := RECOVERY_ARMED\<rparr>) \<and>
   aq_row (restarts sample_restarts announced_world) = None \<and>
   stored_state (''p'', ''app'', ''u'') (aq_tables (restarts sample_restarts announced_world)) = LIFECYCLE_AWAITING"
  using recovery_reaches_armed [OF sample_announced sample_path]
  by (simp add: announce_args_def dying_env_def calm_env_def)


text \<open>The rebuild finished and the main stream wrote a resume row again.\<close>

definition rebuilt_world :: acquisition_world where
  "rebuilt_world = (let w = restarts sample_restarts announced_world in
     w\<lparr>aq_tables := snd (transition_all ''p'' LIFECYCLE_IN_PROGRESS LIFECYCLE_COMPLETE False ''swapped''
         (snd (transition_all ''p'' LIFECYCLE_AWAITING LIFECYCLE_IN_PROGRESS False ''started'' (aq_tables w)))),
       aq_row := Some (write_resume_point sample_point 6 None)\<rparr>)"

definition rebuilt_record :: recovery_record where
  "rebuilt_record = record_of (the (aq_journal rebuilt_world))"

theorem cleared_recovery_rebuilt_every_table_witness:
  "aq_journal (snd (complete_if_ready (dying_env RequestedRecorded) rebuilt_record [] False rebuilt_world)) = None \<and>
   stored_state (''p'', ''app'', ''t'') (aq_tables rebuilt_world) = LIFECYCLE_COMPLETE"
proof -
  define m where "m = complete_if_ready (dying_env RequestedRecorded) rebuilt_record [] False rebuilt_world"
  have ok: "(case fst m of Inl _ \<Rightarrow> False | Inr c \<Rightarrow> cm_cleared c)" unfolding m_def by code_simp
  then obtain c where c: "fst m = Inr c" "cm_cleared c" by (auto split: sum.splits)
  have run: "complete_if_ready (dying_env RequestedRecorded) rebuilt_record [] False rebuilt_world = (Inr c, snd m)"
    using c(1) by (simp add: m_def prod_eq_iff)
  have later: "aq_journal rebuilt_world = aq_journal (restarts sample_restarts announced_world)"
    by (simp add: rebuilt_world_def Let_def)
  have "recovery_read rebuilt_world = Inr (Some rebuilt_record)" by code_simp
  moreover have "plain_rows (aq_tables rebuilt_world)" by code_simp
  moreover have "(''app'', ''t'', ''app_t'') \<in> set (bg_captured announce_args)" by (simp add: announce_args_def)
  ultimately show ?thesis
    using cleared_recovery_rebuilt_every_table [OF sample_announced sample_path(1-3) later _ _ _ _ run c(2), of
      "''app''" "''t''" "''app_t''"]
    by (simp add: m_def dying_env_def calm_env_def)
qed

definition slot_config :: acquisition_config where
  "slot_config = \<lparr>ac_slot_name = ''s'', ac_state_dir = ''st'',
     ac_captured = [(''app'', ''t'', ''app_t''), (''app'', ''u'', ''app_u'')], ac_resnapshot_enabled = True\<rparr>"

theorem rebuild_needs_a_cause_witness:
  "\<exists>v. check_slot (Some 100) slot_seen (Some (sp_row sample_receipt)) None = Inr v \<and> vd_resnapshot v"
proof -
  obtain res w' where run: "check_the_slot calm_env slot_config False False running_world = (res, w')" by fastforce
  have "\<not> untouched running_world (snd (check_the_slot calm_env slot_config False False running_world))" by code_simp
  then have "\<not> untouched running_world w'" by (simp add: run)
  from rebuild_needs_a_cause [OF run this] show ?thesis
    by (simp add: running_world_def write_resume_point_def sample_point_def slot_config_def calm_env_def
      read_slot_state_def)
qed

text \<open>The whole route in one run: the slot is ahead of the destination, the recovery is announced and armed, and the
  memory of the slot says that it is retained.\<close>

lemma sample_slot_recovery:
  "(case check_the_slot calm_env slot_config False False running_world of
      (Inr (v, Some (r, report)), w) \<Rightarrow>
        vd_decision v = ''slot_ahead_of_destination'' \<and> rr_phase r = RECOVERY_ARMED \<and> rs_slot report = Some ''retained'' \<and>
        aq_row w = None \<and> aq_files w = [] \<and>
        map_option (\<lambda>s. sl_verdict (sp_row s)) (read_slot_state (aq_slots w) ''p'' ''s'') = Some (Some ''recovery_retained'')
    | _ \<Rightarrow> False)"
  by code_simp

text \<open>A reset ignores the error of a file that it cannot delete, records the file as deleted and goes on: the resume row
  is deleted over a file that is still there, which the next reconciliation refuses as an orphan.\<close>

lemma reset_leaves_an_orphan:
  "(case journal_the_reset (calm_env\<lparr>rv_undeletable := (\<lambda>p. p = ''st/offsets.dat'')\<rparr>) slot_config running_world of
      (Inr (r, report), w) \<Rightarrow>
        rr_phase r = RECOVERY_ARMED \<and> rs_offset_file report = Some ''removed'' \<and>
        fst (reconcile \<lparr>ro_accept_orphan = False, ro_repair = True, ro_before_repair = False\<rparr> ''n''
               (offsets_of ''st/offsets.dat'' w)) = Inl ReconciliationRefused
    | _ \<Rightarrow> False)"
  by code_simp

text \<open>A completion by the retained slot gives as its reason that the tables were verified empty.\<close>

lemma retained_completion_claims_empty:
  "(case complete_if_ready calm_env rebuilt_record [] True (rebuilt_world\<lparr>aq_row := None\<rparr>) of
      (Inr c, w) \<Rightarrow> cm_cleared c \<and> cm_reason c = ''every captured table was verified empty at the source''
    | _ \<Rightarrow> False)"
  by code_simp

text \<open>While a recovery is in progress, the slot of another cluster on another timeline is taken as the retained slot,
  and its identity replaces the remembered one.\<close>

lemma other_cluster_is_taken_as_retained:
  "(case check_the_slot (calm_env\<lparr>rv_observe := (\<lambda>_ _. slot_seen\<lparr>so_system_identifier := Some ''8'', so_timeline_id := Some 2\<rparr>)\<rparr>)
          slot_config False True (restarts sample_restarts announced_world) of
      (Inr (v, None), w) \<Rightarrow>
        vd_ok v \<and> vd_decision v = ''recovery_retained'' \<and>
        map_option (\<lambda>s. sl_system_identifier (sp_row s)) (read_slot_state (aq_slots w) ''p'' ''s'') = Some (Some ''8'')
    | _ \<Rightarrow> False)"
  by code_simp

end
