(* ===== verification/Schema_Evolution.thy ===== *)
theory Schema_Evolution
  imports Table_Lifecycle Json_Text
begin

text \<open>
  Column changes of a source table and their application to its destination table
  (\<open>schema_evolution.py\<close>, and \<open>rename_column\<close>, \<open>drop_column\<close>, \<open>_refresh\<close> of
  \<open>schema_registry.py\<close> and \<open>_rebuild_with_primary_key\<close> of \<open>schema_ddl.py\<close>).

  A catalog poll compares the source columns by \<open>attnum\<close> (\<open>diff_columns\<close>) and the destination
  applies the resulting changes inside the commit group's transaction
  (\<open>apply_column_changes\<close>).  The destination table is its physical columns, its primary key,
  its rows (a row maps a column to its value, \<open>None\<close> for NULL), the \<open>column_presence\<close>
  journal entries of the table, the key-metadata sidecar, and the registry's cached
  \<open>TableSchema\<close>.  Type descriptors are a type parameter: their fingerprint, the parser of
  formatted type names, \<open>ensure_typed\<close> and \<open>convert_column_to_union\<close> are fields of the
  environment, as is the naming convention of the dlt package and whether the destination
  accepts a DDL statement.  The stored types of the columns are not modelled (only the two
  parameter operations read them).  The abstraction \<open>shape\<close> of a table maps each column to the list of
  its values; the lemmas show what each operation does to the shape, and what a whole diff does.
\<close>

section \<open>Source columns and their changes\<close>

text \<open>A source column with the facts a diff reads; the TOAST storage, the typmod and the missing
  default of the catalog row serve the value codecs and the backfill.\<close>

record 'd source_column =
  sc_attnum :: int
  sc_name :: string
  sc_type_oid :: int
  sc_type_name :: string
  sc_nullable :: bool
  sc_descriptor :: "'d option"

datatype column_kind = COLUMN_ADDED | COLUMN_DROPPED | COLUMN_RENAMED | COLUMN_TYPE_CHANGED

record 'd column_change =
  cc_kind :: column_kind
  cc_attnum :: int
  cc_old_name :: "string option"
  cc_new_name :: "string option"
  cc_type_oid :: "int option"
  cc_type_name :: "string option"
  cc_nullable :: bool
  cc_type_changed :: bool
  cc_old_type_oid :: "int option"
  cc_old_type_name :: "string option"
  cc_old_descriptor :: "'d option"
  cc_new_descriptor :: "'d option"

section \<open>The destination table and its cached shape\<close>

record 'v dest_table =
  dt_columns :: "string list"
  dt_primary :: "string list"
  dt_rows :: "(string \<Rightarrow> 'v option) list"
  dt_presence :: "('v \<times> string) list"
  dt_metadata :: "string list option"
  tc_exists :: bool
  tc_columns :: "string list"
  tc_key_columns :: "string list"
  tc_source_key_columns :: "string list"
  tc_constrained :: bool

datatype ddl = RenameColumn string string | DropColumn string | RebuildTable string "string list"

datatype evolution_error =
  DdlFailed | PrimaryKeyDropped | ReplacementKeyMissing | DescriptorMissing | Undeliverable

record ('d, 'v) evolution_env =
  ev_normalize :: "string \<Rightarrow> string"
  ev_fingerprint :: "'d \<Rightarrow> string"
  ev_from_type_name :: "string \<Rightarrow> int option \<Rightarrow> 'd"
  ev_ddl :: "ddl \<Rightarrow> 'v dest_table \<Rightarrow> bool"
  ev_ensure :: "'v dest_table \<Rightarrow> string \<Rightarrow> 'd \<Rightarrow> string list \<Rightarrow> unit + 'v dest_table"
  ev_convert :: "'v dest_table \<Rightarrow> string option \<Rightarrow> 'd \<Rightarrow> 'd \<Rightarrow> unit + 'v dest_table"

definition event_id_column :: string where
  "event_id_column = ''cdcf_event_id''"

definition destination_name :: "('d, 'v) evolution_env \<Rightarrow> 'd source_column \<Rightarrow> string" where
  "destination_name env c = ev_normalize env (sc_name c)"

definition type_identity :: "('d, 'v) evolution_env \<Rightarrow> 'd source_column \<Rightarrow> string" where
  "type_identity env c =
     (case sc_descriptor c of
        Some d \<Rightarrow> ev_fingerprint env d
      | None \<Rightarrow> dumps_int (sc_type_oid c) @ '':'' @ map py_lower (sc_type_name c))"

definition destination_old_name :: "('d, 'v) evolution_env \<Rightarrow> 'd column_change \<Rightarrow> string option" where
  "destination_old_name env c = map_option (ev_normalize env) (cc_old_name c)"

definition destination_new_name :: "('d, 'v) evolution_env \<Rightarrow> 'd column_change \<Rightarrow> string option" where
  "destination_new_name env c = map_option (ev_normalize env) (cc_new_name c)"

section \<open>The difference of two column lists\<close>

definition added_column :: "'d source_column \<Rightarrow> 'd column_change" where
  "added_column c =
     \<lparr>cc_kind = COLUMN_ADDED, cc_attnum = sc_attnum c, cc_old_name = None,
      cc_new_name = Some (sc_name c), cc_type_oid = Some (sc_type_oid c),
      cc_type_name = Some (sc_type_name c), cc_nullable = sc_nullable c, cc_type_changed = False,
      cc_old_type_oid = None, cc_old_type_name = None, cc_old_descriptor = None,
      cc_new_descriptor = sc_descriptor c\<rparr>"

definition dropped_column :: "'d source_column \<Rightarrow> 'd column_change" where
  "dropped_column c =
     \<lparr>cc_kind = COLUMN_DROPPED, cc_attnum = sc_attnum c, cc_old_name = Some (sc_name c),
      cc_new_name = None, cc_type_oid = Some (sc_type_oid c),
      cc_type_name = Some (sc_type_name c), cc_nullable = sc_nullable c, cc_type_changed = False,
      cc_old_type_oid = None, cc_old_type_name = None, cc_old_descriptor = sc_descriptor c,
      cc_new_descriptor = None\<rparr>"

definition altered_column ::
  "column_kind \<Rightarrow> bool \<Rightarrow> 'd source_column \<Rightarrow> 'd source_column \<Rightarrow> 'd column_change" where
  "altered_column kind changed previous current =
     \<lparr>cc_kind = kind, cc_attnum = sc_attnum current, cc_old_name = Some (sc_name previous),
      cc_new_name = Some (sc_name current), cc_type_oid = Some (sc_type_oid current),
      cc_type_name = Some (sc_type_name current), cc_nullable = sc_nullable current,
      cc_type_changed = changed, cc_old_type_oid = Some (sc_type_oid previous),
      cc_old_type_name = Some (sc_type_name previous), cc_old_descriptor = sc_descriptor previous,
      cc_new_descriptor = sc_descriptor current\<rparr>"

definition by_attnum :: "'d source_column list \<Rightarrow> (int, 'd source_column) dict" where
  "by_attnum cs = fold (\<lambda>c d. AList.update (sc_attnum c) c d) cs []"

definition column_diff ::
  "('d, 'v) evolution_env \<Rightarrow> 'd source_column option \<Rightarrow> 'd source_column option \<Rightarrow> 'd column_change list" where
  \<comment> \<open>the body of the loop, for one attribute number\<close>
  "column_diff env previous current =
     (case (previous, current) of
        (None, None) \<Rightarrow> []
      | (None, Some c) \<Rightarrow> [added_column c]
      | (Some p, None) \<Rightarrow> [dropped_column p]
      | (Some p, Some c) \<Rightarrow>
          if sc_name p \<noteq> sc_name c
          then [altered_column COLUMN_RENAMED (type_identity env p \<noteq> type_identity env c) p c]
          else if type_identity env p \<noteq> type_identity env c
          then [altered_column COLUMN_TYPE_CHANGED False p c]
          else [])"

definition diff_columns ::
  "('d, 'v) evolution_env \<Rightarrow> 'd source_column list \<Rightarrow> 'd source_column list \<Rightarrow> 'd column_change list" where
  "diff_columns env pre post =
     (let old = by_attnum pre; new = by_attnum post in
      concat (map (\<lambda>n. column_diff env (map_of old n) (map_of new n))
               (sort (remdups (map fst old @ map fst new)))))"

section \<open>Operations of the registry\<close>

definition refresh :: "'v dest_table \<Rightarrow> 'v dest_table" where
  "refresh t =
     (if dt_columns t = [] then t
      else let t' = t\<lparr>tc_exists := True, tc_columns := dt_columns t\<rparr> in
           if dt_primary t = [] then t'
           else t'\<lparr>tc_key_columns :=
                  (if tc_source_key_columns t \<noteq> [] then tc_source_key_columns t else dt_primary t)\<rparr>)"

definition persist_key_metadata :: "'v dest_table \<Rightarrow> 'v dest_table" where
  "persist_key_metadata t = t\<lparr>dt_metadata := Some (tc_source_key_columns t)\<rparr>"

definition rename_in :: "string \<Rightarrow> string \<Rightarrow> string list \<Rightarrow> string list" where
  "rename_in old new cs = map (\<lambda>c. if c = old then new else c) cs"

definition sql_rename_column :: "string \<Rightarrow> string \<Rightarrow> 'v dest_table \<Rightarrow> 'v dest_table" where
  "sql_rename_column old new t =
     t\<lparr>dt_columns := rename_in old new (dt_columns t), dt_primary := rename_in old new (dt_primary t),
       dt_rows := map (\<lambda>r. r(new := r old, old := None)) (dt_rows t)\<rparr>"

definition sql_drop_column :: "string \<Rightarrow> 'v dest_table \<Rightarrow> 'v dest_table" where
  "sql_drop_column c t =
     t\<lparr>dt_columns := filter (\<lambda>x. x \<noteq> c) (dt_columns t), dt_rows := map (\<lambda>r. r(c := None)) (dt_rows t)\<rparr>"

definition presence_says ::
  "('v \<times> string) list \<Rightarrow> string \<Rightarrow> (string \<Rightarrow> 'v option) \<Rightarrow> bool" where
  "presence_says journal col r =
     (case r event_id_column of None \<Rightarrow> False | Some e \<Rightarrow> (e, col) \<in> set journal)"

definition merged_value ::
  "bool \<Rightarrow> ('v \<times> string) list \<Rightarrow> string \<Rightarrow> string \<Rightarrow> (string \<Rightarrow> 'v option) \<Rightarrow> 'v option" where
  \<comment> \<open>the two UPDATE statements of a late rename\<close>
  "merged_value journalled journal old new r =
     (if journalled then (if presence_says journal new r then r new else r old)
      else case r new of Some v \<Rightarrow> Some v | None \<Rightarrow> r old)"

definition merge_columns :: "string \<Rightarrow> string \<Rightarrow> 'v dest_table \<Rightarrow> 'v dest_table" where
  "merge_columns old new t =
     t\<lparr>dt_rows := map (\<lambda>r. r(new := merged_value (event_id_column \<in> set (tc_columns t))
                                     (dt_presence t) old new r)) (dt_rows t)\<rparr>"

definition identity_holds :: "string list \<Rightarrow> (string \<Rightarrow> 'v option) list \<Rightarrow> bool" where
  \<comment> \<open>what a PRIMARY KEY accepts\<close>
  "identity_holds ks rows \<longleftrightarrow>
     distinct (map (\<lambda>r. map r ks) rows) \<and> (\<forall>r\<in>set rows. \<forall>k\<in>set ks. r k \<noteq> None)"

definition rebuild_with_primary_key ::
  "('d, 'v) evolution_env \<Rightarrow> string \<Rightarrow> string list \<Rightarrow> 'v dest_table \<Rightarrow> evolution_error + 'v dest_table" where
  "rebuild_with_primary_key env c ks t =
     (let cols = filter (\<lambda>x. x \<noteq> c) (tc_columns t) in
      if ks = [] \<or> (\<exists>k\<in>set ks. k \<notin> set cols) then Inl ReplacementKeyMissing
      else if \<not> ev_ddl env (RebuildTable c ks) t \<or> \<not> identity_holds ks (dt_rows t) then Inl DdlFailed
      else Inr (t\<lparr>dt_columns := cols, dt_primary := ks, dt_rows := map (\<lambda>r. r(c := None)) (dt_rows t),
                  tc_columns := cols, tc_key_columns := ks, tc_source_key_columns := ks,
                  tc_constrained := True\<rparr>))"

definition drop_column ::
  "('d, 'v) evolution_env \<Rightarrow> string \<Rightarrow> 'v dest_table \<Rightarrow> evolution_error + 'v dest_table" where
  "drop_column env c t =
     (if \<not> tc_exists t \<or> c \<notin> set (tc_columns t) then Inr t
      else if c \<in> set (tc_key_columns t) then Inl PrimaryKeyDropped
      else if \<not> ev_ddl env (DropColumn c) t then Inl DdlFailed
      else let t' = sql_drop_column c t in
           Inr (persist_key_metadata (t'\<lparr>
             tc_columns := filter (\<lambda>x. x \<noteq> c) (tc_columns t'),
             tc_key_columns := filter (\<lambda>x. x \<noteq> c) (tc_key_columns t'),
             tc_source_key_columns := filter (\<lambda>x. x \<noteq> c) (tc_source_key_columns t')\<rparr>)))"

definition finish_merge ::
  "('d, 'v) evolution_env \<Rightarrow> string \<Rightarrow> string \<Rightarrow> 'v dest_table \<Rightarrow> evolution_error + 'v dest_table" where
  \<comment> \<open>both names exist: merge, remove the old column, forget the presence of the new one\<close>
  "finish_merge env old new t =
     (let m = merge_columns old new t in
      rbind (if old \<in> set (tc_key_columns m) \<and> tc_constrained m
             then rebuild_with_primary_key env old (rename_in old new (tc_key_columns m)) m
             else if \<not> ev_ddl env (DropColumn old) m then Inl DdlFailed
             else Inr ((sql_drop_column old m)\<lparr>tc_columns := filter (\<lambda>x. x \<noteq> old) (tc_columns m)\<rparr>))
        (\<lambda>d. Inr (if event_id_column \<in> set (tc_columns d)
                  then d\<lparr>dt_presence := filter (\<lambda>p. snd p \<noteq> new) (dt_presence d)\<rparr> else d)))"

definition rename_column ::
  "('d, 'v) evolution_env \<Rightarrow> string option \<Rightarrow> string option \<Rightarrow> 'v dest_table \<Rightarrow>
   evolution_error + 'v dest_table" where
  "rename_column env old_name new_name t =
     (if \<not> truthy_str old_name \<or> \<not> truthy_str new_name \<or> old_name = new_name then Inr t
      else if \<not> tc_exists t then Inr t
      else let old = the old_name; new = the new_name; r = refresh t in
        rbind (if old \<in> set (tc_columns r) \<and> new \<notin> set (tc_columns r)
               then if \<not> ev_ddl env (RenameColumn old new) r then Inl DdlFailed
                    else Inr ((sql_rename_column old new r)\<lparr>tc_columns := rename_in old new (tc_columns r)\<rparr>)
               else if old \<in> set (tc_columns r) then finish_merge env old new r
               else Inr r)
          (\<lambda>d. Inr (persist_key_metadata (d\<lparr>
             tc_key_columns := rename_in old new (tc_key_columns d),
             tc_source_key_columns := rename_in old new (tc_source_key_columns d)\<rparr>))))"

section \<open>Applying a diff\<close>

definition refused :: "unit + 'v dest_table \<Rightarrow> evolution_error + 'v dest_table" where
  "refused m = (case m of Inl _ \<Rightarrow> Inl Undeliverable | Inr t \<Rightarrow> Inr t)"

definition descriptor_or ::
  "('d, 'v) evolution_env \<Rightarrow> 'd option \<Rightarrow> string option \<Rightarrow> int option \<Rightarrow> 'd" where
  "descriptor_or env d name oid =
     (case d of Some x \<Rightarrow> x
      | None \<Rightarrow> ev_from_type_name env (if truthy_str name then the name else ''text'') oid)"

definition old_descriptor_of :: "('d, 'v) evolution_env \<Rightarrow> 'd column_change \<Rightarrow> 'd" where
  "old_descriptor_of env c = descriptor_or env (cc_old_descriptor c) (cc_old_type_name c) (cc_old_type_oid c)"

definition new_descriptor_of :: "('d, 'v) evolution_env \<Rightarrow> 'd column_change \<Rightarrow> 'd" where
  "new_descriptor_of env c = descriptor_or env (cc_new_descriptor c) (cc_type_name c) (cc_type_oid c)"

definition rename_or_drop ::
  "('d, 'v) evolution_env \<Rightarrow> 'v dest_table \<Rightarrow> 'd column_change \<Rightarrow> evolution_error + 'v dest_table" where
  \<comment> \<open>the body of the first loop\<close>
  "rename_or_drop env t c =
     (if cc_kind c = COLUMN_RENAMED
      then rbind (rename_column env (destination_old_name env c) (destination_new_name env c) t) (\<lambda>t'.
             if truthy_str (cc_type_name c) \<and> cc_type_changed c
             then if cc_old_descriptor c = None \<or> cc_new_descriptor c = None then Inl DescriptorMissing
                  else refused (ev_convert env t' (destination_new_name env c)
                                  (old_descriptor_of env c) (new_descriptor_of env c))
             else Inr t')
      else if cc_kind c = COLUMN_DROPPED \<and> truthy_str (destination_old_name env c)
      then drop_column env (the (destination_old_name env c)) t
      else Inr t)"

definition add_or_convert ::
  "('d, 'v) evolution_env \<Rightarrow> 'v dest_table \<Rightarrow> 'd column_change \<Rightarrow> evolution_error + 'v dest_table" where
  \<comment> \<open>the body of the second loop\<close>
  "add_or_convert env t c =
     (if cc_kind c = COLUMN_ADDED \<and> truthy_str (destination_new_name env c)
      then refused (ev_ensure env t (the (destination_new_name env c)) (new_descriptor_of env c)
                      (tc_key_columns t))
      else if cc_kind c = COLUMN_TYPE_CHANGED \<and> truthy_str (destination_new_name env c)
      then refused (ev_convert env t (destination_new_name env c)
                      (old_descriptor_of env c) (new_descriptor_of env c))
      else Inr t)"

definition renames_of :: "'d column_change list \<Rightarrow> 'd column_change list" where
  "renames_of cs = filter (\<lambda>c. cc_kind c = COLUMN_RENAMED) cs"

definition early_drops ::
  "('d, 'v) evolution_env \<Rightarrow> 'd column_change list \<Rightarrow> 'd column_change list" where
  "early_drops env cs =
     filter (\<lambda>c. cc_kind c = COLUMN_DROPPED \<and>
                 destination_old_name env c \<in> destination_new_name env ` set (renames_of cs)) cs"

definition late_drops ::
  "('d, 'v) evolution_env \<Rightarrow> 'd column_change list \<Rightarrow> 'd column_change list" where
  \<comment> \<open>everything that is not an early drop, the renames included\<close>
  "late_drops env cs = filter (\<lambda>c. c \<notin> set (early_drops env cs)) cs"

definition apply_column_changes ::
  "('d, 'v) evolution_env \<Rightarrow> 'v dest_table \<Rightarrow> 'd column_change list \<Rightarrow> evolution_error + 'v dest_table" where
  "apply_column_changes env t cs =
     rbind (rfold (rename_or_drop env) t (early_drops env cs @ renames_of cs @ late_drops env cs))
       (\<lambda>t'. rfold (add_or_convert env) t' cs)"

section \<open>What the operations do to the shape of the table\<close>

definition shape :: "'v dest_table \<Rightarrow> string \<Rightarrow> 'v option list option" where
  "shape t c = (if c \<in> set (dt_columns t) then Some (map (\<lambda>r. r c) (dt_rows t)) else None)"

definition cache_current :: "'v dest_table \<Rightarrow> bool" where
  "cache_current t \<longleftrightarrow> tc_exists t \<and> set (tc_columns t) = set (dt_columns t) \<and>
     set (dt_primary t) \<subseteq> set (dt_columns t)"

definition key_names :: "'v dest_table \<Rightarrow> string set" where
  "key_names t = set (tc_key_columns t) \<union> set (tc_source_key_columns t) \<union> set (dt_primary t)"

definition renamed :: "string \<Rightarrow> string \<Rightarrow> string \<Rightarrow> string" where
  "renamed old new k = (if k = old then new else k)"

lemma shape_None_iff: "shape t c = None \<longleftrightarrow> c \<notin> set (dt_columns t)"
  by (simp add: shape_def)

lemma set_rename_in: "set (rename_in old new cs) = renamed old new ` set cs"
  by (auto simp: rename_in_def renamed_def)

lemma refresh_shape [simp]: "shape (refresh t) = shape t"
  by (simp add: refresh_def shape_def fun_eq_iff Let_def)

lemma refresh_dt [simp]:
  "dt_columns (refresh t) = dt_columns t" "dt_rows (refresh t) = dt_rows t"
  "dt_primary (refresh t) = dt_primary t"
  by (simp_all add: refresh_def Let_def)

lemma refresh_current: "cache_current t \<Longrightarrow> cache_current (refresh t)"
  by (auto simp add: refresh_def cache_current_def Let_def)

lemma refresh_columns: "cache_current t \<Longrightarrow> set (tc_columns (refresh t)) = set (dt_columns t)"
  by (simp add: refresh_def cache_current_def Let_def)

lemma refresh_keys: "key_names (refresh t) \<subseteq> key_names t"
  by (auto simp: refresh_def key_names_def Let_def)

lemma persist_simps [simp]:
  "shape (persist_key_metadata t) = shape t"
  "cache_current (persist_key_metadata t) = cache_current t"
  "key_names (persist_key_metadata t) = key_names t"
  by (simp_all add: persist_key_metadata_def shape_def cache_current_def key_names_def fun_eq_iff)

lemma shape_sql_drop: "shape (sql_drop_column c t) = (shape t)(c := None)"
  by (auto simp: shape_def sql_drop_column_def fun_eq_iff)

lemma shape_sql_rename:
  assumes "old \<in> set (dt_columns t)" and "new \<notin> set (dt_columns t)"
  shows "shape (sql_rename_column old new t) = (shape t)(new := shape t old, old := None)"
  using assms by (auto simp: shape_def sql_rename_column_def set_rename_in renamed_def fun_eq_iff)

text \<open>Dropping a column that is no key removes it from the shape and touches nothing else.\<close>

lemma drop_column_shape:
  assumes cur: "cache_current t" and key: "c \<notin> key_names t" and ddl: "\<And>d x. ev_ddl env d x"
  shows "\<exists>t'. drop_column env c t = Inr t' \<and> cache_current t' \<and> shape t' = (shape t)(c := None) \<and>
              key_names t' \<subseteq> key_names t"
proof (cases "c \<in> set (dt_columns t)")
  case True
  define u where "u = (sql_drop_column c t)\<lparr>tc_columns := filter (\<lambda>x. x \<noteq> c) (tc_columns t),
       tc_key_columns := filter (\<lambda>x. x \<noteq> c) (tc_key_columns t),
       tc_source_key_columns := filter (\<lambda>x. x \<noteq> c) (tc_source_key_columns t)\<rparr>"
  have run: "drop_column env c t = Inr (persist_key_metadata u)"
    using True cur key ddl
    by (simp add: drop_column_def cache_current_def key_names_def u_def sql_drop_column_def)
  have s: "shape u = shape (sql_drop_column c t)"
    by (simp add: u_def shape_def fun_eq_iff)
  have "cache_current u" "key_names u \<subseteq> key_names t"
    using cur key by (auto simp: u_def cache_current_def sql_drop_column_def key_names_def)
  then show ?thesis using run s by (simp add: shape_sql_drop)
next
  case False
  then have "shape t = (shape t)(c := None)" by (simp add: shape_def fun_eq_iff)
  then show ?thesis using False cur by (simp add: drop_column_def cache_current_def)
qed

text \<open>Renaming onto a name the table does not have moves the column's values; a rename whose
  source is absent changes nothing.\<close>

lemma rename_column_shape:
  assumes cur: "cache_current t" and ne: "old \<noteq> ''''" "new \<noteq> ''''" "old \<noteq> new"
    and fresh: "old \<in> set (dt_columns t) \<Longrightarrow> new \<notin> set (dt_columns t)" and ddl: "\<And>d x. ev_ddl env d x"
  shows "\<exists>t'. rename_column env (Some old) (Some new) t = Inr t' \<and> cache_current t' \<and>
              shape t' = (if old \<in> set (dt_columns t) then (shape t)(new := shape t old, old := None) else shape t) \<and>
              key_names t' \<subseteq> renamed old new ` key_names t"
proof -
  define r where "r = refresh t"
  define fin where "fin = (\<lambda>d :: 'a dest_table. persist_key_metadata (d\<lparr>tc_key_columns := rename_in old new (tc_key_columns d),
             tc_source_key_columns := rename_in old new (tc_source_key_columns d)\<rparr>))"
  have r: "cache_current r" "set (tc_columns r) = set (dt_columns t)" "dt_columns r = dt_columns t"
    "key_names r \<subseteq> key_names t" "shape r = shape t"
    unfolding r_def using refresh_current[OF cur] refresh_columns[OF cur] refresh_keys by simp_all
  have ex: "tc_exists t" using cur by (simp add: cache_current_def)
  have fin: "shape (fin d) = shape d" "cache_current (fin d) = cache_current d"
    "key_names (fin d) = renamed old new ` (set (tc_key_columns d) \<union> set (tc_source_key_columns d)) \<union> set (dt_primary d)" for d
    by (simp_all add: fin_def shape_def cache_current_def key_names_def set_rename_in fun_eq_iff
        persist_key_metadata_def image_Un)
  show ?thesis
  proof (cases "old \<in> set (dt_columns t)")
    case True
    define d where "d = (sql_rename_column old new r)\<lparr>tc_columns := rename_in old new (tc_columns r)\<rparr>"
    have run: "rename_column env (Some old) (Some new) t = Inr (fin d)"
      using True fresh ne ddl r ex
      by (simp add: rename_column_def Let_def r_def[symmetric] fin_def d_def)
    have "shape d = shape (sql_rename_column old new r)" by (simp add: d_def shape_def fun_eq_iff)
    then have "shape d = (shape r)(new := shape r old, old := None)"
      using shape_sql_rename[of old r new] True fresh r(3) by simp
    moreover have "cache_current d"
      using r by (auto simp: d_def cache_current_def sql_rename_column_def set_rename_in)
    moreover have "key_names (fin d) = renamed old new ` key_names r"
      unfolding fin(3) by (simp add: d_def key_names_def sql_rename_column_def set_rename_in image_Un)
    ultimately show ?thesis using run True r by (auto simp: fin)
  next
    case False
    have run: "rename_column env (Some old) (Some new) t = Inr (fin r)"
      using False ne r ex by (simp add: rename_column_def Let_def r_def[symmetric] fin_def)
    have "renamed old new k = k" if "k \<in> set (dt_primary r)" for k
      using that False r by (auto simp: renamed_def cache_current_def)
    then have "set (dt_primary r) = renamed old new ` set (dt_primary r)" by force
    then have "key_names (fin r) = renamed old new ` key_names r"
      unfolding fin(3) key_names_def[of r] image_Un by blast
    then show ?thesis using run False r by (auto simp: fin)
  qed
qed

section \<open>What the environment's operations keep\<close>

definition agrees :: "string set \<Rightarrow> (string \<Rightarrow> 'a option) \<Rightarrow> (string \<Rightarrow> 'a option) \<Rightarrow> bool" where
  \<comment> \<open>the same columns, with the same values outside \<open>X\<close>\<close>
  "agrees X m m' \<longleftrightarrow> (\<forall>c. c \<notin> X \<longrightarrow> m' c = m c) \<and> (\<forall>c. m' c = None \<longleftrightarrow> m c = None)"

definition adds_columns :: "('d, 'v) evolution_env \<Rightarrow> bool" where
  \<comment> \<open>\<open>ensure_typed\<close> adds a missing column and keeps the others\<close>
  "adds_columns env \<longleftrightarrow> (\<forall>t n d. cache_current t \<longrightarrow> (\<exists>t'.
     ev_ensure env t n d (tc_key_columns t) = Inr t' \<and> cache_current t' \<and>
     (\<forall>c. c \<noteq> n \<longrightarrow> shape t' c = shape t c) \<and> shape t' n \<noteq> None \<and> key_names t' \<subseteq> key_names t))"

definition converts_columns :: "('d, 'v) evolution_env \<Rightarrow> bool" where
  \<comment> \<open>\<open>convert_column_to_union\<close> rewrites the one column it is asked to, when it is no key\<close>
  "converts_columns env \<longleftrightarrow> (\<forall>t n d d'. cache_current t \<longrightarrow> n \<in> set (dt_columns t) \<longrightarrow> n \<notin> key_names t \<longrightarrow>
     (\<exists>t'. ev_convert env t (Some n) d d' = Inr t' \<and> cache_current t' \<and>
           agrees {n} (shape t) (shape t') \<and> key_names t' \<subseteq> key_names t))"

definition capable :: "('d, 'v) evolution_env \<Rightarrow> bool" where
  "capable env \<longleftrightarrow> (\<forall>d x. ev_ddl env d x) \<and> adds_columns env \<and> converts_columns env"

lemma agrees_refl [simp]: "agrees X m m"
  by (simp add: agrees_def)

lemma agrees_trans: "agrees X m m' \<Longrightarrow> agrees Y m' m'' \<Longrightarrow> agrees (X \<union> Y) m m''"
  by (simp add: agrees_def)

lemma agrees_mono: "agrees X m m' \<Longrightarrow> X \<subseteq> Y \<Longrightarrow> agrees Y m m'"
  by (auto simp: agrees_def)

lemma agrees_upd_None: "agrees X m m' \<Longrightarrow> agrees X (m(c := None)) (m'(c := None))"
  by (simp add: agrees_def)

lemma ensure_keeps:
  assumes "capable env" and "cache_current t"
  obtains t' where "ev_ensure env t n d (tc_key_columns t) = Inr t'" and "cache_current t'"
    and "\<forall>c. c \<noteq> n \<longrightarrow> shape t' c = shape t c" and "shape t' n \<noteq> None" and "key_names t' \<subseteq> key_names t"
  using assms unfolding capable_def adds_columns_def by blast

lemma convert_keeps:
  assumes "capable env" and "cache_current t" and "shape t n \<noteq> None" and "n \<notin> key_names t"
  obtains t' where "ev_convert env t (Some n) d d' = Inr t'" and "cache_current t'"
    and "agrees {n} (shape t) (shape t')" and "key_names t' \<subseteq> key_names t"
proof -
  have "n \<in> set (dt_columns t)" using assms(3) by (simp add: shape_def split: if_splits)
  then show ?thesis using assms that unfolding capable_def converts_columns_def by blast
qed

section \<open>One change\<close>

abbreviation old_of :: "('d, 'v) evolution_env \<Rightarrow> 'd column_change \<Rightarrow> string" where
  "old_of env c \<equiv> the (destination_old_name env c)"

abbreviation new_of :: "('d, 'v) evolution_env \<Rightarrow> 'd column_change \<Rightarrow> string" where
  "new_of env c \<equiv> the (destination_new_name env c)"

definition well_formed_change :: "('d, 'v) evolution_env \<Rightarrow> 'd column_change \<Rightarrow> bool" where
  "well_formed_change env c \<longleftrightarrow>
     (cc_kind c \<noteq> COLUMN_ADDED \<longrightarrow> truthy_str (destination_old_name env c)) \<and>
     (cc_kind c \<noteq> COLUMN_DROPPED \<longrightarrow> truthy_str (destination_new_name env c)) \<and>
     (cc_kind c = COLUMN_RENAMED \<and> cc_type_changed c \<longrightarrow>
        cc_old_descriptor c \<noteq> None \<and> cc_new_descriptor c \<noteq> None)"

definition retyped :: "('d, 'v) evolution_env \<Rightarrow> 'd column_change \<Rightarrow> string set" where
  "retyped env c =
     (if cc_kind c = COLUMN_TYPE_CHANGED \<or> cc_kind c = COLUMN_RENAMED \<and> cc_type_changed c
      then {new_of env c} else {})"

definition moved :: "string \<Rightarrow> string \<Rightarrow> (string \<Rightarrow> 'a option) \<Rightarrow> string \<Rightarrow> 'a option" where
  "moved a b m = (if a = b \<or> m a = None then m else m(b := m a, a := None))"

lemma truthy_the: "truthy_str x \<Longrightarrow> x = Some (the x) \<and> the x \<noteq> ''''"
  by (cases x) (simp_all add: truthy_str_def)

lemma rename_step:
  assumes cap: "capable env" and cur: "cache_current t" and wf: "well_formed_change env c"
    and kind: "cc_kind c = COLUMN_RENAMED"
    and fresh: "old_of env c = new_of env c \<or> shape t (old_of env c) = None \<or> shape t (new_of env c) = None"
    and present: "shape t (old_of env c) \<noteq> None \<or> shape t (new_of env c) \<noteq> None"
    and keys: "retyped env c \<noteq> {} \<Longrightarrow> old_of env c \<notin> key_names t \<and> new_of env c \<notin> key_names t"
  shows "\<exists>t'. rename_or_drop env t c = Inr t' \<and> cache_current t' \<and>
     agrees (retyped env c) (moved (old_of env c) (new_of env c) (shape t)) (shape t') \<and>
     key_names t' \<subseteq> renamed (old_of env c) (new_of env c) ` key_names t"
proof -
  define a b where "a = old_of env c" and "b = new_of env c"
  have names: "destination_old_name env c = Some a" "destination_new_name env c = Some b" "a \<noteq> ''''" "b \<noteq> ''''"
    using wf kind truthy_the unfolding well_formed_change_def a_def b_def by auto
  have "\<exists>t1. rename_column env (Some a) (Some b) t = Inr t1 \<and> cache_current t1 \<and>
          shape t1 = moved a b (shape t) \<and> key_names t1 \<subseteq> renamed a b ` key_names t"
  proof (cases "a = b")
    case True
    then have "rename_column env (Some a) (Some b) t = Inr t" by (simp add: rename_column_def)
    moreover have "renamed a b ` key_names t = key_names t" using True by (force simp: renamed_def)
    ultimately show ?thesis using cur True by (simp add: moved_def)
  next
    case False
    have "b \<notin> set (dt_columns t)" if "a \<in> set (dt_columns t)"
      using fresh False that shape_None_iff unfolding a_def b_def by metis
    from rename_column_shape[OF cur names(3,4) False this, of env] cap
    show ?thesis using False by (auto simp: capable_def moved_def shape_None_iff split: if_splits)
  qed
  then obtain t1 where t1: "rename_column env (Some a) (Some b) t = Inr t1" "cache_current t1"
    "shape t1 = moved a b (shape t)" "key_names t1 \<subseteq> renamed a b ` key_names t" by blast
  show ?thesis
  proof (cases "truthy_str (cc_type_name c) \<and> cc_type_changed c")
    case False
    then have "rename_or_drop env t c = Inr t1" using kind names t1 by (auto simp: rename_or_drop_def)
    then show ?thesis using t1 unfolding a_def b_def by auto
  next
    case True
    then have ret: "retyped env c = {b}" using kind by (simp add: retyped_def b_def)
    have "b \<notin> key_names t1" using t1(4) keys ret unfolding a_def b_def by (auto simp: renamed_def split: if_splits)
    moreover have "shape t1 b \<noteq> None"
      using present t1(3) unfolding moved_def a_def[symmetric] b_def[symmetric] by auto
    ultimately obtain t2 where t2: "ev_convert env t1 (Some b) (old_descriptor_of env c) (new_descriptor_of env c) = Inr t2"
      "cache_current t2" "agrees {b} (shape t1) (shape t2)" "key_names t2 \<subseteq> key_names t1"
      using convert_keeps[OF cap t1(2)] by metis
    have "rename_or_drop env t c = Inr t2"
      using kind names t1(1) t2(1) True wf by (auto simp: rename_or_drop_def refused_def well_formed_change_def)
    then show ?thesis using t1 t2 ret unfolding a_def b_def by auto
  qed
qed

lemma drop_step:
  assumes cap: "capable env" and cur: "cache_current t" and wf: "well_formed_change env c"
    and kind: "cc_kind c = COLUMN_DROPPED" and key: "old_of env c \<notin> key_names t"
  shows "\<exists>t'. rename_or_drop env t c = Inr t' \<and> cache_current t' \<and>
     shape t' = (shape t)(old_of env c := None) \<and> key_names t' \<subseteq> key_names t"
proof -
  have "truthy_str (destination_old_name env c)" using wf kind by (simp add: well_formed_change_def)
  then have "rename_or_drop env t c = drop_column env (old_of env c) t" using kind by (simp add: rename_or_drop_def)
  then show ?thesis using drop_column_shape[OF cur key, of env] cap unfolding capable_def by auto
qed

section \<open>The three passes of a diff\<close>

definition all_moved ::
  "('d, 'v) evolution_env \<Rightarrow> 'd column_change list \<Rightarrow> (string \<Rightarrow> 'a option) \<Rightarrow> string \<Rightarrow> 'a option" where
  "all_moved env rs m c =
     (case map_of (map (\<lambda>x. (new_of env x, old_of env x)) rs) c of
        Some a \<Rightarrow> m a
      | None \<Rightarrow> if c \<in> old_of env ` set rs then None else m c)"

definition retyped_by :: "('d, 'v) evolution_env \<Rightarrow> 'd column_change list \<Rightarrow> string set" where
  "retyped_by env cs = (\<Union>c\<in>set cs. retyped env c)"

definition independent :: "('d, 'v) evolution_env \<Rightarrow> 'd column_change list \<Rightarrow> bool" where
  \<comment> \<open>no renamed column takes the name of another renamed column\<close>
  "independent env rs \<longleftrightarrow> distinct (map (old_of env) rs) \<and> distinct (map (new_of env) rs) \<and>
     (\<forall>c\<in>set rs. \<forall>c'\<in>set rs. new_of env c = old_of env c' \<longrightarrow> c = c')"

lemma retyped_by_Cons: "retyped_by env (c # cs) = retyped env c \<union> retyped_by env cs"
  by (simp add: retyped_by_def)

lemma map_of_names_None:
  "map_of (map (\<lambda>x. (f x, g x)) rs) c = None \<longleftrightarrow> c \<notin> f ` set rs"
  by (simp add: map_of_eq_None_iff image_image)

lemma map_of_names_Some:
  assumes "distinct (map f rs)" and "x \<in> set rs"
  shows "map_of (map (\<lambda>x. (f x, g x)) rs) (f x) = Some (g x)"
  using assms by (intro map_of_is_SomeI) (simp_all add: comp_def)

lemma all_moved_target:
  assumes "independent env rs" and "c \<in> set rs"
  shows "all_moved env rs m (new_of env c) = m (old_of env c)"
  using map_of_names_Some[of "new_of env" rs c "old_of env"] assms
  by (simp add: all_moved_def independent_def)

lemma all_moved_source:
  assumes "x \<in> old_of env ` set rs" and "x \<notin> new_of env ` set rs"
  shows "all_moved env rs m x = None"
  using assms map_of_names_None[of "new_of env" "old_of env" rs x] by (simp add: all_moved_def)

lemma all_moved_other:
  assumes "x \<notin> old_of env ` set rs" and "x \<notin> new_of env ` set rs"
  shows "all_moved env rs m x = m x"
  using assms map_of_names_None[of "new_of env" "old_of env" rs x] by (simp add: all_moved_def)

lemma independent_Cons:
  assumes "independent env (c # rs)"
  shows "independent env rs" and "\<And>c'. c' \<in> set rs \<Longrightarrow> old_of env c' \<noteq> old_of env c"
    and "\<And>c'. c' \<in> set rs \<Longrightarrow> new_of env c' \<noteq> new_of env c"
    and "\<And>c'. c' \<in> set rs \<Longrightarrow> new_of env c \<noteq> old_of env c'"
    and "\<And>c'. c' \<in> set rs \<Longrightarrow> new_of env c' \<noteq> old_of env c"
  using assms unfolding independent_def by (auto simp: image_iff)

lemma all_moved_Cons:
  assumes ind: "independent env (c # rs)" and present: "m (old_of env c) \<noteq> None"
  shows "all_moved env rs (moved (old_of env c) (new_of env c) m) = all_moved env (c # rs) m" (is "?l = ?r")
proof
  fix x
  note ne = independent_Cons[OF ind]
  have mv: "moved (old_of env c) (new_of env c) m y = m y" if "y \<noteq> old_of env c" "y \<noteq> new_of env c" for y
    using that by (simp add: moved_def)
  consider c' where "c' \<in> set rs" "x = new_of env c'" | "x = new_of env c"
    | c' where "x \<notin> new_of env ` set (c # rs)" "c' \<in> set (c # rs)" "x = old_of env c'"
    | "x \<notin> new_of env ` set (c # rs)" "x \<notin> old_of env ` set (c # rs)"
    by (auto simp: image_iff)
  then show "?l x = ?r x"
  proof cases
    case 1
    have "?l x = m (old_of env c')"
      using 1 ne(2,4)[OF 1(1)] by (metis all_moved_target[OF ne(1) 1(1)] mv)
    then show ?thesis using all_moved_target[OF ind, of c' m] 1 by simp
  next
    case 2
    have "?l x = moved (old_of env c) (new_of env c) m x"
      by (rule all_moved_other) (use 2 ne in \<open>fastforce+\<close>)
    also have "\<dots> = m (old_of env c)" using 2 present by (auto simp: moved_def)
    finally show ?thesis using all_moved_target[OF ind, of c m] 2 by simp
  next
    case 3
    have "?l x = None"
    proof (cases "c' \<in> set rs")
      case True
      then show ?thesis using all_moved_source[of x env rs "moved (old_of env c) (new_of env c) m"] 3 by auto
    next
      case False
      then have "x = old_of env c" "x \<noteq> new_of env c" using 3 by auto
      then show ?thesis using all_moved_other[of x env rs "moved (old_of env c) (new_of env c) m"] 3 ne(2) present by (fastforce simp: moved_def)
    qed
    then show ?thesis using all_moved_source[of x env "c # rs" m] 3 by auto
  next
    case 4
    then show ?thesis using all_moved_other[of x env rs "moved (old_of env c) (new_of env c) m"]
      all_moved_other[of x env "c # rs" m] mv by auto
  qed
qed

lemma all_moved_agrees:
  assumes "agrees X m m'" and "X \<inter> old_of env ` set rs = {}"
  shows "agrees X (all_moved env rs m) (all_moved env rs m')"
proof -
  have "a \<in> old_of env ` set rs" if "map_of (map (\<lambda>x. (new_of env x, old_of env x)) rs) c = Some a" for a c
    using map_of_SomeD[OF that] by force
  then show ?thesis using assms unfolding agrees_def all_moved_def by (fastforce split: option.splits)
qed

lemma rename_pass:
  assumes cap: "capable env"
  shows "cache_current t \<Longrightarrow> \<forall>c\<in>set rs. well_formed_change env c \<and> cc_kind c = COLUMN_RENAMED \<Longrightarrow>
    independent env rs \<Longrightarrow> \<forall>c\<in>set rs. shape t (old_of env c) \<noteq> None \<Longrightarrow>
    \<forall>c\<in>set rs. old_of env c = new_of env c \<or> shape t (new_of env c) = None \<Longrightarrow>
    \<forall>c\<in>set rs. retyped env c \<noteq> {} \<longrightarrow> old_of env c \<notin> key_names t \<and> new_of env c \<notin> key_names t \<Longrightarrow>
    \<exists>t'. rfold (rename_or_drop env) t rs = Inr t' \<and> cache_current t' \<and>
      agrees (retyped_by env rs) (all_moved env rs (shape t)) (shape t') \<and>
      (\<forall>k. k \<notin> key_names t \<longrightarrow> (\<forall>c\<in>set rs. new_of env c = k \<longrightarrow> old_of env c \<notin> key_names t) \<longrightarrow>
         k \<notin> key_names t')"
proof (induction rs arbitrary: t)
  case Nil
  then show ?case by (simp add: all_moved_def agrees_def)
next
  case (Cons c rs)
  define a b where "a = old_of env c" and "b = new_of env c"
  note ne = independent_Cons[OF Cons.prems(3), folded a_def b_def]
  obtain t1 where t1: "rename_or_drop env t c = Inr t1" "cache_current t1"
    "agrees (retyped env c) (moved a b (shape t)) (shape t1)" "key_names t1 \<subseteq> renamed a b ` key_names t"
    using rename_step[OF cap Cons.prems(1), of c] Cons.prems unfolding a_def b_def by auto
  have kept: "shape t1 y = None \<longleftrightarrow> shape t y = None" if "y \<noteq> a" "y \<noteq> b" for y
    using t1(3) that unfolding agrees_def moved_def by simp
  have key1: "k \<notin> key_names t1" if "k \<notin> key_names t" "k = b \<Longrightarrow> a \<notin> key_names t" for k
    using t1(4) that by (auto simp: renamed_def split: if_splits)
  have "\<exists>t'. rfold (rename_or_drop env) t1 rs = Inr t' \<and> cache_current t' \<and>
      agrees (retyped_by env rs) (all_moved env rs (shape t1)) (shape t') \<and>
      (\<forall>k. k \<notin> key_names t1 \<longrightarrow> (\<forall>c\<in>set rs. new_of env c = k \<longrightarrow> old_of env c \<notin> key_names t1) \<longrightarrow>
         k \<notin> key_names t')"
  proof (rule Cons.IH[OF t1(2) _ ne(1)])
    show "\<forall>c\<in>set rs. well_formed_change env c \<and> cc_kind c = COLUMN_RENAMED" using Cons.prems(2) by simp
    show "\<forall>c\<in>set rs. shape t1 (old_of env c) \<noteq> None" using Cons.prems(4) kept ne(2,4) by (metis list.set_intros(2))
    show "\<forall>c\<in>set rs. old_of env c = new_of env c \<or> shape t1 (new_of env c) = None"
      using Cons.prems(5) kept ne(3,5) by (metis list.set_intros(2))
    show "\<forall>c\<in>set rs. retyped env c \<noteq> {} \<longrightarrow> old_of env c \<notin> key_names t1 \<and> new_of env c \<notin> key_names t1"
      using Cons.prems(6) key1 ne(3,4) by (metis list.set_intros(2))
  qed
  then obtain t' where t': "rfold (rename_or_drop env) t1 rs = Inr t'" "cache_current t'"
    "agrees (retyped_by env rs) (all_moved env rs (shape t1)) (shape t')"
    "\<And>k. k \<notin> key_names t1 \<Longrightarrow> \<forall>c\<in>set rs. new_of env c = k \<longrightarrow> old_of env c \<notin> key_names t1 \<Longrightarrow> k \<notin> key_names t'"
    by blast
  have "retyped env c \<inter> old_of env ` set rs = {}" using ne(4) by (auto simp: retyped_def b_def)
  from all_moved_agrees[OF t1(3) this]
  have "agrees (retyped env c) (all_moved env (c # rs) (shape t)) (all_moved env rs (shape t1))"
    using all_moved_Cons[OF Cons.prems(3), of "shape t"] Cons.prems(4) unfolding a_def b_def by simp
  from agrees_trans[OF this t'(3)]
  have "agrees (retyped_by env (c # rs)) (all_moved env (c # rs) (shape t)) (shape t')"
    by (simp add: retyped_by_Cons)
  moreover have "k \<notin> key_names t'"
    if k: "k \<notin> key_names t" "\<forall>c\<in>set (c # rs). new_of env c = k \<longrightarrow> old_of env c \<notin> key_names t" for k
  proof (rule t'(4))
    show "k \<notin> key_names t1" using key1 k unfolding a_def b_def by auto
    show "\<forall>c\<in>set rs. new_of env c = k \<longrightarrow> old_of env c \<notin> key_names t1" using k key1 ne(4) by (metis list.set_intros(2))
  qed
  ultimately show ?case using t1(1) t'(1,2) by auto
qed

text \<open>The pass over the drops that make room, and the pass over everything else: the renames
  it repeats find their source gone.\<close>

definition dropped_names :: "('d, 'v) evolution_env \<Rightarrow> 'd column_change list \<Rightarrow> string set" where
  "dropped_names env cs = old_of env ` {c \<in> set cs. cc_kind c = COLUMN_DROPPED}"

definition without :: "string set \<Rightarrow> (string \<Rightarrow> 'a option) \<Rightarrow> string \<Rightarrow> 'a option" where
  "without D m c = (if c \<in> D then None else m c)"

lemma without_agrees: "agrees X m m' \<Longrightarrow> agrees X (without D m) (without D m')"
  by (simp add: agrees_def without_def)

lemma without_insert: "without D (m(c := None)) = without (insert c D) m"
  by (simp add: without_def fun_eq_iff)

lemma renamed_keys:
  assumes "K' \<subseteq> renamed a b ` K" and "k \<notin> K" and "k = b \<Longrightarrow> a \<notin> K"
  shows "k \<notin> K'"
  using assms by (auto simp: renamed_def split: if_splits)

definition renames_done :: "('d, 'v) evolution_env \<Rightarrow> string set \<Rightarrow> 'v dest_table \<Rightarrow> 'd column_change list \<Rightarrow> bool" where
  \<comment> \<open>every rename of \<open>cs\<close> has happened, its target among \<open>N\<close>; no drop touches a key or a target\<close>
  "renames_done env N t cs \<longleftrightarrow> cache_current t \<and>
     (\<forall>c\<in>set cs. well_formed_change env c) \<and>
     (\<forall>c\<in>set cs. cc_kind c = COLUMN_DROPPED \<longrightarrow> old_of env c \<notin> N \<and> old_of env c \<notin> key_names t) \<and>
     (\<forall>c\<in>set cs. cc_kind c = COLUMN_RENAMED \<longrightarrow> new_of env c \<in> N \<and> shape t (new_of env c) \<noteq> None \<and>
        (old_of env c = new_of env c \<or> shape t (old_of env c) = None)) \<and>
     (\<forall>c\<in>set cs. cc_kind c = COLUMN_RENAMED \<longrightarrow> retyped env c \<noteq> {} \<longrightarrow>
        old_of env c \<notin> key_names t \<and> new_of env c \<notin> key_names t)"

definition separate :: "('d, 'v) evolution_env \<Rightarrow> 'd column_change list \<Rightarrow> bool" where
  "separate env cs \<longleftrightarrow> (\<forall>c\<in>set cs. \<forall>c'\<in>set cs. cc_kind c = COLUMN_RENAMED \<longrightarrow> cc_kind c' = COLUMN_RENAMED \<longrightarrow>
      (new_of env c = new_of env c' \<or> new_of env c = old_of env c' \<longrightarrow> c = c'))"

lemma renames_done_step:
  assumes cap: "capable env" and set: "renames_done env N t (c # cs)" and sep: "separate env (c # cs)"
  shows "\<exists>t1. rename_or_drop env t c = Inr t1 \<and> renames_done env N t1 cs \<and>
     agrees (retyped env c) (without (dropped_names env [c]) (shape t)) (shape t1) \<and>
     (\<forall>k. k \<notin> key_names t \<and> k \<notin> N \<longrightarrow> k \<notin> key_names t1)"
proof -
  have cur: "cache_current t" and wf: "well_formed_change env c" using set by (simp_all add: renames_done_def)
  consider "cc_kind c = COLUMN_DROPPED" | "cc_kind c = COLUMN_RENAMED"
    | "cc_kind c = COLUMN_ADDED \<or> cc_kind c = COLUMN_TYPE_CHANGED" by (cases "cc_kind c") auto
  then show ?thesis
  proof cases
    case 1
    then obtain t1 where t1: "rename_or_drop env t c = Inr t1" "cache_current t1"
      "shape t1 = (shape t)(old_of env c := None)" "key_names t1 \<subseteq> key_names t"
      using drop_step[OF cap cur wf] set by (auto simp: renames_done_def)
    have "renames_done env N t1 cs" using set t1 1 unfolding renames_done_def by auto
    moreover have "without (dropped_names env [c]) (shape t) = shape t1"
      using 1 by (auto simp: t1(3) without_def dropped_names_def fun_eq_iff)
    ultimately show ?thesis using t1 by auto
  next
    case 2
    define a b where "a = old_of env c" and "b = new_of env c"
    have here: "b \<in> N" "shape t b \<noteq> None" "a = b \<or> shape t a = None"
      using set 2 unfolding renames_done_def a_def b_def by simp_all
    obtain t1 where t1: "rename_or_drop env t c = Inr t1" "cache_current t1"
      "agrees (retyped env c) (moved a b (shape t)) (shape t1)" "key_names t1 \<subseteq> renamed a b ` key_names t"
      using rename_step[OF cap cur wf 2] set here 2 unfolding a_def b_def by (auto simp: renames_done_def)
    have m: "moved a b (shape t) = shape t" using here by (auto simp: moved_def)
    have none: "shape t1 y = None \<longleftrightarrow> shape t y = None" for y using t1(3) m by (simp add: agrees_def)
    have key: "k \<notin> key_names t1" if "k \<notin> key_names t" "k = b \<Longrightarrow> a \<notin> key_names t" for k
      using renamed_keys[OF t1(4)] that by blast
    have keyN: "k \<notin> key_names t1" if "k \<notin> key_names t" "k \<notin> N" for k using key that here(1) by blast
    have ret: "\<forall>c'\<in>set cs. cc_kind c' = COLUMN_RENAMED \<longrightarrow> retyped env c' \<noteq> {} \<longrightarrow>
        old_of env c' \<notin> key_names t1 \<and> new_of env c' \<notin> key_names t1"
    proof (intro ballI impI)
      fix c' assume c': "c' \<in> set cs" "cc_kind c' = COLUMN_RENAMED" "retyped env c' \<noteq> {}"
      then have K: "old_of env c' \<notin> key_names t" "new_of env c' \<notin> key_names t"
        using set by (simp_all add: renames_done_def)
      have same: "b = new_of env c' \<or> b = old_of env c' \<Longrightarrow> c = c'"
        using sep c' 2 unfolding separate_def b_def by (metis list.set_intros)
      have "a \<notin> key_names t" if "b = new_of env c' \<or> b = old_of env c'"
        using same[OF that] K by (simp add: a_def)
      then show "old_of env c' \<notin> key_names t1 \<and> new_of env c' \<notin> key_names t1" using key K by metis
    qed
    have "renames_done env N t1 cs" unfolding renames_done_def
    proof (intro conjI ret t1(2))
      show "\<forall>c\<in>set cs. cc_kind c = COLUMN_DROPPED \<longrightarrow> old_of env c \<notin> N \<and> old_of env c \<notin> key_names t1"
        using set keyN unfolding renames_done_def by simp
    qed (use set none in \<open>simp_all add: renames_done_def\<close>)
    moreover have "without (dropped_names env [c]) (shape t) = shape t"
      using 2 by (auto simp: without_def dropped_names_def fun_eq_iff)
    ultimately show ?thesis using t1(1,3) m keyN by auto
  next
    case 3
    then have "rename_or_drop env t c = Inr t" by (auto simp: rename_or_drop_def)
    moreover have "without (dropped_names env [c]) (shape t) = shape t"
      using 3 by (auto simp: without_def dropped_names_def fun_eq_iff)
    ultimately show ?thesis using set by (auto simp: renames_done_def)
  qed
qed

lemma renames_done_pass:
  assumes cap: "capable env"
  shows "renames_done env N t cs \<Longrightarrow> separate env cs \<Longrightarrow>
    \<exists>t'. rfold (rename_or_drop env) t cs = Inr t' \<and> cache_current t' \<and>
      agrees (retyped_by env cs) (without (dropped_names env cs) (shape t)) (shape t') \<and>
      (\<forall>k. k \<notin> key_names t \<and> k \<notin> N \<longrightarrow> k \<notin> key_names t')"
proof (induction cs arbitrary: t)
  case Nil
  then show ?case by (simp add: renames_done_def without_def dropped_names_def)
next
  case (Cons c cs)
  obtain t1 where t1: "rename_or_drop env t c = Inr t1" "renames_done env N t1 cs"
    "agrees (retyped env c) (without (dropped_names env [c]) (shape t)) (shape t1)"
    "\<forall>k. k \<notin> key_names t \<and> k \<notin> N \<longrightarrow> k \<notin> key_names t1"
    using renames_done_step[OF cap Cons.prems] by blast
  have sep: "separate env cs" using Cons.prems(2) by (simp add: separate_def)
  obtain t' where t': "rfold (rename_or_drop env) t1 cs = Inr t'" "cache_current t'"
    "agrees (retyped_by env cs) (without (dropped_names env cs) (shape t1)) (shape t')"
    "\<forall>k. k \<notin> key_names t1 \<and> k \<notin> N \<longrightarrow> k \<notin> key_names t'"
    using Cons.IH[OF t1(2) sep] by blast
  have "dropped_names env (c # cs) = dropped_names env cs \<union> dropped_names env [c]"
    by (auto simp: dropped_names_def)
  then have "without (dropped_names env cs) (without (dropped_names env [c]) m) = without (dropped_names env (c # cs)) m"
    for m :: "string \<Rightarrow> 'b option list option" by (simp add: without_def fun_eq_iff)
  from agrees_trans[OF without_agrees[OF t1(3), of "dropped_names env cs"] t'(3)] this[of "shape t"]
  have "agrees (retyped_by env (c # cs)) (without (dropped_names env (c # cs)) (shape t)) (shape t')"
    by (simp add: retyped_by_Cons)
  then show ?case using t1(1,4) t' by auto
qed

text \<open>The second loop adds columns and rewrites types; it removes nothing.\<close>

lemma add_pass:
  assumes cap: "capable env"
  shows "cache_current t \<Longrightarrow> \<forall>c\<in>set cs. well_formed_change env c \<Longrightarrow>
    \<forall>c\<in>set cs. cc_kind c = COLUMN_TYPE_CHANGED \<longrightarrow> shape t (new_of env c) \<noteq> None \<and> new_of env c \<notin> key_names t \<Longrightarrow>
    \<exists>t'. rfold (add_or_convert env) t cs = Inr t' \<and>
      (\<forall>x. x \<notin> retyped_by env cs \<and> x \<notin> new_of env ` {c \<in> set cs. cc_kind c = COLUMN_ADDED} \<longrightarrow> shape t' x = shape t x) \<and>
      (\<forall>x. shape t' x = None \<longleftrightarrow> shape t x = None \<and> x \<notin> new_of env ` {c \<in> set cs. cc_kind c = COLUMN_ADDED})"
proof (induction cs arbitrary: t)
  case Nil
  then show ?case by (simp add: retyped_by_def)
next
  case (Cons c cs)
  have wf: "well_formed_change env c" using Cons.prems(2) by simp
  have "\<exists>t1. add_or_convert env t c = Inr t1 \<and> cache_current t1 \<and> key_names t1 \<subseteq> key_names t \<and>
      (\<forall>x. x \<notin> retyped env c \<and> \<not> (cc_kind c = COLUMN_ADDED \<and> x = new_of env c) \<longrightarrow> shape t1 x = shape t x) \<and>
      (\<forall>x. shape t1 x = None \<longleftrightarrow> shape t x = None \<and> \<not> (cc_kind c = COLUMN_ADDED \<and> x = new_of env c))"
  proof (cases "cc_kind c")
    case COLUMN_ADDED
    then have "truthy_str (destination_new_name env c)" using wf by (simp add: well_formed_change_def)
    moreover obtain t1 where t1: "ev_ensure env t (new_of env c) (new_descriptor_of env c) (tc_key_columns t) = Inr t1"
      "cache_current t1" "\<forall>x. x \<noteq> new_of env c \<longrightarrow> shape t1 x = shape t x" "shape t1 (new_of env c) \<noteq> None"
      "key_names t1 \<subseteq> key_names t"
      using ensure_keeps[OF cap Cons.prems(1)] by metis
    moreover have "\<forall>x. shape t1 x = None \<longleftrightarrow> shape t x = None \<and> x \<noteq> new_of env c" using t1(3,4) by metis
    ultimately show ?thesis using COLUMN_ADDED by (simp add: add_or_convert_def refused_def)
  next
    case COLUMN_TYPE_CHANGED
    then have n: "truthy_str (destination_new_name env c)" using wf by (simp add: well_formed_change_def)
    have "shape t (new_of env c) \<noteq> None" "new_of env c \<notin> key_names t"
      using Cons.prems(3) COLUMN_TYPE_CHANGED by simp_all
    then obtain t1 where t1: "ev_convert env t (Some (new_of env c)) (old_descriptor_of env c) (new_descriptor_of env c) = Inr t1"
      "cache_current t1" "agrees {new_of env c} (shape t) (shape t1)" "key_names t1 \<subseteq> key_names t"
      using convert_keeps[OF cap Cons.prems(1)] by metis
    have "add_or_convert env t c = Inr t1"
      using COLUMN_TYPE_CHANGED n t1(1) truthy_the[OF n] by (auto simp: add_or_convert_def refused_def)
    moreover have "retyped env c = {new_of env c}" using COLUMN_TYPE_CHANGED by (simp add: retyped_def)
    ultimately show ?thesis using t1 COLUMN_TYPE_CHANGED by (auto simp: agrees_def)
  qed (use Cons.prems in \<open>simp_all add: add_or_convert_def\<close>)
  then obtain t1 where t1: "add_or_convert env t c = Inr t1" "cache_current t1" "key_names t1 \<subseteq> key_names t"
      "\<forall>x. x \<notin> retyped env c \<and> \<not> (cc_kind c = COLUMN_ADDED \<and> x = new_of env c) \<longrightarrow> shape t1 x = shape t x"
      "\<forall>x. shape t1 x = None \<longleftrightarrow> shape t x = None \<and> \<not> (cc_kind c = COLUMN_ADDED \<and> x = new_of env c)"
    by blast
  have "\<forall>c\<in>set cs. cc_kind c = COLUMN_TYPE_CHANGED \<longrightarrow> shape t1 (new_of env c) \<noteq> None \<and> new_of env c \<notin> key_names t1"
    using Cons.prems(3) t1(3,5) by auto
  from Cons.IH[OF t1(2) _ this] Cons.prems(2)
  obtain t' where t': "rfold (add_or_convert env) t1 cs = Inr t'"
      "\<forall>x. x \<notin> retyped_by env cs \<and> x \<notin> new_of env ` {c \<in> set cs. cc_kind c = COLUMN_ADDED} \<longrightarrow> shape t' x = shape t1 x"
      "\<forall>x. shape t' x = None \<longleftrightarrow> shape t1 x = None \<and> x \<notin> new_of env ` {c \<in> set cs. cc_kind c = COLUMN_ADDED}"
    by auto
  have "new_of env ` {x \<in> set (c # cs). cc_kind x = COLUMN_ADDED} =
      (if cc_kind c = COLUMN_ADDED then {new_of env c} else {}) \<union> new_of env ` {x \<in> set cs. cc_kind x = COLUMN_ADDED}"
    by auto
  then show ?case using t1 t' by (auto simp: retyped_by_Cons)
qed

section \<open>A whole list of changes\<close>

definition orderly :: "('d, 'v) evolution_env \<Rightarrow> 'v dest_table \<Rightarrow> 'd column_change list \<Rightarrow> bool" where
  "orderly env t cs \<longleftrightarrow> cache_current t \<and> (\<forall>c\<in>set cs. well_formed_change env c) \<and>
     independent env (renames_of cs) \<and>
     (\<forall>c\<in>set cs. cc_kind c = COLUMN_RENAMED \<longrightarrow> shape t (old_of env c) \<noteq> None \<and>
        old_of env c \<notin> dropped_names env cs \<and>
        (old_of env c = new_of env c \<or> shape t (new_of env c) = None \<or> new_of env c \<in> dropped_names env cs)) \<and>
     (\<forall>c\<in>set cs. cc_kind c = COLUMN_DROPPED \<longrightarrow> old_of env c \<notin> key_names t) \<and>
     (\<forall>c\<in>set cs. cc_kind c = COLUMN_RENAMED \<longrightarrow> retyped env c \<noteq> {} \<longrightarrow>
        old_of env c \<notin> key_names t \<and> new_of env c \<notin> key_names t) \<and>
     (\<forall>c\<in>set cs. cc_kind c = COLUMN_TYPE_CHANGED \<longrightarrow> shape t (new_of env c) \<noteq> None \<and>
        new_of env c \<notin> key_names t \<and> new_of env c \<notin> dropped_names env cs \<and>
        new_of env c \<notin> old_of env ` set (renames_of cs) \<and> new_of env c \<notin> new_of env ` set (renames_of cs))"

definition final_shape ::
  "('d, 'v) evolution_env \<Rightarrow> 'd column_change list \<Rightarrow> (string \<Rightarrow> 'a option) \<Rightarrow> string \<Rightarrow> 'a option" where
  "final_shape env cs m = without (dropped_names env (late_drops env cs))
     (all_moved env (renames_of cs) (without (dropped_names env (early_drops env cs)) m))"

definition added_names :: "('d, 'v) evolution_env \<Rightarrow> 'd column_change list \<Rightarrow> string set" where
  "added_names env cs = new_of env ` {c \<in> set cs. cc_kind c = COLUMN_ADDED}"

lemma set_renames_of: "c \<in> set (renames_of cs) \<longleftrightarrow> c \<in> set cs \<and> cc_kind c = COLUMN_RENAMED"
  by (simp add: renames_of_def)

lemma early_is_drop: "c \<in> set (early_drops env cs) \<Longrightarrow> c \<in> set cs \<and> cc_kind c = COLUMN_DROPPED"
  by (simp add: early_drops_def)

lemma early_names: "dropped_names env (early_drops env cs) \<subseteq> dropped_names env cs"
  by (auto simp: dropped_names_def early_drops_def)

lemma late_names: "dropped_names env (late_drops env cs) \<subseteq> dropped_names env cs"
  by (auto simp: dropped_names_def late_drops_def)

lemma late_subset: "c \<in> set (late_drops env cs) \<Longrightarrow> c \<in> set cs"
  by (simp add: late_drops_def)

lemma some_name: "well_formed_change env c \<Longrightarrow> cc_kind c \<noteq> COLUMN_ADDED \<Longrightarrow> destination_old_name env c = Some (old_of env c)"
  "well_formed_change env c \<Longrightarrow> cc_kind c \<noteq> COLUMN_DROPPED \<Longrightarrow> destination_new_name env c = Some (new_of env c)"
  using truthy_the unfolding well_formed_change_def by blast+

lemma early_drop_iff:
  assumes "\<forall>c\<in>set cs. well_formed_change env c" and "c \<in> set cs" and "cc_kind c = COLUMN_DROPPED"
  shows "c \<in> set (early_drops env cs) \<longleftrightarrow> old_of env c \<in> new_of env ` set (renames_of cs)"
proof -
  have "destination_old_name env c = Some (old_of env c)" using assms by (intro some_name) auto
  moreover have "destination_new_name env r = Some (new_of env r)" if "r \<in> set (renames_of cs)" for r
    using that assms(1) by (intro some_name) (auto simp: set_renames_of)
  then have "destination_new_name env ` set (renames_of cs) = Some ` new_of env ` set (renames_of cs)"
    by (simp add: image_image)
  ultimately show ?thesis using assms(2,3) by (auto simp: early_drops_def image_iff)
qed

lemma dropped_early_or_late:
  "x \<in> dropped_names env cs \<Longrightarrow> x \<in> dropped_names env (early_drops env cs) \<or> x \<in> dropped_names env (late_drops env cs)"
  by (auto simp: dropped_names_def late_drops_def early_drops_def)

lemma late_not_target:
  assumes "\<forall>c\<in>set cs. well_formed_change env c"
  shows "dropped_names env (late_drops env cs) \<inter> new_of env ` set (renames_of cs) = {}"
  using early_drop_iff[OF assms] by (auto simp: dropped_names_def late_drops_def)

lemma early_target:
  assumes "\<forall>c\<in>set cs. well_formed_change env c"
  shows "dropped_names env cs \<inter> new_of env ` set (renames_of cs) = dropped_names env (early_drops env cs)"
proof -
  have "x \<in> new_of env ` set (renames_of cs)" if x: "x \<in> dropped_names env (early_drops env cs)" for x
  proof -
    obtain c where c: "c \<in> set (early_drops env cs)" "x = old_of env c" using x by (auto simp: dropped_names_def)
    then show ?thesis using early_drop_iff[OF assms] early_is_drop[OF c(1)] by simp
  qed
  then show ?thesis using dropped_early_or_late late_not_target[OF assms] early_names by blast
qed

lemma early_pass:
  assumes cap: "capable env" and ord: "orderly env t cs"
  obtains t1 where "rfold (rename_or_drop env) t (early_drops env cs) = Inr t1" and "cache_current t1"
    and "shape t1 = without (dropped_names env (early_drops env cs)) (shape t)"
    and "\<And>k. k \<notin> key_names t \<Longrightarrow> k \<notin> key_names t1"
proof -
  have "renames_done env {} t (early_drops env cs)"
    using ord early_is_drop unfolding renames_done_def orderly_def by (auto dest: early_is_drop)
  moreover have "separate env (early_drops env cs)" using early_is_drop by (fastforce simp: separate_def)
  moreover have "retyped_by env (early_drops env cs) = {}"
    by (auto simp: retyped_by_def retyped_def dest: early_is_drop)
  ultimately show ?thesis using renames_done_pass[OF cap, of "{}" t "early_drops env cs"] that
    by (auto simp: agrees_def fun_eq_iff)
qed

lemma passes_agree:
  assumes cap: "capable env" and ord: "orderly env t cs"
  obtains t3 where "rfold (rename_or_drop env) t (early_drops env cs @ renames_of cs @ late_drops env cs) = Inr t3"
    and "cache_current t3" and "agrees (retyped_by env cs) (final_shape env cs (shape t)) (shape t3)"
    and "\<And>c. c \<in> set cs \<Longrightarrow> cc_kind c = COLUMN_TYPE_CHANGED \<Longrightarrow> new_of env c \<notin> key_names t3"
proof -
  define rs where "rs = renames_of cs"
  define E where "E = dropped_names env (early_drops env cs)"
  define N where "N = new_of env ` set rs"
  note O = ord[unfolded orderly_def]
  have wf: "\<forall>c\<in>set cs. well_formed_change env c" using O by blast
  have ind: "independent env rs" using O by (simp add: rs_def)
  have in_rs: "c \<in> set rs \<longleftrightarrow> c \<in> set cs \<and> cc_kind c = COLUMN_RENAMED" for c by (simp add: rs_def set_renames_of)
  have E: "dropped_names env cs \<inter> N = E" using early_target[OF wf] by (simp add: E_def N_def rs_def)
  obtain t1 where t1: "rfold (rename_or_drop env) t (early_drops env cs) = Inr t1" "cache_current t1"
    "shape t1 = without E (shape t)" "\<And>k. k \<notin> key_names t \<Longrightarrow> k \<notin> key_names t1"
    using early_pass[OF cap ord] unfolding E_def by metis
  have src: "shape t1 (old_of env c) = shape t (old_of env c)" "shape t (old_of env c) \<noteq> None" if "c \<in> set rs" for c
    using that O E in_rs unfolding t1(3) by (auto simp: without_def)
  have fresh: "old_of env c = new_of env c \<or> shape t1 (new_of env c) = None" if "c \<in> set rs" for c
    using that O E in_rs unfolding t1(3) N_def by (auto simp: without_def)
  have "\<exists>t'. rfold (rename_or_drop env) t1 rs = Inr t' \<and> cache_current t' \<and>
      agrees (retyped_by env rs) (all_moved env rs (shape t1)) (shape t') \<and>
      (\<forall>k. k \<notin> key_names t1 \<longrightarrow> (\<forall>c\<in>set rs. new_of env c = k \<longrightarrow> old_of env c \<notin> key_names t1) \<longrightarrow> k \<notin> key_names t')"
    by (rule rename_pass[OF cap t1(2) _ ind]) (use O src fresh t1(4) in_rs in simp_all)
  then obtain t2 where t2: "rfold (rename_or_drop env) t1 rs = Inr t2" "cache_current t2"
    "agrees (retyped_by env rs) (all_moved env rs (shape t1)) (shape t2)"
    "\<And>k. k \<notin> key_names t1 \<Longrightarrow> \<forall>c\<in>set rs. new_of env c = k \<longrightarrow> old_of env c \<notin> key_names t1 \<Longrightarrow> k \<notin> key_names t2"
    by blast
  have none2: "shape t2 y = None \<longleftrightarrow> all_moved env rs (shape t1) y = None" for y using t2(3) by (simp add: agrees_def)
  have same: "c = c'" if "c \<in> set rs" "c' \<in> set rs" "new_of env c = new_of env c' \<or> new_of env c = old_of env c'" for c c'
    using that ind unfolding independent_def by (metis distinct_map inj_onD)
  have key2: "k \<notin> key_names t2" if "k \<notin> key_names t" "k \<notin> N" for k
    using t2(4)[OF t1(4)[OF that(1)]] that(2) by (auto simp: N_def)
  have "renames_done env N t2 (late_drops env cs)" unfolding renames_done_def
  proof (intro conjI ballI impI t2(2))
    fix c assume c: "c \<in> set (late_drops env cs)"
    show "well_formed_change env c" using wf late_subset[OF c] by blast
    { assume d: "cc_kind c = COLUMN_DROPPED"
      show "old_of env c \<notin> N" using late_not_target[OF wf] c d by (auto simp: N_def rs_def dropped_names_def)
      then show "old_of env c \<notin> key_names t2" using key2 O late_subset[OF c] d by blast }
    { assume r: "cc_kind c = COLUMN_RENAMED"
      then have c': "c \<in> set rs" using in_rs late_subset[OF c] by simp
      show "new_of env c \<in> N" using c' by (simp add: N_def)
      show "shape t2 (new_of env c) \<noteq> None" using none2 all_moved_target[OF ind c'] src[OF c'] by metis
      show "old_of env c = new_of env c \<or> shape t2 (old_of env c) = None"
      proof (cases "old_of env c \<in> N")
        case True
        then obtain c2 where "c2 \<in> set rs" "old_of env c = new_of env c2" by (auto simp: N_def)
        then show ?thesis using same[of c2 c] c' by simp
      next
        case False
        then show ?thesis using none2 all_moved_source[of "old_of env c" env rs "shape t1"] c' by (simp add: N_def)
      qed
      assume "retyped env c \<noteq> {}"
      then have K: "old_of env c \<notin> key_names t" "new_of env c \<notin> key_names t" using O late_subset[OF c] r by blast+
      have "old_of env c2 \<notin> key_names t1" if "c2 \<in> set rs" "new_of env c2 = old_of env c \<or> new_of env c2 = new_of env c" for c2
        using same[of c2 c] that c' t1(4) K by auto
      then show "old_of env c \<notin> key_names t2" "new_of env c \<notin> key_names t2"
        using t2(4)[OF t1(4)] K by blast+ }
  qed
  moreover have "separate env (late_drops env cs)"
    unfolding separate_def using same in_rs late_subset by blast
  ultimately obtain t3 where t3: "rfold (rename_or_drop env) t2 (late_drops env cs) = Inr t3" "cache_current t3"
    "agrees (retyped_by env (late_drops env cs)) (without (dropped_names env (late_drops env cs)) (shape t2)) (shape t3)"
    "\<And>k. k \<notin> key_names t2 \<Longrightarrow> k \<notin> N \<Longrightarrow> k \<notin> key_names t3"
    using renames_done_pass[OF cap] by blast
  have "retyped_by env rs \<union> retyped_by env (late_drops env cs) \<subseteq> retyped_by env cs"
    unfolding retyped_by_def using late_subset in_rs by blast
  moreover have "agrees (retyped_by env rs \<union> retyped_by env (late_drops env cs)) (final_shape env cs (shape t)) (shape t3)"
    using agrees_trans[OF without_agrees[OF t2(3)] t3(3)] by (simp add: final_shape_def rs_def t1(3) E_def)
  ultimately have "agrees (retyped_by env cs) (final_shape env cs (shape t)) (shape t3)" by (rule agrees_mono[rotated])
  moreover have "new_of env c \<notin> key_names t3" if "c \<in> set cs" "cc_kind c = COLUMN_TYPE_CHANGED" for c
    using O that t3(4) key2 by (simp add: N_def rs_def)
  ultimately show ?thesis using that[of t3] t1(1) t2(1) t3(1,2) by (simp add: rfold_append rs_def)
qed

lemma final_shape_untouched:
  assumes "x \<notin> dropped_names env cs" and "x \<notin> old_of env ` set (renames_of cs)"
    and "x \<notin> new_of env ` set (renames_of cs)"
  shows "final_shape env cs m x = m x"
proof -
  have "x \<notin> dropped_names env (early_drops env cs)" "x \<notin> dropped_names env (late_drops env cs)"
    using assms(1) early_names late_names by blast+
  then show ?thesis 
    using all_moved_other[OF assms(2,3), of "without (dropped_names env (early_drops env cs)) m"]
    by (simp add: final_shape_def without_def)
qed

lemma apply_changes_shape:
  assumes cap: "capable env" and ord: "orderly env t cs"
  shows "\<exists>t'. apply_column_changes env t cs = Inr t' \<and>
     (\<forall>x. x \<notin> retyped_by env cs \<and> x \<notin> added_names env cs \<longrightarrow> shape t' x = final_shape env cs (shape t) x) \<and>
     (\<forall>x. shape t' x = None \<longleftrightarrow> final_shape env cs (shape t) x = None \<and> x \<notin> added_names env cs)"
proof -
  obtain t3 where t3: "rfold (rename_or_drop env) t (early_drops env cs @ renames_of cs @ late_drops env cs) = Inr t3"
    "cache_current t3" "agrees (retyped_by env cs) (final_shape env cs (shape t)) (shape t3)"
    "\<And>c. c \<in> set cs \<Longrightarrow> cc_kind c = COLUMN_TYPE_CHANGED \<Longrightarrow> new_of env c \<notin> key_names t3"
    using passes_agree[OF cap ord] by metis
  have held: "shape t3 (new_of env c) \<noteq> None" if "c \<in> set cs" "cc_kind c = COLUMN_TYPE_CHANGED" for c
  proof -
    have "final_shape env cs (shape t) (new_of env c) = shape t (new_of env c)"
      by (rule final_shape_untouched) (use ord that in \<open>simp_all add: orderly_def\<close>)
    then show ?thesis using t3(3) ord that by (auto simp: agrees_def orderly_def)
  qed
  have "\<forall>c\<in>set cs. cc_kind c = COLUMN_TYPE_CHANGED \<longrightarrow> shape t3 (new_of env c) \<noteq> None \<and> new_of env c \<notin> key_names t3"
    using held t3(4) by blast
  from add_pass[OF cap t3(2) _ this] ord
  obtain t' where "rfold (add_or_convert env) t3 cs = Inr t'"
      "\<forall>x. x \<notin> retyped_by env cs \<and> x \<notin> added_names env cs \<longrightarrow> shape t' x = shape t3 x"
      "\<forall>x. shape t' x = None \<longleftrightarrow> shape t3 x = None \<and> x \<notin> added_names env cs"
    unfolding orderly_def added_names_def by auto
  then show ?thesis using t3(1,3) by (auto simp: apply_column_changes_def agrees_def)
qed

section \<open>What a diff contains\<close>

lemma change_simps [simp]:
  "cc_kind (added_column q) = COLUMN_ADDED" "cc_kind (dropped_column p) = COLUMN_DROPPED"
  "cc_kind (altered_column k b p q) = k" "cc_type_changed (altered_column k b p q) = b"
  "cc_attnum (added_column q) = sc_attnum q" "cc_attnum (dropped_column p) = sc_attnum p"
  "cc_attnum (altered_column k b p q) = sc_attnum q"
  "destination_new_name env (added_column q) = Some (destination_name env q)"
  "destination_old_name env (dropped_column p) = Some (destination_name env p)"
  "destination_old_name env (altered_column k b p q) = Some (destination_name env p)"
  "destination_new_name env (altered_column k b p q) = Some (destination_name env q)"
  "cc_old_descriptor (altered_column k b p q) = sc_descriptor p"
  "cc_new_descriptor (altered_column k b p q) = sc_descriptor q"
  by (simp_all add: added_column_def dropped_column_def altered_column_def destination_old_name_def
      destination_new_name_def destination_name_def)

lemma map_of_by_attnum:
  assumes "distinct (map sc_attnum cs)"
  shows "map_of (by_attnum cs) n = Some c \<longleftrightarrow> c \<in> set cs \<and> sc_attnum c = n"
proof -
  have "map_of (fold (\<lambda>c d. AList.update (sc_attnum c) c d) cs d) n =
      (case find (\<lambda>c. sc_attnum c = n) cs of Some c \<Rightarrow> Some c | None \<Rightarrow> map_of d n)" for d
    using assms
  proof (induction cs arbitrary: d)
    case (Cons c cs)
    have "find (\<lambda>x. sc_attnum x = n) cs = None" if "sc_attnum c = n"
      using Cons.prems that by (auto simp: find_None_iff image_iff)
    then show ?case using Cons by (auto simp: update_conv' split: option.splits)
  qed simp
  then have "map_of (by_attnum cs) n = find (\<lambda>c. sc_attnum c = n) cs"
    by (simp add: by_attnum_def split: option.splits)
  moreover have "find (\<lambda>c. sc_attnum c = n) cs = Some c \<longleftrightarrow> c \<in> set cs \<and> sc_attnum c = n"
    using assms by (induction cs) (auto simp: image_iff)
  ultimately show ?thesis by simp
qed

lemma keys_by_attnum: "fst ` set (by_attnum cs) = sc_attnum ` set cs"
proof -
  have "fst ` set (fold (\<lambda>c d. AList.update (sc_attnum c) c d) cs d) = fst ` set d \<union> sc_attnum ` set cs" for d
    by (induction cs arbitrary: d) (auto simp: dom_update)
  then show ?thesis by (simp add: by_attnum_def)
qed

lemma diff_attnums_distinct:
  assumes "distinct (map sc_attnum pre)" and "distinct (map sc_attnum post)"
  shows "distinct (map cc_attnum (diff_columns env pre post))"
proof -
  define f where "f = (\<lambda>n. column_diff env (map_of (by_attnum pre) n) (map_of (by_attnum post) n))"
  have f: "f n = [] \<or> (\<exists>c. f n = [c] \<and> cc_attnum c = n)" for n
    using map_of_by_attnum[OF assms(1), of n] map_of_by_attnum[OF assms(2), of n]
    by (auto simp: f_def column_diff_def split: option.splits if_splits)
  have "distinct ns \<Longrightarrow> distinct (map cc_attnum (concat (map f ns))) \<and> cc_attnum ` set (concat (map f ns)) \<subseteq> set ns" for ns
  proof (induction ns)
    case (Cons n ns)
    then have "cc_attnum ` set (concat (map f ns)) \<subseteq> set ns" "n \<notin> set ns" by simp_all
    then have "n \<notin> cc_attnum ` set (concat (map f ns))" by blast
    then show ?case using f[of n] Cons by auto
  qed simp
  then show ?thesis by (simp add: diff_columns_def Let_def f_def)
qed

text \<open>A diff has a drop for each column whose number is gone, an addition for each new number, and a
  rename or type change for the numbers that stay with another name or type.\<close>

lemma in_diff:
  assumes "distinct (map sc_attnum pre)" and "distinct (map sc_attnum post)"
  shows "c \<in> set (diff_columns env pre post) \<longleftrightarrow>
    (\<exists>q\<in>set post. sc_attnum q \<notin> sc_attnum ` set pre \<and> c = added_column q) \<or>
    (\<exists>p\<in>set pre. sc_attnum p \<notin> sc_attnum ` set post \<and> c = dropped_column p) \<or>
    (\<exists>p\<in>set pre. \<exists>q\<in>set post. sc_attnum p = sc_attnum q \<and> sc_name p \<noteq> sc_name q \<and>
       c = altered_column COLUMN_RENAMED (type_identity env p \<noteq> type_identity env q) p q) \<or>
    (\<exists>p\<in>set pre. \<exists>q\<in>set post. sc_attnum p = sc_attnum q \<and> sc_name p = sc_name q \<and>
       type_identity env p \<noteq> type_identity env q \<and> c = altered_column COLUMN_TYPE_CHANGED False p q)"
    (is "_ \<longleftrightarrow> ?r")
proof -
  have none: "map_of (by_attnum cs) n = None \<longleftrightarrow> n \<notin> sc_attnum ` set cs" for cs :: "'a source_column list" and n
    by (simp add: map_of_eq_None_iff keys_by_attnum)
  note some = map_of_by_attnum[OF assms(1)] map_of_by_attnum[OF assms(2)]
  have one: "c \<in> set (column_diff env x y) \<longleftrightarrow>
      (\<exists>q. x = None \<and> y = Some q \<and> c = added_column q) \<or> (\<exists>p. x = Some p \<and> y = None \<and> c = dropped_column p) \<or>
      (\<exists>p q. x = Some p \<and> y = Some q \<and> sc_name p \<noteq> sc_name q \<and>
         c = altered_column COLUMN_RENAMED (type_identity env p \<noteq> type_identity env q) p q) \<or>
      (\<exists>p q. x = Some p \<and> y = Some q \<and> sc_name p = sc_name q \<and> type_identity env p \<noteq> type_identity env q \<and>
         c = altered_column COLUMN_TYPE_CHANGED False p q)" for x y
    by (cases x; cases y) (auto simp: column_diff_def)
  have "c \<in> set (diff_columns env pre post) \<longleftrightarrow>
     (\<exists>n. c \<in> set (column_diff env (map_of (by_attnum pre) n) (map_of (by_attnum post) n)))" (is "?d = ?e")
  proof
    assume ?d
    then show ?e by (auto simp: diff_columns_def Let_def)
  next
    assume ?e
    then obtain n where n: "c \<in> set (column_diff env (map_of (by_attnum pre) n) (map_of (by_attnum post) n))" by blast
    then have "n \<in> sc_attnum ` set pre \<or> n \<in> sc_attnum ` set post"
      using none[of pre n] none[of post n] by (auto simp: one)
    then have "n \<in> set (sort (remdups (map fst (by_attnum pre) @ map fst (by_attnum post))))"
      by (simp add: keys_by_attnum)
    then show ?d using n by (auto simp: diff_columns_def Let_def simp del: set_remdups)
  qed
  also have "\<dots> \<longleftrightarrow> ?r" unfolding one none some ex_disj_distrib
    by (intro arg_cong2[where f = "(\<or>)"]) (blast, blast, metis+)
  finally show ?thesis .
qed

section \<open>A diff takes the destination to the source's new shape\<close>

definition evolvable ::
  "('d, 'v) evolution_env \<Rightarrow> 'v dest_table \<Rightarrow> 'd source_column list \<Rightarrow> 'd source_column list \<Rightarrow> bool" where
  \<comment> \<open>well-formed column lists, a destination that holds the old columns and not yet a renamed
      one, keys that keep their type, and no name passed from one renamed column to another\<close>
  "evolvable env t pre post \<longleftrightarrow>
     cache_current t \<and> key_names t \<subseteq> set (dt_columns t) \<and>
     distinct (map sc_attnum pre) \<and> distinct (map (destination_name env) pre) \<and>
     distinct (map sc_attnum post) \<and> distinct (map (destination_name env) post) \<and>
     (\<forall>c\<in>set pre \<union> set post. destination_name env c \<noteq> '''' \<and> sc_descriptor c \<noteq> None) \<and>
     destination_name env ` set pre \<subseteq> set (dt_columns t) \<and>
     (\<forall>p\<in>set pre. destination_name env p \<in> key_names t \<longrightarrow>
        (\<exists>q\<in>set post. sc_attnum p = sc_attnum q \<and> type_identity env p = type_identity env q)) \<and>
     (\<forall>p\<in>set pre. \<forall>q\<in>set post. sc_attnum p = sc_attnum q \<and> destination_name env p \<noteq> destination_name env q \<longrightarrow>
        (destination_name env q \<in> set (dt_columns t) \<longrightarrow> destination_name env q \<in> destination_name env ` set pre) \<and>
        (\<forall>p'\<in>set pre. destination_name env p' = destination_name env q \<longrightarrow> sc_attnum p' \<notin> sc_attnum ` set post))"

lemma evolvable_inj:
  assumes "evolvable env t pre post"
  shows "p \<in> set pre \<Longrightarrow> p' \<in> set pre \<Longrightarrow> destination_name env p = destination_name env p' \<Longrightarrow> p = p'"
    and "q \<in> set post \<Longrightarrow> q' \<in> set post \<Longrightarrow> destination_name env q = destination_name env q' \<Longrightarrow> q = q'"
    and "p \<in> set pre \<Longrightarrow> p' \<in> set pre \<Longrightarrow> sc_attnum p = sc_attnum p' \<Longrightarrow> p = p'"
    and "q \<in> set post \<Longrightarrow> q' \<in> set post \<Longrightarrow> sc_attnum q = sc_attnum q' \<Longrightarrow> q = q'"
  using assms unfolding evolvable_def by (auto simp: distinct_map dest: inj_onD)

lemma renames_of_diff:
  assumes "evolvable env t pre post"
  shows "c \<in> set (renames_of (diff_columns env pre post)) \<longleftrightarrow>
    (\<exists>p\<in>set pre. \<exists>q\<in>set post. sc_attnum p = sc_attnum q \<and> sc_name p \<noteq> sc_name q \<and>
       c = altered_column COLUMN_RENAMED (type_identity env p \<noteq> type_identity env q) p q)"
  using assms by (auto simp: set_renames_of in_diff evolvable_def)

lemma dropped_names_diff:
  assumes "evolvable env t pre post"
  shows "x \<in> dropped_names env (diff_columns env pre post) \<longleftrightarrow>
    (\<exists>p\<in>set pre. sc_attnum p \<notin> sc_attnum ` set post \<and> x = destination_name env p)" (is "?l \<longleftrightarrow> ?r")
proof
  assume ?r
  then obtain p where "p \<in> set pre" "sc_attnum p \<notin> sc_attnum ` set post" "x = destination_name env p" by blast
  then have "dropped_column p \<in> set (diff_columns env pre post)" "x = old_of env (dropped_column p)"
    using assms by (auto simp: in_diff evolvable_def)
  then show ?l by (force simp: dropped_names_def)
next
  assume ?l
  then show ?r using assms by (auto simp: dropped_names_def in_diff evolvable_def)
qed

lemma independent_diff:
  assumes ev: "evolvable env t pre post"
  shows "independent env (renames_of (diff_columns env pre post))"
proof -
  define rs where "rs = renames_of (diff_columns env pre post)"
  have in_rs: "c \<in> set rs \<Longrightarrow> \<exists>p\<in>set pre. \<exists>q\<in>set post. sc_attnum p = sc_attnum q \<and> old_of env c = destination_name env p \<and>
      new_of env c = destination_name env q \<and>
      c = altered_column COLUMN_RENAMED (type_identity env p \<noteq> type_identity env q) p q" for c
  proof -
    assume "c \<in> set rs"
    then obtain p q where "p \<in> set pre" "q \<in> set post" "sc_attnum p = sc_attnum q"
      "c = altered_column COLUMN_RENAMED (type_identity env p \<noteq> type_identity env q) p q"
      unfolding rs_def renames_of_diff[OF ev] by blast
    then show ?thesis by (intro bexI[of _ p] bexI[of _ q]) simp_all
  qed
  have "distinct (map cc_attnum rs)"
    using diff_attnums_distinct[of pre post env] ev unfolding rs_def renames_of_def evolvable_def
    by (auto intro: distinct_map_filter)
  then have d: "distinct rs" by (simp add: distinct_map)
  note inj = evolvable_inj[OF ev]
  have old: "c = c'" if c: "c \<in> set rs" "c' \<in> set rs" "old_of env c = old_of env c'" for c c'
  proof -
    obtain p q p' q' where "p \<in> set pre" "q \<in> set post" "sc_attnum p = sc_attnum q" "old_of env c = destination_name env p"
      "c = altered_column COLUMN_RENAMED (type_identity env p \<noteq> type_identity env q) p q"
      "p' \<in> set pre" "q' \<in> set post" "sc_attnum p' = sc_attnum q'" "old_of env c' = destination_name env p'"
      "c' = altered_column COLUMN_RENAMED (type_identity env p' \<noteq> type_identity env q') p' q'"
      using in_rs[OF c(1)] in_rs[OF c(2)] by blast
    then show ?thesis using inj(1)[of p p'] inj(4)[of q q'] c(3) by simp
  qed
  have new: "c = c'" if c: "c \<in> set rs" "c' \<in> set rs" "new_of env c = new_of env c'" for c c'
  proof -
    obtain p q p' q' where "p \<in> set pre" "q \<in> set post" "sc_attnum p = sc_attnum q" "new_of env c = destination_name env q"
      "c = altered_column COLUMN_RENAMED (type_identity env p \<noteq> type_identity env q) p q"
      "p' \<in> set pre" "q' \<in> set post" "sc_attnum p' = sc_attnum q'" "new_of env c' = destination_name env q'"
      "c' = altered_column COLUMN_RENAMED (type_identity env p' \<noteq> type_identity env q') p' q'"
      using in_rs[OF c(1)] in_rs[OF c(2)] by blast
    then show ?thesis using inj(2)[of q q'] inj(3)[of p p'] c(3) by simp
  qed
  have cross: "c = c'" if c: "c \<in> set rs" "c' \<in> set rs" "new_of env c = old_of env c'" for c c'
  proof -
    obtain p q p' q' where pq: "p \<in> set pre" "q \<in> set post" "sc_attnum p = sc_attnum q" "old_of env c = destination_name env p"
      "new_of env c = destination_name env q" "p' \<in> set pre" "q' \<in> set post" "sc_attnum p' = sc_attnum q'"
      "old_of env c' = destination_name env p'"
      using in_rs[OF c(1)] in_rs[OF c(2)] by blast
    have "destination_name env p = destination_name env q"
      using ev pq c(3) unfolding evolvable_def by (metis image_eqI)
    then show ?thesis using old c pq by simp
  qed
  have "distinct (map (old_of env) rs)" "distinct (map (new_of env) rs)"
    using d old new by (auto simp: distinct_map inj_on_def)
  then show ?thesis using cross unfolding independent_def rs_def by blast
qed

lemma evolvable_facts:
  assumes "evolvable env t pre post"
  shows "p \<in> set pre \<Longrightarrow> shape t (destination_name env p) \<noteq> None"
    and "p \<in> set pre \<Longrightarrow> q \<in> set post \<Longrightarrow> sc_attnum p = sc_attnum q \<Longrightarrow> destination_name env p \<notin> dropped_names env (diff_columns env pre post)"
    and "p \<in> set pre \<Longrightarrow> sc_attnum p \<notin> sc_attnum ` set post \<Longrightarrow> destination_name env p \<notin> key_names t"
    and "p \<in> set pre \<Longrightarrow> q \<in> set post \<Longrightarrow> sc_attnum p = sc_attnum q \<Longrightarrow> destination_name env p \<noteq> destination_name env q \<Longrightarrow>
      shape t (destination_name env q) = None \<or> destination_name env q \<in> dropped_names env (diff_columns env pre post)"
    and "p \<in> set pre \<Longrightarrow> q \<in> set post \<Longrightarrow> sc_attnum p = sc_attnum q \<Longrightarrow> type_identity env p \<noteq> type_identity env q \<Longrightarrow>
      destination_name env p \<notin> key_names t"
proof -
  note inj = evolvable_inj[OF assms]
  note E = assms[unfolded evolvable_def]
  show "p \<in> set pre \<Longrightarrow> shape t (destination_name env p) \<noteq> None" using E by (auto simp: shape_None_iff)
  show "p \<in> set pre \<Longrightarrow> q \<in> set post \<Longrightarrow> sc_attnum p = sc_attnum q \<Longrightarrow>
      destination_name env p \<notin> dropped_names env (diff_columns env pre post)"
    unfolding dropped_names_diff[OF assms] using inj(1) by (metis image_eqI)
  show "p \<in> set pre \<Longrightarrow> sc_attnum p \<notin> sc_attnum ` set post \<Longrightarrow> destination_name env p \<notin> key_names t"
    using E by (metis image_eqI)
  show "p \<in> set pre \<Longrightarrow> q \<in> set post \<Longrightarrow> sc_attnum p = sc_attnum q \<Longrightarrow> destination_name env p \<noteq> destination_name env q \<Longrightarrow>
      shape t (destination_name env q) = None \<or> destination_name env q \<in> dropped_names env (diff_columns env pre post)"
    unfolding dropped_names_diff[OF assms] shape_None_iff
  proof -
    assume a: "p \<in> set pre" "q \<in> set post" "sc_attnum p = sc_attnum q" "destination_name env p \<noteq> destination_name env q"
    then have q: "destination_name env q \<in> set (dt_columns t) \<Longrightarrow> destination_name env q \<in> destination_name env ` set pre"
      "\<And>p'. p' \<in> set pre \<Longrightarrow> destination_name env p' = destination_name env q \<Longrightarrow> sc_attnum p' \<notin> sc_attnum ` set post"
      using E by blast+
    show "destination_name env q \<notin> set (dt_columns t) \<or>
        (\<exists>p\<in>set pre. sc_attnum p \<notin> sc_attnum ` set post \<and> destination_name env q = destination_name env p)"
      using q by fastforce
  qed
  show "p \<in> set pre \<Longrightarrow> q \<in> set post \<Longrightarrow> sc_attnum p = sc_attnum q \<Longrightarrow> type_identity env p \<noteq> type_identity env q \<Longrightarrow>
      destination_name env p \<notin> key_names t"
    using E inj(4) by metis
qed

lemma retyped_target_no_key:
  assumes ev: "evolvable env t pre post" and pq: "p \<in> set pre" "q \<in> set post" "sc_attnum p = sc_attnum q"
    and ti: "type_identity env p \<noteq> type_identity env q"
  shows "destination_name env q \<notin> key_names t"
proof (cases "destination_name env p = destination_name env q")
  case True
  then show ?thesis using evolvable_facts(5)[OF ev pq ti] by simp
next
  case False
  have sub: "key_names t \<subseteq> set (dt_columns t)" using ev by (simp add: evolvable_def)
  from evolvable_facts(4)[OF ev pq False] show ?thesis
  proof
    assume "shape t (destination_name env q) = None"
    then show ?thesis using sub by (auto simp: shape_None_iff)
  next
    assume "destination_name env q \<in> dropped_names env (diff_columns env pre post)"
    then show ?thesis unfolding dropped_names_diff[OF ev] using evolvable_facts(3)[OF ev] by metis
  qed
qed

lemma same_name_not_renamed:
  assumes ev: "evolvable env t pre post" and pq: "p \<in> set pre" "q \<in> set post" "sc_attnum p = sc_attnum q" "sc_name p = sc_name q"
  shows "destination_name env q \<notin> old_of env ` set (renames_of (diff_columns env pre post))"
    and "destination_name env q \<notin> new_of env ` set (renames_of (diff_columns env pre post))"
proof -
  note inj = evolvable_inj[OF ev]
  have dq: "destination_name env q = destination_name env p" using pq(4) by (simp add: destination_name_def)
  have ren: "sc_attnum p' = sc_attnum q' \<and> sc_name p' \<noteq> sc_name q' \<Longrightarrow> p' \<in> set pre \<Longrightarrow> q' \<in> set post \<Longrightarrow>
      destination_name env p' \<noteq> destination_name env q \<and> destination_name env q' \<noteq> destination_name env q" for p' q'
    using pq dq inj(1)[of p p'] inj(2)[of q q'] inj(3)[of p p'] inj(4)[of q q'] by metis
  show "destination_name env q \<notin> old_of env ` set (renames_of (diff_columns env pre post))"
    "destination_name env q \<notin> new_of env ` set (renames_of (diff_columns env pre post))"
    using ren by (auto simp: renames_of_diff[OF ev] image_iff) (metis)+
qed

lemma orderly_diff:
  assumes ev: "evolvable env t pre post"
  shows "orderly env t (diff_columns env pre post)"
proof -
  have d: "distinct (map sc_attnum pre)" "distinct (map sc_attnum post)" and cur: "cache_current t"
    and ok: "\<forall>c\<in>set pre \<union> set post. destination_name env c \<noteq> '''' \<and> sc_descriptor c \<noteq> None"
    using ev by (simp_all add: evolvable_def)
  note F = evolvable_facts[OF ev]
  show ?thesis unfolding orderly_def
  proof (intro conjI ballI impI cur independent_diff[OF ev])
    fix c assume c: "c \<in> set (diff_columns env pre post)"
    show "well_formed_change env c" using c ok by (auto simp: in_diff[OF d] well_formed_change_def)
    { assume "cc_kind c = COLUMN_DROPPED"
      then show "old_of env c \<notin> key_names t" using c F(3) by (auto simp: in_diff[OF d]) }
    { assume "cc_kind c = COLUMN_RENAMED"
      then obtain p q where pq: "p \<in> set pre" "q \<in> set post" "sc_attnum p = sc_attnum q"
        and c': "c = altered_column COLUMN_RENAMED (type_identity env p \<noteq> type_identity env q) p q"
        using c by (auto simp: in_diff[OF d])
      show "shape t (old_of env c) \<noteq> None" using F(1)[OF pq(1)] by (simp add: c')
      show "old_of env c \<notin> dropped_names env (diff_columns env pre post)" using F(2)[OF pq] by (simp add: c')
      show "old_of env c = new_of env c \<or> shape t (new_of env c) = None \<or>
          new_of env c \<in> dropped_names env (diff_columns env pre post)" using F(4)[OF pq] by (auto simp: c')
      assume "retyped env c \<noteq> {}"
      then have ti: "type_identity env p \<noteq> type_identity env q" by (auto simp: c' retyped_def)
      show "old_of env c \<notin> key_names t" "new_of env c \<notin> key_names t"
        using F(5)[OF pq ti] retyped_target_no_key[OF ev pq ti] by (simp_all add: c') }
    { assume "cc_kind c = COLUMN_TYPE_CHANGED"
      then obtain p q where pq: "p \<in> set pre" "q \<in> set post" "sc_attnum p = sc_attnum q" "sc_name p = sc_name q"
        and ti: "type_identity env p \<noteq> type_identity env q" and c': "c = altered_column COLUMN_TYPE_CHANGED False p q"
        using c by (auto simp: in_diff[OF d])
      have n: "new_of env c = destination_name env q" "destination_name env q = destination_name env p"
        using pq(4) by (simp_all add: c' destination_name_def)
      show "shape t (new_of env c) \<noteq> None" "new_of env c \<notin> key_names t"
        "new_of env c \<notin> dropped_names env (diff_columns env pre post)"
        using F(1)[OF pq(1)] F(5)[OF pq(1-3) ti] F(2)[OF pq(1-3)] n by simp_all
      show "new_of env c \<notin> old_of env ` set (renames_of (diff_columns env pre post))"
        "new_of env c \<notin> new_of env ` set (renames_of (diff_columns env pre post))"
        using same_name_not_renamed[OF ev pq] n(1) by simp_all }
  qed
qed

lemma final_shape_survivor:
  assumes ev: "evolvable env t pre post" and pq: "p \<in> set pre" "q \<in> set post" "sc_attnum p = sc_attnum q"
  shows "final_shape env (diff_columns env pre post) m (destination_name env q) = m (destination_name env p)"
proof (cases "sc_name p = sc_name q")
  case True
  then have "destination_name env q = destination_name env p" by (simp add: destination_name_def)
  then show ?thesis
    using final_shape_untouched[of "destination_name env q" env] same_name_not_renamed[OF ev pq True]
      evolvable_facts(2)[OF ev pq] by simp
next
  case False
  define cs where "cs = diff_columns env pre post"
  define c where "c = altered_column COLUMN_RENAMED (type_identity env p \<noteq> type_identity env q) p q"
  have c: "c \<in> set (renames_of cs)" unfolding cs_def c_def renames_of_diff[OF ev] using pq False by blast
  have wf: "\<forall>c\<in>set cs. well_formed_change env c" using orderly_diff[OF ev] by (simp add: orderly_def cs_def)
  have new: "destination_name env q = new_of env c" "destination_name env p = old_of env c" by (simp_all add: c_def)
  have "destination_name env q \<notin> dropped_names env (late_drops env cs)"
    using late_not_target[OF wf] c new(1) by auto
  moreover have "destination_name env p \<notin> dropped_names env (early_drops env cs)"
    using evolvable_facts(2)[OF ev pq] early_names[of env cs] by (auto simp: cs_def)
  ultimately show ?thesis
    using all_moved_target[OF independent_diff[OF ev, folded cs_def] c, of "without (dropped_names env (early_drops env cs)) m"]
    by (simp add: final_shape_def without_def cs_def[symmetric] new[symmetric])
qed

lemma final_shape_gone:
  assumes ev: "evolvable env t pre post" and x: "x \<in> destination_name env ` set pre" "x \<notin> destination_name env ` set post"
  shows "final_shape env (diff_columns env pre post) m x = None"
proof -
  define cs where "cs = diff_columns env pre post"
  have wf: "\<forall>c\<in>set cs. well_formed_change env c" using orderly_diff[OF ev] by (simp add: orderly_def cs_def)
  obtain p where p: "p \<in> set pre" "x = destination_name env p" using x(1) by blast
  have new: "x \<notin> new_of env ` set (renames_of cs)"
    using x(2) by (auto simp: cs_def renames_of_diff[OF ev])
  show ?thesis
  proof (cases "sc_attnum p \<in> sc_attnum ` set post")
    case False
    then have "x \<in> dropped_names env cs" unfolding cs_def dropped_names_diff[OF ev] using p by blast
    then have "x \<in> dropped_names env (late_drops env cs)"
      using early_target[OF wf] new dropped_early_or_late[of x env cs] by blast
    then show ?thesis by (simp add: final_shape_def without_def cs_def)
  next
    case True
    then obtain q where q: "q \<in> set post" "sc_attnum p = sc_attnum q" by auto
    have "sc_name p \<noteq> sc_name q" using x(2) p q(1) by (auto simp: destination_name_def image_iff)
    then have "altered_column COLUMN_RENAMED (type_identity env p \<noteq> type_identity env q) p q \<in> set (renames_of cs)"
      unfolding cs_def renames_of_diff[OF ev] using p q by blast
    then have "x \<in> old_of env ` set (renames_of cs)" using p(2) by force
    from all_moved_source[OF this new, of "without (dropped_names env (early_drops env cs)) m"] show ?thesis by (simp add: final_shape_def without_def cs_def)
  qed
qed

lemma added_names_diff:
  assumes ev: "evolvable env t pre post"
  shows "x \<in> added_names env (diff_columns env pre post) \<longleftrightarrow>
    (\<exists>q\<in>set post. sc_attnum q \<notin> sc_attnum ` set pre \<and> x = destination_name env q)" (is "?l \<longleftrightarrow> ?r")
proof
  assume ?r
  then obtain q where "q \<in> set post" "sc_attnum q \<notin> sc_attnum ` set pre" "x = destination_name env q" by blast
  then have "added_column q \<in> set (diff_columns env pre post)" "x = new_of env (added_column q)"
    using ev by (auto simp: in_diff evolvable_def)
  then show ?l by (force simp: added_names_def)
next
  assume ?l
  then show ?r using ev by (auto simp: added_names_def in_diff evolvable_def)
qed

lemma retyped_by_diff:
  assumes ev: "evolvable env t pre post" and x: "x \<in> retyped_by env (diff_columns env pre post)"
  obtains p q where "p \<in> set pre" "q \<in> set post" "sc_attnum p = sc_attnum q" "type_identity env p \<noteq> type_identity env q"
    and "x = destination_name env q"
  using x ev by (auto simp: retyped_by_def retyped_def in_diff evolvable_def split: if_splits)


section \<open>A concrete destination\<close>

definition plain_ensure :: "'v dest_table \<Rightarrow> string \<Rightarrow> 'd \<Rightarrow> string list \<Rightarrow> unit + 'v dest_table" where
  "plain_ensure t n d ks =
     Inr (if n \<in> set (dt_columns t) then t
          else t\<lparr>dt_columns := dt_columns t @ [n], dt_rows := map (\<lambda>r. r(n := None)) (dt_rows t),
                 tc_columns := tc_columns t @ [n]\<rparr>)"

definition plain_convert :: "'v dest_table \<Rightarrow> string option \<Rightarrow> 'd \<Rightarrow> 'd \<Rightarrow> unit + 'v dest_table" where
  "plain_convert t c d d' = (case c of None \<Rightarrow> Inl () | Some _ \<Rightarrow> Inr t)"

definition plain_env :: "(string, string) evolution_env" where
  "plain_env = \<lparr>ev_normalize = (\<lambda>x. x), ev_fingerprint = (\<lambda>d. d), ev_from_type_name = (\<lambda>n o'. n),
     ev_ddl = (\<lambda>d t. True), ev_ensure = plain_ensure, ev_convert = plain_convert\<rparr>"

lemma plain_env_capable: "capable plain_env"
proof -
  have "adds_columns plain_env" unfolding adds_columns_def
  proof (intro allI impI)
    fix t :: "string dest_table" and n d assume cur: "cache_current t"
    define u where "u = (if n \<in> set (dt_columns t) then t
          else t\<lparr>dt_columns := dt_columns t @ [n], dt_rows := map (\<lambda>r. r(n := None)) (dt_rows t),
                 tc_columns := tc_columns t @ [n]\<rparr>)"
    have "ev_ensure plain_env t n d (tc_key_columns t) = Inr u" by (simp add: plain_env_def plain_ensure_def u_def)
    moreover have "cache_current u" "shape u n \<noteq> None" "key_names u \<subseteq> key_names t" "\<forall>c. c \<noteq> n \<longrightarrow> shape u c = shape t c"
      using cur by (auto simp: u_def cache_current_def shape_def key_names_def)
    ultimately show "\<exists>t'. ev_ensure plain_env t n d (tc_key_columns t) = Inr t' \<and> cache_current t' \<and>
        (\<forall>c. c \<noteq> n \<longrightarrow> shape t' c = shape t c) \<and> shape t' n \<noteq> None \<and> key_names t' \<subseteq> key_names t" by blast
  qed
  then show ?thesis by (simp add: capable_def converts_columns_def plain_env_def plain_convert_def)
qed

definition text_column :: "int \<Rightarrow> string \<Rightarrow> string source_column" where
  "text_column n name = \<lparr>sc_attnum = n, sc_name = name, sc_type_oid = 25, sc_type_name = ''text'',
     sc_nullable = True, sc_descriptor = Some ''text''\<rparr>"

definition customers :: "string dest_table" where
  "customers = \<lparr>dt_columns = [''id'', ''first_name'', ''last_name'', event_id_column], dt_primary = [''id''],
     dt_rows = [[''id'' \<mapsto> ''1'', ''first_name'' \<mapsto> ''Ada'', ''last_name'' \<mapsto> ''Lovelace'', event_id_column \<mapsto> ''e1'']],
     dt_presence = [], dt_metadata = Some [''id''], tc_exists = True,
     tc_columns = [''id'', ''first_name'', ''last_name'', event_id_column], tc_key_columns = [''id''],
     tc_source_key_columns = [''id''], tc_constrained = True\<rparr>"

abbreviation customer_columns :: "string source_column list" where
  "customer_columns \<equiv> [text_column 1 ''id'', text_column 2 ''first_name'', text_column 3 ''last_name'']"


text \<open>A name passed from one renamed column to another: each of the two renames of one
  observation is right on its own, but the pass meant for the remaining drops repeats the
  renames, finds the name in use again and merges two different columns.  The destination loses
  a column and the other gets its values: the source's given name is Ada in the first case, and
  its first name is Lovelace in both.\<close>

definition shape_after :: "string source_column list \<Rightarrow> string list \<Rightarrow> (string option list option) list" where
  "shape_after post names =
     (case apply_column_changes plain_env customers (diff_columns plain_env customer_columns post) of
        Inl _ \<Rightarrow> [] | Inr t' \<Rightarrow> map (shape t') names)"

lemma repeated_rename_merges_columns:
  "shape_after [text_column 1 ''id'', text_column 2 ''given_name'', text_column 3 ''first_name'']
     [''given_name'', ''first_name''] = [Some [Some ''Lovelace''], None]"
  by code_simp

lemma exchanged_names_lose_a_column:
  "shape_after [text_column 1 ''id'', text_column 2 ''last_name'', text_column 3 ''first_name'']
     [''first_name'', ''last_name''] = [Some [Some ''Ada''], None]"
  by code_simp

text \<open>A row under the new name may arrive before the catalog poll sees the rename: the two
  columns are merged row by row, keeping an explicit NULL the presence journal recorded, and the
  old column goes.\<close>

lemma late_rename_merges:
  assumes cur: "cache_current t" and ne: "old \<noteq> ''''" "new \<noteq> ''''" "old \<noteq> new"
    and both: "old \<in> set (dt_columns t)" "new \<in> set (dt_columns t)"
    and key: "old \<notin> key_names t" and ddl: "\<And>d x. ev_ddl env d x"
  shows "\<exists>t'. rename_column env (Some old) (Some new) t = Inr t' \<and> cache_current t' \<and>
     shape t' = (shape t)(new \<mapsto> map (merged_value (event_id_column \<in> set (dt_columns t)) (dt_presence t) old new) (dt_rows t),
                          old := None)"
proof -
  define r where "r = refresh t"
  have r: "cache_current r" "set (tc_columns r) = set (dt_columns t)" "dt_columns r = dt_columns t"
    "dt_rows r = dt_rows t" "key_names r \<subseteq> key_names t"
    unfolding r_def using refresh_current[OF cur] refresh_columns[OF cur] refresh_keys by simp_all
  have pres: "dt_presence r = dt_presence t" by (simp add: r_def refresh_def Let_def)
  define m where "m = merge_columns old new r"
  have m: "tc_columns m = tc_columns r" "tc_key_columns m = tc_key_columns r" "dt_columns m = dt_columns t"
    by (simp_all add: m_def merge_columns_def r)
  define d where "d = (sql_drop_column old m)\<lparr>tc_columns := filter (\<lambda>x. x \<noteq> old) (tc_columns m)\<rparr>"
  define e where "e = (if event_id_column \<in> set (tc_columns d)
                  then d\<lparr>dt_presence := filter (\<lambda>p. snd p \<noteq> new) (dt_presence d)\<rparr> else d)"
  have merged: "finish_merge env old new r = Inr e"
  proof -
    have "old \<notin> set (tc_key_columns m)" using key r(5) m(2) by (auto simp: key_names_def)
    then show ?thesis unfolding finish_merge_def Let_def m_def[symmetric] using ddl by (simp add: d_def e_def)
  qed
  define f where "f = persist_key_metadata (e\<lparr>tc_key_columns := rename_in old new (tc_key_columns e),
             tc_source_key_columns := rename_in old new (tc_source_key_columns e)\<rparr>)"
  have run: "rename_column env (Some old) (Some new) t = Inr f"
    using ne both merged r cur
    by (simp add: rename_column_def Let_def r_def[symmetric] f_def cache_current_def)
  have "shape f = shape (sql_drop_column old m)" by (simp add: f_def e_def d_def shape_def fun_eq_iff)
  also have "\<dots> = (shape m)(old := None)" by (rule shape_sql_drop)
  also have "shape m = (shape t)(new \<mapsto> map (merged_value (event_id_column \<in> set (dt_columns t)) (dt_presence t) old new) (dt_rows t))"
    using both by (auto simp: m_def merge_columns_def shape_def r pres fun_eq_iff)
  finally have "shape f = (shape t)(new \<mapsto> map (merged_value (event_id_column \<in> set (dt_columns t)) (dt_presence t) old new) (dt_rows t), old := None)" .
  moreover have "cache_current f"
  proof -
    have "old \<notin> set (dt_primary r)" using key r(5) by (auto simp: key_names_def)
    then have "cache_current d"
      using r(1) by (auto simp: d_def cache_current_def sql_drop_column_def m_def merge_columns_def)
    then have "cache_current e" by (simp add: e_def cache_current_def)
    then show ?thesis by (simp add: f_def cache_current_def persist_key_metadata_def)
  qed
  ultimately show ?thesis using run by blast
qed

end
