(* ===== verification/Schema_Epoch.thy ===== *)
theory Schema_Epoch
  imports Schema_Evolution Assembler
begin

text \<open>
  Ordered schema fences inside one commit group (\<open>schema_epoch.py\<close>).

  The group's schema changes are applied between whole source units.  \<open>refuse_mixed_schema_epoch\<close>
  refuses a unit with row images from both sides of a fence, \<open>unit_is_post_schema_epoch\<close>
  decides from the row shape that a unit belongs after a fence, and \<open>coordinate\<close> (the method
  \<open>SchemaEpochCoordinator.apply\<close>) cuts the group at the fences.  The coordinator's callbacks are
  recorded: the state is the list of the calls made so far, and the environment's \<open>se_call\<close> says
  what a call returns (or that it raises) after the earlier ones.  The descriptors a record
  carries and the staged prefix of a spilled unit are fields of the environment too.
\<close>

section \<open>Catalog changes, actions and plans\<close>

record 'd catalog_change =
  ch_kind :: string
  ch_schema :: string
  ch_table :: string
  ch_detected_lsn :: int
  ch_column_changes :: "'d column_change list"

record 'd catalog_action =
  ca_change :: "'d catalog_change"
  ca_target :: string
  ca_destructive :: bool
  ca_detail :: "string option"

record 'd catalog_plan =
  cp_actions :: "'d catalog_action list"
  cp_relations :: "source_relation list"
  cp_policy_alerts :: "(string, string) dict list"

datatype epoch_error =
  NoDescriptorFingerprint | MixedDescriptors | BothRenameNames | MixedUnit string | CallRaised

definition CHANGE_SCHEMA :: string where
  "CHANGE_SCHEMA = ''schema_changed''"

definition change_qualified :: "'d catalog_change \<Rightarrow> string" where
  "change_qualified c = qualified_name (ch_schema c) (ch_table c)"

abbreviation action_lsn :: "'d catalog_action \<Rightarrow> int" where
  "action_lsn a \<equiv> ch_detected_lsn (ca_change a)"

abbreviation action_name :: "'d catalog_action \<Rightarrow> string" where
  "action_name a \<equiv> change_qualified (ca_change a)"

section \<open>Statistics of an application\<close>

record 'f apply_stats =
  as_events :: int
  as_tables :: "string set"
  as_first_txn_id :: "string option"
  as_last_txn_id :: "string option"
  as_first_lsn :: "int option"
  as_last_lsn :: "int option"
  as_max_source_ts :: "int option"
  as_source_data_facts :: "'f list"

definition empty_apply_stats :: "'f apply_stats" where
  "empty_apply_stats = \<lparr>as_events = 0, as_tables = {}, as_first_txn_id = None, as_last_txn_id = None,
     as_first_lsn = None, as_last_lsn = None, as_max_source_ts = None, as_source_data_facts = []\<rparr>"

definition or_else :: "'a option \<Rightarrow> 'a option \<Rightarrow> 'a option" where
  "or_else x y = (case x of None \<Rightarrow> y | Some _ \<Rightarrow> x)"

definition merge_apply_stats :: "'f apply_stats option \<Rightarrow> 'f apply_stats \<Rightarrow> 'f apply_stats" where
  "merge_apply_stats acc part =
     (case acc of
        None \<Rightarrow> part
      | Some t \<Rightarrow>
          \<lparr>as_events = as_events t + as_events part, as_tables = as_tables t \<union> as_tables part,
           as_first_txn_id = or_else (as_first_txn_id t) (as_first_txn_id part),
           as_last_txn_id = or_else (as_last_txn_id part) (as_last_txn_id t),
           as_first_lsn = or_else (as_first_lsn t) (as_first_lsn part),
           as_last_lsn = or_else (as_last_lsn part) (as_last_lsn t),
           as_max_source_ts = (case as_max_source_ts part of
              None \<Rightarrow> as_max_source_ts t
            | Some x \<Rightarrow> Some (max (int_or (as_max_source_ts t) 0) x)),
           as_source_data_facts = as_source_data_facts t @ as_source_data_facts part\<rparr>)"

section \<open>The coordinator's calls\<close>

datatype 'd epoch_call =
  ApplyUnits "complete_unit list" bool \<comment> \<open>the slice and \<open>clear_spill\<close>\<close>
| CatalogPhase "'d catalog_plan"
| BackfillSchema "'d catalog_plan"
| ClearSpill

record ('d, 'v, 'f) epoch_env =
  se_evolution :: "('d, 'v) evolution_env"
  se_key_descriptors :: "pending_record \<Rightarrow> (string, 'd) dict"
  se_before_descriptors :: "pending_record \<Rightarrow> (string, 'd) dict"
  se_after_descriptors :: "pending_record \<Rightarrow> (string, 'd) dict"
  se_staged :: "nat \<Rightarrow> pending_record list"
  se_call :: "'d epoch_call list \<Rightarrow> 'd epoch_call \<Rightarrow> 'f apply_stats option"

section \<open>The epoch of a row image\<close>

datatype epoch = Pre | Post | Mixed

definition show_oid :: "int option \<Rightarrow> string" where
  "show_oid x = (case x of None \<Rightarrow> ''None'' | Some n \<Rightarrow> dumps_int n)"

definition descriptor_identity ::
  "('d, 'v, 'f) epoch_env \<Rightarrow> 'd option \<Rightarrow> int option \<Rightarrow> string option \<Rightarrow> string" where
  "descriptor_identity env d oid name =
     (case d of
        Some x \<Rightarrow> ev_fingerprint (se_evolution env) x
      | None \<Rightarrow> show_oid oid @ '':'' @ map py_lower (case name of None \<Rightarrow> '''' | Some n \<Rightarrow> n))"

definition event_fingerprints :: "('d, 'v, 'f) epoch_env \<Rightarrow> pending_record \<Rightarrow> string list" where
  "event_fingerprints env e =
     map (ev_fingerprint (se_evolution env) \<circ> snd)
       (se_key_descriptors env e @ se_before_descriptors env e @ se_after_descriptors env e)"

definition type_change_epoch ::
  "('d, 'v, 'f) epoch_env \<Rightarrow> pending_record \<Rightarrow> 'd column_change \<Rightarrow> epoch_error + epoch" where
  "type_change_epoch env e c =
     (let old = descriptor_identity env (cc_old_descriptor c) (cc_old_type_oid c) (cc_old_type_name c);
          new = descriptor_identity env (cc_new_descriptor c) (cc_type_oid c) (cc_type_name c);
          pre = old \<in> set (event_fingerprints env e); post = new \<in> set (event_fingerprints env e) in
      if \<not> pre \<and> \<not> post then Inl NoDescriptorFingerprint
      else Inr (if pre \<and> post then Mixed else if pre then Pre else Post))"

definition image_fields :: "pending_record \<Rightarrow> string list" where
  "image_fields e = concat (map (\<lambda>i. case i of None \<Rightarrow> [] | Some m \<Rightarrow> map fst m) [pr_before e, pr_after e, pr_key e])"

definition is_type_change :: "'d column_change \<Rightarrow> bool" where
  "is_type_change c \<longleftrightarrow> cc_kind c = COLUMN_TYPE_CHANGED \<or> cc_kind c = COLUMN_RENAMED \<and> cc_type_changed c"

definition holds_name :: "string list \<Rightarrow> string option \<Rightarrow> bool" where
  "holds_name shown n = (case n of None \<Rightarrow> False | Some x \<Rightarrow> x \<in> set shown)"

definition change_epoch ::
  "('d, 'v, 'f) epoch_env \<Rightarrow> pending_record \<Rightarrow> 'd column_change \<Rightarrow> epoch_error + epoch option" where
  "change_epoch env e c =
     (let old = destination_old_name (se_evolution env) c; new = destination_new_name (se_evolution env) c;
          shown = image_fields e in
      if is_type_change c
      then rbind (type_change_epoch env e c) (\<lambda>x. if x = Mixed then Inl MixedDescriptors else Inr (Some x))
      else if cc_kind c = COLUMN_ADDED \<and> truthy_str new
      then Inr (Some (if holds_name shown new then Post else Pre))
      else if cc_kind c = COLUMN_DROPPED \<and> truthy_str old
      then Inr (Some (if holds_name shown old then Pre else Post))
      else if cc_kind c = COLUMN_RENAMED \<and> truthy_str old \<and> truthy_str new
      then if holds_name shown old \<and> holds_name shown new then Inl BothRenameNames
           else Inr (if holds_name shown old then Some Pre else if holds_name shown new then Some Post else None)
      else Inr None)"

section \<open>Units of both epochs are refused\<close>

definition changes_for :: "'d catalog_action list \<Rightarrow> string \<Rightarrow> 'd column_change list" where
  \<comment> \<open>\<open>changes_by_table\<close>\<close>
  "changes_for actions table =
     concat (map (\<lambda>a. ch_column_changes (ca_change a)) (filter (\<lambda>a. action_name a = table) actions))"

definition event_table :: "pending_record \<Rightarrow> string option" where
  "event_table e =
     (if truthy_str (pr_schema e) \<and> truthy_str (pr_table e)
      then Some (qualified_name (the (pr_schema e)) (the (pr_table e))) else None)"

definition note_epoch :: "string \<Rightarrow> epoch option \<Rightarrow> (string \<times> epoch) list \<Rightarrow> (string \<times> epoch) list" where
  "note_epoch table x seen = (case x of None \<Rightarrow> seen | Some ep \<Rightarrow> List.insert (table, ep) seen)"

definition event_epochs ::
  "('d, 'v, 'f) epoch_env \<Rightarrow> 'd catalog_action list \<Rightarrow> (string \<times> epoch) list \<Rightarrow> pending_record \<Rightarrow>
   epoch_error + (string \<times> epoch) list" where
  \<comment> \<open>the body of the loop over the events\<close>
  "event_epochs env actions seen e =
     (case event_table e of
        None \<Rightarrow> Inr seen
      | Some table \<Rightarrow>
          rfold (\<lambda>s c. rbind (change_epoch env e c) (\<lambda>x. Inr (note_epoch table x s)))
            seen (changes_for actions table))"

definition mixed_tables :: "(string \<times> epoch) list \<Rightarrow> string list" where
  "mixed_tables seen =
     sort (remdups (map fst (filter (\<lambda>p. \<exists>x\<in>set seen. fst x = fst p \<and> snd x \<noteq> snd p) seen)))"

definition refuse_mixed_schema_epoch ::
  "('d, 'v, 'f) epoch_env \<Rightarrow> pending_record list \<Rightarrow> 'd catalog_action list \<Rightarrow> epoch_error + unit" where
  "refuse_mixed_schema_epoch env events actions =
     rbind (rfold (event_epochs env actions) [] events) (\<lambda>seen.
       case mixed_tables seen of [] \<Rightarrow> Inr () | table # _ \<Rightarrow> Inl (MixedUnit table))"

section \<open>Units after a fence\<close>

fun rany :: "('x \<Rightarrow> 'e + bool) \<Rightarrow> 'x list \<Rightarrow> 'e + bool" where
  "rany f [] = Inr False"
| "rany f (x # xs) = rbind (f x) (\<lambda>b. if b then Inr True else rany f xs)"

definition change_is_post ::
  "('d, 'v, 'f) epoch_env \<Rightarrow> pending_record \<Rightarrow> 'd column_change \<Rightarrow> epoch_error + bool" where
  "change_is_post env e c =
     (let old = destination_old_name (se_evolution env) c; new = destination_new_name (se_evolution env) c;
          shown = image_fields e in
      if cc_kind c = COLUMN_ADDED \<and> truthy_str new \<and> holds_name shown new then Inr True
      else if cc_kind c = COLUMN_DROPPED \<and> truthy_str old \<and> \<not> holds_name shown old then Inr True
      else rbind (if is_type_change c then type_change_epoch env e c else Inr Pre) (\<lambda>x.
        if x = Post then Inr True
        else Inr (cc_kind c = COLUMN_RENAMED \<and> truthy_str new \<and> holds_name shown new \<and> \<not> holds_name shown old)))"

definition event_is_post ::
  "('d, 'v, 'f) epoch_env \<Rightarrow> 'd catalog_action list \<Rightarrow> pending_record \<Rightarrow> epoch_error + bool" where
  "event_is_post env actions e =
     (case event_table e of
        None \<Rightarrow> Inr False
      | Some table \<Rightarrow>
          if image_fields e = [] then Inr False
          else rany (change_is_post env e) (changes_for actions table))"

definition events_for_schema_check :: "('d, 'v, 'f) epoch_env \<Rightarrow> complete_unit \<Rightarrow> pending_record list" where
  "events_for_schema_check env u =
     cu_events u @ (case cu_spill_unit_seq u of None \<Rightarrow> [] | Some n \<Rightarrow> se_staged env n)"

definition unit_is_post_schema_epoch ::
  "('d, 'v, 'f) epoch_env \<Rightarrow> complete_unit \<Rightarrow> 'd catalog_action list \<Rightarrow> epoch_error + bool" where
  "unit_is_post_schema_epoch env u actions =
     (if cu_fenced u then Inr False else rany (event_is_post env actions) (events_for_schema_check env u))"

section \<open>The coordinator\<close>

record ('d, 'f) epoch_run =
  er_calls :: "'d epoch_call list"
  er_total :: "'f apply_stats option"
  er_cursor :: nat

definition call :: "('d, 'v, 'f) epoch_env \<Rightarrow> 'd epoch_call \<Rightarrow> ('d, 'f) epoch_run \<Rightarrow>
    epoch_error + ('d, 'f) epoch_run \<times> 'f apply_stats" where
  "call env c st =
     (case se_call env (er_calls st) c of
        None \<Rightarrow> Inl CallRaised
      | Some s \<Rightarrow> Inr (st\<lparr>er_calls := er_calls st @ [c]\<rparr>, s))"

definition call_apply :: "('d, 'v, 'f) epoch_env \<Rightarrow> complete_unit list \<Rightarrow> bool \<Rightarrow> ('d, 'f) epoch_run \<Rightarrow>
    epoch_error + ('d, 'f) epoch_run" where
  "call_apply env us clear st =
     rbind (call env (ApplyUnits us clear) st) (\<lambda>(st', part).
       Inr (st'\<lparr>er_total := Some (merge_apply_stats (er_total st') part),
                er_cursor := er_cursor st' + length us\<rparr>))"

definition call_unit :: "('d, 'v, 'f) epoch_env \<Rightarrow> 'd epoch_call \<Rightarrow> ('d, 'f) epoch_run \<Rightarrow>
    epoch_error + ('d, 'f) epoch_run" where
  "call_unit env c st = rbind (call env c st) (\<lambda>(st', _). Inr st')"

fun before_post ::
  "('d, 'v, 'f) epoch_env \<Rightarrow> 'd catalog_action list \<Rightarrow> complete_unit list \<Rightarrow> epoch_error + complete_unit list" where
  \<comment> \<open>the units before the first whose row shape is past the fence\<close>
  "before_post env actions [] = Inr []"
| "before_post env actions (u # us) =
     rbind (unit_is_post_schema_epoch env u actions) (\<lambda>b.
       if b then Inr [] else rbind (before_post env actions us) (\<lambda>r. Inr (u # r)))"

definition alert_name :: "(string, string) dict \<Rightarrow> string" where
  "alert_name d = qualified_name (dict_get d ''source_schema'' '''') (dict_get d ''source_table'' '''')"

definition phase_plan :: "'d catalog_plan \<Rightarrow> 'd catalog_action list \<Rightarrow> 'd catalog_plan" where
  "phase_plan plan same =
     \<lparr>cp_actions = same,
      cp_relations = filter (\<lambda>r. qualified_name (rel_schema r) (rel_table r) \<in> action_name ` set same) (cp_relations plan),
      cp_policy_alerts = filter (\<lambda>d. alert_name d \<in> action_name ` set same) (cp_policy_alerts plan)\<rparr>"

definition refuse_mixed_group ::
  "('d, 'v, 'f) epoch_env \<Rightarrow> 'd catalog_action list \<Rightarrow> complete_unit list \<Rightarrow> epoch_error + unit" where
  "refuse_mixed_group env same grp =
     rfold (\<lambda>_ u. if cu_fenced u then Inr ()
                  else refuse_mixed_schema_epoch env (events_for_schema_check env u) same) () grp"

definition schema_phase ::
  "('d, 'v, 'f) epoch_env \<Rightarrow> complete_unit list \<Rightarrow> 'd catalog_plan \<Rightarrow> 'd catalog_action list \<Rightarrow>
   int \<Rightarrow> ('d, 'f) epoch_run \<Rightarrow> epoch_error + ('d, 'f) epoch_run" where
  \<comment> \<open>the body of the loop for the actions \<open>same\<close> of one boundary\<close>
  "schema_phase env grp plan same boundary st =
     rbind (refuse_mixed_group env same grp) (\<lambda>_.
     rbind (before_post env same (takeWhile (\<lambda>u. cu_last_lsn u \<le> boundary) (drop (er_cursor st) grp))) (\<lambda>us.
     rbind (if us \<noteq> [] then call_apply env us False st else Inr st) (\<lambda>st.
     rbind (call_unit env (CatalogPhase (phase_plan plan same)) st) (\<lambda>st.
       call_unit env (BackfillSchema (phase_plan plan same)) st))))"

function schema_phases ::
  "('d, 'v, 'f) epoch_env \<Rightarrow> complete_unit list \<Rightarrow> 'd catalog_plan \<Rightarrow> 'd catalog_action list \<Rightarrow>
   ('d, 'f) epoch_run \<Rightarrow> epoch_error + ('d, 'f) epoch_run" where
  "schema_phases env grp plan [] st = Inr st"
| "schema_phases env grp plan (a # as) st =
     rbind (schema_phase env grp plan (a # takeWhile (\<lambda>b. action_lsn b = action_lsn a) as) (action_lsn a) st)
       (schema_phases env grp plan (dropWhile (\<lambda>b. action_lsn b = action_lsn a) as))"
  by pat_completeness auto
termination
  by (relation "measure (\<lambda>(_, _, _, as, _). length as)") (auto simp: le_imp_less_Suc length_dropWhile_le)

definition schema_actions :: "'d catalog_plan \<Rightarrow> 'd catalog_action list" where
  "schema_actions plan =
     sort_key (\<lambda>a. (action_lsn a, action_name a))
       (filter (\<lambda>a. ch_kind (ca_change a) = CHANGE_SCHEMA) (cp_actions plan))"

definition no_plan :: "'d catalog_plan" where
  "no_plan = \<lparr>cp_actions = [], cp_relations = [], cp_policy_alerts = []\<rparr>"

definition coordinate ::
  "('d, 'v, 'f) epoch_env \<Rightarrow> complete_unit list \<Rightarrow> 'd catalog_plan option \<Rightarrow>
   epoch_error + 'd epoch_call list \<times> 'f apply_stats" where
  "coordinate env grp plan' =
     (let plan = (case plan' of None \<Rightarrow> no_plan | Some p \<Rightarrow> p);
          start = \<lparr>er_calls = [], er_total = None, er_cursor = 0\<rparr> in
      if schema_actions plan = []
      then rbind (call env (ApplyUnits grp True) start) (\<lambda>(st, stats). Inr (er_calls st, stats))
      else rbind (schema_phases env grp plan (schema_actions plan) start) (\<lambda>st.
           rbind (if er_cursor st < length grp then call_apply env (drop (er_cursor st) grp) True st
                  else if \<exists>u\<in>set grp. cu_spill_unit_seq u \<noteq> None then call_unit env ClearSpill st
                  else Inr st) (\<lambda>st.
             Inr (er_calls st, case er_total st of None \<Rightarrow> empty_apply_stats | Some s \<Rightarrow> s))))"

section \<open>A unit that is not refused has one epoch per table\<close>

lemma rfold_collects:
  assumes "rfold (\<lambda>s c. rbind (f c) (\<lambda>x. Inr (g x s))) s cs = Inr s'"
    and mono: "\<And>x s y. y \<in> set s \<Longrightarrow> y \<in> set (g x s)"
  shows "set s \<subseteq> set s' \<and> (\<forall>c\<in>set cs. \<exists>x t. f c = Inr x \<and> set (g x t) \<subseteq> set s')"
  using assms(1)
proof (induction cs arbitrary: s)
  case (Cons c cs)
  then obtain x where x: "f c = Inr x" "rfold (\<lambda>s c. rbind (f c) (\<lambda>x. Inr (g x s))) (g x s) cs = Inr s'"
    by (auto simp: rbind_eq_Inr)
  from Cons.IH[OF x(2)] show ?case using x(1) mono by auto
qed simp

lemma event_epochs_note:
  assumes "event_epochs env actions s e = Inr s'"
  shows "set s \<subseteq> set s'"
    and "\<And>table c. event_table e = Some table \<Longrightarrow> c \<in> set (changes_for actions table) \<Longrightarrow>
      \<exists>x. change_epoch env e c = Inr x \<and> (\<forall>ep. x = Some ep \<longrightarrow> (table, ep) \<in> set s')"
proof -
  have mono: "y \<in> set s \<Longrightarrow> y \<in> set (note_epoch table x s)" for table x s y
    by (auto simp: note_epoch_def split: option.splits)
  have "event_table e = Some table \<Longrightarrow> set s \<subseteq> set s' \<and> (\<forall>c\<in>set (changes_for actions table).
      \<exists>x t. change_epoch env e c = Inr x \<and> set (note_epoch table x t) \<subseteq> set s')" for table
    by (rule rfold_collects[OF _ mono]) (use assms in \<open>simp add: event_epochs_def\<close>)
  note collected = this
  show "set s \<subseteq> set s'"
    using collected assms by (cases "event_table e") (simp_all add: event_epochs_def)
  show "\<exists>x. change_epoch env e c = Inr x \<and> (\<forall>ep. x = Some ep \<longrightarrow> (table, ep) \<in> set s')"
    if t: "event_table e = Some table" "c \<in> set (changes_for actions table)" for table c
  proof -
    obtain x t where "change_epoch env e c = Inr x" "set (note_epoch table x t) \<subseteq> set s'"
      using collected[OF t(1)] t(2) by blast
    then show ?thesis by (auto simp: note_epoch_def)
  qed
qed

lemma all_events_noted:
  assumes "rfold (event_epochs env actions) s events = Inr s'" and "e \<in> set events"
    and "event_table e = Some table" and "c \<in> set (changes_for actions table)"
  shows "\<exists>x. change_epoch env e c = Inr x \<and> (\<forall>ep. x = Some ep \<longrightarrow> (table, ep) \<in> set s')"
proof -
  have grows: "rfold (event_epochs env actions) s es = Inr s' \<Longrightarrow> set s \<subseteq> set s'" for s es
  proof (induction es arbitrary: s)
    case (Cons e es)
    then obtain s1 where "event_epochs env actions s e = Inr s1" "rfold (event_epochs env actions) s1 es = Inr s'"
      by (auto simp: rbind_eq_Inr)
    then show ?case using Cons.IH event_epochs_note(1) by blast
  qed simp
  show ?thesis using assms(1,2)
  proof (induction events arbitrary: s)
    case (Cons d ds)
    then obtain s1 where s1: "event_epochs env actions s d = Inr s1" "rfold (event_epochs env actions) s1 ds = Inr s'"
      by (auto simp: rbind_eq_Inr)
    show ?case
    proof (cases "e = d")
      case True
      then show ?thesis using event_epochs_note(2)[OF s1(1)] assms(3,4) grows[OF s1(2)] by blast
    next
      case False
      then show ?thesis using Cons.IH[OF s1(2)] Cons.prems(2) by simp
    qed
  qed simp
qed

lemma mixed_tables_Nil:
  assumes "mixed_tables seen = []" and "(t, x) \<in> set seen" and "(t, y) \<in> set seen"
  shows "x = y"
proof (rule ccontr)
  assume "x \<noteq> y"
  then have "(t, x) \<in> set (filter (\<lambda>p. \<exists>q\<in>set seen. fst q = fst p \<and> snd q \<noteq> snd p) seen)"
    using assms(2,3) by (auto intro!: bexI[of _ "(t, y)"])
  then have "t \<in> set (mixed_tables seen)" by (force simp: mixed_tables_def)
  then show False using assms(1) by simp
qed

text \<open>C26: A source unit that is admitted around a schema fence is of one epoch: when
  \<open>refuse_mixed_schema_epoch\<close> lets its events pass for the actions of a boundary, then no two
  row images of one table, by any column changes of that boundary, are evidence of different sides of
  the fence, and every image could be classified.\<close>

theorem admitted_unit_is_of_one_epoch:
  assumes pass: "refuse_mixed_schema_epoch env events actions = Inr ()"
    and e: "e \<in> set events" "event_table e = Some table" "c \<in> set (changes_for actions table)"
    and e': "e' \<in> set events" "event_table e' = Some table" "c' \<in> set (changes_for actions table)"
  shows "\<exists>x y. change_epoch env e c = Inr x \<and> change_epoch env e' c' = Inr y \<and> (x = None \<or> y = None \<or> x = y)"
proof -
  obtain seen where seen: "rfold (event_epochs env actions) [] events = Inr seen" "mixed_tables seen = []"
    using pass unfolding refuse_mixed_schema_epoch_def rbind_eq_Inr by (metis list.exhaust list.simps(5) Inl_Inr_False)
  obtain x y where "change_epoch env e c = Inr x" "\<forall>ep. x = Some ep \<longrightarrow> (table, ep) \<in> set seen"
    "change_epoch env e' c' = Inr y" "\<forall>ep. y = Some ep \<longrightarrow> (table, ep) \<in> set seen"
    using all_events_noted[OF seen(1) e] all_events_noted[OF seen(1) e'] by blast
  then show ?thesis using mixed_tables_Nil[OF seen(2)] by (cases x; cases y) auto
qed

text \<open>The evidence that holds a unit back agrees with the classification, except for a column
  renamed and retyped at once.\<close>

lemma post_evidence_is_post_epoch:
  assumes "change_is_post env e c = Inr True" and "well_formed_change (se_evolution env) c"
    and "\<not> (cc_kind c = COLUMN_RENAMED \<and> cc_type_changed c)"
  shows "change_epoch env e c = Inr (Some Post)"
  using assms unfolding change_is_post_def change_epoch_def well_formed_change_def is_type_change_def Let_def
  by (cases "cc_kind c") (auto simp: rbind_eq_Inr split: if_splits)

section \<open>The group is cut at its fences\<close>

type_synonym 'd segment = "complete_unit list \<times> 'd catalog_action list"

definition segment_lsn :: "'d segment \<Rightarrow> int" where
  "segment_lsn seg = action_lsn (hd (snd seg))"

definition segment_calls :: "'d catalog_plan \<Rightarrow> 'd segment \<Rightarrow> 'd epoch_call list" where
  \<comment> \<open>the units before a fence, the schema changes of the fence, their backfill\<close>
  "segment_calls plan seg =
     (if fst seg = [] then [] else [ApplyUnits (fst seg) False]) @
     [CatalogPhase (phase_plan plan (snd seg)), BackfillSchema (phase_plan plan (snd seg))]"

definition segment_ok :: "('d, 'v, 'f) epoch_env \<Rightarrow> complete_unit list \<Rightarrow> 'd segment \<Rightarrow> bool" where
  \<comment> \<open>one fence: its units end at or before it and show no row shape past it, and no live
      unit of the group mixes its two sides\<close>
  "segment_ok env grp seg \<longleftrightarrow> snd seg \<noteq> [] \<and>
     (\<forall>a\<in>set (snd seg). action_lsn a = segment_lsn seg) \<and>
     (\<forall>u\<in>set (fst seg). cu_last_lsn u \<le> segment_lsn seg \<and> unit_is_post_schema_epoch env u (snd seg) = Inr False) \<and>
     (\<forall>u\<in>set grp. \<not> cu_fenced u \<longrightarrow>
        refuse_mixed_schema_epoch env (events_for_schema_check env u) (snd seg) = Inr ())"

definition rest_calls :: "complete_unit list \<Rightarrow> complete_unit list \<Rightarrow> 'd epoch_call list" where
  "rest_calls grp rest =
     (if rest \<noteq> [] then [ApplyUnits rest True]
      else if \<exists>u\<in>set grp. cu_spill_unit_seq u \<noteq> None then [ClearSpill] else [])"

lemma call_unit_ok:
  "call_unit env c st = Inr st' \<Longrightarrow> er_calls st' = er_calls st @ [c] \<and> er_cursor st' = er_cursor st \<and> er_total st' = er_total st"
  by (auto simp: call_unit_def call_def rbind_eq_Inr split: option.splits)

lemma call_apply_ok:
  "call_apply env us b st = Inr st' \<Longrightarrow> er_calls st' = er_calls st @ [ApplyUnits us b] \<and> er_cursor st' = er_cursor st + length us"
  by (auto simp: call_apply_def call_def rbind_eq_Inr split: option.splits)

lemma before_post_prefix:
  "before_post env same xs = Inr us \<Longrightarrow>
     (\<exists>ys. xs = us @ ys) \<and> (\<forall>u\<in>set us. unit_is_post_schema_epoch env u same = Inr False)"
proof (induction xs arbitrary: us)
  case (Cons x xs)
  then obtain b where b: "unit_is_post_schema_epoch env x same = Inr b" by (auto simp: rbind_eq_Inr)
  show ?case
  proof (cases b)
    case True
    then show ?thesis using Cons.prems b by simp
  next
    case False
    then obtain r where "before_post env same xs = Inr r" "us = x # r" using Cons.prems b by (auto simp: rbind_eq_Inr)
    then show ?thesis using Cons.IH b False by auto
  qed
qed simp

lemma refuse_mixed_group_ok:
  assumes "refuse_mixed_group env same grp = Inr ()" and "u \<in> set grp" and "\<not> cu_fenced u"
  shows "refuse_mixed_schema_epoch env (events_for_schema_check env u) same = Inr ()"
  using assms(1,2) unfolding refuse_mixed_group_def
  by (induction grp) (use assms(3) in \<open>auto simp: rbind_eq_Inr split: if_splits\<close>)

lemma schema_phase_ok:
  assumes run: "schema_phase env grp plan same b st = Inr st'" and same: "same \<noteq> []" "\<forall>a\<in>set same. action_lsn a = b"
  shows "\<exists>us ys. drop (er_cursor st) grp = us @ ys \<and> er_cursor st' = er_cursor st + length us \<and>
     er_calls st' = er_calls st @ segment_calls plan (us, same) \<and> segment_ok env grp (us, same)"
proof -
  let ?p = "phase_plan plan same"
  obtain us st1 st2 where r: "refuse_mixed_group env same grp = Inr ()"
    and us: "before_post env same (takeWhile (\<lambda>u. cu_last_lsn u \<le> b) (drop (er_cursor st) grp)) = Inr us"
    and s1: "(if us \<noteq> [] then call_apply env us False st else Inr st) = Inr st1"
    and s2: "call_unit env (CatalogPhase ?p) st1 = Inr st2" and s3: "call_unit env (BackfillSchema ?p) st2 = Inr st'"
    using run by (auto simp: schema_phase_def rbind_eq_Inr)
  obtain zs where zs: "takeWhile (\<lambda>u. cu_last_lsn u \<le> b) (drop (er_cursor st) grp) = us @ zs"
    and post: "\<forall>u\<in>set us. unit_is_post_schema_epoch env u same = Inr False"
    using before_post_prefix[OF us] by blast
  have "set us \<subseteq> set (takeWhile (\<lambda>u. cu_last_lsn u \<le> b) (drop (er_cursor st) grp))" unfolding zs by simp
  then have "\<forall>u\<in>set us. cu_last_lsn u \<le> b" by (auto dest: set_takeWhileD)
  moreover have "segment_lsn (us, same) = b" using same by (simp add: segment_lsn_def)
  ultimately have "segment_ok env grp (us, same)"
    using post same refuse_mixed_group_ok[OF r] by (simp add: segment_ok_def)
  moreover have "drop (er_cursor st) grp = us @ (zs @ dropWhile (\<lambda>u. cu_last_lsn u \<le> b) (drop (er_cursor st) grp))"
    using takeWhile_dropWhile_id[of "\<lambda>u. cu_last_lsn u \<le> b" "drop (er_cursor st) grp"] unfolding zs by simp
  moreover have "er_calls st1 = er_calls st @ (if us = [] then [] else [ApplyUnits us False])"
    "er_cursor st1 = er_cursor st + length us"
    using s1 call_apply_ok[of env us False st st1] by (auto split: if_splits)
  ultimately show ?thesis using call_unit_ok[OF s2] call_unit_ok[OF s3] by (auto simp: segment_calls_def)
qed

lemma dropWhile_later:
  assumes "sorted (map action_lsn (a # as))" and "x \<in> set (dropWhile (\<lambda>b. action_lsn b = action_lsn a) as)"
  shows "action_lsn a < action_lsn x"
  using assms by (induction as) (auto split: if_splits)

lemma schema_phases_ok:
  "schema_phases env grp plan as st = Inr st' \<Longrightarrow> sorted (map action_lsn as) \<Longrightarrow>
   \<exists>segs ys. drop (er_cursor st) grp = concat (map fst segs) @ ys \<and>
     er_cursor st' = er_cursor st + length (concat (map fst segs)) \<and>
     er_calls st' = er_calls st @ concat (map (segment_calls plan) segs) \<and> concat (map snd segs) = as \<and>
     (\<forall>seg\<in>set segs. segment_ok env grp seg) \<and> sorted_wrt (<) (map segment_lsn segs)"
proof (induction env grp plan as st arbitrary: st' rule: schema_phases.induct)
  case (1 env grp plan st)
  then show ?case by (auto intro: exI[of _ "[]"])
next
  case (2 env grp plan a as st)
  let ?same = "a # takeWhile (\<lambda>b. action_lsn b = action_lsn a) as"
  let ?rest = "dropWhile (\<lambda>b. action_lsn b = action_lsn a) as"
  obtain st1 where st1: "schema_phase env grp plan ?same (action_lsn a) st = Inr st1"
    "schema_phases env grp plan ?rest st1 = Inr st'" using "2.prems"(1) by (auto simp: rbind_eq_Inr)
  have "\<forall>x\<in>set ?same. action_lsn x = action_lsn a" by (auto dest: set_takeWhileD)
  from schema_phase_ok[OF st1(1) _ this]
  obtain us ys where us: "drop (er_cursor st) grp = us @ ys" "er_cursor st1 = er_cursor st + length us"
    "er_calls st1 = er_calls st @ segment_calls plan (us, ?same)" "segment_ok env grp (us, ?same)" by blast
  have "sorted (map action_lsn ?rest)"
    using "2.prems"(2) sorted_wrt_append[of "(\<le>)" "map action_lsn (takeWhile (\<lambda>b. action_lsn b = action_lsn a) as)"
      "map action_lsn ?rest"] by (simp flip: map_append)
  from "2.IH"[OF st1(2) this]
  obtain segs zs where segs: "drop (er_cursor st1) grp = concat (map fst segs) @ zs"
     "er_cursor st' = er_cursor st1 + length (concat (map fst segs))"
     "er_calls st' = er_calls st1 @ concat (map (segment_calls plan) segs)" "concat (map snd segs) = ?rest"
     "\<forall>seg\<in>set segs. segment_ok env grp seg" "sorted_wrt (<) (map segment_lsn segs)" by blast
  have "segment_lsn (us, ?same) < segment_lsn seg" if "seg \<in> set segs" for seg
  proof -
    have "hd (snd seg) \<in> set (snd seg)" using that segs(5) by (simp add: segment_ok_def)
    then have "hd (snd seg) \<in> set (concat (map snd segs))" using that by auto
    then have "hd (snd seg) \<in> set ?rest" unfolding segs(4) .
    then show ?thesis using dropWhile_later[OF "2.prems"(2)] by (simp add: segment_lsn_def)
  qed
  moreover have "drop (er_cursor st) grp = us @ concat (map fst segs) @ zs"
  proof -
    have "drop (er_cursor st1) grp = ys" using us(1,2) by (metis add.commute append_eq_conv_conj drop_drop)
    then show ?thesis using us(1) segs(1) by simp
  qed
  ultimately show ?case using us segs
    by (intro exI[of _ "(us, ?same) # segs"] exI[of _ zs]) auto
qed

lemma sorted_schema_actions: "sorted (map action_lsn (schema_actions plan))"
proof -
  have "sorted (map (\<lambda>a. (action_lsn a, action_name a)) (schema_actions plan))" by (simp add: schema_actions_def)
  then show ?thesis by (simp add: sorted_map) (erule sorted_wrt_mono_rel[rotated], auto)
qed


text \<open>Replayed units are no evidence: a group of fenced units is never refused, so the
  coordinator returns whenever its calls do.\<close>

lemma fenced_group_returns:
  assumes calls: "\<And>cs c. se_call env cs c \<noteq> None" and fenced: "\<forall>u\<in>set grp. cu_fenced u"
  shows "\<exists>r. coordinate env grp plan' = Inr r"
proof -
  have c: "\<exists>st' s. call env c st = Inr (st', s)" for c st
    using calls[of "er_calls st" c] by (auto simp: call_def)
  have cu: "\<exists>st'. call_unit env c st = Inr st'" for c st using c[of c st] by (auto simp: call_unit_def)
  have ca: "\<exists>st'. call_apply env us b st = Inr st'" for us b st
    using c[of "ApplyUnits us b" st] by (auto simp: call_apply_def)
  have "refuse_mixed_group env same us = Inr ()" if "\<forall>u\<in>set us. cu_fenced u" for same us
    using that unfolding refuse_mixed_group_def by (induction us) simp_all
  note mixed = this
  have "\<exists>r. before_post env same us = Inr r" if "\<forall>u\<in>set us. cu_fenced u" for same us
    using that by (induction us) (auto simp: unit_is_post_schema_epoch_def)
  note post = this
  have phase: "\<exists>st'. schema_phase env grp plan same b st = Inr st'" for plan same b st
  proof -
    have "set (takeWhile (\<lambda>u. cu_last_lsn u \<le> b) (drop (er_cursor st) grp)) \<subseteq> set grp"
      by (auto dest!: set_takeWhileD in_set_dropD)
    then obtain us where us: "before_post env same (takeWhile (\<lambda>u. cu_last_lsn u \<le> b) (drop (er_cursor st) grp)) = Inr us"
      using post fenced by blast
    obtain st1 where st1: "(if us \<noteq> [] then call_apply env us False st else Inr st) = Inr st1" using ca by fastforce
    obtain st2 where "call_unit env (CatalogPhase (phase_plan plan same)) st1 = Inr st2" using cu by blast
    then show ?thesis unfolding schema_phase_def mixed[OF fenced] us rbind_simps st1 using cu by simp
  qed
  have phases: "\<exists>st'. schema_phases env grp plan as st = Inr st'" for plan as st
  proof (induction as arbitrary: st rule: length_induct)
    case (1 as)
    show ?case
    proof (cases as)
      case (Cons a as')
      then have "length (dropWhile (\<lambda>b. action_lsn b = action_lsn a) as') < length as"
        by (simp add: le_imp_less_Suc length_dropWhile_le)
      then have later: "\<exists>st'. schema_phases env grp plan (dropWhile (\<lambda>b. action_lsn b = action_lsn a) as') st = Inr st'" for st
        using "1.IH" by blast
      obtain st1 where "schema_phase env grp plan (a # takeWhile (\<lambda>b. action_lsn b = action_lsn a) as') (action_lsn a) st = Inr st1"
        using phase by blast
      then show ?thesis using later Cons by simp
    qed simp
  qed
  define plan where "plan = (case plan' of None \<Rightarrow> no_plan | Some p \<Rightarrow> p)"
  obtain st1 where st1: "schema_phases env grp plan (schema_actions plan) \<lparr>er_calls = [], er_total = None, er_cursor = 0\<rparr> = Inr st1"
    using phases by blast
  obtain st2 where st2: "(if er_cursor st1 < length grp then call_apply env (drop (er_cursor st1) grp) True st1
                  else if \<exists>u\<in>set grp. cu_spill_unit_seq u \<noteq> None then call_unit env ClearSpill st1
                  else Inr st1) = Inr st2" using ca cu by metis
  obtain st3 s where st3: "call env (ApplyUnits grp True) \<lparr>er_calls = [], er_total = None, er_cursor = 0\<rparr> = Inr (st3, s)"
    using c by blast
  show ?thesis unfolding coordinate_def Let_def plan_def[symmetric] st1 rbind_simps st2 st3 by simp
qed

section \<open>A concrete group\<close>

definition plain_epochs :: "(string, string, nat) epoch_env" where
  "plain_epochs = \<lparr>se_evolution = plain_env, se_key_descriptors = (\<lambda>_. []), se_before_descriptors = (\<lambda>_. []),
     se_after_descriptors = (\<lambda>_. []), se_staged = (\<lambda>_. []), se_call = (\<lambda>_ _. Some empty_apply_stats)\<rparr>"

definition epoch_row :: "nat \<Rightarrow> string \<Rightarrow> string list \<Rightarrow> pending_record" where
  "epoch_row i table cols = (blank_record i None KIND_DATA)\<lparr>pr_schema := Some ''app'', pr_table := Some table,
     pr_after := Some (map (\<lambda>c. (c, JNull)) cols)\<rparr>"

definition unit_of :: "int \<Rightarrow> pending_record list \<Rightarrow> complete_unit" where
  "unit_of lsn es = (blank_unit UNIT_TXN)\<lparr>cu_events := es, cu_last_lsn := lsn\<rparr>"

definition add_column_at :: "int \<Rightarrow> string \<Rightarrow> string \<Rightarrow> string catalog_action" where
  "add_column_at lsn table col =
     \<lparr>ca_change = \<lparr>ch_kind = CHANGE_SCHEMA, ch_schema = ''app'', ch_table = table, ch_detected_lsn = lsn,
        ch_column_changes = [added_column (text_column 9 col)]\<rparr>,
      ca_target = table, ca_destructive = False, ca_detail = None\<rparr>"

abbreviation old_row :: "nat \<Rightarrow> pending_record" where "old_row i \<equiv> epoch_row i ''customers'' [''id'']"
abbreviation new_row :: "nat \<Rightarrow> pending_record" where "new_row i \<equiv> epoch_row i ''customers'' [''id'', ''email'']"

definition plan_of :: "string catalog_action list \<Rightarrow> string catalog_plan" where
  "plan_of as = \<lparr>cp_actions = as, cp_relations = [], cp_policy_alerts = []\<rparr>"

abbreviation email_added :: "string catalog_action" where
  "email_added \<equiv> add_column_at 20 ''customers'' ''email''"

lemma sample_cut:
  "coordinate plain_epochs [unit_of 10 [old_row 1], unit_of 15 [new_row 2], unit_of 30 [new_row 3]]
      (Some (plan_of [email_added])) =
     Inr ([ApplyUnits [unit_of 10 [old_row 1]] False, CatalogPhase (plan_of [email_added]),
           BackfillSchema (plan_of [email_added]),
           ApplyUnits [unit_of 15 [new_row 2], unit_of 30 [new_row 3]] True], empty_apply_stats)"
  by code_simp

lemma mixed_unit_is_refused:
  "coordinate plain_epochs [unit_of 10 [old_row 1, new_row 2]] (Some (plan_of [email_added])) =
     Inl (MixedUnit ''app.customers'')"
  by code_simp


lemma admitted_unit_is_of_one_epoch_witness:
  "\<exists>x y. change_epoch plain_epochs (new_row 1) (added_column (text_column 9 ''email'')) = Inr x \<and>
     change_epoch plain_epochs (new_row 2) (added_column (text_column 9 ''email'')) = Inr y \<and> (x = None \<or> y = None \<or> x = y)"
proof (rule admitted_unit_is_of_one_epoch)
  show "refuse_mixed_schema_epoch plain_epochs [new_row 1, new_row 2] [email_added] = Inr ()" by code_simp
  show "event_table (new_row 1) = Some ''app.customers''" "event_table (new_row 2) = Some ''app.customers''"
    by code_simp+
  show "added_column (text_column 9 ''email'') \<in> set (changes_for [email_added] ''app.customers'')" by code_simp
  then show "added_column (text_column 9 ''email'') \<in> set (changes_for [email_added] ''app.customers'')" .
qed simp_all

text \<open>A unit is compared with the fence that takes it only: a unit that ends before an earlier
  fence of another table is applied there, although its rows already have the shape after the
  later fence of their own table.\<close>

lemma earlier_fence_takes_a_later_post_unit:
  "coordinate plain_epochs [unit_of 6 [new_row 1]]
      (Some (plan_of [add_column_at 10 ''orders'' ''note'', email_added])) =
     Inr ([ApplyUnits [unit_of 6 [new_row 1]] False,
           CatalogPhase (plan_of [add_column_at 10 ''orders'' ''note'']),
           BackfillSchema (plan_of [add_column_at 10 ''orders'' ''note'']),
           CatalogPhase (plan_of [email_added]), BackfillSchema (plan_of [email_added])], empty_apply_stats)"
  "unit_is_post_schema_epoch plain_epochs (unit_of 6 [new_row 1]) [email_added] = Inr True"
  by code_simp+

end
