(* ===== verification/Snapshot_Coordinator.thy ===== *)
theory Snapshot_Coordinator
  imports Table_Lifecycle Event_Ledger
begin

text \<open>
  The snapshot phase of a table (\<open>snapshot.py\<close>): epochs, shadow tables, identity and the swap.

  A table in its snapshot phase is loaded into a shadow table; \<open>swap\<close> puts the shadow live.  The
  state \<open>snapshot_world\<close> is the destination the group's transaction sees (the lifecycle rows and
  the tables of the dataset, whose contents are a type parameter), the open group's
  \<open>created_in_txn\<close> and the registry's cache, and the coordinator's own memory (epoch, session,
  open tables, number of swaps).  An operation returns its result or error together with the
  state, because the memory is changed even when the operation raises; \<open>roll_back\<close> is what the
  applier's rollback restores.  The destination's name of a table comes from the naming
  convention of the dlt package and is a field of the environment, as are the injected faults
  and the callback of a bounded re-snapshot.

  The abstraction gives each table its live image, its shadow image and whether it is in the
  phase; the operations refine one step per call on these three.
\<close>

section \<open>State\<close>

record snapshot_table =
  st_schema :: string
  st_table :: string
  st_target :: string
  st_shadow :: string
  st_incremental :: bool
  st_run_id :: "string option"
  st_rows_seen :: int
  st_terminal :: bool
  st_terminal_rows :: "int option"
  st_swap_scheduled :: bool

record 'b snapshot_world =
  sw_store :: control_store
  sw_tables :: "(string, 'b) dict"
  sw_created :: "string list"
  sw_cached :: "string list"
  sw_epoch :: int
  sw_session :: bool
  sw_open :: "(string, snapshot_table) dict"
  sw_swaps :: nat

datatype snapshot_error =
  SnapshotLifecycle lifecycle_error | NoStableIdentity | NoOrdinal | Crashed string | CallbackRaised

record 'b snapshot_env =
  sg_pipeline :: string
  sg_target :: "string \<Rightarrow> string \<Rightarrow> string"
  sg_transactional_ddl :: bool
  sg_sink :: bool
  sg_empty_clone :: "'b \<Rightarrow> 'b"
  sg_crash :: "string \<Rightarrow> nat \<Rightarrow> bool"
  sg_on_swap :: "(string \<Rightarrow> bool) option" \<comment> \<open>whether the callback returns, per table\<close>

type_synonym ('a, 'b) snapshot_result = "(snapshot_error + 'a) \<times> 'b snapshot_world"

section \<open>Construction and names\<close>

definition latest_snapshot_epoch :: "ledger \<Rightarrow> string \<Rightarrow> int" where
  \<comment> \<open>\<open>max(snapshot_epoch)\<close> of the pipeline's rows, 0 when there is none\<close>
  "latest_snapshot_epoch led pipeline =
     (case List.map_filter (\<lambda>r. if le_pipeline r = pipeline then lf_snapshot_epoch (le_facts r) else None) led of
        [] \<Rightarrow> 0 | e # es \<Rightarrow> fold max es e)"

definition start_epoch :: "int \<Rightarrow> ledger \<Rightarrow> string \<Rightarrow> int" where
  "start_epoch resume_epoch led pipeline = max resume_epoch (latest_snapshot_epoch led pipeline)"

definition new_coordinator ::
  "control_store \<Rightarrow> (string, 'b) dict \<Rightarrow> int \<Rightarrow> ledger \<Rightarrow> string \<Rightarrow> 'b snapshot_world" where
  "new_coordinator store tables resume_epoch led pipeline =
     \<lparr>sw_store = store, sw_tables = tables, sw_created = [], sw_cached = [],
      sw_epoch = start_epoch resume_epoch led pipeline, sw_session = False, sw_open = [], sw_swaps = 0\<rparr>"

definition shadow_table :: "string \<Rightarrow> string" where
  "shadow_table name = name @ ''__cdcf_tmp''"

definition target_table :: "'b snapshot_env \<Rightarrow> 'b snapshot_world \<Rightarrow> string \<Rightarrow> string \<Rightarrow> string" where
  "target_table env w schema table =
     (case map_of (sw_open w) (qualified_name schema table) of
        Some st \<Rightarrow> st_shadow st | None \<Rightarrow> sg_target env schema table)"

definition forget_cached :: "string \<Rightarrow> 'b snapshot_world \<Rightarrow> 'b snapshot_world" where
  "forget_cached name w = w\<lparr>sw_cached := filter (\<lambda>x. x \<noteq> name) (sw_cached w)\<rparr>"

definition discard_created :: "string \<Rightarrow> 'b snapshot_world \<Rightarrow> 'b snapshot_world" where
  "discard_created name w = w\<lparr>sw_created := filter (\<lambda>x. x \<noteq> name) (sw_created w)\<rparr>"

section \<open>Entering the phase\<close>

definition new_snapshot_table ::
  "'b snapshot_env \<Rightarrow> string \<Rightarrow> string \<Rightarrow> string \<Rightarrow> bool \<Rightarrow> string option \<Rightarrow> snapshot_table" where
  "new_snapshot_table env schema table shadow incremental run =
     \<lparr>st_schema = schema, st_table = table, st_target = sg_target env schema table, st_shadow = shadow,
      st_incremental = incremental, st_run_id = run, st_rows_seen = 0, st_terminal = False,
      st_terminal_rows = None, st_swap_scheduled = False\<rparr>"

definition start_session :: "'b snapshot_world \<Rightarrow> 'b snapshot_world" where
  "start_session w = (if sw_session w then w else w\<lparr>sw_session := True, sw_epoch := sw_epoch w + 1\<rparr>)"

definition prepare_shadow :: "bool \<Rightarrow> string \<Rightarrow> string \<Rightarrow> 'b snapshot_world \<Rightarrow> 'b snapshot_world" where
  "prepare_shadow retain current shadow w =
     (if retain \<and> current = LIFECYCLE_IN_PROGRESS then forget_cached shadow w
      else let w' = forget_cached shadow (w\<lparr>sw_tables := AList.delete shadow (sw_tables w)\<rparr>) in
           w'\<lparr>sw_created := List.insert shadow (sw_created w')\<rparr>)"

definition open_transition ::
  "'b snapshot_env \<Rightarrow> bool \<Rightarrow> snapshot_table \<Rightarrow> string \<Rightarrow> 'b snapshot_world \<Rightarrow> (unit, 'b) snapshot_result" where
  "open_transition env retain st current w =
     (if current \<noteq> LIFECYCLE_IN_PROGRESS
      then case lifecycle_transition
                  (no_args\<lparr>ta_target_table := Some (st_target st), ta_epoch := Some (sw_epoch w),
                           ta_replace := True, ta_sink := sg_sink env\<rparr>)
                  (sg_pipeline env, st_schema st, st_table st) LIFECYCLE_IN_PROGRESS
                  ''a snapshot shadow was opened'' (sw_store w) of
             (Inl e, s) \<Rightarrow> (Inl (SnapshotLifecycle e), w\<lparr>sw_store := s\<rparr>)
           | (Inr _, s) \<Rightarrow> (Inr (), w\<lparr>sw_store := s\<rparr>)
      else if retain then (Inr (), discard_created (st_shadow st) w)
      else (Inr (), w))"

definition clone_live :: "'b snapshot_env \<Rightarrow> snapshot_table \<Rightarrow> 'b snapshot_world \<Rightarrow> 'b snapshot_world" where
  \<comment> \<open>\<open>CREATE TABLE IF NOT EXISTS shadow AS SELECT * FROM live WHERE FALSE\<close>, when the live table exists\<close>
  "clone_live env st w =
     (case map_of (sw_tables w) (st_target st) of
        None \<Rightarrow> w
      | Some live \<Rightarrow>
          if map_of (sw_tables w) (st_shadow st) \<noteq> None then w
          else w\<lparr>sw_tables := AList.update (st_shadow st) (sg_empty_clone env live) (sw_tables w)\<rparr>)"

definition open_shadow ::
  "'b snapshot_env \<Rightarrow> bool \<Rightarrow> snapshot_table \<Rightarrow> 'b snapshot_world \<Rightarrow> (snapshot_table option, 'b) snapshot_result" where
  \<comment> \<open>the body of \<open>state_for\<close> for a table that is not in the phase\<close>
  "open_shadow env retain st w0 =
     (let w = start_session w0 in
      case check_transition (sg_sink env) (sg_pipeline env, st_schema st, st_table st) LIFECYCLE_IN_PROGRESS
             ''a snapshot shadow is about to be opened'' (sw_store w) of
        (Inl e, s) \<Rightarrow> (Inl (SnapshotLifecycle e), w\<lparr>sw_store := s\<rparr>)
      | (Inr current, s) \<Rightarrow>
          (case open_transition env retain st current (prepare_shadow retain current (st_shadow st) (w\<lparr>sw_store := s\<rparr>)) of
             (Inl e, w1) \<Rightarrow> (Inl e, w1)
           | (Inr _, w1) \<Rightarrow>
               let w2 = (if st_incremental st \<and> retain then clone_live env st w1 else w1) in
               (Inr (Some st), w2\<lparr>sw_open := AList.update (qualified_name (st_schema st) (st_table st)) st (sw_open w2)\<rparr>)))"

definition state_for ::
  "'b snapshot_env \<Rightarrow> string option \<Rightarrow> string option \<Rightarrow> bool \<Rightarrow> bool \<Rightarrow> string option \<Rightarrow> 'b snapshot_world \<Rightarrow>
   (snapshot_table option, 'b) snapshot_result" where
  "state_for env schema table retain incremental run w =
     (if \<not> truthy_str schema \<or> \<not> truthy_str table then (Inr None, w)
      else case map_of (sw_open w) (qualified_name (the schema) (the table)) of
             Some st \<Rightarrow> (Inr (Some st), w)
           | None \<Rightarrow>
               open_shadow env retain
                 (new_snapshot_table env (the schema) (the table)
                    (shadow_table (sg_target env (the schema) (the table))) incremental run) w)"

definition reattach ::
  "'b snapshot_env \<Rightarrow> string \<Rightarrow> string \<Rightarrow> string \<Rightarrow> string option \<Rightarrow> bool \<Rightarrow> 'b snapshot_world \<Rightarrow>
   snapshot_table \<times> 'b snapshot_world" where
  "reattach env schema table shadow run incremental w =
     (let st = new_snapshot_table env schema table shadow incremental run in
      (st, forget_cached shadow (w\<lparr>sw_open := AList.update (qualified_name schema table) st (sw_open w),
                                  sw_session := True\<rparr>)))"

section \<open>Evidence of an incremental scan\<close>

definition note_incremental_rows :: "int \<Rightarrow> snapshot_table \<Rightarrow> snapshot_table" where
  "note_incremental_rows count st =
     (if st_incremental st then st\<lparr>st_rows_seen := st_rows_seen st + max 0 count\<rparr> else st)"

definition note_incremental_terminal :: "int option \<Rightarrow> snapshot_table \<Rightarrow> snapshot_table" where
  "note_incremental_terminal rows st =
     (if \<not> st_incremental st then st else st\<lparr>st_terminal := True, st_terminal_rows := rows\<rparr>)"

definition incremental_swap_ready :: "snapshot_table \<Rightarrow> bool" where
  "incremental_swap_ready st =
     (if \<not> st_incremental st \<or> \<not> st_terminal st then False
      else if st_terminal_rows st = Some 0 then True
      else if st_rows_seen st \<le> 0 then False
      else case st_terminal_rows st of None \<Rightarrow> True | Some n \<Rightarrow> n \<le> st_rows_seen st)"

definition schedule_incremental_swap :: "snapshot_table \<Rightarrow> bool \<times> snapshot_table" where
  "schedule_incremental_swap st =
     (if \<not> incremental_swap_ready st \<or> st_swap_scheduled st then (False, st)
      else (True, st\<lparr>st_swap_scheduled := True\<rparr>))"

definition update_state :: "string \<Rightarrow> (snapshot_table \<Rightarrow> snapshot_table) \<Rightarrow> 'b snapshot_world \<Rightarrow> 'b snapshot_world" where
  \<comment> \<open>the shared \<open>SnapshotTable\<close> object of a table in the phase is changed in place\<close>
  "update_state key f w =
     (case map_of (sw_open w) key of
        None \<Rightarrow> w | Some st \<Rightarrow> w\<lparr>sw_open := AList.update key (f st) (sw_open w)\<rparr>)"

section \<open>Identity\<close>

definition snap_identity :: "int \<Rightarrow> string \<Rightarrow> string \<Rightarrow> nat \<Rightarrow> string" where
  "snap_identity epoch schema table n =
     ''snap:'' @ dumps_int epoch @ '':'' @ qualified_name schema table @ '':'' @ digits n"

definition text_or_none :: "string option \<Rightarrow> string" where
  "text_or_none x = (case x of None \<Rightarrow> ''None'' | Some s \<Rightarrow> s)"

definition event_id :: "'b snapshot_world \<Rightarrow> pending_record \<Rightarrow> snapshot_error + string" where
  "event_id w e =
     (if pr_incremental e
      then if truthy_str (pr_snapshot_identity e) then Inr (the (pr_snapshot_identity e)) else Inl NoStableIdentity
      else case pr_snapshot_ordinal e of
             None \<Rightarrow> Inl NoOrdinal
           | Some n \<Rightarrow> Inr (snap_identity (sw_epoch w) (text_or_none (pr_schema e)) (text_or_none (pr_table e)) n))"

section \<open>Leaving the phase\<close>

definition swap_anchors :: "string list" where
  "swap_anchors = [''before_DROP_live'', ''swap'', ''between_DROP_live_and_RENAME_shadow'', ''after_RENAME_before_state_update'']"

definition put_live :: "'b snapshot_env \<Rightarrow> snapshot_table \<Rightarrow> 'b \<Rightarrow> (string, 'b) dict \<Rightarrow> (string, 'b) dict" where
  \<comment> \<open>\<open>DROP\<close> and \<open>RENAME\<close>, or \<open>CREATE OR REPLACE ... AS SELECT\<close> and \<open>DROP\<close>\<close>
  "put_live env st img tables =
     (if sg_transactional_ddl env
      then AList.update (st_target st) img (AList.delete (st_shadow st) (AList.delete (st_target st) tables))
      else AList.delete (st_shadow st) (AList.update (st_target st) img tables))"

definition move_shadow :: "'b snapshot_env \<Rightarrow> snapshot_table \<Rightarrow> 'b snapshot_world \<Rightarrow> (bool, 'b) snapshot_result" where
  "move_shadow env st w =
     (case map_of (sw_tables w) (st_shadow st) of
        None \<Rightarrow> (Inr False, w)
      | Some img \<Rightarrow>
          (case (if sg_transactional_ddl env then filter (\<lambda>a. sg_crash env a (sw_swaps w + 1)) swap_anchors else []) of
             a # _ \<Rightarrow> (Inl (Crashed a), w)
           | [] \<Rightarrow>
               let w1 = forget_cached (st_target st) (forget_cached (st_shadow st)
                          (w\<lparr>sw_tables := put_live env st img (sw_tables w)\<rparr>));
                   w2 = discard_created (st_shadow st) w1 in
               (Inr True, w2\<lparr>sw_swaps := sw_swaps w2 + 1\<rparr>)))"

definition close_phase :: "string \<Rightarrow> 'b snapshot_world \<Rightarrow> 'b snapshot_world" where
  "close_phase key w =
     (let rest = AList.delete key (sw_open w) in
      w\<lparr>sw_open := rest, sw_session := (if rest = [] then False else sw_session w)\<rparr>)"

definition swap ::
  "'b snapshot_env \<Rightarrow> snapshot_table \<Rightarrow> int \<Rightarrow> int option \<Rightarrow> 'b snapshot_world \<Rightarrow> (bool, 'b) snapshot_result" where
  "swap env st commit_id snapshot_lsn w =
     (let key = qualified_name (st_schema st) (st_table st) in
      if map_of (sw_open w) key = None then (Inr False, w)
      else case move_shadow env st w of
             (Inl e, w1) \<Rightarrow> (Inl e, w1)
           | (Inr swapped, w1) \<Rightarrow>
               (case lifecycle_transition
                       (no_args\<lparr>ta_snapshot_lsn := Some snapshot_lsn, ta_last_commit_id := Some (Some commit_id),
                                ta_sink := sg_sink env\<rparr>)
                       (sg_pipeline env, st_schema st, st_table st) LIFECYCLE_COMPLETE
                       ''the shadow was swapped in'' (sw_store w1) of
                  (Inl e, s) \<Rightarrow> (Inl (SnapshotLifecycle e), w1\<lparr>sw_store := s\<rparr>)
                | (Inr _, s) \<Rightarrow>
                    if swapped \<and> (case sg_on_swap env of None \<Rightarrow> False | Some returns \<Rightarrow> \<not> returns key)
                    then (Inl CallbackRaised, w1\<lparr>sw_store := s\<rparr>)
                    else (Inr swapped, close_phase key (w1\<lparr>sw_store := s\<rparr>))))"

section \<open>The applier's part\<close>

definition write_rows ::
  "'b snapshot_env \<Rightarrow> string \<Rightarrow> string \<Rightarrow> ('b option \<Rightarrow> 'b) \<Rightarrow> 'b snapshot_world \<Rightarrow> 'b snapshot_world" where
  \<comment> \<open>DML goes where \<open>target_table\<close> says\<close>
  "write_rows env schema table f w =
     (let name = target_table env w schema table in
      w\<lparr>sw_tables := AList.update name (f (map_of (sw_tables w) name)) (sw_tables w)\<rparr>)"

definition roll_back :: "'b snapshot_world \<Rightarrow> 'b snapshot_world \<Rightarrow> 'b snapshot_world" where
  \<comment> \<open>\<open>_rollback_quietly\<close>: destination, group and registry; the coordinator's memory and the
      alerts of the independent connection stay\<close>
  "roll_back begun w =
     w\<lparr>sw_store := (sw_store begun)\<lparr>cs_alerts := cs_alerts (sw_store w)\<rparr>, sw_tables := sw_tables begun,
       sw_created := [], sw_cached := []\<rparr>"

section \<open>The abstract images of a table\<close>

record 'b table_images =
  im_live :: "'b option"
  im_shadow :: "'b option"
  im_open :: bool

type_synonym relation_key = "string \<times> string"

definition key_text :: "relation_key \<Rightarrow> string" where
  "key_text k = qualified_name (fst k) (snd k)"

definition live_name :: "'b snapshot_env \<Rightarrow> relation_key \<Rightarrow> string" where
  "live_name env k = sg_target env (fst k) (snd k)"

definition images :: "'b snapshot_env \<Rightarrow> 'b snapshot_world \<Rightarrow> relation_key \<Rightarrow> 'b table_images" where
  "images env w k = \<lparr>im_live = map_of (sw_tables w) (live_name env k),
     im_shadow = map_of (sw_tables w) (shadow_table (live_name env k)),
     im_open = (map_of (sw_open w) (key_text k) \<noteq> None)\<rparr>"

datatype 'b snapshot_op =
  OpenTable relation_key bool bool "string option" \<comment> \<open>\<open>retain_existing\<close>, \<open>incremental\<close>, run\<close>
| Reattach relation_key "string option" bool
| Load relation_key "'b option \<Rightarrow> 'b"
| NoteRows relation_key int
| NoteTerminal relation_key "int option"
| ScheduleSwap relation_key
| SwapTable relation_key int "int option"

fun op_table :: "'b snapshot_op \<Rightarrow> relation_key" where
  "op_table (OpenTable k _ _ _) = k"
| "op_table (Reattach k _ _) = k"
| "op_table (Load k _) = k"
| "op_table (NoteRows k _) = k"
| "op_table (NoteTerminal k _) = k"
| "op_table (ScheduleSwap k) = k"
| "op_table (SwapTable k _ _) = k"

fun snapshot_step :: "'b snapshot_env \<Rightarrow> 'b snapshot_op \<Rightarrow> 'b snapshot_world \<Rightarrow> (unit, 'b) snapshot_result" where
  "snapshot_step env (OpenTable k retain inc run) w =
     (case state_for env (Some (fst k)) (Some (snd k)) retain inc run w of
        (Inl e, w') \<Rightarrow> (Inl e, w') | (Inr _, w') \<Rightarrow> (Inr (), w'))"
| "snapshot_step env (Reattach k run inc) w =
     (Inr (), snd (reattach env (fst k) (snd k) (shadow_table (live_name env k)) run inc w))"
| "snapshot_step env (Load k f) w = (Inr (), write_rows env (fst k) (snd k) f w)"
| "snapshot_step env (NoteRows k n) w = (Inr (), update_state (key_text k) (note_incremental_rows n) w)"
| "snapshot_step env (NoteTerminal k n) w = (Inr (), update_state (key_text k) (note_incremental_terminal n) w)"
| "snapshot_step env (ScheduleSwap k) w = (Inr (), update_state (key_text k) (snd \<circ> schedule_incremental_swap) w)"
| "snapshot_step env (SwapTable k commit lsn) w =
     (case map_of (sw_open w) (key_text k) of
        None \<Rightarrow> (Inr (), w)
      | Some st \<Rightarrow> (case swap env st commit lsn w of (Inl e, w') \<Rightarrow> (Inl e, w') | (Inr _, w') \<Rightarrow> (Inr (), w')))"

definition snapshot_run :: "'b snapshot_env \<Rightarrow> 'b snapshot_world \<Rightarrow> 'b snapshot_op list \<Rightarrow> snapshot_error + 'b snapshot_world" where
  "snapshot_run env w ops =
     rfold (\<lambda>w op1. case snapshot_step env op1 w of (Inl e, _) \<Rightarrow> Inl e | (Inr _, w') \<Rightarrow> Inr w') w ops"

fun image_step :: "'b snapshot_env \<Rightarrow> 'b snapshot_op \<Rightarrow> 'b table_images \<Rightarrow> 'b table_images" where
  \<comment> \<open>what an operation on the table does to its images\<close>
  "image_step env (OpenTable _ retain inc _) im =
     (if im_open im then im
      else im\<lparr>im_shadow := (if inc \<and> retain then map_option (sg_empty_clone env) (im_live im) else None), im_open := True\<rparr>)"
| "image_step env (Reattach _ _ _) im = im\<lparr>im_open := True\<rparr>"
| "image_step env (Load _ f) im =
     (if im_open im then im\<lparr>im_shadow := Some (f (im_shadow im))\<rparr> else im\<lparr>im_live := Some (f (im_live im))\<rparr>)"
| "image_step env (SwapTable _ _ _) im =
     (if \<not> im_open im then im
      else case im_shadow im of
             None \<Rightarrow> im\<lparr>im_open := False\<rparr>
           | Some c \<Rightarrow> \<lparr>im_live = Some c, im_shadow = None, im_open = False\<rparr>)"
| "image_step env _ im = im"

definition follow :: "'b snapshot_env \<Rightarrow> relation_key \<Rightarrow> 'b snapshot_op list \<Rightarrow> 'b table_images \<Rightarrow> 'b table_images" where
  "follow env k ops im = foldl (\<lambda>im op1. if op_table op1 = k then image_step env op1 im else im) im ops"

definition names_ok :: "'b snapshot_env \<Rightarrow> relation_key set \<Rightarrow> bool" where
  \<comment> \<open>the tables have distinct names, and no table has the name of a shadow\<close>
  "names_ok env K \<longleftrightarrow> (\<forall>k\<in>K. fst k \<noteq> '''' \<and> snd k \<noteq> '''') \<and> inj_on key_text K \<and> inj_on (live_name env) K \<and>
     (\<forall>k\<in>K. \<forall>k'\<in>K. live_name env k \<noteq> shadow_table (live_name env k'))"

definition phase_ok :: "'b snapshot_env \<Rightarrow> relation_key set \<Rightarrow> 'b snapshot_world \<Rightarrow> bool" where
  \<comment> \<open>the open states are those of known tables, under their names\<close>
  "phase_ok env K w \<longleftrightarrow> (\<forall>key st. map_of (sw_open w) key = Some st \<longrightarrow>
     (st_schema st, st_table st) \<in> K \<and> key = key_text (st_schema st, st_table st) \<and>
     st_target st = live_name env (st_schema st, st_table st) \<and> st_shadow st = shadow_table (st_target st))"

lemma shadow_table_inj [simp]: "shadow_table a = shadow_table b \<longleftrightarrow> a = b"
  by (simp add: shadow_table_def)

lemma shadow_table_self [simp]: "shadow_table a \<noteq> a" "a \<noteq> shadow_table a"
  by (simp_all add: shadow_table_def)

lemma names_okD:
  assumes "names_ok env K" and "k \<in> K" and "k' \<in> K"
  shows "key_text k = key_text k' \<longleftrightarrow> k = k'" and "live_name env k = live_name env k' \<longleftrightarrow> k = k'"
    and "live_name env k \<noteq> shadow_table (live_name env k')"
  using assms unfolding names_ok_def by (auto dest: inj_onD)

lemma map_of_delete [simp]: "map_of (AList.delete k d) x = (if x = k then None else map_of d x)"
  by (simp add: AList.delete_conv')

lemma map_of_update [simp]: "map_of (AList.update k v d) x = (if x = k then Some v else map_of d x)"
  by (simp add: AList.update_conv')

lemma small_steps [simp]:
  "sw_tables (start_session w) = sw_tables w" "sw_open (start_session w) = sw_open w"
  "sw_tables (forget_cached n w) = sw_tables w" "sw_open (forget_cached n w) = sw_open w"
  "sw_tables (discard_created n w) = sw_tables w" "sw_open (discard_created n w) = sw_open w"
  "sw_tables (close_phase key w) = sw_tables w" "sw_open (close_phase key w) = AList.delete key (sw_open w)"
  "sw_open (prepare_shadow r c n w) = sw_open w" "sw_open (clone_live env st w) = sw_open w"
  "sw_store (start_session w) = sw_store w"
  by (simp_all add: start_session_def forget_cached_def discard_created_def close_phase_def prepare_shadow_def
      clone_live_def Let_def split: option.split)

section \<open>Each operation refines its step on the images\<close>

lemma checked_not_in_progress:
  assumes "check_transition sink t LIFECYCLE_IN_PROGRESS reason s = (Inr current, s')"
  shows "current \<noteq> LIFECYCLE_IN_PROGRESS"
proof
  assume c: "current = LIFECYCLE_IN_PROGRESS"
  have "lifecycle_read s t = Inr current"
    using assms by (auto simp: check_transition_def split: sum.splits prod.splits)
  then have "stored_state t s = LIFECYCLE_IN_PROGRESS" using read_stored c by simp
  then show False using reopening_is_refused[of t s sink reason] assms by simp
qed

lemma open_transition_ok:
  assumes "open_transition env retain st current w = (Inr u, w')"
  shows "sw_tables w' = sw_tables w" and "sw_open w' = sw_open w"
  using assms by (auto simp: open_transition_def split: if_splits sum.splits prod.splits)

lemma open_shadow_ok:
  assumes run: "open_shadow env retain st w = (Inr x, w')" and ne: "st_target st \<noteq> st_shadow st"
  shows "sw_open w' = AList.update (qualified_name (st_schema st) (st_table st)) st (sw_open w)"
    and "map_of (sw_tables w') n = (if n = st_shadow st
        then if st_incremental st \<and> retain then map_option (sg_empty_clone env) (map_of (sw_tables w) (st_target st)) else None
        else map_of (sw_tables w) n)"
proof -
  obtain current s where c: "check_transition (sg_sink env) (sg_pipeline env, st_schema st, st_table st) LIFECYCLE_IN_PROGRESS
      ''a snapshot shadow is about to be opened'' (sw_store (start_session w)) = (Inr current, s)"
    using run unfolding open_shadow_def Let_def by (auto split: prod.splits sum.splits)
  note current = checked_not_in_progress[OF c]
  define w0 where "w0 = prepare_shadow retain current (st_shadow st) ((start_session w)\<lparr>sw_store := s\<rparr>)"
  obtain u w1 where w1: "open_transition env retain st current w0 = (Inr u, w1)"
    and w': "w' = (let w2 = if st_incremental st \<and> retain then clone_live env st w1 else w1 in
        w2\<lparr>sw_open := AList.update (qualified_name (st_schema st) (st_table st)) st (sw_open w2)\<rparr>)"
  proof -
    have "open_shadow env retain st w = (case open_transition env retain st current w0 of
             (Inl e, w1) \<Rightarrow> (Inl e, w1)
           | (Inr _, w1) \<Rightarrow>
               let w2 = (if st_incremental st \<and> retain then clone_live env st w1 else w1) in
               (Inr (Some st), w2\<lparr>sw_open := AList.update (qualified_name (st_schema st) (st_table st)) st (sw_open w2)\<rparr>))"
      unfolding open_shadow_def Let_def c prod.case sum.case w0_def ..
    then show ?thesis using run that by (auto simp: Let_def split: prod.splits sum.splits)
  qed
  note same = open_transition_ok[OF w1]
  have t0: "map_of (sw_tables w0) n = (if n = st_shadow st then None else map_of (sw_tables w) n)" for n
    using current by (simp add: w0_def prepare_shadow_def Let_def)
  show "sw_open w' = AList.update (qualified_name (st_schema st) (st_table st)) st (sw_open w)"
    using same(2) by (simp add: w' Let_def w0_def)
  show "map_of (sw_tables w') n = (if n = st_shadow st
        then if st_incremental st \<and> retain then map_option (sg_empty_clone env) (map_of (sw_tables w) (st_target st)) else None
        else map_of (sw_tables w) n)"
    using same(1) t0 ne by (simp add: w' Let_def clone_live_def split: option.split)
qed

lemma move_shadow_ok:
  assumes "move_shadow env st w = (Inr b, w')" and "st_target st \<noteq> st_shadow st"
  shows "sw_open w' = sw_open w"
    and "map_of (sw_tables w') n = (case map_of (sw_tables w) (st_shadow st) of
       None \<Rightarrow> map_of (sw_tables w) n
     | Some c \<Rightarrow> if n = st_target st then Some c else if n = st_shadow st then None else map_of (sw_tables w) n)"
  using assms
  by (auto simp: move_shadow_def put_live_def Let_def split: option.splits list.splits if_splits)

lemma swap_ok:
  assumes run: "swap env st commit lsn w = (Inr b, w')" and ne: "st_target st \<noteq> st_shadow st"
    and opn: "map_of (sw_open w) (qualified_name (st_schema st) (st_table st)) \<noteq> None"
  shows "sw_open w' = AList.delete (qualified_name (st_schema st) (st_table st)) (sw_open w)"
    and "map_of (sw_tables w') n = (case map_of (sw_tables w) (st_shadow st) of
       None \<Rightarrow> map_of (sw_tables w) n
     | Some c \<Rightarrow> if n = st_target st then Some c else if n = st_shadow st then None else map_of (sw_tables w) n)"
    and "stored_state (sg_pipeline env, st_schema st, st_table st) (sw_store w') = LIFECYCLE_COMPLETE"
proof -
  define a where "a = no_args\<lparr>ta_snapshot_lsn := Some lsn, ta_last_commit_id := Some (Some commit), ta_sink := sg_sink env\<rparr>"
  define t where "t = (sg_pipeline env, st_schema st, st_table st)"
  obtain b1 w1 where w1: "move_shadow env st w = (Inr b1, w1)"
    using run opn by (auto simp: swap_def Let_def split: prod.splits sum.splits)
  obtain f s where s: "lifecycle_transition a t LIFECYCLE_COMPLETE ''the shadow was swapped in'' (sw_store w1) = (Inr f, s)"
    and w': "w' = close_phase (qualified_name (st_schema st) (st_table st)) (w1\<lparr>sw_store := s\<rparr>)"
    using run opn w1 unfolding swap_def Let_def a_def[symmetric] t_def[symmetric]
    by (auto split: prod.splits sum.splits if_splits)
  note m = move_shadow_ok[OF w1 ne]
  show "sw_open w' = AList.delete (qualified_name (st_schema st) (st_table st)) (sw_open w)" using m(1) by (simp add: w')
  show "map_of (sw_tables w') n = (case map_of (sw_tables w) (st_shadow st) of
       None \<Rightarrow> map_of (sw_tables w) n
     | Some c \<Rightarrow> if n = st_target st then Some c else if n = st_shadow st then None else map_of (sw_tables w) n)"
    using m(2) by (simp add: w')
  have "stored_state t s = LIFECYCLE_COMPLETE"
    using s by (cases rule: transition_effect) (simp_all add: stored_state_def)
  then show "stored_state (sg_pipeline env, st_schema st, st_table st) (sw_store w') = LIFECYCLE_COMPLETE"
    by (simp add: w' t_def close_phase_def Let_def)
qed

lemma images_other:
  assumes ok: "names_ok env K" "k \<in> K" "k' \<in> K" "k' \<noteq> k"
    and tables: "\<And>n. n \<noteq> live_name env k \<Longrightarrow> n \<noteq> shadow_table (live_name env k) \<Longrightarrow> map_of (sw_tables w') n = map_of (sw_tables w) n"
    and opens: "\<And>key. key \<noteq> key_text k \<Longrightarrow> map_of (sw_open w') key = map_of (sw_open w) key"
  shows "images env w' k' = images env w k'"
  using names_okD[OF ok(1,2,3)] names_okD(3)[OF ok(1,3,2)] ok(4) tables opens by (simp add: images_def)

lemma phase_okD:
  assumes "phase_ok env K w" and "map_of (sw_open w) (key_text k) = Some st" and "names_ok env K" and "k \<in> K"
  shows "(st_schema st, st_table st) = k" and "st_target st = live_name env k" and "st_shadow st = shadow_table (live_name env k)"
    and "qualified_name (st_schema st) (st_table st) = key_text k"
proof -
  have "(st_schema st, st_table st) \<in> K" "key_text k = key_text (st_schema st, st_table st)"
    "st_target st = live_name env (st_schema st, st_table st)" "st_shadow st = shadow_table (st_target st)"
    using assms(1,2) unfolding phase_ok_def by blast+
  moreover from this show "(st_schema st, st_table st) = k" using names_okD(1)[OF assms(3,4)] by metis
  ultimately show "st_target st = live_name env k" "st_shadow st = shadow_table (live_name env k)"
    "qualified_name (st_schema st) (st_table st) = key_text k" by (auto simp: key_text_def)
qed

lemma phase_ok_update:
  assumes "phase_ok env K w" and "sw_open w' = AList.update (key_text k) st (sw_open w)" and "k \<in> K"
    and "(st_schema st, st_table st) = k" "st_target st = live_name env k" "st_shadow st = shadow_table (live_name env k)"
  shows "phase_ok env K w'"
  using assms unfolding phase_ok_def by auto

lemma update_state_refines:
  assumes ok: "phase_ok env K w" "names_ok env K" "k \<in> K"
    and f: "\<And>st. st_schema (f st) = st_schema st \<and> st_table (f st) = st_table st \<and> st_target (f st) = st_target st \<and> st_shadow (f st) = st_shadow st"
  shows "phase_ok env K (update_state (key_text k) f w)" and "images env (update_state (key_text k) f w) k' = images env w k'"
proof -
  show "phase_ok env K (update_state (key_text k) f w)"
  proof (cases "map_of (sw_open w) (key_text k)")
    case (Some st)
    note d = phase_okD[OF ok(1) Some ok(2,3)]
    show ?thesis by (rule phase_ok_update[OF ok(1) _ ok(3), of _ "f st"]) (use Some d f in \<open>simp_all add: update_state_def\<close>)
  qed (use ok in \<open>simp add: update_state_def\<close>)
  show "images env (update_state (key_text k) f w) k' = images env w k'"
    by (auto simp: update_state_def images_def split: option.split)
qed

lemma open_refines:
  assumes ok: "phase_ok env K w" "names_ok env K" "k \<in> K"
    and run: "state_for env (Some (fst k)) (Some (snd k)) retain inc rid w = (Inr x, w')"
  shows "phase_ok env K w'" and "images env w' k = image_step env (OpenTable k retain inc rid) (images env w k)"
    and "k' \<in> K \<Longrightarrow> k' \<noteq> k \<Longrightarrow> images env w' k' = images env w k'"
proof -
  have ne: "fst k \<noteq> ''''" "snd k \<noteq> ''''" using ok by (auto simp: names_ok_def)
  have "phase_ok env K w' \<and> images env w' k = image_step env (OpenTable k retain inc rid) (images env w k) \<and>
      (k' \<in> K \<longrightarrow> k' \<noteq> k \<longrightarrow> images env w' k' = images env w k')"
  proof (cases "map_of (sw_open w) (key_text k)")
    case (Some st)
    then have "w' = w" using run ne by (simp add: state_for_def key_text_def)
    then show ?thesis using ok Some by (simp add: images_def)
  next
    case None
    define st where "st = new_snapshot_table env (fst k) (snd k) (shadow_table (live_name env k)) inc rid"
    have st: "st_schema st = fst k" "st_table st = snd k" "st_target st = live_name env k"
      "st_shadow st = shadow_table (live_name env k)" "st_incremental st = inc"
      by (simp_all add: st_def new_snapshot_table_def live_name_def)
    have o: "open_shadow env retain st w = (Inr x, w')"
      using run ne None by (simp add: state_for_def key_text_def st_def live_name_def)
    have tne: "st_target st \<noteq> st_shadow st" by (simp add: st)
    note u = open_shadow_ok[OF o tne]
    have opens: "sw_open w' = AList.update (key_text k) st (sw_open w)" using u(1) by (simp add: st key_text_def)
    have "phase_ok env K w'" by (rule phase_ok_update[OF ok(1) opens ok(3)]) (simp_all add: st)
    moreover have "images env w' k = image_step env (OpenTable k retain inc rid) (images env w k)"
      using u(2) None opens by (simp add: images_def st)
    moreover have "images env w' k' = images env w k'" if "k' \<in> K" "k' \<noteq> k"
      by (rule images_other[OF ok(2,3) that]) (use u(2) opens st in simp_all)
    ultimately show ?thesis by blast
  qed
  then show "phase_ok env K w'" "images env w' k = image_step env (OpenTable k retain inc rid) (images env w k)"
    "k' \<in> K \<Longrightarrow> k' \<noteq> k \<Longrightarrow> images env w' k' = images env w k'" by blast+
qed

lemma swap_refines:
  assumes ok: "phase_ok env K w" "names_ok env K" "k \<in> K" and st: "map_of (sw_open w) (key_text k) = Some st"
    and run: "swap env st commit lsn w = (Inr b, w')"
  shows "phase_ok env K w'" and "images env w' k = image_step env (SwapTable k commit lsn) (images env w k)"
    and "k' \<in> K \<Longrightarrow> k' \<noteq> k \<Longrightarrow> images env w' k' = images env w k'"
proof -
  note d = phase_okD[OF ok(1) st ok(2,3)]
  have ne: "st_target st \<noteq> st_shadow st" by (simp add: d)
  have opn: "map_of (sw_open w) (qualified_name (st_schema st) (st_table st)) \<noteq> None" using st d(4) by simp
  note u = swap_ok[OF run ne opn]
  show "phase_ok env K w'" using ok(1) u(1) by (simp add: phase_ok_def d(4))
  show "images env w' k = image_step env (SwapTable k commit lsn) (images env w k)"
    using u(1,2) st by (simp add: images_def d split: option.split)
  show "k' \<in> K \<Longrightarrow> k' \<noteq> k \<Longrightarrow> images env w' k' = images env w k'"
    by (rule images_other[OF ok(2,3)]) (use u(1,2) in \<open>simp_all add: d split: option.split\<close>)
qed

lemma load_refines:
  assumes ok: "phase_ok env K w" "names_ok env K" "k \<in> K"
  shows "phase_ok env K (write_rows env (fst k) (snd k) f w)"
    and "images env (write_rows env (fst k) (snd k) f w) k = image_step env (Load k f) (images env w k)"
    and "k' \<in> K \<Longrightarrow> k' \<noteq> k \<Longrightarrow> images env (write_rows env (fst k) (snd k) f w) k' = images env w k'"
proof -
  define n where "n = target_table env w (fst k) (snd k)"
  have n: "n = (if map_of (sw_open w) (key_text k) = None then live_name env k else shadow_table (live_name env k))"
    using phase_okD(3)[OF ok(1) _ ok(2,3)] unfolding n_def
    by (auto simp: target_table_def key_text_def live_name_def split: option.split)
  have w: "write_rows env (fst k) (snd k) f w = w\<lparr>sw_tables := AList.update n (f (map_of (sw_tables w) n)) (sw_tables w)\<rparr>"
    by (simp add: write_rows_def n_def Let_def)
  show "phase_ok env K (write_rows env (fst k) (snd k) f w)" using ok(1) by (simp add: w phase_ok_def)
  show "images env (write_rows env (fst k) (snd k) f w) k = image_step env (Load k f) (images env w k)"
    by (simp add: w n images_def)
  show "k' \<in> K \<Longrightarrow> k' \<noteq> k \<Longrightarrow> images env (write_rows env (fst k) (snd k) f w) k' = images env w k'"
    by (rule images_other[OF ok(2,3)]) (simp_all add: w n)
qed

lemma step_refines:
  assumes ok: "phase_ok env K w" "names_ok env K" "op_table op1 \<in> K" and run: "snapshot_step env op1 w = (Inr u, w')"
  shows "phase_ok env K w'"
    and "k \<in> K \<Longrightarrow> images env w' k = (if op_table op1 = k then image_step env op1 (images env w k) else images env w k)"
proof -
  have "phase_ok env K w' \<and> (k \<in> K \<longrightarrow>
      images env w' k = (if op_table op1 = k then image_step env op1 (images env w k) else images env w k))"
  proof (cases op1)
    case (OpenTable x retain inc rid)
    then obtain y where y: "state_for env (Some (fst x)) (Some (snd x)) retain inc rid w = (Inr y, w')"
      using run by (auto split: prod.splits sum.splits)
    have x: "x \<in> K" using ok(3) OpenTable by simp
    note o = open_refines[OF ok(1,2) x y]
    show ?thesis using o(1) o(2) o(3)[of k] unfolding OpenTable op_table.simps by metis
  next
    case (Reattach x rid inc)
    define st where "st = new_snapshot_table env (fst x) (snd x) (shadow_table (live_name env x)) inc rid"
    have st: "(st_schema st, st_table st) = x" "st_target st = live_name env x" "st_shadow st = shadow_table (live_name env x)"
      by (simp_all add: st_def new_snapshot_table_def live_name_def)
    have w': "sw_open w' = AList.update (key_text x) st (sw_open w)" "sw_tables w' = sw_tables w"
      using run Reattach by (auto simp: reattach_def Let_def key_text_def st_def forget_cached_def)
    have "phase_ok env K w'" by (rule phase_ok_update[OF ok(1) w'(1)]) (use ok(3) Reattach st in simp_all)
    moreover have "images env w' k = (if x = k then image_step env op1 (images env w k) else images env w k)" if "k \<in> K"
      using names_okD(1)[OF ok(2), of k x] that ok(3) Reattach by (auto simp: images_def w')
    ultimately show ?thesis using Reattach by auto
  next
    case (Load x f)
    then have w': "w' = write_rows env (fst x) (snd x) f w" using run by simp
    have x: "x \<in> K" using ok(3) Load by simp
    note l = load_refines[OF ok(1,2) x, where f = f]
    show ?thesis using l(1) l(2) l(3)[of k] unfolding w' Load op_table.simps by metis
  next
    case (NoteRows x n)
    then have "w' = update_state (key_text x) (note_incremental_rows n) w" using run by simp
    then show ?thesis using update_state_refines[OF ok(1,2), of x "note_incremental_rows n"] ok(3) NoteRows
      by (simp add: note_incremental_rows_def)
  next
    case (NoteTerminal x n)
    then have "w' = update_state (key_text x) (note_incremental_terminal n) w" using run by simp
    then show ?thesis using update_state_refines[OF ok(1,2), of x "note_incremental_terminal n"] ok(3) NoteTerminal
      by (simp add: note_incremental_terminal_def)
  next
    case (ScheduleSwap x)
    then have "w' = update_state (key_text x) (snd \<circ> schedule_incremental_swap) w" using run by simp
    then show ?thesis using update_state_refines[OF ok(1,2), of x "snd \<circ> schedule_incremental_swap"] ok(3) ScheduleSwap
      by (simp add: schedule_incremental_swap_def)
  next
    case (SwapTable x commit lsn)
    show ?thesis
    proof (cases "map_of (sw_open w) (key_text x)")
      case None
      then show ?thesis using run SwapTable ok(1) by (auto simp: images_def)
    next
      case (Some st)
      then obtain b where "swap env st commit lsn w = (Inr b, w')" using run SwapTable by (auto split: prod.splits sum.splits)
      note s = swap_refines[OF ok(1,2) _ Some this]
      have "x \<in> K" using ok(3) SwapTable by simp
      then show ?thesis using s(1) s(2) s(3)[of k] unfolding SwapTable op_table.simps by metis
    qed
  qed
  then show "phase_ok env K w'" "k \<in> K \<Longrightarrow> images env w' k = (if op_table op1 = k then image_step env op1 (images env w k) else images env w k)"
    by blast+
qed

text \<open>A run of the coordinator is, for each table, the run of its own operations on its images.\<close>

lemma run_refines:
  assumes "phase_ok env K w" and "names_ok env K" and "\<forall>op1\<in>set ops. op_table op1 \<in> K"
    and "snapshot_run env w ops = Inr w'"
  shows "phase_ok env K w' \<and> (\<forall>k\<in>K. images env w' k = follow env k ops (images env w k))"
  using assms(1,3,4)
proof (induction ops arbitrary: w)
  case Nil
  then show ?case by (simp add: snapshot_run_def follow_def)
next
  case (Cons op1 ops)
  then obtain u w1 where w1: "snapshot_step env op1 w = (Inr u, w1)" "snapshot_run env w1 ops = Inr w'"
    by (auto simp: snapshot_run_def rbind_eq_Inr split: prod.splits sum.splits)
  note s = step_refines[OF Cons.prems(1) assms(2) _ w1(1)]
  have "phase_ok env K w1" using s(1) Cons.prems(2) by simp
  from Cons.IH[OF this _ w1(2)] show ?case using s(2) Cons.prems(2) by (simp add: follow_def)
qed

section \<open>A snapshot goes live whole\<close>

fun loads_of :: "relation_key \<Rightarrow> 'b snapshot_op list \<Rightarrow> ('b option \<Rightarrow> 'b) list" where
  "loads_of k [] = []"
| "loads_of k (Load x f # ops) = (if x = k then f # loads_of k ops else loads_of k ops)"
| "loads_of k (_ # ops) = loads_of k ops"

definition load_all :: "('b option \<Rightarrow> 'b) list \<Rightarrow> 'b option \<Rightarrow> 'b option" where
  "load_all fs c = foldl (\<lambda>c f. Some (f c)) c fs"

fun is_swap_of :: "relation_key \<Rightarrow> 'b snapshot_op \<Rightarrow> bool" where
  "is_swap_of k (SwapTable x _ _) = (x = k)"
| "is_swap_of k _ = False"

lemma follow_open:
  assumes "\<forall>op1\<in>set ops. \<not> is_swap_of k op1" and "im_open im"
  shows "follow env k ops im = im\<lparr>im_shadow := load_all (loads_of k ops) (im_shadow im)\<rparr>"
  using assms
proof (induction ops arbitrary: im)
  case (Cons op1 ops)
  define im1 where "im1 = (if op_table op1 = k then image_step env op1 im else im)"
  have "im_open im1" using Cons.prems by (cases op1) (auto simp: im1_def)
  then have "follow env k ops im1 = im1\<lparr>im_shadow := load_all (loads_of k ops) (im_shadow im1)\<rparr>"
    using Cons by simp
  moreover have "follow env k (op1 # ops) im = follow env k ops im1" by (simp add: follow_def im1_def)
  ultimately show ?case using Cons.prems by (cases op1) (auto simp: im1_def load_all_def)
qed (simp add: follow_def load_all_def)


section \<open>Snapshot identities are not used twice\<close>

lemma fold_max_ge: "(x :: int) = a \<or> x \<in> set xs \<Longrightarrow> x \<le> fold max xs a"
proof (induction xs arbitrary: a x)
  case (Cons y xs)
  have "max y a \<le> fold max xs (max y a)" using Cons.IH by blast
  then show ?case using Cons.prems Cons.IH[of x "max y a"] by auto
qed simp

lemma latest_snapshot_epoch_ge:
  assumes "r \<in> set led" and "le_pipeline r = p" and "lf_snapshot_epoch (le_facts r) = Some ep"
  shows "ep \<le> latest_snapshot_epoch led p"
proof -
  have "ep \<in> set (List.map_filter (\<lambda>r. if le_pipeline r = p then lf_snapshot_epoch (le_facts r) else None) led)"
    using assms by (force simp: List.map_filter_def)
  then show ?thesis unfolding latest_snapshot_epoch_def by (auto split: list.split intro!: fold_max_ge)
qed

lemma no_colon_dumps_int: "CHR '':'' \<notin> set (dumps_int n)"
proof -
  have "CHR '':'' \<notin> set (digits m)" for m
    using is_digit_of_digits[of "CHR '':''" m] by (auto simp: is_digit_char_def)
  then show ?thesis by (simp add: dumps_int_def)
qed

lemma snap_identity_epoch:
  assumes "snap_identity a s t n = snap_identity b s' t' n'"
  shows "a = b"
proof -
  have cut: "takeWhile (\<lambda>c. c \<noteq> CHR '':'') (dumps_int x @ CHR '':'' # r) = dumps_int x" for x r
    using no_colon_dumps_int[of x] by (subst takeWhile_append2) auto
  have "dumps_int a @ CHR '':'' # qualified_name s t @ '':'' @ digits n =
      dumps_int b @ CHR '':'' # qualified_name s' t' @ '':'' @ digits n'"
    using assms by (simp add: snap_identity_def)
  then have "dumps_int a = dumps_int b" using cut by metis
  then show ?thesis using str_int_inj by blast
qed

definition session_ok :: "int \<Rightarrow> 'b snapshot_world \<Rightarrow> bool" where
  "session_ok e0 w \<longleftrightarrow> e0 \<le> sw_epoch w \<and> (sw_session w \<longrightarrow> e0 < sw_epoch w) \<and> (sw_open w \<noteq> [] \<longrightarrow> sw_session w)"

lemma open_shadow_session:
  assumes "session_ok e0 w"
  shows "session_ok e0 (snd (open_shadow env retain st w))"
proof -
  have s: "sw_session (start_session w)" "e0 < sw_epoch (start_session w)"
    using assms by (auto simp: session_ok_def start_session_def)
  have p: "sw_session (prepare_shadow r c n x) = sw_session x" "sw_epoch (prepare_shadow r c n x) = sw_epoch x"
      "sw_session (clone_live env st x) = sw_session x" "sw_epoch (clone_live env st x) = sw_epoch x"
      "sw_session (snd (open_transition env r st c x)) = sw_session x"
      "sw_epoch (snd (open_transition env r st c x)) = sw_epoch x" for r c n and x :: "'a snapshot_world"
    by (auto simp: prepare_shadow_def forget_cached_def clone_live_def open_transition_def discard_created_def Let_def
        split: option.split prod.split sum.split)
  obtain c1 s1 where c: "check_transition (sg_sink env) (sg_pipeline env, st_schema st, st_table st) LIFECYCLE_IN_PROGRESS
      ''a snapshot shadow is about to be opened'' (sw_store (start_session w)) = (c1, s1)" by fastforce
  define w0 where "w0 = (\<lambda>current. prepare_shadow retain current (st_shadow st) ((start_session w)\<lparr>sw_store := s1\<rparr>))"
  have w0: "sw_session (w0 x)" "e0 < sw_epoch (w0 x)" for x using s by (simp_all add: w0_def p)
  have o: "sw_session (snd (open_transition env retain st x (w0 x)))" "e0 < sw_epoch (snd (open_transition env retain st x (w0 x)))" for x
    using w0 by (simp_all add: p)
  show ?thesis
  proof (cases c1)
    case (Inl e)
    then show ?thesis using s unfolding open_shadow_def Let_def c by (simp add: session_ok_def)
  next
    case (Inr current)
    obtain r w1 where r: "open_transition env retain st current (w0 current) = (r, w1)" by fastforce
    have w1: "sw_session w1" "e0 < sw_epoch w1" using o[of current] r by simp_all
    show ?thesis unfolding open_shadow_def Let_def c prod.case Inr sum.case r[unfolded w0_def]
      using w1 by (cases r) (simp_all add: session_ok_def p)
  qed
qed

lemma step_session:
  assumes ok: "session_ok e0 w" and nr: "\<And>k r i. op1 \<noteq> Reattach k r i"
  shows "session_ok e0 (snd (snapshot_step env op1 w))"
proof (cases op1)
  case (OpenTable k retain inc rid)
  have "session_ok e0 (snd (state_for env (Some (fst k)) (Some (snd k)) retain inc rid w))"
    using ok open_shadow_session[OF ok] by (simp add: state_for_def split: option.split)
  then show ?thesis using OpenTable by (auto split: prod.split sum.split)
next
  case (SwapTable k commit lsn)
  have mv: "sw_session (snd (move_shadow env st w)) = sw_session w \<and> sw_epoch (snd (move_shadow env st w)) = sw_epoch w \<and>
      sw_open (snd (move_shadow env st w)) = sw_open w" for st
    by (auto simp: move_shadow_def forget_cached_def discard_created_def Let_def split: option.split list.split)
  have "session_ok e0 (snd (swap env st commit lsn w))" for st
  proof -
    obtain r w1 where r: "move_shadow env st w = (r, w1)" by fastforce
    then have w1: "session_ok e0 w1" using ok mv[of st] by (simp add: session_ok_def)
    have "session_ok e0 (close_phase key (w1\<lparr>sw_store := s\<rparr>))" for key s
      using w1 by (auto simp: session_ok_def close_phase_def Let_def)
    then show ?thesis using ok w1 unfolding swap_def Let_def r
      by (auto simp: session_ok_def split: sum.split prod.split)
  qed
  then have "session_ok e0 (snd (case swap env st commit lsn w of (Inl e, w') \<Rightarrow> (Inl e, w') | (Inr _, w') \<Rightarrow> (Inr (), w')))" for st
    by (cases "swap env st commit lsn w") (metis (mono_tags, lifting) old.prod.case old.sum.exhaust old.sum.simps(5,6) snd_conv)
  then show ?thesis using SwapTable ok by (simp split: option.split)
next
  case (Reattach k rid inc)
  then show ?thesis using nr by blast
qed (use ok in \<open>auto simp: session_ok_def write_rows_def update_state_def Let_def split: option.split\<close>)

lemma run_session:
  assumes "session_ok e0 w" and "\<forall>op1\<in>set ops. \<forall>k r i. op1 \<noteq> Reattach k r i" and "snapshot_run env w ops = Inr w'"
  shows "session_ok e0 w'"
  using assms
proof (induction ops arbitrary: w)
  case (Cons op1 ops)
  then obtain u w1 where w1: "snapshot_step env op1 w = (Inr u, w1)" "snapshot_run env w1 ops = Inr w'"
    by (auto simp: snapshot_run_def rbind_eq_Inr split: prod.splits sum.splits)
  have "session_ok e0 w1" using step_session[OF Cons.prems(1), of op1 env] Cons.prems(2) w1(1) by simp
  then show ?case using Cons.IH[OF _ _ w1(2)] Cons.prems(2) by simp
qed (simp add: snapshot_run_def)

text \<open>C28: Snapshot identities are not used twice.  In a process that reattached no durable run,
  the identity a snapshot record gets while a table is in the phase differs from every identity
  of an epoch the ledger of the pipeline has committed, and from every identity of the epoch of
  the resume point, whatever happened to the resume row.\<close>

theorem snapshot_identities_are_fresh:
  assumes run: "snapshot_run env (new_coordinator store tables resume led (sg_pipeline env)) ops = Inr w"
    and ops: "\<forall>op1\<in>set ops. \<forall>k r i. op1 \<noteq> Reattach k r i" and phase: "sw_open w \<noteq> []"
    and e: "event_id w e = Inr i" "\<not> pr_incremental e"
    and ep: "ep \<le> resume \<or> (\<exists>r\<in>set led. le_pipeline r = sg_pipeline env \<and> lf_snapshot_epoch (le_facts r) = Some ep)"
  shows "i \<noteq> snap_identity ep schema table n"
proof
  assume i: "i = snap_identity ep schema table n"
  have "session_ok (start_epoch resume led (sg_pipeline env)) (new_coordinator store tables resume led (sg_pipeline env))"
    by (simp add: session_ok_def new_coordinator_def)
  from run_session[OF this ops run] phase have "start_epoch resume led (sg_pipeline env) < sw_epoch w"
    by (simp add: session_ok_def)
  moreover have "ep \<le> start_epoch resume led (sg_pipeline env)"
    using ep latest_snapshot_epoch_ge by (fastforce simp: start_epoch_def)
  moreover have "sw_epoch w = ep"
    using e i snap_identity_epoch by (auto simp: event_id_def split: option.splits)
  ultimately show False by simp
qed

section \<open>Concrete runs\<close>

definition sample_snapshots :: "string list snapshot_env" where
  "sample_snapshots = \<lparr>sg_pipeline = ''p'', sg_target = (\<lambda>s t. ''cdc_'' @ s @ ''_'' @ t), sg_transactional_ddl = True,
     sg_sink = True, sg_empty_clone = (\<lambda>_. []), sg_crash = (\<lambda>_ _. False), sg_on_swap = None\<rparr>"

definition append_row :: "string \<Rightarrow> string list option \<Rightarrow> string list" where
  "append_row x c = (case c of None \<Rightarrow> [] | Some xs \<Rightarrow> xs) @ [x]"

definition owed_row :: "table_id \<times> state_row" where
  "owed_row = ((''p'', ''app'', ''orders''),
     \<lparr>sr_target_table = ''cdc_app_orders'', sr_snapshot_state = LIFECYCLE_AWAITING, sr_snapshot_epoch = 1,
      sr_snapshot_lsn = None, sr_last_commit_id = None, sr_policy = default_policy None\<rparr>)"

definition owed_world :: "string list snapshot_world" where
  \<comment> \<open>a snapshot died after its first chunk; the start-up made it owed work\<close>
  "owed_world = new_coordinator \<lparr>cs_rows = [owed_row], cs_alerts = []\<rparr>
     [(''cdc_app_orders'', [''kept'']), (shadow_table ''cdc_app_orders'', [''stale''])] 1 [] ''p''"

abbreviation orders :: relation_key where "orders \<equiv> (''app'', ''orders'')"
abbreviation items :: relation_key where "items \<equiv> (''app'', ''items'')"

abbreviation shadow_ops :: "string list snapshot_op list" where
  "shadow_ops \<equiv> [Load orders (append_row ''a''), Load items (append_row ''x''), Load orders (append_row ''b'')]"

definition loaded :: "string list snapshot_world" where
  "loaded = (case snapshot_run sample_snapshots owed_world (OpenTable orders False False None # shadow_ops) of
     Inl _ \<Rightarrow> owed_world | Inr w \<Rightarrow> w)"

lemma loaded_run: "snapshot_run sample_snapshots owed_world (OpenTable orders False False None # shadow_ops) = Inr loaded"
proof -
  have "is_ok (snapshot_run sample_snapshots owed_world (OpenTable orders False False None # shadow_ops))" by code_simp
  then show ?thesis unfolding loaded_def by (auto simp: is_ok_iff)
qed


lemma snapshot_identities_are_fresh_witness:
  "''snap:2:app.orders:3'' \<noteq> snap_identity 1 ''app'' ''orders'' 3"
proof -
  define e where "e = (blank_record 0 None KIND_SNAPSHOT)\<lparr>pr_schema := Some ''app'', pr_table := Some ''orders'',
    pr_snapshot_ordinal := Some 3\<rparr>"
  have run: "snapshot_run sample_snapshots (new_coordinator \<lparr>cs_rows = [owed_row], cs_alerts = []\<rparr>
     [(''cdc_app_orders'', [''kept'']), (shadow_table ''cdc_app_orders'', [''stale''])] 1 [] (sg_pipeline sample_snapshots))
     (OpenTable orders False False None # shadow_ops) = Inr loaded"
    using loaded_run by (simp add: owed_world_def sample_snapshots_def)
  have "sw_open loaded \<noteq> []" by code_simp
  moreover have "event_id loaded e = Inr ''snap:2:app.orders:3''" unfolding e_def by code_simp
  ultimately show ?thesis
    by (intro snapshot_identities_are_fresh[OF run, of e]) (simp_all add: e_def blank_record_def)
qed

text \<open>A group that fails for one table is rolled back and committed again in the same process, but
  the coordinator's memory is not: the second attempt finds the table in the phase, does not
  drop the shadow of the earlier snapshot again, and the swap puts its rows live.\<close>

lemma retried_group_loads_the_old_shadow:
  "(case snapshot_run sample_snapshots owed_world [OpenTable orders False False None, Load orders (append_row ''a'')] of
      Inl _ \<Rightarrow> None
    | Inr w \<Rightarrow>
        (case snapshot_run sample_snapshots (roll_back owed_world w)
                [OpenTable orders False False None, Load orders (append_row ''a''), SwapTable orders 7 (Some 70)] of
           Inl _ \<Rightarrow> None | Inr w' \<Rightarrow> im_live (images sample_snapshots w' orders))) = Some [''stale'', ''a'']"
  by code_simp

text \<open>A reattached durable run counts as a session, so the next table that is snapshotted in the
  same process gets the epoch the ledger has committed.\<close>

lemma reattached_process_reuses_the_epoch:
  "(case snapshot_run sample_snapshots owed_world [Reattach items (Some ''run'') True, OpenTable orders False False None] of
      Inl _ \<Rightarrow> None
    | Inr w \<Rightarrow> Some (event_id w ((blank_record 0 None KIND_SNAPSHOT)\<lparr>pr_schema := Some ''app'',
                 pr_table := Some ''orders'', pr_snapshot_ordinal := Some 3\<rparr>))) =
     Some (Inr (snap_identity 1 ''app'' ''orders'' 3))"
  by code_simp

end
